(* ===== verification/Zen_Prelude.thy ===== *)
theory Zen_Prelude
  imports Main "HOL-Library.Word"
begin

text \<open>
  Shared vocabulary of the development: the widths of the machine integers of the
  program, the C idioms several components use (memcpy and memset into a fixed array,
  C's truncating conversions) and the generic list and word lemmas their proofs share.

  Conventions.  An array of the program is a list whose length is kept by the
  component's invariant; an index outside it never occurs in a state that satisfies the
  invariant.  A function that returns an \<open>int\<close> status returns it as an \<open>int\<close> beside
  the new state.  A pointer that the code tests against \<open>NULL\<close> is an option.
\<close>

unbundle bit_operations_syntax

section \<open>Machine integers\<close>

type_synonym u8 = "8 word"
type_synonym u16 = "16 word"
type_synonym u32 = "32 word"
type_synonym u64 = "64 word"
type_synonym u128 = "128 word"

type_synonym bytes = "u8 list"

named_theorems zlen \<open>lengths of the arrays the operations return\<close>
named_theorems zbyte \<open>round trips of the byte encodings\<close>

section \<open>Arrays\<close>

text \<open>\<open>memcpy(dst + off, src, n)\<close>: the first n bytes of src replace dst[off..off+n).\<close>

definition memcpy_at :: "'a list \<Rightarrow> nat \<Rightarrow> 'a list \<Rightarrow> nat \<Rightarrow> 'a list" where
  "memcpy_at dst off src n = take off dst @ take n src @ drop (off + n) dst"

text \<open>\<open>memset(dst + off, x, n)\<close>.\<close>

definition memset_at :: "'a list \<Rightarrow> nat \<Rightarrow> 'a \<Rightarrow> nat \<Rightarrow> 'a list" where
  "memset_at dst off x n = take off dst @ replicate n x @ drop (off + n) dst"

lemma length_memcpy_at [simp, zlen]:
  "off + n \<le> length dst \<Longrightarrow> n \<le> length src \<Longrightarrow> length (memcpy_at dst off src n) = length dst"
  by (simp add: memcpy_at_def)

lemma length_memset_at [simp, zlen]:
  "off + n \<le> length dst \<Longrightarrow> length (memset_at dst off x n) = length dst"
  by (simp add: memset_at_def)

lemma take_memcpy_at:
  "off \<le> length dst \<Longrightarrow> n \<le> length src \<Longrightarrow>
     take (off + n) (memcpy_at dst off src n) = take off dst @ take n src"
  by (simp add: memcpy_at_def)

lemma take_memset_at:
  "off \<le> length dst \<Longrightarrow> take (off + n) (memset_at dst off x n) = take off dst @ replicate n x"
  by (simp add: memset_at_def)

lemma drop_memcpy_at:
  "off \<le> length dst \<Longrightarrow> n \<le> length src \<Longrightarrow>
     drop (off + n) (memcpy_at dst off src n) = drop (off + n) dst"
  by (simp add: memcpy_at_def)

lemma memcpy_at_full:
  "off + n = length dst \<Longrightarrow> memcpy_at dst off src n = take off dst @ take n src"
  by (simp add: memcpy_at_def)

lemma nth_memcpy_at:
  "off + n \<le> length dst \<Longrightarrow> n \<le> length src \<Longrightarrow> i < length dst \<Longrightarrow>
     memcpy_at dst off src n ! i = (if off \<le> i \<and> i < off + n then src ! (i - off) else dst ! i)"
  by (auto simp: memcpy_at_def nth_append min_def)

lemma nth_memset_at:
  "off + n \<le> length dst \<Longrightarrow> i < length dst \<Longrightarrow>
     memset_at dst off x n ! i = (if off \<le> i \<and> i < off + n then x else dst ! i)"
  by (auto simp: memset_at_def nth_append min_def)

lemma memcpy_at_cong_take:
  "take n src = take n src' \<Longrightarrow> memcpy_at dst off src n = memcpy_at dst off src' n"
  by (simp add: memcpy_at_def)

section \<open>Lists cut into fixed-size pieces\<close>

text \<open>The n-byte pieces of a list, the last one possibly short.\<close>

fun chunks :: "nat \<Rightarrow> 'a list \<Rightarrow> 'a list list" where
  "chunks n [] = []"
| "chunks n (x # xs) =
     (if n = 0 then [x # xs] else take n (x # xs) # chunks n (drop (n - 1) xs))"

lemma concat_chunks [simp]: "concat (chunks n xs) = xs"
proof (induction n xs rule: chunks.induct)
  case (2 n x xs)
  show ?case
  proof (cases n)
    case (Suc m)
    with 2 show ?thesis by simp
  qed simp
qed simp

lemma upt_split: "i \<le> j \<Longrightarrow> j \<le> k \<Longrightarrow> [i..<k] = [i..<j] @ [j..<k]"
  using upt_add_eq_append [of i j "k - j"] by simp

lemma list_of_length_4: "length xs = 4 \<Longrightarrow> xs = [xs ! 0, xs ! 1, xs ! 2, xs ! 3]"
  by (rule nth_equalityI) (auto simp: less_Suc_eq numeral_eq_Suc)

lemma list_of_length_8:
  "length xs = 8 \<Longrightarrow> xs = [xs ! 0, xs ! 1, xs ! 2, xs ! 3, xs ! 4, xs ! 5, xs ! 6, xs ! 7]"
  by (rule nth_equalityI) (auto simp: less_Suc_eq numeral_eq_Suc)

section \<open>Loops whose body may fail\<close>

fun fold_opt :: "('a \<Rightarrow> 's \<Rightarrow> 's option) \<Rightarrow> 'a list \<Rightarrow> 's \<Rightarrow> 's option" where
  "fold_opt f [] s = Some s"
| "fold_opt f (x # xs) s = Option.bind (f x s) (fold_opt f xs)"

lemma fold_opt_append: "fold_opt f (xs @ ys) s = Option.bind (fold_opt f xs s) (fold_opt f ys)"
  by (induction xs arbitrary: s) (auto split: bind_splits)

text \<open>A loop over an index range keeps an invariant that may mention the index.\<close>

lemma fold_opt_upt:
  assumes "a \<le> b" and "P a s"
    and "\<And>i s. a \<le> i \<Longrightarrow> i < b \<Longrightarrow> P i s \<Longrightarrow> \<exists>s'. f i s = Some s' \<and> P (Suc i) s'"
  shows "\<exists>s'. fold_opt f [a..<b] s = Some s' \<and> P b s'"
  using assms
proof (induction b)
  case (Suc b)
  show ?case
  proof (cases "a = Suc b")
    case False
    with Suc.prems(1) have "a \<le> b" by simp
    then obtain t where t: "fold_opt f [a..<b] s = Some t" "P b t"
      using Suc.IH Suc.prems by force
    then obtain t' where "f b t = Some t'" "P (Suc b) t'"
      using Suc.prems(3) [OF \<open>a \<le> b\<close>, of t] by auto
    with t \<open>a \<le> b\<close> show ?thesis by (simp add: fold_opt_append)
  qed (use Suc.prems in simp)
qed simp

text \<open>The same for two runs side by side.\<close>

lemma fold_opt_upt2:
  assumes "a \<le> b" and "P a s t"
    and "\<And>i s t. a \<le> i \<Longrightarrow> i < b \<Longrightarrow> P i s t \<Longrightarrow>
           \<exists>s' t'. f i s = Some s' \<and> g i t = Some t' \<and> P (Suc i) s' t'"
  shows "\<exists>s' t'. fold_opt f [a..<b] s = Some s' \<and> fold_opt g [a..<b] t = Some t' \<and> P b s' t'"
  using assms
proof (induction b)
  case (Suc b)
  show ?case
  proof (cases "a = Suc b")
    case False
    with Suc.prems(1) have ab: "a \<le> b" by simp
    then obtain u v where u: "fold_opt f [a..<b] s = Some u" "fold_opt g [a..<b] t = Some v" "P b u v"
      using Suc.IH Suc.prems by force
    then obtain u' v' where "f b u = Some u'" "g b v = Some v'" "P (Suc b) u' v'"
      using Suc.prems(3) [OF ab, of u v] by auto
    with u ab show ?thesis by (simp add: fold_opt_append)
  qed (use Suc.prems in simp)
qed simp

section \<open>Results that are an error code or a value\<close>

definition err_bind :: "'e + 'a \<Rightarrow> ('a \<Rightarrow> 'e + 'b) \<Rightarrow> 'e + 'b" where
  "err_bind r f = (case r of Inl e \<Rightarrow> Inl e | Inr x \<Rightarrow> f x)"

lemma err_bind_simps [simp]: "err_bind (Inl e) f = Inl e" "err_bind (Inr x) f = f x"
  by (simp_all add: err_bind_def)

section \<open>Words\<close>

lemma unat_lt_2p:
  fixes w :: "'a::len word"
  shows "unat w < 2 ^ LENGTH('a)"
  using unsigned_less [of w] by simp

lemma unat_u64_lt: "unat (w :: u64) < 18446744073709551616"
  using unat_lt_2p [of w] by simp

lemma unat_u32_lt: "unat (w :: u32) < 4294967296"
  using unat_lt_2p [of w] by simp

lemma unat_u8_lt: "unat (w :: u8) < 256"
  using unat_lt_2p [of w] by simp

lemma unat_of_nat_small:
  "n < 2 ^ LENGTH('a) \<Longrightarrow> unat (of_nat n :: 'a::len word) = n"
  by (simp add: unat_of_nat take_bit_nat_eq_self)

lemma unat_drop_bit_div: "unat (drop_bit n w) = unat w div 2 ^ n"
  for w :: "'a::len word"
  unfolding unat_drop_bit_eq by (rule drop_bit_eq_div)

lemma unat_ucast_up:
  "LENGTH('a) \<le> LENGTH('b) \<Longrightarrow> unat (ucast w :: 'b::len word) = unat w"
  for w :: "'a::len word"
proof -
  assume "LENGTH('a) \<le> LENGTH('b)"
  then have "unat w < 2 ^ LENGTH('b)"
    using unat_lt_2p [of w] power_increasing [of "LENGTH('a)" "LENGTH('b)" "2 :: nat"] by linarith
  then show ?thesis by (simp add: unsigned_ucast_eq take_bit_nat_eq_self)
qed

lemma unat_push_bit_mod: "unat (push_bit n w) = (unat w * 2 ^ n) mod 2 ^ LENGTH('a)"
  for w :: "'a::len word"
  unfolding unsigned_push_bit_eq by (simp only: take_bit_eq_mod push_bit_eq_mult)

lemma bit_word_iff_odd: "bit w n \<longleftrightarrow> odd (unat w div 2 ^ n)"
  for w :: "'a::len word"
proof -
  have "bit w n \<longleftrightarrow> bit (unat w) n"
    using bit_imp_le_length [of w n] by (auto simp: bit_unsigned_iff)
  then show ?thesis by (simp only: bit_iff_odd)
qed

lemma unat_add_small:
  fixes a b :: "'a::len word"
  shows "unat a + unat b < 2 ^ LENGTH('a) \<Longrightarrow> unat (a + b) = unat a + unat b"
  by (simp add: unat_word_ariths)

lemma unat_mult_small:
  fixes a b :: "'a::len word"
  shows "unat a * unat b < 2 ^ LENGTH('a) \<Longrightarrow> unat (a * b) = unat a * unat b"
  by (simp add: unat_word_ariths)

lemma unat_inc_less:
  fixes i n :: "'a::len word"
  assumes "i < n"
  shows "unat (i + 1) = Suc (unat i)"
proof -
  have "unat i < unat n" and "unat n < 2 ^ LENGTH('a)"
    using assms unat_lt_2p [of n] by (auto simp: word_less_nat_alt)
  then have "unat i + unat (1 :: 'a word) < 2 ^ LENGTH('a)" by (simp only: unat_1)
  then show ?thesis by (subst unat_add_small) simp_all
qed

end
