(* ===== verification/Bytes.thy ===== *)
theory Bytes
  imports Zen_Prelude
begin

text \<open>
  The byte order helpers every component of the hash code uses:
  \<open>crypto/randomx/blake2/endian.h\<close> and \<open>crypto/randomx/blake2/blake2-impl.h\<close>.  The loads
  and stores are the portable branches (\<open>#else\<close> of \<open>NATIVE_LITTLE_ENDIAN\<close>), which the
  \<open>memcpy\<close> branches equal on the little-endian machines that select them.  A load reads the
  first bytes of its argument; the code's \<open>load(p + i)\<close> is \<open>load (drop i p)\<close>.
\<close>

section \<open>Loads and stores\<close>

definition load32 :: "bytes \<Rightarrow> u32" where
  "load32 p = ucast (p ! 0) OR push_bit 8 (ucast (p ! 1)) OR push_bit 16 (ucast (p ! 2))
     OR push_bit 24 (ucast (p ! 3))"

definition load64 :: "bytes \<Rightarrow> u64" where
  "load64 p = ucast (p ! 0) OR push_bit 8 (ucast (p ! 1)) OR push_bit 16 (ucast (p ! 2))
     OR push_bit 24 (ucast (p ! 3)) OR push_bit 32 (ucast (p ! 4)) OR push_bit 40 (ucast (p ! 5))
     OR push_bit 48 (ucast (p ! 6)) OR push_bit 56 (ucast (p ! 7))"

definition load48 :: "bytes \<Rightarrow> u64" where
  "load48 p = ucast (p ! 0) OR push_bit 8 (ucast (p ! 1)) OR push_bit 16 (ucast (p ! 2))
     OR push_bit 24 (ucast (p ! 3)) OR push_bit 32 (ucast (p ! 4)) OR push_bit 40 (ucast (p ! 5))"

text \<open>
  A store writes the low byte, shifts the word right by 8 and goes on: \<open>store_le n w\<close> is
  the n-byte loop that \<open>store32\<close>, \<open>store48\<close> and \<open>store64\<close> write out.
\<close>

primrec store_le :: "nat \<Rightarrow> 'a::len word \<Rightarrow> bytes" where
  "store_le 0 w = []"
| "store_le (Suc n) w = ucast w # store_le n (drop_bit 8 w)"

definition store32 :: "u32 \<Rightarrow> bytes" where
  "store32 w = store_le 4 w"

definition store64 :: "u64 \<Rightarrow> bytes" where
  "store64 w = store_le 8 w"

definition store48 :: "u64 \<Rightarrow> bytes" where
  "store48 w = store_le 6 w"

lemma length_store_le [simp, zlen]: "length (store_le n w) = n"
  by (induction n arbitrary: w) simp_all

lemma length_store32 [simp, zlen]: "length (store32 w) = 4"
  by (simp add: store32_def)

lemma length_store64 [simp, zlen]: "length (store64 w) = 8"
  by (simp add: store64_def)

lemma nth_store_le: "i < n \<Longrightarrow> store_le n w ! i = ucast (drop_bit (8 * i) w)"
proof (induction n arbitrary: w i)
  case (Suc n)
  then show ?case by (cases i) (simp_all add: add.commute)
qed simp

lemma nth_store32: "i < 4 \<Longrightarrow> store32 w ! i = ucast (drop_bit (8 * i) w)"
  by (simp add: store32_def nth_store_le)

lemma nth_store64: "i < 8 \<Longrightarrow> store64 w ! i = ucast (drop_bit (8 * i) w)"
  by (simp add: store64_def nth_store_le)

lemma load32_append: "length p = 4 \<Longrightarrow> load32 (p @ q) = load32 p"
  by (simp add: load32_def nth_append)

lemma load64_append: "length p = 8 \<Longrightarrow> load64 (p @ q) = load64 p"
  by (simp add: load64_def nth_append)

lemma load32_take: "4 \<le> n \<Longrightarrow> load32 (take n p) = load32 p"
  by (simp add: load32_def)

lemma load64_take: "8 \<le> n \<Longrightarrow> load64 (take n p) = load64 p"
  by (simp add: load64_def)

section \<open>Round trips\<close>

text \<open>Both loads are Horner sums of their bytes; the bits of such a sum are the bits of the bytes.\<close>

primrec load_le :: "bytes \<Rightarrow> 'a::len word" where
  "load_le [] = 0"
| "load_le (b # bs) = ucast b OR push_bit 8 (load_le bs)"

lemma load32_load_le: "load32 p = load_le [p ! 0, p ! 1, p ! 2, p ! 3]"
  by (simp add: load32_def push_bit_or)

lemma load64_load_le:
  "load64 p = load_le [p ! 0, p ! 1, p ! 2, p ! 3, p ! 4, p ! 5, p ! 6, p ! 7]"
  by (simp add: load64_def push_bit_or)

lemma load32_eq_load_le: "length p = 4 \<Longrightarrow> load32 p = load_le p"
  using list_of_length_4 [of p] load32_load_le [of p] by metis

lemma load64_eq_load_le: "length p = 8 \<Longrightarrow> load64 p = load_le p"
  using list_of_length_8 [of p] load64_load_le [of p] by metis

lemma bit_load_le:
  "bit (load_le bs :: 'a::len word) n \<longleftrightarrow>
     n < LENGTH('a) \<and> n div 8 < length bs \<and> bit (bs ! (n div 8)) (n mod 8)"
proof (induction bs arbitrary: n)
  case (Cons b bs)
  show ?case
  proof (cases "n < 8")
    case True
    then show ?thesis by (auto simp: bit_simps)
  next
    case False
    then have "n div 8 = Suc ((n - 8) div 8)" "n mod 8 = (n - 8) mod 8"
      by (simp_all add: le_div_geq le_mod_geq)
    moreover have "\<not> bit b n"
      using False bit_imp_le_length [of b n] by auto
    ultimately show ?thesis
      using False Cons.IH [of "n - 8"] by (auto simp: bit_simps)
  qed
qed simp

lemma load_le_store_le:
  "LENGTH('a) = 8 * n \<Longrightarrow> load_le (store_le n (w :: 'a::len word)) = w"
proof (rule bit_word_eqI)
  fix k
  assume n: "LENGTH('a) = 8 * n" and k: "k < LENGTH('a)"
  then have "k div 8 < n" by simp
  then show "bit (load_le (store_le n w) :: 'a word) k \<longleftrightarrow> bit w k"
    using k by (simp add: bit_load_le nth_store_le bit_simps)
qed

lemma store_le_load_le:
  "LENGTH('a) = 8 * length bs \<Longrightarrow> store_le (length bs) (load_le bs :: 'a::len word) = bs"
proof (rule nth_equalityI)
  fix i
  assume n: "LENGTH('a) = 8 * length bs"
    and i: "i < length (store_le (length bs) (load_le bs :: 'a word))"
  then have i: "i < length bs" by simp
  show "store_le (length bs) (load_le bs :: 'a word) ! i = bs ! i"
  proof (rule bit_word_eqI)
    fix k :: nat
    assume "k < LENGTH(8)"
    then have k: "k < 8" by simp
    then have "(8 * i + k) div 8 = i" "(8 * i + k) mod 8 = k" by simp_all
    moreover have "8 * i + k < 8 * length bs" using i k by simp
    ultimately show "bit (store_le (length bs) (load_le bs :: 'a word) ! i) k \<longleftrightarrow> bit (bs ! i) k"
      using i k n by (simp add: nth_store_le bit_simps bit_load_le)
  qed
qed simp

lemma load32_store32 [simp, zbyte]: "load32 (store32 w) = w"
  by (simp add: load32_eq_load_le store32_def load_le_store_le)

lemma load64_store64 [simp, zbyte]: "load64 (store64 w) = w"
  by (simp add: load64_eq_load_le store64_def load_le_store_le)

lemma store32_load32 [simp, zbyte]: "length p = 4 \<Longrightarrow> store32 (load32 p) = p"
  using store_le_load_le [of p, where 'a = 32] by (simp add: load32_eq_load_le store32_def)

lemma store64_load64 [simp, zbyte]: "length p = 8 \<Longrightarrow> store64 (load64 p) = p"
  using store_le_load_le [of p, where 'a = 64] by (simp add: load64_eq_load_le store64_def)

lemma load32_store32_append [simp, zbyte]: "load32 (store32 w @ q) = w"
  by (simp add: load32_append)

lemma load64_store64_append [simp, zbyte]: "load64 (store64 w @ q) = w"
  by (simp add: load64_append)

lemma store64_inject: "store64 a = store64 b \<longleftrightarrow> a = b"
  by (metis load64_store64)

section \<open>Rotations\<close>

text \<open>\<open>rotr32\<close> and \<open>rotr64\<close> of \<open>blake2-impl.h\<close>; the code calls them with \<open>0 < c < w\<close>.\<close>

definition rotr32 :: "u32 \<Rightarrow> nat \<Rightarrow> u32" where
  "rotr32 w c = drop_bit c w OR push_bit (32 - c) w"

definition rotr64 :: "u64 \<Rightarrow> nat \<Rightarrow> u64" where
  "rotr64 w c = drop_bit c w OR push_bit (64 - c) w"

lemma bit_rotr64:
  assumes "0 < c" and "c < 64" and "n < 64"
  shows "bit (rotr64 w c) n \<longleftrightarrow> bit w ((n + c) mod 64)"
proof (cases "n + c < 64")
  case True
  moreover have "\<not> 64 - c \<le> n" using True assms by simp
  ultimately show ?thesis using assms by (simp add: rotr64_def bit_simps add.commute)
next
  case False
  moreover from this have "\<not> bit w (n + c)" using bit_imp_le_length [of w "n + c"] by auto
  moreover from False have "64 - c \<le> n" by simp
  ultimately show ?thesis
    using assms by (simp add: rotr64_def bit_simps le_mod_geq add.commute)
qed

lemma bit_rotr32:
  assumes "0 < c" and "c < 32" and "n < 32"
  shows "bit (rotr32 w c) n \<longleftrightarrow> bit w ((n + c) mod 32)"
proof (cases "n + c < 32")
  case True
  moreover have "\<not> 32 - c \<le> n" using True assms by simp
  ultimately show ?thesis using assms by (simp add: rotr32_def bit_simps add.commute)
next
  case False
  moreover from this have "\<not> bit w (n + c)" using bit_imp_le_length [of w "n + c"] by auto
  moreover from False have "32 - c \<le> n" by simp
  ultimately show ?thesis
    using assms by (simp add: rotr32_def bit_simps le_mod_geq add.commute)
qed

lemma rotr64_inverse:
  assumes "0 < c" and "c < 64"
  shows "rotr64 (rotr64 w c) (64 - c) = w"
proof (rule bit_word_eqI)
  fix n :: nat
  assume "n < LENGTH(64)"
  then have n: "n < 64" by simp
  have "((n + (64 - c)) mod 64 + c) mod 64 = n"
    using assms n by (simp add: mod_add_left_eq)
  then show "bit (rotr64 (rotr64 w c) (64 - c)) n \<longleftrightarrow> bit w n"
    using assms n by (simp add: bit_rotr64)
qed

end
