(* ===== verification/Reciprocal.thy ===== *)
theory Reciprocal
  imports Zen_Prelude
begin

text \<open>
  \<open>crypto/randomx/reciprocal.c\<close>: the 64-bit reciprocal the superscalar and RandomX programs
  multiply by instead of dividing.  The shift-and-subtract loop of \<open>randomx_reciprocal\<close> and
  the two-division form \<open>randomx_reciprocal_fast\<close> are modelled on 64-bit words, wrap-around
  included; the specification is the integer quotient of a power of two.
\<close>

section \<open>The two routines\<close>

text \<open>\<open>for (bit = divisor; bit > 0; bit >>= 1) bsr++;\<close>\<close>

function recip_bsr :: "u64 \<Rightarrow> nat \<Rightarrow> nat" where
  "recip_bsr b bsr = (if 0 < b then recip_bsr (drop_bit 1 b) (Suc bsr) else bsr)"
  by pat_completeness auto
termination
proof (relation "measure (\<lambda>(b, bsr). unat b)")
  show "wf (measure (\<lambda>(b :: u64, bsr :: nat). unat b))" by simp
next
  fix b :: u64 and bsr :: nat
  assume "0 < b"
  then have "0 < unat b" by (simp add: word_less_nat_alt)
  then show "((drop_bit 1 b, Suc bsr), b, bsr) \<in> measure (\<lambda>(b, bsr). unat b)"
    using unat_drop_bit_div [of 1 b] by simp
qed

declare recip_bsr.simps [simp del]

text \<open>One iteration of the second loop, on the pair (quotient, remainder).\<close>

definition recip_step :: "u64 \<Rightarrow> u64 \<times> u64 \<Rightarrow> u64 \<times> u64" where
  "recip_step divisor qr =
     (let quotient = fst qr; remainder = snd qr in
      if remainder \<ge> divisor - remainder
      then (quotient * 2 + 1, remainder * 2 - divisor)
      else (quotient * 2, remainder * 2))"

definition p2exp63 :: u64 where
  "p2exp63 = push_bit 63 1"

text \<open>\<open>assert(divisor != 0)\<close> is the result \<open>None\<close>.\<close>

definition randomx_reciprocal :: "u64 \<Rightarrow> u64 option" where
  "randomx_reciprocal divisor =
     (if divisor = 0 then None
      else Some (fst ((recip_step divisor ^^ recip_bsr divisor 0)
                       (p2exp63 div divisor, p2exp63 mod divisor))))"

text \<open>\<open>__builtin_clzll\<close>: the number of zero bits above the highest set bit.\<close>

definition clzll :: "u64 \<Rightarrow> nat" where
  "clzll w = length (takeWhile (\<lambda>i. \<not> bit w i) (rev [0..<64]))"

definition randomx_reciprocal_fast :: "u64 \<Rightarrow> u64" where
  "randomx_reciprocal_fast divisor =
     (let q = p2exp63 div divisor;
          r = p2exp63 mod divisor;
          shift = 64 - clzll divisor
      in push_bit shift q + push_bit shift r div divisor)"

section \<open>The number of significant bits\<close>

lemma recip_bsr_bounds:
  "\<exists>L. recip_bsr b bsr = bsr + L \<and> unat b < 2 ^ L \<and> (b \<noteq> 0 \<longrightarrow> 0 < L \<and> 2 ^ (L - 1) \<le> unat b)"
proof (induction b bsr rule: recip_bsr.induct)
  case (1 b bsr)
  show ?case
  proof (cases "0 < b")
    case False
    then show ?thesis by (subst recip_bsr.simps) (auto simp: word_less_nat_alt unat_eq_zero)
  next
    case True
    with 1 obtain L where L: "recip_bsr (drop_bit 1 b) (Suc bsr) = Suc bsr + L"
      "unat (drop_bit 1 b) < 2 ^ L"
      "drop_bit 1 b \<noteq> 0 \<longrightarrow> 0 < L \<and> 2 ^ (L - 1) \<le> unat (drop_bit 1 b)" by auto
    have half: "unat (drop_bit 1 b) = unat b div 2"
      using unat_drop_bit_div [of 1 b] by simp
    have eq: "recip_bsr b bsr = bsr + Suc L"
      using True L(1) by (subst recip_bsr.simps) simp
    have upper: "unat b < 2 ^ Suc L" using L(2) half by simp
    have lower: "2 ^ L \<le> unat b"
    proof (cases "drop_bit 1 b = 0")
      case True
      then have "unat b div 2 = 0" using half by simp
      moreover have "0 < unat b" using \<open>0 < b\<close> by (simp add: word_less_nat_alt)
      moreover have "L = 0"
      proof (rule ccontr)
        assume "L \<noteq> 0"
        have "recip_bsr (drop_bit 1 b) (Suc bsr) = Suc bsr"
          using True by (subst recip_bsr.simps) simp
        with L(1) \<open>L \<noteq> 0\<close> show False by simp
      qed
      ultimately show ?thesis by simp
    next
      case False
      with L(3) half have "0 < L" "2 ^ (L - 1) \<le> unat b div 2" by auto
      then show ?thesis by (cases L) auto
    qed
    show ?thesis using eq upper lower by (intro exI [of _ "Suc L"]) simp
  qed
qed

lemma recip_bsr_char:
  assumes "d \<noteq> 0"
  shows "0 < recip_bsr d 0" and "recip_bsr d 0 \<le> 64"
    and "2 ^ (recip_bsr d 0 - 1) \<le> unat d" and "unat d < 2 ^ recip_bsr d 0"
proof -
  obtain L where L: "recip_bsr d 0 = L" "unat d < 2 ^ L" "0 < L" "2 ^ (L - 1) \<le> unat d"
    using recip_bsr_bounds [of d 0] assms by auto
  then show "0 < recip_bsr d 0" "2 ^ (recip_bsr d 0 - 1) \<le> unat d" "unat d < 2 ^ recip_bsr d 0"
    by simp_all
  have "(2::nat) ^ (L - 1) < 2 ^ 64" using L(4) unat_u64_lt [of d] by simp
  then have "L - 1 < 64" by (rule power_less_imp_less_exp [rotated]) simp
  then show "recip_bsr d 0 \<le> 64" using L(1) by simp
qed

lemma clzll_bsr:
  assumes "d \<noteq> 0"
  shows "64 - clzll d = recip_bsr d 0"
proof -
  define L where "L = recip_bsr d 0"
  note L = recip_bsr_char [OF assms, folded L_def]
  have top: "bit d (L - 1)"
  proof -
    have "unat d div 2 ^ (L - 1) = 1"
    proof (rule div_nat_eqI)
      show "2 ^ (L - 1) * 1 \<le> unat d" using L(3) by simp
      show "unat d < 2 ^ (L - 1) * Suc 1" using L(1,4) by (cases L) simp_all
    qed
    then show ?thesis by (simp add: bit_word_iff_odd)
  qed
  have above: "\<not> bit d i" if "L \<le> i" for i
  proof -
    have "unat d < 2 ^ i" using L(4) that by (meson le_less_trans not_less power_increasing
          one_le_numeral order_less_le_trans)
    then show ?thesis by (simp add: bit_word_iff_odd)
  qed
  have "rev [0..<64] = rev [L..<64] @ rev [0..<L]"
    using L(2) upt_add_eq_append [of 0 L "64 - L"] by simp
  moreover have "rev [0..<L] = (L - 1) # rev [0..<L - 1]"
    using L(1) by (cases L) simp_all
  ultimately have "takeWhile (\<lambda>i. \<not> bit d i) (rev [0..<64]) = rev [L..<64]"
    using top above by (simp only:) (subst takeWhile_append2, auto)
  then show ?thesis using L(2) by (simp add: clzll_def L_def)
qed

section \<open>What the loop computes\<close>

lemma unat_p2exp63: "unat p2exp63 = 2 ^ 63"
  by (simp add: p2exp63_def)

text \<open>
  After k iterations the remainder is exactly that of \<open>2 ^ (63 + k)\<close> and the quotient is
  the low 64 bits of the quotient: doubling the remainder may wrap, subtracting the divisor
  wraps back.
\<close>

lemma recip_step_sound:
  assumes d: "d \<noteq> 0"
    and r: "unat (snd qr) = N mod unat d"
    and q: "unat (fst qr) = (N div unat d) mod 2 ^ 64"
  shows "unat (snd (recip_step d qr)) = (2 * N) mod unat d"
    and "unat (fst (recip_step d qr)) = ((2 * N) div unat d) mod 2 ^ 64"
proof -
  obtain quo rem where qr: "qr = (quo, rem)" by force
  define D where "D = unat d"
  define R where "R = N mod D"
  define Q where "Q = N div D"
  have D: "0 < D" using d by (simp add: D_def unat_gt_0)
  have N: "N = Q * D + R" by (simp add: Q_def R_def)
  have RD: "R < D" using D by (simp add: R_def)
  have rem: "unat rem = R" and quo: "unat quo = Q mod 2 ^ 64"
    using r q by (simp_all add: qr R_def Q_def D_def)
  have D64: "D < 2 ^ 64" using unat_u64_lt [of d] by (simp add: D_def)
  have "unat (d - rem) = D - R"
    using RD rem by (subst unat_sub) (simp_all add: D_def word_le_nat_alt)
  then have guard: "rem \<ge> d - rem \<longleftrightarrow> D \<le> 2 * R"
    using rem RD by (auto simp: word_le_nat_alt)
  have "unat (snd (recip_step d qr)) = (2 * N) mod D \<and>
        unat (fst (recip_step d qr)) = ((2 * N) div D) mod 2 ^ 64"
  proof (cases "D \<le> 2 * R")
    case True
    have two: "2 * N = (2 * Q + 1) * D + (2 * R - D)"
      using True by (simp add: N algebra_simps)
    have small: "2 * R - D < D" using RD by simp
    have m: "(2 * N) mod D = 2 * R - D" using small by (simp only: two mod_mult_self3) simp
    have v: "(2 * N) div D = 2 * Q + 1" using small D by (simp only: two div_mult_self3) simp
    have "rem = word_of_nat R" and "d = word_of_nat D"
      by (simp_all add: D_def flip: rem)
    then have "rem * 2 - d = word_of_nat (2 * R - D)"
      using True by (simp only: of_nat_diff of_nat_mult of_nat_numeral mult.commute)
    then have "unat (rem * 2 - d) = 2 * R - D"
      using small D64 by (simp add: unat_of_nat_small)
    moreover have "unat (quo * 2 + 1) = (2 * Q + 1) mod 2 ^ 64"
      using quo by (simp add: unat_word_ariths mod_simps mult.commute)
    ultimately show ?thesis
      using True guard m v by (simp add: recip_step_def qr)
  next
    case False
    have two: "2 * N = (2 * Q) * D + 2 * R" by (simp add: N algebra_simps)
    have small: "2 * R < D" using False by simp
    have m: "(2 * N) mod D = 2 * R" using small by (simp only: two mod_mult_self3) simp
    have v: "(2 * N) div D = 2 * Q" using small D by (simp only: two div_mult_self3) simp
    have "unat (rem * 2) = 2 * R"
      using small D64 rem by (simp add: unat_word_ariths mult.commute)
    moreover have "unat (quo * 2) = (2 * Q) mod 2 ^ 64"
      using quo by (simp add: unat_word_ariths mod_simps mult.commute)
    ultimately show ?thesis
      using False guard m v by (simp add: recip_step_def qr)
  qed
  then show "unat (snd (recip_step d qr)) = (2 * N) mod unat d"
    and "unat (fst (recip_step d qr)) = ((2 * N) div unat d) mod 2 ^ 64"
    by (simp_all add: D_def)
qed

lemma recip_loop_sound:
  assumes "d \<noteq> 0"
  defines "st k \<equiv> (recip_step d ^^ k) (p2exp63 div d, p2exp63 mod d)"
  shows "unat (snd (st k)) = 2 ^ (63 + k) mod unat d \<and>
         unat (fst (st k)) = (2 ^ (63 + k) div unat d) mod 2 ^ 64"
proof (induction k)
  case 0
  have "(2 :: nat) ^ 63 div unat d < 2 ^ 64"
    by (rule le_less_trans [OF div_le_dividend]) simp
  then show ?case
    by (simp add: st_def unat_div unat_mod unat_p2exp63)
next
  case (Suc k)
  have "(2 :: nat) ^ (63 + Suc k) = 2 * 2 ^ (63 + k)" by (simp only: add_Suc_right power_Suc)
  moreover have "st (Suc k) = recip_step d (st k)" by (simp add: st_def)
  ultimately show ?case
    using recip_step_sound [OF assms(1), of "st k" "2 ^ (63 + k)"] Suc by metis
qed

lemma randomx_reciprocal_value:
  assumes "d \<noteq> 0"
  shows "\<exists>w. randomx_reciprocal d = Some w \<and>
     unat w = (2 ^ (63 + recip_bsr d 0) div unat d) mod 2 ^ 64"
  using recip_loop_sound [OF assms, of "recip_bsr d 0"] assms
  by (simp add: randomx_reciprocal_def)

lemma randomx_reciprocal_fast_value:
  assumes "0 < unat d" and "unat d < 2 ^ 32"
  shows "unat (randomx_reciprocal_fast d) = (2 ^ (63 + recip_bsr d 0) div unat d) mod 2 ^ 64"
proof -
  have d: "d \<noteq> 0" using assms(1) by auto
  define L where "L = recip_bsr d 0"
  note b = recip_bsr_char [OF d, folded L_def]
  define D where "D = unat d"
  define Q where "Q = (2 :: nat) ^ 63 div D"
  define R where "R = (2 :: nat) ^ 63 mod D"
  have D: "0 < D" "D < 2 ^ 32" using assms by (simp_all add: D_def)
  have "(2::nat) ^ (L - 1) < 2 ^ 32" using b(3) assms(2) by simp
  then have "L - 1 < 32" by (rule power_less_imp_less_exp [rotated]) simp
  then have L32: "L \<le> 32" by simp
  have RD: "R < D" using D by (simp add: R_def)
  have q: "unat (p2exp63 div d) = Q" by (simp add: unat_div unat_p2exp63 Q_def D_def)
  have r: "unat (p2exp63 mod d) = R" by (simp add: unat_mod unat_p2exp63 R_def D_def)
  have pL: "(2::nat) ^ L * 2 ^ L \<le> 2 ^ 64"
    using L32 power_increasing [of "2 * L" 64 "2::nat"] by (simp add: mult_2 flip: power_add)
  have "R * 2 ^ L < 2 ^ L * 2 ^ L"
    using RD b(4) by (simp add: D_def)
  from less_le_trans [OF this pL] have Rs: "R * 2 ^ L < 2 ^ 64" .
  have "unat (push_bit L (p2exp63 mod d)) = R * 2 ^ L"
    using Rs by (simp only: unat_push_bit_mod r) simp
  then have t2: "unat (push_bit L (p2exp63 mod d) div d) = R * 2 ^ L div D"
    by (simp add: unat_div D_def)
  have t1: "unat (push_bit L (p2exp63 div d)) = Q * 2 ^ L mod 2 ^ 64"
    by (simp only: unat_push_bit_mod q) simp
  have split: "2 ^ (63 + L) div D = Q * 2 ^ L + R * 2 ^ L div D"
  proof -
    have "(2::nat) ^ 63 = Q * D + R" by (simp add: Q_def R_def)
    then have "(2::nat) ^ (63 + L) = (Q * D + R) * 2 ^ L" by (simp only: power_add)
    also have "\<dots> = (Q * 2 ^ L) * D + R * 2 ^ L" by (simp add: algebra_simps)
    finally have "(2::nat) ^ (63 + L) = (Q * 2 ^ L) * D + R * 2 ^ L" .
    then show ?thesis using D(1) by simp
  qed
  have "unat (randomx_reciprocal_fast d) =
      (Q * 2 ^ L mod 2 ^ 64 + R * 2 ^ L div D) mod 2 ^ 64"
    using t1 t2 by (simp add: randomx_reciprocal_fast_def clzll_bsr [OF d, folded L_def]
        unat_word_ariths(1))
  also have "\<dots> = (2 ^ (63 + L) div D) mod 2 ^ 64"
    by (simp only: split mod_add_left_eq)
  finally show ?thesis by (simp add: D_def L_def)
qed

text \<open>C40: for every 64-bit divisor that is neither 0 nor a power of two, the shift-and-subtract
  loop of \<open>randomx_reciprocal\<close> returns \<open>2^x div divisor\<close> for the largest x at which that quotient
  still fits in 64 bits, although its intermediate doublings wrap around.\<close>

theorem randomx_reciprocal_correct:
  assumes "d \<noteq> 0" and "\<forall>k. unat d \<noteq> 2 ^ k"
  shows "\<exists>x. map_option unat (randomx_reciprocal d) = Some (2 ^ x div unat d)
       \<and> 2 ^ x div unat d < 2 ^ 64 \<and> 2 ^ 64 \<le> 2 ^ (x + 1) div unat d"
proof -
  define L where "L = recip_bsr d 0"
  define D where "D = unat d"
  note b = recip_bsr_char [OF assms(1), folded L_def, folded D_def]
  have D: "0 < D" using assms(1) by (simp add: D_def unat_gt_0)
  have strict: "2 ^ (L - 1) < D" using b(3) assms(2) by (metis D_def le_neq_implies_less)
  have "(2::nat) ^ (63 + L) = 2 ^ 64 * 2 ^ (L - 1)"
    using b(1) by (cases L) (simp_all only: power_add [symmetric], simp_all)
  then have "(2::nat) ^ (63 + L) < 2 ^ 64 * D" using strict by simp
  then have lt: "2 ^ (63 + L) div D < 2 ^ 64" by (simp add: less_mult_imp_div_less)
  have "2 ^ 64 * D \<le> 2 ^ (63 + L + 1)" using b(4) by (simp add: power_add)
  then have ge: "2 ^ 64 \<le> 2 ^ (63 + L + 1) div D"
    using D by (simp add: less_eq_div_iff_mult_less_eq del: power_Suc)
  show ?thesis
    using randomx_reciprocal_value [OF assms(1), folded L_def, folded D_def] lt ge
    unfolding D_def [symmetric] by (intro exI [of _ "63 + L"]) auto
qed

theorem randomx_reciprocal_correct_witness:
  "\<exists>x. map_option unat (randomx_reciprocal 3) = Some (2 ^ x div 3)
       \<and> (2::nat) ^ x div 3 < 2 ^ 64 \<and> (2::nat) ^ 64 \<le> 2 ^ (x + 1) div 3"
proof -
  have "unat (3 :: u64) \<noteq> 2 ^ k" for k
    by (cases k) (simp_all, presburger)
  then show ?thesis using randomx_reciprocal_correct [of 3] by simp
qed

text \<open>on the divisors the program generators produce (nonzero and below \<open>2^32\<close>) the
  two-division routine \<open>randomx_reciprocal_fast\<close> returns the same word as the loop.\<close>

theorem randomx_reciprocal_fast_equiv:
  assumes "0 < unat d" and "unat d < 2 ^ 32"
  shows "randomx_reciprocal d = Some (randomx_reciprocal_fast d)"
proof -
  have d: "d \<noteq> 0" using assms(1) by auto
  obtain w where w: "randomx_reciprocal d = Some w"
    "unat w = (2 ^ (63 + recip_bsr d 0) div unat d) mod 2 ^ 64"
    using randomx_reciprocal_value [OF d] by auto
  with randomx_reciprocal_fast_value [OF assms] show ?thesis
    by (simp add: word_unat_eq_iff)
qed

theorem randomx_reciprocal_fast_equiv_witness:
  "randomx_reciprocal 4294967295 = Some (randomx_reciprocal_fast 4294967295)"
  using randomx_reciprocal_fast_equiv [of 4294967295] by simp

end
