(* ===== verification/CString.thy ===== *)
theory CString
  imports Zen_Prelude
begin

text \<open>
  The part of \<open>std::string\<close> and of the number parsing of the C++ standard library that the
  program uses: searching, slicing, \<open>std::stoll\<close>/\<open>std::stoi\<close>, and the two hexadecimal printers
  built on \<open>std::hex << std::setw(2) << std::setfill('0')\<close>.  \<open>std::string::npos\<close> is \<open>None\<close>.
\<close>

section \<open>Searching\<close>

text \<open>\<open>s.find(pat, pos)\<close>: the least index \<open>\<ge> pos\<close> at which pat occurs.\<close>

fun starts_with :: "string \<Rightarrow> string \<Rightarrow> bool" where
  "starts_with [] s = True"
| "starts_with (p # ps) [] = False"
| "starts_with (p # ps) (c # cs) = (p = c \<and> starts_with ps cs)"

fun scan_from :: "(string \<Rightarrow> bool) \<Rightarrow> nat \<Rightarrow> string \<Rightarrow> nat option" where
  "scan_from P i [] = (if P [] then Some i else None)"
| "scan_from P i (c # cs) = (if P (c # cs) then Some i else scan_from P (Suc i) cs)"

definition str_find :: "string \<Rightarrow> string \<Rightarrow> nat \<Rightarrow> nat option" where
  "str_find s pat pos =
     (if length s < pos then None else scan_from (starts_with pat) pos (drop pos s))"

text \<open>\<open>find(c, pos)\<close>, \<open>find_first_of\<close> and \<open>find_first_not_of\<close>: one character is tested.\<close>

definition str_find_if :: "(char \<Rightarrow> bool) \<Rightarrow> string \<Rightarrow> nat \<Rightarrow> nat option" where
  "str_find_if P s pos =
     (if length s < pos then None
      else scan_from (\<lambda>t. case t of [] \<Rightarrow> False | c # _ \<Rightarrow> P c) pos (drop pos s))"

definition str_find_char :: "string \<Rightarrow> char \<Rightarrow> nat \<Rightarrow> nat option" where
  "str_find_char s c pos = str_find_if (\<lambda>d. d = c) s pos"

definition find_first_not_of :: "string \<Rightarrow> string \<Rightarrow> nat \<Rightarrow> nat option" where
  "find_first_not_of s cs pos = str_find_if (\<lambda>d. d \<notin> set cs) s pos"

definition find_first_of :: "string \<Rightarrow> string \<Rightarrow> nat \<Rightarrow> nat option" where
  "find_first_of s cs pos = str_find_if (\<lambda>d. d \<in> set cs) s pos"

text \<open>\<open>s.rfind(c)\<close>: the greatest index at which c occurs.\<close>

fun str_rfind_char :: "string \<Rightarrow> char \<Rightarrow> nat option" where
  "str_rfind_char [] c = None"
| "str_rfind_char (d # s) c =
     (case str_rfind_char s c of Some i \<Rightarrow> Some (Suc i)
      | None \<Rightarrow> if d = c then Some 0 else None)"

definition substr :: "string \<Rightarrow> nat \<Rightarrow> nat \<Rightarrow> string" where
  "substr s pos n = take n (drop pos s)"

definition contains :: "string \<Rightarrow> string \<Rightarrow> bool" where
  "contains s pat \<longleftrightarrow> str_find s pat 0 \<noteq> None"

lemma starts_with_append [simp]: "starts_with p (p @ s)"
  by (induction p) simp_all

lemma starts_with_iff: "starts_with p s \<longleftrightarrow> (\<exists>t. s = p @ t)"
proof (induction p s rule: starts_with.induct)
  case (3 p ps c cs)
  then show ?case by auto
qed auto

lemma scan_from_bounds: "scan_from P i s = Some k \<Longrightarrow> i \<le> k \<and> k \<le> i + length s"
  by (induction P i s rule: scan_from.induct) (auto split: if_splits)

lemma scan_from_Some: "scan_from P i s = Some k \<Longrightarrow> P (drop (k - i) s)"
proof (induction P i s rule: scan_from.induct)
  case (2 P i c cs)
  show ?case
  proof (cases "P (c # cs)")
    case False
    with 2 have "scan_from P (Suc i) cs = Some k" "P (drop (k - Suc i) cs)" by simp_all
    moreover from this have "Suc i \<le> k" using scan_from_bounds by blast
    ultimately show ?thesis by (simp add: Suc_diff_le flip: Suc_diff_Suc)
  qed (use 2 in simp)
qed (simp split: if_splits)

lemma scan_from_skip:
  "(\<And>j. j < length u \<Longrightarrow> \<not> P (drop j (u @ s))) \<Longrightarrow>
     scan_from P i (u @ s) = scan_from P (i + length u) s"
proof (induction u arbitrary: i)
  case (Cons c u)
  have "\<not> P (c # u @ s)" using Cons.prems [of 0] by simp
  moreover have "scan_from P (Suc i) (u @ s) = scan_from P (Suc i + length u) s"
    using Cons.IH [of "Suc i"] Cons.prems [of "Suc _"] by simp
  ultimately show ?case by simp
qed simp

lemma scan_from_shift: "scan_from P (i + n) s = map_option (\<lambda>k. k + n) (scan_from P i s)"
proof (induction P i s rule: scan_from.induct)
  case (2 P i c cs)
  then show ?case by simp
qed simp

lemma str_find_if_append:
  "(\<And>c. c \<in> set u \<Longrightarrow> \<not> P c) \<Longrightarrow> P c \<Longrightarrow> str_find_if P (u @ c # s) 0 = Some (length u)"
proof -
  assume u: "\<And>c. c \<in> set u \<Longrightarrow> \<not> P c" and c: "P c"
  have "\<not> (case drop j (u @ c # s) of [] \<Rightarrow> False | c # _ \<Rightarrow> P c)" if "j < length u" for j
    using that u by (simp add: Cons_nth_drop_Suc [symmetric])
  then show ?thesis
    using c by (simp add: str_find_if_def scan_from_skip)
qed

lemma str_find_if_None:
  "str_find_if P s 0 = None \<longleftrightarrow> (\<forall>c\<in>set s. \<not> P c)"
proof -
  have "scan_from (\<lambda>t. case t of [] \<Rightarrow> False | c # _ \<Rightarrow> P c) i s = None \<longleftrightarrow> (\<forall>c\<in>set s. \<not> P c)" for i
    by (induction s arbitrary: i) auto
  then show ?thesis by (simp add: str_find_if_def)
qed

lemma str_find_char_append:
  "c \<notin> set u \<Longrightarrow> str_find_char (u @ c # s) c 0 = Some (length u)"
  unfolding str_find_char_def by (rule str_find_if_append) auto

lemma str_find_char_None: "str_find_char s c 0 = None \<longleftrightarrow> c \<notin> set s"
  unfolding str_find_char_def by (auto simp: str_find_if_None)

lemma str_find_char_Some:
  assumes "str_find_char s c 0 = Some k"
  shows "k < length s" and "s ! k = c" and "c \<notin> set (take k s)" and "s = take k s @ c # drop (Suc k) s"
proof -
  have "c \<in> set s" using assms str_find_char_None [of s c] by fastforce
  then obtain u v where s: "s = u @ c # v" "c \<notin> set u" by (meson split_list_first)
  with assms have k: "k = length u" by (simp add: str_find_char_append)
  show "k < length s" "s ! k = c" "c \<notin> set (take k s)" "s = take k s @ c # drop (Suc k) s"
    using s k by (simp_all add: nth_append)
qed

section \<open>Hexadecimal text\<close>

definition hexdig :: "nat \<Rightarrow> char" where
  "hexdig n = ''0123456789abcdef'' ! n"

text \<open>\<open>std::setw(2) << x\<close> for \<open>x < 256\<close>: always two lower-case digits.\<close>

definition hex2 :: "nat \<Rightarrow> string" where
  "hex2 n = [hexdig (n div 16), hexdig (n mod 16)]"

section \<open>Reading integers\<close>

definition is_digit :: "char \<Rightarrow> bool" where
  "is_digit c \<longleftrightarrow> 48 \<le> (of_char c :: nat) \<and> (of_char c :: nat) \<le> 57"

definition is_space :: "char \<Rightarrow> bool" where
  "is_space c \<longleftrightarrow> (of_char c :: nat) \<in> {9, 10, 11, 12, 13, 32}"

fun digits_value :: "nat \<Rightarrow> string \<Rightarrow> nat" where
  "digits_value acc [] = acc"
| "digits_value acc (c # cs) =
     (if is_digit c then digits_value (10 * acc + (of_char c - 48)) cs else acc)"

text \<open>
  \<open>std::stoll(s)\<close> in base 10: leading white space, an optional sign, digits.  \<open>None\<close> is an
  exception: \<open>std::invalid_argument\<close> without a digit, \<open>std::out_of_range\<close> outside the type.
\<close>

definition parse_signed :: "int \<Rightarrow> int \<Rightarrow> string \<Rightarrow> int option" where
  "parse_signed lo hi s =
     (let t = dropWhile is_space s;
          neg = (t \<noteq> [] \<and> hd t = CHR ''-'');
          u = (if t \<noteq> [] \<and> (hd t = CHR ''-'' \<or> hd t = CHR ''+'') then tl t else t)
      in if u = [] \<or> \<not> is_digit (hd u) then None
         else let n = int (digits_value 0 u); v = (if neg then - n else n)
              in if lo \<le> v \<and> v \<le> hi then Some v else None)"

definition stoll :: "string \<Rightarrow> int option" where
  "stoll s = parse_signed (- (2 ^ 63)) (2 ^ 63 - 1) s"

definition stoi :: "string \<Rightarrow> int option" where
  "stoi s = parse_signed (- (2 ^ 31)) (2 ^ 31 - 1) s"

text \<open>Decimal printing of an unsigned number (\<open>operator<<\<close>, \<open>std::to_string\<close>).\<close>

fun show_nat :: "nat \<Rightarrow> string" where
  "show_nat n = (if n < 10 then [char_of (48 + n)] else show_nat (n div 10) @ [char_of (48 + n mod 10)])"

declare show_nat.simps [simp del]

lemma digits_value_append:
  "(\<forall>c\<in>set s. is_digit c) \<Longrightarrow> digits_value acc (s @ t) = digits_value (digits_value acc s) t"
  by (induction s arbitrary: acc) auto

lemma of_char_digit: "d < 10 \<Longrightarrow> of_char (char_of (48 + d) :: char) = 48 + d"
  for d :: nat
  by simp

lemma is_digit_digit: "d < 10 \<Longrightarrow> is_digit (char_of (48 + d))"
  for d :: nat
  by (simp add: is_digit_def of_char_digit)

lemma show_nat_digits: "\<forall>c\<in>set (show_nat n). is_digit c"
proof (induction n rule: show_nat.induct)
  case (1 n)
  show ?case
    using 1 is_digit_digit [of n] is_digit_digit [of "n mod 10"]
    by (subst show_nat.simps) auto
qed

lemma show_nat_nonempty: "show_nat n \<noteq> []"
  by (subst show_nat.simps) simp

lemma digits_value_show_nat: "digits_value 0 (show_nat n) = n"
proof (induction n rule: show_nat.induct)
  case (1 n)
  show ?case
  proof (cases "n < 10")
    case True
    then show ?thesis
      using is_digit_digit [of n] of_char_digit [of n] by (subst show_nat.simps) simp
  next
    case False
    then show ?thesis
      using 1 show_nat_digits is_digit_digit [of "n mod 10"] of_char_digit [of "n mod 10"]
      by (subst show_nat.simps) (simp add: digits_value_append)
  qed
qed

end
