(* ===== verification/Rx_Algo.thy ===== *)
theory Rx_Algo
  imports CString
begin

text \<open>
  The algorithm identifiers: \<open>enum class RxAlgo\<close>, \<open>parseRxAlgo\<close> and \<open>rxAlgoName\<close> of
  \<open>Config.h\<close>, and the encoded ids of \<open>crypto/Algorithm.h\<close> with the scratchpad sizes they
  carry.
\<close>

datatype RxAlgo = RX_0 | RX_WOW | RX_ARQ | RX_XEQ | RX_GRAFT | RX_SFX | RX_XLA

definition parseRxAlgo :: "string \<Rightarrow> RxAlgo" where
  "parseRxAlgo str =
     (if str = ''rx/wow'' then RX_WOW
      else if str = ''rx/arq'' then RX_ARQ
      else if str = ''rx/xeq'' then RX_XEQ
      else if str = ''rx/graft'' then RX_GRAFT
      else if str = ''rx/sfx'' then RX_SFX
      else if str = ''rx/xla'' then RX_XLA
      else if str = ''panthera'' then RX_XLA
      else RX_0)"

fun rxAlgoName :: "RxAlgo \<Rightarrow> string" where
  "rxAlgoName RX_0 = ''rx/0''"
| "rxAlgoName RX_WOW = ''rx/wow''"
| "rxAlgoName RX_ARQ = ''rx/arq''"
| "rxAlgoName RX_XEQ = ''rx/xeq''"
| "rxAlgoName RX_GRAFT = ''rx/graft''"
| "rxAlgoName RX_SFX = ''rx/sfx''"
| "rxAlgoName RX_XLA = ''rx/xla''"

text \<open>\<open>Algorithm::Id\<close> (\<open>enum Id : uint32_t\<close>) and \<open>Algorithm::fromRxAlgo\<close>.\<close>

type_synonym algo_id = u32

fun fromRxAlgo :: "RxAlgo \<Rightarrow> algo_id" where
  "fromRxAlgo RX_0 = 0x72151200"
| "fromRxAlgo RX_WOW = 0x72141177"
| "fromRxAlgo RX_ARQ = 0x72121061"
| "fromRxAlgo RX_XEQ = 0x72121000"
| "fromRxAlgo RX_GRAFT = 0x72151267"
| "fromRxAlgo RX_SFX = 0x72151273"
| "fromRxAlgo RX_XLA = 0x721211ff"

text \<open>\<open>1ULL << ((id >> 16) & 0xff)\<close> and \<open>1U << ((id >> 8) & 0xff)\<close>.\<close>

definition algo_l3 :: "algo_id \<Rightarrow> u64" where
  "algo_l3 i = push_bit (unat (drop_bit 16 i AND 0xff)) 1"

definition algo_l2 :: "algo_id \<Rightarrow> u32" where
  "algo_l2 i = push_bit (unat (drop_bit 8 i AND 0xff)) 1"

lemma parse_rxAlgoName [simp]: "parseRxAlgo (rxAlgoName a) = a"
  by (cases a) (simp_all add: parseRxAlgo_def)

lemma fromRxAlgo_inject: "fromRxAlgo a = fromRxAlgo b \<longleftrightarrow> a = b"
  by (cases a; cases b) simp_all

lemma algo_l3_values:
  "algo_l3 (fromRxAlgo a) =
     (case a of RX_WOW \<Rightarrow> 1048576 | RX_ARQ \<Rightarrow> 262144 | RX_XEQ \<Rightarrow> 262144 | RX_XLA \<Rightarrow> 262144
      | _ \<Rightarrow> 2097152)"
  by (cases a) (simp_all add: algo_l3_def)

lemma algo_l2_values:
  "algo_l2 (fromRxAlgo a) =
     (case a of RX_WOW \<Rightarrow> 131072 | RX_XLA \<Rightarrow> 131072 | RX_ARQ \<Rightarrow> 65536 | RX_XEQ \<Rightarrow> 65536
      | _ \<Rightarrow> 262144)"
  by (cases a) (simp_all add: algo_l2_def)

end
