(* ===== verification/Job.thy ===== *)
theory Job
  imports Rx_Algo Bytes
begin

text \<open>
  \<open>HexUtils.h\<close>, \<open>Job.h\<close> and \<open>Job.cpp\<close>: the mining job the stratum client builds from a pool
  message, its hexadecimal decoding, its difficulty target and the nonce field of its blob.
\<close>

section \<open>Hexadecimal decoding\<close>

definition hexCharToNibble :: "char \<Rightarrow> u8" where
  "hexCharToNibble c =
     (let n = (of_char c :: nat) in
      if 48 \<le> n \<and> n \<le> 57 then of_nat (n - 48)
      else if 97 \<le> n \<and> n \<le> 102 then of_nat (n - 97 + 10)
      else if 65 \<le> n \<and> n \<le> 70 then of_nat (n - 65 + 10)
      else 0)"

text \<open>\<open>hexToBytes(hex, out, maxLen)\<close> writes into \<open>out\<close> and returns the number of bytes written.\<close>

definition hexToBytes :: "string \<Rightarrow> bytes \<Rightarrow> nat \<Rightarrow> bytes \<times> nat" where
  "hexToBytes hex out maxLen =
     (let len0 = length hex div 2;
          len = (if len0 > maxLen then maxLen else len0)
      in (foldl (\<lambda>o' i. o'[i := push_bit 4 (hexCharToNibble (hex ! (i * 2)))
                              OR hexCharToNibble (hex ! (i * 2 + 1))]) out [0..<len], len))"

text \<open>\<open>bytesToHex(data, len)\<close> of \<open>Client.cpp\<close>.\<close>

definition bytesToHex :: "bytes \<Rightarrow> nat \<Rightarrow> string" where
  "bytesToHex data len = concat (map (\<lambda>i. hex2 (unat (data ! i))) [0..<len])"

section \<open>The job\<close>

definition kMaxBlobSize :: nat where
  "kMaxBlobSize = 128"

record job =
  j_id :: string
  j_blob :: bytes
  j_blobSize :: nat
  j_target :: u64
  j_diff :: u64
  j_height :: u64
  j_seedHash :: string
  j_algo :: string
  j_rxAlgo :: RxAlgo
  j_sequence :: u64
  j_rxInstanceId :: int

definition empty_job :: job where
  "empty_job = \<lparr>j_id = '''', j_blob = replicate kMaxBlobSize 0, j_blobSize = 0, j_target = 0,
     j_diff = 0, j_height = 0, j_seedHash = '''', j_algo = '''', j_rxAlgo = RX_0,
     j_sequence = 0, j_rxInstanceId = 0\<rparr>"

definition job_isValid :: "job \<Rightarrow> bool" where
  "job_isValid j \<longleftrightarrow> 0 < j_blobSize j \<and> 0 < j_diff j"

definition job_setAlgo :: "job \<Rightarrow> string \<Rightarrow> job" where
  "job_setAlgo j algo = j\<lparr>j_algo := algo, j_rxAlgo := parseRxAlgo algo\<rparr>"

text \<open>\<open>setNonce\<close>/\<open>getNonce\<close>: a 32-bit host-order (little-endian) word at offset 39.\<close>

definition job_setNonce :: "job \<Rightarrow> u32 \<Rightarrow> job" where
  "job_setNonce j nonce =
     (if j_blobSize j \<ge> 43 then j\<lparr>j_blob := memcpy_at (j_blob j) 39 (store32 nonce) 4\<rparr> else j)"

definition job_getNonce :: "job \<Rightarrow> u32" where
  "job_getNonce j = (if j_blobSize j \<ge> 43 then load32 (drop 39 (j_blob j)) else 0)"

definition job_setBlob :: "job \<Rightarrow> string \<Rightarrow> job" where
  "job_setBlob j hex =
     (let size0 = length hex div 2;
          size = (if size0 > kMaxBlobSize then kMaxBlobSize else size0)
      in j\<lparr>j_blobSize := size,
           j_blob := fst (hexToBytes hex (replicate kMaxBlobSize 0) size)\<rparr>)"

text \<open>
  \<open>setTarget\<close>: a 4-byte compact target or an 8-byte little-endian one; any other length gives
  the invalid job (target and difficulty 0).
\<close>

definition compact_of :: "bytes \<Rightarrow> u32" where
  "compact_of raw = ucast (raw ! 0) OR push_bit 8 (ucast (raw ! 1))
     OR push_bit 16 (ucast (raw ! 2)) OR push_bit 24 (ucast (raw ! 3))"

definition job_setTarget :: "job \<Rightarrow> string \<Rightarrow> job" where
  "job_setTarget j hex =
     (if length hex < 4 then j\<lparr>j_target := 0, j_diff := 0\<rparr>
      else
        let (raw, rawLen) = hexToBytes hex (replicate 8 0) 8 in
        if rawLen = 4 then
          (let compact = compact_of raw in
           if compact = 0 then j\<lparr>j_target := 0xFFFFFFFFFFFFFFFF, j_diff := 0\<rparr>
           else
             (let target = 0xFFFFFFFFFFFFFFFF div (0xFFFFFFFF div ucast compact)
              in j\<lparr>j_target := target, j_diff := 0xFFFFFFFFFFFFFFFF div target\<rparr>))
        else if rawLen = 8 then
          (let target = load64 raw in
           if target = 0 then j\<lparr>j_target := target, j_diff := 0\<rparr>
           else j\<lparr>j_target := target, j_diff := 0xFFFFFFFFFFFFFFFF div target\<rparr>)
        else j\<lparr>j_target := 0, j_diff := 0\<rparr>)"

definition new_job :: "string \<Rightarrow> string \<Rightarrow> string \<Rightarrow> u64 \<Rightarrow> string \<Rightarrow> job" where
  "new_job jid blob target height seedHash =
     job_setTarget
       (job_setBlob (empty_job\<lparr>j_id := jid, j_height := height, j_seedHash := seedHash\<rparr>) blob)
       target"

text \<open>\<open>operator==\<close> compares the ids only.\<close>

definition job_eq :: "job \<Rightarrow> job \<Rightarrow> bool" where
  "job_eq a b \<longleftrightarrow> j_id a = j_id b"

text \<open>\<open>struct JobResult\<close>: a share to submit.\<close>

record job_result =
  r_jobId :: string
  r_nonce :: u32
  r_hash :: bytes
  r_actualDiff :: u64
  r_rxInstanceId :: int

section \<open>Decoding inverts printing\<close>

lemma foldl_list_update_upt:
  "n \<le> length xs \<Longrightarrow>
     foldl (\<lambda>o' i. o'[i := f i]) xs [0..<n] = map f [0..<n] @ drop n xs"
proof (induction n)
  case (Suc n)
  then have "foldl (\<lambda>o' i. o'[i := f i]) xs [0..<Suc n] = (map f [0..<n] @ drop n xs)[n := f n]"
    by simp
  also have "\<dots> = map f [0..<n] @ (drop n xs)[0 := f n]"
    by (simp add: list_update_append)
  also have "\<dots> = map f [0..<Suc n] @ drop (Suc n) xs"
    using Suc.prems by (simp add: Cons_nth_drop_Suc [symmetric])
  finally show ?case .
qed simp

lemma hexToBytes_eq:
  assumes "min (length hex div 2) maxLen \<le> length out"
  shows "hexToBytes hex out maxLen =
    (map (\<lambda>i. push_bit 4 (hexCharToNibble (hex ! (i * 2))) OR hexCharToNibble (hex ! (i * 2 + 1)))
       [0..<min (length hex div 2) maxLen] @ drop (min (length hex div 2) maxLen) out,
     min (length hex div 2) maxLen)"
  using assms by (auto simp: hexToBytes_def Let_def min_def foldl_list_update_upt)

lemma nibble_hexdig: "n < 16 \<Longrightarrow> hexCharToNibble (hexdig n) = of_nat n"
proof -
  have "\<forall>n\<in>set [0..<16]. hexCharToNibble (hexdig n) = of_nat n" by code_simp
  then show "n < 16 \<Longrightarrow> hexCharToNibble (hexdig n) = of_nat n" by simp
qed

lemma nibble_bound: "unat (hexCharToNibble c) < 16"
  by (auto simp: hexCharToNibble_def Let_def unat_of_nat_small simp del: of_nat_diff of_nat_add)

lemma nibbles_of_byte:
  "push_bit 4 (of_nat (unat (b :: u8) div 16)) OR of_nat (unat b mod 16) = b"
proof -
  have "of_nat (unat b div 16) = drop_bit 4 b"
    by (rule word_unat_eq_iff [THEN iffD2])
      (use unat_u8_lt [of b] in \<open>simp add: unat_of_nat_small unat_drop_bit_div\<close>)
  moreover have "of_nat (unat b mod 16) = take_bit 4 b"
    by (rule word_unat_eq_iff [THEN iffD2])
      (simp add: unat_of_nat_small take_bit_eq_mod unat_mod)
  moreover have "push_bit 4 (drop_bit 4 b) OR take_bit 4 b = b"
    by (rule bit_word_eqI) (auto simp: bit_simps)
  ultimately show ?thesis by (simp only:)
qed

lemma bytesToHex_Nil [simp]: "bytesToHex bs 0 = []"
  by (simp add: bytesToHex_def)

lemma length_bytesToHex: "length (bytesToHex bs n) = 2 * n"
  by (induction n) (simp_all add: bytesToHex_def hex2_def)

lemma nth_bytesToHex:
  assumes "i < n"
  shows "bytesToHex bs n ! (i * 2) = hexdig (unat (bs ! i) div 16)"
    and "bytesToHex bs n ! (i * 2 + 1) = hexdig (unat (bs ! i) mod 16)"
proof -
  have "bytesToHex bs n ! (i * 2) = hexdig (unat (bs ! i) div 16) \<and>
        bytesToHex bs n ! (i * 2 + 1) = hexdig (unat (bs ! i) mod 16)"
    using assms
  proof (induction n)
    case (Suc n)
    have *: "bytesToHex bs (Suc n) = bytesToHex bs n @ hex2 (unat (bs ! n))"
      by (simp add: bytesToHex_def)
    show ?case
      using Suc unfolding * by (cases "i = n") (simp_all add: nth_append length_bytesToHex hex2_def)
  qed simp
  then show "bytesToHex bs n ! (i * 2) = hexdig (unat (bs ! i) div 16)"
    and "bytesToHex bs n ! (i * 2 + 1) = hexdig (unat (bs ! i) mod 16)" by simp_all
qed

lemma fst_hexToBytes_bytesToHex:
  assumes "length bs \<le> length out"
  shows "hexToBytes (bytesToHex bs (length bs)) out (length out) =
           (bs @ drop (length bs) out, length bs)"
proof -
  have "map (\<lambda>i. push_bit 4 (hexCharToNibble (bytesToHex bs (length bs) ! (i * 2)))
          OR hexCharToNibble (bytesToHex bs (length bs) ! (i * 2 + 1))) [0..<length bs] = bs"
    (is "map ?f _ = _")
  proof (rule nth_equalityI)
    fix i
    assume "i < length (map ?f [0..<length bs])"
    then have i: "i < length bs" by simp
    have "unat (bs ! i) div 16 < 16" using unat_u8_lt [of "bs ! i"] by simp
    then have "?f i = bs ! i"
      using i by (simp add: nth_bytesToHex nth_bytesToHex(2) [simplified] nibble_hexdig nibbles_of_byte)
    then show "map ?f [0..<length bs] ! i = bs ! i" using i by simp
  qed simp
  then show ?thesis
    using assms by (simp add: hexToBytes_eq length_bytesToHex)
qed

text \<open>Decoding inverts printing: \<open>hexToBytes\<close> applied to the \<open>bytesToHex\<close> text of any byte
  string writes exactly those bytes to the front of the buffer, leaves the rest of the buffer
  alone and reports their number.\<close>

theorem hexToBytes_bytesToHex:
  assumes "length bs \<le> length out"
  shows "hexToBytes (bytesToHex bs (length bs)) out (length out) =
           (bs @ drop (length bs) out, length bs)"
  using assms by (rule fst_hexToBytes_bytesToHex)

theorem hexToBytes_bytesToHex_witness:
  "hexToBytes (bytesToHex [0, 255, 18] (length [0 :: u8, 255, 18])) (replicate 4 7) (length (replicate 4 (7 :: u8)))
     = ([0, 255, 18] @ drop (length [0 :: u8, 255, 18]) (replicate 4 7), length [0 :: u8, 255, 18])"
  by (rule hexToBytes_bytesToHex) simp

section \<open>The job invariant and the nonce field\<close>

definition job_inv :: "job \<Rightarrow> bool" where
  "job_inv j \<longleftrightarrow> length (j_blob j) = kMaxBlobSize \<and> j_blobSize j \<le> kMaxBlobSize"

lemma length_fst_hexToBytes [simp, zlen]: "length (fst (hexToBytes hex out n)) = length out"
proof -
  have "length (foldl (\<lambda>o' i. o'[i := f i]) xs is) = length xs" for f and xs :: bytes and "is"
    by (induction "is" arbitrary: xs) simp_all
  then show ?thesis by (simp add: hexToBytes_def Let_def)
qed

lemma job_inv_empty [simp]: "job_inv empty_job"
  by (simp add: job_inv_def empty_job_def)

lemma job_inv_setBlob [simp]: "job_inv (job_setBlob j hex)"
  by (simp add: job_inv_def job_setBlob_def Let_def)

lemma job_setTarget_frame [simp]:
  "j_blob (job_setTarget j hex) = j_blob j" "j_blobSize (job_setTarget j hex) = j_blobSize j"
  "j_id (job_setTarget j hex) = j_id j" "j_seedHash (job_setTarget j hex) = j_seedHash j"
  "j_height (job_setTarget j hex) = j_height j" "j_sequence (job_setTarget j hex) = j_sequence j"
  "j_rxInstanceId (job_setTarget j hex) = j_rxInstanceId j"
  by (simp_all add: job_setTarget_def Let_def split: prod.splits)

lemma job_inv_setTarget [simp]: "job_inv (job_setTarget j hex) = job_inv j"
  by (simp add: job_inv_def)

lemma job_inv_new_job [simp]: "job_inv (new_job i b t h s)"
  by (simp add: new_job_def)

lemma job_inv_setAlgo [simp]: "job_inv (job_setAlgo j a) = job_inv j"
  by (simp add: job_inv_def job_setAlgo_def)

lemma job_inv_setNonce [simp]: "job_inv j \<Longrightarrow> job_inv (job_setNonce j n)"
  by (simp add: job_inv_def job_setNonce_def kMaxBlobSize_def)

lemma job_setNonce_frame [simp]:
  "j_blobSize (job_setNonce j n) = j_blobSize j" "j_id (job_setNonce j n) = j_id j"
  "j_target (job_setNonce j n) = j_target j" "j_diff (job_setNonce j n) = j_diff j"
  "j_seedHash (job_setNonce j n) = j_seedHash j" "j_rxAlgo (job_setNonce j n) = j_rxAlgo j"
  "j_rxInstanceId (job_setNonce j n) = j_rxInstanceId j"
  by (simp_all add: job_setNonce_def)

lemma job_setNonce_overwrites:
  "job_inv j \<Longrightarrow> job_setNonce (job_setNonce j m) n = job_setNonce j n"
  by (simp add: job_setNonce_def job_inv_def kMaxBlobSize_def memcpy_at_def)

text \<open>on every job whose blob holds a nonce field (at least 43 bytes) the nonce written by
  \<open>setNonce\<close> is the one \<open>getNonce\<close> reads, and no byte outside offsets 39 to 42 changes; a shorter
  blob is left untouched.\<close>

theorem job_nonce_roundtrip:
  assumes "job_inv j"
  shows "job_getNonce (job_setNonce j n) = (if j_blobSize j \<ge> 43 then n else 0) \<and>
    (\<forall>i < kMaxBlobSize. i < 39 \<or> 43 \<le> i \<or> j_blobSize j < 43 \<longrightarrow>
       j_blob (job_setNonce j n) ! i = j_blob j ! i) \<and> job_inv (job_setNonce j n)"
proof -
  have "drop 39 (memcpy_at (j_blob j) 39 (store32 n) 4) = store32 n @ drop 43 (j_blob j)"
    using assms by (simp add: memcpy_at_def job_inv_def kMaxBlobSize_def)
  then show ?thesis
    using assms by (auto simp: job_getNonce_def job_setNonce_def job_inv_def kMaxBlobSize_def nth_memcpy_at)
qed

theorem job_nonce_roundtrip_witness:
  "job_getNonce (job_setNonce (empty_job\<lparr>j_blobSize := 76\<rparr>) 0x12345678) = 0x12345678"
  using job_nonce_roundtrip [of "empty_job\<lparr>j_blobSize := 76\<rparr>" "0x12345678"]
  by (simp add: job_inv_def empty_job_def kMaxBlobSize_def)

section \<open>The difficulty target\<close>

lemma div_div_large:
  fixes N d :: nat
  assumes "0 < d" and "d < N div d"
  shows "N div (N div d) = d"
proof (rule div_nat_eqI)
  show "N div d * d \<le> N" by simp
  have "N = N div d * d + N mod d" by simp
  also have "\<dots> < N div d * d + d"
    using mod_less_divisor [OF assms(1), of N] by (rule add_strict_left_mono)
  also have "\<dots> \<le> N div d * Suc d" using assms(2) by simp
  finally show "N < N div d * Suc d" .
qed

lemma eight_zeros: "replicate 8 (0 :: u8) = [0, 0, 0, 0, 0, 0, 0, 0]"
  by (simp add: numeral_eq_Suc)

lemma hexToBytes_8: "length hex = 8 \<Longrightarrow> snd (hexToBytes hex (replicate 8 0) 8) = 4"
  by (simp add: hexToBytes_def Let_def)

text \<open>a compact 4-byte target c that is not zero yields exactly the difficulty
  \<open>0xFFFFFFFF div c\<close>, and the 64-bit target stored is \<open>(2^64 - 1) div difficulty\<close>: scaling the
  32-bit target up and dividing back loses nothing, and the job is valid.\<close>

theorem job_setTarget_compact:
  assumes "length hex = 8"
  defines "c \<equiv> unat (compact_of (fst (hexToBytes hex (replicate 8 0) 8)))"
  assumes "c \<noteq> 0"
  shows "unat (j_diff (job_setTarget j hex)) = (2 ^ 32 - 1) div c \<and>
         unat (j_target (job_setTarget j hex)) = (2 ^ 64 - 1) div ((2 ^ 32 - 1) div c) \<and>
         0 < j_diff (job_setTarget j hex)"
proof -
  obtain raw where raw: "hexToBytes hex (replicate 8 0) 8 = (raw, 4)"
    using hexToBytes_8 [OF assms(1)] by (cases "hexToBytes hex (replicate 8 0) 8") auto
  define w where "w = compact_of raw"
  have c: "c = unat w" "w \<noteq> 0" using assms(3) by (auto simp: c_def raw w_def)
  define D where "D = ((2 :: nat) ^ 32 - 1) div c"
  have "c \<le> 2 ^ 32 - 1" using unat_u32_lt [of w] by (simp add: c)
  then have D1: "1 \<le> D" using c assms(3) by (simp add: D_def Suc_le_eq div_greater_zero_iff)
  have D2: "D \<le> 2 ^ 32 - 1" by (simp add: D_def)
  have "D < (2 ^ 64 - 1) div D"
  proof -
    have "(D + 1) * D \<le> 2 ^ 32 * (2 ^ 32 - 1)" using D2 by (intro mult_le_mono) simp_all
    also have "\<dots> \<le> 2 ^ 64 - 1" by simp
    finally show ?thesis using D1 by (simp add: less_eq_div_iff_mult_less_eq flip: Suc_le_eq)
  qed
  with D1 have undo: "(2 ^ 64 - 1) div ((2 ^ 64 - 1) div D) = D"
    by (intro div_div_large) simp_all
  have u: "unat (ucast w :: u64) = c" by (simp add: c unat_ucast_up)
  have t1: "unat (0xFFFFFFFF div ucast w :: u64) = D"
    by (simp add: unat_div u D_def)
  have t2: "unat (0xFFFFFFFFFFFFFFFF div (0xFFFFFFFF div ucast w) :: u64) = (2 ^ 64 - 1) div D"
    by (subst unat_div, subst t1) simp
  have t3: "unat (0xFFFFFFFFFFFFFFFF div (0xFFFFFFFFFFFFFFFF div (0xFFFFFFFF div ucast w)) :: u64) = D"
    by (subst unat_div, subst t2) (use undo in simp)
  have "job_setTarget j hex = j\<lparr>j_target := 0xFFFFFFFFFFFFFFFF div (0xFFFFFFFF div ucast w),
     j_diff := 0xFFFFFFFFFFFFFFFF div (0xFFFFFFFFFFFFFFFF div (0xFFFFFFFF div ucast w))\<rparr>"
    using assms(1) c by (simp add: job_setTarget_def raw w_def Let_def)
  then show ?thesis
    using t2 t3 D1 by (simp add: D_def word_less_nat_alt)
qed

theorem job_setTarget_compact_witness:
  "unat (j_diff (job_setTarget empty_job ''b88d0600'')) =
     (2 ^ 32 - 1) div unat (compact_of (fst (hexToBytes ''b88d0600'' (replicate 8 0) 8)))"
proof -
  have "unat (compact_of (fst (hexToBytes ''b88d0600'' (replicate 8 0) 8))) \<noteq> 0"
    by (simp add: hexToBytes_def compact_of_def hexCharToNibble_def upt_rec eight_zeros)
  then show ?thesis using job_setTarget_compact [of "''b88d0600''" empty_job] by simp
qed

end
