(* ===== verification/Soft_Aes.thy ===== *)
theory Soft_Aes
  imports Bytes
begin

text \<open>
  \<open>crypto/randomx/soft_aes.h\<close>: the two table-driven forms of one AES round,
  \<open>aesenc<1>\<close>/\<open>aesdec<1>\<close> (byte by byte) and \<open>aesenc<2>\<close>/\<open>aesdec<2>\<close> (word by word), over the
  global lookup tables (a record here, since \<open>soft_aes.cpp\<close> fills them at start-up and the
  rounds only read them).  A vector register is its four 32-bit elements, element 0 first in
  memory.
\<close>

section \<open>Vectors\<close>

datatype vec128 = Vec (rx_vec_i128_x: u32) (rx_vec_i128_y: u32) (rx_vec_i128_z: u32) (rx_vec_i128_w: u32)

text \<open>\<open>rx_set_int_vec_i128(e3, e2, e1, e0)\<close> names the highest element first.\<close>

definition rx_set_int_vec_i128 :: "u32 \<Rightarrow> u32 \<Rightarrow> u32 \<Rightarrow> u32 \<Rightarrow> vec128" where
  "rx_set_int_vec_i128 e3 e2 e1 e0 = Vec e0 e1 e2 e3"

definition rx_xor_vec_i128 :: "vec128 \<Rightarrow> vec128 \<Rightarrow> vec128" where
  "rx_xor_vec_i128 a b =
     Vec (rx_vec_i128_x a XOR rx_vec_i128_x b) (rx_vec_i128_y a XOR rx_vec_i128_y b)
         (rx_vec_i128_z a XOR rx_vec_i128_z b) (rx_vec_i128_w a XOR rx_vec_i128_w b)"

definition rx_and_vec_i128 :: "vec128 \<Rightarrow> vec128 \<Rightarrow> vec128" where
  "rx_and_vec_i128 a b =
     Vec (rx_vec_i128_x a AND rx_vec_i128_x b) (rx_vec_i128_y a AND rx_vec_i128_y b)
         (rx_vec_i128_z a AND rx_vec_i128_z b) (rx_vec_i128_w a AND rx_vec_i128_w b)"

text \<open>\<open>memcpy(s, &in, 16)\<close>: the sixteen bytes of a vector.\<close>

definition vec_bytes :: "vec128 \<Rightarrow> bytes" where
  "vec_bytes v = store32 (rx_vec_i128_x v) @ store32 (rx_vec_i128_y v)
     @ store32 (rx_vec_i128_z v) @ store32 (rx_vec_i128_w v)"

section \<open>One round, byte by byte and word by word\<close>

text \<open>The global arrays \<open>lutEnc0..3\<close> and \<open>lutDec0..3\<close>.\<close>

record aes_luts =
  lutEnc0 :: "u32 list"
  lutEnc1 :: "u32 list"
  lutEnc2 :: "u32 list"
  lutEnc3 :: "u32 list"
  lutDec0 :: "u32 list"
  lutDec1 :: "u32 list"
  lutDec2 :: "u32 list"
  lutDec3 :: "u32 list"

definition aesenc_1 :: "aes_luts \<Rightarrow> vec128 \<Rightarrow> vec128 \<Rightarrow> vec128" where
  "aesenc_1 t input key =
     (let s = vec_bytes input; at = (\<lambda>lut i. lut ! unat (s ! i));
          s0 = at (lutEnc0 t) 0; s1 = at (lutEnc0 t) 4; s2 = at (lutEnc0 t) 8; s3 = at (lutEnc0 t) 12;
          s0 = s0 XOR at (lutEnc1 t) 5; s1 = s1 XOR at (lutEnc1 t) 9;
          s2 = s2 XOR at (lutEnc1 t) 13; s3 = s3 XOR at (lutEnc1 t) 1;
          s0 = s0 XOR at (lutEnc2 t) 10; s1 = s1 XOR at (lutEnc2 t) 14;
          s2 = s2 XOR at (lutEnc2 t) 2; s3 = s3 XOR at (lutEnc2 t) 6;
          s0 = s0 XOR at (lutEnc3 t) 15; s1 = s1 XOR at (lutEnc3 t) 3;
          s2 = s2 XOR at (lutEnc3 t) 7; s3 = s3 XOR at (lutEnc3 t) 11
      in rx_xor_vec_i128 (rx_set_int_vec_i128 s3 s2 s1 s0) key)"

definition aesdec_1 :: "aes_luts \<Rightarrow> vec128 \<Rightarrow> vec128 \<Rightarrow> vec128" where
  "aesdec_1 t input key =
     (let s = vec_bytes input; at = (\<lambda>lut i. lut ! unat (s ! i));
          s0 = at (lutDec0 t) 0; s1 = at (lutDec0 t) 4; s2 = at (lutDec0 t) 8; s3 = at (lutDec0 t) 12;
          s0 = s0 XOR at (lutDec1 t) 13; s1 = s1 XOR at (lutDec1 t) 1;
          s2 = s2 XOR at (lutDec1 t) 5; s3 = s3 XOR at (lutDec1 t) 9;
          s0 = s0 XOR at (lutDec2 t) 10; s1 = s1 XOR at (lutDec2 t) 14;
          s2 = s2 XOR at (lutDec2 t) 2; s3 = s3 XOR at (lutDec2 t) 6;
          s0 = s0 XOR at (lutDec3 t) 7; s1 = s1 XOR at (lutDec3 t) 11;
          s2 = s2 XOR at (lutDec3 t) 15; s3 = s3 XOR at (lutDec3 t) 3
      in rx_xor_vec_i128 (rx_set_int_vec_i128 s3 s2 s1 s0) key)"

definition aesenc_2 :: "aes_luts \<Rightarrow> vec128 \<Rightarrow> vec128 \<Rightarrow> vec128" where
  "aesenc_2 t input key =
     (let s0 = rx_vec_i128_w input; s1 = rx_vec_i128_z input;
          s2 = rx_vec_i128_y input; s3 = rx_vec_i128_x input;
          b0 = (\<lambda>s :: u32. unat (s AND 0xff)); b1 = (\<lambda>s :: u32. unat (drop_bit 8 s AND 0xff));
          b2 = (\<lambda>s :: u32. unat (drop_bit 16 s AND 0xff)); b3 = (\<lambda>s :: u32. unat (drop_bit 24 s));
          out = rx_set_int_vec_i128
            (lutEnc0 t ! b0 s0 XOR lutEnc1 t ! b1 s3 XOR lutEnc2 t ! b2 s2 XOR lutEnc3 t ! b3 s1)
            (lutEnc0 t ! b0 s1 XOR lutEnc1 t ! b1 s0 XOR lutEnc2 t ! b2 s3 XOR lutEnc3 t ! b3 s2)
            (lutEnc0 t ! b0 s2 XOR lutEnc1 t ! b1 s1 XOR lutEnc2 t ! b2 s0 XOR lutEnc3 t ! b3 s3)
            (lutEnc0 t ! b0 s3 XOR lutEnc1 t ! b1 s2 XOR lutEnc2 t ! b2 s1 XOR lutEnc3 t ! b3 s0)
      in rx_xor_vec_i128 out key)"

definition aesdec_2 :: "aes_luts \<Rightarrow> vec128 \<Rightarrow> vec128 \<Rightarrow> vec128" where
  "aesdec_2 t input key =
     (let s0 = rx_vec_i128_w input; s1 = rx_vec_i128_z input;
          s2 = rx_vec_i128_y input; s3 = rx_vec_i128_x input;
          b0 = (\<lambda>s :: u32. unat (s AND 0xff)); b1 = (\<lambda>s :: u32. unat (drop_bit 8 s AND 0xff));
          b2 = (\<lambda>s :: u32. unat (drop_bit 16 s AND 0xff)); b3 = (\<lambda>s :: u32. unat (drop_bit 24 s));
          out = rx_set_int_vec_i128
            (lutDec0 t ! b0 s0 XOR lutDec1 t ! b1 s1 XOR lutDec2 t ! b2 s2 XOR lutDec3 t ! b3 s3)
            (lutDec0 t ! b0 s1 XOR lutDec1 t ! b1 s2 XOR lutDec2 t ! b2 s3 XOR lutDec3 t ! b3 s0)
            (lutDec0 t ! b0 s2 XOR lutDec1 t ! b1 s3 XOR lutDec2 t ! b2 s0 XOR lutDec3 t ! b3 s1)
            (lutDec0 t ! b0 s3 XOR lutDec1 t ! b1 s0 XOR lutDec2 t ! b2 s1 XOR lutDec3 t ! b3 s2)
      in rx_xor_vec_i128 out key)"

lemma and_255: "(w :: u32) AND 0xff = take_bit 8 w"
proof -
  have "(0xff :: u32) = mask 8" by (simp add: mask_eq_exp_minus_1)
  then show ?thesis by (simp only: take_bit_eq_mask)
qed

lemma unat_ucast_byte: "unat (ucast (w :: u32) :: u8) = unat (w AND 0xff)"
  unfolding and_255 by (simp add: unsigned_ucast_eq unsigned_take_bit_eq)

lemma unat_top_byte: "unat (drop_bit 24 (w :: u32) AND 0xff) = unat (drop_bit 24 w)"
proof -
  have "take_bit 8 (drop_bit 24 w) = drop_bit 24 w"
  proof (rule bit_word_eqI)
    fix n
    assume "n < LENGTH(32)"
    show "bit (take_bit 8 (drop_bit 24 w)) n = bit (drop_bit 24 w) n"
      using bit_imp_le_length [of w "24 + n"] by (auto simp: bit_simps)
  qed
  then show ?thesis by (simp only: and_255)
qed

lemma nth_vec_bytes:
  "vec_bytes v ! 0 = ucast (rx_vec_i128_x v)" "vec_bytes v ! 1 = ucast (drop_bit 8 (rx_vec_i128_x v))"
  "vec_bytes v ! 2 = ucast (drop_bit 16 (rx_vec_i128_x v))" "vec_bytes v ! 3 = ucast (drop_bit 24 (rx_vec_i128_x v))"
  "vec_bytes v ! 4 = ucast (rx_vec_i128_y v)" "vec_bytes v ! 5 = ucast (drop_bit 8 (rx_vec_i128_y v))"
  "vec_bytes v ! 6 = ucast (drop_bit 16 (rx_vec_i128_y v))" "vec_bytes v ! 7 = ucast (drop_bit 24 (rx_vec_i128_y v))"
  "vec_bytes v ! 8 = ucast (rx_vec_i128_z v)" "vec_bytes v ! 9 = ucast (drop_bit 8 (rx_vec_i128_z v))"
  "vec_bytes v ! 10 = ucast (drop_bit 16 (rx_vec_i128_z v))" "vec_bytes v ! 11 = ucast (drop_bit 24 (rx_vec_i128_z v))"
  "vec_bytes v ! 12 = ucast (rx_vec_i128_w v)" "vec_bytes v ! 13 = ucast (drop_bit 8 (rx_vec_i128_w v))"
  "vec_bytes v ! 14 = ucast (drop_bit 16 (rx_vec_i128_w v))" "vec_bytes v ! 15 = ucast (drop_bit 24 (rx_vec_i128_w v))"
  by (simp_all add: vec_bytes_def nth_append nth_store32)

lemma aesenc_1_eq_2: "aesenc_1 t v key = aesenc_2 t v key"
  by (simp add: aesenc_1_def aesenc_2_def Let_def nth_vec_bytes nth_vec_bytes(2) [simplified]
      unat_ucast_byte unat_top_byte xor.assoc)

lemma aesdec_1_eq_2: "aesdec_1 t v key = aesdec_2 t v key"
  by (simp add: aesdec_1_def aesdec_2_def Let_def nth_vec_bytes nth_vec_bytes(2) [simplified]
      unat_ucast_byte unat_top_byte xor.assoc)

text \<open>The two software AES implementations the miner times against each other at start-up
  compute the same round: the byte-wise \<open>aesenc<1>\<close>/\<open>aesdec<1>\<close> and the word-wise
  \<open>aesenc<2>\<close>/\<open>aesdec<2>\<close> agree on every input, key and table content.\<close>

theorem soft_aes_equiv:
  "aesenc_1 t v key = aesenc_2 t v key \<and> aesdec_1 t v key = aesdec_2 t v key"
  by (simp add: aesenc_1_eq_2 aesdec_1_eq_2)

end
