(* ===== verification/Aes_Hash.thy ===== *)
theory Aes_Hash
  imports Soft_Aes
begin

text \<open>
  \<open>crypto/randomx/aes_hash.cpp\<close>: hashing the scratchpad (\<open>hashAes1Rx4\<close>), filling it
  (\<open>fillAes1Rx4\<close>), generating a program (\<open>fillAes4Rx4\<close>), and the fused loop
  \<open>hashAndFillAes1Rx4\<close> that finishes one hash while it fills the scratchpad for the next.  A
  64-byte line is four vectors; a buffer is the list of its lines (every size the code passes
  is a multiple of 64).  The AES round is an argument, \<open>enc\<close>/\<open>dec\<close>: the code's template
  parameter selects the instruction of the processor or a software round of \<open>Soft_Aes\<close>.
\<close>

type_synonym line = "vec128 \<times> vec128 \<times> vec128 \<times> vec128"
type_synonym aes_round = "vec128 \<Rightarrow> vec128 \<Rightarrow> vec128"

definition aes_hash_state :: line where
  "aes_hash_state =
     (rx_set_int_vec_i128 0xd7983aad 0xcc82db47 0x9fa856de 0x92b52c0d,
      rx_set_int_vec_i128 0xace78057 0xf59e125a 0x15c7b798 0x338d996e,
      rx_set_int_vec_i128 0xe8a07ce4 0x5079506b 0xae62c7d0 0x6a770017,
      rx_set_int_vec_i128 0x7e994948 0x79a10005 0x07ad828d 0x630a240c)"

definition aes_hash_xkey0 :: vec128 where
  "aes_hash_xkey0 = rx_set_int_vec_i128 0x06890201 0x90dc56bf 0x8b24949f 0xf6fa8389"

definition aes_hash_xkey1 :: vec128 where
  "aes_hash_xkey1 = rx_set_int_vec_i128 0xed18f99b 0xee1043c6 0x51f4e03c 0x61b263d1"

definition aes_gen_key :: line where
  "aes_gen_key =
     (rx_set_int_vec_i128 0xb4f44917 0xdbb5552b 0x62716609 0x6daca553,
      rx_set_int_vec_i128 0x0da1dc4e 0x1725d378 0x846a710d 0x6d7caf07,
      rx_set_int_vec_i128 0x3e20e345 0xf4c0794f 0x9f947ec6 0x3f1262f1,
      rx_set_int_vec_i128 0x49169154 0x16314c88 0xb1ba317c 0x6aef8135)"

section \<open>The four routines\<close>

definition hash_line :: "aes_round \<Rightarrow> aes_round \<Rightarrow> line \<Rightarrow> line \<Rightarrow> line" where
  "hash_line enc dec st ln =
     (case st of (s0, s1, s2, s3) \<Rightarrow> case ln of (i0, i1, i2, i3) \<Rightarrow>
        (enc s0 i0, dec s1 i1, enc s2 i2, dec s3 i3))"

definition hash_finish :: "aes_round \<Rightarrow> aes_round \<Rightarrow> line \<Rightarrow> line" where
  "hash_finish enc dec st =
     (let st1 = hash_line enc dec st (aes_hash_xkey0, aes_hash_xkey0, aes_hash_xkey0, aes_hash_xkey0)
      in hash_line enc dec st1 (aes_hash_xkey1, aes_hash_xkey1, aes_hash_xkey1, aes_hash_xkey1))"

text \<open>\<open>hashAes1Rx4(input, inputSize, hash)\<close>: the 64 bytes of the hash.\<close>

definition hashAes1Rx4 :: "aes_round \<Rightarrow> aes_round \<Rightarrow> line list \<Rightarrow> line" where
  "hashAes1Rx4 enc dec input = hash_finish enc dec (foldl (hash_line enc dec) aes_hash_state input)"

definition fill_line :: "aes_round \<Rightarrow> aes_round \<Rightarrow> line \<Rightarrow> line" where
  "fill_line enc dec st =
     (case st of (s0, s1, s2, s3) \<Rightarrow> case aes_gen_key of (k0, k1, k2, k3) \<Rightarrow>
        (dec s0 k0, enc s1 k1, dec s2 k2, enc s3 k3))"

text \<open>\<open>fillAes1Rx4(state, outputSize, buffer)\<close>: the lines written and the state left.\<close>

fun fill_loop :: "aes_round \<Rightarrow> aes_round \<Rightarrow> nat \<Rightarrow> line \<Rightarrow> line list \<times> line" where
  "fill_loop enc dec 0 st = ([], st)"
| "fill_loop enc dec (Suc n) st =
     (let st' = fill_line enc dec st; (out, fin) = fill_loop enc dec n st' in (st' # out, fin))"

definition fillAes1Rx4 :: "aes_round \<Rightarrow> aes_round \<Rightarrow> line \<Rightarrow> nat \<Rightarrow> line list \<times> line" where
  "fillAes1Rx4 enc dec state nlines = fill_loop enc dec nlines state"

text \<open>
  \<open>fillAes4Rx4\<close>: four rounds per line with the eight keys of the configuration; the two lines
  of entropy are stored as they are, the program lines are masked with \<open>inst_mask\<close>, the
  little-endian image of two instructions \<open>{0xFF, 7, 7, 0xFF, 0xFFFFFFFF}\<close>.
\<close>

definition fill4_transform :: "aes_round \<Rightarrow> aes_round \<Rightarrow> vec128 list \<Rightarrow> line \<Rightarrow> line" where
  "fill4_transform enc dec keys st =
     foldl (\<lambda>st i. case st of (s0, s1, s2, s3) \<Rightarrow>
        (dec s0 (keys ! i), enc s1 (keys ! i), dec s2 (keys ! (i + 4)), enc s3 (keys ! (i + 4))))
       st [0, 1, 2, 3]"

definition inst_mask :: vec128 where
  "inst_mask = Vec 0xFF0707FF 0xFFFFFFFF 0xFF0707FF 0xFFFFFFFF"

definition mask_line :: "line \<Rightarrow> line" where
  "mask_line ln = (case ln of (a, b, c, d) \<Rightarrow>
     (rx_and_vec_i128 a inst_mask, rx_and_vec_i128 b inst_mask,
      rx_and_vec_i128 c inst_mask, rx_and_vec_i128 d inst_mask))"

fun fill4_loop :: "aes_round \<Rightarrow> aes_round \<Rightarrow> vec128 list \<Rightarrow> nat \<Rightarrow> line \<Rightarrow> line list" where
  "fill4_loop enc dec keys 0 st = []"
| "fill4_loop enc dec keys (Suc n) st =
     (let st' = fill4_transform enc dec keys st
      in mask_line st' # fill4_loop enc dec keys n st')"

definition fillAes4Rx4 :: "aes_round \<Rightarrow> aes_round \<Rightarrow> vec128 list \<Rightarrow> line \<Rightarrow> nat \<Rightarrow> line list" where
  "fillAes4Rx4 enc dec keys state nlines =
     (let st1 = fill4_transform enc dec keys state;
          st2 = fill4_transform enc dec keys st1
      in st1 # st2 # fill4_loop enc dec keys (nlines - 2) st2)"

text \<open>
  \<open>hashAndFillAes1Rx4<softAes, unroll>\<close>.  The state of its loops is the scratchpad, the hash
  lanes and the fill lanes; \<open>ptr\<close> counts lines.  \<open>HASH_STATE(k)\<close> reads line \<open>ptr + k\<close>,
  \<open>FILL_STATE(k)\<close> overwrites it.
\<close>

type_synonym haf_state = "line list \<times> line \<times> line"

definition HASH_STATE :: "aes_round \<Rightarrow> aes_round \<Rightarrow> nat \<Rightarrow> nat \<Rightarrow> haf_state \<Rightarrow> haf_state" where
  "HASH_STATE enc dec ptr k st =
     (case st of (sp, h, f) \<Rightarrow> (sp, hash_line enc dec h (sp ! (ptr + k)), f))"

definition FILL_STATE :: "aes_round \<Rightarrow> aes_round \<Rightarrow> nat \<Rightarrow> nat \<Rightarrow> haf_state \<Rightarrow> haf_state" where
  "FILL_STATE enc dec ptr k st =
     (case st of (sp, h, f) \<Rightarrow> let f' = fill_line enc dec f in (sp[ptr + k := f'], h, f'))"

text \<open>The body of the inner loop and the number of lines it advances.\<close>

definition haf_body :: "aes_round \<Rightarrow> aes_round \<Rightarrow> nat \<Rightarrow> nat \<Rightarrow> nat \<Rightarrow> haf_state \<Rightarrow> haf_state" where
  "haf_body enc dec softAes unroll ptr st =
     (let H = HASH_STATE enc dec ptr; F = FILL_STATE enc dec ptr in
      if softAes = 0 then F 1 (F 0 (H 1 (H 0 st)))
      else if unroll = 4 then F 3 (H 3 (F 2 (H 2 (F 1 (H 1 (F 0 (H 0 st)))))))
      else if unroll = 2 then F 1 (H 1 (F 0 (H 0 st)))
      else F 0 (H 0 st))"

definition haf_advance :: "nat \<Rightarrow> nat \<Rightarrow> nat" where
  "haf_advance softAes unroll =
     (if softAes = 0 then 2 else if unroll = 4 then 4 else if unroll = 2 then 2 else 1)"

lemma haf_advance_pos [simp]: "0 < haf_advance s u"
  by (simp add: haf_advance_def)

text \<open>\<open>while (scratchpadPtr < scratchpadEnd)\<close>; the end may lie before the buffer.\<close>

function haf_while ::
  "aes_round \<Rightarrow> aes_round \<Rightarrow> nat \<Rightarrow> nat \<Rightarrow> int \<Rightarrow> nat \<Rightarrow> haf_state \<Rightarrow> nat \<times> haf_state" where
  "haf_while enc dec softAes unroll e ptr st =
     (if int ptr < e
      then haf_while enc dec softAes unroll e (ptr + haf_advance softAes unroll)
             (haf_body enc dec softAes unroll ptr st)
      else (ptr, st))"
  by pat_completeness auto
termination
  by (relation "measure (\<lambda>(enc, dec, s, u, e, ptr, st). nat (e - int ptr))") auto

declare haf_while.simps [simp del]

text \<open>\<open>PREFETCH_DISTANCE = 7168\<close> bytes, 112 lines; the outer loop runs the inner one twice.\<close>

definition hashAndFillAes1Rx4 ::
  "aes_round \<Rightarrow> aes_round \<Rightarrow> nat \<Rightarrow> nat \<Rightarrow> line list \<Rightarrow> line \<Rightarrow> line list \<times> line \<times> line" where
  "hashAndFillAes1Rx4 enc dec softAes unroll scratchpad fill_state =
     (let e = int (length scratchpad) - 112;
          (ptr1, st1) = haf_while enc dec softAes unroll e 0 (scratchpad, aes_hash_state, fill_state);
          (ptr2, st2) = haf_while enc dec softAes unroll (e + 112) ptr1 st1
      in case st2 of (sp, h, f) \<Rightarrow> (sp, hash_finish enc dec h, f))"

section \<open>The fused loop is hash, then fill\<close>

text \<open>Both orders of the body equal the line-by-line step.\<close>

definition haf_line :: "aes_round \<Rightarrow> aes_round \<Rightarrow> nat \<Rightarrow> haf_state \<Rightarrow> haf_state" where
  "haf_line enc dec ptr st = FILL_STATE enc dec ptr 0 (HASH_STATE enc dec ptr 0 st)"

lemma haf_body_lines:
  assumes "ptr + haf_advance s u \<le> length (fst st)"
  shows "haf_body enc dec s u ptr st =
     fold (haf_line enc dec) [ptr..<ptr + haf_advance s u] st"
proof -
  obtain sp h f where st: "st = (sp, h, f)" by (cases st) auto
  have upt: "[ptr..<ptr + 4] = [ptr, ptr + 1, ptr + 2, ptr + 3]" "[ptr..<ptr + 2] = [ptr, ptr + 1]"
    by (simp_all add: upt_rec)
  show ?thesis
    using assms
    by (auto simp: st haf_body_def haf_line_def HASH_STATE_def FILL_STATE_def haf_advance_def Let_def
        upt nth_list_update split: prod.splits if_splits)
qed

lemma length_haf_line [simp]: "length (fst (haf_line enc dec p st)) = length (fst st)"
  by (simp add: haf_line_def HASH_STATE_def FILL_STATE_def Let_def split: prod.splits)

lemma length_fold_haf_line [simp]:
  "length (fst (fold (haf_line enc dec) ps st)) = length (fst st)"
  by (induction ps arbitrary: st) simp_all

lemma haf_while_lines:
  assumes "haf_advance s u dvd n" and "haf_advance s u dvd ptr" and "int ptr \<le> e"
    and "e \<le> int (length (fst st))" and "e = int n"
  shows "haf_while enc dec s u e ptr st = (n, fold (haf_line enc dec) [ptr..<n] st)"
  using assms
proof (induction enc dec s u e ptr st rule: haf_while.induct)
  case (1 enc dec s u e ptr st)
  let ?a = "haf_advance s u"
  show ?case
  proof (cases "ptr < n")
    case True
    obtain k where k: "n = ptr + k" using True less_imp_add_positive by blast
    with 1(2,3) have "?a dvd k" by (metis dvd_add_right_iff)
    with True k have a: "ptr + ?a \<le> n" by (simp add: dvd_imp_le)
    have "haf_while enc dec s u e ptr st =
        haf_while enc dec s u e (ptr + ?a) (haf_body enc dec s u ptr st)"
      using True 1(6) by (subst haf_while.simps) simp
    also have "\<dots> = (n, fold (haf_line enc dec) [ptr + ?a..<n] (haf_body enc dec s u ptr st))"
    proof (rule 1(1))
      show "e \<le> int (length (fst (haf_body enc dec s u ptr st)))"
        using 1(5,6) a by (subst haf_body_lines) auto
    qed (use True 1 a in simp_all)
    also have "haf_body enc dec s u ptr st = fold (haf_line enc dec) [ptr..<ptr + ?a] st"
      using 1(5,6) a by (intro haf_body_lines) auto
    also have "fold (haf_line enc dec) [ptr + ?a..<n] (fold (haf_line enc dec) [ptr..<ptr + ?a] st)
        = fold (haf_line enc dec) [ptr..<n] st"
      using a by (simp add: upt_split [of ptr "ptr + ?a" n])
    finally show ?thesis .
  next
    case False
    with 1(4,6) have "n = ptr" by simp
    then show ?thesis using 1(6) by (subst haf_while.simps) simp
  qed
qed

lemma fold_haf_line:
  assumes "length sp = p + k"
  shows "fold (haf_line enc dec) [p..<p + k] (sp, h, f) =
    (take p sp @ fst (fill_loop enc dec k f), foldl (hash_line enc dec) h (drop p sp),
     snd (fill_loop enc dec k f))"
  using assms
proof (induction k arbitrary: p sp h f)
  case (Suc k)
  let ?f = "fill_line enc dec f"
  have p: "p < length sp" using Suc.prems by simp
  then have drop: "drop p sp = sp ! p # drop (Suc p) sp" by (simp add: Cons_nth_drop_Suc)
  have "[p..<p + Suc k] = p # [Suc p..<Suc p + k]" by (simp add: upt_conv_Cons)
  moreover have "haf_line enc dec p (sp, h, f) = (sp[p := ?f], hash_line enc dec h (sp ! p), ?f)"
    by (simp add: haf_line_def HASH_STATE_def FILL_STATE_def Let_def)
  moreover have "take (Suc p) (sp[p := ?f]) = take p sp @ [?f]"
    using p by (simp add: take_Suc_conv_app_nth)
  ultimately show ?case
    using Suc.IH [of "sp[p := ?f]" "Suc p"] Suc.prems drop
    by (simp add: Let_def split: prod.splits)
qed simp

lemma hashAndFill_eq:
  assumes "haf_advance s u dvd length sp"
  shows "hashAndFillAes1Rx4 enc dec s u sp f =
    (fst (fillAes1Rx4 enc dec f (length sp)), hashAes1Rx4 enc dec sp,
     snd (fillAes1Rx4 enc dec f (length sp)))"
proof -
  let ?n = "length sp" and ?st = "(sp, aes_hash_state, f)"
  define m where "m = ?n - 112"
  have m: "haf_advance s u dvd m"
  proof -
    have "haf_advance s u dvd 112" by (simp add: haf_advance_def)
    then show ?thesis using assms by (simp add: m_def dvd_diff_nat)
  qed
  have first: "haf_while enc dec s u (int ?n - 112) 0 ?st = (m, fold (haf_line enc dec) [0..<m] ?st)"
  proof (cases "112 \<le> ?n")
    case True
    then show ?thesis using m by (intro haf_while_lines) (simp_all add: m_def)
  next
    case False
    then show ?thesis by (subst haf_while.simps) (simp add: m_def)
  qed
  have second: "haf_while enc dec s u (int ?n) m (fold (haf_line enc dec) [0..<m] ?st) =
      (?n, fold (haf_line enc dec) [m..<?n] (fold (haf_line enc dec) [0..<m] ?st))"
    using assms m by (intro haf_while_lines) (simp_all add: m_def)
  have "fold (haf_line enc dec) [m..<?n] (fold (haf_line enc dec) [0..<m] ?st) =
      fold (haf_line enc dec) [0..<?n] ?st"
    by (simp add: upt_split [of 0 m ?n] m_def)
  also have "\<dots> = (fst (fill_loop enc dec ?n f), foldl (hash_line enc dec) aes_hash_state sp,
      snd (fill_loop enc dec ?n f))"
    using fold_haf_line [of sp 0 ?n] by simp
  finally show ?thesis
    by (simp add: hashAndFillAes1Rx4_def first second hashAes1Rx4_def fillAes1Rx4_def)
qed

text \<open>C28: in every instantiation the library compiles (hardware rounds unrolled by 2, software
  rounds unrolled by 1, 2 or 4) and for every scratchpad whose number of lines the unrolling
  divides, the fused loop returns exactly the hash \<open>hashAes1Rx4\<close> gives of the old scratchpad and
  leaves exactly the scratchpad and state \<open>fillAes1Rx4\<close> would leave: interleaving the two and
  splitting the loop for prefetching loses no line and reads no overwritten one.\<close>

theorem hashAndFillAes1Rx4_correct:
  assumes "(softAes, unroll) \<in> {(0, 2), (1, 1), (2, 1), (2, 2), (2, 4)}"
    and "4 dvd length scratchpad"
  shows "hashAndFillAes1Rx4 enc dec softAes unroll scratchpad fill_state =
    (fst (fillAes1Rx4 enc dec fill_state (length scratchpad)), hashAes1Rx4 enc dec scratchpad,
     snd (fillAes1Rx4 enc dec fill_state (length scratchpad)))"
proof (rule hashAndFill_eq)
  have "haf_advance softAes unroll dvd 4" using assms(1) by (auto simp: haf_advance_def)
  then show "haf_advance softAes unroll dvd length scratchpad" using assms(2) dvd_trans by blast
qed

theorem hashAndFillAes1Rx4_correct_witness:
  "hashAndFillAes1Rx4 (\<lambda>s k. k) rx_xor_vec_i128 2 4 (replicate 128 aes_gen_key) aes_hash_state =
    (fst (fillAes1Rx4 (\<lambda>s k. k) rx_xor_vec_i128 aes_hash_state (length (replicate 128 aes_gen_key))),
     hashAes1Rx4 (\<lambda>s k. k) rx_xor_vec_i128 (replicate 128 aes_gen_key),
     snd (fillAes1Rx4 (\<lambda>s k. k) rx_xor_vec_i128 aes_hash_state (length (replicate 128 aes_gen_key))))"
  by (rule hashAndFillAes1Rx4_correct) simp_all

end
