(* ===== verification/Blake2b.thy ===== *)
theory Blake2b
  imports Bytes
begin

text \<open>
  \<open>crypto/randomx/blake2/blake2b.c\<close> (and the constants and types of \<open>blake2.h\<close>): the BLAKE2b
  hash with its streaming interface, and the variable-length hash \<open>rxa2_blake2b_long\<close> of the
  Argon2 cache initialisation.  \<open>rx_blake2b_compress\<close> and \<open>rx_blake2b\<close> are function pointers; the
  model binds them to the portable routines of this file.  A state argument is a value and so
  never \<open>NULL\<close>; a buffer the code tests against \<open>NULL\<close> is an option beside its length.
\<close>

abbreviation (input) "BLAKE2B_BLOCKBYTES \<equiv> (128 :: nat)"
abbreviation (input) "BLAKE2B_OUTBYTES \<equiv> (64 :: nat)"
abbreviation (input) "BLAKE2B_KEYBYTES \<equiv> (64 :: nat)"

definition blake2b_IV :: "u64 list" where
  "blake2b_IV = [0x6a09e667f3bcc908, 0xbb67ae8584caa73b, 0x3c6ef372fe94f82b, 0xa54ff53a5f1d36f1,
     0x510e527fade682d1, 0x9b05688c2b3e6c1f, 0x1f83d9abfb41bd6b, 0x5be0cd19137e2179]"

definition blake2b_sigma :: "nat list list" where
  "blake2b_sigma =
    [[0, 1, 2, 3, 4, 5, 6, 7, 8, 9, 10, 11, 12, 13, 14, 15],
     [14, 10, 4, 8, 9, 15, 13, 6, 1, 12, 0, 2, 11, 7, 5, 3],
     [11, 8, 12, 0, 5, 2, 15, 13, 10, 14, 3, 6, 7, 1, 9, 4],
     [7, 9, 3, 1, 13, 12, 11, 14, 2, 6, 5, 10, 4, 0, 15, 8],
     [9, 0, 5, 7, 2, 4, 10, 15, 14, 1, 11, 12, 6, 8, 3, 13],
     [2, 12, 6, 10, 0, 11, 8, 3, 4, 13, 7, 5, 15, 14, 1, 9],
     [12, 5, 1, 15, 14, 13, 4, 10, 0, 7, 6, 3, 9, 2, 8, 11],
     [13, 11, 7, 14, 12, 1, 3, 9, 5, 0, 15, 4, 8, 6, 2, 10],
     [6, 15, 14, 9, 11, 3, 0, 8, 12, 2, 13, 7, 1, 4, 10, 5],
     [10, 2, 8, 4, 7, 6, 1, 5, 15, 11, 9, 14, 3, 12, 13, 0],
     [0, 1, 2, 3, 4, 5, 6, 7, 8, 9, 10, 11, 12, 13, 14, 15],
     [14, 10, 4, 8, 9, 15, 13, 6, 1, 12, 0, 2, 11, 7, 5, 3]]"

record blake2b_param =
  p_digest_length :: u8
  p_key_length :: u8
  p_fanout :: u8
  p_depth :: u8
  p_leaf_length :: u32
  p_node_offset :: u64
  p_node_depth :: u8
  p_inner_length :: u8
  p_reserved :: bytes
  p_salt :: bytes
  p_personal :: bytes

text \<open>The packed struct as bytes (\<open>const unsigned char *p = (const unsigned char *)P\<close>).\<close>

definition param_bytes :: "blake2b_param \<Rightarrow> bytes" where
  "param_bytes P = [p_digest_length P, p_key_length P, p_fanout P, p_depth P]
     @ store32 (p_leaf_length P) @ store64 (p_node_offset P) @ [p_node_depth P, p_inner_length P]
     @ p_reserved P @ p_salt P @ p_personal P"

record blake2b_state =
  b_h :: "u64 list"
  b_t0 :: u64
  b_t1 :: u64
  b_f0 :: u64
  b_f1 :: u64
  b_buf :: bytes
  b_buflen :: nat
  b_outlen :: nat
  b_last_node :: u8

section \<open>State helpers\<close>

definition blake2b_set_lastnode :: "blake2b_state \<Rightarrow> blake2b_state" where
  "blake2b_set_lastnode S = S\<lparr>b_f1 := -1\<rparr>"

definition blake2b_set_lastblock :: "blake2b_state \<Rightarrow> blake2b_state" where
  "blake2b_set_lastblock S =
     (let S = (if b_last_node S \<noteq> 0 then blake2b_set_lastnode S else S) in S\<lparr>b_f0 := -1\<rparr>)"

definition blake2b_increment_counter :: "blake2b_state \<Rightarrow> u64 \<Rightarrow> blake2b_state" where
  "blake2b_increment_counter S inc =
     (let S = S\<lparr>b_t0 := b_t0 S + inc\<rparr> in
      S\<lparr>b_t1 := b_t1 S + (if b_t0 S < inc then 1 else 0)\<rparr>)"

definition blake2b_invalidate_state :: "blake2b_state \<Rightarrow> blake2b_state" where
  "blake2b_invalidate_state S = blake2b_set_lastblock S"

definition blake2b_init0 :: blake2b_state where
  "blake2b_init0 = \<lparr>b_h = blake2b_IV, b_t0 = 0, b_t1 = 0, b_f0 = 0, b_f1 = 0,
     b_buf = replicate BLAKE2B_BLOCKBYTES 0, b_buflen = 0, b_outlen = 0, b_last_node = 0\<rparr>"

section \<open>Initialisation\<close>

definition rx_blake2b_init_param :: "blake2b_param option \<Rightarrow> blake2b_state \<Rightarrow> blake2b_state \<times> int" where
  "rx_blake2b_init_param P S =
     (case P of None \<Rightarrow> (S, -1)
      | Some P \<Rightarrow>
        (let S = blake2b_init0;
             p = param_bytes P;
             S = S\<lparr>b_h := map (\<lambda>i. b_h S ! i XOR load64 (drop (i * 8) p)) [0..<8]\<rparr>
         in (S\<lparr>b_outlen := unat (p_digest_length P)\<rparr>, 0)))"

definition unkeyed_param :: "nat \<Rightarrow> blake2b_param" where
  "unkeyed_param outlen = \<lparr>p_digest_length = of_nat outlen, p_key_length = 0, p_fanout = 1,
     p_depth = 1, p_leaf_length = 0, p_node_offset = 0, p_node_depth = 0, p_inner_length = 0,
     p_reserved = replicate 14 0, p_salt = replicate 16 0, p_personal = replicate 16 0\<rparr>"

definition rx_blake2b_init :: "blake2b_state \<Rightarrow> nat \<Rightarrow> blake2b_state \<times> int" where
  "rx_blake2b_init S outlen =
     (if outlen = 0 \<or> BLAKE2B_OUTBYTES < outlen then (blake2b_invalidate_state S, -1)
      else rx_blake2b_init_param (Some (unkeyed_param outlen)) S)"

section \<open>Compression\<close>

text \<open>The macro \<open>G(r, i, a, b, c, d)\<close>, its last four arguments as indices into v.\<close>

definition blake2b_G :: "u64 list \<Rightarrow> nat \<Rightarrow> nat \<Rightarrow> nat \<Rightarrow> nat \<Rightarrow> nat \<Rightarrow> nat \<Rightarrow> u64 list \<Rightarrow> u64 list" where
  "blake2b_G m r i a b c d v =
     (let va = v ! a + v ! b + m ! (blake2b_sigma ! r ! (2 * i + 0));
          vd = rotr64 (v ! d XOR va) 32;
          vc = v ! c + vd;
          vb = rotr64 (v ! b XOR vc) 24;
          va = va + vb + m ! (blake2b_sigma ! r ! (2 * i + 1));
          vd = rotr64 (vd XOR va) 16;
          vc = vc + vd;
          vb = rotr64 (vb XOR vc) 63
      in v[a := va, b := vb, c := vc, d := vd])"

definition blake2b_ROUND :: "u64 list \<Rightarrow> nat \<Rightarrow> u64 list \<Rightarrow> u64 list" where
  "blake2b_ROUND m r v =
     (let v = blake2b_G m r 0 0 4 8 12 v;
          v = blake2b_G m r 1 1 5 9 13 v;
          v = blake2b_G m r 2 2 6 10 14 v;
          v = blake2b_G m r 3 3 7 11 15 v;
          v = blake2b_G m r 4 0 5 10 15 v;
          v = blake2b_G m r 5 1 6 11 12 v;
          v = blake2b_G m r 6 2 7 8 13 v
      in blake2b_G m r 7 3 4 9 14 v)"

definition rx_blake2b_compress_integer :: "blake2b_state \<Rightarrow> bytes \<Rightarrow> blake2b_state" where
  "rx_blake2b_compress_integer S block =
     (let m = map (\<lambda>i. load64 (drop (i * 8) block)) [0..<16];
          v = take 8 (b_h S)
              @ [blake2b_IV ! 0, blake2b_IV ! 1, blake2b_IV ! 2, blake2b_IV ! 3,
                 blake2b_IV ! 4 XOR b_t0 S, blake2b_IV ! 5 XOR b_t1 S,
                 blake2b_IV ! 6 XOR b_f0 S, blake2b_IV ! 7 XOR b_f1 S];
          v = foldl (\<lambda>v r. blake2b_ROUND m r v) v [0..<12]
      in S\<lparr>b_h := map (\<lambda>i. b_h S ! i XOR v ! i XOR v ! (i + 8)) [0..<8]\<rparr>)"

abbreviation "rx_blake2b_compress \<equiv> rx_blake2b_compress_integer"

section \<open>Streaming\<close>

text \<open>\<open>while (inlen > BLAKE2B_BLOCKBYTES)\<close>: blocks compressed straight from the input.\<close>

function blake2b_blocks :: "blake2b_state \<Rightarrow> bytes \<Rightarrow> blake2b_state \<times> bytes" where
  "blake2b_blocks S pin =
     (if BLAKE2B_BLOCKBYTES < length pin
      then blake2b_blocks
             (rx_blake2b_compress (blake2b_increment_counter S 128) (take BLAKE2B_BLOCKBYTES pin))
             (drop BLAKE2B_BLOCKBYTES pin)
      else (S, pin))"
  by pat_completeness auto
termination by (relation "measure (\<lambda>(S, pin). length pin)") auto

declare blake2b_blocks.simps [simp del]

definition rx_blake2b_update :: "blake2b_state \<Rightarrow> bytes option \<Rightarrow> nat \<Rightarrow> blake2b_state \<times> int" where
  "rx_blake2b_update S input inlen =
     (if inlen = 0 then (S, 0)
      else case input of None \<Rightarrow> (S, -1)
      | Some bs \<Rightarrow>
        let pin = take inlen bs in
        if b_f0 S \<noteq> 0 then (S, -1)
        else
          let (S, pin) =
            (if BLAKE2B_BLOCKBYTES < b_buflen S + inlen then
               let left = b_buflen S;
                   fill = BLAKE2B_BLOCKBYTES - left;
                   S = S\<lparr>b_buf := memcpy_at (b_buf S) left pin fill\<rparr>;
                   S = blake2b_increment_counter S 128;
                   S = rx_blake2b_compress S (b_buf S);
                   S = S\<lparr>b_buflen := 0\<rparr>
               in blake2b_blocks S (drop fill pin)
             else (S, pin))
          in (S\<lparr>b_buf := memcpy_at (b_buf S) (b_buflen S) pin (length pin),
                b_buflen := b_buflen S + length pin\<rparr>, 0))"

text \<open>The bytes written to \<open>out\<close> come back as the third component, \<open>[]\<close> on an error.\<close>

definition rx_blake2b_final :: "blake2b_state \<Rightarrow> nat \<Rightarrow> blake2b_state \<times> int \<times> bytes" where
  "rx_blake2b_final S outlen =
     (if outlen < b_outlen S then (S, -1, [])
      else if b_f0 S \<noteq> 0 then (S, -1, [])
      else
        let S = blake2b_increment_counter S (of_nat (b_buflen S));
            S = blake2b_set_lastblock S;
            S = S\<lparr>b_buf := memset_at (b_buf S) (b_buflen S) 0 (BLAKE2B_BLOCKBYTES - b_buflen S)\<rparr>;
            S = rx_blake2b_compress S (b_buf S);
            buffer = concat (map store64 (b_h S))
        in (S, 0, take (b_outlen S) buffer))"

definition rx_blake2b_init_key ::
  "blake2b_state \<Rightarrow> nat \<Rightarrow> bytes option \<Rightarrow> nat \<Rightarrow> blake2b_state \<times> int" where
  "rx_blake2b_init_key S outlen key keylen =
     (if outlen = 0 \<or> BLAKE2B_OUTBYTES < outlen then (blake2b_invalidate_state S, -1)
      else case key of None \<Rightarrow> (blake2b_invalidate_state S, -1)
      | Some k \<Rightarrow>
        if keylen = 0 \<or> BLAKE2B_KEYBYTES < keylen then (blake2b_invalidate_state S, -1)
        else
          let P = (unkeyed_param outlen)\<lparr>p_key_length := of_nat keylen\<rparr>;
              (S, ret) = rx_blake2b_init_param (Some P) S
          in if ret < 0 then (blake2b_invalidate_state S, -1)
             else
               let block = memcpy_at (replicate BLAKE2B_BLOCKBYTES 0) 0 k keylen
               in (fst (rx_blake2b_update S (Some block) BLAKE2B_BLOCKBYTES), 0))"

text \<open>
  \<open>rx_blake2b_default(out, outlen, in, inlen)\<close>.  The local state starts uninitialised; no value of
  it is read before \<open>rx_blake2b_init\<close> has overwritten it, so the model starts from \<open>init0\<close>.
\<close>

definition rx_blake2b_default :: "nat \<Rightarrow> bytes option \<Rightarrow> nat \<Rightarrow> int \<times> bytes" where
  "rx_blake2b_default outlen input inlen =
     (if input = None \<and> 0 < inlen then (-1, [])
      else if outlen = 0 \<or> BLAKE2B_OUTBYTES < outlen then (-1, [])
      else
        let (S, r1) = rx_blake2b_init blake2b_init0 outlen in
        if r1 < 0 then (-1, [])
        else let (S, r2) = rx_blake2b_update S input inlen in
        if r2 < 0 then (-1, [])
        else let (S, ret, out) = rx_blake2b_final S outlen in (ret, out))"

abbreviation "rx_blake2b \<equiv> rx_blake2b_default"

section \<open>The variable-length hash\<close>

text \<open>
  The \<open>while (toproduce > BLAKE2B_OUTBYTES)\<close> loop: the bytes appended to \<open>out\<close>, the last
  64-byte digest and what remains to produce; \<open>None\<close> is the \<open>goto fail\<close> of \<open>TRY\<close>.
\<close>

function blake2b_long_loop :: "nat \<Rightarrow> bytes \<Rightarrow> bytes \<Rightarrow> (bytes \<times> bytes \<times> nat) option" where
  "blake2b_long_loop toproduce out_buffer out =
     (if BLAKE2B_OUTBYTES < toproduce then
        let (ret, ob) = rx_blake2b BLAKE2B_OUTBYTES (Some out_buffer) BLAKE2B_OUTBYTES in
        if ret < 0 then None
        else blake2b_long_loop (toproduce - 32) ob (out @ take 32 ob)
      else Some (out, out_buffer, toproduce))"
  by pat_completeness auto
termination by (relation "measure (\<lambda>(n, b, out). n)") auto

declare blake2b_long_loop.simps [simp del]

definition rxa2_blake2b_long :: "nat \<Rightarrow> bytes option \<Rightarrow> nat \<Rightarrow> int \<times> bytes" where
  "rxa2_blake2b_long outlen input inlen =
     (if 2 ^ 32 - 1 < outlen then (-1, [])
      else
        let outlen_bytes = store32 (of_nat outlen);
            n = (if outlen \<le> BLAKE2B_OUTBYTES then outlen else BLAKE2B_OUTBYTES);
            (S, r1) = rx_blake2b_init blake2b_init0 n
        in if r1 < 0 then (r1, [])
        else let (S, r2) = rx_blake2b_update S (Some outlen_bytes) 4 in
        if r2 < 0 then (r2, [])
        else let (S, r3) = rx_blake2b_update S input inlen in
        if r3 < 0 then (r3, [])
        else let (S, r4, ob) = rx_blake2b_final S n in
        if r4 < 0 then (r4, [])
        else if outlen \<le> BLAKE2B_OUTBYTES then (r4, ob)
        else
          case blake2b_long_loop (outlen - 32) ob (take 32 ob) of None \<Rightarrow> (-1, [])
          | Some (out, ib, toproduce) \<Rightarrow>
            (let (r5, fin) = rx_blake2b toproduce (Some ib) BLAKE2B_OUTBYTES
             in if r5 < 0 then (r5, out) else (r5, out @ take toproduce fin)))"

section \<open>Invariant and frame\<close>

definition blake2b_inv :: "blake2b_state \<Rightarrow> bool" where
  "blake2b_inv S \<longleftrightarrow> length (b_h S) = 8 \<and> length (b_buf S) = BLAKE2B_BLOCKBYTES
     \<and> b_buflen S \<le> BLAKE2B_BLOCKBYTES \<and> b_outlen S \<le> BLAKE2B_OUTBYTES"

lemma incr_frame [simp]:
  "b_h (blake2b_increment_counter S n) = b_h S" "b_f0 (blake2b_increment_counter S n) = b_f0 S"
  "b_buf (blake2b_increment_counter S n) = b_buf S" "b_buflen (blake2b_increment_counter S n) = b_buflen S"
  "b_outlen (blake2b_increment_counter S n) = b_outlen S"
  by (simp_all add: blake2b_increment_counter_def Let_def)

lemma compress_frame [simp]:
  "b_t0 (rx_blake2b_compress S b) = b_t0 S" "b_t1 (rx_blake2b_compress S b) = b_t1 S"
  "b_f0 (rx_blake2b_compress S b) = b_f0 S" "b_f1 (rx_blake2b_compress S b) = b_f1 S"
  "b_buf (rx_blake2b_compress S b) = b_buf S" "b_buflen (rx_blake2b_compress S b) = b_buflen S"
  "b_outlen (rx_blake2b_compress S b) = b_outlen S" "length (b_h (rx_blake2b_compress S b)) = 8"
  by (simp_all add: rx_blake2b_compress_integer_def Let_def)

lemma compress_buf [simp]:
  "rx_blake2b_compress (S\<lparr>b_buf := x\<rparr>) b = (rx_blake2b_compress S b)\<lparr>b_buf := x\<rparr>"
  "rx_blake2b_compress (S\<lparr>b_buflen := y\<rparr>) b = (rx_blake2b_compress S b)\<lparr>b_buflen := y\<rparr>"
  by (simp_all add: rx_blake2b_compress_integer_def Let_def)

lemma incr_buf [simp]:
  "blake2b_increment_counter (S\<lparr>b_buf := x\<rparr>) n = (blake2b_increment_counter S n)\<lparr>b_buf := x\<rparr>"
  "blake2b_increment_counter (S\<lparr>b_buflen := y\<rparr>) n = (blake2b_increment_counter S n)\<lparr>b_buflen := y\<rparr>"
  by (simp_all add: blake2b_increment_counter_def Let_def)

lemma blake2b_blocks_short: "length pin \<le> BLAKE2B_BLOCKBYTES \<Longrightarrow> blake2b_blocks S pin = (S, pin)"
  by (subst blake2b_blocks.simps) simp

lemma blake2b_blocks_long:
  "BLAKE2B_BLOCKBYTES < length pin \<Longrightarrow> blake2b_blocks S pin =
     blake2b_blocks (rx_blake2b_compress (blake2b_increment_counter S 128) (take 128 pin)) (drop 128 pin)"
  by (subst blake2b_blocks.simps) simp

lemma blake2b_blocks_frame:
  "blake2b_blocks S pin = (S', r) \<Longrightarrow>
     b_f0 S' = b_f0 S \<and> b_buf S' = b_buf S \<and> b_buflen S' = b_buflen S \<and> b_outlen S' = b_outlen S
     \<and> (length (b_h S) = 8 \<longrightarrow> length (b_h S') = 8) \<and> length r \<le> BLAKE2B_BLOCKBYTES"
proof (induction S pin rule: blake2b_blocks.induct)
  case (1 S pin)
  show ?case
  proof (cases "128 < length pin")
    case True
    with 1 show ?thesis by (auto simp: blake2b_blocks_long)
  next
    case False
    with 1(2) show ?thesis by (auto simp: blake2b_blocks_short)
  qed
qed

lemma blake2b_blocks_buf:
  "blake2b_blocks (S\<lparr>b_buf := x, b_buflen := y\<rparr>) pin =
     (case blake2b_blocks S pin of (S', r) \<Rightarrow> (S'\<lparr>b_buf := x, b_buflen := y\<rparr>, r))"
proof (induction S pin rule: blake2b_blocks.induct)
  case (1 S pin)
  show ?case
  proof (cases "128 < length pin")
    case True
    with 1 show ?thesis by (simp add: blake2b_blocks_long)
  next
    case False
    then show ?thesis by (simp add: blake2b_blocks_short)
  qed
qed

text \<open>Absorbing \<open>xs\<close> and then \<open>ys\<close> after what \<open>xs\<close> left over is absorbing \<open>xs @ ys\<close>.\<close>

lemma blake2b_blocks_append:
  "blake2b_blocks S (xs @ ys) = (case blake2b_blocks S xs of (S', r) \<Rightarrow> blake2b_blocks S' (r @ ys))"
proof (induction S xs rule: blake2b_blocks.induct)
  case (1 S xs)
  show ?case
  proof (cases "128 < length xs")
    case True
    with 1 show ?thesis by (simp add: blake2b_blocks_long)
  next
    case False
    then show ?thesis by (simp add: blake2b_blocks_short)
  qed
qed

section \<open>The streaming state as chaining value and pending bytes\<close>

definition b2_core :: "blake2b_state \<Rightarrow> blake2b_state" where
  "b2_core S = S\<lparr>b_buf := [], b_buflen := 0\<rparr>"

definition b2_tail :: "blake2b_state \<Rightarrow> bytes" where
  "b2_tail S = take (b_buflen S) (b_buf S)"

lemma length_b2_tail: "blake2b_inv S \<Longrightarrow> length (b2_tail S) = b_buflen S"
  by (simp add: b2_tail_def blake2b_inv_def)

lemma rx_blake2b_update_abs:
  assumes "blake2b_inv S" and "b_f0 S = 0" and "inlen \<le> length bs"
  obtains S' where "rx_blake2b_update S (Some bs) inlen = (S', 0)" and "blake2b_inv S'"
    and "b_f0 S' = 0" and "b_outlen S' = b_outlen S"
    and "blake2b_blocks (b2_core S) (b2_tail S @ take inlen bs) = (b2_core S', b2_tail S')"
proof -
  define S' where "S' = fst (rx_blake2b_update S (Some bs) inlen)"
  define pin where "pin = take inlen bs"
  have lpin: "length pin = inlen" using assms(3) by (simp add: pin_def)
  have "snd (rx_blake2b_update S (Some bs) inlen) = 0 \<and> blake2b_inv S' \<and> b_f0 S' = 0
    \<and> b_outlen S' = b_outlen S \<and> blake2b_blocks (b2_core S) (b2_tail S @ pin) = (b2_core S', b2_tail S')"
  proof (cases "inlen = 0")
    case True
    then show ?thesis
      using assms length_b2_tail [OF assms(1)]
      by (simp add: S'_def pin_def rx_blake2b_update_def blake2b_blocks_short blake2b_inv_def)
  next
    case nz: False
    show ?thesis
    proof (cases "128 < b_buflen S + inlen")
      case False
      then show ?thesis
        using assms nz lpin
        by (auto simp: S'_def rx_blake2b_update_def Let_def pin_def [symmetric] blake2b_inv_def
            b2_core_def b2_tail_def take_memcpy_at blake2b_blocks_short)
    next
      case True
      define fill where "fill = 128 - b_buflen S"
      define blk where "blk = b2_tail S @ take fill pin"
      define T where "T = rx_blake2b_compress (blake2b_increment_counter S 128) blk"
      have fill: "fill \<le> length pin" using True lpin by (simp add: fill_def)
      have buf: "memcpy_at (b_buf S) (b_buflen S) pin fill = blk"
        using assms(1) by (simp add: memcpy_at_def blk_def b2_tail_def fill_def blake2b_inv_def)
      have lblk: "length blk = 128"
        using assms(1) fill by (simp add: blk_def length_b2_tail fill_def blake2b_inv_def)
      obtain S1 r where S1: "blake2b_blocks T (drop fill pin) = (S1, r)" by force
      note fr = blake2b_blocks_frame [OF S1]
      have S': "S' = S1\<lparr>b_buf := memcpy_at blk 0 r (length r), b_buflen := length r\<rparr>"
        and r0: "snd (rx_blake2b_update S (Some bs) inlen) = 0"
        using assms nz True buf S1 [folded T_def]
          blake2b_blocks_buf [where S = T and x = blk and y = 0 and pin = "drop fill pin"]
        by (simp_all add: S'_def rx_blake2b_update_def Let_def pin_def [symmetric] T_def
            fill_def [symmetric] S1 [unfolded T_def])
      have "blake2b_blocks (b2_core S) (b2_tail S @ pin) =
          blake2b_blocks (rx_blake2b_compress (blake2b_increment_counter (b2_core S) 128) blk) (drop fill pin)"
        using True lpin assms(1) length_b2_tail [OF assms(1)]
        by (subst blake2b_blocks_long) (simp_all add: blk_def fill_def blake2b_inv_def)
      also have "\<dots> = (S1\<lparr>b_buf := [], b_buflen := 0\<rparr>, r)"
        using S1 blake2b_blocks_buf [where S = T and x = "[]" and y = 0 and pin = "drop fill pin"] by (simp add: b2_core_def T_def)
      finally have "blake2b_blocks (b2_core S) (b2_tail S @ pin) = (b2_core S', b2_tail S')"
        using lblk fr by (simp add: S' b2_core_def b2_tail_def memcpy_at_def)
      moreover have "blake2b_inv S' \<and> b_f0 S' = 0 \<and> b_outlen S' = b_outlen S"
        using fr assms lblk by (simp add: S' T_def blake2b_inv_def)
      ultimately show ?thesis using r0 by simp
    qed
  qed
  then show thesis
    using that [of S'] by (simp add: S'_def pin_def prod_eq_iff)
qed

text \<open>The digest depends on the chaining value and the pending bytes only.\<close>

lemma set_lastblock_buf [simp]:
  "blake2b_set_lastblock (S\<lparr>b_buf := x\<rparr>) = (blake2b_set_lastblock S)\<lparr>b_buf := x\<rparr>"
  "blake2b_set_lastblock (S\<lparr>b_buflen := y\<rparr>) = (blake2b_set_lastblock S)\<lparr>b_buflen := y\<rparr>"
  "b_buf (blake2b_set_lastblock S) = b_buf S" "b_buflen (blake2b_set_lastblock S) = b_buflen S"
  "b_outlen (blake2b_set_lastblock S) = b_outlen S" "b_h (blake2b_set_lastblock S) = b_h S"
  "b_f0 (blake2b_set_lastblock S) = -1"
  by (simp_all add: blake2b_set_lastblock_def blake2b_set_lastnode_def Let_def)

definition b2_digest :: "blake2b_state \<Rightarrow> bytes \<Rightarrow> bytes" where
  "b2_digest C pend =
     take (b_outlen C) (concat (map store64 (b_h (rx_blake2b_compress
       (blake2b_set_lastblock (blake2b_increment_counter C (of_nat (length pend))))
       (pend @ replicate (BLAKE2B_BLOCKBYTES - length pend) 0)))))"

lemma b2_core_simps [simp]:
  "b_f0 (b2_core S) = b_f0 S" "b_outlen (b2_core S) = b_outlen S" "b_h (b2_core S) = b_h S"
  "b_t0 (b2_core S) = b_t0 S" "b_t1 (b2_core S) = b_t1 S"
  by (simp_all add: b2_core_def)

lemma rx_blake2b_final_abs:
  assumes "blake2b_inv S" and "b_f0 S = 0" and "b_outlen S \<le> outlen"
  shows "\<exists>S'. rx_blake2b_final S outlen = (S', 0, b2_digest (b2_core S) (b2_tail S)) \<and> b_f0 S' = -1"
proof -
  have pad: "memset_at (b_buf S) (b_buflen S) 0 (128 - b_buflen S) =
      b2_tail S @ replicate (128 - b_buflen S) 0"
    using assms(1) by (simp add: memset_at_def b2_tail_def blake2b_inv_def)
  show ?thesis
    using assms by (simp add: rx_blake2b_final_def Let_def pad b2_digest_def b2_core_def length_b2_tail)
qed

lemma length_store64_concat: "length (concat (map store64 ws)) = 8 * length ws"
  by (induction ws) simp_all

lemma length_b2_digest: "b_outlen C \<le> 64 \<Longrightarrow> length (b2_digest C pend) = b_outlen C"
  by (simp add: b2_digest_def length_store64_concat)

lemma rx_blake2b_init_ok:
  assumes "0 < n" and "n \<le> 64"
  obtains S where "rx_blake2b_init X n = (S, 0)" and "blake2b_inv S" and "b_f0 S = 0"
    and "b_outlen S = n" and "b2_tail S = []"
  using assms that
  by (auto simp: rx_blake2b_init_def rx_blake2b_init_param_def Let_def unkeyed_param_def
      blake2b_init0_def blake2b_inv_def b2_tail_def unat_of_nat_small)

text \<open>Feeding a list of buffers, one \<open>rx_blake2b_update\<close> each.\<close>

fun blake2b_update_all :: "blake2b_state \<Rightarrow> bytes list \<Rightarrow> blake2b_state \<times> int list" where
  "blake2b_update_all S [] = (S, [])"
| "blake2b_update_all S (c # cs) =
     (let (S, r) = rx_blake2b_update S (Some c) (length c); (S, rs) = blake2b_update_all S cs
      in (S, r # rs))"

lemma blake2b_update_all_abs:
  assumes "blake2b_inv S" and "b_f0 S = 0"
  shows "\<exists>S'. blake2b_update_all S cs = (S', replicate (length cs) 0) \<and> blake2b_inv S' \<and> b_f0 S' = 0
     \<and> b_outlen S' = b_outlen S
     \<and> blake2b_blocks (b2_core S) (b2_tail S @ concat cs) = (b2_core S', b2_tail S')"
  using assms
proof (induction cs arbitrary: S)
  case Nil
  then show ?case
    using length_b2_tail [OF Nil(1)] by (simp add: blake2b_blocks_short blake2b_inv_def)
next
  case (Cons c cs)
  obtain S1 where S1: "rx_blake2b_update S (Some c) (length c) = (S1, 0)" "blake2b_inv S1"
    "b_f0 S1 = 0" "b_outlen S1 = b_outlen S"
    "blake2b_blocks (b2_core S) (b2_tail S @ c) = (b2_core S1, b2_tail S1)"
    using rx_blake2b_update_abs [OF Cons.prems, of "length c" c] by auto
  obtain S2 where S2: "blake2b_update_all S1 cs = (S2, replicate (length cs) 0)" "blake2b_inv S2"
    "b_f0 S2 = 0" "b_outlen S2 = b_outlen S1"
    "blake2b_blocks (b2_core S1) (b2_tail S1 @ concat cs) = (b2_core S2, b2_tail S2)"
    using Cons.IH [OF S1(2,3)] by auto
  have "blake2b_blocks (b2_core S) (b2_tail S @ concat (c # cs)) = (b2_core S2, b2_tail S2)"
    using S1(5) S2(5) blake2b_blocks_append [of "b2_core S" "b2_tail S @ c" "concat cs"] by simp
  then show ?case using S1 S2 by (intro exI [of _ S2]) simp
qed

lemma rx_blake2b_default_digest:
  assumes "0 < n" and "n \<le> 64"
  obtains S where "rx_blake2b_init blake2b_init0 n = (S, 0)" and "blake2b_inv S" and "b_f0 S = 0"
    and "b_outlen S = n" and "b2_tail S = []"
    and "\<And>bs. rx_blake2b_default n (Some bs) (length bs) =
           (0, case blake2b_blocks (b2_core S) bs of (C, r) \<Rightarrow> b2_digest C r)"
proof -
  obtain S where S: "rx_blake2b_init blake2b_init0 n = (S, 0)" "blake2b_inv S" "b_f0 S = 0"
    "b_outlen S = n" "b2_tail S = []"
    using rx_blake2b_init_ok [OF assms] by blast
  have "rx_blake2b_default n (Some bs) (length bs) =
           (0, case blake2b_blocks (b2_core S) bs of (C, r) \<Rightarrow> b2_digest C r)" for bs
  proof -
    obtain S1 where S1: "rx_blake2b_update S (Some bs) (length bs) = (S1, 0)" "blake2b_inv S1"
      "b_f0 S1 = 0" "b_outlen S1 = b_outlen S"
      "blake2b_blocks (b2_core S) bs = (b2_core S1, b2_tail S1)"
      using rx_blake2b_update_abs [OF S(2,3), of "length bs" bs] S(5) by auto
    then show ?thesis
      using assms S rx_blake2b_final_abs [OF S1(2,3), of n]
      by (auto simp: rx_blake2b_default_def)
  qed
  then show thesis using that S by blast
qed

text \<open>C26: streaming is chunk-independent: however a message is cut into buffers (empty ones
  included), initialising for any digest length from 1 to 64, updating once per buffer and
  finalising succeeds at every call and yields the digest the one-shot \<open>rx_blake2b_default\<close> gives
  of the concatenation, a digest of exactly that length.\<close>

theorem rx_blake2b_streaming:
  assumes "0 < n" and "n \<le> BLAKE2B_OUTBYTES"
  shows "\<exists>out S. rx_blake2b_default n (Some (concat cs)) (length (concat cs)) = (0, out)
     \<and> length out = n
     \<and> blake2b_update_all (fst (rx_blake2b_init X n)) cs = (S, replicate (length cs) 0)
     \<and> snd (rx_blake2b_final S n) = (0, out)"
proof -
  obtain S where S: "rx_blake2b_init blake2b_init0 n = (S, 0)" "blake2b_inv S" "b_f0 S = 0"
    "b_outlen S = n" "b2_tail S = []"
    "\<And>bs. rx_blake2b_default n (Some bs) (length bs) =
           (0, case blake2b_blocks (b2_core S) bs of (C, r) \<Rightarrow> b2_digest C r)"
    using rx_blake2b_default_digest [OF assms] by blast
  have X: "rx_blake2b_init X n = rx_blake2b_init blake2b_init0 n"
    using assms by (simp add: rx_blake2b_init_def rx_blake2b_init_param_def)
  obtain S1 where S1: "blake2b_update_all S cs = (S1, replicate (length cs) 0)" "blake2b_inv S1"
    "b_f0 S1 = 0" "b_outlen S1 = n" "blake2b_blocks (b2_core S) (concat cs) = (b2_core S1, b2_tail S1)"
    using blake2b_update_all_abs [OF S(2,3), of cs] S(4,5) by auto
  have "snd (rx_blake2b_final S1 n) = (0, b2_digest (b2_core S1) (b2_tail S1))"
    using rx_blake2b_final_abs [OF S1(2,3), of n] S1(4) by auto
  moreover have "rx_blake2b_default n (Some (concat cs)) (length (concat cs)) =
      (0, b2_digest (b2_core S1) (b2_tail S1))"
    using S(6) [of "concat cs"] S1(5) by simp
  moreover have "length (b2_digest (b2_core S1) (b2_tail S1)) = n"
    using assms S1(4) by (simp add: length_b2_digest)
  ultimately show ?thesis using S1(1) S(1) X by simp
qed

theorem rx_blake2b_streaming_witness:
  "\<exists>out S. rx_blake2b_default 32 (Some (concat [[1], [], replicate 300 2])) (length (concat [[1], [], replicate 300 (2 :: u8)])) = (0, out)
     \<and> length out = 32
     \<and> blake2b_update_all (fst (rx_blake2b_init blake2b_init0 32)) [[1], [], replicate 300 2] = (S, replicate (length [[1], [], replicate 300 (2 :: u8)]) 0)
     \<and> snd (rx_blake2b_final S 32) = (0, out)"
  by (rule rx_blake2b_streaming) simp_all

text \<open>A finalised state is dead: after a successful \<open>rx_blake2b_final\<close> every further non-empty
  update and every further finalisation is refused with -1 and changes nothing.\<close>

theorem rx_blake2b_reuse_refused:
  assumes "rx_blake2b_final S outlen = (S', 0, out)"
  shows "(0 < inlen \<longrightarrow> rx_blake2b_update S' input inlen = (S', -1)) \<and>
         rx_blake2b_final S' m = (S', -1, [])"
proof -
  have "b_f0 S' = -1"
    using assms by (auto simp: rx_blake2b_final_def Let_def split: if_splits)
  then show ?thesis
    by (auto simp: rx_blake2b_update_def rx_blake2b_final_def split: option.splits)
qed

theorem rx_blake2b_reuse_refused_witness:
  "\<exists>S' out. rx_blake2b_final (fst (rx_blake2b_init blake2b_init0 32)) 32 = (S', 0, out) \<and>
     (0 < (1 :: nat) \<longrightarrow> rx_blake2b_update S' (Some [7]) 1 = (S', -1)) \<and>
     rx_blake2b_final S' 32 = (S', -1, [])"
proof -
  obtain S where S: "rx_blake2b_init blake2b_init0 32 = (S, 0)" "blake2b_inv S" "b_f0 S = 0"
    "b_outlen S = 32" using rx_blake2b_init_ok [of 32 blake2b_init0] by auto
  then obtain S' where "rx_blake2b_final S 32 = (S', 0, b2_digest (b2_core S) (b2_tail S))"
    using rx_blake2b_final_abs [of S 32] by auto
  with S rx_blake2b_reuse_refused [OF this, of 1 "Some [7]" 32] show ?thesis by auto
qed

section \<open>The variable-length hash\<close>

definition blake2b_hash :: "nat \<Rightarrow> bytes \<Rightarrow> bytes" where
  "blake2b_hash n bs = snd (rx_blake2b_default n (Some bs) (length bs))"

lemma rx_blake2b_default_ok:
  assumes "0 < n" and "n \<le> 64"
  shows "rx_blake2b_default n (Some bs) (length bs) = (0, blake2b_hash n bs)"
    and "length (blake2b_hash n bs) = n"
proof -
  obtain S where S: "b_outlen S = n"
    "rx_blake2b_default n (Some bs) (length bs) =
       (0, case blake2b_blocks (b2_core S) bs of (C, r) \<Rightarrow> b2_digest C r)"
    using rx_blake2b_default_digest [OF assms] by metis
  obtain C r where C: "blake2b_blocks (b2_core S) bs = (C, r)" by force
  show "rx_blake2b_default n (Some bs) (length bs) = (0, blake2b_hash n bs)"
    using S(2) by (simp add: blake2b_hash_def)
  show "length (blake2b_hash n bs) = n"
    using S C blake2b_blocks_frame [OF C] assms by (simp add: blake2b_hash_def length_b2_digest)
qed

lemma blake2b_update_two:
  assumes "0 < n" and "n \<le> 64"
  obtains S0 S1 S2 S3 where "rx_blake2b_init blake2b_init0 n = (S0, 0)"
    and "rx_blake2b_update S0 (Some a) (length a) = (S1, 0)"
    and "rx_blake2b_update S1 (Some b) (length b) = (S2, 0)"
    and "rx_blake2b_final S2 n = (S3, 0, blake2b_hash n (a @ b))"
proof -
  obtain S where S: "rx_blake2b_init blake2b_init0 n = (S, 0)" "blake2b_inv S" "b_f0 S = 0"
    "b_outlen S = n" "b2_tail S = []"
    "\<And>bs. rx_blake2b_default n (Some bs) (length bs) =
           (0, case blake2b_blocks (b2_core S) bs of (C, r) \<Rightarrow> b2_digest C r)"
    using rx_blake2b_default_digest [OF assms] by blast
  obtain S1 where S1: "rx_blake2b_update S (Some a) (length a) = (S1, 0)" "blake2b_inv S1"
      "b_f0 S1 = 0" "b_outlen S1 = n" "blake2b_blocks (b2_core S) a = (b2_core S1, b2_tail S1)"
    using rx_blake2b_update_abs [OF S(2,3), of "length a" a] S(4,5) by auto
  obtain S2 where S2: "rx_blake2b_update S1 (Some b) (length b) = (S2, 0)" "blake2b_inv S2"
      "b_f0 S2 = 0" "b_outlen S2 = n"
      "blake2b_blocks (b2_core S1) (b2_tail S1 @ b) = (b2_core S2, b2_tail S2)"
    using rx_blake2b_update_abs [OF S1(2,3), of "length b" b] S1(4) by auto
  have "blake2b_hash n (a @ b) = b2_digest (b2_core S2) (b2_tail S2)"
    using S(6) [of "a @ b"] S1(5) S2(5) blake2b_blocks_append [of "b2_core S" a b]
    by (simp add: blake2b_hash_def)
  then show thesis
    using that S(1) S1(1) S2(1) rx_blake2b_final_abs [OF S2(2,3), of n] S2(4) by auto
qed

lemma blake2b_long_count:
  fixes n :: nat
  assumes "64 < n"
  shows "(n + 31) div 32 - 2 = Suc ((n - 32 + 31) div 32 - 2)"
proof -
  have "n + 31 = (n - 32 + 31) + 32" and "2 \<le> (n - 32 + 31) div 32"
    using assms by (simp_all add: less_eq_div_iff_mult_less_eq)
  moreover from this(1) have "(n + 31) div 32 = Suc ((n - 32 + 31) div 32)"
    by simp
  ultimately show ?thesis by linarith
qed

lemma concat_chain_Cons:
  "take m b @ concat (map (\<lambda>i. take m ((f ^^ Suc i) b)) [0..<k]) =
   concat (map (\<lambda>i. take m ((f ^^ i) b)) [0..<Suc k])"
  by (induction k) (simp_all del: funpow.simps(2))

lemma blake2b_long_loop_eq:
  assumes "32 < n" and "length b = 64"
  defines "k \<equiv> (n + 31) div 32 - 2"
  shows "blake2b_long_loop n b out =
    Some (out @ concat (map (\<lambda>i. take 32 ((blake2b_hash 64 ^^ Suc i) b)) [0..<k]),
          (blake2b_hash 64 ^^ k) b, n - 32 * k)"
  using assms(1,2) unfolding k_def
proof (induction n b out rule: blake2b_long_loop.induct)
  case (1 n b out)
  let ?b = "blake2b_hash 64 b"
  show ?case
  proof (cases "64 < n")
    case False
    then have "(n + 31) div 32 \<le> 2" by simp
    then show ?thesis using False by (subst blake2b_long_loop.simps) simp
  next
    case True
    define k where "k = (n - 32 + 31) div 32 - 2"
    have k: "(n + 31) div 32 - 2 = Suc k" using True by (simp add: k_def blake2b_long_count)
    have hash: "rx_blake2b 64 (Some b) 64 = (0, ?b)" and len: "length ?b = 64"
      using rx_blake2b_default_ok [of 64 b] 1(3) by simp_all
    have "blake2b_long_loop n b out = blake2b_long_loop (n - 32) ?b (out @ take 32 ?b)"
      using True hash by (subst blake2b_long_loop.simps) simp
    also have "\<dots> = Some ((out @ take 32 ?b) @ concat (map (\<lambda>i. take 32 ((blake2b_hash 64 ^^ Suc i) ?b)) [0..<k]),
          (blake2b_hash 64 ^^ k) ?b, n - 32 - 32 * k)"
      unfolding k_def using 1(1) True hash len by auto
    finally have "blake2b_long_loop n b out =
        Some (out @ take 32 ?b @ concat (map (\<lambda>i. take 32 (((blake2b_hash 64) ^^ Suc i) ?b)) [0..<k]),
          (blake2b_hash 64 ^^ Suc k) b, n - 32 * Suc k)"
      by (simp add: funpow_swap1)
    also have "take 32 ?b @ concat (map (\<lambda>i. take 32 ((blake2b_hash 64 ^^ Suc i) ?b)) [0..<k]) =
        concat (map (\<lambda>i. take 32 ((blake2b_hash 64 ^^ Suc i) b)) [0..<Suc k])"
      unfolding concat_chain_Cons by (simp only: funpow_swap1 funpow.simps comp_apply)
    finally show ?thesis unfolding k .
  qed
qed

lemma rxa2_blake2b_long_short:
  assumes "0 < T" and "T \<le> 64"
  shows "rxa2_blake2b_long T (Some bs) (length bs) = (0, blake2b_hash T (store32 (of_nat T) @ bs))"
proof -
  obtain S0 S1 S2 S3 where S: "rx_blake2b_init blake2b_init0 T = (S0, 0)"
    "rx_blake2b_update S0 (Some (store32 (of_nat T))) 4 = (S1, 0)"
    "rx_blake2b_update S1 (Some bs) (length bs) = (S2, 0)"
    "rx_blake2b_final S2 T = (S3, 0, blake2b_hash T (store32 (of_nat T) @ bs))"
    using blake2b_update_two [OF assms, of "store32 (of_nat T)" bs] unfolding length_store32 by metis
  then show ?thesis using assms by (simp add: rxa2_blake2b_long_def)
qed

lemma rxa2_blake2b_long_unfold:
  assumes "64 < T" and "T < 2 ^ 32"
    and "blake2b_long_loop (T - 32) v1 (take 32 v1) = Some (out, ob, m)"
    and "v1 = blake2b_hash 64 (store32 (of_nat T) @ bs)" and "length ob = 64" and "0 < m" and "m \<le> 64"
  shows "snd (rxa2_blake2b_long T (Some bs) (length bs)) = out @ blake2b_hash m ob"
proof -
  obtain S0 S1 S2 S3 where S: "rx_blake2b_init blake2b_init0 64 = (S0, 0)"
    "rx_blake2b_update S0 (Some (store32 (of_nat T))) 4 = (S1, 0)"
    "rx_blake2b_update S1 (Some bs) (length bs) = (S2, 0)"
    "rx_blake2b_final S2 64 = (S3, 0, v1)"
    using blake2b_update_two [of 64 "store32 (of_nat T)" bs] unfolding assms(4) length_store32
    by (metis numeral_le_iff order_refl zero_less_numeral)
  show ?thesis
    using assms(1,2,3,5) S rx_blake2b_default_ok [OF assms(6,7), of ob]
    by (simp add: rxa2_blake2b_long_def)
qed

lemma rxa2_blake2b_long_chain:
  fixes bs :: bytes
  assumes "64 < T" and "T < 2 ^ 32"
  defines "pre \<equiv> store32 (of_nat T) @ bs"
  defines "r \<equiv> (T + 31) div 32 - 2"
  shows "rxa2_blake2b_long T (Some bs) (length bs) =
    (0, concat (map (\<lambda>i. take 32 ((blake2b_hash 64 ^^ i) (blake2b_hash 64 pre))) [0..<r])
        @ blake2b_hash (T - 32 * r) ((blake2b_hash 64 ^^ (r - 1)) (blake2b_hash 64 pre)))
    \<and> length (snd (rxa2_blake2b_long T (Some bs) (length bs))) = T"
proof -
  have False: "\<not> T \<le> 64" using assms(1) by simp
  obtain S0 S1 S2 S3 where S: "rx_blake2b_init blake2b_init0 64 = (S0, 0)"
    "rx_blake2b_update S0 (Some (store32 (of_nat T))) 4 = (S1, 0)"
    "rx_blake2b_update S1 (Some bs) (length bs) = (S2, 0)"
    "rx_blake2b_final S2 64 = (S3, 0, blake2b_hash 64 pre)"
    using blake2b_update_two [of 64 "store32 (of_nat T)" bs] unfolding pre_def length_store32
    by (metis numeral_le_iff order_refl zero_less_numeral)
  define v1 where "v1 = blake2b_hash 64 pre"
  define k where "k = (T - 32 + 31) div 32 - 2"
  define m where "m = T - 32 - 32 * k"
  have r: "r = Suc k" using False by (simp add: k_def r_def blake2b_long_count)
  have m: "0 < m" "m \<le> 64" "m = T - 32 * Suc k" using False by (auto simp: m_def k_def)
  have tot: "32 * Suc k + m = T" using False by (auto simp: m_def k_def)
  have len: "length ((blake2b_hash 64 ^^ i) v1) = 64" for i
    by (cases i) (simp_all add: v1_def rx_blake2b_default_ok(2))
  have loop: "blake2b_long_loop (T - 32) v1 (take 32 v1) =
      Some (take 32 v1 @ concat (map (\<lambda>i. take 32 ((blake2b_hash 64 ^^ Suc i) v1)) [0..<k]),
        (blake2b_hash 64 ^^ k) v1, m)"
    using blake2b_long_loop_eq [of "T - 32" v1 "take 32 v1"] False len [of 0]
    by (simp add: k_def m_def)
  have halves: "take 32 v1 @ concat (map (\<lambda>i. take 32 ((blake2b_hash 64 ^^ Suc i) v1)) [0..<k]) =
      concat (map (\<lambda>i. take 32 ((blake2b_hash 64 ^^ i) v1)) [0..<Suc k])"
    by (rule concat_chain_Cons)
  have fin: "rx_blake2b m (Some ((blake2b_hash 64 ^^ k) v1)) 64 =
      (0, blake2b_hash m ((blake2b_hash 64 ^^ k) v1))"
    and finlen: "length (blake2b_hash m ((blake2b_hash 64 ^^ k) v1)) = m"
    using rx_blake2b_default_ok [OF m(1,2), of "(blake2b_hash 64 ^^ k) v1"] len [of k] by simp_all
  have res: "rxa2_blake2b_long T (Some bs) (length bs) =
      (0, concat (map (\<lambda>i. take 32 ((blake2b_hash 64 ^^ i) v1)) [0..<Suc k])
          @ blake2b_hash m ((blake2b_hash 64 ^^ k) v1))"
    using False assms(1,2) S loop [unfolded halves] fin finlen
    by (simp add: rxa2_blake2b_long_def v1_def [symmetric] del: upt_Suc)
  have "length (concat (map (\<lambda>i. take 32 ((blake2b_hash 64 ^^ i) v1)) [0..<j])) = 32 * j" for j
    by (induction j) (simp_all add: len)
  then have "length (snd (rxa2_blake2b_long T (Some bs) (length bs))) = T"
    using tot finlen by (simp add: res del: upt_Suc)
  with res r m(3) show ?thesis by (simp add: v1_def del: upt_Suc)
qed

lemma rxa2_blake2b_long_ok:
  assumes "0 < T" and "T < 2 ^ 32"
  shows "fst (rxa2_blake2b_long T (Some bs) (length bs)) = 0"
    and "length (snd (rxa2_blake2b_long T (Some bs) (length bs))) = T"
  using assms rxa2_blake2b_long_short [of T bs] rxa2_blake2b_long_chain [of T bs]
  by (cases "T \<le> 64"; simp add: rx_blake2b_default_ok(2))+

text \<open>for every output length T from 1 to \<open>2^32 - 1\<close> the variable-length hash succeeds and
  returns exactly T bytes: the plain digest of the length-prefixed input for \<open>T \<le> 64\<close>, and
  otherwise the first halves of the chain V1, V2, ... of 64-byte digests followed by one
  last digest of the remaining \<open>T - 32 r\<close> bytes, \<open>r = ceil(T / 32) - 2\<close>, as Argon2 specifies
  it.\<close>

theorem rxa2_blake2b_long_spec:
  assumes "0 < T" and "T < 2 ^ 32"
  shows "rxa2_blake2b_long T (Some bs) (length bs) =
    (0, let pre = store32 (of_nat T) @ bs; v1 = blake2b_hash 64 pre; r = (T + 31) div 32 - 2 in
        if T \<le> 64 then blake2b_hash T pre
        else concat (map (\<lambda>i. take 32 ((blake2b_hash 64 ^^ i) v1)) [0..<r])
             @ blake2b_hash (T - 32 * r) ((blake2b_hash 64 ^^ (r - 1)) v1))
    \<and> length (snd (rxa2_blake2b_long T (Some bs) (length bs))) = T"
proof (cases "T \<le> 64")
  case True
  then show ?thesis
    using assms rxa2_blake2b_long_short [of T bs] by (simp add: Let_def rx_blake2b_default_ok(2))
next
  case False
  then have "64 < T" by simp
  from rxa2_blake2b_long_chain [OF this assms(2), of bs] show ?thesis
    unfolding Let_def if_not_P [OF False] .
qed

theorem rxa2_blake2b_long_spec_witness:
  "length (snd (rxa2_blake2b_long 1024 (Some [1, 2, 3]) (length [1 :: u8, 2, 3]))) = 1024"
  by (rule conjunct2 [OF rxa2_blake2b_long_spec [of 1024 "[1, 2, 3]"]]) simp_all

end
