(* ===== verification/Rx_Config.thy ===== *)
theory Rx_Config
  imports Soft_Aes
begin

text \<open>
  \<open>crypto/randomx/randomx.h\<close> and the first part of \<open>randomx.cpp\<close>: the configuration of a RandomX
  variant, its nine instances, and the masks \<open>RandomX_ConfigurationBase::Apply\<close> derives.  The
  thirty fields \<open>RANDOMX_FREQ_x\<close> are one function of the instruction type \<open>x\<close>.
\<close>

datatype InstructionType =
    IADD_RS | IADD_M | ISUB_R | ISUB_M | IMUL_R | IMUL_M | IMULH_R | IMULH_M | ISMULH_R | ISMULH_M
  | IMUL_RCP | INEG_R | IXOR_R | IXOR_M | IROR_R | IROL_R | ISWAP_R | FSWAP_R | FADD_R | FADD_M
  | FSUB_R | FSUB_M | FSCAL_R | FMUL_R | FDIV_M | FSQRT_R | CBRANCH | CFROUND | ISTORE | NOP

text \<open>The order in which \<open>compileInstruction\<close> and \<open>Apply\<close> walk the frequencies.\<close>

definition instr_order :: "InstructionType list" where
  "instr_order =
     [IADD_RS, IADD_M, ISUB_R, ISUB_M, IMUL_R, IMUL_M, IMULH_R, IMULH_M, ISMULH_R, ISMULH_M,
      IMUL_RCP, INEG_R, IXOR_R, IXOR_M, IROR_R, IROL_R, ISWAP_R, FSWAP_R, FADD_R, FADD_M,
      FSUB_R, FSUB_M, FSCAL_R, FMUL_R, FDIV_M, FSQRT_R, CBRANCH, CFROUND, ISTORE, NOP]"

record rx_config =
  ArgonMemory :: u32
  CacheAccesses :: u32
  DatasetBaseSize :: u32
  ArgonIterations :: u32
  ArgonLanes :: u32
  ArgonSalt :: string
  SuperscalarLatency :: u32
  ScratchpadL1_Size :: u32
  ScratchpadL2_Size :: u32
  ScratchpadL3_Size :: u32
  ProgramSize :: nat
  ProgramIterations :: nat
  ProgramCount :: nat
  RANDOMX_FREQ :: "InstructionType \<Rightarrow> nat"
  fillAes4Rx4_Key :: "vec128 list"

abbreviation (input) "JumpBits \<equiv> (8 :: nat)"
abbreviation (input) "JumpOffset \<equiv> (8 :: nat)"
abbreviation (input) "RANDOMX_DATASET_ITEM_SIZE \<equiv> (64 :: nat)"
abbreviation (input) "DatasetExtraSize \<equiv> (33554368 :: nat)"

definition DatasetExtraItems_Calculated :: nat where
  "DatasetExtraItems_Calculated = DatasetExtraSize div RANDOMX_DATASET_ITEM_SIZE"

definition ConditionMask_Calculated :: u32 where
  "ConditionMask_Calculated = push_bit JumpOffset (push_bit JumpBits 1 - 1)"

section \<open>The variants\<close>

definition base_freq :: "InstructionType \<Rightarrow> nat" where
  "base_freq t = (case t of
     IADD_RS \<Rightarrow> 16 | IADD_M \<Rightarrow> 7 | ISUB_R \<Rightarrow> 16 | ISUB_M \<Rightarrow> 7 | IMUL_R \<Rightarrow> 16 | IMUL_M \<Rightarrow> 4
   | IMULH_R \<Rightarrow> 4 | IMULH_M \<Rightarrow> 1 | ISMULH_R \<Rightarrow> 4 | ISMULH_M \<Rightarrow> 1 | IMUL_RCP \<Rightarrow> 8 | INEG_R \<Rightarrow> 2
   | IXOR_R \<Rightarrow> 15 | IXOR_M \<Rightarrow> 5 | IROR_R \<Rightarrow> 8 | IROL_R \<Rightarrow> 2 | ISWAP_R \<Rightarrow> 4 | FSWAP_R \<Rightarrow> 4
   | FADD_R \<Rightarrow> 16 | FADD_M \<Rightarrow> 5 | FSUB_R \<Rightarrow> 16 | FSUB_M \<Rightarrow> 5 | FSCAL_R \<Rightarrow> 6 | FMUL_R \<Rightarrow> 32
   | FDIV_M \<Rightarrow> 4 | FSQRT_R \<Rightarrow> 6 | CBRANCH \<Rightarrow> 25 | CFROUND \<Rightarrow> 1 | ISTORE \<Rightarrow> 16 | NOP \<Rightarrow> 0)"

definition RandomX_ConfigurationBase :: rx_config where
  "RandomX_ConfigurationBase = \<lparr>
     ArgonMemory = 262144, CacheAccesses = 8, DatasetBaseSize = 2147483648,
     ArgonIterations = 3, ArgonLanes = 1, ArgonSalt = ''RandomX'' @ [CHR 0x03],
     SuperscalarLatency = 170,
     ScratchpadL1_Size = 16384, ScratchpadL2_Size = 262144, ScratchpadL3_Size = 2097152,
     ProgramSize = 256, ProgramIterations = 2048, ProgramCount = 8,
     RANDOMX_FREQ = base_freq,
     fillAes4Rx4_Key =
       [rx_set_int_vec_i128 0x99e5d23f 0x2f546d2b 0xd1833ddb 0x6421aadd,
        rx_set_int_vec_i128 0xa5dfcde5 0x06f79d53 0xb6913f55 0xb20e3450,
        rx_set_int_vec_i128 0x171c02bf 0x0aa4679f 0x515e7baf 0x5c3ed904,
        rx_set_int_vec_i128 0xd8ded291 0xcd673785 0xe78f5d08 0x85623763,
        rx_set_int_vec_i128 0x229effb4 0x3d518b6d 0xe3d6a7a6 0xb5826f73,
        rx_set_int_vec_i128 0xb272b7d2 0xe9024d4e 0x9c10b3d9 0xc7566bf3,
        rx_set_int_vec_i128 0xf63befa7 0x2ba9660a 0xf765a38b 0xf273c9e7,
        rx_set_int_vec_i128 0xc0b0762d 0x0c06d1fd 0x915839de 0x7a7cd609]\<rparr>"

abbreviation "RandomX_ConfigurationMonero \<equiv> RandomX_ConfigurationBase"

definition RandomX_ConfigurationWownero :: rx_config where
  "RandomX_ConfigurationWownero =
     (let k0 = rx_set_int_vec_i128 0xcf359e95 0x141f82b7 0x7ffbe4a6 0xf890465d;
          k1 = rx_set_int_vec_i128 0x6741ffdc 0xbd5c5ac3 0xfee8278a 0x6a55c450;
          k2 = rx_set_int_vec_i128 0x3d324aac 0xa7279ad2 0xd524fde4 0x114c47a4;
          k3 = rx_set_int_vec_i128 0x76f6db08 0x42d3dbd9 0x99a9aeff 0x810c3a2a
      in RandomX_ConfigurationBase\<lparr>
           ArgonSalt := ''RandomWOW'' @ [CHR 0x01], ProgramIterations := 1024, ProgramCount := 16,
           ScratchpadL2_Size := 131072, ScratchpadL3_Size := 1048576,
           RANDOMX_FREQ := base_freq(IADD_RS := 25, IROR_R := 10, IROL_R := 0, FSWAP_R := 8,
             FADD_R := 20, FSUB_R := 20, FMUL_R := 20, CBRANCH := 16),
           fillAes4Rx4_Key := [k0, k1, k2, k3, k0, k1, k2, k3]\<rparr>)"

definition RandomX_ConfigurationArqma :: rx_config where
  "RandomX_ConfigurationArqma = RandomX_ConfigurationBase\<lparr>
     ArgonIterations := 1, ArgonSalt := ''RandomARQ'' @ [CHR 0x01], ProgramIterations := 1024,
     ProgramCount := 4, ScratchpadL2_Size := 131072, ScratchpadL3_Size := 262144\<rparr>"

definition RandomX_ConfigurationEquilibria :: rx_config where
  "RandomX_ConfigurationEquilibria = RandomX_ConfigurationBase\<lparr>
     ArgonIterations := 1, ArgonSalt := ''RandomXEQ'' @ [CHR 0x01], ProgramIterations := 1024,
     ProgramCount := 4, ScratchpadL2_Size := 131072, ScratchpadL3_Size := 262144\<rparr>"

definition RandomX_ConfigurationGraft :: rx_config where
  "RandomX_ConfigurationGraft = RandomX_ConfigurationBase\<lparr>
     ArgonLanes := 2, ArgonSalt := ''RandomX-Graft'' @ [CHR 0x01], ProgramSize := 280,
     RANDOMX_FREQ := base_freq(IROR_R := 7, IROL_R := 3)\<rparr>"

definition RandomX_ConfigurationSafex :: rx_config where
  "RandomX_ConfigurationSafex = RandomX_ConfigurationBase\<lparr>ArgonSalt := ''RandomSFX'' @ [CHR 0x01]\<rparr>"

definition RandomX_ConfigurationKeva :: rx_config where
  "RandomX_ConfigurationKeva = RandomX_ConfigurationBase\<lparr>
     ArgonSalt := ''RandomKV'' @ [CHR 0x01], ScratchpadL2_Size := 131072,
     ScratchpadL3_Size := 1048576\<rparr>"

definition RandomX_ConfigurationYada :: rx_config where
  "RandomX_ConfigurationYada = RandomX_ConfigurationBase\<lparr>
     ArgonSalt := ''RandomXYadaCoin'' @ [CHR 0x03], SuperscalarLatency := 150, ArgonIterations := 4\<rparr>"

definition RandomX_ConfigurationScala :: rx_config where
  "RandomX_ConfigurationScala = RandomX_ConfigurationBase\<lparr>
     ArgonMemory := 131072, ArgonIterations := 2, ArgonSalt := ''DefyXScala'' @ [CHR 0x13],
     CacheAccesses := 2, DatasetBaseSize := 33554432, ScratchpadL1_Size := 65536,
     ScratchpadL2_Size := 131072, ScratchpadL3_Size := 262144, ProgramSize := 64,
     ProgramIterations := 1024, ProgramCount := 4,
     RANDOMX_FREQ := base_freq(IADD_RS := 25, CBRANCH := 16)\<rparr>"

definition rx_variants :: "rx_config list" where
  "rx_variants =
     [RandomX_ConfigurationMonero, RandomX_ConfigurationWownero, RandomX_ConfigurationArqma,
      RandomX_ConfigurationEquilibria, RandomX_ConfigurationGraft, RandomX_ConfigurationSafex,
      RandomX_ConfigurationKeva, RandomX_ConfigurationScala, RandomX_ConfigurationYada]"

section \<open>The masks derived by \<open>Apply\<close>\<close>

text \<open>\<open>sizeof(uint64_t)\<close> makes the arithmetic 64 bits wide; the result is stored in 32.\<close>

definition mask_of_size :: "u32 \<Rightarrow> u32" where
  "mask_of_size sz = ucast ((ucast sz div 8 - 1) * 8 :: u64)"

definition AddressMask_Calculated :: "rx_config \<Rightarrow> nat \<Rightarrow> u32" where
  "AddressMask_Calculated c i =
     [mask_of_size (ScratchpadL2_Size c), mask_of_size (ScratchpadL1_Size c),
      mask_of_size (ScratchpadL1_Size c), mask_of_size (ScratchpadL1_Size c)] ! i"

definition ScratchpadL3Mask_Calculated :: "rx_config \<Rightarrow> u32" where
  "ScratchpadL3Mask_Calculated c = mask_of_size (ScratchpadL3_Size c)"

definition ScratchpadL3Mask64_Calculated :: "rx_config \<Rightarrow> u32" where
  "ScratchpadL3Mask64_Calculated c = ucast ((ucast (ScratchpadL3_Size c) div 8 div 8 - 1) * 64 :: u64)"

definition CacheLineAlignMask_Calculated :: "rx_config \<Rightarrow> u32" where
  "CacheLineAlignMask_Calculated c = (DatasetBaseSize c - 1) AND NOT (64 - 1)"

section \<open>What every variant satisfies\<close>

text \<open>
  The invariant of a configuration on which the virtual machine relies: the frequencies cover the
  256 opcodes, the three masks are the size less one word (less one line for the 64-byte mask),
  the levels are nested, and a program fits its buffer.
\<close>

definition config_ok :: "rx_config \<Rightarrow> bool" where
  "config_ok c \<longleftrightarrow>
     (\<Sum>t\<leftarrow>instr_order. RANDOMX_FREQ c t) = 256
   \<and> (\<forall>i<4. unat (AddressMask_Calculated c i) + 8 \<le> unat (ScratchpadL3_Size c))
   \<and> unat (ScratchpadL3Mask_Calculated c) + 8 = unat (ScratchpadL3_Size c)
   \<and> unat (ScratchpadL3Mask64_Calculated c) + 64 = unat (ScratchpadL3_Size c)
   \<and> unat (CacheLineAlignMask_Calculated c) + 64 = unat (DatasetBaseSize c)
   \<and> 256 dvd unat (ScratchpadL3_Size c)
   \<and> 0 < ProgramCount c \<and> 8 dvd ProgramSize c \<and> ProgramSize c \<le> 280
   \<and> length (fillAes4Rx4_Key c) = 8"

lemmas rx_variant_defs = RandomX_ConfigurationBase_def RandomX_ConfigurationWownero_def
  RandomX_ConfigurationArqma_def RandomX_ConfigurationEquilibria_def RandomX_ConfigurationGraft_def
  RandomX_ConfigurationSafex_def RandomX_ConfigurationKeva_def RandomX_ConfigurationScala_def
  RandomX_ConfigurationYada_def

lemma all_less_4: "(\<forall>i<4. P i) \<longleftrightarrow> P 0 \<and> P 1 \<and> P 2 \<and> P (3 :: nat)"
  by (auto simp: numeral_eq_Suc less_Suc_eq)

lemma rx_variants_ok:
  assumes "c \<in> set rx_variants"
  shows "config_ok c"
  using assms
  by (auto simp: rx_variants_def rx_variant_defs config_ok_def instr_order_def base_freq_def
      all_less_4 AddressMask_Calculated_def ScratchpadL3Mask_Calculated_def mask_of_size_def
      ScratchpadL3Mask64_Calculated_def CacheLineAlignMask_Calculated_def Let_def)

end
