(* ===== verification/Rx_Bytecode.thy ===== *)
theory Rx_Bytecode
  imports Rx_Config Reciprocal "HOL-Library.Monad_Syntax"
begin

text \<open>
  The bytecode machine of RandomX: \<open>crypto/randomx/instruction.hpp\<close>, \<open>bytecode_machine.hpp\<close>,
  \<open>bytecode_machine.cpp\<close> and the integer routines of \<open>instructions_portable.cpp\<close>.  A program is
  compiled to bytecode once (\<open>compileProgram\<close>) and executed (\<open>executeBytecode\<close>) on the integer
  registers r, the floating-point registers f, e, a and the scratchpad.

  A pointer to a register is the register's index; \<open>isrc\<close> may also point to the constant zero or
  to the instruction's own immediate.  A double is its bit pattern; the arithmetic of the
  processor (\<open>_mm_add_pd\<close> and its companions) is the record \<open>fpu\<close>, whose operations take the
  rounding mode.  \<open>None\<close> is an access outside the scratchpad or a branch marked \<open>UNREACHABLE\<close>,
  and, for \<open>executeBytecode\<close>, also an execution that never ends.
\<close>

section \<open>Integer routines\<close>

definition irotr64 :: "u64 \<Rightarrow> nat \<Rightarrow> u64" where
  "irotr64 a b = drop_bit b a OR push_bit ((64 - b) mod 64) a"

definition irotl64 :: "u64 \<Rightarrow> nat \<Rightarrow> u64" where
  "irotl64 a b = push_bit b a OR drop_bit ((64 - b) mod 64) a"

definition mulh :: "u64 \<Rightarrow> u64 \<Rightarrow> u64" where
  "mulh a b = ucast (drop_bit 64 (ucast a * ucast b :: u128))"

definition smulh :: "u64 \<Rightarrow> u64 \<Rightarrow> u64" where
  "smulh a b = ucast (signed_drop_bit 64 (scast a * scast b :: u128))"

text \<open>The portable versions, for compilers without a 128-bit type.\<close>

definition LO32 :: "u64 \<Rightarrow> u64" where
  "LO32 x = x AND 0xffffffff"

definition HI32 :: "u64 \<Rightarrow> u64" where
  "HI32 x = drop_bit 32 x"

definition mulh_portable :: "u64 \<Rightarrow> u64 \<Rightarrow> u64" where
  "mulh_portable a b =
     (let ah = HI32 a; al = LO32 a; bh = HI32 b; bl = LO32 b;
          x00 = al * bl; x01 = al * bh; x10 = ah * bl; x11 = ah * bh;
          m1 = LO32 x10 + LO32 x01 + HI32 x00;
          m2 = HI32 x10 + HI32 x01 + LO32 x11 + HI32 m1;
          m3 = HI32 x11 + HI32 m2
      in push_bit 32 m3 + LO32 m2)"

definition smulh_portable :: "u64 \<Rightarrow> u64 \<Rightarrow> u64" where
  "smulh_portable a b =
     (let hi = mulh_portable a b;
          hi1 = (if sint a < 0 then hi - b else hi)
      in if sint b < 0 then hi1 - a else hi1)"

definition signExtend2sCompl :: "u32 \<Rightarrow> u64" where
  "signExtend2sCompl x = scast x"

definition isZeroOrPowerOf2 :: "u64 \<Rightarrow> bool" where
  "isZeroOrPowerOf2 x \<longleftrightarrow> x AND (x - 1) = 0"

section \<open>Instructions and bytecode\<close>

record rx_instr =
  i_opcode :: u8
  i_dst :: u8
  i_src :: u8
  i_mod :: u8
  i_imm32 :: u32

definition getModMem :: "rx_instr \<Rightarrow> nat" where
  "getModMem ins = unat (i_mod ins AND 3)"

definition getModShift :: "rx_instr \<Rightarrow> nat" where
  "getModShift ins = unat (drop_bit 2 (i_mod ins) AND 3)"

definition getModCond :: "rx_instr \<Rightarrow> nat" where
  "getModCond ins = unat (drop_bit 4 (i_mod ins))"

datatype int_src = RegSrc nat | ImmSrc | ZeroSrc
datatype flt_dst = FDst nat | EDst nat

record ibc =
  b_type :: InstructionType
  b_idst :: nat
  b_isrc :: int_src
  b_fdst :: flt_dst
  b_fsrc :: nat
  b_imm :: u64
  b_target :: int
  b_shift :: nat
  b_memMask :: u32

definition ibc_init :: ibc where
  "ibc_init = \<lparr>b_type = NOP, b_idst = 0, b_isrc = ZeroSrc, b_fdst = FDst 0, b_fsrc = 0, b_imm = 0,
     b_target = 0, b_shift = 0, b_memMask = 0\<rparr>"

text \<open>
  The chain of \<open>if (opcode < RANDOMX_FREQ_x) ... opcode -= RANDOMX_FREQ_x\<close>: which branch is
  taken.  \<open>None\<close> is the \<open>UNREACHABLE\<close> at its end.
\<close>

fun decode_opcode :: "(InstructionType \<Rightarrow> nat) \<Rightarrow> InstructionType list \<Rightarrow> nat \<Rightarrow> InstructionType option" where
  "decode_opcode freq [] opcode = None"
| "decode_opcode freq (t # ts) opcode =
     (if opcode < freq t then Some t else decode_opcode freq ts (opcode - freq t))"

text \<open>The branches that repeat: an operand in memory, and a register or immediate operand.\<close>

definition gen_mem :: "rx_config \<Rightarrow> InstructionType \<Rightarrow> rx_instr \<Rightarrow> nat \<Rightarrow> nat \<Rightarrow> ibc" where
  "gen_mem cfg t ins dst src =
     (let b = ibc_init\<lparr>b_type := t, b_idst := dst, b_imm := signExtend2sCompl (i_imm32 ins)\<rparr>
      in if src \<noteq> dst
         then b\<lparr>b_isrc := RegSrc src, b_memMask := AddressMask_Calculated cfg (getModMem ins)\<rparr>
         else b\<lparr>b_isrc := ZeroSrc, b_memMask := ScratchpadL3Mask_Calculated cfg\<rparr>)"

definition gen_reg_imm :: "InstructionType \<Rightarrow> u64 \<Rightarrow> nat \<Rightarrow> nat \<Rightarrow> ibc" where
  "gen_reg_imm t imm dst src =
     (let b = ibc_init\<lparr>b_type := t, b_idst := dst\<rparr>
      in if src \<noteq> dst then b\<lparr>b_isrc := RegSrc src\<rparr> else b\<lparr>b_imm := imm, b_isrc := ImmSrc\<rparr>)"

definition gen_reg :: "InstructionType \<Rightarrow> nat \<Rightarrow> nat \<Rightarrow> ibc" where
  "gen_reg t dst src = ibc_init\<lparr>b_type := t, b_idst := dst, b_isrc := RegSrc src\<rparr>"

definition gen_fmem :: "rx_config \<Rightarrow> InstructionType \<Rightarrow> rx_instr \<Rightarrow> flt_dst \<Rightarrow> nat \<Rightarrow> ibc" where
  "gen_fmem cfg t ins fd src =
     ibc_init\<lparr>b_type := t, b_fdst := fd, b_isrc := RegSrc src,
       b_memMask := AddressMask_Calculated cfg (getModMem ins),
       b_imm := signExtend2sCompl (i_imm32 ins)\<rparr>"

definition gen_freg :: "InstructionType \<Rightarrow> flt_dst \<Rightarrow> nat \<Rightarrow> ibc" where
  "gen_freg t fd src = ibc_init\<lparr>b_type := t, b_fdst := fd, b_fsrc := src\<rparr>"

definition gen_CBRANCH :: "rx_instr \<Rightarrow> nat \<Rightarrow> int \<Rightarrow> ibc" where
  "gen_CBRANCH ins creg target =
     (let shift = getModCond ins;
          imm = signExtend2sCompl (i_imm32 ins) OR push_bit shift (push_bit JumpOffset 1);
          imm' = imm AND NOT (push_bit shift (push_bit (JumpOffset - 1) 1))
      in ibc_init\<lparr>b_type := CBRANCH, b_idst := creg, b_target := target, b_imm := imm',
           b_memMask := push_bit shift ConditionMask_Calculated\<rparr>)"

text \<open>
  One branch of \<open>compileInstruction\<close>: the bytecode and the updated \<open>registerUsage\<close>.  \<open>i\<close> is the
  index of the instruction.
\<close>

definition gen_instr ::
  "rx_config \<Rightarrow> InstructionType \<Rightarrow> rx_instr \<Rightarrow> nat \<Rightarrow> int list \<Rightarrow> (ibc \<times> int list) option" where
  "gen_instr cfg t ins i usage =
     (let dst = unat (i_dst ins) mod 8; src = unat (i_src ins) mod 8;
          fd = unat (i_dst ins) mod 4; fs = unat (i_src ins) mod 4;
          imm = signExtend2sCompl (i_imm32 ins); mark = usage[dst := int i]
      in case t of
        IADD_RS \<Rightarrow> Some ((gen_reg IADD_RS dst src)\<lparr>b_shift := getModShift ins,
                     b_imm := (if dst \<noteq> 5 then 0 else imm)\<rparr>, mark)
      | IADD_M \<Rightarrow> Some (gen_mem cfg IADD_M ins dst src, mark)
      | ISUB_R \<Rightarrow> Some (gen_reg_imm ISUB_R imm dst src, mark)
      | ISUB_M \<Rightarrow> Some (gen_mem cfg ISUB_M ins dst src, mark)
      | IMUL_R \<Rightarrow> Some (gen_reg_imm IMUL_R imm dst src, mark)
      | IMUL_M \<Rightarrow> Some (gen_mem cfg IMUL_M ins dst src, mark)
      | IMULH_R \<Rightarrow> Some (gen_reg IMULH_R dst src, mark)
      | IMULH_M \<Rightarrow> Some (gen_mem cfg IMULH_M ins dst src, mark)
      | ISMULH_R \<Rightarrow> Some (gen_reg ISMULH_R dst src, mark)
      | ISMULH_M \<Rightarrow> Some (gen_mem cfg ISMULH_M ins dst src, mark)
      | IMUL_RCP \<Rightarrow>
          (let divisor = ucast (i_imm32 ins) in
           if \<not> isZeroOrPowerOf2 divisor
           then do { rcp \<leftarrow> randomx_reciprocal divisor;
                     Some (ibc_init\<lparr>b_type := IMUL_R, b_idst := dst, b_imm := rcp, b_isrc := ImmSrc\<rparr>, mark) }
           else Some (ibc_init\<lparr>b_type := NOP\<rparr>, usage))
      | INEG_R \<Rightarrow> Some (ibc_init\<lparr>b_type := INEG_R, b_idst := dst\<rparr>, mark)
      | IXOR_R \<Rightarrow> Some (gen_reg_imm IXOR_R imm dst src, mark)
      | IXOR_M \<Rightarrow> Some (gen_mem cfg IXOR_M ins dst src, mark)
      | IROR_R \<Rightarrow> Some (gen_reg_imm IROR_R (ucast (i_imm32 ins)) dst src, mark)
      | IROL_R \<Rightarrow> Some (gen_reg_imm IROL_R (ucast (i_imm32 ins)) dst src, mark)
      | ISWAP_R \<Rightarrow>
          (if src \<noteq> dst then Some (gen_reg ISWAP_R dst src, mark[src := int i])
           else Some (ibc_init\<lparr>b_type := NOP\<rparr>, usage))
      | FSWAP_R \<Rightarrow> Some (ibc_init\<lparr>b_type := FSWAP_R,
                     b_fdst := (if dst < 4 then FDst dst else EDst (dst - 4))\<rparr>, usage)
      | FADD_R \<Rightarrow> Some (gen_freg FADD_R (FDst fd) fs, usage)
      | FADD_M \<Rightarrow> Some (gen_fmem cfg FADD_M ins (FDst fd) src, usage)
      | FSUB_R \<Rightarrow> Some (gen_freg FSUB_R (FDst fd) fs, usage)
      | FSUB_M \<Rightarrow> Some (gen_fmem cfg FSUB_M ins (FDst fd) src, usage)
      | FSCAL_R \<Rightarrow> Some (ibc_init\<lparr>b_type := FSCAL_R, b_fdst := FDst fd\<rparr>, usage)
      | FMUL_R \<Rightarrow> Some (gen_freg FMUL_R (EDst fd) fs, usage)
      | FDIV_M \<Rightarrow> Some (gen_fmem cfg FDIV_M ins (EDst fd) src, usage)
      | FSQRT_R \<Rightarrow> Some (ibc_init\<lparr>b_type := FSQRT_R, b_fdst := EDst fd\<rparr>, usage)
      | CBRANCH \<Rightarrow> Some (gen_CBRANCH ins dst (usage ! dst), replicate 8 (int i))
      | CFROUND \<Rightarrow> Some (ibc_init\<lparr>b_type := CFROUND, b_isrc := RegSrc src,
                     b_imm := ucast (i_imm32 ins) AND 63\<rparr>, usage)
      | ISTORE \<Rightarrow> Some ((gen_reg ISTORE dst src)\<lparr>b_imm := imm,
                     b_memMask := (if getModCond ins < 14 then AddressMask_Calculated cfg (getModMem ins)
                                   else ScratchpadL3Mask_Calculated cfg)\<rparr>, usage)
      | NOP \<Rightarrow> Some (ibc_init\<lparr>b_type := NOP\<rparr>, usage))"

definition compileInstruction ::
  "rx_config \<Rightarrow> rx_instr \<Rightarrow> nat \<Rightarrow> int list \<Rightarrow> (ibc \<times> int list) option" where
  "compileInstruction cfg ins i usage =
     do { t \<leftarrow> decode_opcode (RANDOMX_FREQ cfg) instr_order (unat (i_opcode ins));
          gen_instr cfg t ins i usage }"

fun compile_from :: "rx_config \<Rightarrow> nat \<Rightarrow> rx_instr list \<Rightarrow> int list \<Rightarrow> ibc list option" where
  "compile_from cfg i [] usage = Some []"
| "compile_from cfg i (ins # rest) usage =
     do { (b, usage') \<leftarrow> compileInstruction cfg ins i usage;
          bs \<leftarrow> compile_from cfg (Suc i) rest usage';
          Some (b # bs) }"

text \<open>\<open>beginCompilation\<close> marks every register as unused with -1.\<close>

definition compileProgram :: "rx_config \<Rightarrow> rx_instr list \<Rightarrow> ibc list option" where
  "compileProgram cfg program = compile_from cfg 0 (take (ProgramSize cfg) program) (replicate 8 (- 1))"

end
