(* ===== verification/Rx_Arith.thy ===== *)
theory Rx_Arith
  imports Rx_Bytecode
begin

text \<open>
  The integer routines of \<open>instructions_portable.cpp\<close>: the portable high-half multiplications
  against the versions that use a 128-bit type, and the rotations.
\<close>

lemma unat_LO32: "unat (LO32 x) = unat x mod 2 ^ 32"
proof -
  have "LO32 x = take_bit 32 x" by (simp add: LO32_def take_bit_eq_mask mask_numeral)
  then show ?thesis by (simp only: unsigned_take_bit_eq take_bit_eq_mod [where ?'a = nat])
qed

lemma unat_HI32: "unat (HI32 x) = unat x div 2 ^ 32"
  by (simp add: HI32_def unat_drop_bit_div)

lemma halves_less: "unat (LO32 x) < 2 ^ 32" "unat (HI32 x) < 2 ^ 32"
  using unat_lt_2p [of x] by (simp_all add: unat_LO32 unat_HI32 less_mult_imp_div_less)

text \<open>The schoolbook product in base W, on natural numbers.\<close>

lemma high_product:
  fixes A B W :: nat
  assumes "0 < W"
  defines "x00 \<equiv> (A mod W) * (B mod W)" and "x01 \<equiv> (A mod W) * (B div W)"
    and "x10 \<equiv> (A div W) * (B mod W)" and "x11 \<equiv> (A div W) * (B div W)"
  defines "m1 \<equiv> x10 mod W + x01 mod W + x00 div W"
  defines "m2 \<equiv> x10 div W + x01 div W + x11 mod W + m1 div W"
  shows "(x11 div W + m2 div W) * W + m2 mod W = A * B div (W * W)"
proof -
  have "A * B = (A div W * W + A mod W) * (B div W * W + B mod W)"
    by (simp only: div_mult_mod_eq)
  also have "\<dots> = (x11 * W + (x10 + x01)) * W + x00"
    unfolding x11_def x10_def x01_def x00_def by (simp only: algebra_simps)
  finally have "A * B div W = x11 * W + (x10 + x01) + x00 div W" using assms(1) by simp
  then have "A * B div (W * W) = x11 + (x10 + x01 + x00 div W) div W"
    using assms(1) by (simp add: div_mult2_eq add.assoc)
  also have "x10 + x01 + x00 div W = (x10 div W + x01 div W) * W + m1"
    unfolding m1_def by (simp add: algebra_simps)
  also have "\<dots> div W = x10 div W + x01 div W + m1 div W" using assms(1) by simp
  also have "x11 + (x10 div W + x01 div W + m1 div W) = x11 div W * W + m2"
    unfolding m2_def by (simp add: algebra_simps)
  also have "\<dots> = (x11 div W + m2 div W) * W + m2 mod W"
    by (simp add: algebra_simps)
  finally show ?thesis by simp
qed

lemma unat_mulh: "unat (mulh a b) = unat a * unat b div 2 ^ 64"
proof -
  have "unat a * unat b < 2 ^ 64 * 2 ^ 64"
    using unat_lt_2p [of a] unat_lt_2p [of b] by (intro mult_strict_mono') simp_all
  then have "unat (ucast a * ucast b :: u128) = unat a * unat b"
    by (simp add: unat_mult_small unat_ucast_up)
  moreover have "unat a * unat b div 2 ^ 64 < 2 ^ 64"
    using \<open>unat a * unat b < _\<close> by (simp add: less_mult_imp_div_less)
  ultimately show ?thesis
    by (simp add: mulh_def unsigned_ucast_eq unat_drop_bit_div take_bit_nat_eq_self)
qed

lemma mulh_portable_eq: "mulh_portable a b = mulh a b"
proof (rule word_unat_eq_iff [THEN iffD2])
  let ?A = "unat a" and ?B = "unat b" and ?W = "2 ^ 32 :: nat"
  define x00 x01 x10 x11 where "x00 = LO32 a * LO32 b" and "x01 = LO32 a * HI32 b"
    and "x10 = HI32 a * LO32 b" and "x11 = HI32 a * HI32 b"
  have prod: "unat (u * v) = unat u * unat v" if "unat u < 2 ^ 32" "unat v < 2 ^ 32" for u v :: u64
  proof -
    have "unat u * unat v < 2 ^ 32 * 2 ^ 32" using that by (intro mult_strict_mono') simp_all
    then show ?thesis by (simp add: unat_mult_small)
  qed
  have xs: "unat x00 = ?A mod ?W * (?B mod ?W)" "unat x01 = ?A mod ?W * (?B div ?W)"
    "unat x10 = ?A div ?W * (?B mod ?W)" "unat x11 = ?A div ?W * (?B div ?W)"
    unfolding x00_def x01_def x10_def x11_def
    by (simp_all only: prod [OF halves_less(1) halves_less(1)] prod [OF halves_less(1) halves_less(2)]
        prod [OF halves_less(2) halves_less(1)] prod [OF halves_less(2) halves_less(2)] unat_LO32 unat_HI32)
  define m1 where "m1 = LO32 x10 + LO32 x01 + HI32 x00"
  have W: "0 < ?W" by simp
  have m1: "unat m1 = unat x10 mod ?W + unat x01 mod ?W + unat x00 div ?W"
    using halves_less [of x10] halves_less [of x01] halves_less [of x00]
    by (simp add: m1_def unat_add_small unat_LO32 unat_HI32)
  define m2 where "m2 = HI32 x10 + HI32 x01 + LO32 x11 + HI32 m1"
  have m2: "unat m2 = unat x10 div ?W + unat x01 div ?W + unat x11 mod ?W + unat m1 div ?W"
    using halves_less [of x10] halves_less [of x01] halves_less [of x11] halves_less [of m1]
    by (simp add: m2_def unat_add_small unat_LO32 unat_HI32)
  have high: "(unat x11 div ?W + unat m2 div ?W) * ?W + unat m2 mod ?W = unat (mulh a b)"
  proof -
    have "(2 :: nat) ^ 64 = ?W * ?W" by simp
    then show ?thesis unfolding m2 m1 xs unat_mulh by (simp only: high_product [OF W])
  qed
  define m3 where "m3 = HI32 x11 + HI32 m2"
  have m3: "unat m3 = unat x11 div ?W + unat m2 div ?W"
    using halves_less [of x11] halves_less [of m2] by (simp add: m3_def unat_add_small unat_HI32)
  have m3w: "unat m3 * ?W + unat m2 mod ?W < 2 ^ 64"
    using high m3 unat_lt_2p [of "mulh a b"] by simp
  then have "unat (push_bit 32 m3 + LO32 m2) = unat m3 * ?W + unat m2 mod ?W"
    by (simp add: unat_add_small unat_push_bit_mod unat_LO32 mult.commute)
  also have "push_bit 32 m3 + LO32 m2 = mulh_portable a b"
    by (simp add: mulh_portable_def Let_def m3_def m2_def m1_def x00_def x01_def x10_def x11_def)
  finally show "unat (mulh_portable a b) = unat (mulh a b)" using high m3 by simp
qed

text \<open>
  The signed product: a negative factor \<open>a\<close> is \<open>unat a - 2^64\<close>, so the high half is the
  unsigned one less the other factor, modulo \<open>2^64\<close>.
\<close>

lemma sint_eq_uint: "sint a = uint a - (if sint a < 0 then 2 ^ 64 else 0)" for a :: u64
proof -
  have s: "sint a = (uint a + 2 ^ 63) mod 2 ^ 64 - 2 ^ 63"
    by (simp only: sint_uint signed_take_bit_eq_take_bit_shift take_bit_eq_mod) simp
  have a: "0 \<le> uint a" "uint a < 2 ^ 64" using uint_bounded [of a] by simp_all
  show ?thesis
  proof (cases "uint a < 2 ^ 63")
    case True
    then have "(uint a + 2 ^ 63) mod 2 ^ 64 = uint a + 2 ^ 63"
      using a by (intro mod_pos_pos_trivial) simp_all
    then show ?thesis using s a by simp
  next
    case False
    have "(uint a + 2 ^ 63) mod 2 ^ 64 = (uint a + 2 ^ 63 - 2 ^ 64) mod 2 ^ 64"
      by (rule minus_mod_self2 [symmetric])
    also have "\<dots> = uint a + 2 ^ 63 - 2 ^ 64"
      using a False by (intro mod_pos_pos_trivial) simp_all
    finally show ?thesis using s a by simp
  qed
qed

lemma sint_bounds: "- (2 ^ 63) \<le> sint a" "sint a < 2 ^ 63" for a :: u64
  using sint_ge [of a] sint_lt [of a] by simp_all

lemma sint_u128: "- (2 ^ 127) \<le> p \<Longrightarrow> p < 2 ^ 127 \<Longrightarrow> sint (word_of_int p :: u128) = p"
  unfolding sint_sbintrunc' by (rule signed_take_bit_int_eq_self) simp_all

lemma smulh_sint: "smulh a b = word_of_int (sint a * sint b div 2 ^ 64)"
proof -
  define p where "p = sint a * sint b"
  have "\<bar>sint a\<bar> * \<bar>sint b\<bar> \<le> 2 ^ 63 * 2 ^ 63"
    using sint_bounds [of a] sint_bounds [of b] by (intro mult_mono) auto
  then have "\<bar>p\<bar> \<le> 2 ^ 126" by (simp add: abs_mult p_def)
  then have "- (2 ^ 127) \<le> p" "p < 2 ^ 127" by (simp_all add: abs_le_iff)
  then have "sint (word_of_int p :: u128) = p" by (rule sint_u128)
  moreover have prod: "(scast a * scast b :: u128) = word_of_int p"
    by (simp only: p_def scast_eq of_int_mult)
  ultimately have "sint (signed_drop_bit 64 (scast a * scast b) :: u128) = p div 2 ^ 64"
    by (simp only: prod sint_signed_drop_bit_eq drop_bit_eq_div)
  moreover have "(ucast w :: u64) = word_of_int (sint w)" for w :: u128
    unfolding scast_eq [symmetric] by (rule bit_word_eqI) (simp add: bit_simps)
  ultimately show ?thesis by (simp only: smulh_def p_def)
qed

lemma smulh_portable_eq: "smulh_portable a b = smulh a b"
proof -
  let ?A = "uint a" and ?B = "uint b" and ?W = "2 ^ 64 :: int"
  let ?sa = "if sint a < 0 then 1 else 0 :: int" and ?sb = "if sint b < 0 then 1 else 0 :: int"
  have m: "mulh a b = word_of_int (?A * ?B div ?W)"
  proof -
    have "mulh a b = of_nat (unat (mulh a b))" by simp
    also have "\<dots> = word_of_int (int (unat a * unat b div 2 ^ 64))" by (simp only: unat_mulh of_int_of_nat_eq)
    finally show ?thesis by (simp only: zdiv_int of_nat_mult uint_nat of_nat_power of_nat_numeral)
  qed
  have "sint a * sint b = (?A - ?sa * ?W) * (?B - ?sb * ?W)"
    by (subst sint_eq_uint [of a], subst sint_eq_uint [of b]) simp
  also have "\<dots> = ?A * ?B + (?sa * ?sb * ?W - ?sa * ?B - ?sb * ?A) * ?W"
    by (simp only: algebra_simps)
  finally have "sint a * sint b div ?W = ?A * ?B div ?W + (?sa * ?sb * ?W - ?sa * ?B - ?sb * ?A)"
    by simp
  then have "smulh a b = mulh a b + (word_of_int (?sa * ?sb * ?W) - word_of_int ?sa * b - word_of_int ?sb * a)"
    by (simp only: smulh_sint m wi_hom_syms word_of_int_uint)
  then show ?thesis
    by (simp add: smulh_portable_def mulh_portable_eq Let_def)
qed

section \<open>Properties\<close>

text \<open>The portable high-half multiplications equal those computed with a 128-bit type: the
  unsigned one assembles the carries of the four partial products correctly, the signed one
  corrects it for negative factors.\<close>

theorem portable_mulh_correct:
  "mulh_portable a b = mulh a b \<and> unat (mulh_portable a b) = unat a * unat b div 2 ^ 64
   \<and> smulh_portable a b = smulh a b \<and> smulh_portable a b = word_of_int (sint a * sint b div 2 ^ 64)"
  by (simp only: mulh_portable_eq smulh_portable_eq unat_mulh smulh_sint simp_thms)

end
