(* ===== verification/Rx_Terminate.thy ===== *)
theory Rx_Terminate
  imports Rx_Exec
begin

text \<open>
  A compiled program always runs to its end inside its scratchpad.  The proof follows the design
  of \<open>CBRANCH\<close>: the target of a branch is the last instruction that changed its register (or the
  last branch), so a taken branch repeats a stretch of code that neither branches nor touches the
  register, and the constants of the branch make its condition fail after at most two jumps.
\<close>

section \<open>Compilation\<close>

text \<open>The integer registers an instruction may change.\<close>

definition writes_int :: "ibc \<Rightarrow> nat set" where
  "writes_int b =
     (if b_type b \<in> {FSWAP_R, FADD_R, FADD_M, FSUB_R, FSUB_M, FSCAL_R, FMUL_R, FDIV_M, FSQRT_R,
        CFROUND, ISTORE, NOP} then {}
      else if b_type b = ISWAP_R then {b_idst b} \<union> {k. b_isrc b = RegSrc k}
      else {b_idst b})"

definition mem_types :: "InstructionType set" where
  "mem_types = {IADD_M, ISUB_M, IMUL_M, IMULH_M, ISMULH_M, IXOR_M, FADD_M, FSUB_M, FDIV_M, ISTORE}"

definition branch_consts :: "ibc \<Rightarrow> bool" where
  "branch_consts b \<longleftrightarrow> (\<exists>s<16. b_memMask b = push_bit s ConditionMask_Calculated
     \<and> bit (b_imm b) (s + 8) \<and> \<not> bit (b_imm b) (s + 7))"

text \<open>An instruction is well formed for a scratchpad of \<open>L\<close> bytes.\<close>

definition ib_ok :: "nat \<Rightarrow> ibc \<Rightarrow> bool" where
  "ib_ok L b \<longleftrightarrow> b_type b \<noteq> IMUL_RCP \<and> b_idst b < 8
     \<and> (b_type b \<in> mem_types \<longrightarrow> unat (b_memMask b) + 8 \<le> L)
     \<and> (b_type b = CBRANCH \<longrightarrow> branch_consts b)"

text \<open>No instruction with index in \<open>(u, i)\<close> branches or changes register \<open>c\<close>.\<close>

definition untouched :: "ibc list \<Rightarrow> nat \<Rightarrow> int \<Rightarrow> nat \<Rightarrow> bool" where
  "untouched bc c u i \<longleftrightarrow> (\<forall>j<i. u < int j \<longrightarrow> b_type (bc ! j) \<noteq> CBRANCH \<and> c \<notin> writes_int (bc ! j))"

definition branch_ok :: "ibc list \<Rightarrow> nat \<Rightarrow> bool" where
  "branch_ok bc i \<longleftrightarrow> (b_type (bc ! i) = CBRANCH \<longrightarrow>
     - 1 \<le> b_target (bc ! i) \<and> b_target (bc ! i) < int i
     \<and> untouched bc (b_idst (bc ! i)) (b_target (bc ! i)) i)"

definition program_ok :: "nat \<Rightarrow> ibc list \<Rightarrow> bool" where
  "program_ok L bc \<longleftrightarrow> (\<forall>i<length bc. ib_ok L (bc ! i) \<and> branch_ok bc i)"

definition usage_ok :: "ibc list \<Rightarrow> int list \<Rightarrow> bool" where
  "usage_ok bc usage \<longleftrightarrow> length usage = 8
     \<and> (\<forall>c<8. - 1 \<le> usage ! c \<and> usage ! c < int (length bc) \<and> untouched bc c (usage ! c) (length bc))"

lemma decode_opcode_total:
  "n < (\<Sum>t\<leftarrow>ts. freq t) \<Longrightarrow> \<exists>t. decode_opcode freq ts n = Some t"
  by (induction ts arbitrary: n) auto

lemma getModCond_less: "getModCond ins < 16"
  using unat_lt_2p [of "i_mod ins"] by (simp add: getModCond_def unat_drop_bit_div)

lemma gen_CBRANCH_simps [simp]:
  "b_type (gen_CBRANCH ins c t) = CBRANCH" "b_idst (gen_CBRANCH ins c t) = c"
  "b_target (gen_CBRANCH ins c t) = t"
  by (simp_all add: gen_CBRANCH_def Let_def)

lemma branch_consts_gen_CBRANCH: "branch_consts (gen_CBRANCH ins c t)"
  unfolding branch_consts_def
proof (intro exI conjI)
  show "getModCond ins < 16" by (rule getModCond_less)
  then show "bit (b_imm (gen_CBRANCH ins c t)) (getModCond ins + 8)"
    and "\<not> bit (b_imm (gen_CBRANCH ins c t)) (getModCond ins + 7)"
    by (simp_all add: gen_CBRANCH_def Let_def bit_simps)
qed (simp add: gen_CBRANCH_def Let_def)

lemma gen_sel_simps [simp]:
  "b_type (gen_mem cfg t ins d s) = t" "b_idst (gen_mem cfg t ins d s) = d"
  "b_type (gen_reg_imm t x d s) = t" "b_idst (gen_reg_imm t x d s) = d"
  "b_type (gen_reg t d s) = t" "b_idst (gen_reg t d s) = d" "b_isrc (gen_reg t d s) = RegSrc s"
  "b_type (gen_fmem cfg t ins fd s) = t" "b_idst (gen_fmem cfg t ins fd s) = 0"
  "b_type (gen_freg t fd s) = t" "b_idst (gen_freg t fd s) = 0"
  "b_idst ibc_init = 0" "b_type ibc_init = NOP"
  by (simp_all add: gen_mem_def gen_reg_imm_def gen_reg_def gen_fmem_def gen_freg_def Let_def
      ibc_init_def)

lemma getModMem_less: "getModMem ins < 4"
proof -
  have "i_mod ins AND 3 = take_bit 2 (i_mod ins)" by (simp add: take_bit_eq_mask mask_numeral)
  then have "getModMem ins = take_bit 2 (unat (i_mod ins))"
    by (simp only: getModMem_def unsigned_take_bit_eq)
  then show ?thesis by (simp add: take_bit_eq_mod)
qed

lemma gen_mask_ok:
  assumes "config_ok cfg"
  shows "unat (b_memMask (gen_mem cfg t ins d s)) + 8 \<le> unat (ScratchpadL3_Size cfg)"
    and "unat (b_memMask (gen_fmem cfg t ins fd s)) + 8 \<le> unat (ScratchpadL3_Size cfg)"
    and "unat (AddressMask_Calculated cfg (getModMem ins)) + 8 \<le> unat (ScratchpadL3_Size cfg)"
    and "unat (ScratchpadL3Mask_Calculated cfg) + 8 \<le> unat (ScratchpadL3_Size cfg)"
  using assms getModMem_less [of ins] by (auto simp: config_ok_def gen_mem_def gen_fmem_def Let_def)

lemma gen_instr_ok:
  assumes "gen_instr cfg t ins i usage = Some (b, usage')" and "config_ok cfg"
  shows "ib_ok (unat (ScratchpadL3_Size cfg)) b"
  using assms(1) gen_mask_ok [OF assms(2)] branch_consts_gen_CBRANCH
  by (cases t) (auto simp: gen_instr_def ib_ok_def mem_types_def Let_def split: if_splits bind_splits)

lemma gen_instr_usage:
  assumes "gen_instr cfg t ins i usage = Some (b, usage')" and "length usage = 8"
  shows "(b_type b = CBRANCH \<longrightarrow> b_target b = usage ! b_idst b \<and> usage' = replicate 8 (int i))
    \<and> (b_type b \<noteq> CBRANCH \<longrightarrow> length usage' = 8 \<and>
        (\<forall>c<8. usage' ! c = (if c \<in> writes_int b then int i else usage ! c)))"
  using assms
  by (cases t; simp add: gen_instr_def Let_def split: if_splits bind_splits;
      force simp: writes_int_def nth_list_update)

lemma randomx_reciprocal_not_None: "d \<noteq> 0 \<Longrightarrow> randomx_reciprocal d \<noteq> None"
  by (simp add: randomx_reciprocal_def Let_def split: prod.splits)

lemma gen_instr_total: "\<exists>b usage'. gen_instr cfg t ins i usage = Some (b, usage')"
proof -
  have "randomx_reciprocal d = None \<Longrightarrow> isZeroOrPowerOf2 d" for d
    using randomx_reciprocal_not_None [of d] by (cases "d = 0") (simp_all add: isZeroOrPowerOf2_def)
  then show ?thesis
    by (cases t) (auto simp: gen_instr_def Let_def split: if_splits bind_splits)
qed

lemma compileInstruction_total:
  assumes "config_ok cfg"
  shows "\<exists>b usage'. compileInstruction cfg ins i usage = Some (b, usage')"
proof -
  have "unat (i_opcode ins) < (\<Sum>t\<leftarrow>instr_order. RANDOMX_FREQ cfg t)"
    using assms unat_lt_2p [of "i_opcode ins"] by (simp add: config_ok_def)
  then obtain t where "decode_opcode (RANDOMX_FREQ cfg) instr_order (unat (i_opcode ins)) = Some t"
    using decode_opcode_total by blast
  then show ?thesis
    using gen_instr_total [of cfg t ins i usage] by (simp add: compileInstruction_def)
qed

lemma compile_from_total:
  "config_ok cfg \<Longrightarrow> \<exists>bs. compile_from cfg i inss usage = Some bs \<and> length bs = length inss"
proof (induction inss arbitrary: i usage)
  case (Cons ins inss)
  obtain b usage' where "compileInstruction cfg ins i usage = Some (b, usage')"
    using compileInstruction_total [OF Cons.prems] by blast
  moreover obtain bs where "compile_from cfg (Suc i) inss usage' = Some bs" "length bs = length inss"
    using Cons.IH [OF Cons.prems] by blast
  ultimately show ?case by simp
qed simp

lemma untouched_append:
  "untouched bc c u (length bc) \<Longrightarrow> b_type b \<noteq> CBRANCH \<Longrightarrow> c \<notin> writes_int b \<Longrightarrow>
     untouched (bc @ [b]) c u (Suc (length bc))"
  by (auto simp: untouched_def nth_append less_Suc_eq)

lemma untouched_here: "untouched bc c (int (length bc)) (Suc (length bc))"
  by (auto simp: untouched_def)

lemma untouched_prefix: "i \<le> length bc \<Longrightarrow> untouched (bc @ bs) c u i = untouched bc c u i"
  by (auto simp: untouched_def nth_append)

lemma usage_ok_step:
  assumes "usage_ok bc usage" and gen: "gen_instr cfg t ins (length bc) usage = Some (b, usage')"
  shows "usage_ok (bc @ [b]) usage'"
proof -
  have step: "b_type b = CBRANCH \<Longrightarrow> usage' = replicate 8 (int (length bc))"
    "b_type b \<noteq> CBRANCH \<Longrightarrow> length usage' = 8"
    "\<And>c. b_type b \<noteq> CBRANCH \<Longrightarrow> c < 8 \<Longrightarrow> usage' ! c = (if c \<in> writes_int b then int (length bc) else usage ! c)"
    using gen_instr_usage [OF gen] assms(1) by (auto simp: usage_ok_def)
  show ?thesis
  proof (cases "b_type b = CBRANCH")
    case True
    then show ?thesis by (simp add: step(1) usage_ok_def untouched_def)
  next
    case False
    have "- 1 \<le> usage' ! c \<and> usage' ! c < int (length (bc @ [b]))
        \<and> untouched (bc @ [b]) c (usage' ! c) (length (bc @ [b]))" if "c < 8" for c
    proof (cases "c \<in> writes_int b")
      case True
      then show ?thesis using False step(3) [OF False that] by (simp add: untouched_def)
    next
      case c: False
      with assms(1) that False show ?thesis
        using step(3) [OF False that] untouched_append [of bc c "usage ! c" b]
        by (auto simp: usage_ok_def)
    qed
    with step(2) [OF False] show ?thesis by (simp add: usage_ok_def)
  qed
qed

lemma program_ok_step:
  assumes "usage_ok bc usage" and gen: "gen_instr cfg t ins (length bc) usage = Some (b, usage')"
    and "program_ok (unat (ScratchpadL3_Size cfg)) bc" and "config_ok cfg"
  shows "program_ok (unat (ScratchpadL3_Size cfg)) (bc @ [b])"
proof -
  have ib: "ib_ok (unat (ScratchpadL3_Size cfg)) b" using gen_instr_ok [OF gen assms(4)] .
  have "b_target b = usage ! b_idst b" if "b_type b = CBRANCH"
    using gen_instr_usage [OF gen] assms(1) that by (auto simp: usage_ok_def)
  then have "branch_ok (bc @ [b]) (length bc)"
    using assms(1) ib by (auto simp: branch_ok_def usage_ok_def ib_ok_def untouched_prefix)
  moreover have "branch_ok (bc @ [b]) i = branch_ok bc i" if "i < length bc" for i
    using that by (simp add: branch_ok_def nth_append untouched_prefix)
  ultimately show ?thesis
    using assms(3) ib by (auto simp: program_ok_def nth_append less_Suc_eq)
qed

lemma compile_from_ok:
  assumes "compile_from cfg (length bc) inss usage = Some bs" and "usage_ok bc usage"
    and "program_ok (unat (ScratchpadL3_Size cfg)) bc" and "config_ok cfg"
  shows "program_ok (unat (ScratchpadL3_Size cfg)) (bc @ bs)"
  using assms
proof (induction inss arbitrary: bc usage bs)
  case (Cons ins inss)
  from Cons.prems(1) obtain t b usage' bs' where
    gen: "gen_instr cfg t ins (length bc) usage = Some (b, usage')"
    and rest: "compile_from cfg (length (bc @ [b])) inss usage' = Some bs'" and bs: "bs = b # bs'"
    by (auto simp: compileInstruction_def split: bind_splits)
  show ?case
    using Cons.IH [OF rest usage_ok_step [OF Cons.prems(2) gen]
        program_ok_step [OF Cons.prems(2) gen Cons.prems(3,4)] Cons.prems(4)]
    by (simp add: bs)
qed simp

lemma compileProgram_ok:
  assumes "config_ok cfg"
  obtains bc where "compileProgram cfg program = Some bc"
    and "program_ok (unat (ScratchpadL3_Size cfg)) bc"
    and "length bc = min (length program) (ProgramSize cfg)"
proof -
  obtain bc where bc: "compile_from cfg 0 (take (ProgramSize cfg) program) (replicate 8 (- 1)) = Some bc"
    "length bc = length (take (ProgramSize cfg) program)"
    using compile_from_total [OF assms] by blast
  have "program_ok (unat (ScratchpadL3_Size cfg)) ([] @ bc)"
    using bc(1) assms by (intro compile_from_ok) (auto simp: usage_ok_def untouched_def program_ok_def)
  with bc show thesis by (intro that) (auto simp: compileProgram_def)
qed

section \<open>The condition of a branch\<close>

text \<open>
  Modulo \<open>2^(b+8)\<close> the masked field is zero exactly when the register is below \<open>2^b\<close>.  The
  immediate is an odd multiple of \<open>2^b\<close> plus less than half of it.
\<close>

lemma mod_plus_range:
  fixes x y m N :: nat
  assumes "y = (x + m) mod N" and "x < K" and "m < N" and "K \<le> N"
  shows "y = x + m \<or> y + N = x + m"
proof (cases "x + m < N")
  case True
  then show ?thesis using assms by simp
next
  case False
  then have "(x + m) mod N = x + m - N" using assms by (simp add: mod_if)
  then show ?thesis using assms False by simp
qed

lemma branch_arith:
  fixes m K H N a l x1 x2 x3 :: nat
  assumes m: "m = a * K + l" and l: "l < H" and K: "K = 2 * H" and N: "N = 256 * K" and a: "1 \<le> a" "a < 256"
    and x2: "x2 = (x1 + m) mod N" and x3: "x3 = (x2 + m) mod N"
    and low: "x1 < K" "x2 < K"
  shows "\<not> x3 < K"
proof -
  have "a * K \<le> 255 * K" using a(2) by (intro mult_le_mono1) simp
  then have mN: "m < N" using m l K N by linarith
  have aK: "K \<le> a * K" using a(1) by simp
  have wrap: "x2 + N = x1 + m"
    using mod_plus_range [OF x2 low(1) mN] low(2) m aK N K l by linarith
  have "a = 255"
  proof (rule ccontr)
    assume "a \<noteq> 255"
    then have "a * K \<le> 254 * K" using a(2) by (intro mult_le_mono1) simp
    then show False using wrap m l low(1) K N by linarith
  qed
  then have m255: "m = 255 * K + l" using m by simp
  with wrap N K l low(1) have "x2 < H" by linarith
  then have "x2 + m < N" using m255 l N K by linarith
  then show ?thesis using x3 m255 K l by simp
qed

lemma field_zero_iff:
  fixes x :: u64
  assumes "s < 16"
  shows "x AND ucast (push_bit s ConditionMask_Calculated) = 0 \<longleftrightarrow> unat x mod 2 ^ (s + 16) < 2 ^ (s + 8)"
proof -
  have mask: "bit (ucast (push_bit s ConditionMask_Calculated) :: u64) n \<longleftrightarrow> s + 8 \<le> n \<and> n < s + 16" for n
  proof -
    have cm: "ConditionMask_Calculated = push_bit 8 (mask 8)"
      by (simp add: ConditionMask_Calculated_def mask_eq_exp_minus_1)
    have bits: "bit ConditionMask_Calculated k \<longleftrightarrow> 8 \<le> k \<and> k < 16" for k
      unfolding cm by (auto simp: bit_simps)
    show ?thesis
      unfolding bit_ucast_iff bit_push_bit_iff bits using assms by auto
  qed
  have "x AND ucast (push_bit s ConditionMask_Calculated) = 0 \<longleftrightarrow>
      (\<forall>n. s + 8 \<le> n \<and> n < s + 16 \<longrightarrow> \<not> bit x n)"
  proof -
    have "n < s + 16 \<Longrightarrow> n < 64" for n using assms by simp
    then show ?thesis
      unfolding bit_eq_iff [of _ "0 :: u64"] bit_and_iff mask by (auto simp: bit_simps)
  qed
  also have "\<dots> \<longleftrightarrow> take_bit (s + 16) x = take_bit (s + 8) x"
  proof -
    have "n < s + 16 \<Longrightarrow> n < 64" for n using assms by simp
    then show ?thesis
      unfolding bit_eq_iff [of "take_bit (s + 16) x"] bit_take_bit_iff by (auto simp: not_less) (meson not_le)
  qed
  also have "\<dots> \<longleftrightarrow> unat x mod 2 ^ (s + 16) = unat x mod 2 ^ (s + 8)"
    by (simp only: word_unat_eq_iff unsigned_take_bit_eq take_bit_eq_mod [where ?'a = nat])
  also have "\<dots> \<longleftrightarrow> unat x mod 2 ^ (s + 16) < 2 ^ (s + 8)"
  proof -
    have "unat x mod 2 ^ (s + 16) mod 2 ^ (s + 8) = unat x mod 2 ^ (s + 8)"
      by (simp add: mod_mod_cancel le_imp_power_dvd)
    then show ?thesis by (metis mod_less mod_less_divisor zero_less_numeral zero_less_power)
  qed
  finally show ?thesis .
qed

lemma branch_imm_form:
  fixes imm :: u64
  assumes "s < 16" and "bit imm (s + 8)" and "\<not> bit imm (s + 7)"
  obtains a l where "unat imm mod 2 ^ (s + 16) = a * 2 ^ (s + 8) + l" and "l < 2 ^ (s + 7)"
    and "1 \<le> a" and "a < 256"
proof
  define m where "m = unat imm mod 2 ^ (s + 16)"
  have bitm: "bit m n \<longleftrightarrow> n < s + 16 \<and> bit imm n" for n
    by (simp add: m_def bit_simps flip: take_bit_eq_mod)
  show "unat imm mod 2 ^ (s + 16) = m div 2 ^ (s + 8) * 2 ^ (s + 8) + m mod 2 ^ (s + 8)"
    unfolding m_def [symmetric] by (rule div_mult_mod_eq [symmetric])
  have "odd (m div 2 ^ (s + 8))" using bitm [of "s + 8"] assms by (simp add: bit_iff_odd)
  then show "1 \<le> m div 2 ^ (s + 8)" by (metis One_nat_def Suc_leI gr0I even_zero)
  have "m < 2 ^ (s + 16)" by (simp add: m_def)
  then show "m div 2 ^ (s + 8) < 256"
    by (simp add: less_mult_imp_div_less power_add)
  have "take_bit (s + 8) m = take_bit (s + 7) m"
  proof (rule bit_eqI)
    fix n
    show "bit (take_bit (s + 8) m) n \<longleftrightarrow> bit (take_bit (s + 7) m) n"
      using bitm [of "s + 7"] assms(3) by (cases "n = s + 7") (auto simp: bit_take_bit_iff)
  qed
  then show "m mod 2 ^ (s + 8) < 2 ^ (s + 7)"
    by (metis mod_less_divisor take_bit_eq_mod zero_less_numeral zero_less_power)
qed

lemma branch_at_most_twice:
  fixes x1 :: u64
  assumes "branch_consts b"
    and "x1 AND ucast (b_memMask b) = 0" and "(x1 + b_imm b) AND ucast (b_memMask b) = 0"
  shows "(x1 + b_imm b + b_imm b) AND ucast (b_memMask b) \<noteq> 0"
proof -
  from assms(1) obtain s where s: "s < 16" and mask: "b_memMask b = push_bit s ConditionMask_Calculated"
    and bits: "bit (b_imm b) (s + 8)" "\<not> bit (b_imm b) (s + 7)"
    by (auto simp: branch_consts_def)
  obtain a l where al: "unat (b_imm b) mod 2 ^ (s + 16) = a * 2 ^ (s + 8) + l" "l < 2 ^ (s + 7)"
    "1 \<le> a" "a < 256"
    using branch_imm_form [OF s bits] .
  have add: "unat (x + b_imm b) mod 2 ^ (s + 16) =
      (unat x mod 2 ^ (s + 16) + unat (b_imm b) mod 2 ^ (s + 16)) mod 2 ^ (s + 16)" for x
  proof -
    have "(2 :: nat) ^ (s + 16) dvd 2 ^ 64" using s by (intro le_imp_power_dvd) simp
    then show ?thesis by (simp add: unat_word_ariths mod_mod_cancel mod_add_eq)
  qed
  show ?thesis
    using branch_arith [OF al(1,2) _ _ al(3,4) add add, of x1] assms(2,3)
    by (simp add: mask field_zero_iff [OF s] power_add)
qed

section \<open>Execution\<close>

definition vmx_ok :: "nat \<Rightarrow> vmx \<Rightarrow> bool" where
  "vmx_ok L st \<longleftrightarrow> length (x_r st) = 8 \<and> length (x_f st) = 4 \<and> length (x_e st) = 4
     \<and> length (x_a st) = 4 \<and> length (x_sp st) = L"

lemma unat_and_mask_le: "unat (x AND ucast (m :: u32) :: u64) \<le> unat m"
proof -
  have "unat (x AND ucast m) \<le> unat (ucast m :: u64)"
    using word_and_le1 [of "x" "ucast m"] by (simp add: word_le_nat_alt)
  then show ?thesis by (simp add: unat_ucast_up)
qed

lemma getScratchpadAddress_le: "getScratchpadAddress b st \<le> unat (b_memMask b)"
proof -
  have "unat (ucast x :: u32) \<le> unat (x :: u64)" for x
    by (simp add: unsigned_ucast_eq take_bit_nat_less_eq_self)
  then show ?thesis
    unfolding getScratchpadAddress_def using unat_and_mask_le le_trans by blast
qed

lemma vmx_ok_set_idst [simp]: "vmx_ok L (set_idst b v st) = vmx_ok L st"
  by (simp add: vmx_ok_def set_idst_def)

lemma vmx_ok_set_fd [simp]: "vmx_ok L (set_fd d v st) = vmx_ok L st"
  by (cases d) (simp_all add: vmx_ok_def set_fd_def)

lemma x_r_set_fd [simp]: "x_r (set_fd d v st) = x_r st"
  by (cases d) (simp_all add: set_fd_def)

lemma x_a_set [simp]: "x_a (set_fd d v st) = x_a st" "x_a (set_idst b w st) = x_a st"
  by (cases d) (simp_all add: set_fd_def set_idst_def)

lemma x_r_set_idst: "c \<noteq> b_idst b \<Longrightarrow> x_r (set_idst b v st) ! c = x_r st ! c"
  by (simp add: set_idst_def)

text \<open>What an instruction without a jump guarantees.\<close>

definition step_ok :: "nat \<Rightarrow> ibc \<Rightarrow> vmx \<Rightarrow> vmx option \<Rightarrow> bool" where
  "step_ok L b st res \<longleftrightarrow> (\<exists>st'. res = Some st' \<and> vmx_ok L st' \<and> x_a st' = x_a st
     \<and> (\<forall>c. c \<notin> writes_int b \<longrightarrow> x_r st' ! c = x_r st ! c))"

lemma step_ok_kinds:
  assumes "vmx_ok L st"
  shows "b_idst b \<in> writes_int b \<Longrightarrow> step_ok L b st (exe_int op b st)"
    and "b_idst b \<in> writes_int b \<Longrightarrow> unat (b_memMask b) + 8 \<le> L \<Longrightarrow> step_ok L b st (exe_int_mem op b st)"
    and "step_ok L b st (exe_flt op b st)"
    and "unat (b_memMask b) + 8 \<le> L \<Longrightarrow> step_ok L b st (exe_flt_mem fp op tr b st)"
    and "step_ok L b st (Some (set_fd d v st))"
    and "unat (b_memMask b) + 8 \<le> L \<Longrightarrow> step_ok L b st (exe_ISTORE b st)"
    and "step_ok L b st (exe_CFROUND b st)"
    and "step_ok L b st (Some st)"
    and "b_type b = ISWAP_R \<Longrightarrow> step_ok L b st (exe_ISWAP_R b st)"
  using assms getScratchpadAddress_le [of b st] unat_and_mask_le [of "x_r st ! b_idst b + b_imm b" "b_memMask b"]
  by (auto simp: step_ok_def exe_int_def exe_int_mem_def exe_flt_def exe_flt_mem_def exe_ISTORE_def
      exe_CFROUND_def exe_ISWAP_R_def sp_load64_def sp_cvt_def sp_store64_def vmx_ok_def Let_def
      set_idst_def nth_list_update set_fd_def writes_int_def split: int_src.splits flt_dst.splits)

lemma exe_plain_ok:
  assumes "ib_ok L b" and "vmx_ok L st" and "b_type b \<noteq> CBRANCH"
  shows "step_ok L b st (exe_plain fp eMask b st)"
  using assms(1,3) step_ok_kinds [OF assms(2), of b]
  by (cases "b_type b") (simp_all add: exe_plain_def ib_ok_def mem_types_def writes_int_def)

lemma exec_from_plain:
  assumes "ib_ok L (bc ! p)" and "vmx_ok L st" and "p < length bc" and "b_type (bc ! p) \<noteq> CBRANCH"
  obtains st' where "vmx_ok L st'" and "x_a st' = x_a st"
    and "\<And>c. c \<notin> writes_int (bc ! p) \<Longrightarrow> x_r st' ! c = x_r st ! c"
    and "exec_bytecode_from fp eMask bc (int p) st = exec_bytecode_from fp eMask bc (int (Suc p)) st'"
proof -
  obtain st' where st': "exe_plain fp eMask (bc ! p) st = Some st'" "vmx_ok L st'" "x_a st' = x_a st"
    "\<And>c. c \<notin> writes_int (bc ! p) \<Longrightarrow> x_r st' ! c = x_r st ! c"
    using exe_plain_ok [OF assms(1,2,4), of fp eMask] unfolding step_ok_def by blast
  show thesis
    using assms(3,4) st'(1)
    by (intro that [OF st'(2-4)])
      (simp_all add: executeInstruction_def exec_bytecode_from.simps [of _ _ _ "int p"] add.commute)
qed

text \<open>A stretch without branches leads to its end and keeps a register it does not write.\<close>

lemma exec_from_stretch:
  assumes "program_ok L bc" and "q + k < length bc" and "vmx_ok L st"
    and "\<And>j. q \<le> j \<Longrightarrow> j < q + k \<Longrightarrow> b_type (bc ! j) \<noteq> CBRANCH \<and> c \<notin> writes_int (bc ! j)"
  shows "\<exists>st'. vmx_ok L st' \<and> x_a st' = x_a st \<and> x_r st' ! c = x_r st ! c
    \<and> exec_bytecode_from fp eMask bc (int q) st = exec_bytecode_from fp eMask bc (int (q + k)) st'"
  using assms(2-)
proof (induction k arbitrary: q st)
  case (Suc k)
  have q: "q < length bc" "ib_ok L (bc ! q)" using Suc.prems assms(1) by (auto simp: program_ok_def)
  have plain: "b_type (bc ! q) \<noteq> CBRANCH" "c \<notin> writes_int (bc ! q)" using Suc.prems(3) by auto
  obtain s1 where s1: "vmx_ok L s1" "x_a s1 = x_a st" "x_r s1 ! c = x_r st ! c"
    "exec_bytecode_from fp eMask bc (int q) st = exec_bytecode_from fp eMask bc (int (Suc q)) s1"
    using exec_from_plain [OF q(2) Suc.prems(2) q(1) plain(1)] plain(2) by metis
  obtain s2 where "vmx_ok L s2" "x_a s2 = x_a s1" "x_r s2 ! c = x_r s1 ! c"
    "exec_bytecode_from fp eMask bc (int (Suc q)) s1 = exec_bytecode_from fp eMask bc (int (Suc q + k)) s2"
    using Suc.IH [of "Suc q" s1] Suc.prems s1(1) by (auto simp del: of_nat_Suc)
  with s1 show ?case by (intro exI [of _ s2]) simp
qed auto

text \<open>A branch that is taken comes back to itself, its register changed by the immediate only.\<close>

lemma exec_from_branch_back:
  assumes "program_ok L bc" and "p < length bc" and "b_type (bc ! p) = CBRANCH" and "vmx_ok L st"
    and taken: "(x_r st ! b_idst (bc ! p) + b_imm (bc ! p)) AND ucast (b_memMask (bc ! p)) = 0"
  obtains st' where "vmx_ok L st'" and "x_a st' = x_a st"
    and "x_r st' ! b_idst (bc ! p) = x_r st ! b_idst (bc ! p) + b_imm (bc ! p)"
    and "exec_bytecode_from fp eMask bc (int p) st = exec_bytecode_from fp eMask bc (int p) st'"
proof -
  let ?b = "bc ! p"
  let ?s1 = "set_idst ?b (x_r st ! b_idst ?b + b_imm ?b) st"
  have ok: "b_idst ?b < 8" "branch_ok bc p" using assms(1,2) by (auto simp: program_ok_def ib_ok_def)
  define q where "q = nat (b_target ?b + 1)"
  have q: "b_target ?b + 1 = int q" "q \<le> p" using ok(2) assms(3) by (auto simp: q_def branch_ok_def)
  have "exec_bytecode_from fp eMask bc (int p) st = exec_bytecode_from fp eMask bc (int q) ?s1"
    using assms(2,3) taken q(1)
    by (simp add: executeInstruction_def exe_CBRANCH_def exec_bytecode_from.simps [of _ _ _ "int p"] Let_def)
  moreover obtain s2 where s2: "vmx_ok L s2" "x_a s2 = x_a ?s1"
      "x_r s2 ! b_idst ?b = x_r ?s1 ! b_idst ?b"
      "exec_bytecode_from fp eMask bc (int q) ?s1 = exec_bytecode_from fp eMask bc (int (q + (p - q))) s2"
  proof -
    have "b_type (bc ! j) \<noteq> CBRANCH \<and> b_idst ?b \<notin> writes_int (bc ! j)" if "q \<le> j" "j < q + (p - q)" for j
      using that ok(2) assms(3) q by (auto simp: branch_ok_def untouched_def)
    then show thesis
      using exec_from_stretch [OF assms(1), of q "p - q" ?s1 "b_idst ?b" fp eMask] assms(2,4) q(2) that
      by auto
  qed
  moreover have "x_r ?s1 ! b_idst ?b = x_r st ! b_idst ?b + b_imm ?b"
    using ok(1) assms(4) by (simp add: set_idst_def vmx_ok_def)
  ultimately show thesis using q(2) by (intro that [of s2]) simp_all
qed

definition branch_stops :: "ibc \<Rightarrow> vmx \<Rightarrow> bool" where
  "branch_stops b s \<longleftrightarrow> (x_r s ! b_idst b + b_imm b) AND ucast (b_memMask b) \<noteq> 0"

text \<open>After at most two jumps the branch is reached in a state in which it is not taken.\<close>

lemma exec_from_branch:
  assumes "program_ok L bc" and "p < length bc" and "b_type (bc ! p) = CBRANCH" and "vmx_ok L st"
  shows "\<exists>st'. vmx_ok L st' \<and> x_a st' = x_a st \<and> branch_stops (bc ! p) st'
    \<and> exec_bytecode_from fp eMask bc (int p) st = exec_bytecode_from fp eMask bc (int p) st'"
proof -
  let ?b = "bc ! p"
  have cst: "branch_consts ?b" using assms(1-3) by (simp add: program_ok_def ib_ok_def)
  have again: "\<exists>s'. vmx_ok L s' \<and> x_a s' = x_a s \<and> x_r s' ! b_idst ?b = x_r s ! b_idst ?b + b_imm ?b
      \<and> exec_bytecode_from fp eMask bc (int p) s = exec_bytecode_from fp eMask bc (int p) s'"
    if "vmx_ok L s" "\<not> branch_stops ?b s" for s
    using exec_from_branch_back [OF assms(1-3) that(1)] that(2) unfolding branch_stops_def by metis
  show ?thesis
  proof (cases "branch_stops ?b st")
    case True
    then show ?thesis using assms(4) by blast
  next
    case False
    then obtain s1 where s1: "vmx_ok L s1" "x_a s1 = x_a st"
      "x_r s1 ! b_idst ?b = x_r st ! b_idst ?b + b_imm ?b"
      "exec_bytecode_from fp eMask bc (int p) st = exec_bytecode_from fp eMask bc (int p) s1"
      using again assms(4) by blast
    show ?thesis
    proof (cases "branch_stops ?b s1")
      case True
      then show ?thesis using s1 by metis
    next
      case s1_again: False
      then obtain s2 where s2: "vmx_ok L s2" "x_a s2 = x_a s1"
        "x_r s2 ! b_idst ?b = x_r s1 ! b_idst ?b + b_imm ?b"
        "exec_bytecode_from fp eMask bc (int p) s1 = exec_bytecode_from fp eMask bc (int p) s2"
        using again s1(1) by blast
      have "branch_stops ?b s2"
        using branch_at_most_twice [OF cst, of "x_r s1 ! b_idst ?b"] False s1(3) s1_again s2(3)
        by (simp add: branch_stops_def)
      then show ?thesis using s1 s2 by metis
    qed
  qed
qed

lemma exec_from_total:
  assumes "program_ok L bc" and "p \<le> length bc" and "vmx_ok L st"
  shows "\<exists>st'. exec_bytecode_from fp eMask bc (int p) st = Some st' \<and> vmx_ok L st' \<and> x_a st' = x_a st"
  using assms(2,3)
proof (induction "length bc - p" arbitrary: p st rule: less_induct)
  case less
  show ?case
  proof (cases "p < length bc")
    case False
    then show ?thesis using less.prems by (subst exec_bytecode_from.simps) simp
  next
    case p: True
    let ?b = "bc ! p"
    have ok: "ib_ok L ?b" using assms(1) p by (simp add: program_ok_def)
    have onward: "\<exists>st'. exec_bytecode_from fp eMask bc (int (Suc p)) s = Some st' \<and> vmx_ok L st' \<and> x_a st' = x_a s"
      if "vmx_ok L s" for s
      using less.hyps [of "Suc p" s] p that by simp
    show ?thesis
    proof (cases "b_type ?b = CBRANCH")
      case False
      then obtain s1 where "vmx_ok L s1" "x_a s1 = x_a st"
        "exec_bytecode_from fp eMask bc (int p) st = exec_bytecode_from fp eMask bc (int (Suc p)) s1"
        using exec_from_plain [OF ok less.prems(2) p] by metis
      then show ?thesis using onward by metis
    next
      case br: True
      obtain s1 where s1: "vmx_ok L s1" "x_a s1 = x_a st" "branch_stops ?b s1"
        "exec_bytecode_from fp eMask bc (int p) st = exec_bytecode_from fp eMask bc (int p) s1"
        using exec_from_branch [OF assms(1) p br less.prems(2)] by blast
      have "exec_bytecode_from fp eMask bc (int p) s1 = exec_bytecode_from fp eMask bc (int (Suc p))
          (set_idst ?b (x_r s1 ! b_idst ?b + b_imm ?b) s1)"
        using s1(3) p br
        by (subst exec_bytecode_from.simps)
          (simp add: branch_stops_def executeInstruction_def exe_CBRANCH_def Let_def add.commute)
      then show ?thesis using onward [of "set_idst ?b (x_r s1 ! b_idst ?b + b_imm ?b) s1"] s1 by simp
    qed
  qed
qed

lemma compiled_program_runs:
  assumes "config_ok cfg" and "vmx_ok (unat (ScratchpadL3_Size cfg)) st"
  obtains bc st' where "compileProgram cfg program = Some bc" and "executeBytecode fp eMask bc st = Some st'"
    and "vmx_ok (unat (ScratchpadL3_Size cfg)) st'" and "x_a st' = x_a st"
    and "length bc = min (length program) (ProgramSize cfg)"
proof -
  obtain bc where bc: "compileProgram cfg program = Some bc" "program_ok (unat (ScratchpadL3_Size cfg)) bc"
    "length bc = min (length program) (ProgramSize cfg)"
    using compileProgram_ok [OF assms(1)] .
  show thesis
    using exec_from_total [OF bc(2) _ assms(2), of 0 fp eMask] that [OF bc(1)] bc(3)
    by (auto simp: executeBytecode_def)
qed

section \<open>Properties\<close>

text \<open>C8: every program, of any 256-opcode instructions, compiles in every RandomX variant and its
  execution ends, without an access outside the scratchpad: the jump targets and the constants of
  \<open>CBRANCH\<close> rule out an endless loop, the address masks an access beyond the last word.  The
  registers keep their number and the group a its values.\<close>

theorem rx_program_terminates:
  assumes "cfg \<in> set rx_variants" and "vmx_ok (unat (ScratchpadL3_Size cfg)) st"
  shows "\<exists>bc st'. compileProgram cfg program = Some bc \<and> executeBytecode fp eMask bc st = Some st'
    \<and> vmx_ok (unat (ScratchpadL3_Size cfg)) st' \<and> x_a st' = x_a st"
  using compiled_program_runs [OF rx_variants_ok [OF assms(1)] assms(2)] by metis

theorem rx_program_terminates_witness:
  "\<exists>bc st'. compileProgram RandomX_ConfigurationScala
      (replicate 64 \<lparr>i_opcode = 224, i_dst = 3, i_src = 1, i_mod = 0, i_imm32 = 0xff\<rparr>) = Some bc
    \<and> executeBytecode \<lparr>fp_add = \<lambda>_. (+), fp_sub = \<lambda>_. (-), fp_mul = \<lambda>_. (*), fp_div = \<lambda>_. (div),
        fp_sqrt = \<lambda>_ x. x, fp_cvt = ucast\<rparr> (0, 0) bc
        \<lparr>x_r = replicate 8 0, x_f = replicate 4 (0, 0), x_e = replicate 4 (0, 0), x_a = replicate 4 (1, 2),
         x_sp = replicate 262144 0, x_rm = 0\<rparr> = Some st'
    \<and> vmx_ok (unat (ScratchpadL3_Size RandomX_ConfigurationScala)) st' \<and> x_a st' = replicate 4 (1, 2)"
  using rx_program_terminates [of RandomX_ConfigurationScala
      "\<lparr>x_r = replicate 8 0, x_f = replicate 4 (0, 0), x_e = replicate 4 (0, 0), x_a = replicate 4 (1, 2),
         x_sp = replicate 262144 0, x_rm = 0\<rparr>"]
  by (simp add: vmx_ok_def rx_variants_def RandomX_ConfigurationScala_def RandomX_ConfigurationBase_def)

end
