(* ===== verification/Rx_Vm.thy ===== *)
theory Rx_Vm
  imports Rx_Terminate Rx_Algo Aes_Hash Blake2b
begin

text \<open>
  The RandomX virtual machine: \<open>crypto/randomx/virtual_machine.cpp\<close>, \<open>program.hpp\<close> and
  \<open>vm_interpreted.cpp\<close>.  \<open>run\<close> generates a program from a 64-byte seed, derives the machine's
  configuration from the first 128 bytes, compiles the rest and executes it
  \<open>ProgramIterations\<close> times against the scratchpad and the dataset.  The round functions of the
  processor's AES unit (\<open>enc\<close>, \<open>dec\<close>) and its floating-point unit (\<open>fp\<close>) are arguments; the
  dataset is a function from addresses to bytes with the size \<open>RxInstance::init\<close> allocates.
\<close>

section \<open>State\<close>

text \<open>
  \<open>hw\<close> collects what the model takes from outside: the AES rounds, the floating-point unit, the
  content of the dataset.
\<close>

record hw =
  h_enc :: aes_round
  h_dec :: aes_round
  h_fpu :: fpu
  h_dataset :: "nat \<Rightarrow> u8"

record vm =
  v_r :: "u64 list"
  v_f :: "f128 list"
  v_e :: "f128 list"
  v_a :: "f128 list"
  v_sp :: bytes
  v_rm :: nat
  v_mx :: u32
  v_ma :: u32
  v_eMask :: f128
  v_readReg :: "nat list"
  v_datasetOffset :: u64

text \<open>The configuration \<open>RxInstance::applyAlgoConfig\<close> selects.\<close>

fun applyAlgoConfig :: "RxAlgo \<Rightarrow> rx_config" where
  "applyAlgoConfig RX_0 = RandomX_ConfigurationMonero"
| "applyAlgoConfig RX_WOW = RandomX_ConfigurationWownero"
| "applyAlgoConfig RX_ARQ = RandomX_ConfigurationArqma"
| "applyAlgoConfig RX_XEQ = RandomX_ConfigurationEquilibria"
| "applyAlgoConfig RX_GRAFT = RandomX_ConfigurationGraft"
| "applyAlgoConfig RX_SFX = RandomX_ConfigurationSafex"
| "applyAlgoConfig RX_XLA = RandomX_ConfigurationScala"

lemma applyAlgoConfig_ok: "config_ok (applyAlgoConfig algo)"
  by (rule rx_variants_ok, cases algo) (simp_all add: rx_variants_def)

section \<open>Lines and bytes\<close>

definition line_bytes :: "line \<Rightarrow> bytes" where
  "line_bytes ln = (case ln of (a, b, c, d) \<Rightarrow> vec_bytes a @ vec_bytes b @ vec_bytes c @ vec_bytes d)"

definition bytes_vec :: "bytes \<Rightarrow> vec128" where
  "bytes_vec bs = Vec (load32 bs) (load32 (drop 4 bs)) (load32 (drop 8 bs)) (load32 (drop 12 bs))"

definition bytes_line :: "bytes \<Rightarrow> line" where
  "bytes_line bs =
     (bytes_vec bs, bytes_vec (drop 16 bs), bytes_vec (drop 32 bs), bytes_vec (drop 48 bs))"

definition bytes_lines :: "bytes \<Rightarrow> line list" where
  "bytes_lines bs = map (\<lambda>i. bytes_line (drop (64 * i) bs)) [0..<length bs div 64]"

definition lines_bytes :: "line list \<Rightarrow> bytes" where
  "lines_bytes lns = concat (map line_bytes lns)"

section \<open>Initialisation of the machine\<close>

definition getSmallPositiveFloatBits :: "u64 \<Rightarrow> u64" where
  "getSmallPositiveFloatBits entropy =
     (let mantissa = entropy AND (push_bit 52 1 - 1);
          exponent = (drop_bit 59 entropy + 1023) AND (push_bit 11 1 - 1)
      in push_bit 52 exponent OR mantissa)"

definition getStaticExponent :: "u64 \<Rightarrow> u64" where
  "getStaticExponent entropy = push_bit 52 (0x300 OR push_bit 4 (drop_bit (64 - 4) entropy))"

definition getFloatMask :: "u64 \<Rightarrow> u64" where
  "getFloatMask entropy = (entropy AND (push_bit 22 1 - 1)) OR getStaticExponent entropy"

definition initialize :: "rx_config \<Rightarrow> u64 list \<Rightarrow> vm \<Rightarrow> vm" where
  "initialize cfg ent vm =
     (let addressRegisters = ent ! 12 in
      vm\<lparr>v_a := map (\<lambda>i. (getSmallPositiveFloatBits (ent ! (2 * i)),
                          getSmallPositiveFloatBits (ent ! (2 * i + 1)))) [0..<4],
         v_ma := ucast (ent ! 8 AND ucast (CacheLineAlignMask_Calculated cfg)),
         v_mx := ucast (ent ! 10),
         v_readReg := [0 + unat (addressRegisters AND 1), 2 + unat (drop_bit 1 addressRegisters AND 1),
                       4 + unat (drop_bit 2 addressRegisters AND 1),
                       6 + unat (drop_bit 3 addressRegisters AND 1)],
         v_datasetOffset := (ent ! 13 mod of_nat (DatasetExtraItems_Calculated + 1)) * 64,
         v_eMask := (getFloatMask (ent ! 14), getFloatMask (ent ! 15))\<rparr>)"

text \<open>\<open>generateProgram(seed)\<close>: 128 bytes of entropy, then eight bytes per instruction.\<close>

definition instr_of_bytes :: "bytes \<Rightarrow> rx_instr" where
  "instr_of_bytes bs = \<lparr>i_opcode = bs ! 0, i_dst = bs ! 1, i_src = bs ! 2, i_mod = bs ! 3,
     i_imm32 = load32 (drop 4 bs)\<rparr>"

definition generateProgram :: "hw \<Rightarrow> rx_config \<Rightarrow> line \<Rightarrow> u64 list \<times> rx_instr list" where
  "generateProgram hw cfg seed =
     (let image = lines_bytes (fillAes4Rx4 (h_enc hw) (h_dec hw) (fillAes4Rx4_Key cfg) seed
            ((128 + ProgramSize cfg * 8) div 64))
      in (map (\<lambda>i. load64 (drop (8 * i) image)) [0..<16],
          map (\<lambda>i. instr_of_bytes (drop (128 + 8 * i) image)) [0..<ProgramSize cfg]))"

section \<open>The main loop\<close>

definition dataset_size :: "rx_config \<Rightarrow> nat" where
  "dataset_size cfg = unat (DatasetBaseSize cfg) + DatasetExtraSize"

definition datasetRead :: "hw \<Rightarrow> rx_config \<Rightarrow> nat \<Rightarrow> u64 list \<Rightarrow> u64 list option" where
  "datasetRead hw cfg a r =
     (if a + 64 \<le> dataset_size cfg
      then Some (map (\<lambda>i. r ! i XOR load64 (map (h_dataset hw) [a + 8 * i..<a + 8 * i + 8])) [0..<8])
      else None)"

type_synonym dataset_reader = "nat \<Rightarrow> u64 list \<Rightarrow> u64 list option"

text \<open>The three loops that fill registers from the scratchpad, and the two that store them.\<close>

fun opt_all :: "'a option list \<Rightarrow> 'a list option" where
  "opt_all [] = Some []"
| "opt_all (x # xs) = do { y \<leftarrow> x; ys \<leftarrow> opt_all xs; Some (y # ys) }"

definition load_r :: "bytes \<Rightarrow> nat \<Rightarrow> u64 list \<Rightarrow> u64 list option" where
  "load_r sp a r = opt_all (map (\<lambda>i. map_option (\<lambda>v. r ! i XOR v) (sp_load64 sp (a + 8 * i))) [0..<8])"

definition load_f :: "fpu \<Rightarrow> bytes \<Rightarrow> nat \<Rightarrow> f128 list option" where
  "load_f fp sp a = opt_all (map (\<lambda>i. sp_cvt fp sp (a + 8 * i)) [0..<4])"

fun store_words :: "bytes \<Rightarrow> nat \<Rightarrow> u64 list \<Rightarrow> bytes option" where
  "store_words sp a [] = Some sp"
| "store_words sp a (w # ws) = do { sp' \<leftarrow> sp_store64 sp a w; store_words sp' (a + 8) ws }"

definition f128_words :: "f128 list \<Rightarrow> u64 list" where
  "f128_words vs = concat (map (\<lambda>v. [fst v, snd v]) vs)"

text \<open>
  One iteration of \<open>execute\<close>; \<open>rd\<close> is the virtual method \<open>datasetRead\<close>, which the full and the
  light machine implement differently; \<open>s0\<close> and \<open>s1\<close> are \<open>spAddr0\<close> and \<open>spAddr1\<close> before it (both are 0
  after it), \<open>x\<close> holds the native registers, the scratchpad and the rounding mode.
\<close>

definition vm_iteration ::
  "dataset_reader \<Rightarrow> hw \<Rightarrow> rx_config \<Rightarrow> ibc list \<Rightarrow> vm \<Rightarrow> u32 \<Rightarrow> u32 \<Rightarrow> u32 \<times> u32 \<times> vmx \<Rightarrow> (u32 \<times> u32 \<times> vmx) option" where
  "vm_iteration rd hw cfg bc vm s0 s1 st =
     (case st of (mx, ma, x) \<Rightarrow>
      let rr = v_readReg vm;
          spMix = x_r x ! (rr ! 0) XOR x_r x ! (rr ! 1);
          spAddr0 = unat ((s0 XOR ucast spMix) AND ScratchpadL3Mask64_Calculated cfg);
          spAddr1 = unat ((s1 XOR ucast (drop_bit 32 spMix)) AND ScratchpadL3Mask64_Calculated cfg)
      in do {
        r1 \<leftarrow> load_r (x_sp x) spAddr0 (x_r x);
        f1 \<leftarrow> load_f (h_fpu hw) (x_sp x) spAddr1;
        e1 \<leftarrow> load_f (h_fpu hw) (x_sp x) (spAddr1 + 32);
        x2 \<leftarrow> executeBytecode (h_fpu hw) (v_eMask vm) bc
               (x\<lparr>x_r := r1, x_f := f1, x_e := map (maskRegisterExponentMantissa (v_eMask vm)) e1\<rparr>);
        let mx' = (mx XOR ucast (x_r x2 ! (rr ! 2) XOR x_r x2 ! (rr ! 3)))
                    AND CacheLineAlignMask_Calculated cfg;
        r3 \<leftarrow> rd (unat (v_datasetOffset vm + ucast ma)) (x_r x2);
        sp3 \<leftarrow> store_words (x_sp x2) spAddr1 r3;
        let f3 = map2 (lanes2 (XOR)) (x_f x2) (x_e x2);
        sp4 \<leftarrow> store_words sp3 spAddr0 (f128_words f3);
        Some (ma, mx', x2\<lparr>x_r := r3, x_f := f3, x_sp := sp4\<rparr>)
      })"

fun vm_loop ::
  "dataset_reader \<Rightarrow> hw \<Rightarrow> rx_config \<Rightarrow> ibc list \<Rightarrow> vm \<Rightarrow> nat \<Rightarrow> u32 \<Rightarrow> u32 \<Rightarrow> u32 \<times> u32 \<times> vmx \<Rightarrow> (u32 \<times> u32 \<times> vmx) option" where
  "vm_loop rd hw cfg bc vm 0 s0 s1 st = Some st"
| "vm_loop rd hw cfg bc vm (Suc n) s0 s1 st =
     do { st' \<leftarrow> vm_iteration rd hw cfg bc vm s0 s1 st; vm_loop rd hw cfg bc vm n 0 0 st' }"

definition vm_execute :: "dataset_reader \<Rightarrow> hw \<Rightarrow> rx_config \<Rightarrow> rx_instr list \<Rightarrow> vm \<Rightarrow> vm option" where
  "vm_execute rd hw cfg program vm =
     do { bc \<leftarrow> compileProgram cfg program;
          (mx, ma, x) \<leftarrow> vm_loop rd hw cfg bc vm (ProgramIterations cfg) (v_mx vm) (v_ma vm)
            (v_mx vm, v_ma vm, \<lparr>x_r = replicate 8 0, x_f = replicate 4 (0, 0), x_e = replicate 4 (0, 0),
              x_a = v_a vm, x_sp = v_sp vm, x_rm = v_rm vm\<rparr>);
          Some (vm\<lparr>v_r := x_r x, v_f := x_f x, v_e := x_e x, v_sp := x_sp x, v_rm := x_rm x,
                   v_mx := mx, v_ma := ma\<rparr>) }"

definition vm_run_with :: "dataset_reader \<Rightarrow> hw \<Rightarrow> rx_config \<Rightarrow> vm \<Rightarrow> line \<Rightarrow> vm option" where
  "vm_run_with rd hw cfg vm seed =
     (let (ent, program) = generateProgram hw cfg seed
      in vm_execute rd hw cfg program (initialize cfg ent vm))"

definition vm_run :: "hw \<Rightarrow> rx_config \<Rightarrow> vm \<Rightarrow> line \<Rightarrow> vm option" where
  "vm_run hw cfg = vm_run_with (datasetRead hw cfg) hw cfg"

section \<open>The machine never faults and always returns\<close>

lemma opt_all_total:
  "(\<And>x. x \<in> set xs \<Longrightarrow> x \<noteq> None) \<Longrightarrow> \<exists>ys. opt_all xs = Some ys \<and> length ys = length xs"
proof (induction xs)
  case (Cons x xs)
  then obtain ys where "opt_all xs = Some ys" "length ys = length xs" by auto
  with Cons.prems [of x] show ?case by auto
qed simp

lemma load_r_total:
  "a + 64 \<le> length sp \<Longrightarrow> \<exists>r'. load_r sp a r = Some r' \<and> length r' = 8"
  using opt_all_total [of "map (\<lambda>i. map_option (\<lambda>v. r ! i XOR v) (sp_load64 sp (a + 8 * i))) [0..<8]"]
  by (auto simp: load_r_def sp_load64_def)

lemma load_f_total:
  "a + 32 \<le> length sp \<Longrightarrow> \<exists>f'. load_f fp sp a = Some f' \<and> length f' = 4"
  using opt_all_total [of "map (\<lambda>i. sp_cvt fp sp (a + 8 * i)) [0..<4]"]
  by (auto simp: load_f_def sp_cvt_def)

lemma store_words_total:
  "a + 8 * length ws \<le> length sp \<Longrightarrow> \<exists>sp'. store_words sp a ws = Some sp' \<and> length sp' = length sp"
proof (induction ws arbitrary: sp a)
  case (Cons w ws)
  then show ?case
    using Cons.IH [of "a + 8" "memcpy_at sp a (store64 w) 8"] by (simp add: sp_store64_def)
qed simp

lemma length_f128_words [simp]: "length (f128_words vs) = 2 * length vs"
  by (induction vs) (simp_all add: f128_words_def)

lemma datasetRead_total:
  "a + 64 \<le> dataset_size cfg \<Longrightarrow> \<exists>r'. datasetRead hw cfg a r = Some r' \<and> length r' = 8"
  by (simp add: datasetRead_def)

lemma unat_and_le: "unat (x AND m) \<le> unat m" for m :: "'a::len word"
  using word_and_le1 [of x m] by (simp add: word_le_nat_alt)

text \<open>What holds of \<open>(mx, ma, x)\<close> between two iterations.\<close>

definition loop_ok :: "rx_config \<Rightarrow> u32 \<times> u32 \<times> vmx \<Rightarrow> bool" where
  "loop_ok cfg st \<longleftrightarrow> (case st of (mx, ma, x) \<Rightarrow>
     vmx_ok (unat (ScratchpadL3_Size cfg)) x \<and> unat ma + 64 \<le> unat (DatasetBaseSize cfg) \<and> 64 dvd unat ma)"

lemma aligned_and: "64 dvd unat (x AND NOT 63)" for x :: u32
proof -
  have m: "(63 :: u32) = mask 6" by (simp add: mask_eq_exp_minus_1)
  have "x AND NOT 63 = push_bit 6 (drop_bit 6 x)"
    unfolding m by (rule bit_word_eqI) (auto simp: bit_simps)
  moreover have "64 dvd a * 2 ^ 6 mod 2 ^ LENGTH(32)" for a :: nat by (rule dvd_mod) simp_all
  ultimately show ?thesis by (simp only: unat_push_bit_mod)
qed

lemma masked_address:
  assumes "config_ok cfg"
  shows "unat (x AND CacheLineAlignMask_Calculated cfg) + 64 \<le> unat (DatasetBaseSize cfg)"
    and "64 dvd unat (x AND CacheLineAlignMask_Calculated cfg)"
proof -
  show "unat (x AND CacheLineAlignMask_Calculated cfg) + 64 \<le> unat (DatasetBaseSize cfg)"
    using assms unat_and_le [of x "CacheLineAlignMask_Calculated cfg"] unfolding config_ok_def
    by (metis add_le_mono1)
  show "64 dvd unat (x AND CacheLineAlignMask_Calculated cfg)"
    using aligned_and [of "x AND (DatasetBaseSize cfg - 1)"]
    by (simp add: CacheLineAlignMask_Calculated_def and.assoc)
qed

lemma dataset_address:
  fixes off :: u64 and ma :: u32
  assumes "unat off \<le> DatasetExtraSize" and "64 dvd unat off"
    and "unat ma + 64 \<le> unat (DatasetBaseSize cfg)" and "64 dvd unat ma"
  shows "64 dvd unat (off + ucast ma)" and "unat (off + ucast ma) + 64 \<le> dataset_size cfg"
proof -
  have "unat off + unat ma < 2 ^ 64"
    using assms(1) unat_lt_2p [of ma] by simp
  then have "unat (off + ucast ma) = unat off + unat ma" by (simp add: unat_add_small unat_ucast_up)
  then show "64 dvd unat (off + ucast ma)" and "unat (off + ucast ma) + 64 \<le> dataset_size cfg"
    using assms by (simp_all add: dataset_size_def)
qed

text \<open>
  The contract of a reader: it succeeds on every cache line of the dataset.
\<close>

definition reader_ok :: "rx_config \<Rightarrow> dataset_reader \<Rightarrow> bool" where
  "reader_ok cfg rd \<longleftrightarrow> (\<forall>a r. 64 dvd a \<and> a + 64 \<le> dataset_size cfg \<longrightarrow> (\<exists>r'. rd a r = Some r' \<and> length r' = 8))"

lemma reader_okD: "reader_ok cfg rd \<Longrightarrow> 64 dvd a \<Longrightarrow> a + 64 \<le> dataset_size cfg \<Longrightarrow> \<exists>r'. rd a r = Some r' \<and> length r' = 8"
  by (auto simp: reader_ok_def)

lemma datasetRead_reader: "reader_ok cfg (datasetRead hw cfg)"
  by (auto simp: reader_ok_def intro: datasetRead_total)

lemma vm_iteration_total:
  assumes cfg: "config_ok cfg" and bc: "program_ok (unat (ScratchpadL3_Size cfg)) bc"
    and off: "unat (v_datasetOffset vm) \<le> DatasetExtraSize" "64 dvd unat (v_datasetOffset vm)"
    and st: "loop_ok cfg (mx, ma, x)" and rd: "reader_ok cfg rd"
  shows "\<exists>st'. vm_iteration rd hw cfg bc vm s0 s1 (mx, ma, x) = Some st' \<and> loop_ok cfg st'
    \<and> x_a (snd (snd st')) = x_a x"
proof -
  let ?L = "unat (ScratchpadL3_Size cfg)" and ?M = "ScratchpadL3Mask64_Calculated cfg"
  let ?rr = "v_readReg vm"
  define spMix where "spMix = x_r x ! (?rr ! 0) XOR x_r x ! (?rr ! 1)"
  define A0 A1 where "A0 = unat ((s0 XOR ucast spMix) AND ?M)"
    and "A1 = unat ((s1 XOR ucast (drop_bit 32 spMix)) AND ?M)"
  have x: "vmx_ok ?L x" and ma: "unat ma + 64 \<le> unat (DatasetBaseSize cfg)" "64 dvd unat ma"
    using st by (simp_all add: loop_ok_def)
  have M: "unat ?M + 64 = ?L" using cfg by (simp add: config_ok_def)
  have A: "A0 + 64 \<le> ?L" "A1 + 64 \<le> ?L"
    using unat_and_le [of _ ?M] M unfolding A0_def A1_def by (metis add_le_mono1)+
  have len: "length (x_sp x) = ?L" using x by (simp add: vmx_ok_def)
  obtain r1 where r1: "load_r (x_sp x) A0 (x_r x) = Some r1" "length r1 = 8"
    using load_r_total A(1) len by metis
  obtain f1 where f1: "load_f (h_fpu hw) (x_sp x) A1 = Some f1" "length f1 = 4"
    using load_f_total [of A1 "x_sp x"] A(2) len by auto
  obtain e1 where e1: "load_f (h_fpu hw) (x_sp x) (A1 + 32) = Some e1" "length e1 = 4"
    using load_f_total [of "A1 + 32" "x_sp x"] A(2) len by auto
  define y where "y = x\<lparr>x_r := r1, x_f := f1, x_e := map (maskRegisterExponentMantissa (v_eMask vm)) e1\<rparr>"
  have "vmx_ok ?L y" using x r1 f1 e1 by (simp add: y_def vmx_ok_def)
  then obtain x2 where x2: "executeBytecode (h_fpu hw) (v_eMask vm) bc y = Some x2" "vmx_ok ?L x2"
      "x_a x2 = x_a x"
    using exec_from_total [OF bc, of 0 y "h_fpu hw" "v_eMask vm"] by (auto simp: executeBytecode_def y_def)
  obtain r3 where r3: "rd (unat (v_datasetOffset vm + ucast ma)) (x_r x2) = Some r3" "length r3 = 8"
    using reader_okD [OF rd dataset_address [OF off ma]] by blast
  have len2: "length (x_sp x2) = ?L" "length (x_f x2) = 4" "length (x_e x2) = 4"
    using x2(2) by (simp_all add: vmx_ok_def)
  obtain sp3 where sp3: "store_words (x_sp x2) A1 r3 = Some sp3" "length sp3 = ?L"
    using store_words_total [of A1 r3 "x_sp x2"] A(2) r3(2) len2(1) by auto
  define f3 where "f3 = map2 (lanes2 (XOR)) (x_f x2) (x_e x2)"
  have lf3: "length f3 = 4" using len2 by (simp add: f3_def)
  obtain sp4 where sp4: "store_words sp3 A0 (f128_words f3) = Some sp4" "length sp4 = ?L"
    using store_words_total [of A0 "f128_words f3" sp3] A(1) sp3(2) lf3 by auto
  define mx' where "mx' = (mx XOR ucast (x_r x2 ! (?rr ! 2) XOR x_r x2 ! (?rr ! 3)))
    AND CacheLineAlignMask_Calculated cfg"
  have mx': "unat mx' + 64 \<le> unat (DatasetBaseSize cfg)" "64 dvd unat mx'"
    unfolding mx'_def by (rule masked_address [OF cfg])+
  have "vm_iteration rd hw cfg bc vm s0 s1 (mx, ma, x) = Some (ma, mx', x2\<lparr>x_r := r3, x_f := f3, x_sp := sp4\<rparr>)"
    by (simp only: vm_iteration_def Let_def prod.case spMix_def [symmetric] A0_def [symmetric]
        A1_def [symmetric] r1(1) f1(1) e1(1) y_def [symmetric] x2(1) mx'_def [symmetric] r3(1) sp3(1)
        f3_def [symmetric] sp4(1) Option.bind.simps)
  then show ?thesis using x2(2,3) r3(2) lf3 sp4(2) mx' by (simp add: loop_ok_def vmx_ok_def)
qed

lemma vm_loop_total:
  assumes "config_ok cfg" and "program_ok (unat (ScratchpadL3_Size cfg)) bc"
    and "unat (v_datasetOffset vm) \<le> DatasetExtraSize" "64 dvd unat (v_datasetOffset vm)"
    and "loop_ok cfg st" and "reader_ok cfg rd"
  shows "\<exists>st'. vm_loop rd hw cfg bc vm n s0 s1 st = Some st' \<and> loop_ok cfg st'"
  using assms(5)
proof (induction n arbitrary: s0 s1 st)
  case (Suc n)
  obtain mx ma x where st: "st = (mx, ma, x)" by (cases st) auto
  obtain st1 where "vm_iteration rd hw cfg bc vm s0 s1 st = Some st1" "loop_ok cfg st1"
    using vm_iteration_total [OF assms(1-4) _ assms(6), of mx ma x hw s0 s1] Suc.prems st by blast
  then show ?case using Suc.IH [of st1 0 0] by simp
qed simp

lemma generateProgram_lengths:
  "generateProgram hw cfg seed = (ent, program) \<Longrightarrow> length ent = 16 \<and> length program = ProgramSize cfg"
  by (auto simp: generateProgram_def Let_def)

lemma initialize_bounds:
  assumes "config_ok cfg"
  shows "unat (v_ma (initialize cfg ent vm)) + 64 \<le> unat (DatasetBaseSize cfg)"
    and "64 dvd unat (v_ma (initialize cfg ent vm))"
    and "unat (v_datasetOffset (initialize cfg ent vm)) \<le> DatasetExtraSize"
    and "64 dvd unat (v_datasetOffset (initialize cfg ent vm))"
    and "length (v_a (initialize cfg ent vm)) = 4" and "v_sp (initialize cfg ent vm) = v_sp vm"
proof -
  have "ucast (w AND ucast m) = (ucast w AND m :: u32)" for w :: u64 and m :: u32
    by (rule bit_word_eqI) (auto simp: bit_simps)
  then have "v_ma (initialize cfg ent vm) = ucast (ent ! 8) AND CacheLineAlignMask_Calculated cfg"
    by (simp add: initialize_def Let_def)
  then show "unat (v_ma (initialize cfg ent vm)) + 64 \<le> unat (DatasetBaseSize cfg)"
    and "64 dvd unat (v_ma (initialize cfg ent vm))"
    using masked_address [OF assms] by simp_all
  have off: "unat (ent ! 13 mod of_nat (DatasetExtraItems_Calculated + 1)) \<le> DatasetExtraItems_Calculated"
    by (simp add: unat_mod unat_of_nat_small DatasetExtraItems_Calculated_def
        less_Suc_eq_le [symmetric] del: less_Suc_eq_le)
  then show "unat (v_datasetOffset (initialize cfg ent vm)) \<le> DatasetExtraSize"
    and "64 dvd unat (v_datasetOffset (initialize cfg ent vm))"
    by (simp_all add: initialize_def Let_def unat_mult_small DatasetExtraItems_Calculated_def)
qed (simp_all add: initialize_def Let_def)

lemma loop_start_ok:
  assumes "config_ok cfg" and "length (v_sp vm) = unat (ScratchpadL3_Size cfg)"
  shows "loop_ok cfg (v_mx (initialize cfg ent vm), v_ma (initialize cfg ent vm),
    \<lparr>x_r = replicate 8 0, x_f = replicate 4 (0, 0), x_e = replicate 4 (0, 0),
     x_a = v_a (initialize cfg ent vm), x_sp = v_sp (initialize cfg ent vm), x_rm = v_rm (initialize cfg ent vm)\<rparr>)"
  using initialize_bounds [OF assms(1), of ent vm] assms(2) by (simp add: loop_ok_def vmx_ok_def)

lemma vm_run_with_total:
  assumes cfg: "config_ok cfg" and sp: "length (v_sp vm) = unat (ScratchpadL3_Size cfg)" and rd: "reader_ok cfg rd"
  shows "\<exists>vm'. vm_run_with rd hw cfg vm seed = Some vm' \<and> length (v_sp vm') = length (v_sp vm)
    \<and> length (v_r vm') = 8 \<and> length (v_f vm') = 4 \<and> length (v_e vm') = 4 \<and> length (v_a vm') = 4"
proof -
  obtain ent program where gp: "generateProgram hw cfg seed = (ent, program)" by (cases "generateProgram hw cfg seed")
  let ?vm = "initialize cfg ent vm"
  obtain bc where bc: "compileProgram cfg program = Some bc" "program_ok (unat (ScratchpadL3_Size cfg)) bc"
    using compileProgram_ok [OF cfg] by blast
  let ?st = "(v_mx ?vm, v_ma ?vm, \<lparr>x_r = replicate 8 0, x_f = replicate 4 (0, 0), x_e = replicate 4 (0, 0),
    x_a = v_a ?vm, x_sp = v_sp ?vm, x_rm = v_rm ?vm\<rparr>)"
  obtain mx ma x where "vm_loop rd hw cfg bc ?vm (ProgramIterations cfg) (v_mx ?vm) (v_ma ?vm) ?st = Some (mx, ma, x)"
      "vmx_ok (unat (ScratchpadL3_Size cfg)) x"
    using vm_loop_total [OF cfg bc(2) initialize_bounds(3,4) [OF cfg] loop_start_ok [OF cfg sp] rd]
    by (fastforce simp: loop_ok_def)
  then show ?thesis
    using bc(1) sp initialize_bounds(5) [OF cfg]
    by (simp add: vm_run_with_def gp vm_execute_def vmx_ok_def)
qed

lemma vm_run_total:
  assumes "config_ok cfg" and "length (v_sp vm) = unat (ScratchpadL3_Size cfg)"
  shows "\<exists>vm'. vm_run hw cfg vm seed = Some vm' \<and> length (v_sp vm') = length (v_sp vm)
    \<and> length (v_r vm') = 8 \<and> length (v_f vm') = 4 \<and> length (v_e vm') = 4 \<and> length (v_a vm') = 4"
  unfolding vm_run_def by (rule vm_run_with_total [OF assms datasetRead_reader])

text \<open>Two readers that agree on the lines of the dataset give the same runs.\<close>

definition readers_agree :: "rx_config \<Rightarrow> dataset_reader \<Rightarrow> dataset_reader \<Rightarrow> bool" where
  "readers_agree cfg rd rd' \<longleftrightarrow> (\<forall>a r. 64 dvd a \<and> a + 64 \<le> dataset_size cfg \<longrightarrow> rd a r = rd' a r)"

lemma readers_agreeD: "readers_agree cfg rd rd' \<Longrightarrow> 64 dvd a \<Longrightarrow> a + 64 \<le> dataset_size cfg \<Longrightarrow> rd a = rd' a"
  by (auto simp: readers_agree_def)

lemma vm_loop_readers:
  assumes cfg: "config_ok cfg" and bc: "program_ok (unat (ScratchpadL3_Size cfg)) bc"
    and off: "unat (v_datasetOffset vm) \<le> DatasetExtraSize" "64 dvd unat (v_datasetOffset vm)"
    and rd: "reader_ok cfg rd" and agree: "readers_agree cfg rd rd'" and st: "loop_ok cfg st"
  shows "vm_loop rd hw cfg bc vm n s0 s1 st = vm_loop rd' hw cfg bc vm n s0 s1 st"
  using st
proof (induction n arbitrary: s0 s1 st)
  case (Suc n)
  obtain mx ma x where st: "st = (mx, ma, x)" by (cases st) auto
  have ma: "unat ma + 64 \<le> unat (DatasetBaseSize cfg)" "64 dvd unat ma"
    using Suc.prems st by (simp_all add: loop_ok_def)
  have same: "vm_iteration rd hw cfg bc vm s0 s1 st = vm_iteration rd' hw cfg bc vm s0 s1 st"
    by (simp only: vm_iteration_def st prod.case readers_agreeD [OF agree dataset_address [OF off ma]])
  obtain st1 where st1: "vm_iteration rd hw cfg bc vm s0 s1 st = Some st1" "loop_ok cfg st1"
    using vm_iteration_total [OF cfg bc off _ rd, of mx ma x hw s0 s1] Suc.prems st by blast
  then show ?case
    using same Suc.IH [OF st1(2)] by (simp only: vm_loop.simps same [symmetric] st1(1) Option.bind.simps)
qed simp

lemma vm_run_readers:
  assumes cfg: "config_ok cfg" and sp: "length (v_sp vm) = unat (ScratchpadL3_Size cfg)"
    and rd: "reader_ok cfg rd" and agree: "readers_agree cfg rd rd'"
  shows "vm_run_with rd hw cfg vm seed = vm_run_with rd' hw cfg vm seed"
proof -
  obtain ent program where gp: "generateProgram hw cfg seed = (ent, program)" by fastforce
  obtain bc where bc: "compileProgram cfg program = Some bc" "program_ok (unat (ScratchpadL3_Size cfg)) bc"
    using compileProgram_ok [OF cfg] by blast
  show ?thesis
    by (simp only: vm_run_with_def gp Let_def prod.case vm_execute_def bc(1) Option.bind.simps
        vm_loop_readers [OF cfg bc(2) initialize_bounds(3,4) [OF cfg] rd agree loop_start_ok [OF cfg sp]])
qed

text \<open>The result does not depend on what earlier runs left in the registers.\<close>

lemma vm_loop_cong:
  assumes "v_readReg vm = v_readReg vm'" and "v_eMask vm = v_eMask vm'"
    and "v_datasetOffset vm = v_datasetOffset vm'"
  shows "vm_loop rd hw cfg bc vm n s0 s1 st = vm_loop rd hw cfg bc vm' n s0 s1 st"
proof (induction n arbitrary: s0 s1 st)
  case (Suc n)
  then have "vm_loop rd hw cfg bc vm n 0 0 = vm_loop rd hw cfg bc vm' n 0 0" by (intro ext)
  then show ?case by (simp only: vm_loop.simps vm_iteration_def assms)
qed simp

lemma vm_run_cong:
  assumes "v_sp vm = v_sp vm'" and "v_rm vm = v_rm vm'"
  shows "vm_run hw cfg vm seed = vm_run hw cfg vm' seed"
proof -
  obtain ent program where gp: "generateProgram hw cfg seed = (ent, program)" by fastforce
  let ?i = "initialize cfg ent vm" and ?i' = "initialize cfg ent vm'"
  have sel: "v_readReg ?i = v_readReg ?i'" "v_eMask ?i = v_eMask ?i'"
    "v_datasetOffset ?i = v_datasetOffset ?i'" "v_mx ?i = v_mx ?i'" "v_ma ?i = v_ma ?i'"
    "v_a ?i = v_a ?i'" "v_sp ?i = v_sp ?i'" "v_rm ?i = v_rm ?i'"
    using assms by (simp_all add: initialize_def Let_def)
  have eq: "?i\<lparr>v_r := r, v_f := f, v_e := e, v_sp := sp, v_rm := rm, v_mx := mx, v_ma := ma\<rparr> =
      ?i'\<lparr>v_r := r, v_f := f, v_e := e, v_sp := sp, v_rm := rm, v_mx := mx, v_ma := ma\<rparr>"
    for r f e sp rm mx ma
    by (rule vm.equality) (simp_all add: sel)
  show ?thesis
    by (simp only: vm_run_def vm_run_with_def gp vm_execute_def Let_def prod.case sel eq vm_loop_cong [OF sel(1-3)])
qed

section \<open>Properties\<close>

text \<open>C10: for every algorithm, every seed and every machine whose scratchpad has the configured size,
  running a generated program returns: no jump loops for ever, no scratchpad access of the
  bytecode or of the main loop leaves the scratchpad, no dataset read leaves the
  \<open>DatasetBaseSize + DatasetExtraSize\<close> bytes allocated, and the machine is again well formed.\<close>

theorem vm_run_safe:
  assumes "length (v_sp vm) = unat (ScratchpadL3_Size (applyAlgoConfig algo))"
  shows "\<exists>vm'. vm_run hw (applyAlgoConfig algo) vm seed = Some vm' \<and> length (v_sp vm') = length (v_sp vm)
    \<and> length (v_r vm') = 8 \<and> length (v_f vm') = 4 \<and> length (v_e vm') = 4 \<and> length (v_a vm') = 4"
  by (rule vm_run_total [OF applyAlgoConfig_ok assms])

theorem vm_run_safe_witness:
  "\<exists>vm'. vm_run \<lparr>h_enc = \<lambda>s k. s, h_dec = rx_xor_vec_i128,
      h_fpu = \<lparr>fp_add = \<lambda>_. (+), fp_sub = \<lambda>_. (-), fp_mul = \<lambda>_. (*), fp_div = \<lambda>_. (div),
        fp_sqrt = \<lambda>_ x. x, fp_cvt = ucast\<rparr>, h_dataset = \<lambda>a. of_nat a\<rparr> (applyAlgoConfig RX_ARQ)
      \<lparr>v_r = [], v_f = [], v_e = [], v_a = [], v_sp = replicate 262144 7, v_rm = 0, v_mx = 0, v_ma = 0,
        v_eMask = (0, 0), v_readReg = [], v_datasetOffset = 0\<rparr> aes_gen_key = Some vm'
    \<and> length (v_sp vm') = 262144"
  using vm_run_safe [of "\<lparr>v_r = [], v_f = [], v_e = [], v_a = [], v_sp = replicate 262144 7, v_rm = 0, v_mx = 0,
      v_ma = 0, v_eMask = (0, 0), v_readReg = [], v_datasetOffset = 0\<rparr>" RX_ARQ]
  by (simp add: RandomX_ConfigurationArqma_def RandomX_ConfigurationBase_def) blast

end
