(* ===== verification/Rx_Hash.thy ===== *)
theory Rx_Hash
  imports Rx_Vm
begin

text \<open>
  The hash: \<open>randomx_calculate_hash\<close>, and the pair \<open>randomx_calculate_hash_first\<close> /
  \<open>randomx_calculate_hash_next\<close> with which the worker threads hash (the end of \<open>randomx.cpp\<close> and
  of \<open>virtual_machine.cpp\<close>).  The machine's \<open>run\<close> is an argument, since the source has three of
  them behind a virtual method; what the hash needs of it is the locale \<open>vm_backend\<close>, which
  \<open>vm_run\<close> of \<open>Rx_Vm\<close> provides.
\<close>

section \<open>Operations of the machine around \<open>run\<close>\<close>

definition reg_bytes :: "vm \<Rightarrow> bytes" where
  "reg_bytes vm = concat (map store64 (v_r vm @ f128_words (v_f vm) @ f128_words (v_e vm)
     @ f128_words (v_a vm)))"

definition blake2b_wrapper :: "nat \<Rightarrow> bytes \<Rightarrow> bytes" where
  "blake2b_wrapper outlen bs = snd (rx_blake2b outlen (Some bs) (length bs))"

definition resetRoundingMode :: "vm \<Rightarrow> vm" where
  "resetRoundingMode vm = vm\<lparr>v_rm := 0\<rparr>"

text \<open>\<open>initScratchpad(seed)\<close> also writes the generator's state back over the seed.\<close>

definition initScratchpad :: "hw \<Rightarrow> rx_config \<Rightarrow> line \<Rightarrow> vm \<Rightarrow> vm \<times> line" where
  "initScratchpad hw cfg seed vm =
     (let (lns, st) = fillAes1Rx4 (h_enc hw) (h_dec hw) seed (unat (ScratchpadL3_Size cfg) div 64)
      in (vm\<lparr>v_sp := lines_bytes lns\<rparr>, st))"

definition set_reg_a :: "line \<Rightarrow> vm \<Rightarrow> vm" where
  "set_reg_a h vm = (let bs = line_bytes h in
     vm\<lparr>v_a := map (\<lambda>i. (load64 (drop (16 * i) bs), load64 (drop (16 * i + 8) bs))) [0..<4]\<rparr>)"

definition getFinalResult :: "hw \<Rightarrow> vm \<Rightarrow> bytes \<times> vm" where
  "getFinalResult hw vm =
     (let vm' = set_reg_a (hashAes1Rx4 (h_enc hw) (h_dec hw) (bytes_lines (v_sp vm))) vm
      in (blake2b_wrapper 32 (reg_bytes vm'), vm'))"

text \<open>\<open>impl\<close> is the instantiation \<open><softAes, unroll>\<close> in use.\<close>

definition hashAndFill :: "hw \<Rightarrow> nat \<times> nat \<Rightarrow> line \<Rightarrow> vm \<Rightarrow> bytes \<times> line \<times> vm" where
  "hashAndFill hw impl fill_state vm =
     (let (lns, h, st) = hashAndFillAes1Rx4 (h_enc hw) (h_dec hw) (fst impl) (snd impl)
            (bytes_lines (v_sp vm)) fill_state;
          vm' = set_reg_a h (vm\<lparr>v_sp := lines_bytes lns\<rparr>)
      in (blake2b_wrapper 32 (reg_bytes vm'), st, vm'))"

section \<open>The hash functions\<close>

type_synonym vm_runner = "vm \<Rightarrow> line \<Rightarrow> vm option"

text \<open>The first hash of the input; \<open>k12\<close> is \<open>rx_yespower_k12\<close>, used by one algorithm only.\<close>

definition seed_hash :: "(bytes \<Rightarrow> bytes) \<Rightarrow> algo_id \<Rightarrow> bytes \<Rightarrow> line" where
  "seed_hash k12 algo input =
     bytes_line (if algo = fromRxAlgo RX_XLA then k12 input else blake2b_wrapper 64 input)"

fun run_chain :: "vm_runner \<Rightarrow> nat \<Rightarrow> vm \<Rightarrow> line \<Rightarrow> (vm \<times> line) option" where
  "run_chain run 0 vm tempHash = Some (vm, tempHash)"
| "run_chain run (Suc n) vm tempHash =
     do { vm' \<leftarrow> run vm tempHash;
          run_chain run n vm' (bytes_line (blake2b_wrapper 64 (reg_bytes vm'))) }"

definition run_programs :: "vm_runner \<Rightarrow> rx_config \<Rightarrow> vm \<Rightarrow> line \<Rightarrow> vm option" where
  "run_programs run cfg vm tempHash =
     do { (vm', t) \<leftarrow> run_chain run (ProgramCount cfg - 1) (resetRoundingMode vm) tempHash;
          run vm' t }"

definition randomx_calculate_hash ::
  "vm_runner \<Rightarrow> hw \<Rightarrow> rx_config \<Rightarrow> (bytes \<Rightarrow> bytes) \<Rightarrow> algo_id \<Rightarrow> vm \<Rightarrow> bytes \<Rightarrow> (bytes \<times> vm) option" where
  "randomx_calculate_hash run hw cfg k12 algo vm input =
     (let (vm1, tempHash) = initScratchpad hw cfg (seed_hash k12 algo input) vm
      in do { vm2 \<leftarrow> run_programs run cfg vm1 tempHash; Some (getFinalResult hw vm2) })"

definition randomx_calculate_hash_first ::
  "hw \<Rightarrow> rx_config \<Rightarrow> (bytes \<Rightarrow> bytes) \<Rightarrow> algo_id \<Rightarrow> vm \<Rightarrow> bytes \<Rightarrow> vm \<times> line" where
  "randomx_calculate_hash_first hw cfg k12 algo vm input =
     initScratchpad hw cfg (seed_hash k12 algo input) vm"

definition randomx_calculate_hash_next ::
  "vm_runner \<Rightarrow> hw \<Rightarrow> rx_config \<Rightarrow> nat \<times> nat \<Rightarrow> (bytes \<Rightarrow> bytes) \<Rightarrow> algo_id \<Rightarrow> vm \<Rightarrow> line \<Rightarrow> bytes \<Rightarrow>
     (bytes \<times> line \<times> vm) option" where
  "randomx_calculate_hash_next run hw cfg impl k12 algo vm tempHash nextInput =
     do { vm' \<leftarrow> run_programs run cfg vm tempHash;
          Some (hashAndFill hw impl (seed_hash k12 algo nextInput) vm') }"

text \<open>
  How a worker uses the pair: one \<open>first\<close>, then a \<open>next\<close> per further input.  The inputs after
  the first are the argument; the outputs are the hashes in order.
\<close>

fun hash_pipeline ::
  "vm_runner \<Rightarrow> hw \<Rightarrow> rx_config \<Rightarrow> nat \<times> nat \<Rightarrow> (bytes \<Rightarrow> bytes) \<Rightarrow> algo_id \<Rightarrow> vm \<Rightarrow> line \<Rightarrow> bytes list \<Rightarrow>
     bytes list option" where
  "hash_pipeline run hw cfg impl k12 algo vm tempHash [] = Some []"
| "hash_pipeline run hw cfg impl k12 algo vm tempHash (x # xs) =
     do { (out, t, vm') \<leftarrow> randomx_calculate_hash_next run hw cfg impl k12 algo vm tempHash x;
          outs \<leftarrow> hash_pipeline run hw cfg impl k12 algo vm' t xs;
          Some (out # outs) }"

lemma length_vec_bytes [simp]: "length (vec_bytes v) = 16"
  by (simp add: vec_bytes_def)

lemma length_line_bytes [simp]: "length (line_bytes ln) = 64"
  by (simp add: line_bytes_def split: prod.splits)

lemma length_lines_bytes [simp]: "length (lines_bytes lns) = 64 * length lns"
  by (induction lns) (simp_all add: lines_bytes_def)

lemma length_bytes_lines [simp]: "length (bytes_lines bs) = length bs div 64"
  by (simp add: bytes_lines_def)

lemma length_fill_loop [simp]: "length (fst (fill_loop enc dec n st)) = n"
  by (induction n arbitrary: st) (simp_all add: Let_def case_prod_beta)

lemma v_sp_initScratchpad:
  "v_sp (fst (initScratchpad hw cfg seed vm)) =
     lines_bytes (fst (fillAes1Rx4 (h_enc hw) (h_dec hw) seed (unat (ScratchpadL3_Size cfg) div 64)))"
  "snd (initScratchpad hw cfg seed vm) =
     snd (fillAes1Rx4 (h_enc hw) (h_dec hw) seed (unat (ScratchpadL3_Size cfg) div 64))"
  by (simp_all add: initScratchpad_def split: prod.splits)

lemma length_sp_initScratchpad:
  "64 dvd unat (ScratchpadL3_Size cfg) \<Longrightarrow>
     length (v_sp (fst (initScratchpad hw cfg seed vm))) = unat (ScratchpadL3_Size cfg)"
  by (simp add: v_sp_initScratchpad fillAes1Rx4_def)

text \<open>The result and the primed machine that \<open>hashAndFill\<close> leaves.\<close>

lemma hashAndFill_split:
  assumes "haf_advance (fst impl) (snd impl) dvd length (v_sp vm) div 64"
    and "length (v_sp vm) = unat (ScratchpadL3_Size cfg)"
  obtains vm' where "hashAndFill hw impl seed vm = (fst (getFinalResult hw vm), snd (initScratchpad hw cfg seed vm), vm')"
    and "v_sp vm' = v_sp (fst (initScratchpad hw cfg seed vm))"
  using assms hashAndFill_eq [of "fst impl" "snd impl" "bytes_lines (v_sp vm)" "h_enc hw" "h_dec hw" seed]
  by (auto simp: hashAndFill_def getFinalResult_def v_sp_initScratchpad set_reg_a_def reg_bytes_def Let_def)

section \<open>What the hash needs of a machine\<close>

text \<open>
  Running a program succeeds, keeps the size of the scratchpad, and depends on the machine only
  through the scratchpad and the rounding mode.
\<close>

locale vm_backend =
  fixes run :: vm_runner and L :: nat
  assumes run_total: "length (v_sp vm) = L \<Longrightarrow> \<exists>vm'. run vm seed = Some vm' \<and> length (v_sp vm') = L"
    and run_cong: "v_sp vm = v_sp vm' \<Longrightarrow> v_rm vm = v_rm vm' \<Longrightarrow> run vm seed = run vm' seed"
begin

lemma run_chain_total:
  "length (v_sp vm) = L \<Longrightarrow> \<exists>p. run_chain run n vm t = Some p \<and> length (v_sp (fst p)) = L"
proof (induction n arbitrary: vm t)
  case (Suc n)
  obtain vm1 where "run vm t = Some vm1" "length (v_sp vm1) = L" using run_total [OF Suc.prems] by blast
  then show ?case using Suc.IH by simp
qed simp

lemma run_programs_total:
  assumes "length (v_sp vm) = L"
  obtains vm' where "run_programs run cfg vm t = Some vm'" and "length (v_sp vm') = L"
proof -
  obtain vm1 t1 where "run_chain run (ProgramCount cfg - 1) (resetRoundingMode vm) t = Some (vm1, t1)"
      "length (v_sp vm1) = L"
    using run_chain_total [of "resetRoundingMode vm" "ProgramCount cfg - 1" t] assms
    by (auto simp: resetRoundingMode_def)
  then show thesis using run_total [of vm1 t1] that by (auto simp: run_programs_def)
qed

lemma run_programs_cong:
  assumes "v_sp vm = v_sp vm'"
  shows "run_programs run cfg vm t = run_programs run cfg vm' t"
proof -
  have "v_sp vm = v_sp vm' \<Longrightarrow> v_rm vm = v_rm vm' \<Longrightarrow>
      (do { (vm1, t1) \<leftarrow> run_chain run n vm t; run vm1 t1 }) =
      (do { (vm1, t1) \<leftarrow> run_chain run n vm' t; run vm1 t1 })" for n and vm vm' :: vm
    using run_cong [of vm vm'] by (cases n) auto
  from this [of "resetRoundingMode vm" "resetRoundingMode vm'"] show ?thesis
    using assms by (simp add: run_programs_def resetRoundingMode_def)
qed

lemma calculate_hash_eq:
  "randomx_calculate_hash run hw cfg k12 algo vm x =
     map_option (getFinalResult hw) (run_programs run cfg
       (fst (initScratchpad hw cfg (seed_hash k12 algo x) vm))
       (snd (initScratchpad hw cfg (seed_hash k12 algo x) vm)))"
  by (simp add: randomx_calculate_hash_def case_prod_beta split: bind_splits)

text \<open>
  The machine is primed for the input \<open>x\<close> when its scratchpad and \<open>tempHash\<close> are what
  \<open>initScratchpad\<close> makes of the input's first hash.
\<close>

lemma next_step:
  assumes L: "unat (ScratchpadL3_Size cfg) = L" "64 dvd L"
    and impl: "haf_advance (fst impl) (snd impl) dvd L div 64"
    and primed: "v_sp vm = v_sp (fst (initScratchpad hw cfg (seed_hash k12 algo x) vm0))"
      "t = snd (initScratchpad hw cfg (seed_hash k12 algo x) vm0)"
  obtains out t' vm' where
    "randomx_calculate_hash_next run hw cfg impl k12 algo vm t y = Some (out, t', vm')"
    and "map_option fst (randomx_calculate_hash run hw cfg k12 algo vm0 x) = Some out"
    and "v_sp vm' = v_sp (fst (initScratchpad hw cfg (seed_hash k12 algo y) vm0))"
    and "t' = snd (initScratchpad hw cfg (seed_hash k12 algo y) vm0)"
proof -
  let ?init = "\<lambda>x. initScratchpad hw cfg (seed_hash k12 algo x) vm0"
  have "length (v_sp (fst (?init x))) = L" using L length_sp_initScratchpad by metis
  then obtain vm2 where vm2: "run_programs run cfg (fst (?init x)) t = Some vm2" "length (v_sp vm2) = L"
    using run_programs_total by blast
  have run: "run_programs run cfg vm t = Some vm2" using run_programs_cong [OF primed(1)] vm2(1) by simp
  obtain vm3 where vm3: "hashAndFill hw impl (seed_hash k12 algo y) vm2 =
      (fst (getFinalResult hw vm2), snd (initScratchpad hw cfg (seed_hash k12 algo y) vm2), vm3)"
    "v_sp vm3 = v_sp (fst (initScratchpad hw cfg (seed_hash k12 algo y) vm2))"
    using hashAndFill_split [of impl vm2 cfg hw "seed_hash k12 algo y"] impl L vm2(2) by auto
  show thesis
  proof (rule that)
    show "randomx_calculate_hash_next run hw cfg impl k12 algo vm t y =
        Some (fst (getFinalResult hw vm2), snd (?init y), vm3)"
      by (simp add: randomx_calculate_hash_next_def run vm3(1) v_sp_initScratchpad)
    show "map_option fst (randomx_calculate_hash run hw cfg k12 algo vm0 x) = Some (fst (getFinalResult hw vm2))"
      using vm2(1) primed(2) by (simp add: calculate_hash_eq)
    show "v_sp vm3 = v_sp (fst (?init y))" using vm3(2) by (simp add: v_sp_initScratchpad)
  qed simp
qed

lemma hash_pipeline_eq:
  assumes "unat (ScratchpadL3_Size cfg) = L" "64 dvd L" "haf_advance (fst impl) (snd impl) dvd L div 64"
    and "v_sp vm = v_sp (fst (initScratchpad hw cfg (seed_hash k12 algo x) vm0))"
    and "t = snd (initScratchpad hw cfg (seed_hash k12 algo x) vm0)"
  shows "\<exists>outs. hash_pipeline run hw cfg impl k12 algo vm t xs = Some outs \<and>
    list_all2 (\<lambda>x out. map_option fst (randomx_calculate_hash run hw cfg k12 algo vm0 x) = Some out)
      (butlast (x # xs)) outs"
  using assms(4,5)
proof (induction xs arbitrary: x vm t)
  case (Cons y ys)
  obtain out t' vm' where step:
    "randomx_calculate_hash_next run hw cfg impl k12 algo vm t y = Some (out, t', vm')"
    "map_option fst (randomx_calculate_hash run hw cfg k12 algo vm0 x) = Some out"
    and primed: "v_sp vm' = v_sp (fst (initScratchpad hw cfg (seed_hash k12 algo y) vm0))"
      "t' = snd (initScratchpad hw cfg (seed_hash k12 algo y) vm0)"
    by (rule next_step [OF assms(1-3) Cons.prems])
  obtain outs where "hash_pipeline run hw cfg impl k12 algo vm' t' ys = Some outs"
    "list_all2 (\<lambda>x out. map_option fst (randomx_calculate_hash run hw cfg k12 algo vm0 x) = Some out)
      (butlast (y # ys)) outs"
    using Cons.IH [OF primed] by blast
  then show ?case using step by simp
qed simp

end

section \<open>The interpreted machine\<close>

text \<open>\<open>vm_run\<close>, in the configuration of any algorithm, is such a machine.\<close>

interpretation rxvm: vm_backend "vm_run hw (applyAlgoConfig a)"
  "unat (ScratchpadL3_Size (applyAlgoConfig a))"
  using vm_run_total [OF applyAlgoConfig_ok] vm_run_cong by unfold_locales metis+

lemma scratchpad_size_dvd: "256 dvd unat (ScratchpadL3_Size (applyAlgoConfig a))"
  using applyAlgoConfig_ok [of a] by (simp add: config_ok_def)

lemma scratchpad_size_64: "64 dvd unat (ScratchpadL3_Size (applyAlgoConfig a))"
  using scratchpad_size_dvd [of a] by (rule dvd_trans [rotated]) simp

lemma advance_divides:
  "impl \<in> {(0, 2), (1, 1), (2, 1), (2, 2), (2, 4)} \<Longrightarrow>
     haf_advance (fst impl) (snd impl) dvd unat (ScratchpadL3_Size (applyAlgoConfig a)) div 64"
proof -
  assume "impl \<in> {(0, 2), (1, 1), (2, 1), (2, 2), (2, 4)}"
  then have "haf_advance (fst impl) (snd impl) dvd 4" by (auto simp: haf_advance_def)
  moreover have "4 dvd unat (ScratchpadL3_Size (applyAlgoConfig a)) div 64"
    using scratchpad_size_dvd [of a] by (auto elim: dvdE)
  ultimately show ?thesis by (rule dvd_trans)
qed

text \<open>C3: hashing in a pipeline gives the hashes.  For every algorithm, every machine state and every
  sequence of inputs, \<open>randomx_calculate_hash_first\<close> on the first input followed by one
  \<open>randomx_calculate_hash_next\<close> per further input returns, call by call, exactly the hashes that
  \<open>randomx_calculate_hash\<close> computes one at a time on any other machine: filling the scratchpad
  for the next input while the current one is hashed disturbs neither, and nothing leaks from one
  hash into the next.\<close>

theorem hash_pipeline_correct:
  assumes "impl \<in> {(0, 2), (1, 1), (2, 1), (2, 2), (2, 4)}"
    and "randomx_calculate_hash_first hw (applyAlgoConfig a) k12 algo vm x = (vm1, t)"
  shows "\<exists>outs. hash_pipeline (vm_run hw (applyAlgoConfig a)) hw (applyAlgoConfig a) impl k12 algo vm1 t xs = Some outs
    \<and> list_all2 (\<lambda>x out. map_option fst (randomx_calculate_hash (vm_run hw (applyAlgoConfig a)) hw
          (applyAlgoConfig a) k12 algo vm0 x) = Some out) (butlast (x # xs)) outs"
proof (rule rxvm.hash_pipeline_eq [OF refl scratchpad_size_64 advance_divides [OF assms(1)]])
  have "vm1 = fst (initScratchpad hw (applyAlgoConfig a) (seed_hash k12 algo x) vm)"
    and "t = snd (initScratchpad hw (applyAlgoConfig a) (seed_hash k12 algo x) vm)"
    using assms(2) by (simp_all add: randomx_calculate_hash_first_def)
  then show "v_sp vm1 = v_sp (fst (initScratchpad hw (applyAlgoConfig a) (seed_hash k12 algo x) vm0))"
    and "t = snd (initScratchpad hw (applyAlgoConfig a) (seed_hash k12 algo x) vm0)"
    by (simp_all only: v_sp_initScratchpad)
qed

text \<open>A machine with trivial arithmetic, for the instances.\<close>

definition idle_hw :: hw where
  "idle_hw = \<lparr>h_enc = \<lambda>s k. rx_xor_vec_i128 s k, h_dec = \<lambda>s k. rx_xor_vec_i128 k s,
     h_fpu = \<lparr>fp_add = \<lambda>_. (+), fp_sub = \<lambda>_. (-), fp_mul = \<lambda>_. (*), fp_div = \<lambda>_. (div),
       fp_sqrt = \<lambda>_ x. x, fp_cvt = ucast\<rparr>, h_dataset = \<lambda>_. 0\<rparr>"

definition idle_vm :: vm where
  "idle_vm = \<lparr>v_r = replicate 8 0, v_f = replicate 4 (0, 0), v_e = replicate 4 (0, 0),
     v_a = replicate 4 (0, 0), v_sp = [], v_rm = 0, v_mx = 0, v_ma = 0, v_eMask = (0, 0),
     v_readReg = [0, 2, 4, 6], v_datasetOffset = 0\<rparr>"

theorem hash_pipeline_correct_witness:
  "\<exists>outs. hash_pipeline (vm_run idle_hw (applyAlgoConfig RX_SFX)) idle_hw (applyAlgoConfig RX_SFX) (2, 4)
      (\<lambda>b. b) (fromRxAlgo RX_SFX)
      (fst (randomx_calculate_hash_first idle_hw (applyAlgoConfig RX_SFX) (\<lambda>b. b) (fromRxAlgo RX_SFX) idle_vm [1]))
      (snd (randomx_calculate_hash_first idle_hw (applyAlgoConfig RX_SFX) (\<lambda>b. b) (fromRxAlgo RX_SFX) idle_vm [1]))
      [[2], [3]] = Some outs
    \<and> list_all2 (\<lambda>x out. map_option fst (randomx_calculate_hash (vm_run idle_hw (applyAlgoConfig RX_SFX)) idle_hw
          (applyAlgoConfig RX_SFX) (\<lambda>b. b) (fromRxAlgo RX_SFX) idle_vm x) = Some out) (butlast ([1] # [[2], [3]])) outs"
  by (rule hash_pipeline_correct) simp_all

section \<open>The pair as an interface\<close>

text \<open>
  What a user of \<open>first\<close>/\<open>next\<close> relies on, whatever the machine \<open>'v\<close> and the intermediate state
  \<open>'t\<close>: \<open>first\<close> primes the machine for its input, and \<open>next\<close> on a machine primed for \<open>x\<close> succeeds,
  returns the hash of \<open>x\<close> and leaves the machine primed for its own input.  The hash is one over the \<open>source\<close> of the
  machine, its dataset, which hashing does not change.
\<close>

locale pipelined_hash =
  fixes first :: "algo_id \<Rightarrow> 'v \<Rightarrow> bytes \<Rightarrow> 'v \<times> 't"
    and nexth :: "algo_id \<Rightarrow> 'v \<Rightarrow> 't \<Rightarrow> bytes \<Rightarrow> (bytes \<times> 't \<times> 'v) option"
    and hash :: "'d \<Rightarrow> algo_id \<Rightarrow> bytes \<Rightarrow> bytes"
    and source :: "'v \<Rightarrow> 'd"
    and primed :: "algo_id \<Rightarrow> 'v \<Rightarrow> 't \<Rightarrow> bytes \<Rightarrow> bool"
  assumes first_primes: "primed al (fst (first al v x)) (snd (first al v x)) x"
    and first_source: "source (fst (first al v x)) = source v"
    and next_hashes: "primed al v t x \<Longrightarrow>
      \<exists>t' v'. nexth al v t y = Some (hash (source v) al x, t', v') \<and> primed al v' t' y \<and> source v' = source v"

text \<open>The instantiations of \<open>hashAndFillAes1Rx4\<close> the library compiles.\<close>

datatype aes_impl = Hard_2 | Soft1_1 | Soft2_1 | Soft2_2 | Soft2_4

fun impl_params :: "aes_impl \<Rightarrow> nat \<times> nat" where
  "impl_params Hard_2 = (0, 2)"
| "impl_params Soft1_1 = (1, 1)"
| "impl_params Soft2_1 = (2, 1)"
| "impl_params Soft2_2 = (2, 2)"
| "impl_params Soft2_4 = (2, 4)"

lemma impl_divides:
  "haf_advance (fst (impl_params impl)) (snd (impl_params impl)) dvd
     unat (ScratchpadL3_Size (applyAlgoConfig a)) div 64"
  by (rule advance_divides) (cases impl; simp)

text \<open>A machine as a worker holds it: its state, and the dataset it was created over.\<close>

record machine =
  mc_dataset :: "nat \<Rightarrow> u8"
  mc_vm :: vm

definition over_dataset :: "hw \<Rightarrow> (nat \<Rightarrow> u8) \<Rightarrow> hw" where
  "over_dataset hw D = hw\<lparr>h_dataset := D\<rparr>"

definition rx_first :: "hw \<Rightarrow> (bytes \<Rightarrow> bytes) \<Rightarrow> rx_config \<Rightarrow> algo_id \<Rightarrow> machine \<Rightarrow> bytes \<Rightarrow> machine \<times> line" where
  "rx_first hw k12 cfg algo mc x =
     (let (vm, t) = randomx_calculate_hash_first (over_dataset hw (mc_dataset mc)) cfg k12 algo (mc_vm mc) x
      in (mc\<lparr>mc_vm := vm\<rparr>, t))"

definition rx_next ::
  "hw \<Rightarrow> aes_impl \<Rightarrow> (bytes \<Rightarrow> bytes) \<Rightarrow> rx_config \<Rightarrow> algo_id \<Rightarrow> machine \<Rightarrow> line \<Rightarrow> bytes \<Rightarrow> (bytes \<times> line \<times> machine) option" where
  "rx_next hw impl k12 cfg algo mc t x =
     (let hwd = over_dataset hw (mc_dataset mc) in
      do { (h, t, vm) \<leftarrow> randomx_calculate_hash_next (vm_run hwd cfg) hwd cfg (impl_params impl) k12 algo (mc_vm mc) t x;
           Some (h, t, mc\<lparr>mc_vm := vm\<rparr>) })"

text \<open>The hash over a dataset, one at a time and on a machine of no history.\<close>

definition rx_hash :: "hw \<Rightarrow> (bytes \<Rightarrow> bytes) \<Rightarrow> rx_config \<Rightarrow> (nat \<Rightarrow> u8) \<Rightarrow> algo_id \<Rightarrow> bytes \<Rightarrow> bytes" where
  "rx_hash hw k12 cfg D algo x =
     fst (the (randomx_calculate_hash (vm_run (over_dataset hw D) cfg) (over_dataset hw D) cfg k12 algo idle_vm x))"

definition rx_primed :: "hw \<Rightarrow> (bytes \<Rightarrow> bytes) \<Rightarrow> rx_config \<Rightarrow> algo_id \<Rightarrow> machine \<Rightarrow> line \<Rightarrow> bytes \<Rightarrow> bool" where
  "rx_primed hw k12 cfg algo mc t x \<longleftrightarrow>
     (let i = initScratchpad (over_dataset hw (mc_dataset mc)) cfg (seed_hash k12 algo x) idle_vm
      in v_sp (mc_vm mc) = v_sp (fst i) \<and> t = snd i)"

interpretation rxhash: pipelined_hash "rx_first hw k12 (applyAlgoConfig a)" "rx_next hw impl k12 (applyAlgoConfig a)"
  "rx_hash hw k12 (applyAlgoConfig a)" "mc_dataset :: machine \<Rightarrow> _" "rx_primed hw k12 (applyAlgoConfig a)"
proof unfold_locales
  fix al v x
  show "rx_primed hw k12 (applyAlgoConfig a) al (fst (rx_first hw k12 (applyAlgoConfig a) al v x)) (snd (rx_first hw k12 (applyAlgoConfig a) al v x)) x"
    by (simp add: rx_primed_def rx_first_def randomx_calculate_hash_first_def v_sp_initScratchpad Let_def case_prod_beta)
  show "mc_dataset (fst (rx_first hw k12 (applyAlgoConfig a) al v x)) = mc_dataset v"
    by (simp add: rx_first_def case_prod_beta)
next
  fix al and v :: machine and t x y
  let ?cfg = "applyAlgoConfig a" and ?hw = "over_dataset hw (mc_dataset v)"
  assume "rx_primed hw k12 ?cfg al v t x"
  then have "v_sp (mc_vm v) = v_sp (fst (initScratchpad ?hw ?cfg (seed_hash k12 al x) idle_vm))"
    and "t = snd (initScratchpad ?hw ?cfg (seed_hash k12 al x) idle_vm)"
    by (simp_all add: rx_primed_def Let_def)
  from rxvm.next_step [OF refl scratchpad_size_64 impl_divides this]
  obtain out t' v' where
    "randomx_calculate_hash_next (vm_run ?hw ?cfg) ?hw ?cfg (impl_params impl) k12 al (mc_vm v) t y = Some (out, t', v')"
    "map_option fst (randomx_calculate_hash (vm_run ?hw ?cfg) ?hw ?cfg k12 al idle_vm x) = Some out"
    "v_sp v' = v_sp (fst (initScratchpad ?hw ?cfg (seed_hash k12 al y) idle_vm))"
    "t' = snd (initScratchpad ?hw ?cfg (seed_hash k12 al y) idle_vm)" by metis
  then show "\<exists>t' v'. rx_next hw impl k12 ?cfg al v t y = Some (rx_hash hw k12 ?cfg (mc_dataset v) al x, t', v')
      \<and> rx_primed hw k12 ?cfg al v' t' y \<and> mc_dataset v' = mc_dataset v"
    by (auto simp: rx_hash_def rx_primed_def rx_next_def Let_def)
qed

end
