(* ===== verification/Worker.thy ===== *)
theory Worker
  imports Rx_Hash Job
begin

text \<open>
  \<open>Worker.h\<close> and the mining loop of \<open>Worker.cpp\<close>: the nonce range of a worker, the double-buffered
  delivery of jobs as one thread sees it, and the pipelined loop that hashes, checks the target
  and submits shares.  Pausing and the interleaving of the threads are in \<open>Worker_Sync\<close>.

  The hash functions are arguments (\<open>first\<close>, \<open>next\<close>); what the loop relies on is the locale
  \<open>pipelined_hash\<close>, interpreted with the functions of \<open>Rx_Hash\<close>.  \<open>randomx().getVM\<close> and
  \<open>randomx().isSeedValid\<close> as they answer at a moment, and the configuration in force then (\<open>RandomX_CurrentConfig\<close> is
  global, and the hash functions read it), are a record.
\<close>

section \<open>State\<close>

datatype RxInstanceId = User | Dev

record 'v rx_env =
  e_getVM :: "RxInstanceId \<Rightarrow> int \<Rightarrow> 'v option"
  e_seedValid :: "RxInstanceId \<Rightarrow> string \<Rightarrow> bool"
  e_config :: rx_config

text \<open>Members of the class (\<open>w_\<close>) and locals of \<open>run\<close> (\<open>l_\<close>).\<close>

record ('v, 't) worker =
  w_id :: int
  w_nonceStart :: u32
  w_jobs :: "job list"
  w_readIndex :: nat
  w_sequence :: u64
  w_hashCount :: u64
  l_job :: job
  l_nonce :: u32
  l_prevNonce :: u32
  l_jobId :: string
  l_rxId :: RxInstanceId
  l_vm :: "'v option"
  l_algo :: algo_id
  l_first :: bool
  l_sequence :: u64
  l_temp :: "'t option"

text \<open>The constructor, and the locals as \<open>run\<close> initialises them.\<close>

definition nonce_start :: "int \<Rightarrow> u32" where
  "nonce_start wid = of_int (wid mod 256) * 0x01000000"

definition new_worker :: "int \<Rightarrow> ('v, 't) worker" where
  "new_worker wid = \<lparr>w_id = wid, w_nonceStart = nonce_start wid, w_jobs = [empty_job, empty_job],
     w_readIndex = 0, w_sequence = 0, w_hashCount = 0, l_job = empty_job,
     l_nonce = nonce_start wid, l_prevNonce = 0, l_jobId = '''', l_rxId = User, l_vm = None,
     l_algo = fromRxAlgo RX_0, l_first = True, l_sequence = 0, l_temp = None\<rparr>"

section \<open>Operations\<close>

definition setJob :: "job \<Rightarrow> ('v, 't) worker \<Rightarrow> ('v, 't) worker" where
  "setJob j w =
     (let writeIdx = 1 - w_readIndex w
      in w\<lparr>w_jobs := (w_jobs w)[writeIdx := j], w_readIndex := writeIdx, w_sequence := w_sequence w + 1\<rparr>)"

text \<open>The instance whose machines serve a job: the user's whenever it has the seed.\<close>

definition job_instance :: "'v rx_env \<Rightarrow> job \<Rightarrow> RxInstanceId" where
  "job_instance env j =
     (if j_rxInstanceId j = 0 then User else if e_seedValid env User (j_seedHash j) then User else Dev)"

definition poll_job :: "'v rx_env \<Rightarrow> ('v, 't) worker \<Rightarrow> ('v, 't) worker" where
  "poll_job env w =
     (if w_sequence w \<noteq> l_sequence w
      then let j = w_jobs w ! w_readIndex w;
               w1 = w\<lparr>l_sequence := w_sequence w, l_job := j\<rparr>
           in if j_id j \<noteq> l_jobId w
              then let rxid = job_instance env j
                   in w1\<lparr>l_jobId := j_id j, l_nonce := w_nonceStart w, l_first := True, l_rxId := rxid,
                         l_vm := e_getVM env rxid (w_id w), l_algo := fromRxAlgo (j_rxAlgo j)\<rparr>
              else w1
      else w)"

definition nonce_advance :: "u32 \<Rightarrow> u32 \<Rightarrow> u32" where
  "nonce_advance start nonce =
     (let n = nonce + 1 in if n \<ge> start + 0x01000000 then start else n)"

definition hash_input :: "job \<Rightarrow> bytes" where
  "hash_input j = take (j_blobSize j) (j_blob j)"

text \<open>The share for a hash below the target.\<close>

definition make_result :: "('v, 't) worker \<Rightarrow> bytes \<Rightarrow> job_result option" where
  "make_result w hash =
     (let hashValue = load64 (drop 24 hash) in
      if hashValue < j_target (l_job w)
      then Some \<lparr>r_jobId = l_jobId w, r_nonce = l_prevNonce w, r_hash = hash,
                 r_actualDiff = (if hashValue > 0 then 0xFFFFFFFFFFFFFFFF div hashValue else 0),
                 r_rxInstanceId = j_rxInstanceId (l_job w)\<rparr>
      else None)"

type_synonym ('v, 't) first_fn = "algo_id \<Rightarrow> 'v \<Rightarrow> bytes \<Rightarrow> 'v \<times> 't"
type_synonym ('v, 't) next_fn = "algo_id \<Rightarrow> 'v \<Rightarrow> 't \<Rightarrow> bytes \<Rightarrow> (bytes \<times> 't \<times> 'v) option"

text \<open>The rest of the loop body once the job is there: priming, or one hash.\<close>

definition hash_step ::
  "('v, 't) first_fn \<Rightarrow> ('v, 't) next_fn \<Rightarrow> ('v, 't) worker \<Rightarrow> (('v, 't) worker \<times> job_result option) option" where
  "hash_step first next w =
     (case l_vm w of
        None \<Rightarrow> Some (w, None)
      | Some vm \<Rightarrow>
          if \<not> job_isValid (l_job w) then Some (w, None)
          else
            let j = job_setNonce (l_job w) (l_nonce w); nonce' = nonce_advance (w_nonceStart w) (l_nonce w) in
            if l_first w
            then let (vm', t) = first (l_algo w) vm (hash_input j)
                 in Some (w\<lparr>l_job := j, l_vm := Some vm', l_temp := Some t, l_prevNonce := l_nonce w,
                            l_nonce := nonce', l_first := False\<rparr>, None)
            else do { t \<leftarrow> l_temp w;
                      (hash, t', vm') \<leftarrow> next (l_algo w) vm t (hash_input j);
                      let w1 = w\<lparr>l_job := j\<rparr>;
                      Some (w1\<lparr>l_vm := Some vm', l_temp := Some t', w_hashCount := w_hashCount w + 1,
                               l_prevNonce := l_nonce w, l_nonce := nonce'\<rparr>, make_result w1 hash) })"

definition worker_iteration ::
  "(rx_config \<Rightarrow> ('v, 't) first_fn) \<Rightarrow> (rx_config \<Rightarrow> ('v, 't) next_fn) \<Rightarrow> 'v rx_env \<Rightarrow> ('v, 't) worker \<Rightarrow>
     (('v, 't) worker \<times> job_result option) option" where
  "worker_iteration first next env w = hash_step (first (e_config env)) (next (e_config env)) (poll_job env w)"

text \<open>What happens to a worker: a job is set, or its loop makes one pass.\<close>

datatype 'v wevent = SetJob job | Iterate "'v rx_env"

fun worker_trace ::
  "(rx_config \<Rightarrow> ('v, 't) first_fn) \<Rightarrow> (rx_config \<Rightarrow> ('v, 't) next_fn) \<Rightarrow> ('v, 't) worker \<Rightarrow> 'v wevent list \<Rightarrow>
     (('v, 't) worker \<times> job_result list) option" where
  "worker_trace first next w [] = Some (w, [])"
| "worker_trace first next w (SetJob j # es) = worker_trace first next (setJob j w) es"
| "worker_trace first next w (Iterate env # es) =
     do { (w1, res) \<leftarrow> worker_iteration first next env w;
          (w2, shares) \<leftarrow> worker_trace first next w1 es;
          Some (w2, (case res of None \<Rightarrow> shares | Some r \<Rightarrow> r # shares)) }"

section \<open>Nonces\<close>

lemma unat_nonce_start:
  assumes "0 \<le> wid"
  shows "unat (nonce_start wid) = nat (wid mod 256) * 2 ^ 24"
proof -
  define s where "s = nat (wid mod 256)"
  have "s < 256" and wid: "wid mod 256 = int s" by (auto simp: s_def)
  then show ?thesis
    by (simp add: nonce_start_def wid unat_mult_small unat_of_nat_small)
qed

lemma nonce_advance_step:
  assumes "unat start = s * 2 ^ 24" and "s < 255" and "unat n = s * 2 ^ 24 + i" and "i < 2 ^ 24"
  shows "unat (nonce_advance start n) = s * 2 ^ 24 + Suc i mod 2 ^ 24"
proof -
  have "unat (n + 1) = s * 2 ^ 24 + Suc i" and "unat (start + 0x01000000) = Suc s * 2 ^ 24"
    using assms by (simp_all add: unat_add_small)
  then show ?thesis
    using assms by (simp add: nonce_advance_def Let_def word_le_nat_alt mod_Suc)
qed

lemma unat_nonce_sequence:
  assumes "unat start = s * 2 ^ 24" and "s < 255"
  shows "unat ((nonce_advance start ^^ k) start) = s * 2 ^ 24 + k mod 2 ^ 24"
proof (induction k)
  case (Suc k)
  then show ?case
    using nonce_advance_step [OF assms Suc] by (simp add: mod_Suc_eq)
qed (simp add: assms)

text \<open>the k-th nonce of a worker is the start of its range plus k modulo \<open>2^24\<close>, and two workers
  whose ids differ modulo 256 never try the same nonce: the ranges partition the nonce space.
  The last range is excluded (\<open>last_worker_stuck\<close>).\<close>

theorem worker_nonces:
  assumes "0 \<le> a" and "a mod 256 < 255"
  shows "unat ((nonce_advance (nonce_start a) ^^ k) (nonce_start a)) = nat (a mod 256) * 2 ^ 24 + k mod 2 ^ 24
    \<and> (\<forall>b l. 0 \<le> b \<and> b mod 256 < 255 \<and> b mod 256 \<noteq> a mod 256 \<longrightarrow>
        (nonce_advance (nonce_start a) ^^ k) (nonce_start a) \<noteq> (nonce_advance (nonce_start b) ^^ l) (nonce_start b))"
proof -
  have seq: "unat ((nonce_advance (nonce_start i) ^^ n) (nonce_start i)) = nat (i mod 256) * 2 ^ 24 + n mod 2 ^ 24"
    if "0 \<le> i" "i mod 256 < 255" for i n
    using that by (intro unat_nonce_sequence unat_nonce_start) auto
  have div: "unat ((nonce_advance (nonce_start i) ^^ n) (nonce_start i)) div 2 ^ 24 = nat (i mod 256)"
    if "0 \<le> i" "i mod 256 < 255" for i n
    by (simp add: seq [OF that])
  have "nat (b mod 256) \<noteq> nat (a mod 256)" if "b mod 256 \<noteq> a mod 256" for b
    using that by (simp add: nat_eq_iff2)
  then show ?thesis using seq [OF assms] div assms by metis
qed

theorem worker_nonces_witness:
  "unat ((nonce_advance (nonce_start 3) ^^ 5) (nonce_start 3)) = 3 * 2 ^ 24 + 5
   \<and> (nonce_advance (nonce_start 3) ^^ 5) (nonce_start 3) \<noteq> (nonce_advance (nonce_start 260) ^^ 7) (nonce_start 260)"
  using worker_nonces [of 3 5] by simp

text \<open>the worker with id 255 (and every id congruent to it) only ever tries the first nonce of
  its range: the end of the range wraps to 0 in 32 bits, so every successor counts as exhausted.\<close>

theorem last_worker_stuck:
  assumes "wid mod 256 = 255"
  shows "nonce_advance (nonce_start wid) n = nonce_start wid \<and> nonce_start wid = 0xFF000000"
proof -
  have "nonce_start wid = 0xFF000000" using assms by (simp add: nonce_start_def)
  moreover have "(0xFF000000 :: u32) + 0x01000000 = 0"
    by (simp only: word_unat_eq_iff unat_word_ariths) simp
  ultimately show ?thesis by (simp only: nonce_advance_def Let_def) simp
qed

theorem last_worker_stuck_witness:
  "nonce_advance (nonce_start 255) 7 = nonce_start 255 \<and> nonce_start 255 = 0xFF000000"
  by (rule last_worker_stuck) simp

section \<open>Shares\<close>

text \<open>Two jobs that describe the same work.\<close>

definition same_work :: "job \<Rightarrow> job \<Rightarrow> bool" where
  "same_work a b \<longleftrightarrow> j_blob a = j_blob b \<and> j_blobSize a = j_blobSize b \<and> j_target a = j_target b
     \<and> j_rxAlgo a = j_rxAlgo b \<and> j_rxInstanceId a = j_rxInstanceId b \<and> j_seedHash a = j_seedHash b"

text \<open>The jobs a worker may see; equal ids mean equal work.\<close>

definition jobs_of :: "'v wevent list \<Rightarrow> job set" where
  "jobs_of es = insert empty_job {j. SetJob j \<in> set es}"

text \<open>The passes of the loop, by what \<open>randomx()\<close> answers in them.\<close>

definition passes_of :: "'v wevent list \<Rightarrow> 'v rx_env set" where
  "passes_of es = {env. Iterate env \<in> set es}"

definition ids_determine_work :: "job set \<Rightarrow> bool" where
  "ids_determine_work J \<longleftrightarrow> (\<forall>a\<in>J. job_inv a \<and> (\<forall>b\<in>J. j_id a = j_id b \<longrightarrow> same_work a b))"

text \<open>\<open>l_job\<close> is a job of \<open>J\<close> up to its nonce field.\<close>

definition job_from :: "job set \<Rightarrow> job \<Rightarrow> bool" where
  "job_from J k \<longleftrightarrow> (\<exists>j\<in>J. j_id k = j_id j \<and> j_target k = j_target j \<and> j_rxAlgo k = j_rxAlgo j
     \<and> j_rxInstanceId k = j_rxInstanceId j \<and> j_seedHash k = j_seedHash j \<and> j_blobSize k = j_blobSize j
     \<and> (\<forall>n. hash_input (job_setNonce k n) = hash_input (job_setNonce j n)) \<and> job_inv k)"

text \<open>
  A dataset to hash a job over: in some pass it is that of the worker's machine of the user's instance, and the job is the user's
  or has the seed of that instance; or it is that of the machine of the developer's instance, and neither is so.
\<close>

definition serves :: "('v \<Rightarrow> 'd) \<Rightarrow> 'v rx_env set \<Rightarrow> int \<Rightarrow> job \<Rightarrow> 'd \<Rightarrow> bool" where
  "serves source E wid j d \<longleftrightarrow> (\<exists>env\<in>E.
     if j_rxInstanceId j = 0 \<or> e_seedValid env User (j_seedHash j) then \<exists>v. e_getVM env User wid = Some v \<and> source v = d
     else \<exists>v. e_getVM env Dev wid = Some v \<and> source v = d)"

lemma serves_instance:
  "serves source E wid j d \<longleftrightarrow> (\<exists>env\<in>E. \<exists>v. e_getVM env (job_instance env j) wid = Some v \<and> source v = d)"
  unfolding serves_def job_instance_def by (rule bex_cong) auto

definition worker_inv ::
  "('v \<Rightarrow> 'd) \<Rightarrow> (algo_id \<Rightarrow> 'v \<Rightarrow> 't \<Rightarrow> bytes \<Rightarrow> bool) \<Rightarrow> 'v rx_env set \<Rightarrow> int \<Rightarrow> job set \<Rightarrow> ('v, 't) worker \<Rightarrow> bool" where
  "worker_inv source primed E wid J w \<longleftrightarrow> length (w_jobs w) = 2 \<and> w_readIndex w < 2 \<and> set (w_jobs w) \<subseteq> J \<and> w_id w = wid
     \<and> job_from J (l_job w)
     \<and> (\<forall>v. l_vm w = Some v \<longrightarrow> l_jobId w = j_id (l_job w) \<and> l_algo w = fromRxAlgo (j_rxAlgo (l_job w))
          \<and> serves source E wid (l_job w) (source v))
     \<and> (\<not> l_first w \<longrightarrow> (\<exists>v t. l_vm w = Some v \<and> l_temp w = Some t
          \<and> primed (l_algo w) v t (hash_input (job_setNonce (l_job w) (l_prevNonce w)))))"

definition share_ok ::
  "('d \<Rightarrow> algo_id \<Rightarrow> bytes \<Rightarrow> bytes) \<Rightarrow> ('v \<Rightarrow> 'd) \<Rightarrow> 'v rx_env set \<Rightarrow> int \<Rightarrow> job set \<Rightarrow> job_result \<Rightarrow> bool" where
  "share_ok hash source E wid J r \<longleftrightarrow> (\<exists>j\<in>J. r_jobId r = j_id j \<and> 0 < j_blobSize j
     \<and> (\<exists>d. serves source E wid j d \<and> r_hash r = hash d (fromRxAlgo (j_rxAlgo j)) (hash_input (job_setNonce j (r_nonce r))))
     \<and> load64 (drop 24 (r_hash r)) < j_target j \<and> r_rxInstanceId r = j_rxInstanceId j)"

lemma job_from_self: "j \<in> J \<Longrightarrow> job_inv j \<Longrightarrow> job_from J j"
  by (auto simp: job_from_def)

lemma job_from_setNonce:
  assumes "job_from J k"
  shows "job_from J (job_setNonce k n)"
  using assms job_setNonce_overwrites [of k n]
  by (auto simp: job_from_def)

lemma job_instance_cong:
  "j_rxInstanceId a = j_rxInstanceId b \<Longrightarrow> j_seedHash a = j_seedHash b \<Longrightarrow> job_instance env a = job_instance env b"
  by (simp add: job_instance_def)

lemma serves_cong:
  "j_rxInstanceId a = j_rxInstanceId b \<Longrightarrow> j_seedHash a = j_seedHash b \<Longrightarrow> serves source E wid a d = serves source E wid b d"
  by (simp add: serves_instance job_instance_cong [of a b])

lemma serves_setNonce [simp]: "serves source E wid (job_setNonce j n) d = serves source E wid j d"
  by (rule serves_cong) (simp_all add: job_setNonce_def)

lemma worker_inv_new: "worker_inv source primed E wid (insert empty_job J) (new_worker wid)"
  by (auto simp: worker_inv_def new_worker_def job_from_def)

lemma worker_inv_setJob:
  assumes "worker_inv source primed E wid J w" and "j \<in> J"
  shows "worker_inv source primed E wid J (setJob j w)"
  using assms set_update_subset_insert [of "w_jobs w" "Suc 0 - w_readIndex w" j]
  by (auto simp: worker_inv_def setJob_def Let_def)

text \<open>A job with the id of the current one hashes the same inputs, on the same machines.\<close>

lemma same_id_same_input:
  assumes "ids_determine_work J" and "j \<in> J" and "job_from J k" and "j_id k = j_id j"
  shows "hash_input (job_setNonce j n) = hash_input (job_setNonce k n)" and "j_rxAlgo j = j_rxAlgo k"
    and "serves source E wid j d = serves source E wid k d"
proof -
  obtain j' where j': "j' \<in> J" "j_id k = j_id j'" "j_rxAlgo k = j_rxAlgo j'" "j_rxInstanceId k = j_rxInstanceId j'"
    "j_seedHash k = j_seedHash j'" "hash_input (job_setNonce k n) = hash_input (job_setNonce j' n)"
    using assms(3) unfolding job_from_def by blast
  then have work: "same_work j j'" using assms(1,2,4) unfolding ids_determine_work_def by metis
  then show "hash_input (job_setNonce j n) = hash_input (job_setNonce k n)" "j_rxAlgo j = j_rxAlgo k"
    using j' by (auto simp: same_work_def hash_input_def job_setNonce_def)
  show "serves source E wid j d = serves source E wid k d" using work j' by (intro serves_cong) (simp_all add: same_work_def)
qed

lemma worker_inv_poll:
  assumes inv: "worker_inv source primed E wid J w" and J: "ids_determine_work J" and env: "env \<in> E"
  shows "worker_inv source primed E wid J (poll_job env w)"
proof (cases "w_sequence w = l_sequence w")
  case False
  let ?j = "w_jobs w ! w_readIndex w"
  have "?j \<in> set (w_jobs w)" using inv by (simp add: worker_inv_def)
  moreover have "set (w_jobs w) \<subseteq> J" using inv by (simp add: worker_inv_def)
  ultimately have j: "?j \<in> J" by blast
  then have from': "job_from J ?j" using J by (auto simp: ids_determine_work_def intro: job_from_self)
  show ?thesis
  proof (cases "j_id ?j = l_jobId w")
    case same: True
    have "hash_input (job_setNonce ?j n) = hash_input (job_setNonce (l_job w) n)"
      and "j_rxAlgo ?j = j_rxAlgo (l_job w)" and "serves source E wid ?j d = serves source E wid (l_job w) d"
      if "l_vm w = Some v" for n v d
      using same_id_same_input(1,2) [OF J j, of "l_job w"] same_id_same_input(3) [OF J j, of "l_job w" source E wid d] inv same that
      by (auto simp: worker_inv_def)
    then show ?thesis using inv from' False same by (auto simp: worker_inv_def poll_job_def Let_def)
  next
    case False
    then show ?thesis using inv from' env \<open>w_sequence w \<noteq> l_sequence w\<close>
      by (auto simp: worker_inv_def poll_job_def serves_instance Let_def)
  qed
qed (use inv in \<open>simp add: poll_job_def\<close>)

context pipelined_hash
begin

lemma hash_step_ok:
  assumes inv: "worker_inv source primed E wid J w"
  obtains w' res where "hash_step first nexth w = Some (w', res)" and "worker_inv source primed E wid J w'"
    and "\<And>r. res = Some r \<Longrightarrow> share_ok hash source E wid J r"
proof -
  let ?j = "job_setNonce (l_job w) (l_nonce w)"
  have jf: "job_from J (l_job w)" using inv by (simp add: worker_inv_def)
  note jf' = job_from_setNonce [OF jf, of "l_nonce w"]
  have over: "job_setNonce ?j n = job_setNonce (l_job w) n" for n
    using jf by (auto simp: job_from_def intro: job_setNonce_overwrites)
  show thesis
  proof (cases "l_vm w")
    case None
    then show thesis using that inv by (simp add: hash_step_def)
  next
    case (Some vm)
    have cur: "l_jobId w = j_id (l_job w)" "l_algo w = fromRxAlgo (j_rxAlgo (l_job w))" "serves source E wid (l_job w) (source vm)"
      using inv Some by (simp_all add: worker_inv_def)
    consider "\<not> job_isValid (l_job w)" | "job_isValid (l_job w)" "l_first w" | "job_isValid (l_job w)" "\<not> l_first w"
      by blast
    then show thesis
    proof cases
      case 1
      then show thesis using that inv Some by (simp add: hash_step_def)
    next
      case 2
      let ?ft = "first (l_algo w) vm (hash_input ?j)"
      let ?w = "w\<lparr>l_job := ?j, l_vm := Some (fst ?ft), l_temp := Some (snd ?ft), l_prevNonce := l_nonce w,
        l_nonce := nonce_advance (w_nonceStart w) (l_nonce w), l_first := False\<rparr>"
      have "hash_step first nexth w = Some (?w, None)"
        using Some 2 by (simp add: hash_step_def Let_def case_prod_beta)
      moreover have "worker_inv source primed E wid J ?w"
        using inv jf' cur over first_primes [of "l_algo w" vm "hash_input ?j"] by (simp add: worker_inv_def first_source)
      ultimately show thesis using that by blast
    next
      case 3
      obtain t where t: "l_temp w = Some t"
        and pr: "primed (l_algo w) vm t (hash_input (job_setNonce (l_job w) (l_prevNonce w)))"
        using inv 3(2) Some by (auto simp: worker_inv_def)
      let ?h = "hash (source vm) (l_algo w) (hash_input (job_setNonce (l_job w) (l_prevNonce w)))"
      obtain t' v' where nx: "nexth (l_algo w) vm t (hash_input ?j) = Some (?h, t', v')"
        "primed (l_algo w) v' t' (hash_input ?j)" "source v' = source vm"
        using next_hashes [OF pr] by blast
      let ?w = "w\<lparr>l_job := ?j, l_vm := Some v', l_temp := Some t', w_hashCount := w_hashCount w + 1,
        l_prevNonce := l_nonce w, l_nonce := nonce_advance (w_nonceStart w) (l_nonce w)\<rparr>"
      have step: "hash_step first nexth w = Some (?w, make_result (w\<lparr>l_job := ?j\<rparr>) ?h)"
        using Some 3 t nx(1) by (simp add: hash_step_def Let_def)
      moreover have "worker_inv source primed E wid J ?w" using inv jf' cur over nx(2,3) 3(2) by (simp add: worker_inv_def)
      moreover have "share_ok hash source E wid J r" if "make_result (w\<lparr>l_job := ?j\<rparr>) ?h = Some r" for r
      proof -
        obtain j where j: "j \<in> J" "j_id (l_job w) = j_id j" "j_target (l_job w) = j_target j" "j_rxAlgo (l_job w) = j_rxAlgo j"
          "j_rxInstanceId (l_job w) = j_rxInstanceId j" "j_seedHash (l_job w) = j_seedHash j" "j_blobSize (l_job w) = j_blobSize j"
          "\<And>n. hash_input (job_setNonce (l_job w) n) = hash_input (job_setNonce j n)" using jf by (auto simp: job_from_def)
        then have "serves source E wid j (source vm)" using cur(3) serves_cong [of "l_job w" j source E wid "source vm"] by simp
        moreover have "r_jobId r = j_id j" "r_hash r = ?h" "r_nonce r = l_prevNonce w" "r_rxInstanceId r = j_rxInstanceId j"
          "load64 (drop 24 ?h) < j_target j" "0 < j_blobSize j"
          using that cur j(2-7) 3(1) by (auto simp: make_result_def job_isValid_def Let_def split: if_splits)
        ultimately show ?thesis unfolding share_ok_def using cur(2) j(1,4,8) by (intro bexI [of _ j]) auto
      qed
      ultimately show thesis using that by blast
    qed
  qed
qed

lemma worker_trace_ok:
  assumes "worker_inv source primed E wid J w" and "ids_determine_work J" and "{j. SetJob j \<in> set es} \<subseteq> J" and "passes_of es \<subseteq> E"
    and "\<And>env. env \<in> E \<Longrightarrow> F (e_config env) = first \<and> N (e_config env) = nexth"
  shows "\<exists>w' shares. worker_trace F N w es = Some (w', shares) \<and> worker_inv source primed E wid J w'
    \<and> (\<forall>r\<in>set shares. share_ok hash source E wid J r)"
  using assms(1,3,4)
proof (induction es arbitrary: w)
  case (Cons e es)
  show ?case
  proof (cases e)
    case (SetJob j)
    then show ?thesis using Cons.IH [of "setJob j w"] Cons.prems worker_inv_setJob [of source primed E wid J w j]
      by (auto simp: passes_of_def)
  next
    case (Iterate env)
    then have env: "env \<in> E" using Cons.prems(3) by (auto simp: passes_of_def)
    obtain w1 res where step: "hash_step first nexth (poll_job env w) = Some (w1, res)"
      "worker_inv source primed E wid J w1" "\<And>r. res = Some r \<Longrightarrow> share_ok hash source E wid J r"
      using hash_step_ok [OF worker_inv_poll [OF Cons.prems(1) assms(2) env]] by blast
    obtain w2 shares where "worker_trace F N w1 es = Some (w2, shares)" "worker_inv source primed E wid J w2"
      "\<forall>r\<in>set shares. share_ok hash source E wid J r"
      using Cons.IH [OF step(2)] Cons.prems(2,3) by (auto simp: passes_of_def)
    then show ?thesis using Iterate step assms(5) [OF env] by (auto simp: worker_iteration_def split: option.splits)
  qed
qed simp

end


definition example_pass :: "machine rx_env" where
  "example_pass = \<lparr>e_getVM = \<lambda>rid _. if rid = User then Some \<lparr>mc_dataset = \<lambda>n. word_of_nat n, mc_vm = idle_vm\<rparr> else None,
     e_seedValid = \<lambda>_ _. True, e_config = applyAlgoConfig RX_WOW\<rparr>"

definition example_job :: job where
  "example_job = empty_job\<lparr>j_id := ''a'', j_blobSize := 76, j_target := 5, j_diff := 1\<rparr>"


end
