(* ===== verification/Ar2_Blake2.thy ===== *)
theory Ar2_Blake2
  imports Blake2b
begin

text \<open>
  \<open>crypto/argon2/lib/blake2/blake2.c\<close>: the second BLAKE2b of the program, the one the Argon2
  library uses.  Its state has no finalisation flag, no last-node flag and no digest length, its
  \<open>init\<close> writes the parameter block into the first chaining word, and no call reports an error.
  The file proves it a refinement of the streaming BLAKE2b of \<open>Blake2b\<close> (through the abstraction
  \<open>rx_of\<close>) and its variable-length hash equal to \<open>rxa2_blake2b_long\<close>.  The byte order routines
  of \<open>blake2-impl.h\<close> are those of \<open>Bytes\<close>; a state that the code leaves uninitialised is an
  arbitrary argument.
\<close>

section \<open>State and operations\<close>

record ar2_state =
  a_h :: "u64 list"
  a_t0 :: u64
  a_t1 :: u64
  a_buf :: bytes
  a_buflen :: nat

text \<open>\<open>FLAG_clear_internal_memory\<close> is a global that nothing assigns; its initial value is 0.\<close>

definition FLAG_clear_internal_memory :: int where
  "FLAG_clear_internal_memory = 0"

definition zenrx_ar2_secure_wipe_memory :: "'a::zero list \<Rightarrow> nat \<Rightarrow> 'a list" where
  "zenrx_ar2_secure_wipe_memory v n = memset_at v 0 0 n"

definition zenrx_ar2_clear_internal_memory :: "'a::zero list \<Rightarrow> nat \<Rightarrow> 'a list" where
  "zenrx_ar2_clear_internal_memory v n =
     (if FLAG_clear_internal_memory \<noteq> 0 then zenrx_ar2_secure_wipe_memory v n else v)"

definition ar2_compress :: "ar2_state \<Rightarrow> bytes \<Rightarrow> u64 \<Rightarrow> ar2_state" where
  "ar2_compress S block f0 =
     (let m = map (\<lambda>i. load64 (drop (i * 8) block)) [0..<16];
          v = take 8 (a_h S)
              @ [blake2b_IV ! 0, blake2b_IV ! 1, blake2b_IV ! 2, blake2b_IV ! 3,
                 blake2b_IV ! 4 XOR a_t0 S, blake2b_IV ! 5 XOR a_t1 S,
                 blake2b_IV ! 6 XOR f0, blake2b_IV ! 7];
          v = foldl (\<lambda>v r. blake2b_ROUND m r v) v [0..<12]
      in S\<lparr>a_h := map (\<lambda>i. a_h S ! i XOR v ! i XOR v ! (i + 8)) [0..<8]\<rparr>)"

definition ar2_increment_counter :: "ar2_state \<Rightarrow> u64 \<Rightarrow> ar2_state" where
  "ar2_increment_counter S inc =
     (let S = S\<lparr>a_t0 := a_t0 S + inc\<rparr> in
      S\<lparr>a_t1 := a_t1 S + (if a_t0 S < inc then 1 else 0)\<rparr>)"

definition ar2_init_state :: "ar2_state \<Rightarrow> ar2_state" where
  "ar2_init_state S = S\<lparr>a_h := blake2b_IV, a_t0 := 0, a_t1 := 0, a_buflen := 0\<rparr>"

definition zenrx_ar2_blake2b_init :: "ar2_state \<Rightarrow> nat \<Rightarrow> ar2_state" where
  "zenrx_ar2_blake2b_init S outlen =
     (let S = ar2_init_state S in
      S\<lparr>a_h := (a_h S)[0 := a_h S ! 0 XOR (of_nat outlen OR push_bit 16 1 OR push_bit 24 1)]\<rparr>)"

text \<open>\<open>while (inlen > BLAKE2B_BLOCKBYTES)\<close>.\<close>

function ar2_blocks :: "ar2_state \<Rightarrow> bytes \<Rightarrow> ar2_state \<times> bytes" where
  "ar2_blocks S pin =
     (if BLAKE2B_BLOCKBYTES < length pin
      then ar2_blocks
             (ar2_compress (ar2_increment_counter S 128) (take BLAKE2B_BLOCKBYTES pin) 0)
             (drop BLAKE2B_BLOCKBYTES pin)
      else (S, pin))"
  by pat_completeness auto
termination by (relation "measure (\<lambda>(S, pin). length pin)") auto

declare ar2_blocks.simps [simp del]

definition zenrx_ar2_blake2b_update :: "ar2_state \<Rightarrow> bytes \<Rightarrow> nat \<Rightarrow> ar2_state" where
  "zenrx_ar2_blake2b_update S input inlen =
     (let pin = take inlen input;
          (S, pin) =
            (if BLAKE2B_BLOCKBYTES < a_buflen S + inlen then
               let left = a_buflen S;
                   fill = BLAKE2B_BLOCKBYTES - left;
                   S = S\<lparr>a_buf := memcpy_at (a_buf S) left pin fill\<rparr>;
                   S = ar2_increment_counter S 128;
                   S = ar2_compress S (a_buf S) 0;
                   S = S\<lparr>a_buflen := 0\<rparr>
               in ar2_blocks S (drop fill pin)
             else (S, pin))
      in S\<lparr>a_buf := memcpy_at (a_buf S) (a_buflen S) pin (length pin),
           a_buflen := a_buflen S + length pin\<rparr>)"

text \<open>The bytes written to \<open>out\<close> come back beside the state.\<close>

definition zenrx_ar2_blake2b_final :: "ar2_state \<Rightarrow> nat \<Rightarrow> ar2_state \<times> bytes" where
  "zenrx_ar2_blake2b_final S outlen =
     (let S = ar2_increment_counter S (of_nat (a_buflen S));
          S = S\<lparr>a_buf := memset_at (a_buf S) (a_buflen S) 0 (BLAKE2B_BLOCKBYTES - a_buflen S)\<rparr>;
          S = ar2_compress S (a_buf S) 0xFFFFFFFFFFFFFFFF;
          buffer = concat (map store64 (a_h S));
          out = take outlen buffer
      in (S\<lparr>a_buf := zenrx_ar2_clear_internal_memory (a_buf S) BLAKE2B_BLOCKBYTES,
            a_h := zenrx_ar2_clear_internal_memory (a_h S) 8\<rparr>, out))"

text \<open>
  The \<open>while (toproduce > BLAKE2B_OUTBYTES)\<close> loop: the bytes appended to \<open>out\<close>, the last 64-byte
  digest, what remains to produce and the hash state.
\<close>

function ar2_long_loop ::
  "ar2_state \<Rightarrow> u32 \<Rightarrow> bytes \<Rightarrow> bytes \<Rightarrow> ar2_state \<times> bytes \<times> bytes \<times> u32" where
  "ar2_long_loop S toproduce out_buffer out =
     (if 64 < toproduce then
        let S = zenrx_ar2_blake2b_init S BLAKE2B_OUTBYTES;
            S = zenrx_ar2_blake2b_update S out_buffer BLAKE2B_OUTBYTES;
            (S, ob) = zenrx_ar2_blake2b_final S BLAKE2B_OUTBYTES
        in ar2_long_loop S (toproduce - 32) ob (out @ take 32 ob)
      else (S, out, out_buffer, toproduce))"
  by pat_completeness auto
termination
  by (relation "measure (\<lambda>(S, n, b, out). unat n)")
    (auto simp: word_less_nat_alt word_le_nat_alt unat_sub)

declare ar2_long_loop.simps [simp del]

text \<open>\<open>S\<close> is the uninitialised local \<open>blake_state\<close>.\<close>

definition zenrx_ar2_blake2b_long :: "ar2_state \<Rightarrow> nat \<Rightarrow> bytes \<Rightarrow> nat \<Rightarrow> bytes" where
  "zenrx_ar2_blake2b_long S outlen input inlen =
     (let outlen_bytes = store32 (of_nat outlen) in
      if outlen \<le> BLAKE2B_OUTBYTES then
        let S = zenrx_ar2_blake2b_init S outlen;
            S = zenrx_ar2_blake2b_update S outlen_bytes 4;
            S = zenrx_ar2_blake2b_update S input inlen
        in snd (zenrx_ar2_blake2b_final S outlen)
      else
        let S = zenrx_ar2_blake2b_init S BLAKE2B_OUTBYTES;
            S = zenrx_ar2_blake2b_update S outlen_bytes 4;
            S = zenrx_ar2_blake2b_update S input inlen;
            (S, out_buffer) = zenrx_ar2_blake2b_final S BLAKE2B_OUTBYTES;
            (S, out, out_buffer, toproduce) =
              ar2_long_loop S (of_nat outlen - 32) out_buffer (take 32 out_buffer);
            S = zenrx_ar2_blake2b_init S (unat toproduce);
            S = zenrx_ar2_blake2b_update S out_buffer BLAKE2B_OUTBYTES
        in out @ snd (zenrx_ar2_blake2b_final S (unat toproduce)))"

section \<open>Refinement of the streaming BLAKE2b\<close>

text \<open>The state of \<open>Blake2b\<close> that a state of this file stands for, for digests of n bytes.\<close>

definition rx_of :: "nat \<Rightarrow> ar2_state \<Rightarrow> blake2b_state" where
  "rx_of n A = \<lparr>b_h = a_h A, b_t0 = a_t0 A, b_t1 = a_t1 A, b_f0 = 0, b_f1 = 0,
     b_buf = a_buf A, b_buflen = a_buflen A, b_outlen = n, b_last_node = 0\<rparr>"

lemma rx_of_sel [simp]:
  "b_h (rx_of n A) = a_h A" "b_t0 (rx_of n A) = a_t0 A" "b_t1 (rx_of n A) = a_t1 A"
  "b_f0 (rx_of n A) = 0" "b_f1 (rx_of n A) = 0" "b_buf (rx_of n A) = a_buf A"
  "b_buflen (rx_of n A) = a_buflen A" "b_outlen (rx_of n A) = n" "b_last_node (rx_of n A) = 0"
  by (simp_all add: rx_of_def)

lemma rx_of_upd:
  "rx_of n (A\<lparr>a_buf := x\<rparr>) = (rx_of n A)\<lparr>b_buf := x\<rparr>"
  "rx_of n (A\<lparr>a_buflen := y\<rparr>) = (rx_of n A)\<lparr>b_buflen := y\<rparr>"
  by (simp_all add: rx_of_def)

lemma rx_of_compress: "rx_of n (ar2_compress A b 0) = rx_blake2b_compress (rx_of n A) b"
  by (simp add: rx_of_def ar2_compress_def rx_blake2b_compress_integer_def Let_def)

lemma rx_of_increment: "rx_of n (ar2_increment_counter A i) = blake2b_increment_counter (rx_of n A) i"
  by (simp add: rx_of_def ar2_increment_counter_def blake2b_increment_counter_def Let_def)

lemmas rx_of_ops = rx_of_upd rx_of_compress rx_of_increment

lemma ar2_frame [simp]:
  "a_buf (ar2_increment_counter A i) = a_buf A" "a_buflen (ar2_increment_counter A i) = a_buflen A"
  "a_h (ar2_increment_counter A i) = a_h A"
  "a_buf (ar2_compress A b f) = a_buf A" "a_buflen (ar2_compress A b f) = a_buflen A"
  "a_t0 (ar2_compress A b f) = a_t0 A" "a_t1 (ar2_compress A b f) = a_t1 A"
  "length (a_h (ar2_compress A b f)) = 8"
  "a_h (ar2_compress (A\<lparr>a_buf := x\<rparr>) b f) = a_h (ar2_compress A b f)"
  by (simp_all add: ar2_increment_counter_def ar2_compress_def Let_def)

lemma rx_of_blocks:
  "blake2b_blocks (rx_of n A) pin = (case ar2_blocks A pin of (A', r) \<Rightarrow> (rx_of n A', r))"
proof (induction A pin rule: ar2_blocks.induct)
  case (1 A pin)
  show ?case
  proof (cases "128 < length pin")
    case True
    with 1 show ?thesis
      by (subst ar2_blocks.simps) (simp add: blake2b_blocks_long rx_of_ops)
  next
    case False
    then show ?thesis
      by (subst ar2_blocks.simps) (simp add: blake2b_blocks_short)
  qed
qed

lemma rx_of_update:
  "rx_blake2b_update (rx_of n A) (Some bs) inlen = (rx_of n (zenrx_ar2_blake2b_update A bs inlen), 0)"
  if "a_buflen A \<le> 128" and "length (a_buf A) = 128"
proof (cases "inlen = 0")
  case True
  then show ?thesis
    using that
    by (simp add: rx_blake2b_update_def zenrx_ar2_blake2b_update_def memcpy_at_def rx_of_def)
next
  case False
  then show ?thesis
    by (simp add: rx_blake2b_update_def zenrx_ar2_blake2b_update_def Let_def rx_of_ops [symmetric]
        rx_of_blocks split: prod.splits)
qed

lemma load64_zeros: "load64 (replicate n 0) = 0" if "8 \<le> n"
  using that by (simp add: load64_def)

lemma store_le_0: "store_le n 0 = replicate n 0"
  by (induction n) simp_all

lemma unkeyed_param_words:
  assumes "n \<le> 64"
  shows "map (\<lambda>i. load64 (drop (i * 8) (param_bytes (unkeyed_param n)))) [0..<8] =
    [of_nat n OR push_bit 16 1 OR push_bit 24 1, 0, 0, 0, 0, 0, 0, 0]"
proof -
  have p: "param_bytes (unkeyed_param n) = [of_nat n, 0, 1, 1] @ replicate 60 0"
    by (simp add: param_bytes_def unkeyed_param_def store32_def store64_def store_le_0
        replicate_add [symmetric] numeral_eq_Suc)
  have "ucast (of_nat n :: u8) = (of_nat n :: u64)"
    using assms by (simp add: word_unat_eq_iff unat_ucast_up unat_of_nat_small)
  then have z: "load64 (param_bytes (unkeyed_param n)) = of_nat n OR push_bit 16 1 OR push_bit 24 1"
    by (simp add: p load64_def)
  have r: "load64 (drop (i * 8) (param_bytes (unkeyed_param n))) = 0" if "0 < i" "i < 8" for i
    using that by (simp add: p drop_Cons' load64_zeros)
  show ?thesis
    using z r [of 1] r [of 2] r [of 3] r [of 4] r [of 5] r [of 6] r [of 7] by (simp add: upt_rec)
qed

lemma rx_of_init:
  assumes "0 < n" and "n \<le> 64"
  shows "b2_core (rx_of n (zenrx_ar2_blake2b_init A n)) = b2_core (fst (rx_blake2b_init X n))"
    and "a_buflen (zenrx_ar2_blake2b_init A n) = 0"
    and "a_buf (zenrx_ar2_blake2b_init A n) = a_buf A"
    and "length (a_h (zenrx_ar2_blake2b_init A n)) = 8"
proof -
  let ?w = "map (\<lambda>i. load64 (drop (i * 8) (param_bytes (unkeyed_param n)))) [0..<8]"
  have "b_h (fst (rx_blake2b_init X n)) = map (\<lambda>i. blake2b_IV ! i XOR ?w ! i) [0..<8]"
    using assms by (simp add: rx_blake2b_init_def rx_blake2b_init_param_def Let_def blake2b_init0_def)
  also have "\<dots> = blake2b_IV[0 := blake2b_IV ! 0 XOR (of_nat n OR push_bit 16 1 OR push_bit 24 1)]"
    unfolding unkeyed_param_words [OF assms(2)] by (simp add: upt_rec blake2b_IV_def)
  finally show "b2_core (rx_of n (zenrx_ar2_blake2b_init A n)) = b2_core (fst (rx_blake2b_init X n))"
    using assms
    by (simp add: zenrx_ar2_blake2b_init_def ar2_init_state_def Let_def b2_core_def rx_of_def
        rx_blake2b_init_def rx_blake2b_init_param_def blake2b_init0_def unkeyed_param_def
        unat_of_nat_small)
qed (simp_all add: zenrx_ar2_blake2b_init_def ar2_init_state_def blake2b_IV_def Let_def)

definition ar2_inv :: "ar2_state \<Rightarrow> bool" where
  "ar2_inv A \<longleftrightarrow> length (a_h A) = 8 \<and> length (a_buf A) = 128 \<and> a_buflen A \<le> 128"

lemma ar2_inv_rx_of: "n \<le> 64 \<Longrightarrow> blake2b_inv (rx_of n A) \<longleftrightarrow> ar2_inv A"
  by (simp add: ar2_inv_def blake2b_inv_def)

lemma ar2_update_abs:
  assumes "ar2_inv A" and "inlen \<le> length bs" and "n \<le> 64"
  defines "A' \<equiv> zenrx_ar2_blake2b_update A bs inlen"
  shows "ar2_inv A'" and "blake2b_blocks (b2_core (rx_of n A)) (b2_tail (rx_of n A) @ take inlen bs) =
    (b2_core (rx_of n A'), b2_tail (rx_of n A'))"
proof -
  have "rx_blake2b_update (rx_of n A) (Some bs) inlen = (rx_of n A', 0)"
    using assms(1) unfolding A'_def by (intro rx_of_update) (simp_all add: ar2_inv_def)
  moreover obtain S' where "rx_blake2b_update (rx_of n A) (Some bs) inlen = (S', 0)" and "blake2b_inv S'"
    and "blake2b_blocks (b2_core (rx_of n A)) (b2_tail (rx_of n A) @ take inlen bs) = (b2_core S', b2_tail S')"
    using rx_blake2b_update_abs [of "rx_of n A" inlen bs] assms ar2_inv_rx_of [OF assms(3)] by auto
  ultimately show "ar2_inv A'" and "blake2b_blocks (b2_core (rx_of n A)) (b2_tail (rx_of n A) @ take inlen bs) =
    (b2_core (rx_of n A'), b2_tail (rx_of n A'))"
    using ar2_inv_rx_of [OF assms(3)] by auto
qed

lemma clear_off [simp]: "zenrx_ar2_clear_internal_memory v n = v"
  by (simp add: zenrx_ar2_clear_internal_memory_def FLAG_clear_internal_memory_def)

lemma all_ones_u64: "(0xFFFFFFFFFFFFFFFF :: u64) = -1"
  by simp

lemma ar2_compress_last:
  "b_h (rx_blake2b_compress (blake2b_set_lastblock (rx_of n A)) b) = a_h (ar2_compress A b 0xFFFFFFFFFFFFFFFF)"
  by (simp add: rx_of_def ar2_compress_def rx_blake2b_compress_integer_def blake2b_set_lastblock_def Let_def all_ones_u64)

lemma ar2_final_abs:
  assumes "ar2_inv A" and "n \<le> 64"
  shows "snd (zenrx_ar2_blake2b_final A n) = b2_digest (b2_core (rx_of n A)) (b2_tail (rx_of n A))"
    and "length (a_buf (fst (zenrx_ar2_blake2b_final A n))) = 128"
proof -
  obtain S' where S': "rx_blake2b_final (rx_of n A) n = (S', 0, b2_digest (b2_core (rx_of n A)) (b2_tail (rx_of n A)))"
    using rx_blake2b_final_abs [of "rx_of n A" n] assms by (auto simp: ar2_inv_rx_of)
  have "snd (snd (rx_blake2b_final (rx_of n A) n)) = snd (zenrx_ar2_blake2b_final A n)"
    by (simp add: rx_blake2b_final_def zenrx_ar2_blake2b_final_def Let_def rx_of_increment [symmetric]
        ar2_compress_last rx_of_upd [symmetric])
  then show "snd (zenrx_ar2_blake2b_final A n) = b2_digest (b2_core (rx_of n A)) (b2_tail (rx_of n A))"
    using S' by simp
  show "length (a_buf (fst (zenrx_ar2_blake2b_final A n))) = 128"
    using assms by (simp add: zenrx_ar2_blake2b_final_def Let_def ar2_inv_def)
qed

text \<open>A message fed in pieces.\<close>

definition ar2_update_all :: "ar2_state \<Rightarrow> bytes list \<Rightarrow> ar2_state" where
  "ar2_update_all A cs = fold (\<lambda>c A. zenrx_ar2_blake2b_update A c (length c)) cs A"

lemma ar2_update_all_abs:
  assumes "ar2_inv A" and "n \<le> 64"
  shows "ar2_inv (ar2_update_all A cs) \<and>
    blake2b_blocks (b2_core (rx_of n A)) (b2_tail (rx_of n A) @ concat cs) =
      (b2_core (rx_of n (ar2_update_all A cs)), b2_tail (rx_of n (ar2_update_all A cs)))"
  using assms(1)
proof (induction cs arbitrary: A)
  case Nil
  then show ?case
    using length_b2_tail [of "rx_of n A"] assms(2)
    by (simp add: ar2_update_all_def blake2b_blocks_short ar2_inv_rx_of ar2_inv_def blake2b_inv_def)
next
  case (Cons c cs)
  let ?A = "zenrx_ar2_blake2b_update A c (length c)"
  have up: "ar2_inv ?A" "blake2b_blocks (b2_core (rx_of n A)) (b2_tail (rx_of n A) @ c) =
      (b2_core (rx_of n ?A), b2_tail (rx_of n ?A))"
    using ar2_update_abs [OF Cons.prems, of "length c" c n] assms(2) by auto
  show ?case
    using Cons.IH [OF up(1)] up(2) blake2b_blocks_append [of "b2_core (rx_of n A)" "b2_tail (rx_of n A) @ c" "concat cs"]
    by (simp add: ar2_update_all_def)
qed

lemma ar2_hash_all:
  assumes "0 < n" and "n \<le> 64" and "length (a_buf S) = 128"
  shows "snd (zenrx_ar2_blake2b_final (ar2_update_all (zenrx_ar2_blake2b_init S n) cs) n) = blake2b_hash n (concat cs)"
    and "length (a_buf (fst (zenrx_ar2_blake2b_final (ar2_update_all (zenrx_ar2_blake2b_init S n) cs) n))) = 128"
proof -
  let ?A = "zenrx_ar2_blake2b_init S n"
  let ?U = "ar2_update_all ?A cs"
  note init = rx_of_init(1) [OF assms(1,2), of S blake2b_init0] rx_of_init(2-4) [OF assms(1,2), of S]
  have inv: "ar2_inv ?A" using assms(3) init by (simp add: ar2_inv_def)
  have tl: "b2_tail (rx_of n ?A) = []" using init by (simp add: b2_tail_def)
  obtain R where R: "rx_blake2b_init blake2b_init0 n = (R, 0)"
    "\<And>bs. rx_blake2b_default n (Some bs) (length bs) =
           (0, case blake2b_blocks (b2_core R) bs of (C, r) \<Rightarrow> b2_digest C r)"
    using rx_blake2b_default_digest [OF assms(1,2)] by blast
  have all: "ar2_inv ?U" "blake2b_blocks (b2_core R) (concat cs) = (b2_core (rx_of n ?U), b2_tail (rx_of n ?U))"
    using ar2_update_all_abs [OF inv assms(2), of cs] tl init(1) R(1) by auto
  show "snd (zenrx_ar2_blake2b_final ?U n) = blake2b_hash n (concat cs)"
    using ar2_final_abs(1) [OF all(1) assms(2)] R(2) [of "concat cs"] all(2)
    by (simp add: blake2b_hash_def)
  show "length (a_buf (fst (zenrx_ar2_blake2b_final ?U n))) = 128"
    by (rule ar2_final_abs(2) [OF all(1) assms(2)])
qed

lemma ar2_hash_two:
  assumes "0 < n" and "n \<le> 64" and "length (a_buf S) = 128" and "length a = k" and "length b = l"
  shows "snd (zenrx_ar2_blake2b_final (zenrx_ar2_blake2b_update (zenrx_ar2_blake2b_update
      (zenrx_ar2_blake2b_init S n) a k) b l) n) = blake2b_hash n (a @ b)"
    and "length (a_buf (fst (zenrx_ar2_blake2b_final (zenrx_ar2_blake2b_update (zenrx_ar2_blake2b_update
      (zenrx_ar2_blake2b_init S n) a k) b l) n))) = 128"
  using ar2_hash_all [OF assms(1-3), of "[a, b]"] assms(4,5) by (simp_all add: ar2_update_all_def)

lemma ar2_hash_one:
  assumes "0 < n" and "n \<le> 64" and "length (a_buf S) = 128" and "length a = k"
  shows "snd (zenrx_ar2_blake2b_final (zenrx_ar2_blake2b_update
      (zenrx_ar2_blake2b_init S n) a k) n) = blake2b_hash n a"
    and "length (a_buf (fst (zenrx_ar2_blake2b_final (zenrx_ar2_blake2b_update
      (zenrx_ar2_blake2b_init S n) a k) n))) = 128"
  using ar2_hash_all [OF assms(1-3), of "[a]"] assms(4) by (simp_all add: ar2_update_all_def)

section \<open>The variable-length hash\<close>

lemma ar2_long_loop_eq:
  assumes "32 < unat t" and "length b = 64" and "length (a_buf S) = 128"
  shows "\<exists>S' out' ob t'. ar2_long_loop S t b out = (S', out', ob, t')
    \<and> blake2b_long_loop (unat t) b out = Some (out', ob, unat t')
    \<and> length ob = 64 \<and> length (a_buf S') = 128 \<and> 0 < unat t' \<and> unat t' \<le> 64"
  using assms
proof (induction S t b out rule: ar2_long_loop.induct)
  case (1 S t b out)
  show ?case
  proof (cases "64 < t")
    case False
    then have "unat t \<le> 64" by (simp add: word_less_nat_alt)
    then show ?thesis
      using False 1(2-4) by (subst ar2_long_loop.simps) (subst blake2b_long_loop.simps, simp)
  next
    case True
    let ?U = "zenrx_ar2_blake2b_update (zenrx_ar2_blake2b_init S 64) b 64"
    obtain S1 ob where fin: "zenrx_ar2_blake2b_final ?U 64 = (S1, ob)" by force
    have ob: "ob = blake2b_hash 64 b" "length (a_buf S1) = 128"
      using ar2_hash_one [of 64 S b 64] 1(3,4) fin by simp_all
    have len: "length ob = 64" using rx_blake2b_default_ok(2) [of 64 b] ob by simp
    have t: "64 < unat t" using True by (simp add: word_less_nat_alt)
    then have sub: "unat (t - 32) = unat t - 32"
      by (simp add: unat_sub word_le_nat_alt)
    with t have g: "32 < unat (t - 32)" by linarith
    have "blake2b_long_loop (unat t) b out = blake2b_long_loop (unat (t - 32)) ob (out @ take 32 ob)"
      using t rx_blake2b_default_ok(1) [of 64 b] 1(3) ob
      by (subst blake2b_long_loop.simps) (simp add: sub)
    moreover have "ar2_long_loop S t b out = ar2_long_loop S1 (t - 32) ob (out @ take 32 ob)"
      using True fin by (subst ar2_long_loop.simps) simp
    ultimately show ?thesis
      using 1(1) [OF True refl refl refl fin [symmetric] g len ob(2)] sub by simp
  qed
qed

text \<open>The Argon2 copy of the variable-length hash computes the one of RandomX.\<close>

lemma ar2_blake2b_long_eq:
  assumes "0 < T" and "T < 2 ^ 32" and "length (a_buf S) = 128"
  shows "zenrx_ar2_blake2b_long S T bs (length bs) = snd (rxa2_blake2b_long T (Some bs) (length bs))"
proof (cases "T \<le> 64")
  case True
  then show ?thesis
    using assms ar2_hash_two(1) [of T S "store32 (of_nat T)" 4 bs "length bs"]
      rxa2_blake2b_long_short [of T bs]
    by (simp add: zenrx_ar2_blake2b_long_def)
next
  case False
  let ?U = "zenrx_ar2_blake2b_update (zenrx_ar2_blake2b_update (zenrx_ar2_blake2b_init S 64)
      (store32 (of_nat T)) 4) bs (length bs)"
  define v1 where "v1 = blake2b_hash 64 (store32 (of_nat T) @ bs)"
  obtain S1 where fin: "zenrx_ar2_blake2b_final ?U 64 = (S1, v1)" and S1: "length (a_buf S1) = 128"
    using ar2_hash_two [of 64 S "store32 (of_nat T)" 4 bs "length bs"] assms(3)
    unfolding v1_def by (metis length_store32 numeral_le_iff order_refl prod.collapse zero_less_numeral)
  have t: "unat (of_nat T - 32 :: u32) = T - 32"
    using False assms(2) by (subst unat_sub) (simp_all add: word_le_nat_alt unat_of_nat_small)
  then have g: "32 < unat (of_nat T - 32 :: u32)" using False by linarith
  have v1: "length v1 = 64" by (simp add: v1_def rx_blake2b_default_ok(2))
  obtain S' out ob t' where loop: "ar2_long_loop S1 (of_nat T - 32) v1 (take 32 v1) = (S', out, ob, t')"
    "blake2b_long_loop (T - 32) v1 (take 32 v1) = Some (out, ob, unat t')"
    "length ob = 64" "length (a_buf S') = 128" "0 < unat t'" "unat t' \<le> 64"
    using ar2_long_loop_eq [OF g v1 S1, of "take 32 v1"] t by auto
  have "zenrx_ar2_blake2b_long S T bs (length bs) = out @ blake2b_hash (unat t') ob"
    using False fin loop(1) ar2_hash_one(1) [OF loop(5,6,4,3)]
    by (simp add: zenrx_ar2_blake2b_long_def)
  also have "\<dots> = snd (rxa2_blake2b_long T (Some bs) (length bs))"
    using rxa2_blake2b_long_unfold [OF _ assms(2) loop(2) v1_def loop(3,5,6)] False by simp
  finally show ?thesis .
qed

text \<open>C27: the two BLAKE2b implementations of the program agree: from any uninitialised state, a
  message fed to the Argon2 one in any pieces gives the digest that the RandomX one returns for the
  whole message, for every digest length from 1 to 64; and the two variable-length hashes return the
  same bytes for every output length from 1 to \<open>2^32 - 1\<close>.\<close>

theorem ar2_blake2b_agrees:
  assumes "length (a_buf S) = BLAKE2B_BLOCKBYTES" and "0 < n" and "n \<le> BLAKE2B_OUTBYTES"
    and "0 < T" and "T < 2 ^ 32"
  shows "rx_blake2b_default n (Some (concat cs)) (length (concat cs)) =
        (0, snd (zenrx_ar2_blake2b_final (ar2_update_all (zenrx_ar2_blake2b_init S n) cs) n))
    \<and> rxa2_blake2b_long T (Some bs) (length bs) = (0, zenrx_ar2_blake2b_long S T bs (length bs))"
  using ar2_hash_all(1) [OF assms(2,3,1)] rx_blake2b_default_ok(1) [OF assms(2,3), of "concat cs"]
    ar2_blake2b_long_eq [OF assms(4,5,1), of bs] rxa2_blake2b_long_ok [OF assms(4,5), of bs]
  by (simp add: prod_eq_iff)

theorem ar2_blake2b_agrees_witness:
  "rxa2_blake2b_long 1024 (Some [1, 2, 3]) (length [1 :: u8, 2, 3]) =
     (0, zenrx_ar2_blake2b_long \<lparr>a_h = [], a_t0 = 9, a_t1 = 9, a_buf = replicate 128 7, a_buflen = 50\<rparr>
            1024 [1, 2, 3] (length [1 :: u8, 2, 3]))"
  by (rule conjunct2 [OF ar2_blake2b_agrees [where n = 1 and cs = "[]"]]) simp_all

end
