(* ===== verification/Ar2_Core.thy ===== *)
theory Ar2_Core
  imports Ar2_Blake2 "HOL-Library.Monad_Syntax"
begin

text \<open>
  The memory-hard core of the Argon2 library: \<open>crypto/argon2/lib/core.c\<close> and \<open>core.h\<close> (blocks,
  reference index, the loops over passes, slices and lanes, first blocks, final tag) and
  \<open>argon2-template-64.h\<close> (the compression of two blocks and the filling of a segment).

  The memory is a list of blocks of 128 words.  Every access to it goes through \<open>mem_read\<close> and
  \<open>mem_write\<close>, which are \<open>None\<close> outside the allocated blocks, so a result \<open>Some\<close> shows that the
  run never leaves the memory.  \<open>fill_segment\<close> is the portable implementation that
  \<open>argon2_select_impl\<close> starts from; printing (\<open>print_internals\<close>) is not modelled.
\<close>

section \<open>Blocks\<close>

type_synonym block = "u64 list"
type_synonym ar_memory = "block list"

abbreviation (input) "ARGON2_BLOCK_SIZE \<equiv> (1024 :: nat)"
abbreviation (input) "ARGON2_QWORDS_IN_BLOCK \<equiv> (128 :: nat)"
abbreviation (input) "ARGON2_SYNC_POINTS \<equiv> (4 :: u32)"

text \<open>\<open>memset(b->v, in, sizeof(b->v))\<close> sets every byte of every word.\<close>

definition init_block_value :: "u8 \<Rightarrow> block" where
  "init_block_value x = replicate ARGON2_QWORDS_IN_BLOCK (load64 (replicate 8 x))"

definition copy_block :: "block \<Rightarrow> block \<Rightarrow> block" where
  "copy_block dst src = memcpy_at dst 0 src ARGON2_QWORDS_IN_BLOCK"

definition xor_block :: "block \<Rightarrow> block \<Rightarrow> block" where
  "xor_block dst src = map (\<lambda>i. dst ! i XOR src ! i) [0..<ARGON2_QWORDS_IN_BLOCK]"

definition load_block :: "bytes \<Rightarrow> block" where
  "load_block input = map (\<lambda>i. load64 (drop (i * 8) input)) [0..<ARGON2_QWORDS_IN_BLOCK]"

definition store_block :: "block \<Rightarrow> bytes" where
  "store_block src = concat (map (\<lambda>i. store64 (src ! i)) [0..<ARGON2_QWORDS_IN_BLOCK])"

definition mem_read :: "ar_memory \<Rightarrow> nat \<Rightarrow> block option" where
  "mem_read M i = (if i < length M then Some (M ! i) else None)"

definition mem_write :: "ar_memory \<Rightarrow> nat \<Rightarrow> block \<Rightarrow> ar_memory option" where
  "mem_write M i b = (if i < length M then Some (M[i := b]) else None)"

section \<open>Compression of two blocks\<close>

text \<open>The macros \<open>F\<close>, \<open>G\<close> and \<open>BLAKE2_ROUND_NOMSG\<close>; the arguments of the last two are indices
  into the block, given as a list for the round.\<close>

definition ar2_F :: "u64 \<Rightarrow> u64 \<Rightarrow> u64" where
  "ar2_F x y = x + y + 2 * (x AND 0xFFFFFFFF) * (y AND 0xFFFFFFFF)"

definition ar2_G :: "nat \<Rightarrow> nat \<Rightarrow> nat \<Rightarrow> nat \<Rightarrow> block \<Rightarrow> block" where
  "ar2_G a b c d v =
     (let va = ar2_F (v ! a) (v ! b);
          vd = rotr64 (v ! d XOR va) 32;
          vc = ar2_F (v ! c) vd;
          vb = rotr64 (v ! b XOR vc) 24;
          va = ar2_F va vb;
          vd = rotr64 (vd XOR va) 16;
          vc = ar2_F vc vd;
          vb = rotr64 (vb XOR vc) 63
      in v[a := va, b := vb, c := vc, d := vd])"

definition BLAKE2_ROUND_NOMSG :: "nat list \<Rightarrow> block \<Rightarrow> block" where
  "BLAKE2_ROUND_NOMSG w v =
     (let v = ar2_G (w ! 0) (w ! 4) (w ! 8) (w ! 12) v;
          v = ar2_G (w ! 1) (w ! 5) (w ! 9) (w ! 13) v;
          v = ar2_G (w ! 2) (w ! 6) (w ! 10) (w ! 14) v;
          v = ar2_G (w ! 3) (w ! 7) (w ! 11) (w ! 15) v;
          v = ar2_G (w ! 0) (w ! 5) (w ! 10) (w ! 15) v;
          v = ar2_G (w ! 1) (w ! 6) (w ! 11) (w ! 12) v;
          v = ar2_G (w ! 2) (w ! 7) (w ! 8) (w ! 13) v
      in ar2_G (w ! 3) (w ! 4) (w ! 9) (w ! 14) v)"

definition BLAKE2_ROUND_NOMSG1 :: "nat \<Rightarrow> block \<Rightarrow> block" where
  "BLAKE2_ROUND_NOMSG1 base v = BLAKE2_ROUND_NOMSG (map ((+) base) [0..<16]) v"

definition BLAKE2_ROUND_NOMSG2 :: "nat \<Rightarrow> block \<Rightarrow> block" where
  "BLAKE2_ROUND_NOMSG2 base v =
     BLAKE2_ROUND_NOMSG (map ((+) base) [0, 1, 16, 17, 32, 33, 48, 49, 64, 65, 80, 81, 96, 97, 112, 113]) v"

text \<open>The new value of \<open>*next_block\<close>.\<close>

definition fill_block :: "block \<Rightarrow> block \<Rightarrow> block \<Rightarrow> bool \<Rightarrow> block" where
  "fill_block prev_block ref_block next_block with_xor =
     (let blockR = xor_block ref_block prev_block;
          block_tmp = (if with_xor then xor_block blockR next_block else blockR);
          blockR = fold (\<lambda>i. BLAKE2_ROUND_NOMSG1 (i * 16)) [0..<8] blockR;
          blockR = fold (\<lambda>i. BLAKE2_ROUND_NOMSG2 (i * 2)) [0..<8] blockR
      in xor_block (copy_block next_block block_tmp) blockR)"

text \<open>The new address block and the new input block.\<close>

definition next_addresses :: "block \<Rightarrow> block \<Rightarrow> block \<Rightarrow> block \<times> block" where
  "next_addresses address_block input_block zero_block =
     (let input_block = input_block[6 := input_block ! 6 + 1];
          address_block = fill_block zero_block input_block address_block False;
          address_block = fill_block zero_block address_block address_block False
      in (address_block, input_block))"

section \<open>Instance and position\<close>

text \<open>\<open>argon2_type\<close> is an enum whose values a caller passes unchecked: a 32-bit number.\<close>

type_synonym argon2_type = u32
abbreviation (input) "Argon2_d \<equiv> (0 :: argon2_type)"
abbreviation (input) "Argon2_i \<equiv> (1 :: argon2_type)"
abbreviation (input) "Argon2_id \<equiv> (2 :: argon2_type)"

abbreviation (input) "ARGON2_VERSION_10 \<equiv> (0x10 :: u32)"
abbreviation (input) "ARGON2_VERSION_NUMBER \<equiv> (0x13 :: u32)"

record argon2_instance =
  i_version :: u32
  i_passes :: u32
  i_memory_blocks :: u32
  i_segment_length :: u32
  i_lane_length :: u32
  i_lanes :: u32
  i_threads :: u32
  i_type :: argon2_type
  i_print_internals :: bool
  i_keep_memory :: bool

record argon2_position =
  p_pass :: u32
  p_lane :: u32
  p_slice :: u8
  p_index :: u32

definition zenrx_ar2_index_alpha :: "argon2_instance \<Rightarrow> argon2_position \<Rightarrow> u32 \<Rightarrow> bool \<Rightarrow> u32" where
  "zenrx_ar2_index_alpha inst pos pseudo_rand same_lane =
     (let reference_area_size =
            (if p_pass pos = 0 then
               if p_slice pos = 0 then p_index pos - 1
               else if same_lane then ucast (p_slice pos) * i_segment_length inst + p_index pos - 1
               else ucast (p_slice pos) * i_segment_length inst + (if p_index pos = 0 then -1 else 0)
             else if same_lane then i_lane_length inst - i_segment_length inst + p_index pos - 1
             else i_lane_length inst - i_segment_length inst + (if p_index pos = 0 then -1 else 0));
          relative_position = (ucast pseudo_rand :: u64);
          relative_position = drop_bit 32 (relative_position * relative_position);
          relative_position = ucast (reference_area_size - 1)
            - drop_bit 32 (ucast reference_area_size * relative_position);
          start_position =
            (if p_pass pos \<noteq> 0
             then if ucast (p_slice pos) = ARGON2_SYNC_POINTS - 1 then 0
                  else (ucast (p_slice pos) + 1) * i_segment_length inst
             else 0)
      in ucast ((ucast start_position + relative_position) mod ucast (i_lane_length inst)))"

section \<open>Filling the memory\<close>

record seg_state =
  s_memory :: ar_memory
  s_address :: block
  s_input :: block
  s_curr :: u32
  s_prev :: u32

text \<open>The body of the \<open>for\<close> loop of \<open>fill_segment_64\<close>, its \<open>++curr_offset, ++prev_offset\<close>
  included.\<close>

definition fill_segment_step ::
  "argon2_instance \<Rightarrow> argon2_position \<Rightarrow> bool \<Rightarrow> u32 \<Rightarrow> seg_state \<Rightarrow> seg_state option" where
  "fill_segment_step inst pos data_independent i st =
     (let M = s_memory st;
          curr_offset = s_curr st;
          prev_offset = (if curr_offset mod i_lane_length inst = 1 then curr_offset - 1 else s_prev st);
          (address, input) =
            (if data_independent \<and> i mod 128 = 0
             then next_addresses (s_address st) (s_input st) (init_block_value 0)
             else (s_address st, s_input st))
      in do {
        prev_block \<leftarrow> mem_read M (unat prev_offset);
        let pseudo_rand = (if data_independent then address ! unat (i mod 128) else prev_block ! 0);
        let ref_lane = (if p_pass pos = 0 \<and> p_slice pos = 0 then ucast (p_lane pos)
                        else drop_bit 32 pseudo_rand mod ucast (i_lanes inst));
        let ref_index = (ucast (zenrx_ar2_index_alpha inst (pos\<lparr>p_index := i\<rparr>) (ucast (pseudo_rand AND 0xFFFFFFFF))
                          (ref_lane = ucast (p_lane pos))) :: u64);
        ref_block \<leftarrow> mem_read M (unat (ucast (i_lane_length inst) * ref_lane + ref_index));
        curr_block \<leftarrow> mem_read M (unat curr_offset);
        M' \<leftarrow> mem_write M (unat curr_offset)
               (fill_block prev_block ref_block curr_block
                  (\<not> (p_pass pos = 0 \<or> i_version inst = ARGON2_VERSION_10)));
        Some \<lparr>s_memory = M', s_address = address, s_input = input,
              s_curr = curr_offset + 1, s_prev = prev_offset + 1\<rparr> })"

function fill_segment_loop ::
  "argon2_instance \<Rightarrow> argon2_position \<Rightarrow> bool \<Rightarrow> u32 \<Rightarrow> seg_state \<Rightarrow> seg_state option" where
  "fill_segment_loop inst pos data_independent i st =
     (if i < i_segment_length inst then
        do { st \<leftarrow> fill_segment_step inst pos data_independent i st;
             fill_segment_loop inst pos data_independent (i + 1) st }
      else Some st)"
  by pat_completeness auto
termination
  by (relation "measure (\<lambda>(inst, pos, d, i, st). unat (i_segment_length inst) - unat i)")
    (auto simp: unat_inc_less word_less_nat_alt)

declare fill_segment_loop.simps [simp del]

definition data_independent_addressing :: "argon2_instance \<Rightarrow> argon2_position \<Rightarrow> bool" where
  "data_independent_addressing inst pos \<longleftrightarrow> i_type inst = Argon2_i \<or>
     (i_type inst = Argon2_id \<and> p_pass pos = 0 \<and> ucast (p_slice pos) < ARGON2_SYNC_POINTS div 2)"

text \<open>\<open>junk\<close> is the uninitialised content of the local blocks \<open>address_block\<close> and \<open>input_block\<close>.\<close>

definition fill_segment_64 ::
  "block \<Rightarrow> argon2_instance \<Rightarrow> argon2_position \<Rightarrow> ar_memory \<Rightarrow> ar_memory option" where
  "fill_segment_64 junk inst pos M =
     (let dia = data_independent_addressing inst pos;
          input = (if dia then (init_block_value 0)[0 := ucast (p_pass pos), 1 := ucast (p_lane pos),
                     2 := ucast (p_slice pos), 3 := ucast (i_memory_blocks inst),
                     4 := ucast (i_passes inst), 5 := ucast (i_type inst)] else junk);
          starting_index = (if p_pass pos = 0 \<and> p_slice pos = 0 then 2 else 0);
          (address, input) = (if p_pass pos = 0 \<and> p_slice pos = 0 \<and> dia
                              then next_addresses junk input (init_block_value 0) else (junk, input));
          curr_offset = p_lane pos * i_lane_length inst + ucast (p_slice pos) * i_segment_length inst
                          + starting_index;
          prev_offset = (if curr_offset mod i_lane_length inst = 0
                         then curr_offset + i_lane_length inst - 1 else curr_offset - 1)
      in map_option s_memory (fill_segment_loop inst pos dia starting_index
           \<lparr>s_memory = M, s_address = address, s_input = input, s_curr = curr_offset, s_prev = prev_offset\<rparr>))"

definition lane_position :: "nat \<Rightarrow> nat \<Rightarrow> nat \<Rightarrow> argon2_position" where
  "lane_position r s l = \<lparr>p_pass = of_nat r, p_lane = of_nat l, p_slice = of_nat s, p_index = 0\<rparr>"

definition fill_slice :: "block \<Rightarrow> argon2_instance \<Rightarrow> nat \<Rightarrow> nat \<Rightarrow> ar_memory \<Rightarrow> ar_memory option" where
  "fill_slice junk inst r s M =
     fold_opt (\<lambda>l. fill_segment_64 junk inst (lane_position r s l)) [0..<unat (i_lanes inst)] M"

definition fill_memory_blocks_st :: "block \<Rightarrow> argon2_instance \<Rightarrow> ar_memory \<Rightarrow> ar_memory option" where
  "fill_memory_blocks_st junk inst M =
     fold_opt (\<lambda>r. fold_opt (\<lambda>s. fill_slice junk inst r s) [0..<4]) [0..<unat (i_passes inst)] M"

text \<open>The tag and the first blocks.  \<open>S\<close> is the uninitialised hash state of \<open>zenrx_ar2_blake2b_long\<close>,
  \<open>blockhash\<close> the 72-byte buffer with the initial hash in its first 64 bytes.\<close>

definition first_block :: "ar2_state \<Rightarrow> bytes \<Rightarrow> block" where
  "first_block S blockhash = load_block (zenrx_ar2_blake2b_long S ARGON2_BLOCK_SIZE blockhash 72)"

definition fill_first_blocks_lane ::
  "ar2_state \<Rightarrow> argon2_instance \<Rightarrow> nat \<Rightarrow> bytes \<times> ar_memory \<Rightarrow> (bytes \<times> ar_memory) option" where
  "fill_first_blocks_lane S inst l st =
     (case st of (blockhash, M) \<Rightarrow> do {
        let blockhash = memcpy_at blockhash 64 (store32 0) 4;
        let blockhash = memcpy_at blockhash 68 (store32 (of_nat l)) 4;
        M \<leftarrow> mem_write M (unat (of_nat l * i_lane_length inst + 0)) (first_block S blockhash);
        let blockhash = memcpy_at blockhash 64 (store32 1) 4;
        M \<leftarrow> mem_write M (unat (of_nat l * i_lane_length inst + 1)) (first_block S blockhash);
        Some (blockhash, M) })"

definition zenrx_ar2_fill_first_blocks ::
  "ar2_state \<Rightarrow> bytes \<Rightarrow> argon2_instance \<Rightarrow> ar_memory \<Rightarrow> ar_memory option" where
  "zenrx_ar2_fill_first_blocks S blockhash inst M =
     map_option snd (fold_opt (fill_first_blocks_lane S inst) [0..<unat (i_lanes inst)] (blockhash, M))"

text \<open>The XOR of the last blocks of the lanes, and the tag.\<close>

definition xor_last_blocks :: "argon2_instance \<Rightarrow> ar_memory \<Rightarrow> block option" where
  "xor_last_blocks inst M = do {
     b \<leftarrow> mem_read M (unat (i_lane_length inst) - 1);
     fold_opt (\<lambda>l b. do {
         c \<leftarrow> mem_read M (unat (of_nat l * i_lane_length inst + (i_lane_length inst - 1)));
         Some (xor_block b c) }) [1..<unat (i_lanes inst)] b }"

definition final_tag :: "ar2_state \<Rightarrow> argon2_instance \<Rightarrow> u32 \<Rightarrow> ar_memory \<Rightarrow> bytes option" where
  "final_tag S inst outlen M = do {
     b \<leftarrow> xor_last_blocks inst M;
     Some (zenrx_ar2_blake2b_long S (unat outlen) (store_block b) ARGON2_BLOCK_SIZE) }"

end
