(* ===== verification/Ar2_Safety.thy ===== *)
theory Ar2_Safety
  imports Ar2_Core
begin

text \<open>
  What the reference index of Argon2 guarantees, and what follows from it for the filling of the
  memory: no access outside the memory, no dependence on blocks that are not yet written, and
  independence of the segments of one slice, which is what lets lanes be filled in any order.
\<close>

section \<open>Valid instances and positions\<close>

definition instance_ok :: "argon2_instance \<Rightarrow> bool" where
  "instance_ok inst \<longleftrightarrow> 2 \<le> unat (i_segment_length inst) \<and> 0 < unat (i_lanes inst)
     \<and> unat (i_lane_length inst) = 4 * unat (i_segment_length inst)
     \<and> unat (i_lanes inst) * unat (i_lane_length inst) < 2 ^ 32"

definition position_ok :: "argon2_instance \<Rightarrow> argon2_position \<Rightarrow> bool" where
  "position_ok inst pos \<longleftrightarrow> unat (p_lane pos) < unat (i_lanes inst) \<and> unat (p_slice pos) < 4
     \<and> unat (p_index pos) < unat (i_segment_length inst)
     \<and> (p_pass pos = 0 \<and> p_slice pos = 0 \<longrightarrow> 2 \<le> unat (p_index pos))"

section \<open>The reference index\<close>

text \<open>The number of candidate blocks and the offset of the first, as natural numbers.\<close>

definition ref_area :: "bool \<Rightarrow> nat \<Rightarrow> nat \<Rightarrow> nat \<Rightarrow> bool \<Rightarrow> nat" where
  "ref_area first seg s i same =
     (let whole = (if first then s * seg else 3 * seg) in
      if same \<or> first \<and> s = 0 then whole + i - 1 else if i = 0 then whole - 1 else whole)"

definition ref_start :: "bool \<Rightarrow> nat \<Rightarrow> nat \<Rightarrow> nat" where
  "ref_start first seg s = (if first \<or> s = 3 then 0 else (s + 1) * seg)"

lemma scaled_position_less:
  assumes "0 < a" and "x < 2 ^ 32"
  shows "a * x div 2 ^ 32 < (a :: nat)"
proof -
  have "a * x < a * 2 ^ 32" using assms by simp
  then show ?thesis by (simp add: less_mult_imp_div_less)
qed

lemma unat_minus_1: "0 < unat x \<Longrightarrow> unat (x - 1) = unat x - 1"
  for x :: "'a::len word"
  by (subst unat_sub) (auto simp: word_le_nat_alt Suc_le_eq)

definition area_word :: "argon2_instance \<Rightarrow> argon2_position \<Rightarrow> bool \<Rightarrow> u32" where
  "area_word inst pos same_lane =
     (if p_pass pos = 0 then
        if p_slice pos = 0 then p_index pos - 1
        else if same_lane then ucast (p_slice pos) * i_segment_length inst + p_index pos - 1
        else ucast (p_slice pos) * i_segment_length inst + (if p_index pos = 0 then -1 else 0)
      else if same_lane then i_lane_length inst - i_segment_length inst + p_index pos - 1
      else i_lane_length inst - i_segment_length inst + (if p_index pos = 0 then -1 else 0))"

lemma unat_area_word:
  assumes "instance_ok inst" and "position_ok inst pos"
  defines "seg \<equiv> unat (i_segment_length inst)"
  shows "unat (area_word inst pos same) = ref_area (p_pass pos = 0) seg (unat (p_slice pos)) (unat (p_index pos)) same"
    and "0 < unat (area_word inst pos same)"
proof -
  define s i where "s = unat (p_slice pos)" and "i = unat (p_index pos)"
  have seg: "2 \<le> seg" "s < 4" "i < seg" "4 * seg < 2 ^ 32" "unat (i_lane_length inst) = 4 * seg"
    using assms unat_u32_lt [of "i_lane_length inst"]
    by (auto simp: instance_ok_def position_ok_def s_def i_def)
  have sle: "s * seg \<le> 3 * seg" using seg(2) by (intro mult_le_mono1) simp
  then have "s * seg < 2 ^ 32" using seg(4) by linarith
  then have mul: "unat (ucast (p_slice pos) * i_segment_length inst) = s * seg"
    by (subst unat_mult_small) (simp_all add: unat_ucast_up s_def seg_def)
  have sub: "unat (i_lane_length inst - i_segment_length inst) = 3 * seg"
    using seg by (subst unat_sub) (simp_all add: word_le_nat_alt seg_def)
  have lt: "s * seg + i < 2 ^ 32" using seg(3,4) sle by linarith
  have add1: "unat (ucast (p_slice pos) * i_segment_length inst + p_index pos) = s * seg + i"
  proof (subst unat_add_small)
    show "unat (ucast (p_slice pos) * i_segment_length inst) + unat (p_index pos) < 2 ^ LENGTH(32)"
      unfolding mul i_def [symmetric] using lt by simp
  qed (simp_all add: mul i_def)
  have add2: "unat (i_lane_length inst - i_segment_length inst + p_index pos) = 3 * seg + i"
    using seg sub by (subst unat_add_small) (simp_all add: i_def)
  have s0: "p_slice pos = 0 \<longleftrightarrow> s = 0" and i0: "p_index pos = 0 \<longleftrightarrow> i = 0"
    by (simp_all add: s_def i_def unat_eq_0)
  have first: "p_pass pos = 0 \<Longrightarrow> s = 0 \<Longrightarrow> 2 \<le> i"
    using assms(2) s0 by (simp add: position_ok_def i_def)
  have sseg: "0 < s \<Longrightarrow> 2 \<le> s * seg" using seg(1) by (cases s) auto
  have "unat (area_word inst pos same) = ref_area (p_pass pos = 0) seg s i same
     \<and> 0 < ref_area (p_pass pos = 0) seg s i same"
    using seg first sseg mul sub add1 add2
    by (auto simp: area_word_def ref_area_def s0 i0 unat_minus_1 i_def [symmetric] Let_def)
  then show "unat (area_word inst pos same) = ref_area (p_pass pos = 0) seg (unat (p_slice pos)) (unat (p_index pos)) same"
    and "0 < unat (area_word inst pos same)" by (simp_all add: s_def i_def)
qed

definition start_word :: "argon2_instance \<Rightarrow> argon2_position \<Rightarrow> u32" where
  "start_word inst pos =
     (if p_pass pos \<noteq> 0
      then if ucast (p_slice pos) = ARGON2_SYNC_POINTS - 1 then 0
           else (ucast (p_slice pos) + 1) * i_segment_length inst
      else 0)"

lemma unat_start_word:
  assumes "instance_ok inst" and "position_ok inst pos"
  defines "seg \<equiv> unat (i_segment_length inst)"
  shows "unat (start_word inst pos) = ref_start (p_pass pos = 0) seg (unat (p_slice pos))"
proof -
  define s where "s = unat (p_slice pos)"
  have s: "s < 4" using assms(2) by (simp add: position_ok_def s_def)
  have u: "unat (ucast (p_slice pos) :: u32) = s" by (simp add: s_def unat_ucast_up)
  then have eq3: "ucast (p_slice pos) = (3 :: u32) \<longleftrightarrow> s = 3"
    by (simp add: word_unat_eq_iff)
  have seg: "4 * seg < 2 ^ 32"
    using assms(1) unat_u32_lt [of "i_lane_length inst"] by (simp add: instance_ok_def seg_def)
  have u1: "unat (ucast (p_slice pos) + 1 :: u32) = Suc s"
    using u s by (subst unat_add_small) simp_all
  have "unat ((ucast (p_slice pos) + 1) * i_segment_length inst) = Suc s * seg" if "s \<noteq> 3"
  proof (subst unat_mult_small)
    have "Suc s * seg \<le> 3 * seg" using s that by (intro mult_le_mono1) simp
    then have "Suc s * seg < 2 ^ 32" using seg by linarith
    then show "unat (ucast (p_slice pos) + 1 :: u32) * unat (i_segment_length inst) < 2 ^ LENGTH(32)"
      unfolding u1 seg_def by simp
  qed (simp add: u1 seg_def)
  then show ?thesis
    by (auto simp: start_word_def ref_start_def eq3 s_def [symmetric])
qed

text \<open>The mapping of a pseudo-random number to an offset below the area.\<close>

lemma relative_position_less:
  fixes a pr :: u32
  assumes "0 < unat a"
  defines "x \<equiv> drop_bit 32 ((ucast pr :: u64) * ucast pr)"
  shows "unat (ucast (a - 1) - drop_bit 32 (ucast a * x) :: u64) < unat a"
proof -
  have x: "unat x < 2 ^ 32"
    using unat_u64_lt [of "(ucast pr :: u64) * ucast pr"]
    by (simp add: x_def unat_drop_bit_div less_mult_imp_div_less)
  have a: "unat (ucast a :: u64) = unat a" "unat a < 2 ^ 32"
    using unat_u32_lt [of a] by (simp_all add: unat_ucast_up)
  have "unat a * unat x < 2 ^ 32 * 2 ^ 32"
    using a(2) x by (intro mult_strict_mono') simp_all
  then have "unat (ucast a * x) = unat a * unat x"
    using a(1) by (subst unat_mult_small) simp_all
  then have y: "unat (drop_bit 32 (ucast a * x)) < unat a"
    using scaled_position_less [OF assms(1) x] by (simp add: unat_drop_bit_div)
  moreover have "unat (ucast (a - 1) :: u64) = unat a - 1"
    using assms(1) by (simp add: unat_ucast_up unat_minus_1)
  ultimately show ?thesis
    by (subst unat_sub) (auto simp: word_le_nat_alt)
qed

lemma unat_index_alpha:
  assumes "instance_ok inst" and "position_ok inst pos"
  defines "seg \<equiv> unat (i_segment_length inst)" and "s \<equiv> unat (p_slice pos)"
  obtains rel where "rel < ref_area (p_pass pos = 0) seg s (unat (p_index pos)) same"
    and "unat (zenrx_ar2_index_alpha inst pos pr same) = (ref_start (p_pass pos = 0) seg s + rel) mod (4 * seg)"
proof -
  define a where "a = area_word inst pos same"
  define rw :: u64 where "rw = ucast (a - 1) - drop_bit 32 (ucast a * drop_bit 32 (ucast pr * ucast pr))"
  have a: "unat a = ref_area (p_pass pos = 0) seg s (unat (p_index pos)) same" "0 < unat a"
    using unat_area_word [OF assms(1,2), of same] by (simp_all add: a_def seg_def s_def)
  have rw: "unat rw < unat a" using relative_position_less [OF a(2), of pr] by (simp add: rw_def)
  have L: "unat (i_lane_length inst) = 4 * seg" "0 < 4 * seg"
    using assms(1) by (auto simp: instance_ok_def seg_def)
  have alpha: "zenrx_ar2_index_alpha inst pos pr same =
      ucast ((ucast (start_word inst pos) + rw) mod ucast (i_lane_length inst))"
    by (simp add: zenrx_ar2_index_alpha_def rw_def a_def area_word_def start_word_def Let_def)
  have "unat (ucast (start_word inst pos) + rw :: u64) = unat (start_word inst pos) + unat rw"
    using rw unat_u32_lt [of "start_word inst pos"] unat_u32_lt [of a]
    by (subst unat_add_small) (simp_all add: unat_ucast_up)
  then have "unat ((ucast (start_word inst pos) + rw) mod ucast (i_lane_length inst) :: u64) =
      (unat (start_word inst pos) + unat rw) mod (4 * seg)"
    by (simp add: unat_mod unat_ucast_up L)
  moreover have "(unat (start_word inst pos) + unat rw) mod (4 * seg) < 4294967296"
    using mod_less_divisor [OF L(2), of "unat (start_word inst pos) + unat rw"]
      unat_u32_lt [of "i_lane_length inst"] L(1) by linarith
  ultimately have "unat (zenrx_ar2_index_alpha inst pos pr same) = (unat (start_word inst pos) + unat rw) mod (4 * seg)"
    by (simp add: alpha unsigned_ucast_eq take_bit_nat_eq_self)
  then show thesis
    using that [of "unat rw"] rw a unat_start_word [OF assms(1,2)] by (simp add: seg_def s_def)
qed

text \<open>\<open>ref_window first seg s i same z\<close>: what may be referenced from index i of slice s.  In the first
  pass only blocks of this pass, in other lanes only those of finished slices; later never the part
  of the own segment that is about to be rewritten, and nothing of the current slice of another
  lane; never the block just written.\<close>

definition ref_window :: "bool \<Rightarrow> nat \<Rightarrow> nat \<Rightarrow> nat \<Rightarrow> bool \<Rightarrow> nat \<Rightarrow> bool" where
  "ref_window first seg s i same z \<longleftrightarrow> z < 4 * seg
     \<and> (first \<longrightarrow> (if same then z + 1 < s * seg + i else z < s * seg))
     \<and> (s * seg \<le> z \<and> z < Suc s * seg \<longrightarrow> same \<and> z + 1 < s * seg + i)
     \<and> (same \<longrightarrow> z \<noteq> (s * seg + i + 4 * seg - 1) mod (4 * seg))"

lemma mod_once: "b \<le> (a::nat) \<Longrightarrow> a < 2 * b \<Longrightarrow> a mod b = a - b"
  by (simp add: mod_if)

lemma ref_position_window:
  assumes "rel < ref_area first seg s i same" and "s < 4" and "i < seg" and "2 \<le> seg"
    and "first \<and> s = 0 \<longrightarrow> 2 \<le> i \<and> same"
  shows "ref_window first seg s i same ((ref_start first seg s + rel) mod (4 * seg))"
proof -
  define t where "t = ref_start first seg s + rel"
  have t: "t < 8 * seg" and split: "t mod (4 * seg) = (if t < 4 * seg then t else t - 4 * seg)"
  proof -
    consider "s = 0" | "s = 1" | "s = 2" | "s = 3" using assms(2) by linarith
    then show "t < 8 * seg"
      using assms(1,3,4) by cases (auto simp: t_def ref_start_def ref_area_def Let_def split: if_splits)
    then show "t mod (4 * seg) = (if t < 4 * seg then t else t - 4 * seg)"
      by (simp add: mod_once)
  qed
  have prev: "(s * seg + i + 4 * seg - 1) mod (4 * seg) = (if s = 0 \<and> i = 0 then 4 * seg - 1 else s * seg + i - 1)"
  proof -
    consider "s = 0" | "s = 1" | "s = 2" | "s = 3" using assms(2) by linarith
    then show ?thesis using assms(3,4) by cases (auto simp: mod_once)
  qed
  consider "s = 0" | "s = 1" | "s = 2" | "s = 3" using assms(2) by linarith
  then show ?thesis
    using assms t unfolding t_def [symmetric] ref_window_def prev split
    by cases (auto simp: t_def ref_start_def ref_area_def Let_def split: if_splits)
qed

lemma index_alpha_window:
  assumes "instance_ok inst" and "position_ok inst pos"
    and "p_pass pos = 0 \<and> p_slice pos = 0 \<longrightarrow> same"
  shows "ref_window (p_pass pos = 0) (unat (i_segment_length inst)) (unat (p_slice pos)) (unat (p_index pos)) same
           (unat (zenrx_ar2_index_alpha inst pos pr same))"
proof -
  have s0: "p_slice pos = 0 \<longleftrightarrow> unat (p_slice pos) = 0" by (simp add: unat_eq_0)
  obtain rel where rel: "rel < ref_area (p_pass pos = 0) (unat (i_segment_length inst)) (unat (p_slice pos))
      (unat (p_index pos)) same"
    "unat (zenrx_ar2_index_alpha inst pos pr same) =
      (ref_start (p_pass pos = 0) (unat (i_segment_length inst)) (unat (p_slice pos)) + rel) mod (4 * unat (i_segment_length inst))"
    using unat_index_alpha [OF assms(1,2), of same pr] by blast
  show ?thesis
    unfolding rel(2)
    by (rule ref_position_window [OF rel(1)])
      (use assms in \<open>simp_all add: instance_ok_def position_ok_def s0\<close>)
qed

text \<open>C29: the reference index is always inside the lane and never names a block that cannot be used:
  in the first pass a block of the own lane lies before the previous one and a block of another lane
  in a finished slice; in later passes the own segment is referenced only before the previous block
  and the current segment of another lane not at all; the previous block itself, already an input of
  the compression, is never referenced.\<close>

theorem argon2_index_alpha_safe:
  assumes "instance_ok inst" and "position_ok inst pos" and "p_pass pos = 0 \<and> p_slice pos = 0 \<longrightarrow> same"
  shows "let z = unat (zenrx_ar2_index_alpha inst pos pr same); L = unat (i_lane_length inst);
             seg = unat (i_segment_length inst); s = unat (p_slice pos); c = s * seg + unat (p_index pos)
         in z < L
          \<and> (p_pass pos = 0 \<longrightarrow> (if same then z + 1 < c else z < s * seg))
          \<and> (s * seg \<le> z \<and> z < Suc s * seg \<longrightarrow> same \<and> z + 1 < c)
          \<and> (same \<longrightarrow> z \<noteq> (c + L - 1) mod L)"
proof -
  have L: "unat (i_lane_length inst) = 4 * unat (i_segment_length inst)"
    using assms(1) by (simp add: instance_ok_def)
  show ?thesis
    using index_alpha_window [OF assms, of pr] unfolding Let_def ref_window_def L .
qed

theorem argon2_index_alpha_safe_witness:
  "let z = unat (zenrx_ar2_index_alpha \<lparr>i_version = 0x13, i_passes = 2, i_memory_blocks = 16, i_segment_length = 2,
         i_lane_length = 8, i_lanes = 2, i_threads = 1, i_type = Argon2_d, i_print_internals = False,
         i_keep_memory = False\<rparr> \<lparr>p_pass = 0, p_lane = 1, p_slice = 2, p_index = 1\<rparr> 12345 True)
   in z < 8 \<and> z + 1 < 5"
  using argon2_index_alpha_safe [of "\<lparr>i_version = 0x13, i_passes = 2, i_memory_blocks = 16, i_segment_length = 2,
         i_lane_length = 8, i_lanes = 2, i_threads = 1, i_type = Argon2_d, i_print_internals = False,
         i_keep_memory = False\<rparr>" "\<lparr>p_pass = 0, p_lane = 1, p_slice = 2, p_index = 1\<rparr>" True 12345]
  by (simp add: instance_ok_def position_ok_def Let_def)

end
