(* ===== verification/Ar2_Fill.thy ===== *)
theory Ar2_Fill
  imports Ar2_Safety
begin

text \<open>
  The filling of the memory: totality of \<open>fill_segment_64\<close> (every access is inside the memory),
  its frame (only the blocks of its segment change) and its footprint (which blocks of the old
  memory its result depends on).  From these follow that the segments of one slice can be filled in
  any order and that the filled memory does not depend on what the memory held before.
\<close>

section \<open>Blocks\<close>

definition mem_ok :: "nat \<Rightarrow> ar_memory \<Rightarrow> bool" where
  "mem_ok n M \<longleftrightarrow> n \<le> length M \<and> (\<forall>b \<in> set M. length b = ARGON2_QWORDS_IN_BLOCK)"

lemma mem_ok_nth: "mem_ok n M \<Longrightarrow> i < n \<Longrightarrow> length (M ! i) = 128"
  by (auto simp: mem_ok_def)

lemma mem_ok_update: "mem_ok n M \<Longrightarrow> length b = 128 \<Longrightarrow> mem_ok n (M[i := b])"
  by (auto simp: mem_ok_def dest: set_update_subset_insert [THEN subsetD])

lemma length_xor_block [simp]: "length (xor_block a b) = 128"
  by (simp add: xor_block_def)

lemma length_fill_block [simp]: "length (fill_block a b c x) = 128"
  by (simp add: fill_block_def Let_def)

lemma copy_block_full [simp]: "length a \<le> 128 \<Longrightarrow> length b = 128 \<Longrightarrow> copy_block a b = b"
  by (simp add: copy_block_def memcpy_at_def)

text \<open>Without the XOR the old content of the target block is irrelevant.\<close>

lemma fill_block_fresh:
  "length c = 128 \<Longrightarrow> length d = 128 \<Longrightarrow> fill_block a b c False = fill_block a b d False"
  by (simp add: fill_block_def Let_def)

section \<open>Geometry of a segment\<close>

text \<open>\<open>known first seg p l s i k\<close>: block k may be read when index i of the segment of lane l in slice s
  is computed, p the number of lanes.\<close>

definition known :: "bool \<Rightarrow> nat \<Rightarrow> nat \<Rightarrow> nat \<Rightarrow> nat \<Rightarrow> nat \<Rightarrow> nat \<Rightarrow> bool" where
  "known first seg p l s i k \<longleftrightarrow> k < p * (4 * seg) \<and>
     (if first then k mod (4 * seg) < s * seg \<or> (l * (4 * seg) + s * seg \<le> k \<and> k < l * (4 * seg) + s * seg + i)
      else k div (4 * seg) = l \<or> \<not> (s * seg \<le> k mod (4 * seg) \<and> k mod (4 * seg) < Suc s * seg))"

definition agree :: "(nat \<Rightarrow> bool) \<Rightarrow> ar_memory \<Rightarrow> ar_memory \<Rightarrow> bool" where
  "agree A M N \<longleftrightarrow> length M = length N \<and> (\<forall>k. A k \<longrightarrow> M ! k = N ! k)"

lemma lane_index:
  assumes "x < 4 * (seg :: nat)" and "l < p"
  shows "(l * (4 * seg) + x) mod (4 * seg) = x" and "(l * (4 * seg) + x) div (4 * seg) = l"
    and "l * (4 * seg) + x < p * (4 * seg)"
proof -
  show "(l * (4 * seg) + x) mod (4 * seg) = x" using assms(1) by simp
  show "(l * (4 * seg) + x) div (4 * seg) = l" using assms(1) by simp
  have "l * (4 * seg) + x < Suc l * (4 * seg)" using assms(1) by simp
  also have "\<dots> \<le> p * (4 * seg)" using assms(2) by (intro mult_le_mono1) simp
  finally show "l * (4 * seg) + x < p * (4 * seg)" .
qed

lemma slice_offset: "i < seg \<Longrightarrow> s < 4 \<Longrightarrow> s * seg + i < 4 * (seg :: nat)"
proof -
  assume "i < seg" "s < 4"
  then have "s * seg \<le> 3 * seg" by (intro mult_le_mono1) simp
  with \<open>i < seg\<close> show ?thesis by linarith
qed

lemma known_curr:
  assumes "i < seg" and "s < 4" and "l < p"
  shows "\<not> first \<Longrightarrow> known first seg p l s i (l * (4 * seg) + s * seg + i)"
  using lane_index [OF slice_offset [OF assms(1,2)] assms(3)] by (simp add: known_def add.assoc)

lemma known_prev:
  assumes "i < seg" and "s < 4" and "l < p" and "first \<and> s = 0 \<longrightarrow> 2 \<le> i"
  defines "c \<equiv> l * (4 * seg) + s * seg + i"
  shows "known first seg p l s i (if s * seg + i = 0 then c + 4 * seg - 1 else c - 1)"
proof (cases "s * seg + i = 0")
  case True
  have "4 * seg - 1 < 4 * seg" using assms(1) by simp
  from lane_index [OF this assms(3)] show ?thesis
    using True assms(1,4) by (simp add: known_def c_def add.assoc)
next
  case False
  define x where "x = s * seg + i - 1"
  have x: "x < 4 * seg" and part: "x < s * seg \<or> s * seg \<le> x \<and> x < s * seg + i"
    and c: "c - 1 = l * (4 * seg) + x"
    using slice_offset [OF assms(1,2)] False unfolding x_def c_def by linarith+
  show ?thesis
    using lane_index [OF x assms(3)] part unfolding if_not_P [OF False] c known_def by auto
qed

lemma known_ref:
  assumes "ref_window first seg s i (rl = l) z" and "rl < p" and "first \<and> s = 0 \<longrightarrow> rl = l"
  shows "known first seg p l s i (rl * (4 * seg) + z)"
proof -
  have z: "z < 4 * seg" using assms(1) by (simp add: ref_window_def)
  show ?thesis
    using assms(1,3) lane_index [OF z assms(2)] by (auto simp: known_def ref_window_def split: if_splits)
qed

section \<open>One step of the loop\<close>

text \<open>The position at index i, its lane offset, and what the loop keeps of \<open>prev_offset\<close>.\<close>

definition seg_curr :: "argon2_instance \<Rightarrow> argon2_position \<Rightarrow> nat \<Rightarrow> nat" where
  "seg_curr inst pos i = unat (p_lane pos) * (4 * unat (i_segment_length inst))
     + unat (p_slice pos) * unat (i_segment_length inst) + i"

definition seg_prev :: "argon2_instance \<Rightarrow> argon2_position \<Rightarrow> nat \<Rightarrow> nat" where
  "seg_prev inst pos i =
     (if unat (p_slice pos) * unat (i_segment_length inst) + i = 0
      then seg_curr inst pos i + 4 * unat (i_segment_length inst) - 1 else seg_curr inst pos i - 1)"

definition prev_ok :: "argon2_instance \<Rightarrow> argon2_position \<Rightarrow> nat \<Rightarrow> u32 \<Rightarrow> bool" where
  "prev_ok inst pos i w \<longleftrightarrow>
     (i < unat (i_segment_length inst) \<longrightarrow> unat (p_slice pos) * unat (i_segment_length inst) + i \<noteq> 1 \<longrightarrow>
      unat w = seg_prev inst pos i)"

definition seg_known :: "argon2_instance \<Rightarrow> argon2_position \<Rightarrow> nat \<Rightarrow> nat \<Rightarrow> bool" where
  "seg_known inst pos i = known (p_pass pos = 0) (unat (i_segment_length inst)) (unat (i_lanes inst))
     (unat (p_lane pos)) (unat (p_slice pos)) i"

definition ar_blocks :: "argon2_instance \<Rightarrow> nat" where
  "ar_blocks inst = unat (i_lanes inst) * (4 * unat (i_segment_length inst))"

lemma instance_okD:
  assumes "instance_ok inst"
  shows "2 \<le> unat (i_segment_length inst)" and "unat (i_lane_length inst) = 4 * unat (i_segment_length inst)"
    and "ar_blocks inst < 2 ^ 32" and "0 < unat (i_lanes inst)"
  using assms by (auto simp: instance_ok_def ar_blocks_def)

lemma position_okD:
  assumes "position_ok inst (pos\<lparr>p_index := i\<rparr>)"
  shows "unat (p_lane pos) < unat (i_lanes inst)" and "unat (p_slice pos) < 4"
    and "unat i < unat (i_segment_length inst)"
    and "p_pass pos = 0 \<and> unat (p_slice pos) = 0 \<longrightarrow> 2 \<le> unat i"
  using assms by (auto simp: position_ok_def unat_eq_0)

lemma seg_curr_less:
  assumes "instance_ok inst" and "position_ok inst (pos\<lparr>p_index := i\<rparr>)"
  shows "seg_curr inst pos (unat i) < ar_blocks inst"
    and "seg_curr inst pos (unat i) mod (4 * unat (i_segment_length inst)) =
      unat (p_slice pos) * unat (i_segment_length inst) + unat i"
  using lane_index [OF slice_offset [OF position_okD(3,2) [OF assms(2)]] position_okD(1) [OF assms(2)]]
  by (simp_all add: seg_curr_def ar_blocks_def add.assoc)

lemma unat_prev_offset:
  assumes "instance_ok inst" and "position_ok inst (pos\<lparr>p_index := i\<rparr>)"
    and "unat w = seg_curr inst pos (unat i)" and "prev_ok inst pos (unat i) v"
  shows "unat (if w mod i_lane_length inst = 1 then w - 1 else v) = seg_prev inst pos (unat i)"
proof -
  let ?x = "unat (p_slice pos) * unat (i_segment_length inst) + unat i"
  have "w mod i_lane_length inst = 1 \<longleftrightarrow> ?x = 1"
    using seg_curr_less(2) [OF assms(1,2)] assms(3) instance_okD(2) [OF assms(1)]
    by (simp add: word_unat_eq_iff unat_mod)
  moreover have "unat (w - 1) = seg_prev inst pos (unat i)" if "?x = 1"
  proof -
    have w: "0 < unat w" and x: "\<not> ?x = 0" using that assms(3) unfolding seg_curr_def by linarith+
    show ?thesis
      unfolding seg_prev_def if_not_P [OF x] assms(3) [symmetric] by (rule unat_minus_1 [OF w])
  qed
  ultimately show ?thesis
    using assms(4) position_okD(3) [OF assms(2)] by (simp add: prev_ok_def)
qed

lemma prev_ok_Suc:
  assumes "instance_ok inst" and "unat w = seg_prev inst pos i" and "i < unat (i_segment_length inst)"
    and "seg_curr inst pos i < 2 ^ 32 - 1"
  shows "prev_ok inst pos (Suc i) (w + 1)"
proof -
  have "unat (w + 1) = seg_curr inst pos i" if "0 < unat (p_slice pos) * unat (i_segment_length inst) + i"
  proof -
    have "\<not> unat (p_slice pos) * unat (i_segment_length inst) + i = 0" and "0 < seg_curr inst pos i"
      using that unfolding seg_curr_def by linarith+
    then have "unat w + 1 = seg_curr inst pos i"
      using assms(2) unfolding seg_prev_def by (simp only: if_False)
    then show ?thesis using assms(4) by (subst unat_add_small) simp_all
  qed
  then show ?thesis
    by (auto simp: prev_ok_def seg_prev_def seg_curr_def)
qed

lemma unat_ref_address:
  fixes rl :: u64 and z :: u32
  assumes "instance_ok inst" and "unat rl < unat (i_lanes inst)" and "unat z < 4 * unat (i_segment_length inst)"
  shows "unat (ucast (i_lane_length inst) * rl + ucast z) = unat rl * (4 * unat (i_segment_length inst)) + unat z"
    and "unat rl * (4 * unat (i_segment_length inst)) + unat z < ar_blocks inst"
proof -
  show lt: "unat rl * (4 * unat (i_segment_length inst)) + unat z < ar_blocks inst"
    using lane_index(3) [OF assms(3,2)] by (simp add: ar_blocks_def)
  have L: "unat (ucast (i_lane_length inst) :: u64) = 4 * unat (i_segment_length inst)"
    using instance_okD(2) [OF assms(1)] by (simp add: unat_ucast_up)
  have mul: "unat (ucast (i_lane_length inst) * rl) = unat rl * (4 * unat (i_segment_length inst))"
    using lt instance_okD(3) [OF assms(1)] L by (subst unat_mult_small) (simp_all add: mult.commute)
  show "unat (ucast (i_lane_length inst) * rl + ucast z) = unat rl * (4 * unat (i_segment_length inst)) + unat z"
    using lt instance_okD(3) [OF assms(1)] mul by (subst unat_add_small) (simp_all add: unat_ucast_up)
qed

text \<open>Two memories that agree on the known blocks get the same new block, and no access fails.\<close>

lemma mem_read_agree:
  assumes "agree A M N" and "A k" and "k < length M"
  shows "mem_read M k = Some (M ! k)" and "mem_read N k = Some (M ! k)"
  using assms by (simp_all add: agree_def mem_read_def)

lemma fill_segment_step_agree:
  assumes inst: "instance_ok inst" and pos: "position_ok inst (pos\<lparr>p_index := i\<rparr>)"
    and curr: "unat c = seg_curr inst pos (unat i)" and prev: "prev_ok inst pos (unat i) v"
    and M: "mem_ok (ar_blocks inst) M" "mem_ok (ar_blocks inst) N" and ag: "agree (seg_known inst pos (unat i)) M N"
  shows "\<exists>b a inp w.
     fill_segment_step inst pos d i \<lparr>s_memory = M, s_address = ad, s_input = ip, s_curr = c, s_prev = v\<rparr>
       = Some \<lparr>s_memory = M[unat c := b], s_address = a, s_input = inp, s_curr = c + 1, s_prev = w\<rparr>
   \<and> fill_segment_step inst pos d i \<lparr>s_memory = N, s_address = ad, s_input = ip, s_curr = c, s_prev = v\<rparr>
       = Some \<lparr>s_memory = N[unat c := b], s_address = a, s_input = inp, s_curr = c + 1, s_prev = w\<rparr>
   \<and> length b = 128 \<and> prev_ok inst pos (Suc (unat i)) w"
proof -
  let ?seg = "unat (i_segment_length inst)" and ?l = "unat (p_lane pos)" and ?s = "unat (p_slice pos)"
  let ?first = "p_pass pos = 0"
  define po where "po = (if c mod i_lane_length inst = 1 then c - 1 else v)"
  obtain a inp where ai: "(if d \<and> i mod 128 = 0 then next_addresses ad ip (init_block_value 0) else (ad, ip)) = (a, inp)"
    by force
  have po: "unat po = seg_prev inst pos (unat i)"
    unfolding po_def by (rule unat_prev_offset [OF inst pos curr prev])
  have len: "ar_blocks inst \<le> length M" "length N = length M"
    using M ag by (simp_all add: mem_ok_def agree_def)
  have kn: "seg_known inst pos (unat i) (unat po)"
    unfolding seg_known_def po seg_prev_def seg_curr_def
    by (rule known_prev [OF position_okD(3,2,1,4) [OF pos]])
  have known_lt: "k < length M" if "seg_known inst pos (unat i) k" for k
    using that len(1) by (simp add: seg_known_def known_def ar_blocks_def)
  note rd_po = mem_read_agree [OF ag kn known_lt [OF kn]]
  define pr where "pr = (if d then a ! unat (i mod 128) else M ! unat po ! 0)"
  define rl where "rl = (if ?first \<and> p_slice pos = 0 then ucast (p_lane pos) else drop_bit 32 pr mod ucast (i_lanes inst))"
  define ix where "ix = zenrx_ar2_index_alpha inst (pos\<lparr>p_index := i\<rparr>) (ucast (pr AND 0xFFFFFFFF)) (rl = ucast (p_lane pos))"
  define ra where "ra = unat (ucast (i_lane_length inst) * rl + ucast ix)"
  have lanes: "unat (ucast (i_lanes inst) :: u64) = unat (i_lanes inst)" "unat (ucast (p_lane pos) :: u64) = ?l"
    by (simp_all add: unat_ucast_up)
  have rl: "unat rl < unat (i_lanes inst)"
    using position_okD(1) [OF pos] instance_okD(4) [OF inst] by (simp add: rl_def lanes unat_mod)
  have same: "rl = ucast (p_lane pos) \<longleftrightarrow> unat rl = ?l"
    by (simp add: word_unat_eq_iff lanes)
  have win: "ref_window ?first ?seg ?s (unat i) (unat rl = ?l) (unat ix)"
    using index_alpha_window [OF inst pos, of "rl = ucast (p_lane pos)" "ucast (pr AND 0xFFFFFFFF)"] same
    by (simp add: ix_def rl_def)
  have ix: "unat ix < 4 * ?seg" using win by (simp add: ref_window_def)
  have "?first \<and> ?s = 0 \<longrightarrow> unat rl = ?l" by (auto simp: rl_def unat_eq_0 lanes)
  then have kr: "seg_known inst pos (unat i) ra"
    using known_ref [OF win rl] unat_ref_address(1) [OF inst rl ix] by (simp add: ra_def seg_known_def)
  note rd_ra = mem_read_agree [OF ag kr known_lt [OF kr]]
  have c_lt: "unat c < length M" using seg_curr_less(1) [OF inst pos] curr len by simp
  define x where "x = (\<not> (?first \<or> i_version inst = ARGON2_VERSION_10))"
  define b where "b = fill_block (M ! unat po) (M ! ra) (M ! unat c) x"
  have "fill_block (M ! unat po) (M ! ra) (N ! unat c) x = b"
  proof (cases ?first)
    case True
    then show ?thesis
      unfolding b_def x_def using mem_ok_nth [OF M(1)] mem_ok_nth [OF M(2)] seg_curr_less(1) [OF inst pos] curr
      by (simp add: fill_block_fresh)
  next
    case False
    then have "seg_known inst pos (unat i) (unat c)"
      using known_curr [OF position_okD(3,2,1) [OF pos]] curr by (simp add: seg_known_def seg_curr_def)
    then show ?thesis using ag by (simp add: b_def agree_def)
  qed
  moreover have "fill_segment_step inst pos d i \<lparr>s_memory = Q, s_address = ad, s_input = ip, s_curr = c, s_prev = v\<rparr>
       = Some \<lparr>s_memory = Q[unat c := b], s_address = a, s_input = inp, s_curr = c + 1, s_prev = po + 1\<rparr>"
    if "mem_read Q (unat po) = Some (M ! unat po)" and "mem_read Q ra = Some (M ! ra)"
      and "unat c < length Q" and "fill_block (M ! unat po) (M ! ra) (Q ! unat c) x = b" for Q
  proof -
    have "mem_read Q (unat c) = Some (Q ! unat c)" and "mem_write Q (unat c) b = Some (Q[unat c := b])"
      using that(3) by (simp_all add: mem_read_def mem_write_def)
    then show ?thesis
      by (simp only: fill_segment_step_def Let_def seg_state.simps po_def [symmetric] ai prod.case that(1,2,4)
          Option.bind.simps pr_def [symmetric] rl_def [symmetric] ix_def [symmetric] ra_def [symmetric] x_def [symmetric])
  qed
  ultimately have step: "fill_segment_step inst pos d i \<lparr>s_memory = Q, s_address = ad, s_input = ip, s_curr = c, s_prev = v\<rparr>
       = Some \<lparr>s_memory = Q[unat c := b], s_address = a, s_input = inp, s_curr = c + 1, s_prev = po + 1\<rparr>"
    if "Q = M \<or> Q = N" for Q
    using that rd_po rd_ra c_lt len(2) b_def by auto
  have "prev_ok inst pos (Suc (unat i)) (po + 1)"
    using seg_curr_less(1) [OF inst pos] instance_okD(3) [OF inst] position_okD(3) [OF pos] po
    by (intro prev_ok_Suc [OF inst]) simp_all
  moreover have "length b = 128" by (simp add: b_def)
  ultimately show ?thesis using step by blast
qed

section \<open>A segment\<close>

text \<open>Only blocks from \<open>lo\<close> to \<open>hi\<close> (exclusive) differ.\<close>

definition mem_frame :: "nat \<Rightarrow> nat \<Rightarrow> ar_memory \<Rightarrow> ar_memory \<Rightarrow> bool" where
  "mem_frame lo hi M M' \<longleftrightarrow> length M' = length M \<and> (\<forall>k. \<not> (lo \<le> k \<and> k < hi) \<longrightarrow> M' ! k = M ! k)"

lemma mem_frame_refl [simp]: "mem_frame lo hi M M"
  by (simp add: mem_frame_def)

lemma mem_frame_step: "mem_frame (Suc c) hi (M[c := b]) M' \<Longrightarrow> c < hi \<Longrightarrow> mem_frame c hi M M'"
  by (auto simp: mem_frame_def nth_list_update)

text \<open>A position whose segment exists, index aside, and the first index the loop may start from.\<close>

definition segment_ok :: "argon2_instance \<Rightarrow> argon2_position \<Rightarrow> bool" where
  "segment_ok inst pos \<longleftrightarrow> unat (p_lane pos) < unat (i_lanes inst) \<and> unat (p_slice pos) < 4"

definition seg_first :: "argon2_position \<Rightarrow> nat" where
  "seg_first pos = (if p_pass pos = 0 \<and> p_slice pos = 0 then 2 else 0)"

lemma segment_position:
  assumes "segment_ok inst pos" and "seg_first pos \<le> unat i" and "unat i < unat (i_segment_length inst)"
  shows "position_ok inst (pos\<lparr>p_index := i\<rparr>)"
  using assms by (auto simp: segment_ok_def position_ok_def seg_first_def split: if_splits)

lemma seg_known_Suc: "seg_known inst pos (Suc i) k \<Longrightarrow> k \<noteq> seg_curr inst pos i \<Longrightarrow> seg_known inst pos i k"
  by (auto simp: seg_known_def known_def seg_curr_def)

lemma fill_segment_loop_agree:
  assumes "instance_ok inst" and "segment_ok inst pos" and "seg_first pos \<le> unat i"
    and "unat i \<le> unat (i_segment_length inst)"
    and "i < i_segment_length inst \<longrightarrow> unat c = seg_curr inst pos (unat i)" and "prev_ok inst pos (unat i) v"
    and "mem_ok (ar_blocks inst) M" and "mem_ok (ar_blocks inst) N" and "agree (seg_known inst pos (unat i)) M N"
  defines "lo \<equiv> seg_curr inst pos (unat i)" and "hi \<equiv> seg_curr inst pos (unat (i_segment_length inst))"
  shows "\<exists>M' N'. map_option s_memory (fill_segment_loop inst pos d i \<lparr>s_memory = M, s_address = ad, s_input = ip, s_curr = c, s_prev = v\<rparr>) = Some M'
   \<and> map_option s_memory (fill_segment_loop inst pos d i \<lparr>s_memory = N, s_address = ad, s_input = ip, s_curr = c, s_prev = v\<rparr>) = Some N'
   \<and> mem_ok (ar_blocks inst) M' \<and> mem_ok (ar_blocks inst) N' \<and> mem_frame lo hi M M' \<and> mem_frame lo hi N N'
   \<and> (\<forall>k. lo \<le> k \<and> k < hi \<longrightarrow> M' ! k = N' ! k)"
  using assms(2-9) unfolding lo_def
proof (induction "unat (i_segment_length inst) - unat i" arbitrary: i c v M N ad ip)
  case 0
  then have "\<not> i < i_segment_length inst" and "unat i = unat (i_segment_length inst)"
    by (simp_all add: word_less_nat_alt)
  then show ?case
    using 0 by (subst (1 2) fill_segment_loop.simps) (auto simp: hi_def)
next
  case (Suc n)
  then have i: "i < i_segment_length inst" by (simp add: word_less_nat_alt)
  then have i1: "unat (i + 1) = Suc (unat i)" by (rule unat_inc_less)
  have n: "n = unat (i_segment_length inst) - Suc (unat i)" using Suc.hyps(2) by linarith
  have pos: "position_ok inst (pos\<lparr>p_index := i\<rparr>)"
    using segment_position Suc.prems(1,2) i by (simp add: word_less_nat_alt)
  have c: "unat c = seg_curr inst pos (unat i)" using Suc.prems(4) i by simp
  obtain b a inp w where
    M1: "fill_segment_step inst pos d i \<lparr>s_memory = M, s_address = ad, s_input = ip, s_curr = c, s_prev = v\<rparr>
       = Some \<lparr>s_memory = M[unat c := b], s_address = a, s_input = inp, s_curr = c + 1, s_prev = w\<rparr>" and
    N1: "fill_segment_step inst pos d i \<lparr>s_memory = N, s_address = ad, s_input = ip, s_curr = c, s_prev = v\<rparr>
       = Some \<lparr>s_memory = N[unat c := b], s_address = a, s_input = inp, s_curr = c + 1, s_prev = w\<rparr>" and
    b: "length b = 128" "prev_ok inst pos (Suc (unat i)) w"
    using fill_segment_step_agree [OF assms(1) pos c Suc.prems(5-8)] by blast
  have clt: "unat c < ar_blocks inst" using seg_curr_less(1) [OF assms(1) pos] c by simp
  have c1: "unat (c + 1) = seg_curr inst pos (Suc (unat i))"
    using clt c instance_okD(3) [OF assms(1)] by (subst unat_add_small) (simp_all add: seg_curr_def)
  have ag: "agree (seg_known inst pos (Suc (unat i))) (M[unat c := b]) (N[unat c := b])"
    using Suc.prems(6-8) clt seg_known_Suc unfolding agree_def mem_ok_def c
    by (auto simp: nth_list_update)
  obtain M' N' where
    loop: "map_option s_memory (fill_segment_loop inst pos d (i + 1) \<lparr>s_memory = M[unat c := b], s_address = a, s_input = inp, s_curr = c + 1, s_prev = w\<rparr>)
        = Some M'"
      "map_option s_memory (fill_segment_loop inst pos d (i + 1) \<lparr>s_memory = N[unat c := b], s_address = a, s_input = inp, s_curr = c + 1, s_prev = w\<rparr>)
        = Some N'"
      "mem_ok (ar_blocks inst) M'" "mem_ok (ar_blocks inst) N'"
      "mem_frame (seg_curr inst pos (Suc (unat i))) hi (M[unat c := b]) M'"
      "mem_frame (seg_curr inst pos (Suc (unat i))) hi (N[unat c := b]) N'"
      "\<forall>k. seg_curr inst pos (Suc (unat i)) \<le> k \<and> k < hi \<longrightarrow> M' ! k = N' ! k"
    using Suc.hyps(1) [of "i + 1" "c + 1" w "M[unat c := b]" "N[unat c := b]" a inp] n Suc.prems i1 c1 b ag i
      mem_ok_update by (auto simp: word_less_nat_alt simp del: map_option_eq_Some)
  have cS: "seg_curr inst pos (Suc (unat i)) = Suc (unat c)" and chi: "unat c < hi"
    using c i by (simp_all add: seg_curr_def hi_def word_less_nat_alt)
  have at_c: "M' ! unat c = b" "N' ! unat c = b"
    using loop(5,6) clt Suc.prems(6,7) unfolding mem_frame_def cS mem_ok_def by auto
  have new: "\<forall>k. unat c \<le> k \<and> k < hi \<longrightarrow> M' ! k = N' ! k"
    using at_c loop(7) unfolding cS by (metis Suc_leI le_neq_implies_less)
  have "map_option s_memory (fill_segment_loop inst pos d i
      \<lparr>s_memory = M, s_address = ad, s_input = ip, s_curr = c, s_prev = v\<rparr>) = Some M'"
    using loop(1) M1 i by (subst fill_segment_loop.simps) simp
  moreover have "map_option s_memory (fill_segment_loop inst pos d i
      \<lparr>s_memory = N, s_address = ad, s_input = ip, s_curr = c, s_prev = v\<rparr>) = Some N'"
    using loop(2) N1 i by (subst fill_segment_loop.simps) simp
  ultimately show ?case
    using loop(3,4) new mem_frame_step [OF loop(5) [unfolded cS] chi] mem_frame_step [OF loop(6) [unfolded cS] chi]
    unfolding c [symmetric] by blast
qed

lemma unat_curr_offset:
  assumes "instance_ok inst" and "position_ok inst (pos\<lparr>p_index := i\<rparr>)"
  shows "unat (p_lane pos * i_lane_length inst + ucast (p_slice pos) * i_segment_length inst + i) = seg_curr inst pos (unat i)"
proof -
  note D = instance_okD [OF assms(1)]
  have lt: "seg_curr inst pos (unat i) < 2 ^ LENGTH(32)"
    using seg_curr_less(1) [OF assms] D(3) by simp
  have a: "unat (p_lane pos * i_lane_length inst) = unat (p_lane pos) * (4 * unat (i_segment_length inst))"
    by (subst unat_mult_small [OF le_less_trans [OF _ lt]]) (simp_all add: D(2) seg_curr_def)
  have b: "unat (ucast (p_slice pos) * i_segment_length inst) = unat (p_slice pos) * unat (i_segment_length inst)"
    by (subst unat_mult_small [OF le_less_trans [OF _ lt]]) (simp_all add: unat_ucast_up seg_curr_def)
  have c: "unat (p_lane pos * i_lane_length inst + ucast (p_slice pos) * i_segment_length inst) =
      unat (p_lane pos) * (4 * unat (i_segment_length inst)) + unat (p_slice pos) * unat (i_segment_length inst)"
    by (subst unat_add_small [OF le_less_trans [OF _ lt]]) (simp_all add: a b seg_curr_def)
  show ?thesis
    by (subst unat_add_small [OF le_less_trans [OF _ lt]]) (simp_all add: c seg_curr_def)
qed

lemma prev_ok_start:
  assumes "instance_ok inst" and "position_ok inst (pos\<lparr>p_index := i\<rparr>)" and "unat c = seg_curr inst pos (unat i)"
  shows "prev_ok inst pos (unat i) (if c mod i_lane_length inst = 0 then c + i_lane_length inst - 1 else c - 1)"
proof -
  let ?seg = "unat (i_segment_length inst)"
  let ?x = "unat (p_slice pos) * ?seg + unat i"
  note D = instance_okD [OF assms(1)]
  have x: "c mod i_lane_length inst = 0 \<longleftrightarrow> ?x = 0"
    using seg_curr_less(2) [OF assms(1,2)] assms(3) D(2) by (simp add: word_unat_eq_iff unat_mod)
  show ?thesis
  proof (cases "?x = 0")
    case True
    then have c: "unat c = unat (p_lane pos) * (4 * ?seg)" using assms(3) unfolding seg_curr_def by linarith
    have "unat (p_lane pos) * (4 * ?seg) + (4 * ?seg - 1) < ar_blocks inst"
      using lane_index(3) [OF _ position_okD(1) [OF assms(2)], of "4 * ?seg - 1" ?seg] D(1) by (simp add: ar_blocks_def)
    then have lt: "unat c + 4 * ?seg < 2 ^ 32" using c D(1,3) by linarith
    then have "unat (c + i_lane_length inst) = unat c + 4 * ?seg"
      by (subst unat_add_small) (simp_all add: D(2))
    then have "unat (c + i_lane_length inst - 1) = seg_prev inst pos (unat i)"
      using D(1) True assms(3) unfolding seg_prev_def if_P [OF True] by (subst unat_minus_1) simp_all
    then show ?thesis using x True by (simp add: prev_ok_def)
  next
    case False
    then have "0 < unat c" using assms(3) unfolding seg_curr_def by linarith
    then have "unat (c - 1) = seg_prev inst pos (unat i)"
      unfolding seg_prev_def if_not_P [OF False] assms(3) [symmetric] by (rule unat_minus_1)
    then show ?thesis unfolding prev_ok_def using x False by (simp only: if_False simp_thms)
  qed
qed

lemma fill_segment_64_agree:
  assumes "instance_ok inst" and "segment_ok inst pos"
    and "mem_ok (ar_blocks inst) M" and "mem_ok (ar_blocks inst) N"
    and "agree (seg_known inst pos (seg_first pos)) M N"
  defines "lo \<equiv> seg_curr inst pos (seg_first pos)" and "hi \<equiv> seg_curr inst pos (unat (i_segment_length inst))"
  shows "\<exists>M' N'. fill_segment_64 junk inst pos M = Some M' \<and> fill_segment_64 junk inst pos N = Some N'
    \<and> mem_ok (ar_blocks inst) M' \<and> mem_ok (ar_blocks inst) N' \<and> mem_frame lo hi M M' \<and> mem_frame lo hi N N'
    \<and> (\<forall>k. lo \<le> k \<and> k < hi \<longrightarrow> M' ! k = N' ! k)"
proof -
  let ?first = "p_pass pos = 0 \<and> p_slice pos = 0"
  define start :: u32 where "start = (if ?first then 2 else 0)"
  define dia where "dia = data_independent_addressing inst pos"
  define ip where "ip = (if dia then (init_block_value 0)[0 := ucast (p_pass pos), 1 := ucast (p_lane pos),
                     2 := ucast (p_slice pos), 3 := ucast (i_memory_blocks inst),
                     4 := ucast (i_passes inst), 5 := ucast (i_type inst)] else junk)"
  obtain ad ip' where ad: "(if p_pass pos = 0 \<and> p_slice pos = 0 \<and> dia
      then next_addresses junk ip (init_block_value 0) else (junk, ip)) = (ad, ip')" by force
  define c where "c = p_lane pos * i_lane_length inst + ucast (p_slice pos) * i_segment_length inst + start"
  define v where "v = (if c mod i_lane_length inst = 0 then c + i_lane_length inst - 1 else c - 1)"
  have start: "unat start = seg_first pos" by (simp add: start_def seg_first_def)
  have unfold: "fill_segment_64 junk inst pos Q = map_option s_memory (fill_segment_loop inst pos dia start
      \<lparr>s_memory = Q, s_address = ad, s_input = ip', s_curr = c, s_prev = v\<rparr>)" for Q
    by (simp only: fill_segment_64_def Let_def dia_def [symmetric] ip_def [symmetric] ad start_def [symmetric]
        prod.case c_def [symmetric] v_def [symmetric])
  have seg2: "seg_first pos \<le> unat (i_segment_length inst)"
    using instance_okD(1) [OF assms(1)] by (simp add: seg_first_def)
  have pos: "position_ok inst (pos\<lparr>p_index := start\<rparr>)" if "start < i_segment_length inst"
    using that segment_position [OF assms(2)] start by (simp add: word_less_nat_alt)
  have c: "start < i_segment_length inst \<longrightarrow> unat c = seg_curr inst pos (unat start)"
    using unat_curr_offset [OF assms(1) pos] by (simp add: c_def)
  have "prev_ok inst pos (unat start) v"
    unfolding v_def using prev_ok_start [OF assms(1) pos, of c] c
    by (cases "start < i_segment_length inst") (auto simp: prev_ok_def word_less_nat_alt)
  from fill_segment_loop_agree [OF assms(1,2) _ _ c this assms(3,4)] show ?thesis
    using seg2 assms(5) unfolding unfold start lo_def hi_def by simp
qed

section \<open>A slice: its segments are independent\<close>

text \<open>The blocks the segment of lane l rewrites.\<close>

definition in_segment :: "argon2_instance \<Rightarrow> argon2_position \<Rightarrow> nat \<Rightarrow> bool" where
  "in_segment inst pos k \<longleftrightarrow> seg_curr inst pos (seg_first pos) \<le> k \<and> k < seg_curr inst pos (unat (i_segment_length inst))"

lemma in_segment_div:
  assumes "instance_ok inst" and "segment_ok inst pos" and "in_segment inst pos k"
  shows "k div (4 * unat (i_segment_length inst)) = unat (p_lane pos)"
    and "unat (p_slice pos) * unat (i_segment_length inst) \<le> k mod (4 * unat (i_segment_length inst))"
    and "k mod (4 * unat (i_segment_length inst)) < Suc (unat (p_slice pos)) * unat (i_segment_length inst)"
proof -
  let ?seg = "unat (i_segment_length inst)" and ?s = "unat (p_slice pos)" and ?l = "unat (p_lane pos)"
  define x where "x = k - ?l * (4 * ?seg)"
  have k: "k = ?l * (4 * ?seg) + x" and x: "?s * ?seg \<le> x" "x < ?s * ?seg + ?seg"
    using assms(3) unfolding in_segment_def seg_curr_def x_def by linarith+
  have x4: "x < 4 * ?seg"
    using x slice_offset [of "x - ?s * ?seg" ?seg ?s] assms(2) by (simp add: segment_ok_def)
  note li = lane_index [OF x4, of ?l "Suc ?l"]
  show "k div (4 * ?seg) = ?l" and "?s * ?seg \<le> k mod (4 * ?seg)" and "k mod (4 * ?seg) < Suc ?s * ?seg"
    using li x unfolding k [symmetric] by simp_all
qed

lemma seg_known_not_other:
  assumes "instance_ok inst" and "segment_ok inst pos" and "segment_ok inst pos'"
    and "p_slice pos' = p_slice pos" and "p_pass pos' = p_pass pos" and "p_lane pos' \<noteq> p_lane pos"
    and "in_segment inst pos' k"
  shows "\<not> seg_known inst pos (seg_first pos) k"
proof
  let ?seg = "unat (i_segment_length inst)" and ?s = "unat (p_slice pos)" and ?l = "unat (p_lane pos)"
  assume known: "seg_known inst pos (seg_first pos) k"
  note div = in_segment_div [OF assms(1,3,7), unfolded assms(4)]
  have ne: "unat (p_lane pos') \<noteq> ?l" using assms(6) by (simp add: word_unat_eq_iff)
  have "seg_first pos \<le> ?seg" using instance_okD(1) [OF assms(1)] by (simp add: seg_first_def)
  moreover from known div ne have "p_pass pos = 0" and "?l * (4 * ?seg) + ?s * ?seg \<le> k"
    and "k < ?l * (4 * ?seg) + ?s * ?seg + seg_first pos"
    by (auto simp: seg_known_def known_def split: if_splits)
  ultimately have "?l * (4 * ?seg) \<le> k" and "k < ?l * (4 * ?seg) + (?s * ?seg + ?seg)" by linarith+
  moreover have "?s * ?seg + ?seg \<le> 4 * ?seg"
    using slice_offset [of "?seg - 1" ?seg ?s] instance_okD(1) [OF assms(1)] assms(2) by (simp add: segment_ok_def)
  ultimately have "k - ?l * (4 * ?seg) < 4 * ?seg" and "k = ?l * (4 * ?seg) + (k - ?l * (4 * ?seg))"
    by linarith+
  then have "k div (4 * ?seg) = ?l"
    using lane_index(2) [of "k - ?l * (4 * ?seg)" ?seg ?l "Suc ?l"] by simp
  with div(1) ne show False by simp
qed

lemma lane_position_ok:
  assumes "s < 4" and "l < unat (i_lanes inst)"
  shows "segment_ok inst (lane_position r s l)" and "unat (p_lane (lane_position r s l)) = l"
    and "unat (p_slice (lane_position r s l)) = s"
proof -
  have "l < 2 ^ 32" using assms(2) unat_u32_lt [of "i_lanes inst"] by simp
  then show "unat (p_lane (lane_position r s l)) = l" and "unat (p_slice (lane_position r s l)) = s"
    using assms by (simp_all add: lane_position_def unat_of_nat_small)
  then show "segment_ok inst (lane_position r s l)" using assms by (simp add: segment_ok_def)
qed

text \<open>Filling the segments of a list of lanes one after the other gives, in each of them, what filling
  it alone from the memory at the start of the slice gives.\<close>

lemma fill_lanes:
  assumes "instance_ok inst" and "s < 4" and "mem_ok (ar_blocks inst) M"
    and "distinct ls" and "\<forall>l \<in> set ls. l < unat (i_lanes inst)"
  shows "\<exists>M'. fold_opt (\<lambda>l. fill_segment_64 junk inst (lane_position r s l)) ls M = Some M'
    \<and> mem_ok (ar_blocks inst) M' \<and> length M' = length M
    \<and> (\<forall>l \<in> set ls. \<forall>k. in_segment inst (lane_position r s l) k \<longrightarrow>
          M' ! k = the (fill_segment_64 junk inst (lane_position r s l) M) ! k)
    \<and> (\<forall>k. (\<forall>l \<in> set ls. \<not> in_segment inst (lane_position r s l) k) \<longrightarrow> M' ! k = M ! k)"
  using assms(4,5)
proof (induction ls rule: rev_induct)
  case (snoc l ls)
  let ?pos = "lane_position r s l"
  obtain M1 where M1: "fold_opt (\<lambda>l. fill_segment_64 junk inst (lane_position r s l)) ls M = Some M1"
    "mem_ok (ar_blocks inst) M1" "length M1 = length M"
    "\<And>l' k. l' \<in> set ls \<Longrightarrow> in_segment inst (lane_position r s l') k \<Longrightarrow>
          M1 ! k = the (fill_segment_64 junk inst (lane_position r s l') M) ! k"
    "\<And>k. (\<forall>l \<in> set ls. \<not> in_segment inst (lane_position r s l) k) \<Longrightarrow> M1 ! k = M ! k"
    using snoc by force
  have l: "l < unat (i_lanes inst)" "l \<notin> set ls" using snoc.prems by auto
  note lp = lane_position_ok [OF assms(2)]
  have dis: "in_segment inst (lane_position r s l') k \<Longrightarrow> \<not> in_segment inst ?pos k" if "l' \<in> set ls" for l' k
    using that l snoc.prems(2) in_segment_div(1) [OF assms(1) lp(1)] lp(2) by (metis Un_iff set_append)
  have "agree (seg_known inst ?pos (seg_first ?pos)) M M1"
    unfolding agree_def
  proof (intro conjI allI impI)
    fix k
    assume k: "seg_known inst ?pos (seg_first ?pos) k"
    have "\<not> in_segment inst (lane_position r s l') k" if "l' \<in> set ls" for l'
    proof
      assume "in_segment inst (lane_position r s l') k"
      moreover have "l' < unat (i_lanes inst)" using that snoc.prems(2) by simp
      moreover have "p_lane (lane_position r s l') \<noteq> p_lane ?pos"
        using that l lp(2) [OF l(1), of r] lp(2) [OF calculation(2), of r] by auto
      ultimately show False
        using seg_known_not_other [OF assms(1) lp(1) [OF l(1)] lp(1)] k by (simp add: lane_position_def)
    qed
    then show "M ! k = M1 ! k" using M1(5) by simp
  qed (simp add: M1(3))
  from fill_segment_64_agree [OF assms(1) lp(1) [OF l(1)] assms(3) M1(2) this, of junk]
  obtain N N1 where N: "fill_segment_64 junk inst ?pos M = Some N" "fill_segment_64 junk inst ?pos M1 = Some N1"
    "mem_ok (ar_blocks inst) N1" "length N1 = length M1"
    "\<And>k. \<not> in_segment inst ?pos k \<Longrightarrow> N1 ! k = M1 ! k"
    "\<And>k. in_segment inst ?pos k \<Longrightarrow> N1 ! k = N ! k"
    unfolding in_segment_def [symmetric] mem_frame_def by metis
  have "N1 ! k = the (fill_segment_64 junk inst (lane_position r s l') M) ! k"
    if "l' \<in> set (ls @ [l])" "in_segment inst (lane_position r s l') k" for l' k
    using that N dis M1(4) by auto
  moreover have "N1 ! k = M ! k" if "\<forall>l \<in> set (ls @ [l]). \<not> in_segment inst (lane_position r s l) k" for k
    using that N(5) M1(5) by simp
  ultimately show ?case
    using M1(1,3) N(2,3,4) by (simp add: fold_opt_append)
qed (use assms(3) in simp)

text \<open>C19: the segments of a slice can be filled in any order, or at the same time: for every order of
  the lanes the result is that of \<open>fill_slice\<close>, no access leaves the memory, and every segment comes
  out as if it were filled alone from the memory as it was at the start of the slice.\<close>

theorem argon2_slice_order:
  assumes "instance_ok inst" and "s < 4" and "mem_ok (ar_blocks inst) M"
    and "distinct ls" and "set ls = {..<unat (i_lanes inst)}"
  shows "\<exists>M'. fold_opt (\<lambda>l. fill_segment_64 junk inst (lane_position r s l)) ls M = Some M'
    \<and> fill_slice junk inst r s M = Some M'
    \<and> (\<forall>l < unat (i_lanes inst). \<forall>k. in_segment inst (lane_position r s l) k \<longrightarrow>
          M' ! k = the (fill_segment_64 junk inst (lane_position r s l) M) ! k)"
proof -
  have ls: "\<forall>l \<in> set ls. l < unat (i_lanes inst)" using assms(5) by simp
  obtain M1 where M1: "fold_opt (\<lambda>l. fill_segment_64 junk inst (lane_position r s l)) ls M = Some M1"
    "length M1 = length M"
    "\<And>l k. l < unat (i_lanes inst) \<Longrightarrow> in_segment inst (lane_position r s l) k \<Longrightarrow>
          M1 ! k = the (fill_segment_64 junk inst (lane_position r s l) M) ! k"
    "\<And>k. (\<forall>l < unat (i_lanes inst). \<not> in_segment inst (lane_position r s l) k) \<Longrightarrow> M1 ! k = M ! k"
    using fill_lanes [OF assms(1-4) ls, of junk r] unfolding assms(5) by auto
  obtain M2 where M2: "fill_slice junk inst r s M = Some M2" "length M2 = length M"
    "\<And>l k. l < unat (i_lanes inst) \<Longrightarrow> in_segment inst (lane_position r s l) k \<Longrightarrow>
          M2 ! k = the (fill_segment_64 junk inst (lane_position r s l) M) ! k"
    "\<And>k. (\<forall>l < unat (i_lanes inst). \<not> in_segment inst (lane_position r s l) k) \<Longrightarrow> M2 ! k = M ! k"
    using fill_lanes [OF assms(1-3), of "[0..<unat (i_lanes inst)]" junk r] by (auto simp: fill_slice_def)
  have "M1 ! k = M2 ! k" for k
    using M1(3,4) M2(3,4) by (cases "\<exists>l < unat (i_lanes inst). in_segment inst (lane_position r s l) k") auto
  then have "M1 = M2" using M1(2) M2(2) by (auto intro: nth_equalityI)
  with M1 M2(1) show ?thesis by blast
qed

text \<open>A small instance: two lanes of eight blocks, two passes of Argon2id.\<close>

definition demo_instance :: argon2_instance where
  "demo_instance = \<lparr>i_version = ARGON2_VERSION_NUMBER, i_passes = 2, i_memory_blocks = 16, i_segment_length = 2,
     i_lane_length = 8, i_lanes = 2, i_threads = 1, i_type = Argon2_id, i_print_internals = False,
     i_keep_memory = False\<rparr>"

lemma demo_instance_ok: "instance_ok demo_instance" "ar_blocks demo_instance = 16"
  "unat (i_lanes demo_instance) = 2" "unat (i_segment_length demo_instance) = 2"
  "0 < unat (i_passes demo_instance)"
  by (simp_all add: demo_instance_def instance_ok_def ar_blocks_def)

lemma mem_ok_replicate: "n \<le> m \<Longrightarrow> mem_ok n (replicate m (replicate 128 x))"
  by (simp add: mem_ok_def)

theorem argon2_slice_order_witness:
  "\<exists>M'. fold_opt (\<lambda>l. fill_segment_64 [] demo_instance (lane_position 0 1 l)) [1, 0]
        (replicate 16 (replicate 128 0)) = Some M'
    \<and> fill_slice [] demo_instance 0 1 (replicate 16 (replicate 128 0)) = Some M'
    \<and> (\<forall>l < unat (i_lanes demo_instance). \<forall>k. in_segment demo_instance (lane_position 0 1 l) k \<longrightarrow>
          M' ! k = the (fill_segment_64 [] demo_instance (lane_position 0 1 l) (replicate 16 (replicate 128 0))) ! k)"
  by (rule argon2_slice_order [OF demo_instance_ok(1)])
    (auto simp: demo_instance_ok mem_ok_replicate)

section \<open>The whole memory\<close>

text \<open>What is determined by the first two blocks of the lanes when the first pass has reached lane l
  of slice s.\<close>

definition determined :: "argon2_instance \<Rightarrow> nat \<Rightarrow> nat \<Rightarrow> nat \<Rightarrow> bool" where
  "determined inst s l k \<longleftrightarrow>
     (let seg = unat (i_segment_length inst) in k < ar_blocks inst \<and>
       (k mod (4 * seg) < s * seg \<or> k mod (4 * seg) < Suc s * seg \<and> k div (4 * seg) < l \<or> k mod (4 * seg) < 2))"

lemma fill_lane_determined:
  assumes "instance_ok inst" and "s < 4" and "l < unat (i_lanes inst)" and "r < unat (i_passes inst)"
    and "mem_ok (ar_blocks inst) M" and "mem_ok (ar_blocks inst) N"
    and "agree (\<lambda>k. if r = 0 then determined inst s l k else k < ar_blocks inst) M N"
  shows "\<exists>M' N'. fill_segment_64 junk inst (lane_position r s l) M = Some M'
    \<and> fill_segment_64 junk inst (lane_position r s l) N = Some N'
    \<and> mem_ok (ar_blocks inst) M' \<and> mem_ok (ar_blocks inst) N'
    \<and> agree (\<lambda>k. if r = 0 then determined inst s (Suc l) k else k < ar_blocks inst) M' N'"
proof -
  let ?pos = "lane_position r s l" and ?seg = "unat (i_segment_length inst)"
  note lp = lane_position_ok [OF assms(2,3), of r]
  have r: "p_pass ?pos = 0 \<longleftrightarrow> r = 0"
    using assms(4) unat_u32_lt [of "i_passes inst"]
    by (simp add: lane_position_def word_unat_eq_iff unat_of_nat_small)
  have s: "p_slice ?pos = 0 \<longleftrightarrow> s = 0" using lp(3) by (simp add: word_unat_eq_iff)
  have start: "seg_first ?pos = (if r = 0 \<and> s = 0 then 2 else 0)" by (simp add: seg_first_def r s)
  have first_two: "k mod (4 * ?seg) < 2" if "l * (4 * ?seg) \<le> k" "k < l * (4 * ?seg) + 2" for k
  proof -
    have "k - l * (4 * ?seg) < 4 * ?seg" "k = l * (4 * ?seg) + (k - l * (4 * ?seg))"
      using that instance_okD(1) [OF assms(1)] by linarith+
    then have "k mod (4 * ?seg) = k - l * (4 * ?seg)"
      using lane_index(1) [of "k - l * (4 * ?seg)" ?seg l "Suc l"] by simp
    then show ?thesis using that by linarith
  qed
  have "seg_known inst ?pos (seg_first ?pos) k \<Longrightarrow> if r = 0 then determined inst s l k else k < ar_blocks inst" for k
    using first_two start by (auto simp: seg_known_def known_def r lp determined_def ar_blocks_def Let_def split: if_splits)
  then have ag: "agree (seg_known inst ?pos (seg_first ?pos)) M N"
    using assms(7) by (auto simp: agree_def)
  obtain M' N' where MN: "fill_segment_64 junk inst ?pos M = Some M'" "fill_segment_64 junk inst ?pos N = Some N'"
    "mem_ok (ar_blocks inst) M'" "mem_ok (ar_blocks inst) N'" "length M' = length M" "length N' = length N"
    "\<And>k. \<not> in_segment inst ?pos k \<Longrightarrow> M' ! k = M ! k" "\<And>k. \<not> in_segment inst ?pos k \<Longrightarrow> N' ! k = N ! k"
    "\<And>k. in_segment inst ?pos k \<Longrightarrow> M' ! k = N' ! k"
    using fill_segment_64_agree [OF assms(1) lp(1) assms(5,6) ag, of junk]
    unfolding in_segment_def [symmetric] mem_frame_def by metis
  have old: "if r = 0 then determined inst s l k else k < ar_blocks inst"
    if k: "if r = 0 then determined inst s (Suc l) k else k < ar_blocks inst" and out: "\<not> in_segment inst ?pos k" for k
  proof (cases "r = 0 \<and> k mod (4 * ?seg) < Suc s * ?seg \<and> k div (4 * ?seg) = l \<and> \<not> k mod (4 * ?seg) < s * ?seg")
    case True
    have "k = l * (4 * ?seg) + k mod (4 * ?seg)" using True by (metis div_mult_mod_eq)
    then have "l * (4 * ?seg) + s * ?seg \<le> k" and "k < l * (4 * ?seg) + s * ?seg + ?seg"
      using True mult_Suc [of s ?seg] by linarith+
    then have "k < l * (4 * ?seg) + s * ?seg + seg_first ?pos"
      using out by (simp add: in_segment_def seg_curr_def lp)
    then have "s = 0 \<and> k mod (4 * ?seg) < 2"
      using True start first_two \<open>l * (4 * ?seg) + s * ?seg \<le> k\<close> by (auto split: if_splits)
    then show ?thesis using k True by (simp add: determined_def Let_def)
  next
    case False
    then show ?thesis using k by (auto simp: determined_def Let_def less_Suc_eq split: if_splits)
  qed
  have "agree (\<lambda>k. if r = 0 then determined inst s (Suc l) k else k < ar_blocks inst) M' N'"
    unfolding agree_def
  proof (intro conjI allI impI)
    fix k
    assume k: "if r = 0 then determined inst s (Suc l) k else k < ar_blocks inst"
    show "M' ! k = N' ! k"
      using MN(7-9) old [OF k] assms(7) by (cases "in_segment inst ?pos k") (auto simp: agree_def)
  qed (use MN(5,6) assms(7) in \<open>simp add: agree_def\<close>)
  with MN show ?thesis by blast
qed

text \<open>Side-by-side runs from memories that agree where the progress of the run determines them.\<close>

definition runs_agree :: "argon2_instance \<Rightarrow> nat \<Rightarrow> nat \<Rightarrow> nat \<Rightarrow> ar_memory \<Rightarrow> ar_memory \<Rightarrow> bool" where
  "runs_agree inst r s l M N \<longleftrightarrow> mem_ok (ar_blocks inst) M \<and> mem_ok (ar_blocks inst) N
     \<and> agree (\<lambda>k. if r = 0 then determined inst s l k else k < ar_blocks inst) M N"

lemma determined_next_slice:
  "determined inst (Suc s) 0 k \<Longrightarrow> determined inst s (unat (i_lanes inst)) k"
  by (auto simp: determined_def Let_def ar_blocks_def less_mult_imp_div_less)

lemma determined_all:
  "instance_ok inst \<Longrightarrow> k < ar_blocks inst \<Longrightarrow> determined inst 4 0 k"
  using instance_okD(1) [of inst] by (simp add: determined_def Let_def)

lemma fill_slice_agree:
  assumes "instance_ok inst" and "s < 4" and "r < unat (i_passes inst)" and "runs_agree inst r s 0 M N"
  shows "\<exists>M' N'. fill_slice junk inst r s M = Some M' \<and> fill_slice junk inst r s N = Some N'
    \<and> runs_agree inst r (Suc s) 0 M' N'"
proof -
  have "\<exists>M' N'. fill_slice junk inst r s M = Some M' \<and> fill_slice junk inst r s N = Some N'
      \<and> runs_agree inst r s (unat (i_lanes inst)) M' N'"
    unfolding fill_slice_def
    by (rule fold_opt_upt2 [where P = "runs_agree inst r s"])
      (use assms(4) fill_lane_determined [OF assms(1,2) _ assms(3)] in \<open>auto simp: runs_agree_def\<close>)
  then show ?thesis
    using determined_next_slice by (auto simp: runs_agree_def agree_def)
qed

lemma fill_pass_agree:
  assumes "instance_ok inst" and "r < unat (i_passes inst)" and "runs_agree inst r 0 0 M N"
  shows "\<exists>M' N'. fold_opt (fill_slice junk inst r) [0..<4] M = Some M'
    \<and> fold_opt (fill_slice junk inst r) [0..<4] N = Some N' \<and> runs_agree inst (Suc r) 0 0 M' N'"
proof -
  have "\<exists>M' N'. fold_opt (fill_slice junk inst r) [0..<4] M = Some M'
    \<and> fold_opt (fill_slice junk inst r) [0..<4] N = Some N' \<and> runs_agree inst r 4 0 M' N'"
    by (rule fold_opt_upt2 [where P = "\<lambda>s. runs_agree inst r s 0"])
      (use assms(3) fill_slice_agree [OF assms(1) _ assms(2)] in auto)
  then show ?thesis
    using determined_all [OF assms(1)] by (auto simp: runs_agree_def agree_def)
qed

lemma fill_memory_agree:
  assumes "instance_ok inst" and "0 < unat (i_passes inst)" and "runs_agree inst 0 0 0 M N"
  shows "\<exists>M' N'. fill_memory_blocks_st junk inst M = Some M' \<and> fill_memory_blocks_st junk inst N = Some N'
    \<and> runs_agree inst (unat (i_passes inst)) 0 0 M' N'"
  unfolding fill_memory_blocks_st_def
  by (rule fold_opt_upt2 [where P = "\<lambda>r. runs_agree inst r 0 0"])
    (use assms fill_pass_agree [OF assms(1)] in auto)

lemma runs_agree_start:
  assumes "mem_ok (ar_blocks inst) M" and "mem_ok (ar_blocks inst) N" and "length M = length N"
    and "\<forall>k < ar_blocks inst. k mod (4 * unat (i_segment_length inst)) < 2 \<longrightarrow> M ! k = N ! k"
  shows "runs_agree inst 0 0 0 M N"
  using assms by (auto simp: runs_agree_def agree_def determined_def Let_def)

lemma runs_agree_take:
  "runs_agree inst r 0 0 M N \<Longrightarrow> 0 < r \<Longrightarrow> take (ar_blocks inst) M = take (ar_blocks inst) N"
  by (rule nth_take_lemma) (auto simp: runs_agree_def agree_def mem_ok_def)

text \<open>filling the memory always succeeds, never reaching outside it, and what the memory held before
  does not matter: from two memories that hold the same first two blocks in every lane it ends with
  the same blocks everywhere.\<close>

theorem argon2_fill_determined:
  assumes "instance_ok inst" and "0 < unat (i_passes inst)"
    and "mem_ok (ar_blocks inst) M" and "mem_ok (ar_blocks inst) N" and "length M = length N"
    and "\<forall>k < ar_blocks inst. k mod (4 * unat (i_segment_length inst)) < 2 \<longrightarrow> M ! k = N ! k"
  shows "\<exists>M' N'. fill_memory_blocks_st junk inst M = Some M' \<and> fill_memory_blocks_st junk inst N = Some N'
    \<and> take (ar_blocks inst) M' = take (ar_blocks inst) N'"
  using fill_memory_agree [OF assms(1,2) runs_agree_start [OF assms(3-6)], of junk] runs_agree_take assms(2)
  by blast

theorem argon2_fill_determined_witness:
  "\<exists>M' N'. fill_memory_blocks_st [] demo_instance (replicate 16 (replicate 128 0)) = Some M'
    \<and> fill_memory_blocks_st [] demo_instance ((replicate 16 (replicate 128 0))[5 := replicate 128 7]) = Some N'
    \<and> take (ar_blocks demo_instance) M' = take (ar_blocks demo_instance) N'"
  by (rule argon2_fill_determined [OF demo_instance_ok(1,5)])
    (auto simp: demo_instance_ok mem_ok_replicate mem_ok_update nth_list_update)

section \<open>Uninitialised blocks\<close>

lemma next_addresses_fresh:
  "length a = 128 \<Longrightarrow> length b = 128 \<Longrightarrow> next_addresses a inp z = next_addresses b inp z"
  by (simp add: next_addresses_def Let_def fill_block_fresh [of a b])

lemma map_option_bind_out: "map_option f (Option.bind x g) = Option.bind x (\<lambda>y. map_option f (g y))"
  by (cases x) simp_all

lemma fill_segment_step_unaddressed:
  "fill_segment_step inst pos False i (st\<lparr>s_address := a, s_input := b\<rparr>)
   = map_option (\<lambda>s. s\<lparr>s_address := a, s_input := b\<rparr>) (fill_segment_step inst pos False i st)"
  by (simp add: fill_segment_step_def Let_def map_option_bind_out)

lemma fill_segment_loop_unaddressed:
  "fill_segment_loop inst pos d i (st\<lparr>s_address := a, s_input := b\<rparr>)
   = map_option (\<lambda>s. s\<lparr>s_address := a, s_input := b\<rparr>) (fill_segment_loop inst pos d i st)" if "\<not> d"
  using that
proof (induction inst pos d i st rule: fill_segment_loop.induct)
  case (1 inst pos d i st)
  show ?case
    using 1 by (subst (1 2) fill_segment_loop.simps)
      (auto simp: fill_segment_step_unaddressed map_option_bind_out bind_map_option comp_def intro!: bind_option_cong)
qed

lemma fill_segment_loop_addressed:
  assumes "length a = 128" and "length (s_address st) = 128"
  shows "map_option s_memory (fill_segment_loop inst pos True 0 (st\<lparr>s_address := a\<rparr>))
   = map_option s_memory (fill_segment_loop inst pos True 0 st)"
proof -
  have "fill_segment_step inst pos True 0 (st\<lparr>s_address := a\<rparr>) = fill_segment_step inst pos True 0 st"
    unfolding fill_segment_step_def by (simp add: Let_def next_addresses_fresh [OF assms])
  then show ?thesis by (subst (1 2) fill_segment_loop.simps) simp
qed

text \<open>The uninitialised blocks \<open>address_block\<close> and \<open>input_block\<close> do not matter.\<close>

lemma fill_segment_64_junk:
  assumes "length junk = 128" and "length junk' = 128"
  shows "fill_segment_64 junk inst pos M = fill_segment_64 junk' inst pos M"
proof (cases "data_independent_addressing inst pos")
  case True
  have "map_option s_memory (fill_segment_loop inst pos True 0 \<lparr>s_memory = M, s_address = junk, s_input = ip, s_curr = c, s_prev = v\<rparr>)
    = map_option s_memory (fill_segment_loop inst pos True 0 \<lparr>s_memory = M, s_address = junk', s_input = ip, s_curr = c, s_prev = v\<rparr>)"
    for ip c v
    using fill_segment_loop_addressed [of junk "\<lparr>s_memory = M, s_address = junk', s_input = ip, s_curr = c, s_prev = v\<rparr>" inst pos] assms
    by simp
  then show ?thesis
    using next_addresses_fresh [OF assms] True
    by (auto simp: fill_segment_64_def Let_def simp del: option.map_comp split: prod.splits)
next
  case False
  have "map_option s_memory (fill_segment_loop inst pos False i \<lparr>s_memory = M, s_address = junk, s_input = junk, s_curr = c, s_prev = v\<rparr>)
    = map_option s_memory (fill_segment_loop inst pos False i \<lparr>s_memory = M, s_address = junk', s_input = junk', s_curr = c, s_prev = v\<rparr>)"
    for i c v
    using fill_segment_loop_unaddressed [where st = "\<lparr>s_memory = M, s_address = junk', s_input = junk', s_curr = c, s_prev = v\<rparr>"
        and a = junk and b = junk and d = False]
    by (simp add: option.map_comp comp_def)
  then show ?thesis using False by (simp add: fill_segment_64_def Let_def)
qed

lemma fill_memory_blocks_junk:
  assumes "length junk = 128" and "length junk' = 128"
  shows "fill_memory_blocks_st junk inst M = fill_memory_blocks_st junk' inst M"
proof -
  have "fill_segment_64 junk = fill_segment_64 junk'" by (intro ext fill_segment_64_junk assms)
  then have "fill_slice junk = fill_slice junk'" by (intro ext) (simp add: fill_slice_def)
  then show ?thesis by (simp add: fill_memory_blocks_st_def)
qed

end
