(* ===== verification/Ar2_Context.thy ===== *)
theory Ar2_Context
  imports Ar2_Fill
begin

text \<open>
  The context of an Argon2 computation and its life cycle: \<open>include/argon2.h\<close> (context, error codes,
  limits), \<open>lib/core.c\<close> (\<open>zenrx_ar2_validate_inputs\<close>, \<open>initial_hash\<close>, \<open>allocate_memory\<close>, \<open>initialize\<close>,
  \<open>finalize\<close>) and \<open>lib/argon2.c\<close> (\<open>argon2_compute_memory_blocks\<close>, \<open>argon2_ctx_mem\<close>).

  Pointers that the code tests against NULL are options.  \<open>malloc\<close> and the allocation callback are
  functions from a number of blocks to the blocks they return (with whatever content), \<open>None\<close> when
  they fail.  Uninitialised locals are the record \<open>locals\<close>.
\<close>

section \<open>Error codes and limits\<close>

abbreviation (input) "ARGON2_OK \<equiv> (0 :: int)"
abbreviation (input) "ARGON2_OUTPUT_PTR_NULL \<equiv> (-1 :: int)"
abbreviation (input) "ARGON2_OUTPUT_TOO_SHORT \<equiv> (-2 :: int)"
abbreviation (input) "ARGON2_OUTPUT_TOO_LONG \<equiv> (-3 :: int)"
abbreviation (input) "ARGON2_PWD_TOO_SHORT \<equiv> (-4 :: int)"
abbreviation (input) "ARGON2_PWD_TOO_LONG \<equiv> (-5 :: int)"
abbreviation (input) "ARGON2_SALT_TOO_SHORT \<equiv> (-6 :: int)"
abbreviation (input) "ARGON2_SALT_TOO_LONG \<equiv> (-7 :: int)"
abbreviation (input) "ARGON2_AD_TOO_SHORT \<equiv> (-8 :: int)"
abbreviation (input) "ARGON2_AD_TOO_LONG \<equiv> (-9 :: int)"
abbreviation (input) "ARGON2_SECRET_TOO_SHORT \<equiv> (-10 :: int)"
abbreviation (input) "ARGON2_SECRET_TOO_LONG \<equiv> (-11 :: int)"
abbreviation (input) "ARGON2_TIME_TOO_SMALL \<equiv> (-12 :: int)"
abbreviation (input) "ARGON2_TIME_TOO_LARGE \<equiv> (-13 :: int)"
abbreviation (input) "ARGON2_MEMORY_TOO_LITTLE \<equiv> (-14 :: int)"
abbreviation (input) "ARGON2_MEMORY_TOO_MUCH \<equiv> (-15 :: int)"
abbreviation (input) "ARGON2_LANES_TOO_FEW \<equiv> (-16 :: int)"
abbreviation (input) "ARGON2_LANES_TOO_MANY \<equiv> (-17 :: int)"
abbreviation (input) "ARGON2_PWD_PTR_MISMATCH \<equiv> (-18 :: int)"
abbreviation (input) "ARGON2_SALT_PTR_MISMATCH \<equiv> (-19 :: int)"
abbreviation (input) "ARGON2_SECRET_PTR_MISMATCH \<equiv> (-20 :: int)"
abbreviation (input) "ARGON2_AD_PTR_MISMATCH \<equiv> (-21 :: int)"
abbreviation (input) "ARGON2_MEMORY_ALLOCATION_ERROR \<equiv> (-22 :: int)"
abbreviation (input) "ARGON2_FREE_MEMORY_CBK_NULL \<equiv> (-23 :: int)"
abbreviation (input) "ARGON2_ALLOCATE_MEMORY_CBK_NULL \<equiv> (-24 :: int)"
abbreviation (input) "ARGON2_INCORRECT_PARAMETER \<equiv> (-25 :: int)"
abbreviation (input) "ARGON2_INCORRECT_TYPE \<equiv> (-26 :: int)"
abbreviation (input) "ARGON2_OUT_PTR_MISMATCH \<equiv> (-27 :: int)"
abbreviation (input) "ARGON2_THREADS_TOO_FEW \<equiv> (-28 :: int)"
abbreviation (input) "ARGON2_THREADS_TOO_MANY \<equiv> (-29 :: int)"
abbreviation (input) "ARGON2_MISSING_ARGS \<equiv> (-30 :: int)"
abbreviation (input) "ARGON2_ENCODING_FAIL \<equiv> (-31 :: int)"
abbreviation (input) "ARGON2_DECODING_FAIL \<equiv> (-32 :: int)"
abbreviation (input) "ARGON2_THREAD_FAIL \<equiv> (-33 :: int)"
abbreviation (input) "ARGON2_DECODING_LENGTH_FAIL \<equiv> (-34 :: int)"
abbreviation (input) "ARGON2_VERIFY_MISMATCH \<equiv> (-35 :: int)"

abbreviation (input) "ARGON2_MIN_LANES \<equiv> (1 :: u32)"
abbreviation (input) "ARGON2_MAX_LANES \<equiv> (0xFFFFFF :: u32)"
abbreviation (input) "ARGON2_MIN_OUTLEN \<equiv> (4 :: u32)"
abbreviation (input) "ARGON2_MIN_SALT_LENGTH \<equiv> (8 :: u32)"
abbreviation (input) "ARGON2_MIN_TIME \<equiv> (1 :: u32)"
abbreviation (input) "ARGON2_MAX_LENGTH \<equiv> (0xFFFFFFFF :: u32)"

text \<open>\<open>ARGON2_MIN(UINT32_C(0xFFFFFFFF), UINT64_C(1) << ARGON2_MAX_MEMORY_BITS)\<close> on a 64-bit machine.\<close>

definition ARGON2_MAX_MEMORY :: u64 where
  "ARGON2_MAX_MEMORY = min 0xFFFFFFFF (push_bit (min 32 (8 * 8 - 10 - 1)) 1)"

definition ARGON2_FLAG_CLEAR_PASSWORD :: u32 where "ARGON2_FLAG_CLEAR_PASSWORD = push_bit 0 1"
definition ARGON2_FLAG_CLEAR_SECRET :: u32 where "ARGON2_FLAG_CLEAR_SECRET = push_bit 1 1"
definition ARGON2_FLAG_GENKAT :: u32 where "ARGON2_FLAG_GENKAT = push_bit 3 1"

record argon2_context =
  c_out :: "bytes option"
  c_outlen :: u32
  c_pwd :: "bytes option"
  c_pwdlen :: u32
  c_salt :: "bytes option"
  c_saltlen :: u32
  c_secret :: "bytes option"
  c_secretlen :: u32
  c_ad :: "bytes option"
  c_adlen :: u32
  c_t_cost :: u32
  c_m_cost :: u32
  c_lanes :: u32
  c_threads :: u32
  c_version :: u32
  c_allocate_cbk :: "(nat \<Rightarrow> ar_memory option) option"
  c_free_cbk :: bool
  c_flags :: u32

section \<open>Validation\<close>

definition zenrx_ar2_validate_inputs :: "argon2_context option \<Rightarrow> int" where
  "zenrx_ar2_validate_inputs context =
     (case context of None \<Rightarrow> ARGON2_INCORRECT_PARAMETER
      | Some c \<Rightarrow>
        if ARGON2_MAX_LENGTH < c_outlen c then ARGON2_OUTPUT_TOO_LONG
        else if c_pwd c = None \<and> 0 \<noteq> c_pwdlen c then ARGON2_PWD_PTR_MISMATCH
        else if 0 > c_pwdlen c then ARGON2_PWD_TOO_SHORT
        else if ARGON2_MAX_LENGTH < c_pwdlen c then ARGON2_PWD_TOO_LONG
        else if c_salt c = None \<and> 0 \<noteq> c_saltlen c then ARGON2_SALT_PTR_MISMATCH
        else if ARGON2_MIN_SALT_LENGTH > c_saltlen c then ARGON2_SALT_TOO_SHORT
        else if ARGON2_MAX_LENGTH < c_saltlen c then ARGON2_SALT_TOO_LONG
        else if c_secret c = None \<and> 0 \<noteq> c_secretlen c then ARGON2_SECRET_PTR_MISMATCH
        else if c_secret c \<noteq> None \<and> 0 > c_secretlen c then ARGON2_SECRET_TOO_SHORT
        else if c_secret c \<noteq> None \<and> ARGON2_MAX_LENGTH < c_secretlen c then ARGON2_SECRET_TOO_LONG
        else if c_ad c = None \<and> 0 \<noteq> c_adlen c then ARGON2_AD_PTR_MISMATCH
        else if c_ad c \<noteq> None \<and> 0 > c_adlen c then ARGON2_AD_TOO_SHORT
        else if c_ad c \<noteq> None \<and> ARGON2_MAX_LENGTH < c_adlen c then ARGON2_AD_TOO_LONG
        else if 2 * ARGON2_SYNC_POINTS > c_m_cost c then ARGON2_MEMORY_TOO_LITTLE
        else if ARGON2_MAX_MEMORY < ucast (c_m_cost c) then ARGON2_MEMORY_TOO_MUCH
        else if c_m_cost c < 8 * c_lanes c then ARGON2_MEMORY_TOO_LITTLE
        else if ARGON2_MIN_TIME > c_t_cost c then ARGON2_TIME_TOO_SMALL
        else if ARGON2_MAX_LENGTH < c_t_cost c then ARGON2_TIME_TOO_LARGE
        else if ARGON2_MIN_LANES > c_lanes c then ARGON2_LANES_TOO_FEW
        else if ARGON2_MAX_LANES < c_lanes c then ARGON2_LANES_TOO_MANY
        else if ARGON2_MIN_LANES > c_threads c then ARGON2_THREADS_TOO_FEW
        else if ARGON2_MAX_LANES < c_threads c then ARGON2_THREADS_TOO_MANY
        else if c_allocate_cbk c \<noteq> None \<and> \<not> c_free_cbk c then ARGON2_FREE_MEMORY_CBK_NULL
        else if c_allocate_cbk c = None \<and> c_free_cbk c then ARGON2_ALLOCATE_MEMORY_CBK_NULL
        else ARGON2_OK)"

section \<open>Initial hash\<close>

definition opt_bytes :: "bytes option \<Rightarrow> u32 \<Rightarrow> bytes list" where
  "opt_bytes p n = (case p of None \<Rightarrow> [] | Some bs \<Rightarrow> [take (unat n) bs])"

text \<open>The buffers fed to the hash, in order, and the context with the wiped password and secret.\<close>

definition initial_hash_inputs :: "argon2_context \<Rightarrow> argon2_type \<Rightarrow> bytes list" where
  "initial_hash_inputs c ty =
     [store32 (c_lanes c), store32 (c_outlen c), store32 (c_m_cost c), store32 (c_t_cost c),
      store32 (c_version c), store32 ty, store32 (c_pwdlen c)] @ opt_bytes (c_pwd c) (c_pwdlen c)
     @ [store32 (c_saltlen c)] @ opt_bytes (c_salt c) (c_saltlen c)
     @ [store32 (c_secretlen c)] @ opt_bytes (c_secret c) (c_secretlen c)
     @ [store32 (c_adlen c)] @ opt_bytes (c_ad c) (c_adlen c)"

definition wipe_inputs :: "argon2_context \<Rightarrow> argon2_context" where
  "wipe_inputs c =
     (let c = (if c_pwd c \<noteq> None \<and> c_flags c AND ARGON2_FLAG_CLEAR_PASSWORD \<noteq> 0
               then c\<lparr>c_pwd := map_option (\<lambda>p. zenrx_ar2_secure_wipe_memory p (unat (c_pwdlen c))) (c_pwd c),
                      c_pwdlen := 0\<rparr> else c)
      in if c_secret c \<noteq> None \<and> c_flags c AND ARGON2_FLAG_CLEAR_SECRET \<noteq> 0
         then c\<lparr>c_secret := map_option (\<lambda>p. zenrx_ar2_secure_wipe_memory p (unat (c_secretlen c))) (c_secret c),
                c_secretlen := 0\<rparr> else c)"

definition zenrx_ar2_initial_hash ::
  "ar2_state \<Rightarrow> bytes \<Rightarrow> argon2_context \<Rightarrow> argon2_type \<Rightarrow> bytes \<times> argon2_context" where
  "zenrx_ar2_initial_hash S blockhash c ty =
     (let S = zenrx_ar2_blake2b_init S 64;
          S = ar2_update_all S (initial_hash_inputs c ty);
          digest = snd (zenrx_ar2_blake2b_final S 64)
      in (memcpy_at blockhash 0 digest 64, wipe_inputs c))"

section \<open>Memory\<close>

definition argon2_compute_memory_blocks :: "u32 \<Rightarrow> u32 \<Rightarrow> u32 \<times> u32" where
  "argon2_compute_memory_blocks m_cost lanes =
     (let memory_blocks = m_cost;
          memory_blocks = (if memory_blocks < 2 * ARGON2_SYNC_POINTS * lanes
                           then 2 * ARGON2_SYNC_POINTS * lanes else memory_blocks);
          segment_length = memory_blocks div (lanes * ARGON2_SYNC_POINTS);
          memory_blocks = segment_length * (lanes * ARGON2_SYNC_POINTS)
      in (memory_blocks, segment_length))"

text \<open>The product is computed in 32 bits and then widened to \<open>size_t\<close>.\<close>

definition argon2_memory_size :: "u32 \<Rightarrow> u32 \<Rightarrow> nat" where
  "argon2_memory_size m_cost parallelism =
     unat (fst (argon2_compute_memory_blocks m_cost parallelism) * (1024 :: u32))"

text \<open>The memory of the instance after the call; \<open>malloc\<close> and the callback get a number of bytes.\<close>

definition zenrx_ar2_allocate_memory ::
  "(nat \<Rightarrow> ar_memory option) \<Rightarrow> argon2_context \<Rightarrow> argon2_instance \<Rightarrow> ar_memory option \<Rightarrow> int \<times> ar_memory option" where
  "zenrx_ar2_allocate_memory malloc c inst memory =
     (let blocks = unat (i_memory_blocks inst); memory_size = blocks * ARGON2_BLOCK_SIZE mod 2 ^ 64 in
      case memory of Some M \<Rightarrow> (ARGON2_OK, Some M)
      | None \<Rightarrow>
        if blocks \<noteq> 0 \<and> memory_size div ARGON2_BLOCK_SIZE \<noteq> blocks then (ARGON2_MEMORY_ALLOCATION_ERROR, None)
        else let memory = (case c_allocate_cbk c of Some cbk \<Rightarrow> cbk memory_size | None \<Rightarrow> malloc memory_size) in
             if memory = None then (ARGON2_MEMORY_ALLOCATION_ERROR, None) else (ARGON2_OK, memory))"

text \<open>What is left of the memory for the caller: its own buffer stays, anything else is released.\<close>

definition zenrx_ar2_free_memory :: "argon2_instance \<Rightarrow> ar_memory \<Rightarrow> ar_memory option" where
  "zenrx_ar2_free_memory inst M =
     (let M = (if FLAG_clear_internal_memory \<noteq> 0
               then replicate (unat (i_memory_blocks inst)) (init_block_value 0) @ drop (unat (i_memory_blocks inst)) M
               else M)
      in if i_keep_memory inst then Some M else None)"

record ar2_locals =
  l_blake :: ar2_state
  l_blockhash :: bytes
  l_block :: block

definition zenrx_ar2_initialize ::
  "ar2_locals \<Rightarrow> (nat \<Rightarrow> ar_memory option) \<Rightarrow> argon2_instance \<Rightarrow> argon2_context \<Rightarrow> ar_memory option \<Rightarrow>
     (int \<times> argon2_context \<times> ar_memory option) option" where
  "zenrx_ar2_initialize loc malloc inst c memory =
     (case zenrx_ar2_allocate_memory malloc c inst memory of
        (result, memory) \<Rightarrow>
          if result \<noteq> ARGON2_OK then Some (result, c, memory)
          else case memory of None \<Rightarrow> None
          | Some M \<Rightarrow> do {
              let (blockhash, c) = zenrx_ar2_initial_hash (l_blake loc) (l_blockhash loc) c (i_type inst);
              M \<leftarrow> zenrx_ar2_fill_first_blocks (l_blake loc) blockhash inst M;
              Some (ARGON2_OK, c, Some M) })"

text \<open>\<open>zenrx_ar2_finalize\<close>: without an output buffer nothing happens, the memory is not even released.\<close>

definition zenrx_ar2_finalize ::
  "ar2_locals \<Rightarrow> argon2_context \<Rightarrow> argon2_instance \<Rightarrow> ar_memory \<Rightarrow> (argon2_context \<times> ar_memory option) option" where
  "zenrx_ar2_finalize loc c inst M =
     (case c_out c of None \<Rightarrow> Some (c, Some M)
      | Some out \<Rightarrow> do {
          tag \<leftarrow> final_tag (l_blake loc) inst (c_outlen c) M;
          Some (c\<lparr>c_out := Some (memcpy_at out 0 tag (unat (c_outlen c)))\<rparr>, zenrx_ar2_free_memory inst M) })"

definition zenrx_ar2_fill_memory_blocks ::
  "ar2_locals \<Rightarrow> argon2_instance \<Rightarrow> ar_memory \<Rightarrow> (int \<times> ar_memory) option" where
  "zenrx_ar2_fill_memory_blocks loc inst M =
     (if i_lanes inst = 0 then Some (ARGON2_INCORRECT_PARAMETER, M)
      else map_option (Pair ARGON2_OK) (fill_memory_blocks_st (l_block loc) inst M))"

definition make_instance :: "argon2_context \<Rightarrow> argon2_type \<Rightarrow> bool \<Rightarrow> argon2_instance" where
  "make_instance c ty keep =
     (let (memory_blocks, segment_length) = argon2_compute_memory_blocks (c_m_cost c) (c_lanes c) in
      \<lparr>i_version = c_version c, i_passes = c_t_cost c, i_memory_blocks = memory_blocks,
       i_segment_length = segment_length, i_lane_length = segment_length * ARGON2_SYNC_POINTS,
       i_lanes = c_lanes c, i_threads = (if c_threads c > c_lanes c then c_lanes c else c_threads c),
       i_type = ty, i_print_internals = c_flags c AND ARGON2_FLAG_GENKAT \<noteq> 0, i_keep_memory = keep\<rparr>)"

text \<open>
  \<open>argon2_ctx_mem(context, type, memory, memory_size)\<close>: the status, the context and the memory as they
  are left; \<open>None\<close> only if the run left the memory.
\<close>

definition argon2_ctx_mem ::
  "ar2_locals \<Rightarrow> (nat \<Rightarrow> ar_memory option) \<Rightarrow> argon2_context \<Rightarrow> argon2_type \<Rightarrow> ar_memory option \<Rightarrow> nat \<Rightarrow>
     (int \<times> argon2_context \<times> ar_memory option) option" where
  "argon2_ctx_mem loc malloc c ty memory memory_size =
     (let result = zenrx_ar2_validate_inputs (Some c);
          inst = make_instance c ty (memory \<noteq> None)
      in if result \<noteq> ARGON2_OK then Some (result, c, memory)
         else if Argon2_d \<noteq> ty \<and> Argon2_i \<noteq> ty \<and> Argon2_id \<noteq> ty then Some (ARGON2_INCORRECT_TYPE, c, memory)
         else if memory \<noteq> None \<and> (memory_size mod ARGON2_BLOCK_SIZE \<noteq> 0 \<or>
                   memory_size div ARGON2_BLOCK_SIZE < unat (i_memory_blocks inst))
              then Some (ARGON2_MEMORY_ALLOCATION_ERROR, c, memory)
         else do {
           (result, c, memory) \<leftarrow> zenrx_ar2_initialize loc malloc inst c memory;
           if result \<noteq> ARGON2_OK then Some (result, c, memory)
           else do {
             M \<leftarrow> memory;
             (result, M) \<leftarrow> zenrx_ar2_fill_memory_blocks loc inst M;
             if result \<noteq> ARGON2_OK then Some (result, c, Some M)
             else do {
               (c, memory) \<leftarrow> zenrx_ar2_finalize loc c inst M;
               Some (ARGON2_OK, c, memory) } } })"

definition argon2_ctx ::
  "ar2_locals \<Rightarrow> (nat \<Rightarrow> ar_memory option) \<Rightarrow> argon2_context \<Rightarrow> argon2_type \<Rightarrow>
     (int \<times> argon2_context \<times> ar_memory option) option" where
  "argon2_ctx loc malloc c ty = argon2_ctx_mem loc malloc c ty None 0"

section \<open>A validated context gives a valid instance\<close>

lemma validate_OK:
  assumes "zenrx_ar2_validate_inputs (Some c) = ARGON2_OK"
  shows "8 \<le> unat (c_saltlen c)" and "8 * unat (c_lanes c) \<le> unat (c_m_cost c)"
    and "0 < unat (c_t_cost c)" and "0 < unat (c_lanes c)" and "unat (c_lanes c) \<le> 0xFFFFFF"
    and "0 < unat (c_threads c)" and "unat (c_threads c) \<le> 0xFFFFFF"
    and "c_pwd c = None \<Longrightarrow> c_pwdlen c = 0" and "c_salt c \<noteq> None"
    and "c_secret c = None \<Longrightarrow> c_secretlen c = 0" and "c_ad c = None \<Longrightarrow> c_adlen c = 0"
    and "c_allocate_cbk c = None \<longleftrightarrow> \<not> c_free_cbk c"
proof -
  have all: "\<not> 8 > c_saltlen c \<and> \<not> c_m_cost c < 8 * c_lanes c \<and> \<not> 1 > c_t_cost c \<and> \<not> 1 > c_lanes c
      \<and> \<not> 0xFFFFFF < c_lanes c \<and> \<not> 1 > c_threads c \<and> \<not> 0xFFFFFF < c_threads c
      \<and> (c_pwd c = None \<longrightarrow> c_pwdlen c = 0) \<and> (c_salt c = None \<longrightarrow> c_saltlen c = 0)
      \<and> (c_secret c = None \<longrightarrow> c_secretlen c = 0) \<and> (c_ad c = None \<longrightarrow> c_adlen c = 0)
      \<and> (c_allocate_cbk c = None \<longleftrightarrow> \<not> c_free_cbk c)"
    using assms unfolding zenrx_ar2_validate_inputs_def option.case
    by (simp split: if_splits del: not_None_eq) blast
  then show "8 \<le> unat (c_saltlen c)" and "0 < unat (c_t_cost c)" and "0 < unat (c_lanes c)"
    and lanes: "unat (c_lanes c) \<le> 0xFFFFFF" and "0 < unat (c_threads c)" and "unat (c_threads c) \<le> 0xFFFFFF"
    and "c_pwd c = None \<Longrightarrow> c_pwdlen c = 0" and "c_secret c = None \<Longrightarrow> c_secretlen c = 0"
    and "c_ad c = None \<Longrightarrow> c_adlen c = 0" and "c_allocate_cbk c = None \<longleftrightarrow> \<not> c_free_cbk c"
    by (auto simp: not_less word_le_nat_alt unat_gt_0)
  show "c_salt c \<noteq> None" using all by auto
  have "unat (8 * c_lanes c) = 8 * unat (c_lanes c)"
    using lanes by (subst unat_mult_small) simp_all
  then show "8 * unat (c_lanes c) \<le> unat (c_m_cost c)"
    using all by (simp add: not_less word_le_nat_alt)
qed

lemma compute_memory_blocks_ok:
  assumes "8 * unat lanes \<le> unat m" and "0 < unat lanes" and "unat lanes \<le> 0xFFFFFF"
  defines "seg \<equiv> unat m div (4 * unat lanes)"
  shows "argon2_compute_memory_blocks m lanes = (of_nat (seg * (4 * unat lanes)), of_nat seg)"
    and "2 \<le> seg" and "seg * (4 * unat lanes) \<le> unat m"
proof -
  have l4: "unat (lanes * 4) = 4 * unat lanes"
    using assms(3) by (subst unat_mult_small) simp_all
  have l8: "unat (2 * 4 * lanes) = 8 * unat lanes"
    using assms(3) by (subst unat_mult_small) simp_all
  show 2: "2 \<le> seg"
    using assms(1,2) by (simp add: seg_def less_eq_div_iff_mult_less_eq)
  show le: "seg * (4 * unat lanes) \<le> unat m" by (simp add: seg_def div_times_less_eq_dividend)
  have keep: "\<not> m < 2 * 4 * lanes" using assms(1) l8 by (simp add: word_less_nat_alt)
  have seg: "m div (lanes * 4) = of_nat seg"
    by (simp add: word_unat_eq_iff unat_div l4 seg_def unat_of_nat_small unat_u32_lt div_le_dividend [THEN le_less_trans])
  have "of_nat seg * (lanes * 4) = (of_nat (seg * (4 * unat lanes)) :: u32)"
    by (simp add: mult.commute)
  with keep seg show "argon2_compute_memory_blocks m lanes = (of_nat (seg * (4 * unat lanes)), of_nat seg)"
    by (simp add: argon2_compute_memory_blocks_def Let_def)
qed

lemma make_instance_ok:
  assumes "zenrx_ar2_validate_inputs (Some c) = ARGON2_OK"
  shows "instance_ok (make_instance c ty keep)" and "0 < unat (i_passes (make_instance c ty keep))"
    and "unat (i_memory_blocks (make_instance c ty keep)) = ar_blocks (make_instance c ty keep)"
    and "i_lanes (make_instance c ty keep) \<noteq> 0"
    and "ar_blocks (make_instance c ty keep) \<le> unat (c_m_cost c)"
    and "i_type (make_instance c ty keep) = ty" and "i_keep_memory (make_instance c ty keep) = keep"
proof -
  note V = validate_OK [OF assms]
  define seg where "seg = unat (c_m_cost c) div (4 * unat (c_lanes c))"
  note C = compute_memory_blocks_ok [OF V(2,4,5), folded seg_def]
  have m: "unat (c_m_cost c) < 4294967296" by (rule unat_u32_lt)
  have "seg * 4 \<le> seg * (4 * unat (c_lanes c))" using V(4) by simp
  then have s4: "seg * 4 < 4294967296" using C(3) m by linarith
  have u1: "unat (of_nat seg :: u32) = seg"
    using s4 by (intro unat_of_nat_small) simp
  have u2: "unat (of_nat seg * 4 :: u32) = 4 * seg"
    using s4 u1 by (subst unat_mult_small) simp_all
  have u4: "unat (c_lanes c) * (4 * seg) \<le> unat (c_m_cost c)"
    using C(3) by (simp add: mult.commute mult.left_commute)
  have "seg * (4 * unat (c_lanes c)) < 2 ^ LENGTH(32)" using C(3) m by simp
  then have u3: "unat (of_nat (seg * (4 * unat (c_lanes c))) :: u32) = seg * (4 * unat (c_lanes c))"
    by (rule unat_of_nat_small)
  show "instance_ok (make_instance c ty keep)" and "0 < unat (i_passes (make_instance c ty keep))"
    and "unat (i_memory_blocks (make_instance c ty keep)) = ar_blocks (make_instance c ty keep)"
    and "i_lanes (make_instance c ty keep) \<noteq> 0"
    and "ar_blocks (make_instance c ty keep) \<le> unat (c_m_cost c)"
    and "i_type (make_instance c ty keep) = ty" and "i_keep_memory (make_instance c ty keep) = keep"
    using u1 u2 u3 C u4 V m
    by (auto simp: make_instance_def instance_ok_def ar_blocks_def unat_gt_0)
qed

section \<open>First blocks and tag\<close>

text \<open>Uninitialised locals of the right sizes; nothing is assumed of their contents.\<close>

definition locals_ok :: "ar2_locals \<Rightarrow> bool" where
  "locals_ok loc \<longleftrightarrow> length (a_buf (l_blake loc)) = 128 \<and> length (l_blockhash loc) = 72 \<and> length (l_block loc) = 128"

text \<open>The variable-length hash does not depend on the uninitialised state.\<close>

lemma ar2_blake2b_long_state:
  assumes "length (a_buf S) = 128" and "length (a_buf S') = 128" and "T < 2 ^ 32" and "length bs = k"
  shows "zenrx_ar2_blake2b_long S T bs k = zenrx_ar2_blake2b_long S' T bs k"
proof (cases "T = 0")
  case True
  then show ?thesis by (simp add: zenrx_ar2_blake2b_long_def zenrx_ar2_blake2b_final_def Let_def)
next
  case False
  then show ?thesis using assms ar2_blake2b_long_eq [of T S bs] ar2_blake2b_long_eq [of T S' bs] by simp
qed

lemma seed_block:
  assumes "length bh = 72"
  shows "memcpy_at (memcpy_at bh 64 (store32 x) 4) 68 (store32 y) 4 = take 64 bh @ store32 x @ store32 y"
  using assms by (simp add: memcpy_at_def)

lemma fill_first_blocks_lane_agree:
  assumes "instance_ok inst" and "l < unat (i_lanes inst)" and "mem_ok (ar_blocks inst) M" and "mem_ok (ar_blocks inst) N"
    and "agree (\<lambda>k. k < ar_blocks inst \<and> k mod (4 * unat (i_segment_length inst)) < 2 \<and>
           k div (4 * unat (i_segment_length inst)) < l) M N"
    and S: "length (a_buf S) = 128" "length (a_buf S') = 128"
    and bh: "length bh = 72" "length bk = 72" "take 64 bk = take 64 bh"
  shows "\<exists>bh' M' N'. fill_first_blocks_lane S inst l (bh, M) = Some (bh', M') \<and> fill_first_blocks_lane S' inst l (bk, N) = Some (bh', N')
    \<and> length bh' = 72
    \<and> mem_ok (ar_blocks inst) M' \<and> mem_ok (ar_blocks inst) N'
    \<and> agree (\<lambda>k. k < ar_blocks inst \<and> k mod (4 * unat (i_segment_length inst)) < 2 \<and>
           k div (4 * unat (i_segment_length inst)) < Suc l) M' N'"
proof -
  let ?L = "4 * unat (i_segment_length inst)"
  note D = instance_okD [OF assms(1)]
  have a: "l * ?L + 1 < ar_blocks inst"
    using lane_index(3) [OF _ assms(2), of 1 "unat (i_segment_length inst)"] D(1) by (simp add: ar_blocks_def)
  have l: "unat (of_nat l :: u32) = l"
    using assms(2) unat_u32_lt [of "i_lanes inst"] by (simp add: unat_of_nat_small)
  have m: "unat (of_nat l * i_lane_length inst) = l * ?L"
    using a D(2,3) l by (subst unat_mult_small) simp_all
  have u0: "unat (of_nat l * i_lane_length inst + 0) = l * ?L" using m by simp
  have u1: "unat (of_nat l * i_lane_length inst + 1) = l * ?L + 1"
    using a D(3) m by (subst unat_add_small) simp_all
  define bh0 where "bh0 = take 64 bh @ store32 0 @ store32 (of_nat l)"
  define bh' where "bh' = take 64 bh @ store32 1 @ store32 (of_nat l)"
  define b0 where "b0 = first_block S bh0"
  define b1 where "b1 = first_block S bh'"
  have bh0: "memcpy_at (memcpy_at h 64 (store32 0) 4) 68 (store32 (of_nat l)) 4 = bh0"
    and bh': "memcpy_at bh0 64 (store32 1) 4 = bh'" if "h = bh \<or> h = bk" for h
    using that bh seed_block [of h 0] by (auto simp: bh0_def bh'_def memcpy_at_def)
  have len72: "length bh0 = 72" "length bh' = 72" using bh(1) by (simp_all add: bh0_def bh'_def)
  have b: "b0 = first_block S' bh0" "b1 = first_block S' bh'"
    unfolding b0_def b1_def first_block_def
    using ar2_blake2b_long_state [OF S _ len72(1), of 1024] ar2_blake2b_long_state [OF S _ len72(2), of 1024] by simp_all
  have step: "fill_first_blocks_lane R inst l (h, Q) = Some (bh', Q[l * ?L := b0, l * ?L + 1 := b1])"
    if "ar_blocks inst \<le> length Q" and "h = bh \<or> h = bk" and "R = S \<or> R = S'" for Q h R
  proof -
    have "first_block R bh0 = b0" "first_block R bh' = b1" using that(3) b b0_def b1_def by auto
    then show ?thesis
      using that a unfolding fill_first_blocks_lane_def prod.case Let_def u0 u1 mem_write_def
        bh0 [OF that(2)] bh' [OF that(2)] by simp
  qed
  have len: "length b0 = 128" "length b1 = 128" by (simp_all add: b0_def b1_def first_block_def load_block_def)
  have "agree (\<lambda>k. k < ar_blocks inst \<and> k mod ?L < 2 \<and> k div ?L < Suc l)
      (M[l * ?L := b0, l * ?L + 1 := b1]) (N[l * ?L := b0, l * ?L + 1 := b1])"
    unfolding agree_def
  proof (intro conjI allI impI)
    fix k
    assume k: "k < ar_blocks inst \<and> k mod ?L < 2 \<and> k div ?L < Suc l"
    show "M[l * ?L := b0, l * ?L + 1 := b1] ! k = N[l * ?L := b0, l * ?L + 1 := b1] ! k"
    proof (cases "k div ?L = l")
      case True
      then have "k = l * ?L + k mod ?L" by (metis div_mult_mod_eq)
      then have "k = l * ?L \<or> k = l * ?L + 1" using k by linarith
      then show ?thesis using a assms(3,4) by (auto simp: mem_ok_def nth_list_update)
    next
      case False
      then have "k \<noteq> l * ?L" "k \<noteq> l * ?L + 1"
        using lane_index(2) [of 0 "unat (i_segment_length inst)" l "Suc l"] lane_index(2) [of 1 "unat (i_segment_length inst)" l "Suc l"] D(1)
        by auto
      then show ?thesis using k False assms(5) by (simp add: agree_def)
    qed
  qed (use assms(5) in \<open>simp add: agree_def\<close>)
  then show ?thesis
    using step assms(3,4) len len72 mem_ok_update by (auto simp: mem_ok_def [of _ M] mem_ok_def [of _ N] intro!: mem_ok_update)
qed

lemma fill_first_blocks_agree:
  assumes "instance_ok inst" and "mem_ok (ar_blocks inst) M" and "mem_ok (ar_blocks inst) N" and "length M = length N"
    and S: "length (a_buf S) = 128" "length (a_buf S') = 128"
    and bh: "length bh = 72" "length bk = 72" "take 64 bk = take 64 bh"
  shows "\<exists>M' N'. zenrx_ar2_fill_first_blocks S bh inst M = Some M' \<and> zenrx_ar2_fill_first_blocks S' bk inst N = Some N'
    \<and> runs_agree inst 0 0 0 M' N'"
proof -
  define P where "P l s t \<longleftrightarrow> length (fst s) = 72 \<and> length (fst t) = 72 \<and> take 64 (fst t) = take 64 (fst s :: bytes)
      \<and> mem_ok (ar_blocks inst) (snd s) \<and> mem_ok (ar_blocks inst) (snd t)
      \<and> agree (\<lambda>k. k < ar_blocks inst \<and> k mod (4 * unat (i_segment_length inst)) < 2 \<and>
           k div (4 * unat (i_segment_length inst)) < l) (snd s) (snd t)" for l s t
  have "\<exists>s' t'. fold_opt (fill_first_blocks_lane S inst) [0..<unat (i_lanes inst)] (bh, M) = Some s'
      \<and> fold_opt (fill_first_blocks_lane S' inst) [0..<unat (i_lanes inst)] (bk, N) = Some t' \<and> P (unat (i_lanes inst)) s' t'"
  proof (rule fold_opt_upt2)
    show "P 0 (bh, M) (bk, N)" using assms by (simp add: P_def agree_def)
  next
    fix l s t
    assume "l < unat (i_lanes inst)" and "P l s t"
    then show "\<exists>s' t'. fill_first_blocks_lane S inst l s = Some s' \<and> fill_first_blocks_lane S' inst l t = Some t' \<and> P (Suc l) s' t'"
      using fill_first_blocks_lane_agree [OF assms(1), of l "snd s" "snd t" S S' "fst s" "fst t"] S
      by (cases s; cases t) (auto simp: P_def)
  qed simp
  then obtain s' t' where st: "fold_opt (fill_first_blocks_lane S inst) [0..<unat (i_lanes inst)] (bh, M) = Some s'"
    "fold_opt (fill_first_blocks_lane S' inst) [0..<unat (i_lanes inst)] (bk, N) = Some t'" "P (unat (i_lanes inst)) s' t'"
    by blast
  have "runs_agree inst 0 0 0 (snd s') (snd t')"
    using st(3) less_mult_imp_div_less
    by (intro runs_agree_start) (auto simp: P_def agree_def ar_blocks_def)
  then show ?thesis using st(1,2) by (simp add: zenrx_ar2_fill_first_blocks_def)
qed

lemma length_ar2_blake2b_long:
  assumes "length (a_buf S) = 128" and "T < 2 ^ 32" and "length bs = k"
  shows "length (zenrx_ar2_blake2b_long S T bs k) = T"
proof (cases "T = 0")
  case True
  then show ?thesis by (simp add: zenrx_ar2_blake2b_long_def zenrx_ar2_blake2b_final_def Let_def)
next
  case False
  then show ?thesis
    using assms ar2_blake2b_long_eq [of T S bs] rxa2_blake2b_long_ok(2) [of T bs] by simp
qed

lemma length_store_block: "length (store_block b) = 1024"
  unfolding store_block_def by (simp add: length_concat comp_def interv_sum_list_conv_sum_set_nat)

lemma final_tag_agree:
  assumes "instance_ok inst" and "runs_agree inst r 0 0 M N" and "0 < r"
    and "length (a_buf S) = 128" and "length (a_buf S') = 128"
  shows "\<exists>tag. final_tag S inst outlen M = Some tag \<and> final_tag S' inst outlen N = Some tag \<and> length tag = unat outlen"
proof -
  let ?L = "4 * unat (i_segment_length inst)"
  note D = instance_okD [OF assms(1)]
  have rd: "mem_read M k = Some (M ! k)" "mem_read N k = Some (M ! k)" if "k < ar_blocks inst" for k
    using that assms(2,3) by (auto simp: runs_agree_def agree_def mem_ok_def mem_read_def)
  have last: "unat (of_nat l * i_lane_length inst + (i_lane_length inst - 1)) < ar_blocks inst"
    if "l < unat (i_lanes inst)" for l
  proof -
    have a: "l * ?L + (?L - 1) < ar_blocks inst"
      using lane_index(3) [OF _ that, of "?L - 1" "unat (i_segment_length inst)"] D(1) by (simp add: ar_blocks_def)
    have l: "unat (of_nat l :: u32) = l"
      using that unat_u32_lt [of "i_lanes inst"] by (simp add: unat_of_nat_small)
    have m: "unat (of_nat l * i_lane_length inst) = l * ?L"
      using a D(2,3) l by (subst unat_mult_small) simp_all
    have L1: "unat (i_lane_length inst - 1) = ?L - 1" using D(1,2) by (subst unat_minus_1) simp_all
    then show ?thesis using a D(3) m by (subst unat_add_small) simp_all
  qed
  have zero: "unat (i_lane_length inst) - 1 < ar_blocks inst"
    using lane_index(3) [OF _ D(4), of "?L - 1" "unat (i_segment_length inst)"] D(1,2) by (simp add: ar_blocks_def)
  let ?f = "\<lambda>M l b. do {
         c \<leftarrow> mem_read M (unat (of_nat l * i_lane_length inst + (i_lane_length inst - 1)));
         Some (xor_block b c) }"
  have "\<exists>s t. fold_opt (?f M) [1..<unat (i_lanes inst)] (M ! (unat (i_lane_length inst) - 1)) = Some s
      \<and> fold_opt (?f N) [1..<unat (i_lanes inst)] (M ! (unat (i_lane_length inst) - 1)) = Some t \<and> s = t"
    by (rule fold_opt_upt2 [where P = "\<lambda>i. (=)"]) (use D(4) rd [OF last] in auto)
  then obtain b where "xor_last_blocks inst M = Some b" "xor_last_blocks inst N = Some b"
    using rd [OF zero] by (auto simp: xor_last_blocks_def)
  moreover have "length (zenrx_ar2_blake2b_long S (unat outlen) (store_block b) 1024) = unat outlen" for b
    using unat_u32_lt [of outlen] by (intro length_ar2_blake2b_long assms(4)) (simp_all add: length_store_block)
  moreover have "zenrx_ar2_blake2b_long S' (unat outlen) (store_block b) 1024 = zenrx_ar2_blake2b_long S (unat outlen) (store_block b) 1024" for b
    using unat_u32_lt [of outlen] by (intro ar2_blake2b_long_state assms) (simp_all add: length_store_block)
  ultimately show ?thesis by (simp add: final_tag_def)
qed

lemma wipe_inputs_frame [simp]:
  "c_out (wipe_inputs c) = c_out c" "c_outlen (wipe_inputs c) = c_outlen c" "c_lanes (wipe_inputs c) = c_lanes c"
  "c_salt (wipe_inputs c) = c_salt c" "c_saltlen (wipe_inputs c) = c_saltlen c"
  by (simp_all add: wipe_inputs_def Let_def)

section \<open>A whole computation\<close>

text \<open>The state of the context after a successful computation with a given tag.\<close>

definition with_tag :: "argon2_context \<Rightarrow> bytes \<Rightarrow> argon2_context" where
  "with_tag c tag = (wipe_inputs c)\<lparr>c_out := map_option (\<lambda>out. memcpy_at out 0 tag (unat (c_outlen c))) (c_out c)\<rparr>"

text \<open>The part of a computation between initialisation of the context and release of the memory.\<close>

definition core_run :: "ar2_locals \<Rightarrow> argon2_instance \<Rightarrow> bytes \<Rightarrow> u32 \<Rightarrow> ar_memory \<Rightarrow> (bytes \<times> ar_memory) option" where
  "core_run loc inst blockhash outlen M = do {
     M \<leftarrow> zenrx_ar2_fill_first_blocks (l_blake loc) blockhash inst M;
     M \<leftarrow> fill_memory_blocks_st (l_block loc) inst M;
     tag \<leftarrow> final_tag (l_blake loc) inst outlen M;
     Some (tag, M) }"

definition initial_blockhash :: "ar2_locals \<Rightarrow> argon2_context \<Rightarrow> argon2_type \<Rightarrow> bytes" where
  "initial_blockhash loc c ty = fst (zenrx_ar2_initial_hash (l_blake loc) (l_blockhash loc) c ty)"

lemma initial_hash_pair:
  "zenrx_ar2_initial_hash (l_blake loc) (l_blockhash loc) c ty = (initial_blockhash loc c ty, wipe_inputs c)"
  by (simp add: initial_blockhash_def zenrx_ar2_initial_hash_def Let_def)

lemma initial_blockhash_take:
  assumes "locals_ok loc"
  shows "take 64 (initial_blockhash loc c ty) = blake2b_hash 64 (concat (initial_hash_inputs c ty))"
    and "length (initial_blockhash loc c ty) = 72"
  using assms ar2_hash_all(1) [of 64 "l_blake loc" "initial_hash_inputs c ty"] rx_blake2b_default_ok(2) [of 64]
  by (simp_all add: locals_ok_def initial_blockhash_def zenrx_ar2_initial_hash_def Let_def memcpy_at_def)

text \<open>Two runs on contexts with the same hashed inputs agree, whatever memory and locals held.\<close>

lemma core_runs_agree:
  assumes "instance_ok inst" and "0 < unat (i_passes inst)" and "locals_ok loc" and "locals_ok loc'"
    and "mem_ok (ar_blocks inst) M" and "mem_ok (ar_blocks inst) N" and "length M = length N"
    and "initial_hash_inputs c' ty' = initial_hash_inputs c ty"
  shows "\<exists>tag M' N'. core_run loc inst (initial_blockhash loc c ty) n M = Some (tag, M')
    \<and> core_run loc' inst (initial_blockhash loc' c' ty') n N = Some (tag, N')
    \<and> length tag = unat n \<and> runs_agree inst (unat (i_passes inst)) 0 0 M' N'"
proof -
  have S: "length (a_buf (l_blake loc)) = 128" "length (a_buf (l_blake loc')) = 128"
    "length (l_block loc') = 128" "length (l_block loc) = 128"
    using assms(3,4) by (simp_all add: locals_ok_def)
  note bh = initial_blockhash_take [OF assms(3), of c ty] initial_blockhash_take [OF assms(4), of c' ty']
  obtain M1 N1 where 1: "zenrx_ar2_fill_first_blocks (l_blake loc) (initial_blockhash loc c ty) inst M = Some M1"
    "zenrx_ar2_fill_first_blocks (l_blake loc') (initial_blockhash loc' c' ty') inst N = Some N1" "runs_agree inst 0 0 0 M1 N1"
    using fill_first_blocks_agree [OF assms(1,5-7) S(1,2) bh(2,4)] bh(1,3) assms(8) by auto
  obtain M2 N2 where 2: "fill_memory_blocks_st (l_block loc) inst M1 = Some M2"
    "fill_memory_blocks_st (l_block loc') inst N1 = Some N2" "runs_agree inst (unat (i_passes inst)) 0 0 M2 N2"
    using fill_memory_agree [OF assms(1,2) 1(3), of "l_block loc"] unfolding fill_memory_blocks_junk [OF S(3,4)] by blast
  obtain tag where 3: "final_tag (l_blake loc) inst n M2 = Some tag"
    "final_tag (l_blake loc') inst n N2 = Some tag" "length tag = unat n"
    using final_tag_agree [OF assms(1) 2(3) assms(2) S(1,2)] by blast
  show ?thesis using 1 2 3 by (auto simp: core_run_def)
qed

lemma passes_make_instance [simp]: "i_passes (make_instance c ty keep) = c_t_cost c"
  by (simp add: make_instance_def split: prod.splits)

text \<open>\<open>argon2_ctx_mem\<close> on a validated context, once it has its memory.\<close>

lemma argon2_ctx_mem_core:
  assumes "zenrx_ar2_validate_inputs (Some c) = ARGON2_OK" and "ty \<in> {Argon2_d, Argon2_i, Argon2_id}"
    and "memory \<noteq> None \<longrightarrow> memory_size mod ARGON2_BLOCK_SIZE = 0
       \<and> unat (i_memory_blocks (make_instance c ty True)) \<le> memory_size div ARGON2_BLOCK_SIZE"
    and "zenrx_ar2_allocate_memory malloc c (make_instance c ty (memory \<noteq> None)) memory = (ARGON2_OK, Some Q)"
    and "core_run loc (make_instance c ty (memory \<noteq> None)) (initial_blockhash loc c ty) (c_outlen c) Q = Some (tag, Q')"
  shows "argon2_ctx_mem loc malloc c ty memory memory_size = Some (ARGON2_OK, with_tag c tag,
    if memory = None \<and> c_out c \<noteq> None then None else Some Q')"
proof -
  define inst where "inst = make_instance c ty (memory \<noteq> None)"
  note I = make_instance_ok [OF assms(1), of ty "memory \<noteq> None", folded inst_def]
  obtain Q1 where Q: "zenrx_ar2_fill_first_blocks (l_blake loc) (initial_blockhash loc c ty) inst Q = Some Q1"
    "fill_memory_blocks_st (l_block loc) inst Q1 = Some Q'" "final_tag (l_blake loc) inst (c_outlen c) Q' = Some tag"
    using assms(5) by (auto simp: core_run_def inst_def bind_eq_Some_conv)
  have "zenrx_ar2_finalize loc (wipe_inputs c) inst Q' = Some (with_tag c tag,
      if memory = None \<and> c_out c \<noteq> None then None else Some Q')"
    using Q(3) I(7)
    by (cases "c_out c")
      (auto simp: zenrx_ar2_finalize_def with_tag_def zenrx_ar2_free_memory_def FLAG_clear_internal_memory_def)
  moreover have "zenrx_ar2_initialize loc malloc inst c memory = Some (ARGON2_OK, wipe_inputs c, Some Q1)"
    using Q(1) assms(4) [folded inst_def] I(6) by (simp add: zenrx_ar2_initialize_def initial_hash_pair)
  moreover have "zenrx_ar2_fill_memory_blocks loc inst Q1 = Some (ARGON2_OK, Q')"
    using Q(2) I(4) by (simp add: zenrx_ar2_fill_memory_blocks_def)
  moreover have "i_memory_blocks inst = i_memory_blocks (make_instance c ty True)"
    by (simp add: inst_def make_instance_def split: prod.splits)
  ultimately show ?thesis
    using assms(1-3) unfolding argon2_ctx_mem_def Let_def inst_def [symmetric] by auto
qed

text \<open>a computation on a validated context with memory of the caller that is large enough always
  succeeds, whatever the memory and the uninitialised locals held: status, context, tag (exactly
  \<open>outlen\<close> bytes) and the memory left behind are the same for two runs whose memories, locals and
  allocators differ.  The cache initialisation of RandomX, which keeps the memory and asks for no tag,
  relies on it.\<close>

theorem argon2_ctx_mem_deterministic:
  assumes "zenrx_ar2_validate_inputs (Some c) = ARGON2_OK" and "ty \<in> {Argon2_d, Argon2_i, Argon2_id}"
    and "locals_ok loc" and "locals_ok loc'"
    and "memory_size mod ARGON2_BLOCK_SIZE = 0"
    and "unat (i_memory_blocks (make_instance c ty True)) \<le> memory_size div ARGON2_BLOCK_SIZE"
    and "mem_ok (unat (i_memory_blocks (make_instance c ty True))) M"
    and "mem_ok (unat (i_memory_blocks (make_instance c ty True))) N" and "length M = length N"
  shows "\<exists>tag M' N'. argon2_ctx_mem loc malloc c ty (Some M) memory_size = Some (ARGON2_OK, with_tag c tag, Some M')
    \<and> argon2_ctx_mem loc' malloc' c ty (Some N) memory_size = Some (ARGON2_OK, with_tag c tag, Some N')
    \<and> length tag = unat (c_outlen c)
    \<and> take (unat (i_memory_blocks (make_instance c ty True))) M' = take (unat (i_memory_blocks (make_instance c ty True))) N'"
proof -
  define inst where "inst = make_instance c ty True"
  note I = make_instance_ok [OF assms(1), of ty True, folded inst_def]
  obtain tag M' N' where r: "core_run loc inst (initial_blockhash loc c ty) (c_outlen c) M = Some (tag, M')"
    "core_run loc' inst (initial_blockhash loc' c ty) (c_outlen c) N = Some (tag, N')" "length tag = unat (c_outlen c)"
    "runs_agree inst (unat (i_passes inst)) 0 0 M' N'"
    using core_runs_agree [OF I(1,2) assms(3,4) _ _ assms(9) refl, of c ty "c_outlen c"] assms(7,8) I(3)
    unfolding inst_def [symmetric] by auto
  have alloc: "zenrx_ar2_allocate_memory mal c inst (Some Q) = (ARGON2_OK, Some Q)" for mal Q
    by (simp add: zenrx_ar2_allocate_memory_def Let_def)
  show ?thesis
    apply (rule exI [of _ tag], rule exI [of _ M'], rule exI [of _ N'])
    using argon2_ctx_mem_core [OF assms(1,2), of "Some M" memory_size malloc M loc tag M']
      argon2_ctx_mem_core [OF assms(1,2), of "Some N" memory_size malloc' N loc' tag N']
      alloc r assms(5,6) runs_agree_take [OF r(4) I(2)] I(3)
    by (simp add: inst_def [symmetric])
qed

text \<open>\<open>malloc\<close> and the callbacks: a block of memory of the requested size, whatever it holds.\<close>

definition malloc_ok :: "(nat \<Rightarrow> ar_memory option) \<Rightarrow> bool" where
  "malloc_ok malloc \<longleftrightarrow> (\<forall>n. \<exists>M. malloc n = Some M \<and> length M = n div ARGON2_BLOCK_SIZE \<and> mem_ok 0 M)"

lemma malloc_okD: "malloc_ok malloc \<Longrightarrow> \<exists>M. malloc (n * 1024) = Some M \<and> mem_ok n M \<and> length M = n"
  unfolding malloc_ok_def mem_ok_def by (drule spec [of _ "n * 1024"]) auto

text \<open>Two computations that allocate their memory, on validated contexts with the same inputs.\<close>

lemma argon2_ctx_agree:
  assumes c: "zenrx_ar2_validate_inputs (Some c) = ARGON2_OK" "c_out c \<noteq> None" "c_allocate_cbk c = None"
    and c': "zenrx_ar2_validate_inputs (Some c') = ARGON2_OK" "c_out c' \<noteq> None" "c_allocate_cbk c' = None"
    and "ty \<in> {Argon2_d, Argon2_i, Argon2_id}"
    and "locals_ok loc" and "locals_ok loc'" and "malloc_ok malloc" and "malloc_ok malloc'"
    and same: "make_instance c' ty False = make_instance c ty False" "c_outlen c' = c_outlen c"
      "initial_hash_inputs c' ty = initial_hash_inputs c ty"
  shows "\<exists>tag. argon2_ctx loc malloc c ty = Some (ARGON2_OK, with_tag c tag, None)
    \<and> argon2_ctx loc' malloc' c' ty = Some (ARGON2_OK, with_tag c' tag, None) \<and> length tag = unat (c_outlen c)"
proof -
  define inst where "inst = make_instance c ty False"
  note I = make_instance_ok [OF c(1), of ty False, folded inst_def]
  have blocks: "ar_blocks inst < 2 ^ 32" using I(3) unat_u32_lt [of "i_memory_blocks inst"] by simp
  obtain M N where M: "malloc (ar_blocks inst * 1024) = Some M" "malloc' (ar_blocks inst * 1024) = Some N"
    and ok: "mem_ok (ar_blocks inst) M" "mem_ok (ar_blocks inst) N" "length M = length N"
    using malloc_okD [OF assms(10)] malloc_okD [OF assms(11)] by metis
  have alloc: "zenrx_ar2_allocate_memory malloc c inst None = (ARGON2_OK, Some M)"
    "zenrx_ar2_allocate_memory malloc' c' inst None = (ARGON2_OK, Some N)"
    using M blocks c(3) c'(3) I(3) by (simp_all add: zenrx_ar2_allocate_memory_def Let_def)
  obtain tag M' N' where r: "core_run loc inst (initial_blockhash loc c ty) (c_outlen c) M = Some (tag, M')"
    "core_run loc' inst (initial_blockhash loc' c' ty) (c_outlen c) N = Some (tag, N')" "length tag = unat (c_outlen c)"
    using core_runs_agree [OF I(1,2) assms(8,9) ok same(3), of "c_outlen c"] by blast
  show ?thesis
    apply (rule exI [of _ tag])
    using argon2_ctx_mem_core [OF c(1) assms(7), of None 0 malloc M loc tag M']
      argon2_ctx_mem_core [OF c'(1) assms(7), of None 0 malloc' N loc' tag N']
      alloc r same c(2) c'(2) by (simp add: argon2_ctx_def inst_def)
qed

definition demo_context :: argon2_context where
  "demo_context = \<lparr>c_out = Some (replicate 32 0), c_outlen = 32, c_pwd = Some [1, 2, 3], c_pwdlen = 3,
     c_salt = Some [1, 2, 3, 4, 5, 6, 7, 8], c_saltlen = 8, c_secret = None, c_secretlen = 0, c_ad = None,
     c_adlen = 0, c_t_cost = 1, c_m_cost = 17, c_lanes = 2, c_threads = 2, c_version = ARGON2_VERSION_NUMBER,
     c_allocate_cbk = None, c_free_cbk = False, c_flags = 0\<rparr>"

lemma demo_context_ok: "zenrx_ar2_validate_inputs (Some demo_context) = ARGON2_OK"
  "unat (i_memory_blocks (make_instance demo_context Argon2_id True)) = 16"
  by (simp_all add: demo_context_def zenrx_ar2_validate_inputs_def ARGON2_MAX_MEMORY_def make_instance_def
      argon2_compute_memory_blocks_def)

definition demo_locals :: "u8 \<Rightarrow> ar2_locals" where
  "demo_locals x = \<lparr>l_blake = \<lparr>a_h = [], a_t0 = 0, a_t1 = 0, a_buf = replicate 128 x, a_buflen = 0\<rparr>,
     l_blockhash = replicate 72 x, l_block = replicate 128 (ucast x)\<rparr>"

lemma demo_locals_ok: "locals_ok (demo_locals x)"
  by (simp add: locals_ok_def demo_locals_def)

theorem argon2_ctx_mem_deterministic_witness:
  "\<exists>tag M' N'. argon2_ctx_mem (demo_locals 1) (\<lambda>n. None) demo_context Argon2_id
        (Some (replicate 16 (replicate 128 0))) 16384 = Some (ARGON2_OK, with_tag demo_context tag, Some M')
    \<and> argon2_ctx_mem (demo_locals 2) (\<lambda>n. Some []) demo_context Argon2_id
        (Some (replicate 16 (replicate 128 5))) 16384 = Some (ARGON2_OK, with_tag demo_context tag, Some N')
    \<and> length tag = unat (c_outlen demo_context)
    \<and> take (unat (i_memory_blocks (make_instance demo_context Argon2_id True))) M' =
      take (unat (i_memory_blocks (make_instance demo_context Argon2_id True))) N'"
  by (rule argon2_ctx_mem_deterministic [OF demo_context_ok(1)])
    (simp_all add: demo_context_ok demo_locals_ok mem_ok_replicate)

section \<open>The reported memory size\<close>

text \<open>\<open>argon2_memory_size\<close> is the size in bytes of the blocks a valid computation uses exactly when
  there are fewer than \<open>2^22\<close> of them: the product is taken modulo \<open>2^32\<close>.\<close>

theorem argon2_memory_size_exact:
  assumes "8 * unat lanes \<le> unat m" and "0 < unat lanes" and "unat lanes \<le> 0xFFFFFF"
  defines "blocks \<equiv> unat (fst (argon2_compute_memory_blocks m lanes))"
  shows "argon2_memory_size m lanes = blocks * 1024 mod 2 ^ 32
    \<and> (argon2_memory_size m lanes = blocks * ARGON2_BLOCK_SIZE \<longleftrightarrow> blocks < 2 ^ 22)
    \<and> blocks \<le> unat m \<and> unat m - blocks < 4 * unat lanes"
proof -
  define seg where "seg = unat m div (4 * unat lanes)"
  note C = compute_memory_blocks_ok [OF assms(1-3), folded seg_def]
  have "seg * (4 * unat lanes) < 2 ^ LENGTH(32)" using C(3) unat_u32_lt [of m] by simp
  then have b: "blocks = seg * (4 * unat lanes)"
    unfolding blocks_def C(1) fst_conv by (rule unat_of_nat_small)
  have "unat m = seg * (4 * unat lanes) + unat m mod (4 * unat lanes)"
    unfolding seg_def by (metis div_mult_mod_eq)
  moreover have "unat m mod (4 * unat lanes) < 4 * unat lanes" using assms(2) by simp
  moreover have sz: "argon2_memory_size m lanes = blocks * 1024 mod 2 ^ 32"
    by (simp add: argon2_memory_size_def blocks_def unat_word_ariths)
  moreover have "argon2_memory_size m lanes = blocks * 1024 \<longleftrightarrow> blocks < 2 ^ 22"
    unfolding sz by auto
  ultimately show ?thesis using b by linarith
qed

theorem argon2_memory_size_exact_witness:
  "argon2_memory_size 0x400000 1 = 0 \<and> unat (fst (argon2_compute_memory_blocks 0x400000 1)) = 0x400000"
  using argon2_memory_size_exact [of 1 "0x400000"] by (simp add: argon2_compute_memory_blocks_def)

end
