(* ===== verification/Ar2_Base64.thy ===== *)
theory Ar2_Base64
  imports Ar2_Context CString
begin

text \<open>
  The Base64 coder of \<open>crypto/argon2/lib/encoding.c\<close>: constant-time comparisons, \<open>to_base64\<close> and
  \<open>from_base64\<close>, and the proof that decoding inverts encoding.  A C string is the list
  of its characters before the terminating zero; \<open>char\<close> is signed, so a character enters the
  comparisons sign-extended.  A function that writes into a buffer of \<open>dst_len\<close> characters returns
  what it writes.
\<close>

section \<open>Constant-time comparisons\<close>

definition ct_EQ :: "u32 \<Rightarrow> u32 \<Rightarrow> u32" where
  "ct_EQ x y = (drop_bit 8 (0 - (x XOR y)) AND 0xFF) XOR 0xFF"

definition ct_GT :: "u32 \<Rightarrow> u32 \<Rightarrow> u32" where
  "ct_GT x y = drop_bit 8 (y - x) AND 0xFF"

definition ct_GE :: "u32 \<Rightarrow> u32 \<Rightarrow> u32" where "ct_GE x y = ct_GT y x XOR 0xFF"
definition ct_LT :: "u32 \<Rightarrow> u32 \<Rightarrow> u32" where "ct_LT x y = ct_GT y x"
definition ct_LE :: "u32 \<Rightarrow> u32 \<Rightarrow> u32" where "ct_LE x y = ct_GE y x"

section \<open>Base64\<close>

text \<open>The characters as numbers: A = 65, Z = 90, a = 97, z = 122, 0 = 48, 9 = 57, + = 43, / = 47.\<close>

definition b64_byte_to_char :: "u32 \<Rightarrow> u32" where
  "b64_byte_to_char x =
     (ct_LT x 26 AND (x + 65)) OR (ct_GE x 26 AND ct_LT x 52 AND (x + (97 - 26)))
     OR (ct_GE x 52 AND ct_LT x 62 AND (x + (48 - 52))) OR (ct_EQ x 62 AND 43) OR (ct_EQ x 63 AND 47)"

definition b64_char_to_byte :: "u32 \<Rightarrow> u32" where
  "b64_char_to_byte c =
     (let x = (ct_GE c 65 AND ct_LE c 90 AND (c - 65)) OR (ct_GE c 97 AND ct_LE c 122 AND (c - (97 - 26)))
            OR (ct_GE c 48 AND ct_LE c 57 AND (c - (48 - 52))) OR (ct_EQ c 43 AND 62) OR (ct_EQ c 47 AND 63)
      in x OR (ct_EQ x 0 AND (ct_EQ c 65 XOR 0xFF)))"

text \<open>\<open>(char)x\<close> and the value of a \<open>char\<close> as an \<open>unsigned\<close>.\<close>

definition to_char :: "u32 \<Rightarrow> char" where
  "to_char x = char_of (unat x)"

definition char_value :: "char \<Rightarrow> u32" where
  "char_value c = scast (of_nat (of_char c) :: u8)"

text \<open>The inner loop \<open>while (acc_len >= 6)\<close>: the characters and the bits left.\<close>

fun b64_emit :: "u32 \<Rightarrow> nat \<Rightarrow> string \<times> nat" where
  "b64_emit acc acc_len =
     (if 6 \<le> acc_len then
        let (s, n) = b64_emit acc (acc_len - 6)
        in (to_char (b64_byte_to_char (drop_bit (acc_len - 6) acc AND 0x3F)) # s, n)
      else ([], acc_len))"

declare b64_emit.simps [simp del]

fun b64_encode_loop :: "u32 \<Rightarrow> nat \<Rightarrow> bytes \<Rightarrow> string" where
  "b64_encode_loop acc acc_len [] =
     (if 0 < acc_len then [to_char (b64_byte_to_char (push_bit (6 - acc_len) acc AND 0x3F))] else [])"
| "b64_encode_loop acc acc_len (b # buf) =
     (let acc = push_bit 8 acc + ucast b;
          (out, acc_len) = b64_emit acc (acc_len + 8)
      in out @ b64_encode_loop acc acc_len buf)"

definition b64_olen :: "nat \<Rightarrow> nat" where
  "b64_olen n = n div 3 * 4 + (if n mod 3 = 2 then 3 else if n mod 3 = 1 then 2 else 0)"

text \<open>\<open>None\<close> is \<open>(size_t)-1\<close>.\<close>

definition to_base64 :: "nat \<Rightarrow> bytes \<Rightarrow> nat \<Rightarrow> string option" where
  "to_base64 dst_len src src_len =
     (if dst_len \<le> b64_olen src_len then None else Some (b64_encode_loop 0 0 (take src_len src)))"

text \<open>The bytes written so far, the accumulator, its length and the rest of the string; \<open>None\<close> when the
  buffer is full.\<close>

fun b64_decode_loop :: "nat \<Rightarrow> u32 \<Rightarrow> nat \<Rightarrow> bytes \<Rightarrow> string \<Rightarrow> (bytes \<times> u32 \<times> nat \<times> string) option" where
  "b64_decode_loop cap acc acc_len buf [] = Some (buf, acc, acc_len, [])"
| "b64_decode_loop cap acc acc_len buf (c # src) =
     (let d = b64_char_to_byte (char_value c) in
      if d = 0xFF then Some (buf, acc, acc_len, c # src)
      else
        let acc = push_bit 6 acc + d; acc_len = acc_len + 6 in
        if 8 \<le> acc_len
        then let acc_len = acc_len - 8 in
             if length buf \<ge> cap then None
             else b64_decode_loop cap acc acc_len (buf @ [ucast (drop_bit acc_len acc AND 0xFF)]) src
        else b64_decode_loop cap acc acc_len buf src)"

definition from_base64 :: "nat \<Rightarrow> string \<Rightarrow> (bytes \<times> string) option" where
  "from_base64 dst_len src =
     (case b64_decode_loop dst_len 0 0 [] src of None \<Rightarrow> None
      | Some (buf, acc, acc_len, rest) \<Rightarrow>
          if 4 < acc_len \<or> acc AND (push_bit acc_len 1 - 1) \<noteq> 0 then None else Some (buf, rest))"

definition b64len :: "u32 \<Rightarrow> nat" where
  "b64len len = b64_olen (unat len)"

section \<open>Encoding and decoding of one group\<close>

lemma and_FF: "unat (w AND 0xFF :: u32) = unat w mod 256"
proof -
  have "w AND 0xFF = take_bit 8 w" by (simp add: take_bit_eq_mask mask_numeral)
  then have "unat (w AND 0xFF) = take_bit 8 (unat w)" by (simp only: unsigned_take_bit_eq)
  then show ?thesis by (simp add: take_bit_eq_mod)
qed
lemma and_3F: "unat (w AND 0x3F :: u32) = unat w mod 64"
proof -
  have "w AND 0x3F = take_bit 6 w" by (simp add: take_bit_eq_mask mask_numeral)
  then have "unat (w AND 0x3F) = take_bit 6 (unat w)" by (simp only: unsigned_take_bit_eq)
  then show ?thesis by (simp add: take_bit_eq_mod)
qed

lemma ct_GT_small:
  assumes "unat x < 256" and "unat y < 256"
  shows "ct_GT x y = (if y < x then 0xFF else 0)"
proof (cases "y < x")
  case True
  define k where "k = unat x - unat y"
  have k: "0 < k" "k < 256" "unat y < unat x" using True assms by (simp_all add: k_def word_less_nat_alt)
  have "unat (y - x) = 2 ^ 32 - k"
    using k unat_u32_lt [of x] by (simp add: unat_sub_if' word_le_nat_alt k_def)
  moreover have "(2 ^ 32 - k) div 256 = 16777215"
    using k by (intro div_nat_eqI) simp_all
  ultimately show ?thesis using True
    by (simp add: ct_GT_def word_unat_eq_iff and_FF unat_drop_bit_div)
next
  case False
  then have "unat (y - x) < 256" using assms by (simp add: unat_sub_if' word_le_nat_alt word_less_nat_alt)
  then show ?thesis using False
    by (simp add: ct_GT_def word_unat_eq_iff and_FF unat_drop_bit_div)
qed

lemma ct_EQ_small:
  assumes "unat x < 256" and "unat y < 256"
  shows "ct_EQ x y = (if x = y then 0xFF else 0)"
proof (cases "x = y")
  case False
  define z where "z = x XOR y"
  have "x AND 0xFF = x" "y AND 0xFF = y"
    using assms by (simp_all only: word_unat_eq_iff and_FF mod_less)
  then have "z AND 0xFF = z" by (simp add: z_def bit.conj_xor_distrib2)
  then have z: "unat z < 256" using and_FF [of z] by (metis mod_less_divisor zero_less_numeral)
  have "x = z XOR y" by (simp add: z_def xor.assoc)
  then have "z \<noteq> 0" using False by auto
  then have z0: "0 < unat z" by (simp add: unat_gt_0)
  have "unat (0 - z) = 2 ^ 32 - unat z"
    using z0 by (simp only: unat_sub_if' unat_0) simp
  moreover have "(2 ^ 32 - unat z) div 256 = 16777215"
    using z z0 by (intro div_nat_eqI) simp_all
  ultimately have "drop_bit 8 (0 - z) AND 0xFF = 0xFF"
    by (simp add: word_unat_eq_iff and_FF unat_drop_bit_div)
  then show ?thesis using False unfolding ct_EQ_def z_def [symmetric] by simp
qed (simp add: ct_EQ_def)

lemma and_FF_small: "unat w < 256 \<Longrightarrow> (0xFF :: u32) AND w = w"
  by (simp add: word_unat_eq_iff and.commute [of _ w] and_FF)

lemmas ct_small = ct_LT_def ct_GE_def ct_LE_def ct_GT_small ct_EQ_small

definition b64_ok :: "u32 \<Rightarrow> bool" where
  "b64_ok v \<longleftrightarrow> b64_char_to_byte (char_value (to_char (b64_byte_to_char v))) = v \<and> v \<noteq> 0xFF"

lemma b64_table: "list_all b64_ok (map of_nat [0..<64])"
  by (simp add: upt_rec [of _ "numeral _"] b64_ok_def b64_byte_to_char_def b64_char_to_byte_def ct_small Let_def char_value_def to_char_def)

lemma mod_div_low: "k \<le> 26 \<Longrightarrow> (x mod 2 ^ 32) div 2 ^ k mod 64 = x div 2 ^ k mod (64 :: nat)"
proof -
  assume k: "k \<le> 26"
  have "(x mod 2 ^ 32) div 2 ^ k = (x div 2 ^ k) mod 2 ^ (32 - k)"
    using k by (metis drop_bit_eq_div drop_bit_take_bit take_bit_eq_mod)
  moreover have "(64 :: nat) dvd 2 ^ (32 - k)"
    using k le_imp_power_dvd [of 6 "32 - k" "2 :: nat"] by simp
  ultimately show ?thesis by (simp add: mod_mod_cancel)
qed

lemma sextet:
  fixes w :: u32
  assumes "unat w = x mod 2 ^ 32" and "k \<le> 26"
  shows "drop_bit k w AND 0x3F = of_nat (x div 2 ^ k mod 64)"
  using mod_div_low [OF assms(2), of x] assms(1)
  by (simp add: word_unat_eq_iff and_3F unat_drop_bit_div unat_of_nat_small)

lemma shift_in:
  fixes w :: u32
  assumes "unat w = x mod 2 ^ 32"
  shows "unat (push_bit n w + ucast (b :: u8)) = (x * 2 ^ n + unat b) mod 2 ^ 32"
proof -
  have "unat (ucast b :: u32) = unat b" by (simp add: unat_ucast_up)
  then show ?thesis
    using assms by (simp add: unat_word_ariths unat_push_bit_mod mod_simps)
qed

lemma sextet_of_byte:
  fixes b :: nat
  assumes "b < 256" and "n * m = 256" and "m * q = 64"
  shows "(X * 256 + b) div n mod 64 = (X mod q) * m + b div n"
proof -
  have n: "0 < n" and m: "0 < m" using assms(2) by (auto intro: Nat.gr0I)
  have r: "b div n < m" using assms(1,2) n by (simp add: less_mult_imp_div_less mult.commute)
  have "X * 256 + b = b + (X * m) * n" using assms(2) by (simp add: mult.commute mult.left_commute)
  then have "(X * 256 + b) div n = X * m + b div n" using n by (simp only: div_mult_self1 add.commute)
  then show ?thesis
    using r m unfolding assms(3) [symmetric] mod_mult2_eq by (simp add: mult.commute)
qed

lemma low_bits:
  fixes x a :: nat
  shows "(x * 256 + a) mod 4 = a mod 4" and "(x * 256 + a) * 16 mod 64 = (a mod 4) * 16"
    and "(x * 256 + a) * 4 mod 64 = (a mod 16) * 4" and "(x * 256 + a) mod 16 = a mod 16"
    and "(x * 256 + a) mod 64 = a mod 64"
proof -
  have 4: "x * 256 + a = a + (x * 64) * 4" and 16: "x * 256 + a = a + (x * 16) * 16"
    and 64: "x * 256 + a = a + (x * 4) * 64" by simp_all
  show "(x * 256 + a) mod 64 = a mod 64" unfolding 64 by (simp only: mod_mult_self1)
  show m: "(x * 256 + a) mod 4 = a mod 4" unfolding 4 by (simp only: mod_mult_self1)
  show "(x * 256 + a) mod 16 = a mod 16" unfolding 16 by (simp only: mod_mult_self1)
  with m show "(x * 256 + a) * 16 mod 64 = (a mod 4) * 16" and "(x * 256 + a) * 4 mod 64 = (a mod 16) * 4"
    using mult_mod_left [of "x * 256 + a" 4 16] mult_mod_left [of "x * 256 + a" 16 4] by simp_all
qed

definition b64c :: "nat \<Rightarrow> char" where
  "b64c n = to_char (b64_byte_to_char (of_nat n))"

lemma encode_group:
  "\<exists>acc'. b64_encode_loop acc 0 (a # b # c # bs) =
     b64c (unat a div 4) # b64c ((unat a mod 4) * 16 + unat b div 16) # b64c ((unat b mod 16) * 4 + unat c div 64)
     # b64c (unat c mod 64) # b64_encode_loop acc' 0 bs"
proof -
  define x where "x = unat acc"
  define w1 where "w1 = push_bit 8 acc + (ucast a :: u32)"
  define w2 where "w2 = push_bit 8 w1 + (ucast b :: u32)"
  define w3 where "w3 = push_bit 8 w2 + (ucast c :: u32)"
  have 0: "unat acc = x mod 2 ^ 32" using unat_u32_lt [of acc] by (simp add: x_def)
  note 1 = shift_in [OF 0, of 8 a, folded w1_def]
  note 2 = shift_in [OF 1, of 8 b, folded w2_def]
  note 3 = shift_in [OF 2, of 8 c, folded w3_def]
  have lt: "unat a < 256" "unat b < 256" "unat c < 256" by (simp_all add: unat_u8_lt)
  have s1: "drop_bit 2 w1 AND 0x3F = of_nat (unat a div 4)"
    using sextet [OF 1, of 2] sextet_of_byte [OF lt(1), of 4 64 1] by simp
  have s2: "drop_bit 4 w2 AND 0x3F = of_nat ((unat a mod 4) * 16 + unat b div 16)"
  proof -
    have "(x * 2 ^ 8 + unat a) mod 4 = unat a mod 4" using low_bits(1) [of x "unat a"] by simp
    then show ?thesis using sextet [OF 2, of 4] sextet_of_byte [OF lt(2), of 16 16 4 "x * 2 ^ 8 + unat a"] by simp
  qed
  have s3: "drop_bit 6 w3 AND 0x3F = of_nat ((unat b mod 16) * 4 + unat c div 64)"
    using sextet [OF 3, of 6] sextet_of_byte [OF lt(3), of 64 4 16 "(x * 2 ^ 8 + unat a) * 2 ^ 8 + unat b"]
      low_bits(4) [of "x * 2 ^ 8 + unat a" "unat b"] by simp
  have s4: "drop_bit 0 w3 AND 0x3F = of_nat (unat c mod 64)"
    using sextet [OF 3, of 0] low_bits(5) [of "(x * 2 ^ 8 + unat a) * 2 ^ 8 + unat b" "unat c"] by simp
  have "b64_encode_loop acc 0 (a # b # c # bs) =
     b64c (unat a div 4) # b64c ((unat a mod 4) * 16 + unat b div 16) # b64c ((unat b mod 16) * 4 + unat c div 64)
     # b64c (unat c mod 64) # b64_encode_loop w3 0 bs"
    using s1 s2 s3 s4
    by (simp add: b64_emit.simps w1_def [symmetric] w2_def [symmetric] w3_def [symmetric] b64c_def Let_def)
  then show ?thesis by blast
qed

text \<open>The two short endings.\<close>

lemma encode_end1: "b64_encode_loop acc 0 [a] = [b64c (unat a div 4), b64c ((unat a mod 4) * 16)]"
proof -
  define x where "x = unat acc"
  define w1 where "w1 = push_bit 8 acc + (ucast a :: u32)"
  have 0: "unat acc = x mod 2 ^ 32" using unat_u32_lt [of acc] by (simp add: x_def)
  note 1 = shift_in [OF 0, of 8 a, folded w1_def]
  have s1: "drop_bit 2 w1 AND 0x3F = of_nat (unat a div 4)"
    using sextet [OF 1, of 2] sextet_of_byte [OF unat_u8_lt [of a], of 4 64 1] by simp
  have "unat (push_bit 4 w1) = (x * 2 ^ 8 + unat a) * 16 mod 2 ^ 32"
    using 1 by (simp add: unat_push_bit_mod mod_simps)
  moreover have "(x * 2 ^ 8 + unat a) * 16 mod 64 = (unat a mod 4) * 16" using low_bits(2) [of x "unat a"] by simp
  ultimately have s2: "push_bit 4 w1 AND 0x3F = of_nat ((unat a mod 4) * 16)"
    using sextet [of "push_bit 4 w1" "(x * 2 ^ 8 + unat a) * 16" 0] by simp
  show ?thesis
    using s1 s2 by (simp add: b64_emit.simps w1_def [symmetric] b64c_def Let_def)
qed

lemma encode_end2: "b64_encode_loop acc 0 [a, b] =
    [b64c (unat a div 4), b64c ((unat a mod 4) * 16 + unat b div 16), b64c ((unat b mod 16) * 4)]"
proof -
  define x where "x = unat acc"
  define w1 where "w1 = push_bit 8 acc + (ucast a :: u32)"
  define w2 where "w2 = push_bit 8 w1 + (ucast b :: u32)"
  have 0: "unat acc = x mod 2 ^ 32" using unat_u32_lt [of acc] by (simp add: x_def)
  note 1 = shift_in [OF 0, of 8 a, folded w1_def]
  note 2 = shift_in [OF 1, of 8 b, folded w2_def]
  have s1: "drop_bit 2 w1 AND 0x3F = of_nat (unat a div 4)"
    using sextet [OF 1, of 2] sextet_of_byte [OF unat_u8_lt [of a], of 4 64 1] by simp
  have s2: "drop_bit 4 w2 AND 0x3F = of_nat ((unat a mod 4) * 16 + unat b div 16)"
  proof -
    have "(x * 2 ^ 8 + unat a) mod 4 = unat a mod 4" using low_bits(1) [of x "unat a"] by simp
    then show ?thesis using sextet [OF 2, of 4] sextet_of_byte [OF unat_u8_lt [of b], of 16 16 4 "x * 2 ^ 8 + unat a"] by simp
  qed
  let ?y = "(x * 2 ^ 8 + unat a) * 2 ^ 8 + unat b"
  have "unat (push_bit 2 w2) = ?y * 4 mod 2 ^ 32"
    using 2 by (simp add: unat_push_bit_mod mod_simps)
  moreover have "?y * 4 mod 64 = (unat b mod 16) * 4"
    using low_bits(3) [of "x * 2 ^ 8 + unat a" "unat b"] by simp
  ultimately have s3: "push_bit 2 w2 AND 0x3F = of_nat ((unat b mod 16) * 4)"
    using sextet [of "push_bit 2 w2" "?y * 4" 0] by simp
  show ?thesis
    using s1 s2 s3 by (simp add: b64_emit.simps w1_def [symmetric] w2_def [symmetric] b64c_def Let_def)
qed

subsection \<open>Decoding\<close>

lemma b64_char_ok:
  assumes "n < 64"
  shows "b64_char_to_byte (char_value (b64c n)) = of_nat n" and "(of_nat n :: u32) \<noteq> 0xFF"
proof -
  have "b64_ok (of_nat n)" using b64_table assms by (auto simp: list_all_iff)
  then show "b64_char_to_byte (char_value (b64c n)) = of_nat n" and "(of_nat n :: u32) \<noteq> 0xFF"
    by (simp_all add: b64_ok_def b64c_def)
qed

lemma shift_in6:
  fixes w :: u32
  assumes "unat w = x mod 2 ^ 32" and "n < 64"
  shows "unat (push_bit 6 w + of_nat n) = (x * 64 + n) mod 2 ^ 32"
proof -
  have "unat (of_nat n :: u32) = n" using assms(2) by (intro unat_of_nat_small) simp
  then show ?thesis
    using assms(1) by (simp add: unat_word_ariths unat_push_bit_mod mod_simps)
qed

lemma octet:
  fixes w :: u32
  assumes "unat w = x mod 2 ^ 32" and "k \<le> 24" and "x div 2 ^ k mod 256 = unat (b :: u8)"
  shows "ucast (drop_bit k w AND 0xFF) = b"
proof -
  have "(x mod 2 ^ 32) div 2 ^ k = (x div 2 ^ k) mod 2 ^ (32 - k)"
    using assms(2) by (metis drop_bit_eq_div drop_bit_take_bit take_bit_eq_mod)
  moreover have "(256 :: nat) dvd 2 ^ (32 - k)"
    using assms(2) le_imp_power_dvd [of 8 "32 - k" "2 :: nat"] by simp
  ultimately have "unat (drop_bit k w AND 0xFF) = unat b"
    using assms(1,3) by (simp add: and_FF unat_drop_bit_div mod_mod_cancel)
  then show ?thesis
    by (simp add: word_unat_eq_iff unsigned_ucast_eq take_bit_nat_eq_self unat_u8_lt)
qed

lemma decode_char:
  assumes "n < 64"
  shows "b64_decode_loop cap acc m buf (b64c n # src) =
    (let acc = push_bit 6 acc + of_nat n in
     if 8 \<le> m + 6 then if length buf \<ge> cap then None
        else b64_decode_loop cap acc (m - 2) (buf @ [ucast (drop_bit (m - 2) acc AND 0xFF)]) src
     else b64_decode_loop cap acc (m + 6) buf src)"
  using b64_char_ok [OF assms] by (simp add: Let_def)

definition b64_stops :: "string \<Rightarrow> bool" where
  "b64_stops s \<longleftrightarrow> (case s of [] \<Rightarrow> True | c # _ \<Rightarrow> b64_char_to_byte (char_value c) = 0xFF)"

lemma decode_stop: "b64_stops rest \<Longrightarrow> b64_decode_loop cap acc m buf rest = Some (buf, acc, m, rest)"
  by (cases rest) (simp_all add: b64_stops_def)

lemma regroup:
  fixes q r a x X s t b c :: nat
  shows "q * 4 + r = a \<Longrightarrow> (x * 64 + q) * 64 + (r * 16 + s) = (x * 256 + a) * 16 + s"
    and "q * 16 + r = b \<Longrightarrow> (X * 16 + q) * 64 + (r * 4 + t) = (X * 256 + b) * 4 + t"
    and "q * 64 + r = c \<Longrightarrow> (X * 4 + q) * 64 + r = X * 256 + c"
  by (auto simp: algebra_simps)

lemma byte_of_shifted:
  assumes "a < 256" and "r < n"
  shows "((x * 256 + a) * n + r) div n mod 256 = (a :: nat)"
proof -
  have "((x * 256 + a) * n + r) div n = x * 256 + a"
    using assms(2) by (intro div_nat_eqI) simp_all
  moreover have "(x * 256 + a) mod 256 = a" using assms(1) mod_mult_self3 [of x 256 a] by simp
  ultimately show ?thesis by (simp only:)
qed

lemma decode_pair:
  assumes "unat acc = x mod 2 ^ 32" and "length buf < cap" and "r < 16"
  shows "\<exists>w. unat w = ((x * 256 + unat a) * 16 + r) mod 2 ^ 32 \<and>
    (\<forall>src. b64_decode_loop cap acc 0 buf (b64c (unat a div 4) # b64c ((unat a mod 4) * 16 + r) # src) =
      b64_decode_loop cap w 4 (buf @ [a]) src)"
proof -
  let ?v2 = "(unat a mod 4) * 16 + r"
  have lt: "unat a < 256" by (rule unat_u8_lt)
  have v: "unat a div 4 < 64" "?v2 < 64" using lt assms(3) by (auto simp: less_mult_imp_div_less)
  define w1 where "w1 = push_bit 6 acc + (of_nat (unat a div 4) :: u32)"
  define w2 where "w2 = push_bit 6 w1 + (of_nat ?v2 :: u32)"
  note 1 = shift_in6 [OF assms(1) v(1), folded w1_def]
  note 2 = shift_in6 [OF 1 v(2), folded w2_def, unfolded regroup(1) [OF div_mult_mod_eq]]
  have "ucast (drop_bit 4 w2 AND 0xFF) = a"
    using byte_of_shifted [OF lt assms(3), of x] by (intro octet [OF 2]) simp_all
  then have "\<forall>src. b64_decode_loop cap acc 0 buf (b64c (unat a div 4) # b64c ?v2 # src) = b64_decode_loop cap w2 4 (buf @ [a]) src"
    using assms(2) by (simp add: decode_char [OF v(1)] decode_char [OF v(2)] Let_def w1_def [symmetric] w2_def [symmetric]
        del: b64_decode_loop.simps of_nat_add of_nat_mult)
  with 2 show ?thesis by blast
qed

lemma decode_third:
  assumes "unat acc = (X * 16 + unat b div 16) mod 2 ^ 32" and "length buf < cap" and "r < 4"
  shows "\<exists>w. unat w = ((X * 256 + unat b) * 4 + r) mod 2 ^ 32 \<and>
    (\<forall>src. b64_decode_loop cap acc 4 buf (b64c ((unat b mod 16) * 4 + r) # src) = b64_decode_loop cap w 2 (buf @ [b]) src)"
proof -
  let ?v = "(unat b mod 16) * 4 + r"
  have v: "?v < 64" using assms(3) mod_less_divisor [of 16 "unat b"] by linarith
  define w where "w = push_bit 6 acc + (of_nat ?v :: u32)"
  note 1 = shift_in6 [OF assms(1) v, folded w_def, unfolded regroup(2) [OF div_mult_mod_eq]]
  have "ucast (drop_bit 2 w AND 0xFF) = b"
    using byte_of_shifted [OF unat_u8_lt [of b] assms(3), of X] by (intro octet [OF 1]) simp_all
  then have "\<forall>src. b64_decode_loop cap acc 4 buf (b64c ?v # src) = b64_decode_loop cap w 2 (buf @ [b]) src"
    using assms(2) by (simp add: decode_char [OF v] Let_def w_def [symmetric] del: b64_decode_loop.simps of_nat_add of_nat_mult)
  with 1 show ?thesis by blast
qed

lemma decode_fourth:
  assumes "unat acc = (X * 4 + unat c div 64) mod 2 ^ 32" and "length buf < cap"
  shows "\<exists>w. \<forall>src. b64_decode_loop cap acc 2 buf (b64c (unat c mod 64) # src) = b64_decode_loop cap w 0 (buf @ [c]) src"
proof -
  have v: "unat c mod 64 < 64" by simp
  define w where "w = push_bit 6 acc + (of_nat (unat c mod 64) :: u32)"
  note 1 = shift_in6 [OF assms(1) v, folded w_def, unfolded regroup(3) [OF div_mult_mod_eq]]
  have "ucast (drop_bit 0 w AND 0xFF) = c"
    using byte_of_shifted [OF unat_u8_lt [of c], of 0 1 X] by (intro octet [OF 1]) simp_all
  then have "\<forall>src. b64_decode_loop cap acc 2 buf (b64c (unat c mod 64) # src) = b64_decode_loop cap w 0 (buf @ [c]) src"
    using assms(2) by (simp add: decode_char [OF v] Let_def w_def [symmetric] del: b64_decode_loop.simps of_nat_add of_nat_mult)
  then show ?thesis by blast
qed

fun triples :: "'a list \<Rightarrow> bool" where
  "triples [] = True" | "triples [a] = True" | "triples [a, b] = True" | "triples (a # b # c # xs) = triples xs"

lemma and_low_zero:
  fixes w :: u32
  assumes "unat w = (y * 2 ^ m) mod 2 ^ 32" and "m \<le> 4"
  shows "w AND (push_bit m 1 - 1) = 0"
proof -
  have "unat w mod 2 ^ m = 0"
    using assms le_imp_power_dvd [of m 32 "2 :: nat"] by (simp add: mod_mod_cancel)
  moreover have "w AND (push_bit m 1 - 1) = take_bit m w"
    by (simp add: take_bit_eq_mask mask_eq_exp_minus_1 push_bit_eq_mult)
  moreover have "unat (take_bit m w) = take_bit m (unat w)" by (rule unsigned_take_bit_eq)
  ultimately show ?thesis by (simp add: unat_eq_0 [symmetric] take_bit_eq_mod [of m "unat w"])
qed

lemma decode_encode_loop:
  assumes "length buf + length bs \<le> cap" and "b64_stops rest"
  shows "\<exists>w m. b64_decode_loop cap acc 0 buf (b64_encode_loop acc' 0 bs @ rest) = Some (buf @ bs, w, m, rest)
    \<and> m \<le> 4 \<and> w AND (push_bit m 1 - 1) = 0"
  using assms
proof (induction bs arbitrary: acc acc' buf rule: triples.induct)
  case 1
  then show ?case by (simp add: decode_stop)
next
  case (2 a)
  have "unat acc = unat acc mod 2 ^ 32" using unat_u32_lt [of acc] by simp
  from decode_pair [OF this, of buf cap 0 a] obtain w where
    w: "unat w = ((unat acc * 256 + unat a) * 2 ^ 4) mod 2 ^ 32"
    "\<forall>src. b64_decode_loop cap acc 0 buf (b64c (unat a div 4) # b64c ((unat a mod 4) * 16) # src) = b64_decode_loop cap w 4 (buf @ [a]) src"
    using 2 by (auto simp del: b64_decode_loop.simps)
  then show ?case using and_low_zero [OF w(1)] 2
    by (simp add: decode_stop encode_end1 del: b64_decode_loop.simps b64_encode_loop.simps)
next
  case (3 a b)
  have "unat acc = unat acc mod 2 ^ 32" using unat_u32_lt [of acc] by simp
  from decode_pair [OF this, of buf cap "unat b div 16" a] obtain w where
    w: "unat w = ((unat acc * 256 + unat a) * 16 + unat b div 16) mod 2 ^ 32"
    "\<forall>src. b64_decode_loop cap acc 0 buf (b64c (unat a div 4) # b64c ((unat a mod 4) * 16 + unat b div 16) # src) =
       b64_decode_loop cap w 4 (buf @ [a]) src"
    using 3 unat_u8_lt [of b] by (auto simp: less_mult_imp_div_less simp del: b64_decode_loop.simps)
  from decode_third [OF w(1), of "buf @ [a]" cap 0] obtain v where
    v: "unat v = ((unat acc * 256 + unat a) * 256 + unat b) * 2 ^ 2 mod 2 ^ 32"
    "\<forall>src. b64_decode_loop cap w 4 (buf @ [a]) (b64c ((unat b mod 16) * 4) # src) = b64_decode_loop cap v 2 (buf @ [a, b]) src"
    using 3 by (auto simp del: b64_decode_loop.simps)
  show ?case using and_low_zero [OF v(1)] w(2) v(2) 3
    by (simp add: encode_end2 decode_stop del: b64_decode_loop.simps b64_encode_loop.simps)
next
  case (4 a b c bs)
  obtain acc'' where enc: "b64_encode_loop acc' 0 (a # b # c # bs) =
     b64c (unat a div 4) # b64c ((unat a mod 4) * 16 + unat b div 16) # b64c ((unat b mod 16) * 4 + unat c div 64)
     # b64c (unat c mod 64) # b64_encode_loop acc'' 0 bs"
    using encode_group by blast
  have "unat acc = unat acc mod 2 ^ 32" using unat_u32_lt [of acc] by simp
  from decode_pair [OF this, of buf cap "unat b div 16" a] obtain w where
    w: "unat w = ((unat acc * 256 + unat a) * 16 + unat b div 16) mod 2 ^ 32"
    "\<forall>src. b64_decode_loop cap acc 0 buf (b64c (unat a div 4) # b64c ((unat a mod 4) * 16 + unat b div 16) # src) =
       b64_decode_loop cap w 4 (buf @ [a]) src"
    using 4 unat_u8_lt [of b] by (auto simp: less_mult_imp_div_less simp del: b64_decode_loop.simps)
  from decode_third [OF w(1), of "buf @ [a]" cap "unat c div 64"] obtain v where
    v: "unat v = (((unat acc * 256 + unat a) * 256 + unat b) * 4 + unat c div 64) mod 2 ^ 32"
    "\<forall>src. b64_decode_loop cap w 4 (buf @ [a]) (b64c ((unat b mod 16) * 4 + unat c div 64) # src) =
       b64_decode_loop cap v 2 (buf @ [a, b]) src"
    using 4 unat_u8_lt [of c] by (auto simp: less_mult_imp_div_less simp del: b64_decode_loop.simps)
  from decode_fourth [OF v(1), of "buf @ [a, b]" cap] obtain u where
    u: "\<forall>src. b64_decode_loop cap v 2 (buf @ [a, b]) (b64c (unat c mod 64) # src) = b64_decode_loop cap u 0 (buf @ [a, b, c]) src"
    using 4 by (auto simp del: b64_decode_loop.simps)
  show ?case
    using 4(1) [of "buf @ [a, b, c]" u acc''] 4(2,3) w(2) v(2) u
    by (simp add: enc del: b64_decode_loop.simps b64_encode_loop.simps)
qed

section \<open>Round trip\<close>

text \<open>The capacity only decides whether the bytes fit.\<close>

lemma decode_loop_grows: "b64_decode_loop cap acc m buf s = Some (buf', x) \<Longrightarrow> length buf \<le> length buf'"
proof (induction cap acc m buf s rule: b64_decode_loop.induct)
  case (2 cap acc m buf c src)
  note IH = 2(1) [OF refl _ refl refl _ refl] 2(2) [OF refl _ refl refl]
  show ?case
    using 2(3) IH by (auto simp: Let_def split: if_splits)
qed simp

lemma decode_loop_capacity:
  "b64_decode_loop cap acc m buf s = Some (buf', x) \<Longrightarrow> length buf \<le> cap' \<Longrightarrow>
    b64_decode_loop cap' acc m buf s = (if length buf' \<le> cap' then Some (buf', x) else None)"
proof (induction cap acc m buf s rule: b64_decode_loop.induct)
  case (2 cap acc m buf c src)
  then show ?case
    using decode_loop_grows [of cap _ _ _ src buf' x] by (fastforce simp: Let_def split: if_splits)
qed auto

lemma length_encode_loop: "length (b64_encode_loop acc 0 bs) = b64_olen (length bs)"
proof (induction bs arbitrary: acc rule: triples.induct)
  case (4 a b c bs)
  have "b64_olen (Suc (Suc (Suc (length bs)))) = 4 + b64_olen (length bs)"
    by (simp add: b64_olen_def div_add_self1 [of 3 "length bs", simplified] numeral_3_eq_3 [symmetric])
  then show ?case using encode_group [of acc a b c bs] 4 by (auto simp del: b64_encode_loop.simps)
qed (simp_all add: encode_end1 encode_end2 b64_olen_def del: b64_encode_loop.simps(2))

lemma from_base64_encoded:
  assumes "b64_stops rest"
  shows "from_base64 cap (b64_encode_loop 0 0 bs @ rest) = (if length bs \<le> cap then Some (bs, rest) else None)"
proof -
  obtain w m where D: "b64_decode_loop (length bs) 0 0 [] (b64_encode_loop 0 0 bs @ rest) = Some (bs, w, m, rest)"
    and ok: "m \<le> 4" "w AND (push_bit m 1 - 1) = 0"
    using decode_encode_loop [of "[]" bs "length bs" rest 0 0] assms by auto
  have "b64_decode_loop cap 0 0 [] (b64_encode_loop 0 0 bs @ rest) =
      (if length bs \<le> cap then Some (bs, w, m, rest) else None)"
    using decode_loop_capacity [OF D] by simp
  then show ?thesis using ok by (simp add: from_base64_def)
qed

text \<open>Encoding succeeds exactly when the buffer has room for the characters and the terminating zero;
  it writes \<open>b64_olen\<close> characters; and decoding them, followed by any text that does not go on with a
  Base64 character, gives back the bytes and the rest, or fails when the bytes do not fit the target.\<close>

theorem base64_roundtrip:
  assumes "b64_stops rest"
  shows "(to_base64 dst_len bs (length bs) = None \<longleftrightarrow> dst_len \<le> b64_olen (length bs))
    \<and> (\<forall>s. to_base64 dst_len bs (length bs) = Some s \<longrightarrow> length s = b64_olen (length bs)
         \<and> from_base64 cap (s @ rest) = (if length bs \<le> cap then Some (bs, rest) else None))"
  using from_base64_encoded [OF assms] by (auto simp: to_base64_def length_encode_loop)

theorem base64_roundtrip_witness:
  "from_base64 8 (the (to_base64 9 [0, 0xFF, 0x10, 0x83, 0x61] 5) @ ''$x'') = Some ([0, 0xFF, 0x10, 0x83, 0x61], ''$x'')"
proof -
  have "b64_stops ''$x''"
    by (simp add: b64_stops_def b64_char_to_byte_def ct_small Let_def char_value_def)
  moreover have L: "length [0, 0xFF, 0x10, 0x83, 0x61 :: u8] = 5" by simp
  ultimately have R: "(to_base64 9 [0, 0xFF, 0x10, 0x83, 0x61] 5 = None \<longleftrightarrow> (9 :: nat) \<le> b64_olen 5)
    \<and> (\<forall>s. to_base64 9 [0, 0xFF, 0x10, 0x83, 0x61] 5 = Some s \<longrightarrow> length s = b64_olen 5
         \<and> from_base64 8 (s @ ''$x'') = (if (5 :: nat) \<le> 8 then Some ([0, 0xFF, 0x10, 0x83, 0x61], ''$x'') else None))"
    using base64_roundtrip [of "''$x''" 9 "[0, 0xFF, 0x10, 0x83, 0x61]" 8] unfolding L by blast
  moreover have "\<not> (9 :: nat) \<le> b64_olen 5" by (simp add: b64_olen_def)
  ultimately obtain s where "to_base64 9 [0, 0xFF, 0x10, 0x83, 0x61] 5 = Some s" by blast
  with R show ?thesis by simp
qed

declare b64_encode_loop.simps [simp del] b64_decode_loop.simps [simp del]

end
