(* ===== verification/Ar2_Encoding.thy ===== *)
theory Ar2_Encoding
  imports Ar2_Base64
begin

text \<open>
  The encoded form \<open>$argon2id$v=19$m=...,t=...,p=...$salt$hash\<close> of a computation
  (\<open>crypto/argon2/lib/encoding.c\<close>): decimal numbers, \<open>encode_string\<close> and \<open>decode_string\<close>, and
  \<open>argon2_encodedlen\<close> of \<open>lib/argon2.c\<close>; decoding inverts encoding, and the announced length is the
  length needed.
\<close>

section \<open>Decimal numbers\<close>

abbreviation (input) "ULONG_MAX \<equiv> (18446744073709551615 :: nat)"

fun decode_decimal_loop :: "nat \<Rightarrow> string \<Rightarrow> (nat \<times> string) option" where
  "decode_decimal_loop acc [] = Some (acc, [])"
| "decode_decimal_loop acc (c # str) =
     (if \<not> is_digit c then Some (acc, c # str)
      else
        let d = of_char c - 48 in
        if acc > ULONG_MAX div 10 then None
        else let acc = acc * 10 in
             if d > ULONG_MAX - acc then None else decode_decimal_loop (acc + d) str)"

text \<open>No digit at all and superfluous leading zeros are refused.\<close>

definition decode_decimal :: "string \<Rightarrow> (nat \<times> string) option" where
  "decode_decimal orig =
     (case decode_decimal_loop 0 orig of None \<Rightarrow> None
      | Some (acc, str) \<Rightarrow>
          let used = length orig - length str in
          if used = 0 \<or> (hd orig = CHR ''0'' \<and> used \<noteq> 1) then None else Some (acc, str))"

text \<open>\<open>sprintf(tmp, "%lu", x)\<close> is \<open>show_nat\<close>.\<close>

fun numlen_loop :: "nat \<Rightarrow> nat \<Rightarrow> nat" where
  "numlen_loop len num = (if 10 \<le> num then numlen_loop (Suc len) (num div 10) else len)"

declare numlen_loop.simps [simp del]

definition numlen :: "u32 \<Rightarrow> nat" where
  "numlen num = numlen_loop 1 (unat num)"

section \<open>The encoded form\<close>

definition argon2_type2string :: "argon2_type \<Rightarrow> bool \<Rightarrow> string option" where
  "argon2_type2string ty uppercase =
     (if ty = Argon2_d then Some (if uppercase then ''Argon2d'' else ''argon2d'')
      else if ty = Argon2_i then Some (if uppercase then ''Argon2i'' else ''argon2i'')
      else if ty = Argon2_id then Some (if uppercase then ''Argon2id'' else ''argon2id'')
      else None)"

text \<open>The macros \<open>SS\<close>, \<open>SX\<close>, \<open>SB\<close> on what is written so far and the room that is left.\<close>

definition enc_SS :: "string \<Rightarrow> string \<times> nat \<Rightarrow> int + (string \<times> nat)" where
  "enc_SS str st = (case st of (out, dst_len) \<Rightarrow>
     if length str \<ge> dst_len then Inl ARGON2_ENCODING_FAIL else Inr (out @ str, dst_len - length str))"

definition enc_SX :: "u32 \<Rightarrow> string \<times> nat \<Rightarrow> int + (string \<times> nat)" where
  "enc_SX x = enc_SS (show_nat (unat x))"

definition enc_SB :: "bytes option \<Rightarrow> u32 \<Rightarrow> string \<times> nat \<Rightarrow> int + (string \<times> nat)" where
  "enc_SB buf len st = (case st of (out, dst_len) \<Rightarrow>
     (case to_base64 dst_len (the buf) (unat len) of None \<Rightarrow> Inl ARGON2_ENCODING_FAIL
      | Some s \<Rightarrow> Inr (out @ s, dst_len - length s)))"

fun enc_all :: "(string \<times> nat \<Rightarrow> int + (string \<times> nat)) list \<Rightarrow> string \<times> nat \<Rightarrow> int + (string \<times> nat)" where
  "enc_all [] st = Inr st"
| "enc_all (f # fs) st = err_bind (f st) (enc_all fs)"

definition encode_string :: "nat \<Rightarrow> argon2_context \<Rightarrow> argon2_type \<Rightarrow> int + string" where
  "encode_string dst_len c ty =
     (case argon2_type2string ty False of None \<Rightarrow> Inl ARGON2_ENCODING_FAIL
      | Some type_string \<Rightarrow>
        let validation_result = zenrx_ar2_validate_inputs (Some c) in
        if validation_result \<noteq> ARGON2_OK then Inl validation_result
        else err_bind (enc_all
               [enc_SS ''$'', enc_SS type_string, enc_SS ''$v='', enc_SX (c_version c),
                enc_SS ''$m='', enc_SX (c_m_cost c), enc_SS '',t='', enc_SX (c_t_cost c),
                enc_SS '',p='', enc_SX (c_lanes c), enc_SS ''$'', enc_SB (c_salt c) (c_saltlen c),
                enc_SS ''$'', enc_SB (c_out c) (c_outlen c)] ([], dst_len))
             (\<lambda>(out, room). Inr out))"

text \<open>The macros \<open>CC\<close>, \<open>DECIMAL_U32\<close>, \<open>BIN\<close> of the decoder.\<close>

definition dec_CC :: "string \<Rightarrow> string \<Rightarrow> int + string" where
  "dec_CC prefix str =
     (if take (length prefix) str = prefix then Inr (drop (length prefix) str) else Inl ARGON2_DECODING_FAIL)"

definition dec_U32 :: "string \<Rightarrow> int + (u32 \<times> string)" where
  "dec_U32 str =
     (case decode_decimal str of None \<Rightarrow> Inl ARGON2_DECODING_FAIL
      | Some (v, str) \<Rightarrow> if v > 0xFFFFFFFF then Inl ARGON2_DECODING_FAIL else Inr (of_nat v, str))"

definition dec_BIN :: "bytes option \<Rightarrow> nat \<Rightarrow> string \<Rightarrow> int + (bytes option \<times> u32 \<times> string)" where
  "dec_BIN buf max_len str =
     (case from_base64 max_len str of None \<Rightarrow> Inl ARGON2_DECODING_FAIL
      | Some (bs, str) \<Rightarrow>
          if length bs > 0xFFFFFFFF then Inl ARGON2_DECODING_FAIL
          else Inr (map_option (\<lambda>b. memcpy_at b 0 bs (length bs)) buf, of_nat (length bs), str))"

definition decode_string :: "argon2_context \<Rightarrow> string \<Rightarrow> argon2_type \<Rightarrow> int + argon2_context" where
  "decode_string c str ty =
     (let maxsaltlen = unat (c_saltlen c); maxoutlen = unat (c_outlen c) in
      case argon2_type2string ty False of None \<Rightarrow> Inl ARGON2_INCORRECT_TYPE
      | Some type_string \<Rightarrow>
        err_bind (dec_CC ''$'' str) (\<lambda>str.
        err_bind (dec_CC type_string str) (\<lambda>str.
        err_bind (if take 3 str = ''$v='' then dec_U32 (drop 3 str) else Inr (ARGON2_VERSION_10, str)) (\<lambda>(version, str).
        err_bind (dec_CC ''$m='' str) (\<lambda>str.
        err_bind (dec_U32 str) (\<lambda>(m_cost, str).
        err_bind (dec_CC '',t='' str) (\<lambda>str.
        err_bind (dec_U32 str) (\<lambda>(t_cost, str).
        err_bind (dec_CC '',p='' str) (\<lambda>str.
        err_bind (dec_U32 str) (\<lambda>(lanes, str).
        err_bind (dec_CC ''$'' str) (\<lambda>str.
        err_bind (dec_BIN (c_salt c) maxsaltlen str) (\<lambda>(salt, saltlen, str).
        err_bind (dec_CC ''$'' str) (\<lambda>str.
        err_bind (dec_BIN (c_out c) maxoutlen str) (\<lambda>(out, outlen, str).
        let c = c\<lparr>c_version := version, c_m_cost := m_cost, c_t_cost := t_cost, c_lanes := lanes,
                  c_threads := lanes, c_salt := salt, c_saltlen := saltlen, c_out := out, c_outlen := outlen,
                  c_secret := None, c_secretlen := 0, c_ad := None, c_adlen := 0,
                  c_allocate_cbk := None, c_free_cbk := False, c_flags := 0\<rparr>;
            validation_result = zenrx_ar2_validate_inputs (Some c)
        in if validation_result \<noteq> ARGON2_OK then Inl validation_result
           else if str = [] then Inr c else Inl ARGON2_DECODING_FAIL))))))))))))))"

section \<open>Numbers\<close>

lemma digits_value_mono: "acc \<le> digits_value acc s"
proof (induction s arbitrary: acc)
  case (Cons c s)
  have "acc \<le> 10 * acc + (of_char c - 48)" by simp
  also have "\<dots> \<le> digits_value (10 * acc + (of_char c - 48)) s" by (rule Cons)
  finally show ?case by simp
qed simp

definition dec_stops :: "string \<Rightarrow> bool" where
  "dec_stops s \<longleftrightarrow> (case s of [] \<Rightarrow> True | c # _ \<Rightarrow> \<not> is_digit c)"

lemma decode_decimal_loop_digits:
  "(\<forall>c\<in>set s. is_digit c) \<Longrightarrow> digits_value acc s \<le> ULONG_MAX \<Longrightarrow> dec_stops rest \<Longrightarrow>
    decode_decimal_loop acc (s @ rest) = Some (digits_value acc s, rest)"
proof (induction s arbitrary: acc)
  case Nil
  then show ?case by (cases rest) (simp_all add: dec_stops_def)
next
  case (Cons c s)
  define d where "d = of_char c - (48 :: nat)"
  have "10 * acc + d \<le> ULONG_MAX"
    using Cons.prems digits_value_mono [of "10 * acc + d" s] by (simp add: d_def)
  then have "\<not> acc > ULONG_MAX div 10" "\<not> d > ULONG_MAX - acc * 10" by linarith+
  then show ?case
    using Cons by (simp add: d_def [symmetric] mult.commute)
qed

lemma show_nat_zero: "hd (show_nat n) = CHR ''0'' \<longleftrightarrow> n = 0"
proof (induction n rule: show_nat.induct)
  case (1 n)
  show ?case
  proof (cases "n < 10")
    case True
    have "char_of (48 + n) = CHR ''0'' \<longleftrightarrow> n = 0"
      using of_char_digit [OF True] of_char_eq_iff [of "char_of (48 + n)" "CHR ''0''", where ?'a = nat] by simp
    then show ?thesis using True by (subst show_nat.simps) simp
  next
    case False
    then show ?thesis using 1 show_nat_nonempty [of "n div 10"] by (subst show_nat.simps) simp
  qed
qed

lemma decode_decimal_show_nat:
  assumes "n \<le> ULONG_MAX" and "dec_stops rest"
  shows "decode_decimal (show_nat n @ rest) = Some (n, rest)"
proof -
  have "decode_decimal_loop 0 (show_nat n @ rest) = Some (n, rest)"
    using decode_decimal_loop_digits [OF show_nat_digits, of 0 n rest] assms by (simp add: digits_value_show_nat)
  moreover have "show_nat n \<noteq> []" by (rule show_nat_nonempty)
  moreover have "hd (show_nat n) = CHR ''0'' \<Longrightarrow> length (show_nat n) = 1"
    using show_nat.simps [of 0] by (simp only: show_nat_zero) simp
  ultimately show ?thesis by (simp add: decode_decimal_def)
qed

lemma numlen_loop_show_nat: "numlen_loop (Suc k) n = k + length (show_nat n)"
proof (induction n arbitrary: k rule: show_nat.induct)
  case (1 n)
  then show ?case
    by (subst numlen_loop.simps, subst show_nat.simps) (use 1 in simp)
qed

lemma numlen_show_nat: "numlen x = length (show_nat (unat x))"
  by (simp add: numlen_def numlen_loop_show_nat [of 0, simplified])

section \<open>Writing the encoded form\<close>

text \<open>A macro that appends a piece of text of its own.\<close>

definition writes :: "string \<Rightarrow> (string \<times> nat \<Rightarrow> int + (string \<times> nat)) \<Rightarrow> bool" where
  "writes s f \<longleftrightarrow> (\<forall>out room. f (out, room) =
     (if room \<le> length s then Inl ARGON2_ENCODING_FAIL else Inr (out @ s, room - length s)))"

lemma writes_SS: "writes s (enc_SS s)"
  by (simp add: writes_def enc_SS_def)

lemma writes_SX: "writes (show_nat (unat x)) (enc_SX x)"
  by (simp add: enc_SX_def writes_SS)

lemma writes_SB: "unat n = length bs \<Longrightarrow> writes (b64_encode_loop 0 0 bs) (enc_SB (Some bs) n)"
  by (auto simp: writes_def enc_SB_def to_base64_def length_encode_loop)

lemmas writes_all = writes_SS writes_SX writes_SB

lemma enc_all_writes:
  "list_all2 writes ss fs \<Longrightarrow> 0 < room \<Longrightarrow>
    enc_all fs (out, room) = (if room \<le> length (concat ss) then Inl ARGON2_ENCODING_FAIL
      else Inr (out @ concat ss, room - length (concat ss)))"
proof (induction ss fs arbitrary: out room rule: list_all2_induct)
  case (Cons s ss f fs)
  then show ?case by (cases "room \<le> length s") (auto simp: writes_def)
qed simp

text \<open>The text of the encoded form.\<close>

definition encoded_text :: "argon2_context \<Rightarrow> argon2_type \<Rightarrow> bytes \<Rightarrow> bytes \<Rightarrow> string" where
  "encoded_text c ty salt out = ''$'' @ the (argon2_type2string ty False) @ ''$v='' @ show_nat (unat (c_version c))
     @ ''$m='' @ show_nat (unat (c_m_cost c)) @ '',t='' @ show_nat (unat (c_t_cost c))
     @ '',p='' @ show_nat (unat (c_lanes c)) @ ''$'' @ b64_encode_loop 0 0 salt @ ''$'' @ b64_encode_loop 0 0 out"

lemma encode_string_text:
  assumes "zenrx_ar2_validate_inputs (Some c) = ARGON2_OK" and "argon2_type2string ty False \<noteq> None"
    and "c_salt c = Some salt" and "unat (c_saltlen c) = length salt"
    and "c_out c = Some out" and "unat (c_outlen c) = length out"
  shows "encode_string dst_len c ty =
    (if dst_len \<le> length (encoded_text c ty salt out) then Inl ARGON2_ENCODING_FAIL else Inr (encoded_text c ty salt out))"
proof -
  obtain ts where ts: "argon2_type2string ty False = Some ts" using assms(2) by blast
  let ?ss = "[''$'', ts, ''$v='', show_nat (unat (c_version c)), ''$m='', show_nat (unat (c_m_cost c)), '',t='',
     show_nat (unat (c_t_cost c)), '',p='', show_nat (unat (c_lanes c)), ''$'', b64_encode_loop 0 0 salt,
     ''$'', b64_encode_loop 0 0 out]"
  let ?fs = "[enc_SS ''$'', enc_SS ts, enc_SS ''$v='', enc_SX (c_version c),
                enc_SS ''$m='', enc_SX (c_m_cost c), enc_SS '',t='', enc_SX (c_t_cost c),
                enc_SS '',p='', enc_SX (c_lanes c), enc_SS ''$'', enc_SB (c_salt c) (c_saltlen c),
                enc_SS ''$'', enc_SB (c_out c) (c_outlen c)]"
  have W: "list_all2 writes ?ss ?fs" using assms(3-6) by (simp add: writes_all)
  have T: "encoded_text c ty salt out = concat ?ss" by (simp add: encoded_text_def ts)
  have E: "encode_string dst_len c ty = err_bind (enc_all ?fs ([], dst_len)) (\<lambda>(out, room). Inr out)"
    using assms(1) by (simp add: encode_string_def ts)
  show ?thesis
  proof (cases "dst_len = 0")
    case True
    then show ?thesis unfolding E by (simp add: enc_SS_def)
  next
    case False
    then show ?thesis unfolding E T using enc_all_writes [OF W, of dst_len "[]"] by simp
  qed
qed

section \<open>Reading the encoded form\<close>

lemma dec_CC_append: "dec_CC p (p @ s) = Inr s"
  by (simp add: dec_CC_def)

lemma dec_U32_show: "dec_stops rest \<Longrightarrow> dec_U32 (show_nat (unat x) @ rest) = Inr (x, rest)"
  using unat_u32_lt [of x] by (simp add: dec_U32_def decode_decimal_show_nat)

lemma dec_BIN_encoded:
  assumes "b64_stops rest" and "length bs \<le> cap" and "cap < 2 ^ 32"
  shows "dec_BIN buf cap (b64_encode_loop 0 0 bs @ rest) =
    Inr (map_option (\<lambda>b. memcpy_at b 0 bs (length bs)) buf, of_nat (length bs), rest)"
  using assms by (simp add: dec_BIN_def from_base64_encoded)

lemma stops_punctuation:
  "dec_stops (''$'' @ s)" "dec_stops (''$m='' @ s)" "dec_stops ('',t='' @ s)" "dec_stops ('',p='' @ s)"
  "b64_stops (''$'' @ s)" "b64_stops []"
  by (simp_all add: dec_stops_def is_digit_def b64_stops_def b64_char_to_byte_def ct_small Let_def char_value_def)

lemma take_version: "take 3 (''$v='' @ s) = ''$v=''" "drop 3 (''$v='' @ s) = s"
  by simp_all

text \<open>The context a decoder fills in.\<close>

definition decoded_context :: "argon2_context \<Rightarrow> argon2_context \<Rightarrow> bytes \<Rightarrow> bytes \<Rightarrow> argon2_context" where
  "decoded_context d c salt out =
     d\<lparr>c_version := c_version c, c_m_cost := c_m_cost c, c_t_cost := c_t_cost c, c_lanes := c_lanes c,
       c_threads := c_lanes c, c_salt := map_option (\<lambda>b. memcpy_at b 0 salt (length salt)) (c_salt d),
       c_saltlen := of_nat (length salt), c_out := map_option (\<lambda>b. memcpy_at b 0 out (length out)) (c_out d),
       c_outlen := of_nat (length out), c_secret := None, c_secretlen := 0, c_ad := None, c_adlen := 0,
       c_allocate_cbk := None, c_free_cbk := False, c_flags := 0\<rparr>"

lemma none_larger: "\<not> (0xFFFFFFFF :: u32) < w"
  using unat_u32_lt [of w] by (simp add: word_less_nat_alt)

lemma validate_decoded:
  assumes "zenrx_ar2_validate_inputs (Some c) = ARGON2_OK" and "unat (c_saltlen c) = length salt"
    and "c_salt d \<noteq> None" and "c_pwd d = None \<longrightarrow> c_pwdlen d = 0"
  shows "zenrx_ar2_validate_inputs (Some (decoded_context d c salt out)) = ARGON2_OK"
proof -
  have "of_nat (length salt) = c_saltlen c" using assms(2) [symmetric] by simp
  then show ?thesis
    using assms(1,3,4) unfolding zenrx_ar2_validate_inputs_def option.case decoded_context_def
    by (auto simp: none_larger split: if_splits)
qed

lemma decode_encoded_text:
  assumes "zenrx_ar2_validate_inputs (Some c) = ARGON2_OK" and "argon2_type2string ty False \<noteq> None"
    and "unat (c_saltlen c) = length salt" and "unat (c_outlen c) = length out"
    and "c_salt d \<noteq> None" and "c_pwd d = None \<longrightarrow> c_pwdlen d = 0"
    and "length salt \<le> unat (c_saltlen d)" and "length out \<le> unat (c_outlen d)"
  shows "decode_string d (encoded_text c ty salt out) ty = Inr (decoded_context d c salt out)"
proof -
  obtain ts where ts: "argon2_type2string ty False = Some ts" using assms(2) by blast
  note V = validate_decoded [OF assms(1,3,5,6), of out, unfolded decoded_context_def]
  have B: "dec_BIN buf (unat (c_outlen d)) (b64_encode_loop 0 0 out) =
    Inr (map_option (\<lambda>b. memcpy_at b 0 out (length out)) buf, of_nat (length out), [])" for buf
    using dec_BIN_encoded [of "[]" out "unat (c_outlen d)" buf] assms(8) unat_u32_lt [of "c_outlen d"]
    by (simp add: stops_punctuation)
  have S: "dec_BIN buf (unat (c_saltlen d)) (b64_encode_loop 0 0 salt @ ''$'' @ s) =
    Inr (map_option (\<lambda>b. memcpy_at b 0 salt (length salt)) buf, of_nat (length salt), ''$'' @ s)" for buf s
    using assms(7) unat_u32_lt [of "c_saltlen d"] by (intro dec_BIN_encoded stops_punctuation) simp_all
  show ?thesis
    unfolding decode_string_def encoded_text_def Let_def ts option.sel option.case
    by (simp only: dec_CC_append err_bind_simps take_version dec_U32_show stops_punctuation S B prod.case if_True if_False
        simp_thms V decoded_context_def)
qed

section \<open>Length and round trip\<close>

text \<open>\<open>strlen(NULL)\<close> is undefined: \<open>None\<close>.\<close>

definition argon2_encodedlen :: "u32 \<Rightarrow> u32 \<Rightarrow> u32 \<Rightarrow> u32 \<Rightarrow> u32 \<Rightarrow> argon2_type \<Rightarrow> nat option" where
  "argon2_encodedlen t_cost m_cost parallelism saltlen hashlen ty =
     map_option (\<lambda>type_string. length ''$$v=$m=,t=,p=$$'' + length type_string
         + numlen t_cost + numlen m_cost + numlen parallelism
         + b64len saltlen + b64len hashlen + numlen ARGON2_VERSION_NUMBER + 1)
       (argon2_type2string ty False)"

lemma numlen_version: "numlen 0x10 = 2" "numlen 0x13 = 2"
  by (simp_all add: numlen_def numlen_loop.simps)

text \<open>for a validated context with one of the two versions, \<open>argon2_encodedlen\<close> is exactly the size
  \<open>encode_string\<close> needs: with one byte less it reports \<open>ARGON2_ENCODING_FAIL\<close>, otherwise it writes that
  many bytes with the terminating zero.\<close>

theorem argon2_encodedlen_exact:
  assumes "zenrx_ar2_validate_inputs (Some c) = ARGON2_OK" and "c_version c = 0x10 \<or> c_version c = 0x13"
    and "c_salt c = Some salt" and "unat (c_saltlen c) = length salt"
    and "c_out c = Some out" and "unat (c_outlen c) = length out"
    and "argon2_encodedlen (c_t_cost c) (c_m_cost c) (c_lanes c) (c_saltlen c) (c_outlen c) ty = Some n"
  shows "(dst_len < n \<longrightarrow> encode_string dst_len c ty = Inl ARGON2_ENCODING_FAIL)
    \<and> (n \<le> dst_len \<longrightarrow> (\<exists>s. encode_string dst_len c ty = Inr s \<and> length s + 1 = n))"
proof -
  have ty: "argon2_type2string ty False \<noteq> None" using assms(7) by (auto simp: argon2_encodedlen_def)
  have "length (show_nat (unat (c_version c))) = 2"
    using assms(2) numlen_version by (auto simp: numlen_show_nat)
  then have "length (encoded_text c ty salt out) + 1 = n"
    using assms(4,6,7) ty numlen_version
    by (auto simp: argon2_encodedlen_def encoded_text_def numlen_show_nat b64len_def length_encode_loop)
  then show ?thesis
    unfolding encode_string_text [OF assms(1) ty assms(3-6)] by auto
qed

theorem argon2_encodedlen_exact_witness:
  "encode_string 83 demo_context Argon2_id = Inl ARGON2_ENCODING_FAIL"
proof -
  have "argon2_encodedlen (c_t_cost demo_context) (c_m_cost demo_context) (c_lanes demo_context)
     (c_saltlen demo_context) (c_outlen demo_context) Argon2_id = Some 84"
    by (simp add: argon2_encodedlen_def demo_context_def argon2_type2string_def numlen_def numlen_loop.simps
        b64len_def b64_olen_def)
  from argon2_encodedlen_exact [OF demo_context_ok(1) _ _ _ _ _ this] show ?thesis
    by (simp add: demo_context_def)
qed

text \<open>C30: decoding what \<open>encode_string\<close> wrote for a validated context succeeds and gives back version,
  costs, lanes, salt and hash; the number of threads becomes the number of lanes, secret and
  associated data are dropped, and the password of the target context is untouched.\<close>

theorem encoded_form_roundtrip:
  assumes "zenrx_ar2_validate_inputs (Some c) = ARGON2_OK"
    and "c_salt c = Some salt" and "unat (c_saltlen c) = length salt"
    and "c_out c = Some out" and "unat (c_outlen c) = length out"
    and "encode_string dst_len c ty = Inr s"
    and "c_salt d \<noteq> None" and "c_pwd d = None \<longrightarrow> c_pwdlen d = 0"
    and "length salt \<le> unat (c_saltlen d)" and "length out \<le> unat (c_outlen d)"
  shows "decode_string d s ty = Inr (decoded_context d c salt out)
    \<and> length s < dst_len"
proof -
  have ty: "argon2_type2string ty False \<noteq> None"
    using assms(6) by (auto simp: encode_string_def split: option.splits)
  have s: "s = encoded_text c ty salt out" "length s < dst_len"
    using assms(6) unfolding encode_string_text [OF assms(1) ty assms(2-5)] by (auto split: if_splits)
  show ?thesis
    unfolding s(1) using s decode_encoded_text [OF assms(1) ty assms(3,5,7-10)] by simp
qed

theorem encoded_form_roundtrip_witness:
  "\<exists>s. encode_string 84 demo_context Argon2_id = Inr s
    \<and> decode_string (demo_context\<lparr>c_pwd := None, c_pwdlen := 0, c_lanes := 9\<rparr>) s Argon2_id =
      Inr (decoded_context (demo_context\<lparr>c_pwd := None, c_pwdlen := 0, c_lanes := 9\<rparr>) demo_context
            [1, 2, 3, 4, 5, 6, 7, 8] (replicate 32 0))"
proof -
  let ?salt = "[1, 2, 3, 4, 5, 6, 7, 8] :: bytes" and ?out = "replicate 32 0 :: bytes"
  have C: "c_salt demo_context = Some ?salt" "unat (c_saltlen demo_context) = length ?salt"
    "c_out demo_context = Some ?out" "unat (c_outlen demo_context) = length ?out"
    by (simp_all add: demo_context_def)
  have "length (encoded_text demo_context Argon2_id ?salt ?out) = 83"
    by (simp add: encoded_text_def demo_context_def argon2_type2string_def length_encode_loop b64_olen_def show_nat.simps)
  then have E: "encode_string 84 demo_context Argon2_id = Inr (encoded_text demo_context Argon2_id ?salt ?out)"
    using encode_string_text [OF demo_context_ok(1) _ C, of Argon2_id 84] by (simp add: argon2_type2string_def)
  show ?thesis
    using E encoded_form_roundtrip [OF demo_context_ok(1) C E, of "demo_context\<lparr>c_pwd := None, c_pwdlen := 0, c_lanes := 9\<rparr>"]
    by (simp add: demo_context_def)
qed

end
