(* ===== verification/Ar2_Api.thy ===== *)
theory Ar2_Api
  imports Ar2_Encoding
begin

text \<open>
  The public functions of \<open>crypto/argon2/lib/argon2.c\<close>: \<open>argon2_hash\<close> with its wrappers,
  \<open>argon2id_hash_raw_ex\<close>, the constant-time comparison, \<open>argon2_verify\<close> and \<open>argon2_verify_ctx\<close> with
  theirs, and the error messages.  The \<open>malloc\<close> of a byte buffer is \<open>mb\<close>, that of the blocks is
  \<open>malloc\<close>.  Of the encoded form the model returns the text, \<open>None\<close> where none is written.
\<close>

section \<open>Hashing\<close>

text \<open>The context the API functions build.\<close>

definition api_context ::
  "bytes option \<Rightarrow> nat \<Rightarrow> bytes option \<Rightarrow> nat \<Rightarrow> bytes option \<Rightarrow> nat \<Rightarrow> u32 \<Rightarrow> u32 \<Rightarrow> u32 \<Rightarrow> u32 \<Rightarrow> argon2_context" where
  "api_context out hashlen pwd pwdlen salt saltlen t_cost m_cost parallelism version =
     \<lparr>c_out = out, c_outlen = of_nat hashlen, c_pwd = pwd, c_pwdlen = of_nat pwdlen,
      c_salt = salt, c_saltlen = of_nat saltlen, c_secret = None, c_secretlen = 0, c_ad = None, c_adlen = 0,
      c_t_cost = t_cost, c_m_cost = m_cost, c_lanes = parallelism, c_threads = parallelism, c_version = version,
      c_allocate_cbk = None, c_free_cbk = False, c_flags = 0\<rparr>"

text \<open>Status, the caller's hash buffer, and the encoded text.\<close>

definition argon2_hash ::
  "ar2_locals \<Rightarrow> (nat \<Rightarrow> bytes option) \<Rightarrow> (nat \<Rightarrow> ar_memory option) \<Rightarrow> u32 \<Rightarrow> u32 \<Rightarrow> u32 \<Rightarrow> bytes option \<Rightarrow> nat \<Rightarrow>
     bytes option \<Rightarrow> nat \<Rightarrow> bytes option \<Rightarrow> nat \<Rightarrow> bool \<Rightarrow> nat \<Rightarrow> argon2_type \<Rightarrow> u32 \<Rightarrow>
     (int \<times> bytes option \<times> string option) option" where
  "argon2_hash loc mb malloc t_cost m_cost parallelism pwd pwdlen salt saltlen hash hashlen encoded encodedlen ty version =
     (if pwdlen > 0xFFFFFFFF then Some (ARGON2_PWD_TOO_LONG, hash, None)
      else if saltlen > 0xFFFFFFFF then Some (ARGON2_SALT_TOO_LONG, hash, None)
      else if hashlen > 0xFFFFFFFF then Some (ARGON2_OUTPUT_TOO_LONG, hash, None)
      else if hashlen < 4 then Some (ARGON2_OUTPUT_TOO_SHORT, hash, None)
      else case mb hashlen of None \<Rightarrow> Some (ARGON2_MEMORY_ALLOCATION_ERROR, hash, None)
      | Some out \<Rightarrow> do {
          (result, context, _) \<leftarrow> argon2_ctx loc malloc
             (api_context (Some out) hashlen pwd pwdlen salt saltlen t_cost m_cost parallelism version) ty;
          if result \<noteq> ARGON2_OK then Some (result, hash, None)
          else
            let hash = map_option (\<lambda>h. memcpy_at h 0 (the (c_out context)) hashlen) hash in
            if encoded \<and> encodedlen \<noteq> 0
            then case encode_string encodedlen context ty of
                Inl e \<Rightarrow> Some (ARGON2_ENCODING_FAIL, hash, None)
              | Inr s \<Rightarrow> Some (ARGON2_OK, hash, Some s)
            else Some (ARGON2_OK, hash, None) })"

definition argon2i_hash_encoded where
  "argon2i_hash_encoded loc mb malloc t_cost m_cost parallelism pwd pwdlen salt saltlen hashlen encoded encodedlen =
     argon2_hash loc mb malloc t_cost m_cost parallelism pwd pwdlen salt saltlen None hashlen encoded encodedlen
       Argon2_i ARGON2_VERSION_NUMBER"

definition argon2i_hash_raw where
  "argon2i_hash_raw loc mb malloc t_cost m_cost parallelism pwd pwdlen salt saltlen hash hashlen =
     argon2_hash loc mb malloc t_cost m_cost parallelism pwd pwdlen salt saltlen hash hashlen False 0
       Argon2_i ARGON2_VERSION_NUMBER"

definition argon2d_hash_encoded where
  "argon2d_hash_encoded loc mb malloc t_cost m_cost parallelism pwd pwdlen salt saltlen hashlen encoded encodedlen =
     argon2_hash loc mb malloc t_cost m_cost parallelism pwd pwdlen salt saltlen None hashlen encoded encodedlen
       Argon2_d ARGON2_VERSION_NUMBER"

definition argon2d_hash_raw where
  "argon2d_hash_raw loc mb malloc t_cost m_cost parallelism pwd pwdlen salt saltlen hash hashlen =
     argon2_hash loc mb malloc t_cost m_cost parallelism pwd pwdlen salt saltlen hash hashlen False 0
       Argon2_d ARGON2_VERSION_NUMBER"

definition argon2id_hash_encoded where
  "argon2id_hash_encoded loc mb malloc t_cost m_cost parallelism pwd pwdlen salt saltlen hashlen encoded encodedlen =
     argon2_hash loc mb malloc t_cost m_cost parallelism pwd pwdlen salt saltlen None hashlen encoded encodedlen
       Argon2_id ARGON2_VERSION_NUMBER"

definition argon2id_hash_raw where
  "argon2id_hash_raw loc mb malloc t_cost m_cost parallelism pwd pwdlen salt saltlen hash hashlen =
     argon2_hash loc mb malloc t_cost m_cost parallelism pwd pwdlen salt saltlen hash hashlen False 0
       Argon2_id ARGON2_VERSION_NUMBER"

text \<open>The memory size \<open>m_cost * 1024\<close> is a product of 32-bit numbers.\<close>

definition argon2id_hash_raw_ex ::
  "ar2_locals \<Rightarrow> (nat \<Rightarrow> ar_memory option) \<Rightarrow> u32 \<Rightarrow> u32 \<Rightarrow> u32 \<Rightarrow> bytes option \<Rightarrow> nat \<Rightarrow> bytes option \<Rightarrow> nat \<Rightarrow>
     bytes option \<Rightarrow> nat \<Rightarrow> ar_memory option \<Rightarrow> (int \<times> argon2_context \<times> ar_memory option) option" where
  "argon2id_hash_raw_ex loc malloc t_cost m_cost parallelism pwd pwdlen salt saltlen hash hashlen memory =
     argon2_ctx_mem loc malloc
       (api_context hash hashlen pwd pwdlen salt saltlen t_cost m_cost parallelism ARGON2_VERSION_NUMBER)
       Argon2_id memory (unat (m_cost * 1024))"

section \<open>Verification\<close>

text \<open>\<open>d\<close> is an \<open>unsigned char\<close>; \<open>d - 1\<close> and the shift are computed in \<open>int\<close>.\<close>

definition argon2_compare :: "bytes \<Rightarrow> bytes \<Rightarrow> nat \<Rightarrow> int" where
  "argon2_compare b1 b2 len =
     (let d = fold (\<lambda>i d. d OR (b1 ! i XOR b2 ! i)) [0..<len] (0 :: u8)
      in (1 AND drop_bit 8 (uint d - 1)) - 1)"

definition argon2_verify_ctx ::
  "ar2_locals \<Rightarrow> (nat \<Rightarrow> ar_memory option) \<Rightarrow> argon2_context \<Rightarrow> bytes \<Rightarrow> argon2_type \<Rightarrow> (int \<times> argon2_context) option" where
  "argon2_verify_ctx loc malloc context hash ty = do {
     (ret, context, _) \<leftarrow> argon2_ctx loc malloc context ty;
     if ret \<noteq> ARGON2_OK then Some (ret, context)
     else if argon2_compare hash (the (c_out context)) (unat (c_outlen context)) \<noteq> 0
     then Some (ARGON2_VERIFY_MISMATCH, context)
     else Some (ARGON2_OK, context) }"

text \<open>\<open>ctx\<close> holds the uninitialised local of the function.\<close>

definition argon2_verify ::
  "argon2_context \<Rightarrow> ar2_locals \<Rightarrow> (nat \<Rightarrow> bytes option) \<Rightarrow> (nat \<Rightarrow> ar_memory option) \<Rightarrow> string option \<Rightarrow>
     bytes option \<Rightarrow> nat \<Rightarrow> argon2_type \<Rightarrow> int option" where
  "argon2_verify ctx loc mb malloc encoded pwd pwdlen ty =
     (if pwdlen > 0xFFFFFFFF then Some ARGON2_PWD_TOO_LONG
      else case encoded of None \<Rightarrow> Some ARGON2_DECODING_FAIL
      | Some str \<Rightarrow>
          if length str > 0xFFFFFFFF then Some ARGON2_DECODING_FAIL
          else
            let ctx = ctx\<lparr>c_saltlen := of_nat (length str), c_outlen := of_nat (length str)\<rparr>;
                ctx = ctx\<lparr>c_salt := mb (unat (c_saltlen ctx)), c_out := mb (unat (c_outlen ctx))\<rparr>
            in if c_salt ctx = None \<or> c_out ctx = None then Some ARGON2_MEMORY_ALLOCATION_ERROR
               else
                 let ctx = ctx\<lparr>c_pwd := pwd, c_pwdlen := of_nat pwdlen\<rparr>
                 in case decode_string ctx str ty of Inl ret \<Rightarrow> Some ret
                    | Inr ctx \<Rightarrow>
                        let desired_result = the (c_out ctx);
                            ctx = ctx\<lparr>c_out := mb (unat (c_outlen ctx))\<rparr>
                        in if c_out ctx = None then Some ARGON2_MEMORY_ALLOCATION_ERROR
                           else map_option fst (argon2_verify_ctx loc malloc ctx desired_result ty))"

definition argon2i_verify where
  "argon2i_verify ctx loc mb malloc encoded pwd pwdlen = argon2_verify ctx loc mb malloc encoded pwd pwdlen Argon2_i"

definition argon2d_verify where
  "argon2d_verify ctx loc mb malloc encoded pwd pwdlen = argon2_verify ctx loc mb malloc encoded pwd pwdlen Argon2_d"

definition argon2id_verify where
  "argon2id_verify ctx loc mb malloc encoded pwd pwdlen = argon2_verify ctx loc mb malloc encoded pwd pwdlen Argon2_id"

definition argon2d_ctx where "argon2d_ctx loc malloc context = argon2_ctx loc malloc context Argon2_d"
definition argon2i_ctx where "argon2i_ctx loc malloc context = argon2_ctx loc malloc context Argon2_i"
definition argon2id_ctx where "argon2id_ctx loc malloc context = argon2_ctx loc malloc context Argon2_id"

definition argon2d_verify_ctx where
  "argon2d_verify_ctx loc malloc context hash = argon2_verify_ctx loc malloc context hash Argon2_d"

definition argon2i_verify_ctx where
  "argon2i_verify_ctx loc malloc context hash = argon2_verify_ctx loc malloc context hash Argon2_i"

definition argon2id_verify_ctx where
  "argon2id_verify_ctx loc malloc context hash = argon2_verify_ctx loc malloc context hash Argon2_id"

section \<open>Error messages\<close>

definition argon2_error_message :: "int \<Rightarrow> string" where
  "argon2_error_message error_code =
     (if error_code = ARGON2_OK then ''OK''
      else if error_code = ARGON2_OUTPUT_PTR_NULL then ''Output pointer is NULL''
      else if error_code = ARGON2_OUTPUT_TOO_SHORT then ''Output is too short''
      else if error_code = ARGON2_OUTPUT_TOO_LONG then ''Output is too long''
      else if error_code = ARGON2_PWD_TOO_SHORT then ''Password is too short''
      else if error_code = ARGON2_PWD_TOO_LONG then ''Password is too long''
      else if error_code = ARGON2_SALT_TOO_SHORT then ''Salt is too short''
      else if error_code = ARGON2_SALT_TOO_LONG then ''Salt is too long''
      else if error_code = ARGON2_AD_TOO_SHORT then ''Associated data is too short''
      else if error_code = ARGON2_AD_TOO_LONG then ''Associated data is too long''
      else if error_code = ARGON2_SECRET_TOO_SHORT then ''Secret is too short''
      else if error_code = ARGON2_SECRET_TOO_LONG then ''Secret is too long''
      else if error_code = ARGON2_TIME_TOO_SMALL then ''Time cost is too small''
      else if error_code = ARGON2_TIME_TOO_LARGE then ''Time cost is too large''
      else if error_code = ARGON2_MEMORY_TOO_LITTLE then ''Memory cost is too small''
      else if error_code = ARGON2_MEMORY_TOO_MUCH then ''Memory cost is too large''
      else if error_code = ARGON2_LANES_TOO_FEW then ''Too few lanes''
      else if error_code = ARGON2_LANES_TOO_MANY then ''Too many lanes''
      else if error_code = ARGON2_PWD_PTR_MISMATCH then ''Password pointer is NULL, but password length is not 0''
      else if error_code = ARGON2_SALT_PTR_MISMATCH then ''Salt pointer is NULL, but salt length is not 0''
      else if error_code = ARGON2_SECRET_PTR_MISMATCH then ''Secret pointer is NULL, but secret length is not 0''
      else if error_code = ARGON2_AD_PTR_MISMATCH then ''Associated data pointer is NULL, but ad length is not 0''
      else if error_code = ARGON2_MEMORY_ALLOCATION_ERROR then ''Memory allocation error''
      else if error_code = ARGON2_FREE_MEMORY_CBK_NULL then ''The free memory callback is NULL''
      else if error_code = ARGON2_ALLOCATE_MEMORY_CBK_NULL then ''The allocate memory callback is NULL''
      else if error_code = ARGON2_INCORRECT_PARAMETER then ''Argon2_Context context is NULL''
      else if error_code = ARGON2_INCORRECT_TYPE then ''There is no such version of Argon2''
      else if error_code = ARGON2_OUT_PTR_MISMATCH then ''Output pointer mismatch''
      else if error_code = ARGON2_THREADS_TOO_FEW then ''Not enough threads''
      else if error_code = ARGON2_THREADS_TOO_MANY then ''Too many threads''
      else if error_code = ARGON2_MISSING_ARGS then ''Missing arguments''
      else if error_code = ARGON2_ENCODING_FAIL then ''Encoding failed''
      else if error_code = ARGON2_DECODING_FAIL then ''Decoding failed''
      else if error_code = ARGON2_THREAD_FAIL then ''Threading failure''
      else if error_code = ARGON2_DECODING_LENGTH_FAIL then ''Some of encoded parameters are too long or too short''
      else if error_code = ARGON2_VERIFY_MISMATCH then ''The password does not match the supplied hash''
      else ''Unknown error code'')"

section \<open>Comparison\<close>

lemma fold_or_zero:
  fixes d :: u8
  shows "fold (\<lambda>i d. d OR f i) is d = 0 \<longleftrightarrow> d = 0 \<and> (\<forall>i\<in>set is. f i = 0)"
  by (induction "is" arbitrary: d) (auto simp: or_eq_0_iff)

lemma xor_zero_iff: "(a :: u8) XOR b = 0 \<longleftrightarrow> a = b"
  by (metis xor.assoc xor.left_neutral xor.right_neutral xor_self_eq)

lemma argon2_compare_value:
  "argon2_compare b1 b2 len = (if \<forall>i < len. b1 ! i = b2 ! i then 0 else -1)"
proof -
  define d :: u8 where "d = fold (\<lambda>i d. d OR (b1 ! i XOR b2 ! i)) [0..<len] 0"
  have zero: "d = 0 \<longleftrightarrow> (\<forall>i < len. b1 ! i = b2 ! i)"
    unfolding d_def fold_or_zero by (auto simp: xor_zero_iff)
  have "(1 AND drop_bit 8 (uint d - 1)) - 1 = (if d = 0 then 0 else (-1 :: int))"
  proof (cases "d = 0")
    case False
    then have "0 < unat d" by (simp add: unat_gt_0)
    moreover have "unat d < 256" by (rule unat_u8_lt)
    moreover have "uint d = int (unat d)" by simp
    ultimately have "0 \<le> uint d - 1" "uint d - 1 < 256" by linarith+
    then have "drop_bit 8 (uint d - 1) = 0" by (simp add: drop_bit_eq_div)
    then show ?thesis using False by simp
  qed (simp add: drop_bit_eq_div)
  then show ?thesis unfolding argon2_compare_def Let_def d_def [symmetric] by (simp only: zero)
qed

section \<open>A successful run\<close>

text \<open>An allocation of bytes that succeeds gives a buffer of the requested size.\<close>

definition mb_ok :: "(nat \<Rightarrow> bytes option) \<Rightarrow> bool" where
  "mb_ok mb \<longleftrightarrow> (\<forall>n. \<exists>bs. mb n = Some bs \<and> length bs = n)"

lemma argon2_ctx_OK:
  assumes "argon2_ctx loc malloc c ty = Some (ARGON2_OK, c', M)"
  shows "zenrx_ar2_validate_inputs (Some c) = ARGON2_OK" and "ty \<in> {Argon2_d, Argon2_i, Argon2_id}"
  using assms by (auto simp: argon2_ctx_def argon2_ctx_mem_def Let_def split: if_splits)

text \<open>Without wiping flags only the output changes.\<close>

lemma with_tag_plain:
  assumes "c_flags c = 0" and "c_out c = Some out" and "length out = unat (c_outlen c)" and "length tag = unat (c_outlen c)"
  shows "with_tag c tag = c\<lparr>c_out := Some tag\<rparr>"
  using assms by (simp add: with_tag_def wipe_inputs_def memcpy_at_def)

lemma api_context_sel [simp]:
  "c_out (api_context out hl pwd pl salt sl t m p v) = out" "c_outlen (api_context out hl pwd pl salt sl t m p v) = of_nat hl"
  "c_salt (api_context out hl pwd pl salt sl t m p v) = salt" "c_saltlen (api_context out hl pwd pl salt sl t m p v) = of_nat sl"
  "c_flags (api_context out hl pwd pl salt sl t m p v) = 0" "c_allocate_cbk (api_context out hl pwd pl salt sl t m p v) = None"
  by (simp_all add: api_context_def)

text \<open>What a successful \<open>argon2_hash\<close> returns.\<close>

lemma argon2_hash_OK:
  assumes "argon2_hash loc mb malloc t m p pwd pwdlen salt saltlen hash hashlen encoded encodedlen ty version =
      Some (ARGON2_OK, h, s)"
    and "locals_ok loc" and "malloc_ok malloc" and "mb_ok mb"
  shows "\<exists>out tag. length out = hashlen \<and> length tag = hashlen \<and> unat (of_nat hashlen :: u32) = hashlen
    \<and> unat (of_nat saltlen :: u32) = saltlen \<and> pwdlen \<le> 0xFFFFFFFF
    \<and> zenrx_ar2_validate_inputs (Some (api_context (Some out) hashlen pwd pwdlen salt saltlen t m p version)) = ARGON2_OK
    \<and> ty \<in> {Argon2_d, Argon2_i, Argon2_id}
    \<and> argon2_ctx loc malloc (api_context (Some out) hashlen pwd pwdlen salt saltlen t m p version) ty =
       Some (ARGON2_OK, api_context (Some tag) hashlen pwd pwdlen salt saltlen t m p version, None)
    \<and> h = map_option (\<lambda>h. memcpy_at h 0 tag hashlen) hash
    \<and> (encoded \<and> encodedlen \<noteq> 0 \<longrightarrow> (\<exists>s'. s = Some s' \<and>
         encode_string encodedlen (api_context (Some tag) hashlen pwd pwdlen salt saltlen t m p version) ty = Inr s'))"
proof -
  have small: "pwdlen \<le> 0xFFFFFFFF" "saltlen \<le> 0xFFFFFFFF" "hashlen \<le> 0xFFFFFFFF"
    using assms(1) by (auto simp: argon2_hash_def split: if_splits)
  then have len: "unat (of_nat hashlen :: u32) = hashlen" "unat (of_nat saltlen :: u32) = saltlen"
    by (simp_all add: unat_of_nat_small)
  obtain out where out: "mb hashlen = Some out" "length out = hashlen" using assms(4) by (auto simp: mb_ok_def)
  let ?c = "api_context (Some out) hashlen pwd pwdlen salt saltlen t m p version"
  obtain c' M where c': "argon2_ctx loc malloc ?c ty = Some (ARGON2_OK, c', M)"
    using assms(1) out small by (auto simp: argon2_hash_def bind_eq_Some_conv split: if_splits prod.splits)
  note V = argon2_ctx_OK [OF c']
  obtain tag where tag: "argon2_ctx loc malloc ?c ty = Some (ARGON2_OK, with_tag ?c tag, None)" "length tag = hashlen"
    using argon2_ctx_agree [OF V(1) _ _ V(1) _ _ V(2) assms(2,2,3,3) refl refl refl] len by auto
  have plain: "with_tag ?c tag = api_context (Some tag) hashlen pwd pwdlen salt saltlen t m p version"
    using with_tag_plain [of ?c out tag] out(2) tag(2) len by (simp add: api_context_def)
  note run = tag(1) [unfolded plain]
  have "h = map_option (\<lambda>h. memcpy_at h 0 tag hashlen) hash
    \<and> (encoded \<and> encodedlen \<noteq> 0 \<longrightarrow> (\<exists>s'. s = Some s' \<and>
         encode_string encodedlen (api_context (Some tag) hashlen pwd pwdlen salt saltlen t m p version) ty = Inr s'))"
    using assms(1) out small run by (auto simp: argon2_hash_def Let_def split: if_splits sum.splits)
  then show ?thesis using out(2) tag(2) len small(1) V run by blast
qed

lemma validate_out: "zenrx_ar2_validate_inputs (Some (c\<lparr>c_out := x\<rparr>)) = zenrx_ar2_validate_inputs (Some c)"
  by (cases c) (simp only: zenrx_ar2_validate_inputs_def option.case argon2_context.simps)

lemma b64_olen_ge: "n \<le> b64_olen n"
proof -
  have "n = n div 3 * 3 + n mod 3" by simp
  moreover have "n mod 3 < 3" by simp
  ultimately have "n \<le> n div 3 * 4 + n mod 3" by linarith
  moreover have "n mod 3 \<le> (if n mod 3 = 2 then 3 else if n mod 3 = 1 then 2 else 0)"
    using \<open>n mod 3 < 3\<close> by auto
  ultimately show ?thesis unfolding b64_olen_def by linarith
qed

lemma encoded_text_lengths:
  "length salt \<le> length (encoded_text c ty salt out)" "length out \<le> length (encoded_text c ty salt out)"
  using b64_olen_ge [of "length salt"] b64_olen_ge [of "length out"]
  by (simp_all add: encoded_text_def length_encode_loop)

text \<open>C18: for an encoded hash made by \<open>argon2_hash\<close>, \<open>argon2_verify\<close> with a candidate password succeeds
  exactly when the raw hash of the candidate under the same parameters is the encoded one, and reports
  \<open>ARGON2_VERIFY_MISMATCH\<close> otherwise, whatever the three calls found in memory and locals.  In particular
  the right password is always accepted.\<close>

theorem argon2_verify_correct:
  assumes hash: "argon2_hash loc mb malloc t m p pwd pwdlen (Some salt) saltlen (Some hb) hashlen True encodedlen ty version =
      Some (ARGON2_OK, Some h, Some s)"
    and cand: "argon2_hash loc2 mb2 malloc2 t m p pwd2 pwdlen2 (Some salt) saltlen (Some hb2) hashlen False 0 ty version =
      Some (ARGON2_OK, Some h2, None)"
    and "length salt = saltlen" and "length hb = hashlen" and "length hb2 = hashlen" and "encodedlen \<noteq> 0"
    and "length s \<le> 0xFFFFFFFF"
    and "locals_ok loc" and "malloc_ok malloc" and "mb_ok mb"
    and "locals_ok loc2" and "malloc_ok malloc2" and "mb_ok mb2"
    and "locals_ok loc3" and "malloc_ok malloc3" and "mb_ok mb3"
  shows "argon2_verify ctx loc3 mb3 malloc3 (Some s) pwd2 pwdlen2 ty =
    Some (if h2 = h then ARGON2_OK else ARGON2_VERIFY_MISMATCH)"
proof -
  let ?c = "\<lambda>out. api_context out hashlen pwd pwdlen (Some salt) saltlen t m p version"
  let ?c2 = "\<lambda>out. api_context out hashlen pwd2 pwdlen2 (Some salt) saltlen t m p version"
  obtain out tag where 1: "length out = hashlen" "length tag = hashlen" "unat (of_nat hashlen :: u32) = hashlen"
    "unat (of_nat saltlen :: u32) = saltlen" "zenrx_ar2_validate_inputs (Some (?c (Some out))) = ARGON2_OK"
    "ty \<in> {Argon2_d, Argon2_i, Argon2_id}" "h = memcpy_at hb 0 tag hashlen"
    "encode_string encodedlen (?c (Some tag)) ty = Inr s"
    using argon2_hash_OK [OF hash assms(8-10)] assms(6) unfolding option.map option.inject by blast
  obtain out2 tag2 where 2: "length out2 = hashlen" "length tag2 = hashlen" "pwdlen2 \<le> 0xFFFFFFFF"
    "zenrx_ar2_validate_inputs (Some (?c2 (Some out2))) = ARGON2_OK"
    "argon2_ctx loc2 malloc2 (?c2 (Some out2)) ty = Some (ARGON2_OK, ?c2 (Some tag2), None)"
    "h2 = memcpy_at hb2 0 tag2 hashlen"
    using argon2_hash_OK [OF cand assms(11-13)] unfolding option.map option.inject by blast
  have h: "h = tag" "h2 = tag2" using 1(2,7) 2(2,6) assms(4,5) by (simp_all add: memcpy_at_def)
  have valid: "zenrx_ar2_validate_inputs (Some (?c (Some tag))) = ARGON2_OK"
    using 1(5) validate_out [of "Some tag" "?c (Some out)"] by (simp add: api_context_def)
  have ty: "argon2_type2string ty False \<noteq> None" using 1(6) by (auto simp: argon2_type2string_def)
  have s: "s = encoded_text (?c (Some tag)) ty salt tag"
    using 1(8) encode_string_text [OF valid ty, of salt tag encodedlen] 1(2-4) assms(3) by (simp split: if_splits)
  have L: "length salt \<le> length s" "length tag \<le> length s" unfolding s by (rule encoded_text_lengths)+
  obtain sb ob nb where buf: "mb3 (length s) = Some sb" "length sb = length s" "mb3 (length s) = Some ob"
    "mb3 hashlen = Some nb" "length nb = hashlen"
    using assms(16) by (metis mb_ok_def)
  have ob: "ob = sb" using buf by simp
  have len: "unat (of_nat (length s) :: u32) = length s" using assms(7) by (simp add: unat_of_nat_small)
  define d where "d = ctx\<lparr>c_saltlen := of_nat (length s), c_outlen := of_nat (length s), c_salt := Some sb,
      c_out := Some sb, c_pwd := pwd2, c_pwdlen := of_nat pwdlen2\<rparr>"
  have pwd2: "c_pwd d = None \<longrightarrow> c_pwdlen d = 0"
    using validate_OK(8) [OF 2(4)] by (simp add: d_def api_context_def)
  have dec: "decode_string d s ty = Inr (decoded_context d (?c (Some tag)) salt tag)"
    using decode_encoded_text [OF valid ty, of salt tag d, folded s] 1(2-4) assms(3) pwd2 L len by (simp add: d_def)
  define c3 where "c3 = (decoded_context d (?c (Some tag)) salt tag)\<lparr>c_out := Some nb\<rparr>"
  have salt_len: "length salt \<le> length sb" "length tag \<le> length sb"
    using L buf(2) by simp_all
  have c3: "make_instance c3 ty False = make_instance (?c2 (Some out2)) ty False"
    "c_outlen c3 = c_outlen (?c2 (Some out2))"
    "initial_hash_inputs c3 ty = initial_hash_inputs (?c2 (Some out2)) ty"
    using 1(2-4) assms(3) salt_len
    by (simp_all add: c3_def decoded_context_def d_def make_instance_def api_context_def initial_hash_inputs_def
        opt_bytes_def memcpy_at_def)
  have valid3: "zenrx_ar2_validate_inputs (Some c3) = ARGON2_OK"
    using validate_decoded [OF valid, of salt d tag] pwd2 1(4) assms(3)
    by (simp add: c3_def validate_out d_def)
  obtain tg where tg: "argon2_ctx loc2 malloc2 (?c2 (Some out2)) ty = Some (ARGON2_OK, with_tag (?c2 (Some out2)) tg, None)"
    "argon2_ctx loc3 malloc3 c3 ty = Some (ARGON2_OK, with_tag c3 tg, None)" "length tg = hashlen"
    using argon2_ctx_agree [OF 2(4) _ _ valid3 _ _ 1(6) assms(11,14,12,15) c3] 1(3)
    by (auto simp: c3_def decoded_context_def)
  have "with_tag (?c2 (Some out2)) tg = (?c2 (Some out2))\<lparr>c_out := Some tg\<rparr>"
    using 1(3) 2(1) tg(3) by (intro with_tag_plain) simp_all
  then have "tg = tag2" using tg(1) 2(5) by (simp add: api_context_def)
  moreover have "with_tag c3 tg = c3\<lparr>c_out := Some tg\<rparr>"
    using 1(3) buf(5) tg(3) c3(2) by (intro with_tag_plain [where out = nb]) (simp_all add: c3_def decoded_context_def)
  ultimately have run3: "argon2_ctx loc3 malloc3 c3 ty = Some (ARGON2_OK, c3\<lparr>c_out := Some tag2\<rparr>, None)"
    using tg(2) by simp
  have "argon2_compare (memcpy_at sb 0 tag hashlen) tag2 hashlen = (if tag2 = tag then 0 else -1)"
    using 1(2) 2(2) salt_len(2) by (auto simp: argon2_compare_value list_eq_iff_nth_eq memcpy_at_def nth_append)
  then have "argon2_verify_ctx loc3 malloc3 c3 (memcpy_at sb 0 tag hashlen) ty =
      Some (if tag2 = tag then ARGON2_OK else ARGON2_VERIFY_MISMATCH, c3\<lparr>c_out := Some tag2\<rparr>)"
    using run3 c3(2) 1(3) by (simp add: argon2_verify_ctx_def)
  moreover have "c_out (decoded_context d (?c (Some tag)) salt tag) = Some (memcpy_at sb 0 tag hashlen)"
    "c_outlen (decoded_context d (?c (Some tag)) salt tag) = of_nat hashlen"
    using 1(2) by (simp_all add: decoded_context_def d_def)
  moreover have "c_out c3 = Some nb" by (simp add: c3_def)
  ultimately show ?thesis
    using 2(3) assms(7) buf ob dec 1(2,3) len h
    by (simp add: argon2_verify_def Let_def d_def [symmetric] c3_def [symmetric])
qed

text \<open>A small instance: two passwords, two lanes, 17 blocks of 1 KiB.\<close>

definition demo_malloc :: "u8 \<Rightarrow> nat \<Rightarrow> ar_memory option" where
  "demo_malloc x n = Some (replicate (n div 1024) (replicate 128 (ucast x)))"

definition demo_bytes :: "u8 \<Rightarrow> nat \<Rightarrow> bytes option" where
  "demo_bytes x n = Some (replicate n x)"

lemma demo_malloc_ok: "malloc_ok (demo_malloc x)" "mb_ok (demo_bytes x)"
  by (simp_all add: malloc_ok_def demo_malloc_def mem_ok_def mb_ok_def demo_bytes_def)

lemma demo_hash:
  assumes "length pwd < 100" and "encodedlen = 0 \<or> 84 \<le> encodedlen"
  shows "\<exists>h s. argon2_hash (demo_locals x) (demo_bytes x) (demo_malloc x) 1 17 2 (Some pwd) (length pwd)
      (Some [1, 2, 3, 4, 5, 6, 7, 8]) 8 (Some (replicate 32 0)) 32 (encodedlen \<noteq> 0) encodedlen Argon2_id ARGON2_VERSION_NUMBER
    = Some (ARGON2_OK, Some h, if encodedlen = 0 then None else Some s) \<and> length s = 83"
proof -
  let ?salt = "[1, 2, 3, 4, 5, 6, 7, 8] :: bytes"
  let ?c = "\<lambda>out. api_context (Some out) 32 (Some pwd) (length pwd) (Some ?salt) 8 1 17 2 ARGON2_VERSION_NUMBER"
  have V: "zenrx_ar2_validate_inputs (Some (?c out)) = ARGON2_OK" for out
    by (simp add: zenrx_ar2_validate_inputs_def ARGON2_MAX_MEMORY_def api_context_def none_larger)
  obtain tag where tag: "argon2_ctx (demo_locals x) (demo_malloc x) (?c (replicate 32 x)) Argon2_id =
      Some (ARGON2_OK, with_tag (?c (replicate 32 x)) tag, None)" "length tag = 32"
    using argon2_ctx_agree [OF V [of "replicate 32 x"] _ _ V [of "replicate 32 x"] _ _ _ demo_locals_ok [of x] demo_locals_ok [of x]
        demo_malloc_ok(1) [of x] demo_malloc_ok(1) [of x] refl refl refl, of Argon2_id] by auto
  have plain: "with_tag (?c (replicate 32 x)) tag = ?c tag"
    using with_tag_plain [of "?c (replicate 32 x)" "replicate 32 x" tag] tag(2) by (simp add: api_context_def)
  have len: "length (encoded_text (?c tag) Argon2_id ?salt tag) = 83"
    using tag(2) by (simp add: encoded_text_def api_context_def argon2_type2string_def length_encode_loop b64_olen_def show_nat.simps)
  have "encodedlen \<noteq> 0 \<Longrightarrow> encode_string encodedlen (?c tag) Argon2_id = Inr (encoded_text (?c tag) Argon2_id ?salt tag)"
    using encode_string_text [OF V [of tag], of Argon2_id ?salt tag encodedlen] len tag(2) assms(2)
    by (simp add: argon2_type2string_def)
  then have "argon2_hash (demo_locals x) (demo_bytes x) (demo_malloc x) 1 17 2 (Some pwd) (length pwd)
      (Some ?salt) 8 (Some (replicate 32 0)) 32 (encodedlen \<noteq> 0) encodedlen Argon2_id ARGON2_VERSION_NUMBER
    = Some (ARGON2_OK, Some (memcpy_at (replicate 32 0) 0 tag 32),
        if encodedlen = 0 then None else Some (encoded_text (?c tag) Argon2_id ?salt tag))"
    using tag(1) plain assms(1) by (simp add: argon2_hash_def demo_bytes_def Let_def)
  then show ?thesis using len by blast
qed

theorem argon2_verify_correct_witness:
  "\<exists>h h2 s. argon2_hash (demo_locals 1) (demo_bytes 1) (demo_malloc 1) 1 17 2 (Some [7]) 1 (Some [1, 2, 3, 4, 5, 6, 7, 8]) 8
      (Some (replicate 32 0)) 32 True 100 Argon2_id ARGON2_VERSION_NUMBER = Some (ARGON2_OK, Some h, Some s)
    \<and> argon2_verify demo_context (demo_locals 3) (demo_bytes 3) (demo_malloc 3) (Some s) (Some [8]) 1 Argon2_id =
        Some (if h2 = h then ARGON2_OK else ARGON2_VERIFY_MISMATCH)"
proof -
  obtain h s where hs: "argon2_hash (demo_locals 1) (demo_bytes 1) (demo_malloc 1) 1 17 2 (Some [7]) 1
      (Some [1, 2, 3, 4, 5, 6, 7, 8]) 8 (Some (replicate 32 0)) 32 True 100 Argon2_id ARGON2_VERSION_NUMBER
      = Some (ARGON2_OK, Some h, Some s)" "length s = 83"
    using demo_hash [of "[7]" 100 1] by auto
  obtain h2 where h2: "argon2_hash (demo_locals 2) (demo_bytes 2) (demo_malloc 2) 1 17 2 (Some [8]) 1
      (Some [1, 2, 3, 4, 5, 6, 7, 8]) 8 (Some (replicate 32 0)) 32 False 0 Argon2_id ARGON2_VERSION_NUMBER
      = Some (ARGON2_OK, Some h2, None)"
    using demo_hash [of "[8]" 0 2] by auto
  show ?thesis
    using hs(1) argon2_verify_correct [OF hs(1) h2 _ _ _ _ _ demo_locals_ok demo_malloc_ok demo_locals_ok demo_malloc_ok
        demo_locals_ok demo_malloc_ok, of demo_context] hs(2) by auto
qed

section \<open>A cost of 4 GiB\<close>

text \<open>With \<open>m_cost = 2^22\<close> the size \<open>m_cost * 1024\<close> wraps to 0: no memory is large enough.\<close>

lemma raw_ex_4GiB_refused:
  assumes "argon2id_hash_raw_ex loc malloc t 0x400000 1 pwd pwdlen salt saltlen hash hashlen (Some M) = Some (r, c, M')"
  shows "r \<noteq> ARGON2_OK"
proof -
  have "unat (i_memory_blocks (make_instance (api_context hash hashlen pwd pwdlen salt saltlen t 0x400000 1 ARGON2_VERSION_NUMBER)
      Argon2_id True)) = 0x400000"
    by (simp add: make_instance_def argon2_compute_memory_blocks_def api_context_def)
  then show ?thesis
    using assms by (auto simp: argon2id_hash_raw_ex_def argon2_ctx_mem_def Let_def split: if_splits)
qed

end
