(* ===== verification/Rx_Superscalar.thy ===== *)
theory Rx_Superscalar
  imports Rx_Bytecode Blake2b
begin

text \<open>
  \<open>crypto/randomx/blake2_generator.cpp\<close> and \<open>superscalar.cpp\<close>: the pseudo-random generator and the
  generator of the superscalar programs that expand the cache into the dataset.  \<open>rx_blake2b\<close> is a
  function pointer in the source; here it is the argument \<open>H\<close>, the 64-byte hash of 64 bytes.  The two
  \<open>do ... while\<close> loops that redraw a value until it is usable need not end for an arbitrary \<open>H\<close>: they are
  partial functions, and a generator that loops is \<open>None\<close>.
\<close>

section \<open>The pseudo-random generator\<close>

record blake2_gen =
  g_data :: bytes
  g_index :: nat

definition Blake2Generator :: "bytes \<Rightarrow> nat \<Rightarrow> u32 \<Rightarrow> blake2_gen" where
  "Blake2Generator seed seedSize nonce =
     \<lparr>g_data = memcpy_at (memcpy_at (replicate 64 0) 0 seed (min 60 seedSize)) 60 (store32 nonce) 4,
      g_index = 64\<rparr>"

definition gen_checkData :: "(bytes \<Rightarrow> bytes) \<Rightarrow> nat \<Rightarrow> blake2_gen \<Rightarrow> blake2_gen" where
  "gen_checkData H bytesNeeded g =
     (if g_index g + bytesNeeded > 64 then g\<lparr>g_data := H (g_data g), g_index := 0\<rparr> else g)"

definition gen_getByte :: "(bytes \<Rightarrow> bytes) \<Rightarrow> blake2_gen \<Rightarrow> u8 \<times> blake2_gen" where
  "gen_getByte H g =
     (let g = gen_checkData H 1 g in (g_data g ! g_index g, g\<lparr>g_index := g_index g + 1\<rparr>))"

definition gen_getUInt32 :: "(bytes \<Rightarrow> bytes) \<Rightarrow> blake2_gen \<Rightarrow> u32 \<times> blake2_gen" where
  "gen_getUInt32 H g =
     (let g = gen_checkData H 4 g in (load32 (drop (g_index g) (g_data g)), g\<lparr>g_index := g_index g + 4\<rparr>))"

section \<open>Macro-operations and instructions\<close>

datatype ss_type =
    S_ISUB_R | S_IXOR_R | S_IADD_RS | S_IMUL_R | S_IROR_C | S_IADD_C7 | S_IXOR_C7 | S_IADD_C8 | S_IXOR_C8
  | S_IADD_C9 | S_IXOR_C9 | S_IMULH_R | S_ISMULH_R | S_IMUL_RCP | S_INVALID

fun ss_code :: "ss_type \<Rightarrow> int" where
  "ss_code S_ISUB_R = 0" | "ss_code S_IXOR_R = 1" | "ss_code S_IADD_RS = 2" | "ss_code S_IMUL_R = 3"
| "ss_code S_IROR_C = 4" | "ss_code S_IADD_C7 = 5" | "ss_code S_IXOR_C7 = 6" | "ss_code S_IADD_C8 = 7"
| "ss_code S_IXOR_C8 = 8" | "ss_code S_IADD_C9 = 9" | "ss_code S_IXOR_C9 = 10" | "ss_code S_IMULH_R = 11"
| "ss_code S_ISMULH_R = 12" | "ss_code S_IMUL_RCP = 13" | "ss_code S_INVALID = -1"

definition isMultiplication :: "ss_type \<Rightarrow> bool" where
  "isMultiplication t \<longleftrightarrow> t = S_IMUL_R \<or> t = S_IMULH_R \<or> t = S_ISMULH_R \<or> t = S_IMUL_RCP"

text \<open>Execution ports: bit 0 is P0, bit 1 is P1, bit 2 is P5.\<close>

abbreviation (input) "Port_Null \<equiv> (0 :: nat)"
abbreviation (input) "Port_P0 \<equiv> (1 :: nat)"
abbreviation (input) "Port_P1 \<equiv> (2 :: nat)"
abbreviation (input) "Port_P5 \<equiv> (4 :: nat)"
abbreviation (input) "Port_P01 \<equiv> (3 :: nat)"
abbreviation (input) "Port_P05 \<equiv> (5 :: nat)"
abbreviation (input) "Port_P015 \<equiv> (7 :: nat)"

record macro_op =
  m_size :: nat
  m_latency :: nat
  m_uop1 :: nat
  m_uop2 :: nat
  m_dependent :: bool

definition MacroOp :: "nat \<Rightarrow> nat \<Rightarrow> nat \<Rightarrow> nat \<Rightarrow> macro_op" where
  "MacroOp sz latency uop1 uop2 = \<lparr>m_size = sz, m_latency = latency, m_uop1 = uop1, m_uop2 = uop2, m_dependent = False\<rparr>"

definition Add_rr :: macro_op where "Add_rr = MacroOp 3 1 Port_P015 Port_Null"
definition Sub_rr :: macro_op where "Sub_rr = MacroOp 3 1 Port_P015 Port_Null"
definition Xor_rr :: macro_op where "Xor_rr = MacroOp 3 1 Port_P015 Port_Null"
definition Imul_r :: macro_op where "Imul_r = MacroOp 3 4 Port_P1 Port_P5"
definition Mul_r :: macro_op where "Mul_r = MacroOp 3 4 Port_P1 Port_P5"
definition Mov_rr :: macro_op where "Mov_rr = MacroOp 3 0 Port_Null Port_Null"
definition Lea_sib :: macro_op where "Lea_sib = MacroOp 4 1 Port_P01 Port_Null"
definition Imul_rr :: macro_op where "Imul_rr = MacroOp 4 3 Port_P1 Port_Null"
definition Ror_ri :: macro_op where "Ror_ri = MacroOp 4 1 Port_P05 Port_Null"
definition Add_ri :: macro_op where "Add_ri = MacroOp 7 1 Port_P015 Port_Null"
definition Xor_ri :: macro_op where "Xor_ri = MacroOp 7 1 Port_P015 Port_Null"
definition Mov_ri64 :: macro_op where "Mov_ri64 = MacroOp 10 1 Port_P015 Port_Null"

definition mop_isSimple :: "macro_op \<Rightarrow> bool" where "mop_isSimple m \<longleftrightarrow> m_uop2 m = Port_Null"
definition mop_isEliminated :: "macro_op \<Rightarrow> bool" where "mop_isEliminated m \<longleftrightarrow> m_uop1 m = Port_Null"

record ss_info =
  n_type :: ss_type
  n_ops :: "macro_op list"
  n_resultOp :: int
  n_dstOp :: int
  n_srcOp :: int

definition info1 :: "ss_type \<Rightarrow> macro_op \<Rightarrow> int \<Rightarrow> ss_info" where
  "info1 t op srcOp = \<lparr>n_type = t, n_ops = [op], n_resultOp = 0, n_dstOp = 0, n_srcOp = srcOp\<rparr>"

fun ss_info_of :: "ss_type \<Rightarrow> ss_info" where
  "ss_info_of S_ISUB_R = info1 S_ISUB_R Sub_rr 0"
| "ss_info_of S_IXOR_R = info1 S_IXOR_R Xor_rr 0"
| "ss_info_of S_IADD_RS = info1 S_IADD_RS Lea_sib 0"
| "ss_info_of S_IMUL_R = info1 S_IMUL_R Imul_rr 0"
| "ss_info_of S_IROR_C = info1 S_IROR_C Ror_ri (-1)"
| "ss_info_of S_IADD_C7 = info1 S_IADD_C7 Add_ri (-1)"
| "ss_info_of S_IXOR_C7 = info1 S_IXOR_C7 Xor_ri (-1)"
| "ss_info_of S_IADD_C8 = info1 S_IADD_C8 Add_ri (-1)"
| "ss_info_of S_IXOR_C8 = info1 S_IXOR_C8 Xor_ri (-1)"
| "ss_info_of S_IADD_C9 = info1 S_IADD_C9 Add_ri (-1)"
| "ss_info_of S_IXOR_C9 = info1 S_IXOR_C9 Xor_ri (-1)"
| "ss_info_of S_IMULH_R = \<lparr>n_type = S_IMULH_R, n_ops = [Mov_rr, Mul_r, Mov_rr], n_resultOp = 1, n_dstOp = 0, n_srcOp = 1\<rparr>"
| "ss_info_of S_ISMULH_R = \<lparr>n_type = S_ISMULH_R, n_ops = [Mov_rr, Imul_r, Mov_rr], n_resultOp = 1, n_dstOp = 0, n_srcOp = 1\<rparr>"
| "ss_info_of S_IMUL_RCP =
     \<lparr>n_type = S_IMUL_RCP, n_ops = [Mov_ri64, Imul_rr\<lparr>m_dependent := True\<rparr>], n_resultOp = 1, n_dstOp = 1, n_srcOp = -1\<rparr>"
| "ss_info_of S_INVALID = \<lparr>n_type = S_INVALID, n_ops = [], n_resultOp = 0, n_dstOp = 0, n_srcOp = 0\<rparr>"

section \<open>Decoder buffers\<close>

record decoder_buffer =
  d_index :: int
  d_counts :: "nat list"

definition decodeBuffer484 :: decoder_buffer where "decodeBuffer484 = \<lparr>d_index = 0, d_counts = [4, 8, 4]\<rparr>"
definition decodeBuffer7333 :: decoder_buffer where "decodeBuffer7333 = \<lparr>d_index = 1, d_counts = [7, 3, 3, 3]\<rparr>"
definition decodeBuffer3733 :: decoder_buffer where "decodeBuffer3733 = \<lparr>d_index = 2, d_counts = [3, 7, 3, 3]\<rparr>"
definition decodeBuffer493 :: decoder_buffer where "decodeBuffer493 = \<lparr>d_index = 3, d_counts = [4, 9, 3]\<rparr>"
definition decodeBuffer4444 :: decoder_buffer where "decodeBuffer4444 = \<lparr>d_index = 4, d_counts = [4, 4, 4, 4]\<rparr>"
definition decodeBuffer3310 :: decoder_buffer where "decodeBuffer3310 = \<lparr>d_index = 5, d_counts = [3, 3, 10]\<rparr>"

definition decodeBuffers :: "decoder_buffer list" where
  "decodeBuffers = [decodeBuffer484, decodeBuffer7333, decodeBuffer3733, decodeBuffer493]"

definition fetchNextDefault :: "(bytes \<Rightarrow> bytes) \<Rightarrow> blake2_gen \<Rightarrow> decoder_buffer \<times> blake2_gen" where
  "fetchNextDefault H gen = (let (b, gen) = gen_getByte H gen in (decodeBuffers ! unat (b AND 3), gen))"

definition fetchNext ::
  "(bytes \<Rightarrow> bytes) \<Rightarrow> ss_type \<Rightarrow> nat \<Rightarrow> nat \<Rightarrow> blake2_gen \<Rightarrow> decoder_buffer \<times> blake2_gen" where
  "fetchNext H instrType cycle mulCount gen =
     (if instrType = S_IMULH_R \<or> instrType = S_ISMULH_R then (decodeBuffer3310, gen)
      else if mulCount < cycle + 1 then (decodeBuffer4444, gen)
      else if instrType = S_IMUL_RCP
      then let (b, gen) = gen_getByte H gen in (if b AND 1 \<noteq> 0 then decodeBuffer484 else decodeBuffer493, gen)
      else fetchNextDefault H gen)"

section \<open>Selecting instructions and registers\<close>

definition selectRegister :: "(bytes \<Rightarrow> bytes) \<Rightarrow> nat list \<Rightarrow> blake2_gen \<Rightarrow> nat option \<times> blake2_gen" where
  "selectRegister H availableRegisters gen =
     (if availableRegisters = [] then (None, gen)
      else if length availableRegisters > 1
      then let (r, gen) = gen_getUInt32 H gen
           in (Some (availableRegisters ! (unat r mod length availableRegisters)), gen)
      else (Some (availableRegisters ! 0), gen))"

record register_info =
  r_latency :: nat
  r_lastOpGroup :: ss_type
  r_lastOpPar :: int

definition RegisterInfo :: register_info where
  "RegisterInfo = \<lparr>r_latency = 0, r_lastOpGroup = S_INVALID, r_lastOpPar = -1\<rparr>"

text \<open>The fields start as in the class; \<open>src_\<close> and \<open>dst_\<close> are -1 until selected.\<close>

record ss_instr =
  q_info :: ss_info
  q_src :: int
  q_dst :: int
  q_mod :: int
  q_imm32 :: u32
  q_opGroup :: ss_type
  q_opGroupPar :: int
  q_canReuse :: bool
  q_groupParIsSource :: bool

definition ss_Null :: ss_instr where
  "ss_Null = \<lparr>q_info = ss_info_of S_INVALID, q_src = -1, q_dst = -1, q_mod = 0, q_imm32 = 0, q_opGroup = S_INVALID,
     q_opGroupPar = 0, q_canReuse = False, q_groupParIsSource = False\<rparr>"

definition toInstr :: "ss_instr \<Rightarrow> rx_instr" where
  "toInstr q = \<lparr>i_opcode = of_int (ss_code (n_type (q_info q))), i_dst = of_int (q_dst q),
     i_src = of_int (if q_src q \<ge> 0 then q_src q else q_dst q), i_mod = of_int (q_mod q), i_imm32 = q_imm32 q\<rparr>"

text \<open>\<open>do { imm32_ = gen.getByte() & 63; } while (imm32_ == 0)\<close> and its 32-bit sibling.\<close>

partial_function (option) draw_rotation :: "(bytes \<Rightarrow> bytes) \<Rightarrow> blake2_gen \<Rightarrow> (u32 \<times> blake2_gen) option" where
  "draw_rotation H gen =
     (let (b, gen) = gen_getByte H gen; imm32 = ucast (b AND 63)
      in if imm32 = 0 then draw_rotation H gen else Some (imm32, gen))"

partial_function (option) draw_divisor :: "(bytes \<Rightarrow> bytes) \<Rightarrow> blake2_gen \<Rightarrow> (u32 \<times> blake2_gen) option" where
  "draw_divisor H gen =
     (let (imm32, gen) = gen_getUInt32 H gen
      in if isZeroOrPowerOf2 (ucast imm32) then draw_divisor H gen else Some (imm32, gen))"

definition ss_create ::
  "(bytes \<Rightarrow> bytes) \<Rightarrow> ss_type \<Rightarrow> blake2_gen \<Rightarrow> ss_instr \<Rightarrow> (ss_instr \<times> blake2_gen) option" where
  "ss_create H t gen q =
     (let q = q\<lparr>q_info := ss_info_of t, q_src := -1, q_dst := -1, q_canReuse := False, q_groupParIsSource := False\<rparr>
      in case t of
        S_ISUB_R \<Rightarrow> Some (q\<lparr>q_mod := 0, q_imm32 := 0, q_opGroup := S_IADD_RS, q_groupParIsSource := True\<rparr>, gen)
      | S_IXOR_R \<Rightarrow> Some (q\<lparr>q_mod := 0, q_imm32 := 0, q_opGroup := S_IXOR_R, q_groupParIsSource := True\<rparr>, gen)
      | S_IADD_RS \<Rightarrow>
          let (b, gen) = gen_getByte H gen
          in Some (q\<lparr>q_mod := uint b, q_imm32 := 0, q_opGroup := S_IADD_RS, q_groupParIsSource := True\<rparr>, gen)
      | S_IMUL_R \<Rightarrow> Some (q\<lparr>q_mod := 0, q_imm32 := 0, q_opGroup := S_IMUL_R, q_groupParIsSource := True\<rparr>, gen)
      | S_IROR_C \<Rightarrow> do { (imm, gen) \<leftarrow> draw_rotation H gen;
            Some (q\<lparr>q_mod := 0, q_imm32 := imm, q_opGroup := S_IROR_C, q_opGroupPar := -1\<rparr>, gen) }
      | S_IADD_C7 \<Rightarrow> let (imm, gen) = gen_getUInt32 H gen
          in Some (q\<lparr>q_mod := 0, q_imm32 := imm, q_opGroup := S_IADD_C7, q_opGroupPar := -1\<rparr>, gen)
      | S_IADD_C8 \<Rightarrow> let (imm, gen) = gen_getUInt32 H gen
          in Some (q\<lparr>q_mod := 0, q_imm32 := imm, q_opGroup := S_IADD_C7, q_opGroupPar := -1\<rparr>, gen)
      | S_IADD_C9 \<Rightarrow> let (imm, gen) = gen_getUInt32 H gen
          in Some (q\<lparr>q_mod := 0, q_imm32 := imm, q_opGroup := S_IADD_C7, q_opGroupPar := -1\<rparr>, gen)
      | S_IXOR_C7 \<Rightarrow> let (imm, gen) = gen_getUInt32 H gen
          in Some (q\<lparr>q_mod := 0, q_imm32 := imm, q_opGroup := S_IXOR_C7, q_opGroupPar := -1\<rparr>, gen)
      | S_IXOR_C8 \<Rightarrow> let (imm, gen) = gen_getUInt32 H gen
          in Some (q\<lparr>q_mod := 0, q_imm32 := imm, q_opGroup := S_IXOR_C7, q_opGroupPar := -1\<rparr>, gen)
      | S_IXOR_C9 \<Rightarrow> let (imm, gen) = gen_getUInt32 H gen
          in Some (q\<lparr>q_mod := 0, q_imm32 := imm, q_opGroup := S_IXOR_C7, q_opGroupPar := -1\<rparr>, gen)
      | S_IMULH_R \<Rightarrow> let (p, gen) = gen_getUInt32 H gen
          in Some (q\<lparr>q_canReuse := True, q_mod := 0, q_imm32 := 0, q_opGroup := S_IMULH_R, q_opGroupPar := sint p\<rparr>, gen)
      | S_ISMULH_R \<Rightarrow> let (p, gen) = gen_getUInt32 H gen
          in Some (q\<lparr>q_canReuse := True, q_mod := 0, q_imm32 := 0, q_opGroup := S_ISMULH_R, q_opGroupPar := sint p\<rparr>, gen)
      | S_IMUL_RCP \<Rightarrow> do { (imm, gen) \<leftarrow> draw_divisor H gen;
            Some (q\<lparr>q_mod := 0, q_imm32 := imm, q_opGroup := S_IMUL_RCP, q_opGroupPar := -1\<rparr>, gen) }
      | S_INVALID \<Rightarrow> Some (q, gen))"

text \<open>The instruction that fits a slot; another slot size is \<open>UNREACHABLE\<close> in the source.\<close>

definition ss_slot_type ::
  "(bytes \<Rightarrow> bytes) \<Rightarrow> blake2_gen \<Rightarrow> nat \<Rightarrow> int \<Rightarrow> bool \<Rightarrow> ss_type \<times> blake2_gen" where
  "ss_slot_type H gen slotSize fetchType isLast =
     (if slotSize = 3 then
        if isLast then let (b, gen) = gen_getByte H gen
          in ([S_ISUB_R, S_IXOR_R, S_IMULH_R, S_ISMULH_R] ! unat (b AND 3), gen)
        else let (b, gen) = gen_getByte H gen in ([S_ISUB_R, S_IXOR_R] ! unat (b AND 1), gen)
      else if slotSize = 4 then
        if fetchType = 4 \<and> \<not> isLast then (S_IMUL_R, gen)
        else let (b, gen) = gen_getByte H gen in ([S_IROR_C, S_IADD_RS] ! unat (b AND 1), gen)
      else if slotSize = 7 then let (b, gen) = gen_getByte H gen in ([S_IXOR_C7, S_IADD_C7] ! unat (b AND 1), gen)
      else if slotSize = 8 then let (b, gen) = gen_getByte H gen in ([S_IXOR_C8, S_IADD_C8] ! unat (b AND 1), gen)
      else if slotSize = 9 then let (b, gen) = gen_getByte H gen in ([S_IXOR_C9, S_IADD_C9] ! unat (b AND 1), gen)
      else if slotSize = 10 then (S_IMUL_RCP, gen)
      else (S_INVALID, gen))"

definition createForSlot ::
  "(bytes \<Rightarrow> bytes) \<Rightarrow> blake2_gen \<Rightarrow> nat \<Rightarrow> int \<Rightarrow> bool \<Rightarrow> ss_instr \<Rightarrow> (ss_instr \<times> blake2_gen) option" where
  "createForSlot H gen slotSize fetchType isLast q =
     (let (t, gen) = ss_slot_type H gen slotSize fetchType isLast in ss_create H t gen q)"

definition dst_available :: "nat \<Rightarrow> bool \<Rightarrow> register_info list \<Rightarrow> ss_instr \<Rightarrow> nat \<Rightarrow> bool" where
  "dst_available cycle allowChainedMul registers q i \<longleftrightarrow>
     r_latency (registers ! i) \<le> cycle
   \<and> (q_canReuse q \<or> int i \<noteq> q_src q)
   \<and> (allowChainedMul \<or> q_opGroup q \<noteq> S_IMUL_R \<or> r_lastOpGroup (registers ! i) \<noteq> S_IMUL_R)
   \<and> (r_lastOpGroup (registers ! i) \<noteq> q_opGroup q \<or> r_lastOpPar (registers ! i) \<noteq> q_opGroupPar q)
   \<and> (n_type (q_info q) \<noteq> S_IADD_RS \<or> i \<noteq> 5)"

definition selectDestination ::
  "(bytes \<Rightarrow> bytes) \<Rightarrow> nat \<Rightarrow> bool \<Rightarrow> register_info list \<Rightarrow> ss_instr \<Rightarrow> blake2_gen \<Rightarrow> (ss_instr option) \<times> blake2_gen" where
  "selectDestination H cycle allowChainedMul registers q gen =
     (case selectRegister H (filter (dst_available cycle allowChainedMul registers q) [0..<8]) gen of
        (None, gen) \<Rightarrow> (None, gen)
      | (Some r, gen) \<Rightarrow> (Some (q\<lparr>q_dst := int r\<rparr>), gen))"

definition selectSource ::
  "(bytes \<Rightarrow> bytes) \<Rightarrow> nat \<Rightarrow> register_info list \<Rightarrow> ss_instr \<Rightarrow> blake2_gen \<Rightarrow> (ss_instr option) \<times> blake2_gen" where
  "selectSource H cycle registers q gen =
     (let availableRegisters = filter (\<lambda>i. r_latency (registers ! i) \<le> cycle) [0..<8]
      in if length availableRegisters = 2 \<and> n_type (q_info q) = S_IADD_RS
            \<and> (availableRegisters ! 0 = 5 \<or> availableRegisters ! 1 = 5)
         then (Some (q\<lparr>q_opGroupPar := 5, q_src := 5\<rparr>), gen)
         else case selectRegister H availableRegisters gen of
             (None, gen) \<Rightarrow> (None, gen)
           | (Some r, gen) \<Rightarrow>
               (Some (if q_groupParIsSource q then q\<lparr>q_src := int r, q_opGroupPar := int r\<rparr>
                      else q\<lparr>q_src := int r\<rparr>), gen))"

section \<open>Scheduling\<close>

text \<open>Busy ports: one entry per cycle with the operations on P0, P1 and P5.  The functions return the
  cycle found, \<open>None\<close> for -1, and the ports, changed only when committing.\<close>

type_synonym port_map = "nat list list"

abbreviation (input) "CYCLE_MAP_SIZE \<equiv> (260 :: nat)"
abbreviation (input) "LOOK_FORWARD_CYCLES \<equiv> (4 :: nat)"
abbreviation (input) "MAX_THROWAWAY_COUNT \<equiv> (256 :: nat)"

definition free_port :: "nat \<Rightarrow> port_map \<Rightarrow> nat \<Rightarrow> nat option" where
  "free_port uop portBusy cycle =
     (if uop AND Port_P5 \<noteq> 0 \<and> portBusy ! cycle ! 2 = 0 then Some 2
      else if uop AND Port_P0 \<noteq> 0 \<and> portBusy ! cycle ! 0 = 0 then Some 0
      else if uop AND Port_P1 \<noteq> 0 \<and> portBusy ! cycle ! 1 = 0 then Some 1
      else None)"

function scheduleUop :: "bool \<Rightarrow> nat \<Rightarrow> nat \<Rightarrow> port_map \<Rightarrow> nat \<Rightarrow> nat option \<times> port_map" where
  "scheduleUop commit latency uop portBusy cycle =
     (if cycle < latency + 4
      then case free_port uop portBusy cycle of
          Some p \<Rightarrow> (Some cycle, if commit then portBusy[cycle := (portBusy ! cycle)[p := uop]] else portBusy)
        | None \<Rightarrow> scheduleUop commit latency uop portBusy (cycle + 1)
      else (None, portBusy))"
  by pat_completeness auto
termination by (relation "measure (\<lambda>(c, l, u, p, cycle). l + 4 - cycle)") auto

declare scheduleUop.simps [simp del]

function schedulePair :: "bool \<Rightarrow> nat \<Rightarrow> macro_op \<Rightarrow> port_map \<Rightarrow> nat \<Rightarrow> nat option \<times> port_map" where
  "schedulePair commit latency mop portBusy cycle =
     (if cycle < latency + 4
      then
        let cycle1 = fst (scheduleUop False latency (m_uop1 mop) portBusy cycle);
            cycle2 = fst (scheduleUop False latency (m_uop2 mop) portBusy cycle)
        in if cycle1 \<noteq> None \<and> cycle1 = cycle2
           then (cycle1,
             if commit
             then snd (scheduleUop True latency (m_uop2 mop)
                    (snd (scheduleUop True latency (m_uop1 mop) portBusy (the cycle1))) (the cycle2))
             else portBusy)
           else schedulePair commit latency mop portBusy (cycle + 1)
      else (None, portBusy))"
  by pat_completeness auto
termination by (relation "measure (\<lambda>(c, l, m, p, cycle). l + 4 - cycle)") auto

declare schedulePair.simps [simp del]

definition scheduleMop ::
  "bool \<Rightarrow> nat \<Rightarrow> macro_op \<Rightarrow> port_map \<Rightarrow> nat \<Rightarrow> nat \<Rightarrow> nat option \<times> port_map" where
  "scheduleMop commit latency mop portBusy cycle depCycle =
     (let cycle = (if m_dependent mop then if cycle > depCycle then cycle else depCycle else cycle)
      in if mop_isEliminated mop then (Some cycle, portBusy)
         else if mop_isSimple mop then scheduleUop commit latency (m_uop1 mop) portBusy cycle
         else schedulePair commit latency mop portBusy cycle)"

section \<open>Generating a program\<close>

record ss_state =
  t_gen :: blake2_gen
  t_ports :: port_map
  t_regs :: "register_info list"
  t_instr :: ss_instr
  t_mop :: nat
  t_codeSize :: nat
  t_macroOps :: nat
  t_cycle :: nat
  t_dep :: nat
  t_retire :: nat
  t_saturated :: bool
  t_prog :: "rx_instr list"
  t_mul :: nat
  t_throw :: nat

definition ss_opcount :: "ss_state \<Rightarrow> nat" where
  "ss_opcount t = length (n_ops (q_info (t_instr t)))"

text \<open>How the inner loop goes on: \<open>break\<close>, \<open>continue\<close>, or the rest of the body.\<close>

datatype 'a ctl = Break 'a | Continue 'a | Go 'a

definition ss_limit :: "nat \<Rightarrow> nat" where
  "ss_limit latency = 3 * latency + 2"

text \<open>All macro-operations issued: a new instruction for the slot.\<close>

definition ss_fetch ::
  "(bytes \<Rightarrow> bytes) \<Rightarrow> nat \<Rightarrow> decoder_buffer \<Rightarrow> nat \<Rightarrow> ss_state \<Rightarrow> ss_state ctl option" where
  "ss_fetch H latency buf bufferIndex t =
     (if t_mop t \<ge> ss_opcount t
      then if t_saturated t \<or> length (t_prog t) \<ge> ss_limit latency then Some (Break t)
           else do {
             (q, gen) \<leftarrow> createForSlot H (t_gen t) (d_counts buf ! bufferIndex) (d_index buf)
                (length (d_counts buf) = bufferIndex + 1) (t_instr t);
             Some (Go (t\<lparr>t_instr := q, t_gen := gen, t_mop := 0\<rparr>)) }
      else Some (Go t))"

text \<open>The two look-ahead loops: up to \<open>LOOK_FORWARD_CYCLES\<close> attempts, each failure a stall.\<close>

fun look_forward ::
  "(nat \<Rightarrow> ss_state \<Rightarrow> (ss_instr option) \<times> blake2_gen) \<Rightarrow> nat \<Rightarrow> nat \<times> ss_state \<Rightarrow> bool \<times> nat \<times> ss_state" where
  "look_forward select 0 (scheduleCycle, t) = (False, scheduleCycle, t)"
| "look_forward select (Suc n) (scheduleCycle, t) =
     (case select scheduleCycle t of
        (Some q, gen) \<Rightarrow> (True, scheduleCycle, t\<lparr>t_instr := q, t_gen := gen\<rparr>)
      | (None, gen) \<Rightarrow> look_forward select n (scheduleCycle + 1, t\<lparr>t_gen := gen, t_cycle := t_cycle t + 1\<rparr>))"

definition pick_source :: "(bytes \<Rightarrow> bytes) \<Rightarrow> nat \<Rightarrow> ss_state \<Rightarrow> bool \<times> nat \<times> ss_state" where
  "pick_source H scheduleCycle t =
     (if int (t_mop t) = n_srcOp (q_info (t_instr t))
      then look_forward (\<lambda>c t. selectSource H c (t_regs t) (t_instr t) (t_gen t)) LOOK_FORWARD_CYCLES (scheduleCycle, t)
      else (True, scheduleCycle, t))"

definition pick_destination :: "(bytes \<Rightarrow> bytes) \<Rightarrow> nat \<Rightarrow> ss_state \<Rightarrow> bool \<times> nat \<times> ss_state" where
  "pick_destination H scheduleCycle t =
     (if int (t_mop t) = n_dstOp (q_info (t_instr t))
      then look_forward (\<lambda>c t. selectDestination H c (t_throw t > 0) (t_regs t) (t_instr t) (t_gen t))
             LOOK_FORWARD_CYCLES (scheduleCycle, t)
      else (True, scheduleCycle, t))"

text \<open>No operand was found: throw the instruction away, or abort the decode buffer.\<close>

definition throw_away :: "ss_state \<Rightarrow> ss_state ctl" where
  "throw_away t =
     (if t_throw t < MAX_THROWAWAY_COUNT then Continue (t\<lparr>t_throw := t_throw t + 1, t_mop := ss_opcount t\<rparr>)
      else Break (t\<lparr>t_instr := ss_Null\<rparr>))"

text \<open>The end of the body, once the operands are known.  A program that overflows its buffer is \<open>None\<close>.\<close>

abbreviation (input) "SuperscalarMaxSize \<equiv> (770 :: nat)"

definition ss_issue :: "nat \<Rightarrow> nat \<Rightarrow> nat \<Rightarrow> ss_state \<Rightarrow> ss_state ctl option" where
  "ss_issue latency topCycle scheduleCycle t =
     (let t = t\<lparr>t_throw := 0\<rparr>; info = q_info (t_instr t); mop = n_ops info ! t_mop t;
          (scheduled, ports) = scheduleMop True latency mop (t_ports t) scheduleCycle scheduleCycle;
          t = t\<lparr>t_ports := ports\<rparr>
      in case scheduled of
           None \<Rightarrow> Some (Break (t\<lparr>t_saturated := True\<rparr>))
         | Some c \<Rightarrow>
             let t = t\<lparr>t_dep := c + m_latency mop\<rparr>;
                 t = (if int (t_mop t) = n_resultOp info
                      then t\<lparr>t_retire := t_dep t,
                             t_regs := (t_regs t)[nat (q_dst (t_instr t)) := \<lparr>r_latency = t_dep t,
                               r_lastOpGroup = q_opGroup (t_instr t), r_lastOpPar = q_opGroupPar (t_instr t)\<rparr>]\<rparr>
                      else t);
                 t = t\<lparr>t_codeSize := t_codeSize t + m_size mop, t_mop := t_mop t + 1, t_macroOps := t_macroOps t + 1,
                       t_saturated := (t_saturated t \<or> c \<ge> latency), t_cycle := topCycle\<rparr>
             in if t_mop t \<ge> ss_opcount t
                then if length (t_prog t) \<ge> SuperscalarMaxSize then None
                     else Some (Go (t\<lparr>t_prog := t_prog t @ [toInstr (t_instr t)],
                                     t_mul := t_mul t + (if isMultiplication (n_type info) then 1 else 0)\<rparr>))
                else Some (Go t))"

text \<open>The body of the inner loop: \<open>Go\<close> means that the slot is used up.\<close>

definition ss_body ::
  "(bytes \<Rightarrow> bytes) \<Rightarrow> nat \<Rightarrow> decoder_buffer \<Rightarrow> nat \<Rightarrow> ss_state \<Rightarrow> ss_state ctl option" where
  "ss_body H latency buf bufferIndex t =
     (let topCycle = t_cycle t in do {
        fetched \<leftarrow> ss_fetch H latency buf bufferIndex t;
        case fetched of
          Break t \<Rightarrow> Some (Break t)
        | Continue t \<Rightarrow> Some (Continue t)
        | Go t \<Rightarrow>
          (case fst (scheduleMop False latency (n_ops (q_info (t_instr t)) ! t_mop t) (t_ports t) (t_cycle t) (t_dep t)) of
             None \<Rightarrow> Some (Break (t\<lparr>t_saturated := True\<rparr>))
           | Some scheduleCycle \<Rightarrow>
              (case pick_source H scheduleCycle t of
                 (False, _, t) \<Rightarrow> Some (throw_away t)
               | (True, scheduleCycle, t) \<Rightarrow>
                  (case pick_destination H scheduleCycle t of
                     (False, _, t) \<Rightarrow> Some (throw_away t)
                   | (True, scheduleCycle, t) \<Rightarrow> ss_issue latency topCycle scheduleCycle t))) })"

lemma ss_fetch_throw:
  assumes "ss_fetch H latency buf i t = Some r"
  shows "(\<forall>t'. r = Go t' \<longrightarrow> t_throw t' = t_throw t) \<and> (\<forall>t'. r \<noteq> Continue t')"
  using assms by (auto simp: ss_fetch_def bind_eq_Some_conv split: if_splits)

lemma look_forward_throw: "look_forward sel n (c, t) = (b, c', t') \<Longrightarrow> t_throw t' = t_throw t"
  by (induction n arbitrary: c t) (auto split: prod.splits option.splits)

lemma pick_throw:
  "pick_source H c t = (b, c', t') \<Longrightarrow> t_throw t' = t_throw t"
  "pick_destination H c t = (b, c', t') \<Longrightarrow> t_throw t' = t_throw t"
  by (auto simp: pick_source_def pick_destination_def dest: look_forward_throw split: if_splits)

lemma throw_away_throw: "throw_away t = Continue t' \<Longrightarrow> t_throw t' = Suc (t_throw t) \<and> t_throw t < 256"
  by (auto simp: throw_away_def split: if_splits)

lemma ss_issue_no_continue: "ss_issue latency tc c t \<noteq> Some (Continue t')"
  by (auto simp: ss_issue_def Let_def split: prod.splits option.splits if_splits)

lemma ss_body_continue:
  assumes "ss_body H latency buf i t = Some (Continue t')"
  shows "t_throw t' = Suc (t_throw t) \<and> t_throw t < 256"
proof -
  obtain r where r: "ss_fetch H latency buf i t = Some r"
    using assms by (auto simp: ss_body_def Let_def bind_eq_Some_conv)
  note F = ss_fetch_throw [OF r]
  obtain t1 where t1: "r = Go t1" using assms F r by (cases r) (auto simp: ss_body_def Let_def)
  obtain c where c: "fst (scheduleMop False latency (n_ops (q_info (t_instr t1)) ! t_mop t1) (t_ports t1) (t_cycle t1) (t_dep t1)) = Some c"
    using assms r t1 by (auto simp: ss_body_def Let_def split: option.splits)
  obtain b2 c2 t2 where 2: "pick_source H c t1 = (b2, c2, t2)" by (cases "pick_source H c t1") auto
  obtain b3 c3 t3 where 3: "pick_destination H c2 t2 = (b3, c3, t3)" by (cases "pick_destination H c2 t2") auto
  have "throw_away t2 = Continue t' \<or> throw_away t3 = Continue t'"
    using assms r t1 c 2 3 ss_issue_no_continue by (cases b2; cases b3) (auto simp: ss_body_def Let_def)
  then show ?thesis
    using throw_away_throw [of t2 t'] throw_away_throw [of t3 t'] pick_throw(1) [OF 2] pick_throw(2) [OF 3] F t1 by auto
qed

text \<open>All slots of a decode buffer.  Every turn uses up a slot or throws an instruction away, and at most
  256 are thrown away in a row.\<close>

function ss_slots ::
  "(bytes \<Rightarrow> bytes) \<Rightarrow> nat \<Rightarrow> decoder_buffer \<Rightarrow> nat \<Rightarrow> ss_state \<Rightarrow> ss_state option" where
  "ss_slots H latency buf bufferIndex t =
     (if bufferIndex < length (d_counts buf)
      then do {
        r \<leftarrow> ss_body H latency buf bufferIndex t;
        case r of
          Break t \<Rightarrow> Some t
        | Continue t \<Rightarrow> ss_slots H latency buf bufferIndex t
        | Go t \<Rightarrow> ss_slots H latency buf (bufferIndex + 1) t }
      else Some t)"
  by pat_completeness auto
termination
proof (relation "measures [\<lambda>(H, l, buf, i, t). length (d_counts buf) - i, \<lambda>(H, l, buf, i, t). 256 - t_throw t]")
  fix H :: "bytes \<Rightarrow> bytes" and latency buf bufferIndex t r t'
  assume "bufferIndex < length (d_counts buf)" and "ss_body H latency buf bufferIndex t = Some r" and "r = Continue t'"
  then show "((H, latency, buf, bufferIndex, t'), H, latency, buf, bufferIndex, t)
    \<in> measures [\<lambda>(H, l, buf, i, t). length (d_counts buf) - i, \<lambda>(H, l, buf, i, t). 256 - t_throw t]"
    using ss_body_continue [of H latency buf bufferIndex t t'] by (simp, linarith)
qed auto

declare ss_slots.simps [simp del]

text \<open>The outer loop: the decode cycle at which it ends, and the state.\<close>

function ss_cycles :: "(bytes \<Rightarrow> bytes) \<Rightarrow> nat \<Rightarrow> nat \<Rightarrow> ss_state \<Rightarrow> (nat \<times> ss_state) option" where
  "ss_cycles H latency decodeCycle t =
     (if decodeCycle < latency \<and> \<not> t_saturated t \<and> length (t_prog t) < ss_limit latency
      then
        let (buf, gen) = fetchNext H (n_type (q_info (t_instr t))) decodeCycle (t_mul t) (t_gen t)
        in do {
          t \<leftarrow> ss_slots H latency buf 0 (t\<lparr>t_gen := gen\<rparr>);
          ss_cycles H latency (decodeCycle + 1) (t\<lparr>t_cycle := t_cycle t + 1\<rparr>) }
      else Some (decodeCycle, t))"
  by pat_completeness auto
termination by (relation "measure (\<lambda>(H, l, d, t). l - d)") auto

declare ss_cycles.simps [simp del]

definition ss_start :: "blake2_gen \<Rightarrow> ss_state" where
  "ss_start gen = \<lparr>t_gen = gen, t_ports = replicate CYCLE_MAP_SIZE [0, 0, 0], t_regs = replicate 8 RegisterInfo,
     t_instr = ss_Null, t_mop = 0, t_codeSize = 0, t_macroOps = 0, t_cycle = 0, t_dep = 0, t_retire = 0,
     t_saturated = False, t_prog = [], t_mul = 0, t_throw = 0\<rparr>"

text \<open>The program, without the field \<open>ipc\<close>, a floating-point statistic nothing reads.\<close>

record ss_program =
  u_instrs :: "rx_instr list"
  u_addrReg :: nat
  u_codeSize :: nat
  u_macroOps :: nat
  u_decodeCycles :: nat
  u_cpuLatency :: nat
  u_asicLatency :: nat
  u_mulCount :: nat
  u_cpuLatencies :: "nat list"
  u_asicLatencies :: "nat list"

definition asic_step :: "rx_instr \<Rightarrow> nat list \<Rightarrow> nat list" where
  "asic_step instr lat =
     (let dst = unat (i_dst instr); src = unat (i_src instr);
          latDst = lat ! dst + 1;
          latSrc = (if i_dst instr \<noteq> i_src instr then lat ! src + 1 else 0)
      in lat[dst := if latDst > latSrc then latDst else latSrc])"

definition address_register :: "nat list \<Rightarrow> nat \<times> nat" where
  "address_register lat =
     fold (\<lambda>i (latMax, reg). if lat ! i > latMax then (lat ! i, i) else (latMax, reg)) [0..<8] (0, 0)"

definition generateSuperscalar :: "(bytes \<Rightarrow> bytes) \<Rightarrow> nat \<Rightarrow> blake2_gen \<Rightarrow> (ss_program \<times> blake2_gen) option" where
  "generateSuperscalar H latency gen = do {
     (decodeCycle, t) \<leftarrow> ss_cycles H latency 0 (ss_start gen);
     let asic = fold asic_step (t_prog t) (replicate 8 0);
     let (asicLatencyMax, addressReg) = address_register asic;
     Some (\<lparr>u_instrs = t_prog t, u_addrReg = addressReg, u_codeSize = t_codeSize t, u_macroOps = t_macroOps t,
        u_decodeCycles = decodeCycle, u_cpuLatency = t_retire t, u_asicLatency = asicLatencyMax,
        u_mulCount = t_mul t, u_cpuLatencies = map r_latency (t_regs t), u_asicLatencies = asic\<rparr>, t_gen t) }"

section \<open>Executing a program\<close>

text \<open>\<open>None\<close> is the \<open>UNREACHABLE\<close> opcode, or a reciprocal that does not exist.\<close>

definition ss_execute_instr :: "rx_instr \<Rightarrow> u64 list \<Rightarrow> u64 list option" where
  "ss_execute_instr instr r =
     (let dst = unat (i_dst instr); src = unat (i_src instr); op = unat (i_opcode instr); imm = i_imm32 instr in
      if op = 0 then Some (r[dst := r ! dst - r ! src])
      else if op = 1 then Some (r[dst := r ! dst XOR r ! src])
      else if op = 2 then Some (r[dst := r ! dst + push_bit (getModShift instr) (r ! src)])
      else if op = 3 then Some (r[dst := r ! dst * r ! src])
      else if op = 4 then Some (r[dst := irotr64 (r ! dst) (unat imm)])
      else if op = 5 \<or> op = 7 \<or> op = 9 then Some (r[dst := r ! dst + signExtend2sCompl imm])
      else if op = 6 \<or> op = 8 \<or> op = 10 then Some (r[dst := r ! dst XOR signExtend2sCompl imm])
      else if op = 11 then Some (r[dst := mulh (r ! dst) (r ! src)])
      else if op = 12 then Some (r[dst := smulh (r ! dst) (r ! src)])
      else if op = 13 then map_option (\<lambda>k. r[dst := r ! dst * k]) (randomx_reciprocal (ucast imm))
      else None)"

definition executeSuperscalar :: "u64 list \<Rightarrow> ss_program \<Rightarrow> u64 list option" where
  "executeSuperscalar r prog = fold_opt ss_execute_instr (u_instrs prog) r"

end
