(* ===== verification/Rx_Superscalar_Ok.thy ===== *)
theory Rx_Superscalar_Ok
  imports Rx_Superscalar
begin

text \<open>
  What holds of every generated superscalar program, whatever the pseudo-random stream: it fits its
  buffer, names existing registers, and satisfies the preconditions of the routines that execute it
  (rotation counts, reciprocals).  And the generator returns whenever its two redrawing loops do.
\<close>

section \<open>Valid instructions\<close>

definition ss_valid :: "rx_instr \<Rightarrow> bool" where
  "ss_valid ins \<longleftrightarrow>
     (let dst = unat (i_dst ins); src = unat (i_src ins); op = unat (i_opcode ins); imm = i_imm32 ins in
      dst < 8 \<and> src < 8 \<and> op < 14
    \<and> (op < 4 \<longrightarrow> src \<noteq> dst) \<and> (op = 2 \<longrightarrow> dst \<noteq> 5)
    \<and> (op = 4 \<longrightarrow> 0 < unat imm \<and> unat imm < 64)
    \<and> (op = 13 \<longrightarrow> \<not> isZeroOrPowerOf2 (ucast imm)))"

definition imm_ok :: "ss_type \<Rightarrow> u32 \<Rightarrow> bool" where
  "imm_ok t imm \<longleftrightarrow> (t = S_IROR_C \<longrightarrow> 0 < unat imm \<and> unat imm < 64) \<and> (t = S_IMUL_RCP \<longrightarrow> \<not> isZeroOrPowerOf2 (ucast imm))"

text \<open>An instruction under construction: what is selected is a register, and respects the restrictions.\<close>

definition q_ok :: "ss_instr \<Rightarrow> bool" where
  "q_ok q \<longleftrightarrow> (let t = n_type (q_info q) in
     q_info q = ss_info_of t \<and> t \<noteq> S_INVALID \<and> imm_ok t (q_imm32 q)
   \<and> (q_canReuse q \<longleftrightarrow> t = S_IMULH_R \<or> t = S_ISMULH_R)
   \<and> (q_src q = -1 \<or> (0 \<le> q_src q \<and> q_src q < 8))
   \<and> (q_dst q = -1 \<or> (0 \<le> q_dst q \<and> q_dst q < 8 \<and> (q_canReuse q \<or> q_dst q \<noteq> q_src q) \<and> (t = S_IADD_RS \<longrightarrow> q_dst q \<noteq> 5)))
   \<and> (n_srcOp (q_info q) = -1 \<longrightarrow> q_src q = -1))"

text \<open>What is selected before macro-operation k is issued.\<close>

definition q_at :: "ss_instr \<Rightarrow> nat \<Rightarrow> bool" where
  "q_at q k \<longleftrightarrow> (0 \<le> n_srcOp (q_info q) \<and> n_srcOp (q_info q) < int k \<longrightarrow> q_src q \<noteq> -1)
     \<and> (n_dstOp (q_info q) < int k \<longrightarrow> q_dst q \<noteq> -1) \<and> (k = 0 \<longrightarrow> q_dst q = -1)"

lemma ss_info_facts:
  "n_type (ss_info_of t) = t"
  "t \<noteq> S_INVALID \<Longrightarrow> 0 < length (n_ops (ss_info_of t))"
  "t \<noteq> S_INVALID \<Longrightarrow> n_dstOp (ss_info_of t) < int (length (n_ops (ss_info_of t))) \<and> 0 \<le> n_dstOp (ss_info_of t)"
  "t \<noteq> S_INVALID \<Longrightarrow> n_srcOp (ss_info_of t) < int (length (n_ops (ss_info_of t))) \<and> -1 \<le> n_srcOp (ss_info_of t)"
  "t \<noteq> S_INVALID \<Longrightarrow> n_resultOp (ss_info_of t) < int (length (n_ops (ss_info_of t)))"
  by (cases t; simp add: info1_def)+

lemma ss_info_src:
  "n_srcOp (ss_info_of t) = 0 \<longleftrightarrow> t \<in> {S_ISUB_R, S_IXOR_R, S_IADD_RS, S_IMUL_R, S_INVALID}"
  "0 < n_srcOp (ss_info_of t) \<longleftrightarrow> t \<in> {S_IMULH_R, S_ISMULH_R}"
  by (cases t; simp add: info1_def)+

lemma toInstr_valid:
  assumes "q_ok q" and "q_at q (length (n_ops (q_info q)))"
  shows "ss_valid (toInstr q)"
proof -
  define t where "t = n_type (q_info q)"
  have q: "q_info q = ss_info_of t" "t \<noteq> S_INVALID" "imm_ok t (q_imm32 q)"
    "q_canReuse q \<longleftrightarrow> t = S_IMULH_R \<or> t = S_ISMULH_R"
    "n_srcOp (ss_info_of t) = -1 \<longrightarrow> q_src q = -1" "q_src q = -1 \<or> (0 \<le> q_src q \<and> q_src q < 8)"
    and dst: "q_dst q = -1 \<or> (0 \<le> q_dst q \<and> q_dst q < 8 \<and> (q_canReuse q \<or> q_dst q \<noteq> q_src q) \<and> (t = S_IADD_RS \<longrightarrow> q_dst q \<noteq> 5))"
    using assms(1) [unfolded q_ok_def Let_def, folded t_def] by auto
  note F = ss_info_facts(2-5) [OF q(2)] ss_info_facts(1)
  have d: "0 \<le> q_dst q" "q_dst q < 8" "q_canReuse q \<or> q_dst q \<noteq> q_src q" "t = S_IADD_RS \<Longrightarrow> q_dst q \<noteq> 5"
    using assms(2) dst F(2) unfolding q_at_def q(1) by auto
  have s: "n_srcOp (ss_info_of t) \<noteq> -1 \<Longrightarrow> 0 \<le> q_src q \<and> q_src q < 8"
    using assms(2) F(3) q(6) unfolding q_at_def q(1) by auto
  have small: "unat (of_int x :: u8) = nat x" if "0 \<le> x" "x < 256" for x
    using that by (simp add: unat_eq_nat_uint uint_word_of_int_eq take_bit_int_eq_self)
  define src where "src = (if q_src q \<ge> 0 then q_src q else q_dst q)"
  have src: "0 \<le> src" "src < 8" using d q(6) by (auto simp: src_def)
  have v: "unat (i_dst (toInstr q)) = nat (q_dst q)" "unat (i_src (toInstr q)) = nat src"
    "unat (i_opcode (toInstr q)) = nat (ss_code t)" "i_imm32 (toInstr q) = q_imm32 q"
    using d src small by (simp_all add: toInstr_def src_def [symmetric] t_def [symmetric])
      (cases t; use q(2) small in simp)+
  have "ss_code t < 14" "0 \<le> ss_code t" using q(2) by (cases t; simp)+
  moreover have "ss_code t < 4 \<Longrightarrow> src \<noteq> q_dst q"
    using s d(3) q(2,4) by (cases t) (auto simp: info1_def src_def)
  moreover have "ss_code t = 2 \<Longrightarrow> t = S_IADD_RS" "ss_code t = 4 \<Longrightarrow> t = S_IROR_C" "ss_code t = 13 \<Longrightarrow> t = S_IMUL_RCP"
    by (cases t; simp)+
  moreover have N: "nat (ss_code t) < 4 \<longleftrightarrow> ss_code t < 4" "nat (ss_code t) < 14 \<longleftrightarrow> ss_code t < 14"
    "nat (ss_code t) = 2 \<longleftrightarrow> ss_code t = 2" "nat (ss_code t) = 4 \<longleftrightarrow> ss_code t = 4" "nat (ss_code t) = 13 \<longleftrightarrow> ss_code t = 13"
    "nat src = nat (q_dst q) \<longleftrightarrow> src = q_dst q" "nat (q_dst q) = 5 \<longleftrightarrow> q_dst q = 5"
    "nat src < 8" "nat (q_dst q) < 8"
    using d(1,2) src by linarith+
  ultimately show ?thesis
    using d(4) q(3) unfolding ss_valid_def Let_def v imm_ok_def N(1-7) by auto
qed

section \<open>Creation and selection\<close>

lemma unat_and_63: "unat (ucast (b AND 63 :: u8) :: u32) < 64"
proof -
  have "unat (b AND 63) \<le> unat (63 :: u8)" using word_and_le1 [of b 63] by (simp add: word_le_nat_alt)
  then show ?thesis by (simp add: unat_ucast_up)
qed

lemma draw_rotation_ok:
  assumes "draw_rotation H gen = Some (imm, gen')"
  shows "0 < unat imm \<and> unat imm < 64"
proof -
  have "0 < unat (fst r) \<and> unat (fst r) < 64" if "draw_rotation H gen = Some r" for r
    using that
  proof (rule draw_rotation.raw_induct [rotated])
    fix draw :: "(bytes \<Rightarrow> bytes) \<Rightarrow> blake2_gen \<Rightarrow> (u32 \<times> blake2_gen) option" and H gen r
    assume IH: "\<And>H gen r. draw H gen = Some r \<Longrightarrow> 0 < unat (fst r) \<and> unat (fst r) < 64"
      and r: "(let (b, gen) = gen_getByte H gen; imm32 = ucast (b AND 63)
        in if imm32 = 0 then draw H gen else Some (imm32, gen)) = Some r"
    then show "0 < unat (fst r) \<and> unat (fst r) < 64"
      using unat_and_63 by (auto simp: Let_def unat_gt_0 split: prod.splits if_splits)
  qed
  from this [OF assms] show ?thesis by simp
qed

lemma draw_divisor_ok:
  assumes "draw_divisor H gen = Some (imm, gen')"
  shows "\<not> isZeroOrPowerOf2 (ucast imm)"
proof -
  have "\<not> isZeroOrPowerOf2 (ucast (fst r))" if "draw_divisor H gen = Some r" for r
    using that
  proof (rule draw_divisor.raw_induct [rotated])
    fix draw :: "(bytes \<Rightarrow> bytes) \<Rightarrow> blake2_gen \<Rightarrow> (u32 \<times> blake2_gen) option" and H gen r
    assume "\<And>H gen r. draw H gen = Some r \<Longrightarrow> \<not> isZeroOrPowerOf2 (ucast (fst r))"
      and "(let (imm32, gen) = gen_getUInt32 H gen
        in if isZeroOrPowerOf2 (ucast imm32) then draw H gen else Some (imm32, gen)) = Some r"
    then show "\<not> isZeroOrPowerOf2 (ucast (fst r))"
      by (cases "gen_getUInt32 H gen" rule: prod.exhaust_sel) (auto simp: case_prod_beta split: if_splits)
  qed
  from this [OF assms] show ?thesis by simp
qed

lemma ss_create_ok:
  assumes "ss_create H t gen q = Some (q', gen')" and "t \<noteq> S_INVALID"
  shows "q_ok q' \<and> q_at q' 0"
  using assms ss_info_facts(3) [OF assms(2)]
  by (cases t)
    (auto simp: ss_create_def Let_def q_ok_def q_at_def imm_ok_def ss_info_facts(1) bind_eq_Some_conv
      simp del: ss_info_of.simps split: prod.splits dest: draw_rotation_ok draw_divisor_ok)

lemma and_1_less: "unat (b AND 1 :: u8) < 2" and and_3_less: "unat (b AND 3 :: u8) < 4"
  using word_and_le1 [of b 1] word_and_le1 [of b 3] by (simp_all add: word_le_nat_alt)

lemma nth_two: "[a, b] ! unat (x AND 1 :: u8) = y \<Longrightarrow> y = a \<or> y = b"
  using and_1_less [of x] by (auto simp: less_Suc_eq numeral_2_eq_2)

lemma nth_four: "[a, b, c, d] ! unat (x AND 3 :: u8) = y \<Longrightarrow> y = a \<or> y = b \<or> y = c \<or> y = d"
  using and_3_less [of x] by (auto simp: less_Suc_eq numeral_eq_Suc)

definition buffer_ok :: "decoder_buffer \<Rightarrow> bool" where
  "buffer_ok buf \<longleftrightarrow> set (d_counts buf) \<subseteq> {3, 4, 7, 8, 9, 10}"

lemma ss_slot_type_valid:
  assumes "slotSize \<in> {3, 4, 7, 8, 9, 10}"
  shows "fst (ss_slot_type H gen slotSize fetchType isLast) \<noteq> S_INVALID"
  using assms
  by (auto simp: ss_slot_type_def Let_def case_prod_beta simp del: and_one_eq dest!: nth_two nth_four)

lemma fetchNext_ok: "buffer_ok (fst (fetchNext H t cycle mulCount gen))"
proof -
  have "buffer_ok (decodeBuffers ! unat (b AND 3))" for b :: u8
    using nth_four [of decodeBuffer484 decodeBuffer7333 decodeBuffer3733 decodeBuffer493 b, OF refl]
    by (auto simp: decodeBuffers_def buffer_ok_def decodeBuffer484_def decodeBuffer7333_def decodeBuffer3733_def decodeBuffer493_def)
  then show ?thesis
    by (auto simp: fetchNext_def fetchNextDefault_def Let_def buffer_ok_def decodeBuffer484_def decodeBuffer493_def
        decodeBuffer4444_def decodeBuffer3310_def split: prod.splits)
qed

lemma selectRegister_member:
  assumes "selectRegister H rs gen = (Some r, gen')"
  shows "r \<in> set rs"
proof (cases "length rs > 1")
  case True
  have "n mod length rs < length rs" for n using True by (intro mod_less_divisor) linarith
  then show ?thesis using assms True by (auto simp: selectRegister_def Let_def split: prod.splits if_splits)
qed (use assms in \<open>auto simp: selectRegister_def split: if_splits\<close>)

lemma selectSource_ok:
  assumes "selectSource H c regs q gen = (Some q', gen')" and "q_ok q" and "q_at q k" and "int k = n_srcOp (q_info q)"
  shows "q_ok q' \<and> q_at q' k \<and> q_src q' \<noteq> -1 \<and> n_dstOp (q_info q') = n_dstOp (q_info q) \<and> q_info q' = q_info q"
proof -
  let ?t = "n_type (q_info q)"
  have info: "q_info q = ss_info_of ?t" "?t \<noteq> S_INVALID" using assms(2) by (simp_all add: q_ok_def Let_def)
  have q': "0 \<le> q_src q'" "q_src q' < 8" "q_info q' = q_info q" "q_dst q' = q_dst q" "q_imm32 q' = q_imm32 q"
    "q_canReuse q' = q_canReuse q"
  proof -
    define rs where "rs = filter (\<lambda>i. r_latency (regs ! i) \<le> c) [0..<8]"
    have rs: "r < 8" if "selectRegister H rs gen = (Some r, g)" for r g
      using selectRegister_member [OF that] by (simp add: rs_def del: upt_conv_Cons)
    have "0 \<le> q_src q' \<and> q_src q' < 8 \<and> q_info q' = q_info q \<and> q_dst q' = q_dst q \<and> q_imm32 q' = q_imm32 q
        \<and> q_canReuse q' = q_canReuse q"
      using assms(1) rs unfolding selectSource_def Let_def rs_def [symmetric]
      by (auto split: prod.splits option.splits if_splits)
    then show "0 \<le> q_src q'" "q_src q' < 8" "q_info q' = q_info q" "q_dst q' = q_dst q" "q_imm32 q' = q_imm32 q"
      "q_canReuse q' = q_canReuse q" by blast+
  qed
  have "q_dst q = -1 \<or> q_canReuse q"
    using assms(2-4) ss_info_src [of ?t] info by (auto simp: q_ok_def q_at_def Let_def)
  then show ?thesis
    using assms(2-4) q' by (auto simp: q_ok_def q_at_def Let_def)
qed

lemma selectDestination_ok:
  assumes "selectDestination H c chained regs q gen = (Some q', gen')" and "q_ok q" and "q_at q k" and "int k = n_dstOp (q_info q)"
  shows "q_ok q' \<and> q_dst q' \<noteq> -1 \<and> q_src q' = q_src q \<and> q_info q' = q_info q \<and> 0 \<le> q_dst q' \<and> q_dst q' < 8"
proof -
  obtain r where r: "q' = q\<lparr>q_dst := int r\<rparr>" "r < 8" "dst_available c chained regs q r"
  proof -
    define rs where "rs = filter (dst_available c chained regs q) [0..<8]"
    have rs: "r < 8 \<and> dst_available c chained regs q r" if "selectRegister H rs gen = (Some r, g)" for r g
      using selectRegister_member [OF that] by (simp add: rs_def del: upt_conv_Cons)
    show thesis
      using assms(1) rs that unfolding selectDestination_def rs_def [symmetric]
      by (auto split: prod.splits option.splits)
  qed
  then show ?thesis using assms(2,3) by (auto simp: q_ok_def q_at_def dst_available_def Let_def)
qed

section \<open>The invariant of the generator\<close>

definition ss_base :: "nat \<Rightarrow> ss_state \<Rightarrow> bool" where
  "ss_base latency t \<longleftrightarrow> length (t_regs t) = 8 \<and> length (t_prog t) \<le> ss_limit latency \<and> (\<forall>ins\<in>set (t_prog t). ss_valid ins)"

definition ss_full :: "nat \<Rightarrow> ss_state \<Rightarrow> bool" where
  "ss_full latency t \<longleftrightarrow> ss_base latency t \<and>
     (t_mop t < ss_opcount t \<longrightarrow> q_ok (t_instr t) \<and> q_at (t_instr t) (t_mop t) \<and> length (t_prog t) < ss_limit latency)"

definition ss_after :: "nat \<Rightarrow> ss_state ctl \<Rightarrow> bool" where
  "ss_after latency r = (case r of
       Break t \<Rightarrow> ss_base latency t \<and> (t_saturated t \<or> ss_full latency t)
     | Continue t \<Rightarrow> ss_full latency t
     | Go t \<Rightarrow> ss_full latency t)"

lemma ss_Null_full: "ss_base latency t \<Longrightarrow> ss_full latency (t\<lparr>t_instr := ss_Null\<rparr>)"
  by (simp add: ss_full_def ss_base_def ss_opcount_def ss_Null_def)

lemma ss_fetch_ok:
  assumes "ss_fetch H latency buf i t = Some r" and "ss_full latency t" and "buffer_ok buf" and "i < length (d_counts buf)"
  shows "ss_after latency r \<and> (\<forall>t'. r = Go t' \<longrightarrow> t_mop t' < ss_opcount t')"
proof (cases "t_mop t \<ge> ss_opcount t")
  case True
  show ?thesis
  proof (cases "t_saturated t \<or> length (t_prog t) \<ge> ss_limit latency")
    case False
    have slot: "d_counts buf ! i \<in> {3, 4, 7, 8, 9, 10}"
      using assms(3,4) nth_mem unfolding buffer_ok_def by blast
    obtain q gen where q: "createForSlot H (t_gen t) (d_counts buf ! i) (d_index buf)
        (length (d_counts buf) = i + 1) (t_instr t) = Some (q, gen)" "r = Go (t\<lparr>t_instr := q, t_gen := gen, t_mop := 0\<rparr>)"
      using assms(1) True False by (auto simp: ss_fetch_def bind_eq_Some_conv)
    have "q_ok q \<and> q_at q 0"
      using q(1) ss_slot_type_valid [OF slot, of H "t_gen t" "d_index buf" "length (d_counts buf) = i + 1"] ss_create_ok
      by (auto simp: createForSlot_def case_prod_beta)
    moreover from this have "0 < length (n_ops (q_info q))"
      using ss_info_facts(2) by (metis q_ok_def)
    ultimately show ?thesis
      using q(2) assms(2) False by (simp add: ss_after_def ss_full_def ss_base_def ss_opcount_def)
  qed (use assms True in \<open>auto simp: ss_fetch_def ss_after_def ss_full_def\<close>)
qed (use assms in \<open>auto simp: ss_fetch_def ss_after_def\<close>)

text \<open>What the look-ahead loops change.\<close>

definition same_work :: "ss_state \<Rightarrow> ss_state \<Rightarrow> bool" where
  "same_work t t' \<longleftrightarrow> t_ports t' = t_ports t \<and> t_regs t' = t_regs t \<and> t_mop t' = t_mop t \<and> t_prog t' = t_prog t
     \<and> t_saturated t' = t_saturated t"

lemma look_forward_ok:
  assumes "look_forward (\<lambda>c t. f c (t_throw t) (t_regs t) (t_instr t) (t_gen t)) n (c, t) = (b, c', t')"
  shows "same_work t t' \<and> (if b then \<exists>c thr gen gen'. f c thr (t_regs t) (t_instr t) gen = (Some (t_instr t'), gen')
      else t_instr t' = t_instr t)"
  using assms
proof (induction n arbitrary: c t)
  case (Suc n)
  then show ?case
    by (fastforce simp: same_work_def split: prod.splits option.splits if_splits)
qed (auto simp: same_work_def)

lemma pick_source_ok:
  assumes "pick_source H c t = (b, c', t')" and "ss_full latency t" and "t_mop t < ss_opcount t"
  shows "ss_base latency t' \<and> (b \<longrightarrow> ss_full latency t' \<and> t_mop t' < ss_opcount t'
    \<and> (n_srcOp (q_info (t_instr t')) = int (t_mop t') \<longrightarrow> q_src (t_instr t') \<noteq> -1))"
proof (cases "int (t_mop t) = n_srcOp (q_info (t_instr t))")
  case True
  have q: "q_ok (t_instr t)" "q_at (t_instr t) (t_mop t)" using assms(2,3) by (simp_all add: ss_full_def)
  have L: "look_forward (\<lambda>c t. (\<lambda>c thr regs q g. selectSource H c regs q g) c (t_throw t) (t_regs t) (t_instr t) (t_gen t)) 4 (c, t) = (b, c', t')"
    using assms(1) True by (simp add: pick_source_def)
  have S: "same_work t t'" "b \<Longrightarrow> \<exists>c gen gen'. selectSource H c (t_regs t) (t_instr t) gen = (Some (t_instr t'), gen')"
    using look_forward_ok [OF L] by (auto split: if_splits)
  show ?thesis
  proof (cases b)
    case True
    then obtain c gen gen' where "selectSource H c (t_regs t) (t_instr t) gen = (Some (t_instr t'), gen')"
      using S(2) by blast
    from selectSource_ok [OF this q \<open>int (t_mop t) = _\<close>] show ?thesis
      using assms(2,3) S(1) by (simp add: ss_full_def ss_base_def ss_opcount_def same_work_def)
  qed (use assms(2) S(1) in \<open>simp add: ss_full_def ss_base_def same_work_def\<close>)
next
  case False
  then show ?thesis using assms by (auto simp: pick_source_def ss_full_def)
qed

lemma pick_destination_ok:
  assumes "pick_destination H c t = (b, c', t')" and "ss_full latency t" and "t_mop t < ss_opcount t"
    and "n_srcOp (q_info (t_instr t)) = int (t_mop t) \<longrightarrow> q_src (t_instr t) \<noteq> -1"
  shows "ss_base latency t' \<and> (b \<longrightarrow> q_ok (t_instr t') \<and> q_at (t_instr t') (Suc (t_mop t')) \<and> t_mop t' < ss_opcount t'
    \<and> length (t_prog t') < ss_limit latency)"
proof -
  have q: "q_ok (t_instr t)" "q_at (t_instr t) (t_mop t)" "length (t_prog t) < ss_limit latency" "ss_base latency t"
    using assms(2,3) by (simp_all add: ss_full_def)
  show ?thesis
  proof (cases "int (t_mop t) = n_dstOp (q_info (t_instr t))")
    case True
    have L: "look_forward (\<lambda>c t. (\<lambda>c thr regs q g. selectDestination H c (thr > 0) regs q g) c (t_throw t) (t_regs t) (t_instr t) (t_gen t)) 4 (c, t) = (b, c', t')"
      using assms(1) True by (simp add: pick_destination_def)
    have S: "same_work t t'" "b \<Longrightarrow> \<exists>c thr gen gen'. selectDestination H c thr (t_regs t) (t_instr t) gen = (Some (t_instr t'), gen')"
      using look_forward_ok [OF L] by (auto split: if_splits)
    show ?thesis
    proof (cases b)
      case True
      then obtain c thr gen gen' where "selectDestination H c thr (t_regs t) (t_instr t) gen = (Some (t_instr t'), gen')"
        using S(2) by blast
      from selectDestination_ok [OF this q(1,2) \<open>int (t_mop t) = _\<close>] show ?thesis
        using q assms(3,4) S(1) by (auto simp: ss_base_def ss_opcount_def same_work_def q_at_def)
    qed (use q S(1) in \<open>simp add: ss_base_def same_work_def\<close>)
  next
    case False
    have t': "t' = t" using assms(1) False by (auto simp: pick_destination_def)
    show ?thesis using q assms(3,4) False unfolding t' by (auto simp: q_at_def)
  qed
qed

lemma throw_away_ok: "ss_base latency t \<Longrightarrow> ss_after latency (throw_away t)"
  using ss_Null_full [of latency t]
  by (auto simp: throw_away_def ss_after_def ss_full_def ss_base_def ss_opcount_def)

lemma ss_issue_ok:
  assumes "ss_base latency t" and "q_ok (t_instr t)" and "q_at (t_instr t) (Suc (t_mop t))" and "t_mop t < ss_opcount t"
    and "length (t_prog t) < ss_limit latency" and "ss_limit latency \<le> 770"
  shows "\<exists>r. ss_issue latency tc c t = Some r \<and> ss_after latency r"
proof -
  obtain s ports where s: "scheduleMop True latency (n_ops (q_info (t_instr t)) ! t_mop t) (t_ports t) c c = (s, ports)"
    by fastforce
  have valid: "ss_valid (toInstr (t_instr t))" if "ss_opcount t \<le> Suc (t_mop t)"
  proof -
    have "Suc (t_mop t) = length (n_ops (q_info (t_instr t)))" using that assms(4) by (simp add: ss_opcount_def)
    then show ?thesis using toInstr_valid assms(2,3) by metis
  qed
  show ?thesis
  proof (cases s)
    case None
    then show ?thesis using assms(1) by (simp add: ss_issue_def s ss_after_def ss_base_def)
  next
    case (Some d)
    have at0: "q_at (t_instr t) (Suc (t_mop t))" by (rule assms(3))
    show ?thesis
      using assms valid Some
      by (auto simp: ss_issue_def Let_def s ss_after_def ss_full_def ss_base_def ss_opcount_def)
  qed
qed

text \<open>The two redrawing loops end.\<close>

definition redraws_end :: "(bytes \<Rightarrow> bytes) \<Rightarrow> bool" where
  "redraws_end H \<longleftrightarrow> (\<forall>gen. draw_rotation H gen \<noteq> None \<and> draw_divisor H gen \<noteq> None)"

lemma ss_create_total: "redraws_end H \<Longrightarrow> ss_create H t gen q \<noteq> None"
  by (cases t) (auto simp: ss_create_def Let_def redraws_end_def case_prod_beta bind_eq_None_conv simp del: ss_info_of.simps)

lemma ss_fetch_total:
  assumes "redraws_end H"
  shows "ss_fetch H latency buf i t \<noteq> None"
proof -
  have "createForSlot H g n k l q \<noteq> None" for g n k l q
    using ss_create_total [OF assms] by (simp add: createForSlot_def case_prod_beta)
  then obtain q g where "createForSlot H (t_gen t) (d_counts buf ! i) (d_index buf) (length (d_counts buf) = i + 1) (t_instr t) = Some (q, g)"
    by fast
  then show ?thesis by (simp add: ss_fetch_def)
qed

lemma ss_body_ok:
  assumes "ss_full latency t" and "buffer_ok buf" and "i < length (d_counts buf)" and "ss_limit latency \<le> 770"
  shows "(\<forall>r. ss_body H latency buf i t = Some r \<longrightarrow> ss_after latency r) \<and> (redraws_end H \<longrightarrow> ss_body H latency buf i t \<noteq> None)"
proof (cases "ss_fetch H latency buf i t")
  case None
  then show ?thesis using ss_fetch_total [of H latency buf i t] by (auto simp: ss_body_def Let_def)
next
  case (Some f)
  note F = ss_fetch_ok [OF Some assms(1-3)]
  show ?thesis
  proof (cases f)
    case (Go t1)
    then have t1: "ss_full latency t1" "t_mop t1 < ss_opcount t1" using F by (simp_all add: ss_after_def)
    then have base: "ss_base latency t1" by (simp add: ss_full_def)
    show ?thesis
    proof (cases "fst (scheduleMop False latency (n_ops (q_info (t_instr t1)) ! t_mop t1) (t_ports t1) (t_cycle t1) (t_dep t1))")
      case None
      then show ?thesis using Some Go base by (simp add: ss_body_def Let_def ss_after_def ss_base_def)
    next
      case (Some c)
      obtain b2 c2 t2 where 2: "pick_source H c t1 = (b2, c2, t2)" by (cases "pick_source H c t1") auto
      note S = pick_source_ok [OF 2 t1]
      obtain b3 c3 t3 where 3: "pick_destination H c2 t2 = (b3, c3, t3)" by (cases "pick_destination H c2 t2") auto
      show ?thesis
      proof (cases b2)
        case True
        note D = pick_destination_ok [OF 3, of latency]
        show ?thesis
        proof (cases b3)
          case True
          then show ?thesis
            using \<open>b2\<close> D S \<open>ss_fetch _ _ _ _ _ = _\<close> Go Some 2 3 assms(4) ss_issue_ok [of latency t3 "t_cycle t" c3]
            by (auto simp: ss_body_def Let_def)
        next
          case False
          then show ?thesis
            using \<open>b2\<close> D S \<open>ss_fetch _ _ _ _ _ = _\<close> Go Some 2 3 throw_away_ok [of latency t3]
            by (auto simp: ss_body_def Let_def)
        qed
      next
        case False
        then show ?thesis
          using S \<open>ss_fetch _ _ _ _ _ = _\<close> Go Some 2 throw_away_ok [of latency t2] by (auto simp: ss_body_def Let_def)
      qed
    qed
  qed (use F Some in \<open>simp_all add: ss_body_def Let_def ss_after_def\<close>)
qed

lemma ss_slots_ok:
  assumes "ss_full latency t" and "buffer_ok buf" and "ss_limit latency \<le> 770"
  shows "(\<forall>t'. ss_slots H latency buf i t = Some t' \<longrightarrow> ss_base latency t' \<and> (t_saturated t' \<or> ss_full latency t'))
    \<and> (redraws_end H \<longrightarrow> ss_slots H latency buf i t \<noteq> None)"
  using assms
proof (induction H latency buf i t rule: ss_slots.induct)
  case (1 H latency buf i t)
  show ?case
  proof (cases "i < length (d_counts buf)")
    case True
    note B = ss_body_ok [OF 1(3,4) True 1(5), of H]
    show ?thesis
    proof (cases "ss_body H latency buf i t")
      case None
      then show ?thesis using B True by (subst (1 2) ss_slots.simps) simp
    next
      case (Some r)
      then have "ss_after latency r" using B by blast
      then show ?thesis
        using 1(1) [OF True Some _ _ 1(4,5)] 1(2) [OF True Some _ _ 1(4,5)] Some True
        by (subst (1 2) ss_slots.simps) (cases r; simp add: ss_after_def)
    qed
  next
    case False
    then show ?thesis using 1(3) by (subst (1 2) ss_slots.simps) (simp add: ss_full_def)
  qed
qed

lemma ss_cycles_ok:
  assumes "ss_base latency t" and "t_saturated t \<or> ss_full latency t" and "ss_limit latency \<le> 770"
  shows "(\<forall>d t'. ss_cycles H latency dc t = Some (d, t') \<longrightarrow> ss_base latency t') \<and> (redraws_end H \<longrightarrow> ss_cycles H latency dc t \<noteq> None)"
  using assms
proof (induction H latency dc t rule: ss_cycles.induct)
  case (1 H latency dc t)
  obtain buf gen where bg: "fetchNext H (n_type (q_info (t_instr t))) dc (t_mul t) (t_gen t) = (buf, gen)" by fastforce
  have buf: "buffer_ok buf" using fetchNext_ok [of H "n_type (q_info (t_instr t))" dc "t_mul t" "t_gen t"] bg by simp
  show ?case
  proof (cases "dc < latency \<and> \<not> t_saturated t \<and> length (t_prog t) < ss_limit latency")
    case True
    have "ss_full latency (t\<lparr>t_gen := gen\<rparr>)" using 1(3) True by (simp add: ss_full_def ss_base_def ss_opcount_def)
    note S = ss_slots_ok [OF this buf 1(4), of H 0]
    show ?thesis
    proof (cases "ss_slots H latency buf 0 (t\<lparr>t_gen := gen\<rparr>)")
      case None
      then show ?thesis using S True bg by (subst (1 2) ss_cycles.simps) simp
    next
      case (Some t1)
      then have "ss_base latency (t1\<lparr>t_cycle := t_cycle t1 + 1\<rparr>)"
        "t_saturated (t1\<lparr>t_cycle := t_cycle t1 + 1\<rparr>) \<or> ss_full latency (t1\<lparr>t_cycle := t_cycle t1 + 1\<rparr>)"
        using S by (auto simp: ss_base_def ss_full_def ss_opcount_def)
      from 1(1) [OF True bg [symmetric] refl Some this 1(4)] show ?thesis
        using True bg Some by (subst (1 2) ss_cycles.simps) simp
    qed
  next
    case False
    then show ?thesis using 1(2) by (subst (1 2) ss_cycles.simps) auto
  qed
qed

lemma ss_start_ok: "ss_base latency (ss_start gen)" "ss_full latency (ss_start gen)"
  by (simp_all add: ss_base_def ss_full_def ss_start_def ss_opcount_def ss_Null_def)

lemma address_register_less: "snd (address_register lat) < 8"
proof -
  have "snd (fold (\<lambda>i (m, reg). if lat ! i > m then (lat ! i, i) else (m, reg)) is mr) < 8"
    if "\<forall>i\<in>set is. i < 8" "snd mr < 8" for "is" and mr :: "nat \<times> nat"
    using that by (induction "is" arbitrary: mr) (auto split: prod.splits)
  then show ?thesis by (simp add: address_register_def del: upt_conv_Cons)
qed

section \<open>Executing a valid program\<close>

lemma below_14:
  "n < 14 \<Longrightarrow> n = 0 \<or> n = 1 \<or> n = 2 \<or> n = 3 \<or> n = 4 \<or> n = 5 \<or> n = 6 \<or> n = 7 \<or> n = 8 \<or> n = 9 \<or> n = 10
     \<or> n = 11 \<or> n = 12 \<or> n = (13 :: nat)"
  by presburger

lemma ss_execute_total:
  assumes "ss_valid ins" and "length r = 8"
  shows "\<exists>r'. ss_execute_instr ins r = Some r' \<and> length r' = 8"
proof -
  have op: "unat (i_opcode ins) < 14" using assms(1) by (simp add: ss_valid_def Let_def)
  have rcp: "unat (i_opcode ins) = 13 \<Longrightarrow> randomx_reciprocal (ucast (i_imm32 ins)) \<noteq> None"
    using assms(1) by (auto simp: ss_valid_def Let_def randomx_reciprocal_def isZeroOrPowerOf2_def)
  show ?thesis using below_14 [OF op] rcp assms(2) by (auto simp: ss_execute_instr_def Let_def)
qed

lemma executeSuperscalar_total:
  "\<forall>ins\<in>set is. ss_valid ins \<Longrightarrow> length r = 8 \<Longrightarrow> \<exists>r'. fold_opt ss_execute_instr is r = Some r' \<and> length r' = 8"
proof (induction "is" arbitrary: r)
  case (Cons ins "is")
  then show ?case using ss_execute_total [of ins r] by auto
qed simp

definition program_valid :: "nat \<Rightarrow> ss_program \<Rightarrow> bool" where
  "program_valid latency p \<longleftrightarrow> length (u_instrs p) \<le> 3 * latency + 2 \<and> (\<forall>ins\<in>set (u_instrs p). ss_valid ins) \<and> u_addrReg p < 8"

lemma generateSuperscalar_ok:
  assumes "latency \<le> 256"
  shows "(\<forall>p gen'. generateSuperscalar H latency gen = Some (p, gen') \<longrightarrow> program_valid latency p)
    \<and> (redraws_end H \<longrightarrow> generateSuperscalar H latency gen \<noteq> None)"
proof -
  have C: "(\<forall>d t'. ss_cycles H latency 0 (ss_start gen) = Some (d, t') \<longrightarrow> ss_base latency t')
      \<and> (redraws_end H \<longrightarrow> ss_cycles H latency 0 (ss_start gen) \<noteq> None)"
    using ss_cycles_ok [OF ss_start_ok(1) disjI2 [OF ss_start_ok(2)]] assms by (simp add: ss_limit_def)
  then show ?thesis
    using address_register_less
    by (auto simp: generateSuperscalar_def program_valid_def ss_base_def ss_limit_def case_prod_beta Let_def
        bind_eq_Some_conv bind_eq_None_conv)
qed

section \<open>A stream for which the loops end\<close>

definition steady_hash :: "bytes \<Rightarrow> bytes" where
  "steady_hash d = replicate 64 0x55"

lemma steady_load: "load32 (steady_hash d) = 0x55555555"
  by (simp add: load32_def steady_hash_def)

lemma steady_redraws_end: "redraws_end steady_hash"
proof -
  have "draw_rotation steady_hash gen \<noteq> None" for gen
  proof (induction "65 - g_index gen" arbitrary: gen rule: less_induct)
    case less
    show ?case
    proof (cases "g_index gen + 1 > 64")
      case True
      then show ?thesis
        by (subst draw_rotation.simps) (simp add: gen_getByte_def gen_checkData_def Let_def steady_hash_def)
    next
      case False
      then have "draw_rotation steady_hash (gen\<lparr>g_index := g_index gen + 1\<rparr>) \<noteq> None" by (intro less) simp
      then show ?thesis using False
        by (subst draw_rotation.simps) (simp add: gen_getByte_def gen_checkData_def Let_def)
    qed
  qed
  moreover have "draw_divisor steady_hash gen \<noteq> None" for gen
  proof (induction "65 - g_index gen" arbitrary: gen rule: less_induct)
    case less
    show ?case
    proof (cases "g_index gen + 4 > 64")
      case True
      then show ?thesis using steady_load [of "g_data gen"]
        by (subst draw_divisor.simps) (simp add: gen_getUInt32_def gen_checkData_def Let_def isZeroOrPowerOf2_def)
    next
      case False
      then have "draw_divisor steady_hash (gen\<lparr>g_index := g_index gen + 4\<rparr>) \<noteq> None" by (intro less) simp
      then show ?thesis using False
        by (subst draw_divisor.simps) (simp add: gen_getUInt32_def gen_checkData_def Let_def)
    qed
  qed
  ultimately show ?thesis by (simp add: redraws_end_def)
qed

section \<open>Properties\<close>

text \<open>C20: whatever the pseudo-random stream, a generated superscalar program has at most
  \<open>3 * SuperscalarLatency + 2\<close> instructions, names registers below 8 only, never subtracts, xors, adds or
  multiplies a register with itself, never adds into r5, rotates by 1 to 63, divides by no zero and no power
  of two, has an address register, and its execution returns on every register file.\<close>

theorem superscalar_program_typed:
  assumes "generateSuperscalar H latency gen = Some (p, gen')" and "latency \<le> 256" and "length r = 8"
  shows "program_valid latency p \<and> (\<exists>r'. executeSuperscalar r p = Some r' \<and> length r' = 8)"
proof -
  have "program_valid latency p" using generateSuperscalar_ok [OF assms(2), of H gen] assms(1) by blast
  then show ?thesis using executeSuperscalar_total assms(3) by (simp add: executeSuperscalar_def program_valid_def)
qed

theorem superscalar_program_typed_witness:
  "\<exists>p gen' r'. generateSuperscalar steady_hash 170 (Blake2Generator [1, 2, 3] 3 0) = Some (p, gen')
    \<and> executeSuperscalar (replicate 8 5) p = Some r' \<and> length (u_instrs p) \<le> 512"
proof -
  obtain p gen' where p: "generateSuperscalar steady_hash 170 (Blake2Generator [1, 2, 3] 3 0) = Some (p, gen')"
    using generateSuperscalar_ok [of 170 steady_hash "Blake2Generator [1, 2, 3] 3 0"] steady_redraws_end by auto
  from superscalar_program_typed [OF p, of "replicate 8 5"] p show ?thesis by (auto simp: program_valid_def)
qed

text \<open>C21: the generator of superscalar programs returns, for every latency up to the maximum and from every
  state of the pseudo-random generator, provided the two loops that redraw a rotation count and a divisor
  end: every other loop is bounded, retries included.\<close>

theorem superscalar_generator_returns:
  assumes "redraws_end H" and "latency \<le> 256"
  shows "\<exists>p gen'. generateSuperscalar H latency gen = Some (p, gen')"
  using generateSuperscalar_ok [OF assms(2), of H gen] assms(1) by auto

theorem superscalar_generator_returns_witness:
  "\<exists>p gen'. generateSuperscalar steady_hash 170 (Blake2Generator [1, 2, 3] 3 0) = Some (p, gen')"
  by (rule superscalar_generator_returns [OF steady_redraws_end]) simp

end
