(* ===== verification/Rx_Dataset.thy ===== *)
theory Rx_Dataset
  imports Rx_Vm Ar2_Context Rx_Superscalar_Ok
begin

text \<open>
  Cache and dataset: \<open>crypto/randomx/dataset.cpp\<close>, the dataset functions of \<open>randomx.cpp\<close>, the light
  machine (\<open>vm_interpreted_light.cpp\<close>) and \<open>RxInstance::initDataset\<close>.  The cache memory is the
  memory of Argon2, the dataset memory a list of bytes; an access outside either is \<open>None\<close>.
  The BLAKE2b that feeds the superscalar generator is the argument \<open>H\<close>, as in \<open>Rx_Superscalar\<close>.
\<close>

section \<open>The cache\<close>

record rx_cache =
  k_memory :: ar_memory
  k_programs :: "ss_program list"

abbreviation (input) "RANDOMX_CACHE_MAX_ACCESSES \<equiv> (16 :: nat)"

text \<open>The context \<open>initCache\<close> fills in.\<close>

definition cache_context :: "rx_config \<Rightarrow> bytes \<Rightarrow> argon2_context" where
  "cache_context cfg key =
     \<lparr>c_out = None, c_outlen = 0, c_pwd = Some key, c_pwdlen = of_nat (length key),
      c_salt = Some (map of_char (ArgonSalt cfg)), c_saltlen = of_nat (length (ArgonSalt cfg)),
      c_secret = None, c_secretlen = 0, c_ad = None, c_adlen = 0,
      c_t_cost = ArgonIterations cfg, c_m_cost = ArgonMemory cfg, c_lanes = ArgonLanes cfg, c_threads = 1,
      c_version = ARGON2_VERSION_NUMBER, c_allocate_cbk = None, c_free_cbk = False, c_flags = 0\<rparr>"

definition cache_program ::
  "(bytes \<Rightarrow> bytes) \<Rightarrow> rx_config \<Rightarrow> nat \<Rightarrow> ss_program list \<times> blake2_gen \<Rightarrow> (ss_program list \<times> blake2_gen) option" where
  "cache_program H cfg i st =
     do { (p, gen) \<leftarrow> generateSuperscalar H (unat (SuperscalarLatency cfg)) (snd st);
          Some ((fst st)[i := p], gen) }"

text \<open>The status of \<open>argon2_ctx_mem\<close> is not looked at.\<close>

definition initCache ::
  "(bytes \<Rightarrow> bytes) \<Rightarrow> ar2_locals \<Rightarrow> (nat \<Rightarrow> ar_memory option) \<Rightarrow> rx_config \<Rightarrow> bytes \<Rightarrow> rx_cache \<Rightarrow> rx_cache option" where
  "initCache H loc malloc cfg key C = do {
     (status, context, memory) \<leftarrow> argon2_ctx_mem loc malloc (cache_context cfg key) Argon2_d
        (Some (k_memory C)) (unat (ArgonMemory cfg * 1024));
     M \<leftarrow> memory;
     (programs, gen) \<leftarrow> fold_opt (cache_program H cfg) [0..<unat (CacheAccesses cfg)]
        (k_programs C, Blake2Generator key (length key) 0);
     Some (C\<lparr>k_memory := M, k_programs := programs\<rparr>) }"

section \<open>Items of the dataset\<close>

abbreviation (input) "superscalarMul0 \<equiv> (6364136223846793005 :: u64)"

definition superscalarAdd :: "u64 list" where
  "superscalarAdd = [9298411001130361340, 12065312585734608966, 9306329213124626780, 5281919268842080866,
     10536153434571861004, 3398623926847679864, 9549104520008361294]"

text \<open>The byte offset \<open>getMixBlock\<close> adds to the address of the cache.\<close>

definition getMixBlock :: "rx_config \<Rightarrow> u64 \<Rightarrow> nat" where
  "getMixBlock cfg registerValue =
     (let mask = ucast (ucast (ArgonMemory cfg * 1024) div 64 - 1 :: u64) :: u32
      in unat ((registerValue AND ucast mask) * 64))"

definition cache_load64 :: "ar_memory \<Rightarrow> nat \<Rightarrow> u64 option" where
  "cache_load64 M off =
     (if off + 8 \<le> ARGON2_BLOCK_SIZE * length M
      then Some (M ! (off div ARGON2_BLOCK_SIZE) ! (off mod ARGON2_BLOCK_SIZE div 8)) else None)"

definition dataset_item_start :: "u64 \<Rightarrow> u64 list" where
  "dataset_item_start itemNumber =
     (let r0 = (itemNumber + 1) * superscalarMul0 in r0 # map (\<lambda>a. r0 XOR a) superscalarAdd)"

definition dataset_item_step ::
  "rx_config \<Rightarrow> rx_cache \<Rightarrow> nat \<Rightarrow> u64 list \<times> u64 \<Rightarrow> (u64 list \<times> u64) option" where
  "dataset_item_step cfg C i st =
     (let mixBlock = getMixBlock cfg (snd st); prog = k_programs C ! i in do {
        rl \<leftarrow> executeSuperscalar (fst st) prog;
        ws \<leftarrow> opt_all (map (\<lambda>q. cache_load64 (k_memory C) (mixBlock + 8 * q)) [0..<8]);
        let rl = map2 (XOR) rl ws;
        Some (rl, rl ! u_addrReg prog) })"

definition initDatasetItem :: "rx_config \<Rightarrow> rx_cache \<Rightarrow> u64 \<Rightarrow> u64 list option" where
  "initDatasetItem cfg C itemNumber =
     map_option fst (fold_opt (dataset_item_step cfg C) [0..<unat (CacheAccesses cfg)]
       (dataset_item_start itemNumber, itemNumber))"

section \<open>The dataset\<close>

definition item_image :: "u64 list \<Rightarrow> bytes" where
  "item_image rl = concat (map store64 rl)"

definition dataset_store :: "bytes \<Rightarrow> nat \<Rightarrow> bytes \<Rightarrow> bytes option" where
  "dataset_store M off bs = (if off + 64 \<le> length M then Some (memcpy_at M off bs 64) else None)"

function initDataset :: "rx_config \<Rightarrow> rx_cache \<Rightarrow> bytes \<Rightarrow> nat \<Rightarrow> u32 \<Rightarrow> u32 \<Rightarrow> bytes option" where
  "initDataset cfg C M off itemNumber endItem =
     (if itemNumber < endItem
      then do { rl \<leftarrow> initDatasetItem cfg C (ucast itemNumber);
                M \<leftarrow> dataset_store M off (item_image rl);
                initDataset cfg C M (off + 64) (itemNumber + 1) endItem }
      else Some M)"
  by pat_completeness auto
termination
  by (relation "measure (\<lambda>(cfg, C, M, off, itemNumber, endItem). unat endItem - unat itemNumber)")
    (simp_all add: word_less_nat_alt unat_inc_less diff_less_mono2)

declare initDataset.simps [simp del]

definition randomx_dataset_item_count :: "rx_config \<Rightarrow> nat" where
  "randomx_dataset_item_count cfg = unat (DatasetBaseSize cfg + of_nat DatasetExtraSize) div RANDOMX_DATASET_ITEM_SIZE"

text \<open>
  \<open>datasetInit\<close> is the function pointer of the cache: \<open>initDataset\<close>, or machine code the compiler
  generated.  Item numbers are cut to 32 bits where it is called.
\<close>

type_synonym dataset_init = "bytes \<Rightarrow> nat \<Rightarrow> u32 \<Rightarrow> u32 \<Rightarrow> bytes option"

definition randomx_init_dataset :: "dataset_init \<Rightarrow> nat \<Rightarrow> nat \<Rightarrow> bytes \<Rightarrow> bytes option" where
  "randomx_init_dataset datasetInit startItem itemCount M =
     datasetInit M (startItem * 64) (of_nat startItem) (of_nat (startItem + itemCount))"

section \<open>\<open>RxInstance::initDataset\<close>\<close>

text \<open>
  \<open>unsigned long\<close> has \<open>w\<close> bits: 64 on Linux, 32 on Windows.  The call that a thread makes is one for
  its items, or two that overlap when AVX2 code, which computes five items at a time, is to fill a
  number of items that is no multiple of five.
\<close>

definition range_calls :: "nat \<Rightarrow> bool \<Rightarrow> nat \<Rightarrow> nat \<Rightarrow> (nat \<times> nat) list" where
  "range_calls w avx2 start count =
     (if avx2 \<and> count mod 5 \<noteq> 0
      then [(start, count - count mod 5), ((start + count + 2 ^ w - 5) mod 2 ^ w, 5)]
      else [(start, count)])"

definition thread_bound :: "nat \<Rightarrow> nat \<Rightarrow> nat \<Rightarrow> nat \<Rightarrow> nat" where
  "thread_bound w items threads i = items * i mod 2 ^ w div threads"

definition thread_calls :: "nat \<Rightarrow> bool \<Rightarrow> nat \<Rightarrow> nat \<Rightarrow> nat \<Rightarrow> (nat \<times> nat) list" where
  "thread_calls w avx2 items threads i =
     (let start = thread_bound w items threads i; end = thread_bound w items threads (i + 1)
      in range_calls w avx2 start ((end + 2 ^ w - start) mod 2 ^ w))"

text \<open>The calls of every thread, those of one thread in order.\<close>

definition RxInstance_initDataset :: "nat \<Rightarrow> bool \<Rightarrow> rx_config \<Rightarrow> int \<Rightarrow> (nat \<times> nat) list list" where
  "RxInstance_initDataset w avx2 cfg threads =
     (let datasetItemCount = randomx_dataset_item_count cfg in
      if threads \<le> 1 then [range_calls w avx2 0 datasetItemCount]
      else map (thread_calls w avx2 datasetItemCount (nat threads)) [0..<nat threads])"

text \<open>Running calls one after the other.\<close>

definition run_calls :: "dataset_init \<Rightarrow> (nat \<times> nat) list \<Rightarrow> bytes \<Rightarrow> bytes option" where
  "run_calls datasetInit = fold_opt (\<lambda>(start, count). randomx_init_dataset datasetInit start count)"

section \<open>The light machine\<close>

definition datasetRead_light :: "rx_config \<Rightarrow> rx_cache \<Rightarrow> dataset_reader" where
  "datasetRead_light cfg C a r =
     (let itemNumber = of_nat (a div 64) :: u32 in
      map_option (\<lambda>rl. map (\<lambda>q. r ! q XOR rl ! q) [0..<8]) (initDatasetItem cfg C (ucast itemNumber)))"

definition vm_run_light :: "hw \<Rightarrow> rx_config \<Rightarrow> rx_cache \<Rightarrow> vm \<Rightarrow> line \<Rightarrow> vm option" where
  "vm_run_light hw cfg C = vm_run_with (datasetRead_light cfg C) hw cfg"

end
