(* ===== verification/Rx_Dataset_Ok.thy ===== *)
theory Rx_Dataset_Ok
  imports Rx_Dataset
begin

text \<open>
  Correctness of \<open>Rx_Dataset\<close>: the cache of every algorithm is initialised, whatever its memory held;
  every item of the dataset is defined; threads fill the dataset in any order; and the light machine
  computes what the full machine computes.
\<close>

section \<open>What the configurations provide\<close>

definition cache_config_ok :: "rx_config \<Rightarrow> bool" where
  "cache_config_ok cfg \<longleftrightarrow>
     unat (ArgonMemory cfg) * 1024 < 2 ^ 32 \<and> 8 * unat (ArgonLanes cfg) \<le> unat (ArgonMemory cfg)
   \<and> 8 \<le> unat (ArgonMemory cfg) \<and> 4 * unat (ArgonLanes cfg) dvd unat (ArgonMemory cfg)
   \<and> 0 < unat (ArgonLanes cfg) \<and> unat (ArgonLanes cfg) \<le> 0xFFFFFF \<and> 0 < unat (ArgonIterations cfg)
   \<and> 8 \<le> length (ArgonSalt cfg) \<and> length (ArgonSalt cfg) < 2 ^ 32
   \<and> unat (SuperscalarLatency cfg) \<le> 256 \<and> unat (CacheAccesses cfg) \<le> RANDOMX_CACHE_MAX_ACCESSES
   \<and> unat (DatasetBaseSize cfg) + DatasetExtraSize < 2 ^ 32 \<and> 64 dvd unat (DatasetBaseSize cfg)"

lemma rx_variants_cache_ok: "cfg \<in> set rx_variants \<Longrightarrow> cache_config_ok cfg"
  by (auto simp: rx_variants_def rx_variant_defs cache_config_ok_def Let_def)

lemma applyAlgoConfig_cache_ok: "cache_config_ok (applyAlgoConfig algo)"
  by (rule rx_variants_cache_ok, cases algo) (simp_all add: rx_variants_def)

lemma validate_cache_context:
  assumes "cache_config_ok cfg"
  shows "zenrx_ar2_validate_inputs (Some (cache_context cfg key)) = ARGON2_OK"
  using assms unat_u32_lt [of "ArgonIterations cfg"] unat_u32_lt [of "of_nat (length key)"]
  by (auto simp: zenrx_ar2_validate_inputs_def cache_context_def cache_config_ok_def ARGON2_MAX_MEMORY_def
      word_less_nat_alt word_le_nat_alt unat_of_nat_small unat_mult_small unat_ucast_up not_less)

lemma cache_memory_blocks:
  assumes "cache_config_ok cfg"
  shows "i_memory_blocks (make_instance (cache_context cfg key) ty keep) = ArgonMemory cfg"
proof -
  have "unat (ArgonMemory cfg) div (4 * unat (ArgonLanes cfg)) * (4 * unat (ArgonLanes cfg)) = unat (ArgonMemory cfg)"
    using assms by (simp add: cache_config_ok_def)
  then show ?thesis
    using compute_memory_blocks_ok [of "ArgonLanes cfg" "ArgonMemory cfg"] assms
    by (simp add: make_instance_def cache_context_def cache_config_ok_def)
qed

lemma cache_memory_size:
  assumes "cache_config_ok cfg"
  shows "unat (ArgonMemory cfg * 1024) = unat (ArgonMemory cfg) * 1024"
  using assms by (simp add: cache_config_ok_def unat_mult_small)

section \<open>Initialisation of the cache\<close>

definition cache_ok :: "rx_config \<Rightarrow> rx_cache \<Rightarrow> bool" where
  "cache_ok cfg C \<longleftrightarrow> cache_config_ok cfg \<and> mem_ok (unat (ArgonMemory cfg)) (k_memory C)
     \<and> (\<forall>i < unat (CacheAccesses cfg). program_valid (unat (SuperscalarLatency cfg)) (k_programs C ! i))"

text \<open>Two caches that hold the same as far as the dataset depends on them.\<close>

definition caches_agree :: "rx_config \<Rightarrow> rx_cache \<Rightarrow> rx_cache \<Rightarrow> bool" where
  "caches_agree cfg C D \<longleftrightarrow> length (k_memory C) = length (k_memory D)
     \<and> take (unat (ArgonMemory cfg)) (k_memory C) = take (unat (ArgonMemory cfg)) (k_memory D)
     \<and> take (unat (CacheAccesses cfg)) (k_programs C) = take (unat (CacheAccesses cfg)) (k_programs D)"

text \<open>Generating the programs returns for both or for neither; only the generator's own loops may keep it from returning.\<close>

lemma cache_programs_agree:
  assumes "unat (SuperscalarLatency cfg) \<le> 256"
    and "length ps = 16" and "length qs = 16" and "n \<le> 16"
  shows "(fold_opt (cache_program H cfg) [0..<n] (ps, gen) = None \<and> fold_opt (cache_program H cfg) [0..<n] (qs, gen) = None
      \<and> (\<exists>g. generateSuperscalar H (unat (SuperscalarLatency cfg)) g = None))
    \<or> (\<exists>ps' qs' g. fold_opt (cache_program H cfg) [0..<n] (ps, gen) = Some (ps', g)
    \<and> fold_opt (cache_program H cfg) [0..<n] (qs, gen) = Some (qs', g)
    \<and> take n ps' = take n qs' \<and> length ps' = 16 \<and> length qs' = 16
    \<and> (\<forall>i<n. program_valid (unat (SuperscalarLatency cfg)) (ps' ! i) \<and> program_valid (unat (SuperscalarLatency cfg)) (qs' ! i)))"
  using assms(4)
proof (induction n)
  case (Suc n)
  then consider "fold_opt (cache_program H cfg) [0..<n] (ps, gen) = None" "fold_opt (cache_program H cfg) [0..<n] (qs, gen) = None"
      "\<exists>g. generateSuperscalar H (unat (SuperscalarLatency cfg)) g = None"
    | ps' qs' g where "fold_opt (cache_program H cfg) [0..<n] (ps, gen) = Some (ps', g)"
    "fold_opt (cache_program H cfg) [0..<n] (qs, gen) = Some (qs', g)"
    "take n ps' = take n qs'" "length ps' = 16" "length qs' = 16"
    "\<forall>i<n. program_valid (unat (SuperscalarLatency cfg)) (ps' ! i) \<and> program_valid (unat (SuperscalarLatency cfg)) (qs' ! i)"
    by fastforce
  then show ?case
  proof cases
    case 1
    then show ?thesis by (simp add: fold_opt_append)
  next
    case IH: 2
    show ?thesis
    proof (cases "generateSuperscalar H (unat (SuperscalarLatency cfg)) g")
      case None
      then have "cache_program H cfg n (xs, g) = None" for xs by (simp add: cache_program_def)
      then show ?thesis using IH(1,2) None by (intro disjI1) (auto simp: fold_opt_append)
    next
      case (Some r)
      obtain p g' where r: "r = (p, g')" by fastforce
      then have p: "program_valid (unat (SuperscalarLatency cfg)) p" using generateSuperscalar_ok [OF assms(1), of H g] Some by auto
      have "take (Suc n) (ps'[n := p]) = take (Suc n) (qs'[n := p])"
        using IH(3-5) Suc.prems by (simp add: take_Suc_conv_app_nth take_update_cancel)
      moreover have "cache_program H cfg n (xs, g) = Some (xs[n := p], g')" for xs
        by (simp add: cache_program_def Some r)
      ultimately show ?thesis
        using IH p Suc.prems
        by (intro disjI2 exI [of _ "ps'[n := p]"] exI [of _ "qs'[n := p]"] exI [of _ g'])
          (auto simp: fold_opt_append nth_list_update less_Suc_eq)
    qed
  qed
qed (use assms in simp)

lemma initCache_returns:
  assumes cfg: "cache_config_ok cfg" and loc: "locals_ok loc" "locals_ok loc'"
    and C: "mem_ok (unat (ArgonMemory cfg)) (k_memory C)" "length (k_programs C) = RANDOMX_CACHE_MAX_ACCESSES"
    and D: "mem_ok (unat (ArgonMemory cfg)) (k_memory D)" "length (k_programs D) = RANDOMX_CACHE_MAX_ACCESSES"
    and len: "length (k_memory C) = length (k_memory D)"
  shows "(initCache H loc malloc cfg key C = None \<and> initCache H loc' malloc' cfg key D = None
      \<and> (\<exists>g. generateSuperscalar H (unat (SuperscalarLatency cfg)) g = None))
    \<or> (\<exists>C' D'. initCache H loc malloc cfg key C = Some C' \<and> initCache H loc' malloc' cfg key D = Some D'
    \<and> cache_ok cfg C' \<and> cache_ok cfg D' \<and> caches_agree cfg C' D')"
proof -
  define c inst where "c = cache_context cfg key" and "inst = make_instance c Argon2_d True"
  have V: "zenrx_ar2_validate_inputs (Some c) = ARGON2_OK" unfolding c_def by (rule validate_cache_context [OF cfg])
  note I = make_instance_ok [OF V, of Argon2_d True, folded inst_def]
  have blocks: "unat (i_memory_blocks inst) = unat (ArgonMemory cfg)"
    using cache_memory_blocks [OF cfg] by (simp add: inst_def c_def)
  then have ab: "ar_blocks inst = unat (ArgonMemory cfg)" using I(3) by simp
  obtain tag M' N' where r: "core_run loc inst (initial_blockhash loc c Argon2_d) (c_outlen c) (k_memory C) = Some (tag, M')"
    "core_run loc' inst (initial_blockhash loc' c Argon2_d) (c_outlen c) (k_memory D) = Some (tag, N')"
    "runs_agree inst (unat (i_passes inst)) 0 0 M' N'"
    using core_runs_agree [OF I(1,2) loc _ _ len refl, of c Argon2_d "c_outlen c"] C(1) D(1) ab by auto
  have alloc: "zenrx_ar2_allocate_memory mal c inst (Some Q) = (ARGON2_OK, Some Q)" for mal Q
    by (simp add: zenrx_ar2_allocate_memory_def Let_def)
  have run: "argon2_ctx_mem lo mal c Argon2_d (Some Q) (unat (ArgonMemory cfg * 1024)) = Some (ARGON2_OK, with_tag c tag, Some Q')"
    if "core_run lo inst (initial_blockhash lo c Argon2_d) (c_outlen c) Q = Some (tag, Q')" for lo mal Q Q'
    using argon2_ctx_mem_core [OF V, of Argon2_d "Some Q" "unat (ArgonMemory cfg * 1024)" mal Q lo tag Q']
      that alloc blocks cache_memory_size [OF cfg] by (simp add: inst_def [symmetric])
  have init: "initCache H loc malloc cfg key C = map_option (\<lambda>(ps, g). C\<lparr>k_memory := M', k_programs := ps\<rparr>)
      (fold_opt (cache_program H cfg) [0..<unat (CacheAccesses cfg)] (k_programs C, Blake2Generator key (length key) 0))"
    "initCache H loc' malloc' cfg key D = map_option (\<lambda>(ps, g). D\<lparr>k_memory := N', k_programs := ps\<rparr>)
      (fold_opt (cache_program H cfg) [0..<unat (CacheAccesses cfg)] (k_programs D, Blake2Generator key (length key) 0))"
    unfolding initCache_def c_def [symmetric] run [OF r(1)] run [OF r(2)]
    by (auto split: option.splits bind_splits)
  have M: "mem_ok (unat (ArgonMemory cfg)) M'" "mem_ok (unat (ArgonMemory cfg)) N'" "length M' = length N'"
    using r(3) by (simp_all add: runs_agree_def agree_def ab)
  have take: "take (unat (ArgonMemory cfg)) M' = take (unat (ArgonMemory cfg)) N'"
    using runs_agree_take [OF r(3) I(2)] ab by simp
  show ?thesis
  proof (cases "fold_opt (cache_program H cfg) [0..<unat (CacheAccesses cfg)] (k_programs C, Blake2Generator key (length key) 0)")
    case None
    then show ?thesis
      using cache_programs_agree [OF _ C(2) D(2), of cfg "unat (CacheAccesses cfg)" H "Blake2Generator key (length key) 0"] cfg init
      by (auto simp: cache_config_ok_def)
  next
    case (Some r)
    then obtain ps qs g where ps: "fold_opt (cache_program H cfg) [0..<unat (CacheAccesses cfg)]
        (k_programs C, Blake2Generator key (length key) 0) = Some (ps, g)"
      "fold_opt (cache_program H cfg) [0..<unat (CacheAccesses cfg)]
        (k_programs D, Blake2Generator key (length key) 0) = Some (qs, g)"
      "take (unat (CacheAccesses cfg)) ps = take (unat (CacheAccesses cfg)) qs"
      "\<forall>i < unat (CacheAccesses cfg). program_valid (unat (SuperscalarLatency cfg)) (ps ! i)
        \<and> program_valid (unat (SuperscalarLatency cfg)) (qs ! i)"
      using cache_programs_agree [OF _ C(2) D(2), of cfg "unat (CacheAccesses cfg)" H "Blake2Generator key (length key) 0"] cfg
      by (auto simp: cache_config_ok_def)
    show ?thesis
      by (rule disjI2, rule exI [of _ "C\<lparr>k_memory := M', k_programs := ps\<rparr>"], rule exI [of _ "D\<lparr>k_memory := N', k_programs := qs\<rparr>"])
        (simp add: init ps(1,2) cache_ok_def caches_agree_def cfg M take ps(3,4))
  qed
qed

lemma initCache_agree:
  assumes "cache_config_ok cfg" and H: "redraws_end H" and "locals_ok loc" "locals_ok loc'"
    and "mem_ok (unat (ArgonMemory cfg)) (k_memory C)" "length (k_programs C) = RANDOMX_CACHE_MAX_ACCESSES"
    and "mem_ok (unat (ArgonMemory cfg)) (k_memory D)" "length (k_programs D) = RANDOMX_CACHE_MAX_ACCESSES"
    and "length (k_memory C) = length (k_memory D)"
  shows "\<exists>C' D'. initCache H loc malloc cfg key C = Some C' \<and> initCache H loc' malloc' cfg key D = Some D'
    \<and> cache_ok cfg C' \<and> cache_ok cfg D' \<and> caches_agree cfg C' D'"
proof -
  have "unat (SuperscalarLatency cfg) \<le> 256" using assms(1) by (simp add: cache_config_ok_def)
  then have "generateSuperscalar H (unat (SuperscalarLatency cfg)) g \<noteq> None" for g using generateSuperscalar_ok H by blast
  then show ?thesis using initCache_returns [OF assms(1,3-9), of H malloc key malloc'] by blast
qed

section \<open>Items\<close>

lemma mix_block_bound:
  assumes "cache_config_ok cfg"
  shows "getMixBlock cfg x + 64 \<le> 1024 * unat (ArgonMemory cfg)" and "64 dvd getMixBlock cfg x"
proof -
  define m where "m = unat (ArgonMemory cfg)"
  have m: "8 \<le> m" "m * 1024 < 2 ^ 32" using assms by (simp_all add: cache_config_ok_def m_def)
  define mask :: u32 where "mask = ucast (ucast (ArgonMemory cfg * 1024) div 64 - 1 :: u64)"
  have q: "unat (ucast (ArgonMemory cfg * 1024) div 64 :: u64) = m * 16"
    using m cache_memory_size [OF assms] by (simp add: unat_div unat_ucast_up m_def)
  have "unat (ucast (ArgonMemory cfg * 1024) div 64 - 1 :: u64) = m * 16 - 1"
    by (subst unat_sub) (use m q in \<open>simp_all add: word_le_nat_alt\<close>)
  then have "unat mask = (m * 16 - 1) mod 2 ^ 32"
    unfolding mask_def by (simp only: unsigned_ucast_eq take_bit_eq_mod) simp
  then have mask: "unat mask = m * 16 - 1" using m by simp
  have "unat (x AND ucast mask) \<le> m * 16 - 1"
    using unat_and_le [of x "ucast mask"] mask by (simp add: unat_ucast_up)
  then have le: "unat (x AND ucast mask) * 64 \<le> (m * 16 - 1) * 64" by simp
  have "(m * 16 - 1) * 64 < 2 ^ 64" using m by simp
  then have eq: "getMixBlock cfg x = unat (x AND ucast mask) * 64"
    using le by (simp add: getMixBlock_def mask_def [symmetric] unat_mult_small del: unsigned_and_eq)
  then show "getMixBlock cfg x + 64 \<le> 1024 * unat (ArgonMemory cfg)" and "64 dvd getMixBlock cfg x"
    using le m by (simp_all add: m_def [symmetric])
qed

lemma cache_line_total:
  assumes "mem_ok n M" and "off + 64 \<le> 1024 * n"
  shows "\<exists>ws. opt_all (map (\<lambda>q. cache_load64 M (off + 8 * q)) [0..<8]) = Some ws \<and> length ws = 8"
proof -
  have "n \<le> length M" using assms(1) by (simp add: mem_ok_def)
  then have "cache_load64 M (off + 8 * q) \<noteq> None" if "q < 8" for q
    using assms(2) that by (simp add: cache_load64_def)
  then show ?thesis
    using opt_all_total [of "map (\<lambda>q. cache_load64 M (off + 8 * q)) [0..<8]"] by (simp del: upt_Suc) force
qed

lemma dataset_item_step_total:
  assumes C: "cache_ok cfg C" and i: "i < unat (CacheAccesses cfg)" and rl: "length (fst st) = 8"
  shows "\<exists>st'. dataset_item_step cfg C i st = Some st' \<and> length (fst st') = 8"
proof -
  have p: "program_valid (unat (SuperscalarLatency cfg)) (k_programs C ! i)" and cfg: "cache_config_ok cfg"
    and M: "mem_ok (unat (ArgonMemory cfg)) (k_memory C)"
    using C i by (simp_all add: cache_ok_def)
  obtain rl' where "executeSuperscalar (fst st) (k_programs C ! i) = Some rl'" "length rl' = 8"
    using executeSuperscalar_total [of "u_instrs (k_programs C ! i)" "fst st"] p rl
    by (auto simp: executeSuperscalar_def program_valid_def)
  moreover obtain ws where "opt_all (map (\<lambda>q. cache_load64 (k_memory C) (getMixBlock cfg (snd st) + 8 * q)) [0..<8]) = Some ws"
      "length ws = 8"
    using cache_line_total [OF M mix_block_bound(1) [OF cfg]] by blast
  ultimately show ?thesis by (simp add: dataset_item_step_def Let_def del: upt_Suc)
qed

lemma length_dataset_item_start [simp]: "length (dataset_item_start n) = 8"
  by (simp add: dataset_item_start_def superscalarAdd_def Let_def)

lemma initDatasetItem_total:
  assumes "cache_ok cfg C"
  shows "\<exists>rl. initDatasetItem cfg C n = Some rl \<and> length rl = 8"
proof -
  obtain st' where "fold_opt (dataset_item_step cfg C) [0..<unat (CacheAccesses cfg)] (dataset_item_start n, n) = Some st'"
      "length (fst st') = 8"
    using fold_opt_upt [of 0 "unat (CacheAccesses cfg)" "\<lambda>i st. length (fst st) = 8" "(dataset_item_start n, n)"
        "dataset_item_step cfg C"] dataset_item_step_total [OF assms] by auto
  then show ?thesis by (simp add: initDatasetItem_def)
qed

text \<open>Items depend on the cache only as far as caches agree.\<close>

lemma fold_opt_cong: "(\<And>x s. x \<in> set xs \<Longrightarrow> f x s = g x s) \<Longrightarrow> fold_opt f xs s = fold_opt g xs s"
  by (induction xs arbitrary: s) (auto intro!: Option.bind_cong)

lemma initDatasetItem_agree:
  assumes "caches_agree cfg C D" and "cache_config_ok cfg"
  shows "initDatasetItem cfg C n = initDatasetItem cfg D n"
proof -
  have M: "take (unat (ArgonMemory cfg)) (k_memory C) = take (unat (ArgonMemory cfg)) (k_memory D)"
    and P: "take (unat (CacheAccesses cfg)) (k_programs C) = take (unat (CacheAccesses cfg)) (k_programs D)"
    using assms(1) by (simp_all add: caches_agree_def)
  have load: "cache_load64 (k_memory C) (getMixBlock cfg x + 8 * q) = cache_load64 (k_memory D) (getMixBlock cfg x + 8 * q)"
    if "q < 8" for x q
  proof -
    have "(getMixBlock cfg x + 8 * q) div 1024 < unat (ArgonMemory cfg)"
      by (rule less_mult_imp_div_less) (use mix_block_bound(1) [OF assms(2), of x] that in linarith)
    then have "k_memory C ! ((getMixBlock cfg x + 8 * q) div 1024) = k_memory D ! ((getMixBlock cfg x + 8 * q) div 1024)"
      using arg_cong [OF M, of "\<lambda>l. l ! ((getMixBlock cfg x + 8 * q) div 1024)"] by simp
    moreover have "length (k_memory C) = length (k_memory D)" using assms(1) by (simp add: caches_agree_def)
    ultimately show ?thesis by (simp only: cache_load64_def)
  qed
  have "dataset_item_step cfg C i st = dataset_item_step cfg D i st" if "i < unat (CacheAccesses cfg)" for i st
  proof -
    have "k_programs C ! i = k_programs D ! i"
      using arg_cong [OF P, of "\<lambda>l. l ! i"] that by simp
    moreover have "map (\<lambda>q. cache_load64 (k_memory C) (getMixBlock cfg (snd st) + 8 * q)) [0..<8] =
        map (\<lambda>q. cache_load64 (k_memory D) (getMixBlock cfg (snd st) + 8 * q)) [0..<8]"
      using load by (intro map_cong) auto
    ultimately show ?thesis by (simp only: dataset_item_step_def Let_def)
  qed
  then show ?thesis unfolding initDatasetItem_def
    by (intro arg_cong [of _ _ "map_option fst"] fold_opt_cong) simp
qed

section \<open>Writing items\<close>

definition write_item :: "(nat \<Rightarrow> bytes) \<Rightarrow> nat \<Rightarrow> bytes \<Rightarrow> bytes" where
  "write_item item i M = memcpy_at M (64 * i) (item i) 64"

abbreviation (input) "items_fit is M \<equiv> \<forall>i\<in>set is. 64 * i + 64 \<le> length M"

lemma length_write_item [simp]:
  "(\<And>n. length (item n) = 64) \<Longrightarrow> 64 * i + 64 \<le> length M \<Longrightarrow> length (write_item item i M) = length M"
  by (simp add: write_item_def)

lemma length_write_items [simp]:
  "(\<And>n. length (item n) = 64) \<Longrightarrow> items_fit is M \<Longrightarrow> length (fold (write_item item) is M) = length M"
  by (induction "is" arbitrary: M) simp_all

text \<open>What a byte holds after any number of writes in any order.\<close>

lemma nth_write_items:
  assumes "\<And>n. length (item n) = 64" and "items_fit is M" and "a < length M"
  shows "fold (write_item item) is M ! a = (if a div 64 \<in> set is then item (a div 64) ! (a mod 64) else M ! a)"
  using assms(2,3)
proof (induction "is" arbitrary: M)
  case (Cons i "is")
  have "write_item item i M ! a = (if a div 64 = i then item (a div 64) ! (a mod 64) else M ! a)"
    using Cons.prems assms(1) nth_memcpy_at [of "64 * i" 64 M "item i" a]
    by (auto simp: write_item_def minus_mult_div_eq_mod)
  then show ?case using Cons assms(1) by simp
qed simp

lemma write_items_set:
  assumes "\<And>n. length (item n) = 64" and "items_fit is M" and "set is = set js"
  shows "fold (write_item item) is M = fold (write_item item) js M"
  using assms by (intro nth_equalityI) (simp_all add: nth_write_items)

text \<open>All items in their order, followed by what the memory held behind them.\<close>

lemma nth_concat_items:
  assumes "\<And>n. length (item n) = 64" and "a < 64 * n"
  shows "concat (map item [0..<n]) ! a = item (a div 64) ! (a mod 64)"
  using assms(2)
proof (induction n)
  case (Suc n)
  have "length (concat (map item [0..<n])) = 64 * n" using assms(1) by (induction n) simp_all
  moreover have "a div 64 = n \<and> a mod 64 = a - 64 * n" if "\<not> a < 64 * n"
  proof -
    have "a = 64 * n + (a - 64 * n)" "a - 64 * n < 64" using that Suc.prems by simp_all
    then show ?thesis by (metis div_mult_self4 add.right_neutral div_less mod_less mod_mult_self4 zero_neq_numeral)
  qed
  ultimately show ?case using Suc assms(1) by (cases "a < 64 * n") (auto simp: nth_append)
qed simp

lemma write_all_items:
  assumes "\<And>n. length (item n) = 64" and "set is = {..<n}" and "64 * n \<le> length M"
  shows "fold (write_item item) is M = concat (map item [0..<n]) @ drop (64 * n) M"
proof (rule nth_equalityI)
  have len: "length (concat (map item [0..<n])) = 64 * n" using assms(1) by (induction n) simp_all
  have fit: "items_fit is M" using assms(2,3) by auto
  show "length (fold (write_item item) is M) = length (concat (map item [0..<n]) @ drop (64 * n) M)"
    using assms fit len by simp
  show "fold (write_item item) is M ! a = (concat (map item [0..<n]) @ drop (64 * n) M) ! a"
    if "a < length (fold (write_item item) is M)" for a
  proof (cases "a < 64 * n")
    case True
    then have "a div 64 < n" by auto
    with True show ?thesis using that assms fit len by (simp add: nth_write_items nth_append nth_concat_items)
  next
    case False
    then have "\<not> a div 64 < n" by auto
    with False show ?thesis using that assms fit len by (simp add: nth_write_items nth_append)
  qed
qed

end
