(* ===== verification/Rx_Dataset_Fill.thy ===== *)
theory Rx_Dataset_Fill
  imports Rx_Dataset_Ok
begin

text \<open>
  Filling the dataset: the contract of the routine that computes a range of items (locale
  \<open>dataset_initialiser\<close>), the portable routine as an instance, the partition of the items among
  threads, and every interleaving of the threads as a step relation.
\<close>

section \<open>The contract of \<open>datasetInit\<close>\<close>

text \<open>
  \<open>di c\<close> is the function pointer in a cache c that is ready; it fills a range whose length is a multiple
  of \<open>batch\<close> (1 for the portable routine; 5 for AVX2 code) with the items of c.
\<close>

definition call_items :: "(nat \<times> nat) list \<Rightarrow> nat list" where
  "call_items calls = concat (map (\<lambda>(s, n). [s..<s + n]) calls)"

lemma call_items_simps [simp]:
  "call_items [] = []" "call_items ((s, n) # cs) = [s..<s + n] @ call_items cs"
  by (simp_all add: call_items_def)

lemma set_call_items: "set (call_items cs) = (\<Union>(s, n)\<in>set cs. {s..<s + n})"
  by (auto simp: call_items_def)

text \<open>The calls of threads that may be run: within the dataset and of a length the routine accepts.\<close>

definition calls_ok :: "nat \<Rightarrow> nat \<Rightarrow> (nat \<times> nat) list \<Rightarrow> bool" where
  "calls_ok batch items cs \<longleftrightarrow> (\<forall>(s, n)\<in>set cs. s + n \<le> items \<and> batch dvd n)"

locale dataset_initialiser =
  fixes ready :: "'c \<Rightarrow> bool" and di :: "'c \<Rightarrow> dataset_init" and item :: "'c \<Rightarrow> nat \<Rightarrow> bytes" and batch :: nat
  assumes item_length: "ready c \<Longrightarrow> length (item c n) = 64"
    and di_fills: "ready c \<Longrightarrow> s \<le> e \<Longrightarrow> e < 2 ^ 32 \<Longrightarrow> 64 * e \<le> length M \<Longrightarrow> batch dvd e - s \<Longrightarrow>
      di c M (s * 64) (of_nat s) (of_nat e) = Some (fold (write_item (item c)) [s..<e] M)"
begin

lemma run_calls_fills:
  assumes "ready c" and "calls_ok batch items cs" and "items < 2 ^ 32" and "64 * items \<le> length M"
  shows "run_calls (di c) cs M = Some (fold (write_item (item c)) (call_items cs) M)"
  using assms(2,4)
proof (induction cs arbitrary: M)
  case (Cons call cs)
  obtain s n where call: "call = (s, n)" by (cases call)
  have sn: "s + n \<le> items" "batch dvd n" and cs: "calls_ok batch items cs"
    using Cons.prems(1) by (auto simp: calls_ok_def call)
  have "randomx_init_dataset (di c) s n M = Some (fold (write_item (item c)) [s..<s + n] M)"
    using di_fills [OF assms(1), of s "s + n" M] sn assms(3) Cons.prems(2) by (simp add: randomx_init_dataset_def)
  moreover have "length (fold (write_item (item c)) [s..<s + n] M) = length M"
    using item_length [OF assms(1)] sn(1) Cons.prems(2) by (intro length_write_items) auto
  ultimately show ?case using Cons.IH [OF cs] Cons.prems(2) by (simp add: run_calls_def call)
qed (simp add: run_calls_def)

text \<open>Calls that cover the items, in any order and overlapping or not, leave all items in place.\<close>

lemma calls_fill_all:
  assumes "ready c" and "calls_ok batch items cs" and "set (call_items cs) = {..<items}"
    and "items < 2 ^ 32" and "64 * items \<le> length M"
  shows "run_calls (di c) cs M = Some (concat (map (item c) [0..<items]) @ drop (64 * items) M)"
  using run_calls_fills [OF assms(1,2,4,5)] write_all_items [OF item_length [OF assms(1)] assms(3,5)] by simp

end

section \<open>The portable routine\<close>

definition item_bytes :: "rx_config \<Rightarrow> rx_cache \<Rightarrow> nat \<Rightarrow> bytes" where
  "item_bytes cfg C n = item_image (the (initDatasetItem cfg C (of_nat n)))"

lemma length_item_image: "length rl = 8 \<Longrightarrow> length (item_image rl) = 64"
  by (simp add: item_image_def length_concat comp_def sum_list_triv)

lemma length_item_bytes: "cache_ok cfg C \<Longrightarrow> length (item_bytes cfg C n) = 64"
  using initDatasetItem_total [of cfg C "of_nat n"] by (auto simp: item_bytes_def length_item_image)

lemma initDataset_fills:
  assumes C: "cache_ok cfg C" and "s \<le> e" and "e < 2 ^ 32" and "64 * e \<le> length M"
  shows "initDataset cfg C M (s * 64) (of_nat s) (of_nat e) = Some (fold (write_item (item_bytes cfg C)) [s..<e] M)"
  using assms(2-4)
proof (induction "e - s" arbitrary: s M)
  case 0
  then show ?case by (subst initDataset.simps) (simp add: word_less_nat_alt unat_of_nat_small)
next
  case (Suc k)
  then have se: "s < e" by simp
  obtain rl where rl: "initDatasetItem cfg C (of_nat s) = Some rl" "length rl = 8"
    using initDatasetItem_total [OF C] by blast
  have item: "item_bytes cfg C s = item_image rl" by (simp add: item_bytes_def rl(1))
  have "ucast (of_nat s :: u32) = (of_nat s :: u64)"
    using se Suc.prems(2) by (simp add: word_unat_eq_iff unat_ucast_up unat_of_nat_small)
  moreover have "(of_nat s :: u32) < of_nat e" using se Suc.prems by (simp add: word_less_nat_alt unat_of_nat_small)
  moreover have "dataset_store M (s * 64) (item_image rl) = Some (write_item (item_bytes cfg C) s M)"
    using se Suc.prems(3) by (simp add: dataset_store_def write_item_def item mult.commute)
  moreover have "initDataset cfg C (write_item (item_bytes cfg C) s M) (Suc s * 64) (of_nat (Suc s)) (of_nat e) =
      Some (fold (write_item (item_bytes cfg C)) [Suc s..<e] (write_item (item_bytes cfg C) s M))"
    using Suc.hyps(1) [of "Suc s" "write_item (item_bytes cfg C) s M"] Suc.hyps(2) Suc.prems se length_item_bytes [OF C] by simp
  ultimately show ?case using se
    by (subst initDataset.simps) (simp add: rl(1) upt_conv_Cons algebra_simps)
qed

interpretation portable: dataset_initialiser "cache_ok cfg" "initDataset cfg" "item_bytes cfg" 1
  by unfold_locales (simp_all add: length_item_bytes initDataset_fills)

section \<open>The partition among threads\<close>

lemma wrapped_difference:
  assumes "b \<le> a" and "a < (W :: nat)"
  shows "(a + W - b) mod W = a - b"
proof -
  have eq: "a + W - b = (a - b) + W" and less: "a - b < W" using assms by simp_all
  show ?thesis by (simp only: eq mod_add_self2 mod_less [OF less])
qed

lemma UN_ranges:
  assumes "\<And>i. i < n \<Longrightarrow> b i \<le> b (Suc i)"
  shows "(\<Union>i<n. {b i..<b (Suc i)}) = {b 0..<b n :: nat} \<and> b 0 \<le> b n"
  using assms
proof (induction n)
  case (Suc n)
  then have IH: "(\<Union>i<n. {b i..<b (Suc i)}) = {b 0..<b n}" "b 0 \<le> b n" "b n \<le> b (Suc n)" by auto
  then show ?case by (auto simp: lessThan_Suc)
qed simp

lemma thread_bound_exact:
  assumes "items * threads < 2 ^ w" and "i \<le> threads"
  shows "thread_bound w items threads i = items * i div threads"
proof -
  have "items * i \<le> items * threads" using assms(2) by (rule mult_le_mono2)
  then have "items * i < 2 ^ w" using assms(1) by (rule le_less_trans)
  then show ?thesis by (simp add: thread_bound_def)
qed

lemma thread_bound_step:
  assumes "0 < threads" and "k * threads \<le> items"
  shows "items * i div threads + k \<le> items * Suc i div threads"
proof -
  have "(items * i + k * threads) div threads \<le> items * Suc i div threads"
    using assms(2) by (intro div_le_mono) simp
  then show ?thesis using assms(1) by simp
qed

lemma range_calls_ok:
  assumes "avx2 \<Longrightarrow> 5 \<le> n" and "s + n \<le> items" and "items < 2 ^ w"
    and "batch = 1 \<or> batch = 5 \<and> avx2"
  shows "calls_ok batch items (range_calls w avx2 s n)" and "set (call_items (range_calls w avx2 s n)) = {s..<s + n}"
proof -
  have r: "range_calls w avx2 s n = (if avx2 \<and> n mod 5 \<noteq> 0 then [(s, n - n mod 5), (s + n - 5, 5)] else [(s, n)])"
  proof (cases "avx2")
    case True
    then have "(s + n + 2 ^ w - 5) mod 2 ^ w = s + n - 5" using assms(1-3) by (intro wrapped_difference) simp_all
    then show ?thesis by (simp add: range_calls_def)
  qed (simp add: range_calls_def)
  have "5 dvd n - n mod 5" by (rule dvd_minus_mod)
  moreover have "5 dvd n" if "n mod 5 = 0" using that by auto
  ultimately show "calls_ok batch items (range_calls w avx2 s n)"
    using assms by (auto simp: calls_ok_def r)
  have "n mod 5 < 5" by simp
  then show "set (call_items (range_calls w avx2 s n)) = {s..<s + n}" using assms(1) by (auto simp: r)
qed

text \<open>
  When the partition is right: products of item and thread numbers fit \<open>unsigned long\<close>, and there are
  five items for each thread.
\<close>

definition threads_ok :: "nat \<Rightarrow> nat \<Rightarrow> int \<Rightarrow> bool" where
  "threads_ok w items threads \<longleftrightarrow> items * max 1 (nat threads) < 2 ^ w \<and> 5 * max 1 (nat threads) \<le> items"

lemma thread_calls_eq:
  assumes "threads_ok w items threads" and "1 < threads" and "i < nat threads"
  defines "b \<equiv> \<lambda>i. items * i div nat threads"
  shows "thread_calls w avx2 items (nat threads) i = range_calls w avx2 (b i) (b (Suc i) - b i)"
    and "b i + 5 \<le> b (Suc i)" and "b (Suc i) \<le> items"
proof -
  define t where "t = nat threads"
  have t: "items * t < 2 ^ w" "5 * t \<le> items" "0 < t" "i < t"
    using assms(1-3) by (auto simp: threads_ok_def t_def max_def)
  show b: "b i + 5 \<le> b (Suc i)" using thread_bound_step [of t 5 items i] t by (simp add: b_def t_def [symmetric])
  have "items * Suc i \<le> items * t" using t(4) by (intro mult_le_mono2) simp
  then have "b (Suc i) \<le> items * t div t" unfolding b_def t_def by (rule div_le_mono)
  then show le: "b (Suc i) \<le> items" using t(3) by simp
  have "items \<le> items * t" using t(3) by simp
  then have "items < 2 ^ w" using t(1) by (rule le_less_trans)
  then have "(b (Suc i) + 2 ^ w - b i) mod 2 ^ w = b (Suc i) - b i"
    using b le by (intro wrapped_difference) simp_all
  then show "thread_calls w avx2 items (nat threads) i = range_calls w avx2 (b i) (b (Suc i) - b i)"
    using thread_bound_exact [OF t(1), of i] thread_bound_exact [OF t(1), of "Suc i"] t(4)
    by (simp add: thread_calls_def Let_def t_def [symmetric] b_def del: mult_Suc_right)
qed

lemma thread_calls_cover:
  assumes "threads_ok w (randomx_dataset_item_count cfg) threads" and "batch = 1 \<or> batch = 5 \<and> avx2"
  defines "items \<equiv> randomx_dataset_item_count cfg" and "calls \<equiv> RxInstance_initDataset w avx2 cfg threads"
  shows "calls_ok batch items (concat calls)" and "set (call_items (concat calls)) = {..<items}"
    and "i < length calls \<Longrightarrow> j < length calls \<Longrightarrow> i \<noteq> j \<Longrightarrow> set (call_items (calls ! i)) \<inter> set (call_items (calls ! j)) = {}"
proof -
  have ok: "threads_ok w items threads" using assms(1) by (simp add: items_def)
  define t where "t = max 1 (nat threads)"
  have t: "1 \<le> t" "items * t < 2 ^ w" "5 * t \<le> items" using ok by (simp_all add: threads_ok_def t_def)
  have "items * 1 \<le> items * t" using t(1) by (rule mult_le_mono2)
  then have "items * 1 < 2 ^ w" using t(2) by (rule le_less_trans)
  then have small: "items < 2 ^ w" "5 \<le> items" using t(1,3) by simp_all
  have items: "set (call_items (concat cs)) = (\<Union>c\<in>set cs. set (call_items c))"
    and oks: "calls_ok batch items (concat cs) \<longleftrightarrow> (\<forall>c\<in>set cs. calls_ok batch items c)" for cs
    by (auto simp: set_call_items calls_ok_def)
  have "calls_ok batch items (concat calls) \<and> set (call_items (concat calls)) = {..<items}
    \<and> (\<forall>i<length calls. \<forall>j<length calls. i \<noteq> j \<longrightarrow> set (call_items (calls ! i)) \<inter> set (call_items (calls ! j)) = {})"
  proof (cases "threads \<le> 1")
    case True
    then have "calls = [range_calls w avx2 0 items]"
      by (simp add: calls_def RxInstance_initDataset_def items_def [symmetric] Let_def)
    then show ?thesis
      using range_calls_ok [of avx2 items 0 items w batch] small assms(2) by (simp add: atLeast0LessThan del: less_one)
  next
    case False
    define b where "b i = items * i div nat threads" for i
    have pos: "1 < threads" "0 < nat threads" using False by simp_all
    note eq = thread_calls_eq [OF ok pos(1), folded b_def]
    have calls: "calls = map (\<lambda>i. range_calls w avx2 (b i) (b (Suc i) - b i)) [0..<nat threads]"
      using False eq(1) by (simp add: calls_def RxInstance_initDataset_def items_def [symmetric] Let_def)
    have range: "calls_ok batch items (range_calls w avx2 (b i) (b (Suc i) - b i))"
      "set (call_items (range_calls w avx2 (b i) (b (Suc i) - b i))) = {b i..<b (Suc i)}" if "i < nat threads" for i
      using range_calls_ok [of avx2 "b (Suc i) - b i" "b i" items w batch] eq(2,3) [OF that] small(1) assms(2) by simp_all
    have "(\<Union>i<nat threads. {b i..<b (Suc i)}) = {b 0..<b (nat threads)}"
      using UN_ranges [of "nat threads" b] eq(2) by (meson add_leD1)
    also have "\<dots> = {..<items}" using pos(2) by (auto simp: b_def)
    finally have union: "(\<Union>i<nat threads. {b i..<b (Suc i)}) = {..<items}" .
    have mono: "b (Suc i) \<le> b j" if "i < j" for i j
      unfolding b_def by (intro div_le_mono mult_le_mono2) (use that in simp)
    have disj: "{b i..<b (Suc i)} \<inter> {b j..<b (Suc j)} = {}" if "i \<noteq> j" for i j
      using mono [of i j] mono [of j i] that by (cases "i < j") auto
    show ?thesis
    proof (intro conjI allI impI)
      show "calls_ok batch items (concat calls)" using range(1) by (simp add: oks calls)
      show "set (call_items (concat calls)) = {..<items}"
        using range(2) union by (simp add: items calls) (simp add: atLeast0LessThan)
      show "set (call_items (calls ! i)) \<inter> set (call_items (calls ! j)) = {}"
        if "i < length calls" "j < length calls" "i \<noteq> j" for i j
        using that range(2) disj by (simp add: calls)
    qed
  qed
  then show "calls_ok batch items (concat calls)" and "set (call_items (concat calls)) = {..<items}"
    and "i < length calls \<Longrightarrow> j < length calls \<Longrightarrow> i \<noteq> j \<Longrightarrow> set (call_items (calls ! i)) \<inter> set (call_items (calls ! j)) = {}"
    by simp_all
qed

end
