(* ===== verification/Rx_Light.thy ===== *)
theory Rx_Light
  imports Rx_Dataset_Fill Rx_Hash
begin

text \<open>
  What holds of cache, dataset and machines together: the threads of \<open>RxInstance::initDataset\<close> in
  every interleaving, the initialisation of the cache, and the light machine against the full one.
\<close>

section \<open>Interleavings of the threads\<close>

text \<open>
  The state is what every thread has still to write, and the memory of the dataset; a step is one
  thread writing its next item.
\<close>

definition dataset_work :: "nat \<Rightarrow> bool \<Rightarrow> rx_config \<Rightarrow> int \<Rightarrow> nat list list" where
  "dataset_work w avx2 cfg threads = map call_items (RxInstance_initDataset w avx2 cfg threads)"

lemma call_items_concat: "call_items (concat css) = concat (map call_items css)"
  by (induction css) (simp_all add: call_items_def)

inductive fill_step :: "(nat \<Rightarrow> bytes) \<Rightarrow> nat list list \<times> bytes \<Rightarrow> nat list list \<times> bytes \<Rightarrow> bool" for item where
  fill: "i < length ts \<Longrightarrow> ts ! i = x # xs \<Longrightarrow> fill_step item (ts, M) (ts[i := xs], write_item item x M)"

inductive_cases fill_stepE: "fill_step item (ts, M) s"

lemma fill_step_progress:
  assumes "\<nexists>s. fill_step item (ts, M) s"
  shows "concat ts = []"
proof -
  have "ts ! i = []" if "i < length ts" for i
    using assms fill_step.fill [OF that, of _ _ item M] by (cases "ts ! i") blast+
  then show ?thesis by (auto simp: in_set_conv_nth)
qed

lemma fill_step_work:
  assumes "fill_step item (ts, M) (ts', M')"
  shows "\<exists>xs x ys. concat ts = xs @ x # ys \<and> concat ts' = xs @ ys \<and> M' = write_item item x M"
proof -
  obtain i x xs where i: "i < length ts" "ts ! i = x # xs" and new: "ts' = ts[i := xs]" "M' = write_item item x M"
    using assms by (auto elim: fill_stepE)
  have "concat ts = concat (take i ts) @ x # xs @ concat (drop (Suc i) ts)"
    using id_take_nth_drop [OF i(1)] i(2) by (metis concat.simps(2) concat_append append_Cons)
  moreover have "concat ts' = concat (take i ts) @ xs @ concat (drop (Suc i) ts)"
    using i(1) by (simp add: new upd_conv_take_nth_drop)
  ultimately show ?thesis using new(2) by blast
qed

lemma fill_step_keeps:
  assumes "fill_step item (ts, M) (ts', M')" and "\<And>n. length (item n) = 64" and "items_fit (concat ts) M"
  shows "fold (write_item item) (concat ts') M' = fold (write_item item) (concat ts) M"
    and "length (concat ts) = Suc (length (concat ts'))" and "items_fit (concat ts') M'"
proof -
  obtain xs x ys where ts: "concat ts = xs @ x # ys" "concat ts' = xs @ ys" and new: "M' = write_item item x M"
    using fill_step_work [OF assms(1)] by blast
  show "length (concat ts) = Suc (length (concat ts'))" by (simp only: ts) simp
  have x: "64 * x + 64 \<le> length M" and fit: "items_fit (concat ts') M" using assms(3) by (auto simp: ts)
  have len: "length M' = length M" using assms(2) x by (simp add: new)
  then show "items_fit (concat ts') M'" using fit by simp
  have "fold (write_item item) (concat ts') M' = fold (write_item item) (x # concat ts') M" by (simp add: new)
  also have "\<dots> = fold (write_item item) (concat ts) M"
    by (rule write_items_set [OF assms(2)]) (use fit x in \<open>auto simp: ts\<close>)
  finally show "fold (write_item item) (concat ts') M' = fold (write_item item) (concat ts) M" .
qed

text \<open>A run of \<open>n\<close> steps has \<open>n\<close> items fewer to write; what it will have written in the end does not change.\<close>

lemma fill_run_keeps:
  assumes "(fill_step item ^^ n) (ts, M) (ts', M')" and "\<And>n. length (item n) = 64" and "items_fit (concat ts) M"
  shows "fold (write_item item) (concat ts') M' = fold (write_item item) (concat ts) M
    \<and> length (concat ts) = n + length (concat ts') \<and> items_fit (concat ts') M'"
  using assms(1)
proof (induction n arbitrary: ts' M')
  case (Suc n)
  then obtain us N where "(fill_step item ^^ n) (ts, M) (us, N)" "fill_step item (us, N) (ts', M')" by auto
  then show ?case using Suc.IH [of us N] fill_step_keeps [of item us N ts' M'] assms(2) by simp
qed (use assms(3) in simp)

section \<open>The light machine and the full machine\<close>

lemma dataset_items: "cache_config_ok cfg \<Longrightarrow> dataset_size cfg = 64 * randomx_dataset_item_count cfg"
  by (auto simp: cache_config_ok_def dataset_size_def randomx_dataset_item_count_def unat_add_small)

lemma dataset_items_small: "cache_config_ok cfg \<Longrightarrow> randomx_dataset_item_count cfg < 2 ^ 26"
  by (auto simp: cache_config_ok_def randomx_dataset_item_count_def unat_add_small intro: less_mult_imp_div_less)

lemma map_upt_nth: "a + n \<le> length xs \<Longrightarrow> map ((!) xs) [a..<a + n] = take n (drop a xs)"
  by (rule nth_equalityI) simp_all

lemma take_store64_concat:
  "i < length ws \<Longrightarrow> take 8 (drop (8 * i) (concat (map store64 ws))) = store64 (ws ! i)"
proof (induction ws arbitrary: i)
  case (Cons w ws)
  then show ?case by (cases i) simp_all
qed simp

text \<open>A line of the filled dataset holds the item of its number, word by word.\<close>

lemma filled_line:
  assumes item: "\<And>n. length (item n) = 64" and k: "k < N" and i: "i < 8" and rl: "item k = item_image rl" "length rl = 8"
    and M: "M = concat (map item [0..<N]) @ rest"
  shows "load64 (map ((!) M) [64 * k + 8 * i..<64 * k + 8 * i + 8]) = rl ! i"
proof -
  have line: "M ! (64 * k + j) = item k ! j" if "j < 64" for j
  proof -
    have "64 * k + j < 64 * N" using k that by linarith
    moreover have "length (concat (map item [0..<N])) = 64 * N" using item by (induction N) simp_all
    ultimately show ?thesis
      using nth_concat_items [OF item, of "64 * k + j" N] that by (simp add: M nth_append)
  qed
  have "map ((!) M) [64 * k + 8 * i..<64 * k + 8 * i + 8] = take 8 (drop (8 * i) (item k))"
  proof (rule nth_equalityI)
    show "length (map ((!) M) [64 * k + 8 * i..<64 * k + 8 * i + 8]) = length (take 8 (drop (8 * i) (item k)))"
      using i by (simp add: item)
    show "map ((!) M) [64 * k + 8 * i..<64 * k + 8 * i + 8] ! j = take 8 (drop (8 * i) (item k)) ! j"
      if "j < length (map ((!) M) [64 * k + 8 * i..<64 * k + 8 * i + 8])" for j
      using that i line [of "8 * i + j"] item [of k] by (simp add: nth_upt add.assoc)
  qed
  then show ?thesis using i rl take_store64_concat [of i rl] by (simp add: item_image_def)
qed

lemma light_reader_agrees:
  assumes C: "cache_ok cfg C" and M: "M = concat (map (item_bytes cfg C) [0..<randomx_dataset_item_count cfg]) @ rest"
  shows "readers_agree cfg (datasetRead (hw\<lparr>h_dataset := (!) M\<rparr>) cfg) (datasetRead_light cfg C)"
    and "reader_ok cfg (datasetRead (hw\<lparr>h_dataset := (!) M\<rparr>) cfg)"
proof -
  have cfg: "cache_config_ok cfg" using C by (simp add: cache_ok_def)
  show "reader_ok cfg (datasetRead (hw\<lparr>h_dataset := (!) M\<rparr>) cfg)" by (rule datasetRead_reader)
  show "readers_agree cfg (datasetRead (hw\<lparr>h_dataset := (!) M\<rparr>) cfg) (datasetRead_light cfg C)"
    unfolding readers_agree_def
  proof (intro allI impI)
    fix a and r :: "u64 list"
    assume a: "64 dvd a \<and> a + 64 \<le> dataset_size cfg"
    then obtain k where k: "a = 64 * k" "k < randomx_dataset_item_count cfg"
      using dataset_items [OF cfg] by (auto elim!: dvdE)
    then have small: "k < 2 ^ 32" using dataset_items_small [OF cfg] by simp
    obtain rl where rl: "initDatasetItem cfg C (of_nat k) = Some rl" "length rl = 8"
      using initDatasetItem_total [OF C] by blast
    have "ucast (of_nat k :: u32) = (of_nat k :: u64)"
      using small by (simp add: word_unat_eq_iff unat_ucast_up unat_of_nat_small)
    then have light: "datasetRead_light cfg C a r = Some (map (\<lambda>i. r ! i XOR rl ! i) [0..<8])"
      using rl by (simp add: datasetRead_light_def k Let_def del: upt_Suc)
    have "load64 (map ((!) M) [a + 8 * i..<a + 8 * i + 8]) = rl ! i" if "i < 8" for i
      unfolding k(1) by (rule filled_line [OF length_item_bytes [OF C] k(2) that _ rl(2) M]) (simp add: item_bytes_def rl(1))
    then have full: "datasetRead (hw\<lparr>h_dataset := (!) M\<rparr>) cfg a r = Some (map (\<lambda>i. r ! i XOR rl ! i) [0..<8])"
      using a by (simp add: datasetRead_def del: upt_Suc)
    show "datasetRead (hw\<lparr>h_dataset := (!) M\<rparr>) cfg a r = datasetRead_light cfg C a r"
      by (simp only: light full)
  qed
qed

lemma vm_run_with_dataset: "vm_run_with rd (hw\<lparr>h_dataset := f\<rparr>) cfg vm seed = vm_run_with rd hw cfg vm seed"
proof -
  have loop: "vm_loop rd (hw\<lparr>h_dataset := f\<rparr>) cfg bc vm' n s0 s1 st = vm_loop rd hw cfg bc vm' n s0 s1 st"
    for bc vm' n s0 s1 st
  proof (induction n arbitrary: s0 s1 st)
    case (Suc n)
    have "vm_iteration rd (hw\<lparr>h_dataset := f\<rparr>) cfg bc vm' s0 s1 st = vm_iteration rd hw cfg bc vm' s0 s1 st"
      by (simp add: vm_iteration_def)
    moreover have "vm_loop rd (hw\<lparr>h_dataset := f\<rparr>) cfg bc vm' n 0 0 = vm_loop rd hw cfg bc vm' n 0 0"
      using Suc by (intro ext)
    ultimately show ?case by (simp only: vm_loop.simps)
  qed simp
  have "generateProgram (hw\<lparr>h_dataset := f\<rparr>) cfg seed = generateProgram hw cfg seed"
    by (simp add: generateProgram_def)
  then show ?thesis by (simp only: vm_run_with_def vm_execute_def loop)
qed

lemma light_run:
  assumes C: "cache_ok cfg C" and cfg: "config_ok cfg" and sp: "length (v_sp vm) = unat (ScratchpadL3_Size cfg)"
    and M: "M = concat (map (item_bytes cfg C) [0..<randomx_dataset_item_count cfg]) @ rest"
  shows "vm_run (hw\<lparr>h_dataset := (!) M\<rparr>) cfg vm seed = vm_run_light hw cfg C vm seed"
  unfolding vm_run_def vm_run_light_def
  using vm_run_readers [OF cfg sp light_reader_agrees(2,1) [OF C M], of hw hw seed]
  by (simp only: vm_run_with_dataset)

lemma initCache_ok:
  assumes "initCache H loc malloc (applyAlgoConfig algo) key C0 = Some C" and "redraws_end H" and "locals_ok loc"
    and "mem_ok (unat (ArgonMemory (applyAlgoConfig algo))) (k_memory C0)"
    and "length (k_programs C0) = RANDOMX_CACHE_MAX_ACCESSES"
  shows "cache_ok (applyAlgoConfig algo) C"
  using initCache_agree [OF applyAlgoConfig_cache_ok assms(2,3,3,4,5,4,5) refl, of malloc key malloc] assms(1) by auto

lemma fill_run_exists:
  "\<exists>n ts' M'. (fill_step item ^^ n) (ts, M) (ts', M') \<and> concat ts' = []"
proof (induction "length (concat ts)" arbitrary: ts M)
  case 0
  then show ?case by (intro exI [of _ 0] exI [of _ ts] exI [of _ M]) simp
next
  case (Suc k)
  then obtain ts1 M1 where step: "fill_step item (ts, M) (ts1, M1)"
    using fill_step_progress [of item ts M] by fastforce
  then have "k = length (concat ts1)" using fill_step_work [OF step] Suc.hyps(2) by auto
  then obtain n ts' M' where "(fill_step item ^^ n) (ts1, M1) (ts', M')" "concat ts' = []"
    using Suc.hyps(1) by blast
  then have "(fill_step item ^^ Suc n) (ts, M) (ts', M') \<and> concat ts' = []"
    using step relpowp_Suc_I2 [of "fill_step item" "(ts, M)" "(ts1, M1)" n "(ts', M')"] by blast
  then show ?case by blast
qed

section \<open>Properties\<close>

definition demo_cache_memory :: "RxAlgo \<Rightarrow> u64 \<Rightarrow> rx_cache" where
  "demo_cache_memory algo x = \<lparr>k_memory = replicate (unat (ArgonMemory (applyAlgoConfig algo))) (replicate 128 x),
     k_programs = replicate 16 \<lparr>u_instrs = [], u_addrReg = 0, u_codeSize = 0, u_macroOps = 0, u_decodeCycles = 0,
       u_cpuLatency = 0, u_asicLatency = 0, u_mulCount = 0, u_cpuLatencies = [], u_asicLatencies = []\<rparr>\<rparr>"

lemma demo_cache_memory_ok:
  "mem_ok (unat (ArgonMemory (applyAlgoConfig algo))) (k_memory (demo_cache_memory algo x))"
  "length (k_memory (demo_cache_memory algo x)) = unat (ArgonMemory (applyAlgoConfig algo))"
  "length (k_programs (demo_cache_memory algo x)) = 16"
  by (simp_all add: demo_cache_memory_def mem_ok_def)

lemma demo_cache:
  "\<exists>C. initCache steady_hash (demo_locals 0) (\<lambda>n. None) (applyAlgoConfig algo) [1, 2, 3] (demo_cache_memory algo 0) = Some C"
  using initCache_agree [OF applyAlgoConfig_cache_ok steady_redraws_end demo_locals_ok [of 0] demo_locals_ok [of 0]
      demo_cache_memory_ok(1,3) demo_cache_memory_ok(1,3) refl, where malloc = "\<lambda>n. None" and key = "[1, 2, 3]"] by blast

text \<open>C31: for every algorithm and every key, nothing but the redrawing loops of the superscalar generator can keep \<open>initCache\<close>
  from returning a cache, although nobody looks at the status of \<open>argon2_ctx_mem\<close>: its context is always valid.  It returns one
  when these loops end.  Whether it returns does not depend on what the cache held or on uninitialised locals, and a cache it
  returns defines every item of the dataset, and the items depend on the key only: two caches with any contents, initialised with
  different locals, define the same items.  (\<open>H\<close> is any hash in the place of the BLAKE2b behind the generator.)\<close>

theorem cache_initialised:
  assumes "locals_ok loc" and "locals_ok loc'"
    and "mem_ok (unat (ArgonMemory (applyAlgoConfig algo))) (k_memory C)"
    and "mem_ok (unat (ArgonMemory (applyAlgoConfig algo))) (k_memory D)"
    and "length (k_memory C) = length (k_memory D)"
    and "length (k_programs C) = RANDOMX_CACHE_MAX_ACCESSES" and "length (k_programs D) = RANDOMX_CACHE_MAX_ACCESSES"
  shows "(initCache H loc malloc (applyAlgoConfig algo) key C = None) = (initCache H loc' malloc' (applyAlgoConfig algo) key D = None)
    \<and> (initCache H loc malloc (applyAlgoConfig algo) key C = None \<longrightarrow>
         (\<exists>g. generateSuperscalar H (unat (SuperscalarLatency (applyAlgoConfig algo))) g = None))
    \<and> (redraws_end H \<longrightarrow> initCache H loc malloc (applyAlgoConfig algo) key C \<noteq> None)
    \<and> (\<forall>C' D'. initCache H loc malloc (applyAlgoConfig algo) key C = Some C'
         \<longrightarrow> initCache H loc' malloc' (applyAlgoConfig algo) key D = Some D'
         \<longrightarrow> (\<forall>n. \<exists>rl. initDatasetItem (applyAlgoConfig algo) C' n = Some rl
               \<and> initDatasetItem (applyAlgoConfig algo) D' n = Some rl \<and> length rl = 8))"
proof -
  let ?cfg = "applyAlgoConfig algo"
  note ret = initCache_returns [OF applyAlgoConfig_cache_ok assms(1-3,6,4,7,5), of H malloc key malloc']
  have "initCache H loc malloc ?cfg key C \<noteq> None" if "redraws_end H"
    using initCache_agree [OF applyAlgoConfig_cache_ok that assms(1-3,6,4,7,5), of malloc key malloc'] by auto
  moreover have "\<exists>rl. initDatasetItem ?cfg C' n = Some rl \<and> initDatasetItem ?cfg D' n = Some rl \<and> length rl = 8"
    if "initCache H loc malloc ?cfg key C = Some C'" "initCache H loc' malloc' ?cfg key D = Some D'" for C' D' n
  proof -
    have "cache_ok ?cfg C'" "caches_agree ?cfg C' D'" using ret that by auto
    then show ?thesis
      using initDatasetItem_total [of ?cfg C' n] initDatasetItem_agree [OF \<open>caches_agree ?cfg C' D'\<close> applyAlgoConfig_cache_ok, of n] by simp
  qed
  moreover have "(initCache H loc malloc ?cfg key C = None) = (initCache H loc' malloc' ?cfg key D = None)"
    "initCache H loc malloc ?cfg key C = None \<longrightarrow> (\<exists>g. generateSuperscalar H (unat (SuperscalarLatency ?cfg)) g = None)"
    using ret by auto
  ultimately show ?thesis by blast
qed

theorem cache_initialised_witness:
  "\<exists>C' D'. initCache steady_hash (demo_locals 1) (\<lambda>n. None) (applyAlgoConfig RX_XLA) [1, 2, 3] (demo_cache_memory RX_XLA 7) = Some C'
    \<and> initCache steady_hash (demo_locals 2) (\<lambda>n. Some []) (applyAlgoConfig RX_XLA) [1, 2, 3] (demo_cache_memory RX_XLA 9) = Some D'
    \<and> initDatasetItem (applyAlgoConfig RX_XLA) C' 5 = initDatasetItem (applyAlgoConfig RX_XLA) D' 5"
proof -
  have len: "length (k_memory (demo_cache_memory RX_XLA 7)) = length (k_memory (demo_cache_memory RX_XLA 9))"
    by (simp only: demo_cache_memory_ok)
  obtain C' D' where "initCache steady_hash (demo_locals 1) (\<lambda>n. None) (applyAlgoConfig RX_XLA) [1, 2, 3] (demo_cache_memory RX_XLA 7) = Some C'"
    "initCache steady_hash (demo_locals 2) (\<lambda>n. Some []) (applyAlgoConfig RX_XLA) [1, 2, 3] (demo_cache_memory RX_XLA 9) = Some D'"
    "\<forall>n. \<exists>rl. initDatasetItem (applyAlgoConfig RX_XLA) C' n = Some rl
         \<and> initDatasetItem (applyAlgoConfig RX_XLA) D' n = Some rl \<and> length rl = 8"
    using cache_initialised [OF demo_locals_ok [of 1] demo_locals_ok [of 2]
        demo_cache_memory_ok(1) demo_cache_memory_ok(1) len demo_cache_memory_ok(3) demo_cache_memory_ok(3),
        of steady_hash "\<lambda>n. None" "[1, 2, 3]" "\<lambda>n. Some []"] steady_redraws_end by fastforce
  then show ?thesis by metis
qed

text \<open>C9: the threads of \<open>RxInstance::initDataset\<close> fill the dataset, in every interleaving.  With
  at least five items for every thread and products that fit \<open>unsigned long\<close>, no run writes more than the
  work there was; a run with work left can go on; and a run with no work left has written exactly
  the items 0, 1, ... of the cache in their places and nothing behind them, which is also what the
  threads leave when they run one after the other.  Two threads never write the same item, so there is no
  race, although with AVX2 the two calls of one thread overlap.\<close>

theorem dataset_threads_complete:
  assumes "cache_ok cfg C" and "threads_ok w (randomx_dataset_item_count cfg) threads"
    and "64 * randomx_dataset_item_count cfg \<le> length M"
    and "(fill_step (item_bytes cfg C) ^^ n) (dataset_work w avx2 cfg threads, M) (ts, N)"
  shows "n \<le> length (concat (dataset_work w avx2 cfg threads))
    \<and> (concat ts \<noteq> [] \<longrightarrow> (\<exists>s. fill_step (item_bytes cfg C) (ts, N) s))
    \<and> (concat ts = [] \<longrightarrow>
         N = concat (map (item_bytes cfg C) [0..<randomx_dataset_item_count cfg]) @ drop (64 * randomx_dataset_item_count cfg) M
       \<and> run_calls (initDataset cfg C) (concat (RxInstance_initDataset w avx2 cfg threads)) M = Some N)
    \<and> (\<forall>i < length (dataset_work w avx2 cfg threads). \<forall>j < length (dataset_work w avx2 cfg threads). i \<noteq> j \<longrightarrow>
         set (dataset_work w avx2 cfg threads ! i) \<inter> set (dataset_work w avx2 cfg threads ! j) = {})"
proof -
  let ?items = "randomx_dataset_item_count cfg" and ?calls = "RxInstance_initDataset w avx2 cfg threads"
  note cover = thread_calls_cover [where batch = 1 and ?avx2.0 = avx2, OF assms(2) disjI1 [OF refl]]
  have work: "concat (dataset_work w avx2 cfg threads) = call_items (concat ?calls)"
    by (simp add: dataset_work_def call_items_concat)
  have small: "?items < 2 ^ 32" using assms(1) dataset_items_small by (fastforce simp: cache_ok_def)
  note item = length_item_bytes [OF assms(1)]
  have fit: "items_fit (concat (dataset_work w avx2 cfg threads)) M"
    using cover(2) assms(3) by (auto simp: work)
  note keeps = fill_run_keeps [OF assms(4) item fit]
  have all: "fold (write_item (item_bytes cfg C)) (concat (dataset_work w avx2 cfg threads)) M =
      concat (map (item_bytes cfg C) [0..<?items]) @ drop (64 * ?items) M"
    by (rule write_all_items [OF item]) (simp_all add: work cover(2) assms(3))
  have "run_calls (initDataset cfg C) (concat ?calls) M =
      Some (concat (map (item_bytes cfg C) [0..<?items]) @ drop (64 * ?items) M)"
    by (rule portable.calls_fill_all [OF assms(1) cover(1,2) small assms(3)])
  moreover have "concat ts \<noteq> [] \<Longrightarrow> \<exists>s. fill_step (item_bytes cfg C) (ts, N) s"
    using fill_step_progress [of "item_bytes cfg C" ts N] by blast
  moreover have "N = concat (map (item_bytes cfg C) [0..<?items]) @ drop (64 * ?items) M" if "concat ts = []"
    using keeps all unfolding that by simp
  moreover have "n \<le> length (concat (dataset_work w avx2 cfg threads))" using keeps by simp
  moreover have "set (dataset_work w avx2 cfg threads ! i) \<inter> set (dataset_work w avx2 cfg threads ! j) = {}"
    if "i < length (dataset_work w avx2 cfg threads)" "j < length (dataset_work w avx2 cfg threads)" "i \<noteq> j" for i j
    using that cover(3) [of i j] by (simp add: dataset_work_def)
  ultimately show ?thesis by blast
qed

lemma xla_items: "randomx_dataset_item_count (applyAlgoConfig RX_XLA) = 1048575"
  by (simp add: rx_variant_defs randomx_dataset_item_count_def)

lemma demo_cache_ready: "\<exists>C. cache_ok (applyAlgoConfig algo) C"
  using demo_cache initCache_ok [OF _ steady_redraws_end demo_locals_ok demo_cache_memory_ok(1,3)] by blast

theorem dataset_threads_complete_witness:
  "\<exists>C n ts N. (fill_step (item_bytes (applyAlgoConfig RX_XLA) C) ^^ n)
      (dataset_work 64 True (applyAlgoConfig RX_XLA) 4, replicate 67108800 0) (ts, N) \<and> concat ts = []
    \<and> N = concat (map (item_bytes (applyAlgoConfig RX_XLA) C) [0..<1048575])"
proof -
  obtain C where C: "cache_ok (applyAlgoConfig RX_XLA) C" using demo_cache_ready by blast
  obtain n ts N where run: "(fill_step (item_bytes (applyAlgoConfig RX_XLA) C) ^^ n)
      (dataset_work 64 True (applyAlgoConfig RX_XLA) 4, replicate 67108800 0) (ts, N)" "concat ts = []"
    using fill_run_exists by blast
  have "threads_ok 64 (randomx_dataset_item_count (applyAlgoConfig RX_XLA)) 4"
    by (simp only: xla_items) (simp add: threads_ok_def)
  from dataset_threads_complete [OF C this _ run(1)] run(2)
  have "N = concat (map (item_bytes (applyAlgoConfig RX_XLA) C) [0..<1048575])"
    by (simp only: xla_items) simp
  then show ?thesis using run by blast
qed

text \<open>C5: the light machine refines the full machine.  For every algorithm and every cache \<open>initCache\<close>
  made, when the threads (any number that the partition allows, with AVX2 or without) have filled a
  dataset of the allocated size from that cache, a machine that reads the dataset and a light machine that
  recomputes every item it needs from the cache return the same, and they do return.\<close>

theorem light_machine_refines:
  assumes "initCache H loc malloc (applyAlgoConfig algo) key C0 = Some C"
    and "redraws_end H" and "locals_ok loc" and "mem_ok (unat (ArgonMemory (applyAlgoConfig algo))) (k_memory C0)"
    and "length (k_programs C0) = RANDOMX_CACHE_MAX_ACCESSES"
    and "threads_ok w (randomx_dataset_item_count (applyAlgoConfig algo)) threads"
    and "length M = dataset_size (applyAlgoConfig algo)"
    and "run_calls (initDataset (applyAlgoConfig algo) C) (concat (RxInstance_initDataset w avx2 (applyAlgoConfig algo) threads)) M
           = Some N"
    and "length (v_sp vm) = unat (ScratchpadL3_Size (applyAlgoConfig algo))"
  shows "vm_run (hw\<lparr>h_dataset := (!) N\<rparr>) (applyAlgoConfig algo) vm seed = vm_run_light hw (applyAlgoConfig algo) C vm seed
    \<and> vm_run_light hw (applyAlgoConfig algo) C vm seed \<noteq> None"
proof -
  let ?cfg = "applyAlgoConfig algo"
  have C: "cache_ok ?cfg C" by (rule initCache_ok [OF assms(1-5)])
  note cover = thread_calls_cover [where batch = 1 and ?avx2.0 = avx2, OF assms(6) disjI1 [OF refl]]
  have size: "64 * randomx_dataset_item_count ?cfg \<le> length M"
    using dataset_items [OF applyAlgoConfig_cache_ok] assms(7) by simp
  have small: "randomx_dataset_item_count ?cfg < 2 ^ 32"
    using dataset_items_small [OF applyAlgoConfig_cache_ok, of algo] by simp
  have "N = concat (map (item_bytes ?cfg C) [0..<randomx_dataset_item_count ?cfg]) @ drop (64 * randomx_dataset_item_count ?cfg) M"
    using portable.calls_fill_all [OF C cover(1,2) small size] assms(8) by simp
  from light_run [OF C applyAlgoConfig_ok assms(9) this]
  have run: "vm_run (hw\<lparr>h_dataset := (!) N\<rparr>) ?cfg vm seed = vm_run_light hw ?cfg C vm seed" .
  then show ?thesis using vm_run_total [OF applyAlgoConfig_ok assms(9), of "hw\<lparr>h_dataset := (!) N\<rparr>" seed] by auto
qed

lemma xla_size: "dataset_size (applyAlgoConfig RX_XLA) = 67108800"
  by (simp add: rx_variant_defs dataset_size_def)

theorem light_machine_refines_witness:
  "\<exists>C N. vm_run (idle_hw\<lparr>h_dataset := (!) N\<rparr>) (applyAlgoConfig RX_XLA) (idle_vm\<lparr>v_sp := replicate 262144 7\<rparr>) aes_gen_key
      = vm_run_light idle_hw (applyAlgoConfig RX_XLA) C (idle_vm\<lparr>v_sp := replicate 262144 7\<rparr>) aes_gen_key
    \<and> vm_run_light idle_hw (applyAlgoConfig RX_XLA) C (idle_vm\<lparr>v_sp := replicate 262144 7\<rparr>) aes_gen_key \<noteq> None"
proof -
  let ?cfg = "applyAlgoConfig RX_XLA"
  obtain C where C: "initCache steady_hash (demo_locals 0) (\<lambda>n. None) ?cfg [1, 2, 3] (demo_cache_memory RX_XLA 0) = Some C"
    using demo_cache by blast
  have threads: "threads_ok 64 (randomx_dataset_item_count ?cfg) 4"
    by (simp only: xla_items) (simp add: threads_ok_def)
  note cover = thread_calls_cover [where batch = 1 and ?avx2.0 = True, OF threads disjI1 [OF refl]]
  have ready: "cache_ok ?cfg C"
    by (rule initCache_ok [OF C steady_redraws_end demo_locals_ok demo_cache_memory_ok(1,3)])
  have "run_calls (initDataset ?cfg C) (concat (RxInstance_initDataset 64 True ?cfg 4)) (replicate 67108800 0) \<noteq> None"
    using portable.calls_fill_all [OF ready cover(1,2), of "replicate 67108800 0"] by (simp only: xla_items) simp
  then obtain N where N: "run_calls (initDataset ?cfg C) (concat (RxInstance_initDataset 64 True ?cfg 4))
      (replicate 67108800 0) = Some N" by blast
  have len: "length (replicate 67108800 (0 :: u8)) = dataset_size ?cfg" by (simp only: xla_size length_replicate)
  have sp: "length (v_sp (idle_vm\<lparr>v_sp := replicate 262144 7\<rparr>)) = unat (ScratchpadL3_Size ?cfg)"
    by (simp add: rx_variant_defs)
  show ?thesis
    using light_machine_refines [OF C steady_redraws_end demo_locals_ok demo_cache_memory_ok(1,3) threads len N sp] by blast
qed

section \<open>Where \<open>unsigned long\<close> has 32 bits\<close>

lemma base_items: "algo \<noteq> RX_XLA \<Longrightarrow> randomx_dataset_item_count (applyAlgoConfig algo) = 34078719"
  by (cases algo) (simp_all add: rx_variant_defs randomx_dataset_item_count_def Let_def)

text \<open>A call that ends below an item, modulo the 32 bits of an item number, leaves that item alone.\<close>

lemma call_below:
  assumes C: "cache_ok cfg C" and s: "s < 2 ^ 32" and e: "(s + n) mod 2 ^ 32 \<le> m" and m: "64 * m \<le> length M"
  shows "\<exists>N. randomx_init_dataset (initDataset cfg C) s n M = Some N \<and> length N = length M
    \<and> drop (64 * m) N = drop (64 * m) M"
proof -
  define e' where "e' = (s + n) mod 2 ^ 32"
  have endw: "(of_nat (s + n) :: u32) = of_nat e'"
    unfolding e'_def by (simp add: word_unat_eq_iff unat_of_nat del: of_nat_add)
  have e': "e' < 2 ^ 32" "e' \<le> m" using e by (simp_all add: e'_def)
  show ?thesis
  proof (cases "s \<le> e'")
    case True
    have fit: "64 * e' \<le> length M" using e'(2) m by linarith
    have items: "items_fit [s..<e'] M" using fit by auto
    have len: "length (fold (write_item (item_bytes cfg C)) [s..<e'] M) = length M"
      by (rule length_write_items [OF length_item_bytes [OF C] items])
    have "drop (64 * m) (fold (write_item (item_bytes cfg C)) [s..<e'] M) = drop (64 * m) M"
    proof (rule nth_equalityI)
      show "drop (64 * m) (fold (write_item (item_bytes cfg C)) [s..<e'] M) ! i = drop (64 * m) M ! i"
        if "i < length (drop (64 * m) (fold (write_item (item_bytes cfg C)) [s..<e'] M))" for i
      proof -
        have "m \<le> (64 * m + i) div 64" by simp
        then have "\<not> (64 * m + i) div 64 < e'" using e'(2) by linarith
        then show ?thesis using that len
          by (simp add: nth_write_items [OF length_item_bytes [OF C] items])
      qed
    qed (simp add: len)
    then show ?thesis
      using initDataset_fills [OF C True e'(1) fit] len by (simp add: randomx_init_dataset_def endw del: of_nat_add)
  next
    case False
    then have "\<not> (of_nat s :: u32) < of_nat e'" using s e'(1) by (simp add: word_less_nat_alt unat_of_nat_small)
    then show ?thesis by (simp add: randomx_init_dataset_def endw initDataset.simps del: of_nat_add)
  qed
qed

lemma calls_below:
  assumes "cache_ok cfg C" and "\<forall>(s, n)\<in>set cs. s < 2 ^ 32 \<and> (s + n) mod 2 ^ 32 \<le> m" and "64 * m \<le> length M"
  shows "\<exists>N. run_calls (initDataset cfg C) cs M = Some N \<and> length N = length M \<and> drop (64 * m) N = drop (64 * m) M"
  using assms(2,3)
proof (induction cs arbitrary: M)
  case (Cons call cs)
  obtain s n where call: "call = (s, n)" by (cases call)
  obtain M1 where M1: "randomx_init_dataset (initDataset cfg C) s n M = Some M1" "length M1 = length M"
    "drop (64 * m) M1 = drop (64 * m) M"
    using call_below [OF assms(1), of s n m M] Cons.prems by (auto simp: call)
  then show ?case using Cons.IH [of M1] Cons.prems by (simp add: run_calls_def call)
qed (simp add: run_calls_def)

lemma wrapped_end:
  assumes "a < 2 ^ 32" and "b < 2 ^ 32"
  shows "(a + (b + 2 ^ 32 - a) mod 2 ^ 32) mod 2 ^ 32 = (b :: nat)"
proof -
  have "(a + (b + 2 ^ 32 - a) mod 2 ^ 32) mod 2 ^ 32 = (a + (b + 2 ^ 32 - a)) mod 2 ^ 32" by (simp only: mod_add_right_eq)
  also have "a + (b + 2 ^ 32 - a) = b + 2 ^ 32" using assms(1) by simp
  finally show ?thesis using assms(2) by (simp only: mod_add_self2 mod_less)
qed

lemma bound_128:
  assumes "j \<le> 128"
  shows "thread_bound 32 34078719 128 j \<le> 33546239"
proof (cases "j \<le> 126")
  case True
  then have "34078719 * j \<le> 34078719 * 126" by simp
  then have "34078719 * j mod 2 ^ 32 \<le> 34078719 * 126" by (meson le_trans mod_less_eq_dividend)
  then have "34078719 * j mod 2 ^ 32 div 128 \<le> 34078719 * 126 div 128" by (rule div_le_mono)
  then show ?thesis by (simp add: thread_bound_def)
next
  case False
  then have "j = 127 \<or> j = 128" using assms by auto
  then show ?thesis by (auto simp: thread_bound_def)
qed

text \<open>on a platform whose \<open>unsigned long\<close> has 32 bits (Windows), 128 initialisation threads do not
  fill the dataset of any algorithm but Scala's: the products of item and thread numbers wrap, and whatever the memory held
  from item 33546239 on, more than half a million items, it still holds when all threads are done, without any
  error.\<close>

theorem dataset_gap_32_bit:
  assumes "algo \<noteq> RX_XLA" and "cache_ok (applyAlgoConfig algo) C" and "length M = dataset_size (applyAlgoConfig algo)"
  shows "\<exists>N. run_calls (initDataset (applyAlgoConfig algo) C)
        (concat (RxInstance_initDataset 32 False (applyAlgoConfig algo) 128)) M = Some N
    \<and> drop (64 * 33546239) N = drop (64 * 33546239) M \<and> 33546239 < randomx_dataset_item_count (applyAlgoConfig algo)"
proof -
  let ?cfg = "applyAlgoConfig algo"
  note items = base_items [OF assms(1)]
  have size: "64 * 33546239 \<le> length M"
    using dataset_items [OF applyAlgoConfig_cache_ok, of algo] assms(3) by (simp add: items)
  have calls: "RxInstance_initDataset 32 False ?cfg 128 = map (thread_calls 32 False 34078719 128) [0..<128]"
    by (simp add: RxInstance_initDataset_def items Let_def del: upt_Suc upt_rec_numeral)
  have "s < 2 ^ 32 \<and> (s + n) mod 2 ^ 32 \<le> 33546239" if "(s, n) \<in> set (thread_calls 32 False 34078719 128 i)" "i < 128" for s n i
  proof -
    have b: "thread_bound 32 34078719 128 i \<le> 33546239" "thread_bound 32 34078719 128 (i + 1) \<le> 33546239"
      using bound_128 that(2) by simp_all
    have lim: "(33546239 :: nat) < 2 ^ 32" by simp
    note small = le_less_trans [OF b(1) lim] le_less_trans [OF b(2) lim]
    have "s = thread_bound 32 34078719 128 i" and
      "n = (thread_bound 32 34078719 128 (i + 1) + 2 ^ 32 - thread_bound 32 34078719 128 i) mod 2 ^ 32"
      using that(1) by (simp_all add: thread_calls_def range_calls_def Let_def)
    then show ?thesis using b small wrapped_end [OF small] by simp
  qed
  then have "\<forall>(s, n)\<in>set (concat (RxInstance_initDataset 32 False ?cfg 128)). s < 2 ^ 32 \<and> (s + n) mod 2 ^ 32 \<le> 33546239"
    unfolding calls by fastforce
  from calls_below [OF assms(2) this size] show ?thesis by (auto simp: items)
qed

theorem dataset_gap_32_bit_witness:
  "\<exists>C N. run_calls (initDataset (applyAlgoConfig RX_0) C) (concat (RxInstance_initDataset 32 False (applyAlgoConfig RX_0) 128))
      (replicate 2181038016 0) = Some N \<and> drop (64 * 33546239) N = replicate 34078720 0"
proof -
  have size: "dataset_size (applyAlgoConfig RX_0) = 2181038016" by (simp add: rx_variant_defs dataset_size_def)
  obtain C where C: "cache_ok (applyAlgoConfig RX_0) C" using demo_cache_ready by blast
  obtain N where N: "run_calls (initDataset (applyAlgoConfig RX_0) C)
      (concat (RxInstance_initDataset 32 False (applyAlgoConfig RX_0) 128)) (replicate 2181038016 0) = Some N"
    "drop (64 * 33546239) N = drop (64 * 33546239) (replicate 2181038016 0)"
    using dataset_gap_32_bit [OF _ C, of "replicate 2181038016 0"] by (simp only: size length_replicate) auto
  then show ?thesis by auto
qed

end
