(* ===== verification/Worker_Sync.thy ===== *)
theory Worker_Sync
  imports Worker
begin

text \<open>
  Pausing a worker: the shared flags of \<open>Worker.h\<close>, the head of the loop in \<open>Worker::run\<close> with its
  condition variable, \<open>Worker::pause\<close>, \<open>resume\<close> and \<open>stop\<close>, and the callers in \<open>Miner.cpp\<close>
  (\<open>onJob\<close>, \<open>onDisconnected\<close>, \<open>rxInitLoop\<close>), one atomic load or store at a time and in every
  interleaving.  The rest of the loop body is one step, \<open>body\<close>: \<open>worker_iteration\<close> of \<open>Worker\<close> is one.
\<close>

section \<open>State\<close>

text \<open>
  Where the worker is: before the test of \<open>m_running\<close>, before the load of \<open>m_paused\<close>, before the store of
  the acknowledgement, before the two loads of the predicate of \<open>wait\<close>, about to block, blocked, before the
  load and the store that withdraw the acknowledgement, in the rest of the body, and out of the loop.
\<close>

datatype wloc = W_top | W_test | W_ack | W_pred | W_pred_running | W_block | W_blocked
  | W_clear | W_clear_store | W_work | W_done

text \<open>
  Where the miner is: the workers run; between the two stores of \<open>pause\<close>, and waiting for the
  acknowledgement (\<open>onJob\<close>); initialising (\<open>rxInitLoop\<close>); between the stores of the \<open>pause\<close> of a
  disconnect, and disconnected; between the store and the notification of \<open>resume\<close>; the same for \<open>stop\<close>, and
  joining the thread.
\<close>

datatype cloc = C_run | C_pause | C_wait | C_init | C_disc_pause | C_disc | C_notify
  | C_stop | C_stop_notify | C_join

record 'w sync =
  m_running :: bool
  m_paused :: bool
  m_pauseAck :: bool
  wpc :: wloc
  cpc :: cloc
  wdata :: 'w

definition sync_start :: "'w \<Rightarrow> 'w sync" where
  "sync_start w = \<lparr>m_running = True, m_paused = False, m_pauseAck = False, wpc = W_top, cpc = C_run, wdata = w\<rparr>"

section \<open>Steps\<close>

text \<open>What the worker does next by itself; blocked and out of the loop it does nothing.\<close>

fun worker_next :: "('w \<Rightarrow> 'w) \<Rightarrow> 'w sync \<Rightarrow> 'w sync option" where
  "worker_next body s =
     (case wpc s of
        W_top \<Rightarrow> Some (s\<lparr>wpc := (if m_running s then W_test else W_done)\<rparr>)
      | W_test \<Rightarrow> Some (s\<lparr>wpc := (if m_paused s then W_ack else W_clear)\<rparr>)
      | W_ack \<Rightarrow> Some (s\<lparr>m_pauseAck := True, wpc := W_pred\<rparr>)
      | W_pred \<Rightarrow> Some (s\<lparr>wpc := (if m_paused s then W_pred_running else W_top)\<rparr>)
      | W_pred_running \<Rightarrow> Some (s\<lparr>wpc := (if m_running s then W_block else W_top)\<rparr>)
      | W_block \<Rightarrow> Some (s\<lparr>wpc := W_blocked\<rparr>)
      | W_blocked \<Rightarrow> None
      | W_clear \<Rightarrow> Some (s\<lparr>wpc := (if m_pauseAck s then W_clear_store else W_work)\<rparr>)
      | W_clear_store \<Rightarrow> Some (s\<lparr>m_pauseAck := False, wpc := W_work\<rparr>)
      | W_work \<Rightarrow> Some (s\<lparr>wdata := body (wdata s), wpc := W_top\<rparr>)
      | W_done \<Rightarrow> None)"

declare worker_next.simps [simp del]

text \<open>A notification wakes the worker if it is blocked and is lost otherwise.\<close>

definition wake :: "'w sync \<Rightarrow> 'w sync" where
  "wake s = (if wpc s = W_blocked then s\<lparr>wpc := W_pred\<rparr> else s)"

datatype miner_event = NewSeed | Disconnect | Reconnect | InitDone | Shutdown | Go_on

text \<open>The steps of the miner: a call of \<open>Worker\<close> begins with its first store.\<close>

fun miner_next :: "miner_event \<Rightarrow> 'w sync \<Rightarrow> 'w sync option" where
  "miner_next NewSeed s =
     (if cpc s \<in> {C_run, C_init, C_disc} then Some (s\<lparr>m_pauseAck := False, cpc := C_pause\<rparr>) else None)"
| "miner_next Disconnect s =
     (if cpc s \<in> {C_run, C_init, C_disc} then Some (s\<lparr>m_pauseAck := False, cpc := C_disc_pause\<rparr>) else None)"
| "miner_next Reconnect s = (if cpc s = C_disc then Some (s\<lparr>m_paused := False, cpc := C_notify\<rparr>) else None)"
| "miner_next InitDone s = (if cpc s = C_init then Some (s\<lparr>m_paused := False, cpc := C_notify\<rparr>) else None)"
| "miner_next Shutdown s =
     (if cpc s \<in> {C_run, C_init, C_disc} then Some (s\<lparr>m_running := False, cpc := C_stop\<rparr>) else None)"
| "miner_next Go_on s =
     (case cpc s of
        C_pause \<Rightarrow> Some (s\<lparr>m_paused := True, cpc := C_wait\<rparr>)
      | C_wait \<Rightarrow> (if m_pauseAck s then Some (s\<lparr>cpc := C_init\<rparr>) else None)
      | C_disc_pause \<Rightarrow> Some (s\<lparr>m_paused := True, cpc := C_disc\<rparr>)
      | C_notify \<Rightarrow> Some ((wake s)\<lparr>cpc := C_run\<rparr>)
      | C_stop \<Rightarrow> Some (s\<lparr>m_paused := False, cpc := C_stop_notify\<rparr>)
      | C_stop_notify \<Rightarrow> Some ((wake s)\<lparr>cpc := C_join\<rparr>)
      | _ \<Rightarrow> None)"

text \<open>
  One step of either thread; \<open>A\<close> is what may happen to the miner besides going on.  The third rule is
  a spurious wake-up, which condition variables permit.
\<close>

inductive sync_step :: "miner_event set \<Rightarrow> ('w \<Rightarrow> 'w) \<Rightarrow> 'w sync \<Rightarrow> 'w sync \<Rightarrow> bool" for A body where
  worker: "worker_next body s = Some t \<Longrightarrow> sync_step A body s t"
| miner: "e \<in> insert Go_on A \<Longrightarrow> miner_next e s = Some t \<Longrightarrow> sync_step A body s t"
| spurious: "wpc s = W_blocked \<Longrightarrow> sync_step A body s (s\<lparr>wpc := W_pred\<rparr>)"

inductive_cases sync_stepE: "sync_step A body s t"

abbreviation sync_steps :: "miner_event set \<Rightarrow> ('w \<Rightarrow> 'w) \<Rightarrow> 'w sync \<Rightarrow> 'w sync \<Rightarrow> bool" where
  "sync_steps A body \<equiv> (sync_step A body)\<^sup>*\<^sup>*"

text \<open>A schedule: \<open>None\<close> is a step of the worker.\<close>

fun sync_run :: "('w \<Rightarrow> 'w) \<Rightarrow> miner_event option list \<Rightarrow> 'w sync \<Rightarrow> 'w sync option" where
  "sync_run body [] s = Some s"
| "sync_run body (None # es) s = do { t \<leftarrow> worker_next body s; sync_run body es t }"
| "sync_run body (Some e # es) s = do { t \<leftarrow> miner_next e s; sync_run body es t }"

lemma sync_run_steps:
  "sync_run body es s = Some t \<Longrightarrow> \<forall>e. Some e \<in> set es \<longrightarrow> e \<in> insert Go_on A \<Longrightarrow> sync_steps A body s t"
proof (induction body es s rule: sync_run.induct)
  case (2 body es s)
  then show ?case
    by (auto simp: bind_eq_Some_conv intro: sync_step.worker converse_rtranclp_into_rtranclp)
next
  case (3 body e es s)
  then show ?case
    by (auto simp: bind_eq_Some_conv simp del: miner_next.simps intro: sync_step.miner converse_rtranclp_into_rtranclp)
qed simp

section \<open>The handshake is safe\<close>

text \<open>Waiting: the worker has acknowledged, and does not leave before it reads that the pause is over.\<close>

abbreviation (input) "waiting \<equiv> {W_pred, W_pred_running, W_block, W_blocked}"

text \<open>
  What relates flags and places as long as the miner resumes only what has acknowledged: an acknowledgement
  is only ever about the current pause.
\<close>

definition sync_inv :: "'w sync \<Rightarrow> bool" where
  "sync_inv s \<longleftrightarrow>
     (case cpc s of
        C_run \<Rightarrow> \<not> m_paused s \<and> m_running s \<and> wpc s \<noteq> W_ack
      | C_pause \<Rightarrow> m_running s \<and> \<not> m_pauseAck s \<and> wpc s \<noteq> W_ack \<and> (m_paused s \<longrightarrow> wpc s \<in> waiting)
      | C_wait \<Rightarrow> m_paused s \<and> m_running s \<and> (m_pauseAck s \<longrightarrow> wpc s \<in> waiting)
      | C_init \<Rightarrow> m_paused s \<and> m_running s \<and> m_pauseAck s \<and> wpc s \<in> waiting
      | C_notify \<Rightarrow> \<not> m_paused s \<and> m_running s \<and> wpc s \<noteq> W_ack
      | C_stop \<Rightarrow> \<not> m_running s
      | C_stop_notify \<Rightarrow> \<not> m_running s
      | C_join \<Rightarrow> \<not> m_running s
      | _ \<Rightarrow> False)"

lemma worker_next_inv:
  assumes "worker_next body s = Some t" and "sync_inv s"
  shows "sync_inv t"
proof (cases s)
  case (fields r p a w c d)
  show ?thesis using assms unfolding fields
    by (cases w; cases c; clarsimp simp: worker_next.simps sync_inv_def split: if_splits)
qed

lemma miner_next_inv:
  assumes "miner_next e s = Some t" and "e \<in> {Go_on, NewSeed, InitDone, Shutdown}" and "sync_inv s"
  shows "sync_inv t"
proof (cases s)
  case (fields r p a w c d)
  show ?thesis using assms unfolding fields
    by (cases e; cases c; cases w; clarsimp simp: sync_inv_def wake_def split: if_splits)
qed

lemma sync_step_inv:
  assumes "sync_step A body s t" and "A \<subseteq> {NewSeed, InitDone, Shutdown}" and "sync_inv s"
  shows "sync_inv t"
  using assms(1)
proof cases
  case worker
  then show ?thesis using worker_next_inv assms(3) by blast
next
  case (miner e)
  then show ?thesis using miner_next_inv assms(2,3) by blast
next
  case spurious
  then show ?thesis using assms(3) by (cases "cpc s") (simp_all add: sync_inv_def)
qed

lemma sync_steps_inv:
  assumes "sync_steps A body (sync_start w) s" and "A \<subseteq> {NewSeed, InitDone, Shutdown}"
  shows "sync_inv s"
  using assms(1)
proof induction
  case base
  then show ?case by (simp add: sync_inv_def sync_start_def)
next
  case (step s t)
  then show ?case using sync_step_inv [OF _ assms(2)] by blast
qed

section \<open>An acknowledgement comes\<close>

text \<open>How many steps a worker that is not in \<open>wait\<close> is away from its acknowledgement.\<close>

fun ack_distance :: "wloc \<Rightarrow> nat" where
  "ack_distance W_clear = 6" | "ack_distance W_clear_store = 5" | "ack_distance W_work = 4"
| "ack_distance W_top = 3" | "ack_distance W_test = 2" | "ack_distance W_ack = 1" | "ack_distance _ = 0"

text \<open>Only the worker can move while the miner waits for a worker that is not blocked.\<close>

lemma only_worker_moves:
  "cpc s = C_wait \<Longrightarrow> \<not> m_pauseAck s \<Longrightarrow> wpc s \<noteq> W_blocked \<Longrightarrow> sync_step A body s t \<Longrightarrow> worker_next body s = Some t"
  by (erule sync_stepE) (auto elim: miner_next.elims split: if_splits)

lemma ack_comes:
  assumes "cpc s = C_wait" and "m_paused s" and "m_running s" and "\<not> m_pauseAck s" and "0 < ack_distance (wpc s)"
  shows "\<exists>n t. n \<le> ack_distance (wpc s) \<and> sync_run body (replicate n None) s = Some t \<and> m_pauseAck t \<and> cpc t = C_wait
    \<and> (\<forall>k<n. \<forall>u v. sync_run body (replicate k None) s = Some u \<longrightarrow> sync_step A body u v \<longrightarrow> worker_next body u = Some v)"
  using assms
proof (induction "ack_distance (wpc s)" arbitrary: s rule: less_induct)
  case less
  obtain t where t: "worker_next body s = Some t" "cpc t = C_wait" "m_paused t" "m_running t"
    "m_pauseAck t \<or> (\<not> m_pauseAck t \<and> 0 < ack_distance (wpc t) \<and> ack_distance (wpc t) < ack_distance (wpc s))"
    using less.prems by (cases "wpc s") (auto simp: worker_next.simps)
  have here: "sync_step A body s v \<Longrightarrow> worker_next body s = Some v" for v
    using only_worker_moves [of s A body v] less.prems by (cases "wpc s") auto
  show ?case
  proof (cases "m_pauseAck t")
    case True
    then show ?thesis using t here less.prems
      by (intro exI [of _ 1] exI [of _ t]) auto
  next
    case False
    then have d: "ack_distance (wpc t) < ack_distance (wpc s)" "0 < ack_distance (wpc t)" using t(5) by auto
    obtain n t' where IH: "n \<le> ack_distance (wpc t)" "sync_run body (replicate n None) t = Some t'" "m_pauseAck t'" "cpc t' = C_wait"
      "\<forall>k<n. \<forall>u v. sync_run body (replicate k None) t = Some u \<longrightarrow> sync_step A body u v \<longrightarrow> worker_next body u = Some v"
      using less.hyps [OF d(1) t(2-4) False d(2)] by blast
    have "\<forall>k<Suc n. \<forall>u v. sync_run body (replicate k None) s = Some u \<longrightarrow> sync_step A body u v \<longrightarrow> worker_next body u = Some v"
    proof (intro allI impI)
      fix k u v
      assume "k < Suc n" "sync_run body (replicate k None) s = Some u" "sync_step A body u v"
      then show "worker_next body u = Some v" using here IH(5) t(1) by (cases k) auto
    qed
    then show ?thesis using IH(1-4) t(1,5) False
      by (intro exI [of _ "Suc n"] exI [of _ t']) auto
  qed
qed

section \<open>A second pause\<close>

text \<open>A worker in \<open>wait\<close> whose acknowledgement has been withdrawn while the pause goes on.\<close>

definition stuck :: "'w \<Rightarrow> 'w sync \<Rightarrow> bool" where
  "stuck w s \<longleftrightarrow> cpc s \<in> {C_pause, C_wait} \<and> m_running s \<and> m_paused s \<and> \<not> m_pauseAck s \<and> wpc s \<in> waiting \<and> wdata s = w"

lemma stuck_step:
  assumes "sync_step A body s t" and "stuck w s"
  shows "stuck w t"
  using assms(1)
proof cases
  case worker
  then show ?thesis using assms(2) by (cases "wpc s") (auto simp: stuck_def worker_next.simps)
next
  case (miner e)
  then show ?thesis using assms(2) by (cases e; cases "cpc s") (auto simp: stuck_def)
next
  case spurious
  then show ?thesis using assms(2) by (simp add: stuck_def)
qed

lemma stuck_steps: "sync_steps A body s t \<Longrightarrow> stuck w s \<Longrightarrow> stuck w t"
  by (induction rule: rtranclp_induct) (blast intro: stuck_step)+

section \<open>Properties\<close>

text \<open>C7: the handshake is safe.  If the pool does not disconnect, then in every reachable state in which the
  miner has seen the acknowledgement and initialises RandomX, the worker is inside \<open>wait\<close> and the pause
  is on; no step of anybody computes anything on the worker, and it is still inside \<open>wait\<close> after every
  step that leaves the miner initialising.  No hash is computed while caches, datasets and machines are replaced.\<close>

theorem pause_handshake_safe:
  assumes "sync_steps A body (sync_start w) s" and "A \<subseteq> {NewSeed, InitDone, Shutdown}" and "cpc s = C_init"
  shows "wpc s \<in> {W_pred, W_pred_running, W_block, W_blocked} \<and> m_paused s
    \<and> (\<forall>t. sync_step A body s t \<longrightarrow> wdata t = wdata s
         \<and> (cpc t = C_init \<longrightarrow> wpc t \<in> {W_pred, W_pred_running, W_block, W_blocked}))"
proof (intro conjI allI impI)
  have inv: "sync_inv s" by (rule sync_steps_inv [OF assms(1,2)])
  then show wait: "wpc s \<in> {W_pred, W_pred_running, W_block, W_blocked}" and "m_paused s"
    using assms(3) by (simp_all add: sync_inv_def)
  fix t assume step: "sync_step A body s t"
  from step show "wdata t = wdata s"
  proof cases
    case worker
    then show ?thesis using wait by (auto simp: worker_next.simps)
  next
    case (miner e)
    then show ?thesis using assms(3) by (cases e) (auto split: if_splits)
  qed simp
  show "wpc t \<in> {W_pred, W_pred_running, W_block, W_blocked}" if "cpc t = C_init"
    using sync_step_inv [OF step assms(2) inv] that by (simp add: sync_inv_def)
qed

theorem pause_handshake_safe_witness:
  "\<exists>s. sync_steps {NewSeed, InitDone} Suc (sync_start 0) s \<and> cpc s = C_init \<and> wdata s = 1 \<and> wpc s = W_pred
    \<and> (\<forall>t. sync_step {NewSeed, InitDone} Suc s t \<longrightarrow> wdata t = 1)"
proof -
  let ?es = "[None, None, None, None, Some NewSeed, None, Some Go_on, None, None, Some Go_on]"
  obtain s :: "nat sync" where s: "sync_run Suc ?es (sync_start 0) = Some s" "cpc s = C_init" "wdata s = 1" "wpc s = W_pred"
    by (simp add: sync_start_def worker_next.simps)
  have reach: "sync_steps {NewSeed, InitDone} Suc (sync_start 0) s"
    by (rule sync_run_steps [OF s(1)]) auto
  then show ?thesis using pause_handshake_safe [OF reach _ s(2)] s by (intro exI [of _ s]) auto
qed



text \<open>pausing a worker that is paused already deadlocks.  In every state in which the worker is inside \<open>wait\<close>
  and its pause is on (initialisation is running, or the pool is gone), a new seed makes the miner withdraw the
  acknowledgement and wait for a new one, which the worker, inside \<open>wait\<close>, never gives: whatever happens
  afterwards, disconnects, notifications and spurious wake-ups included, the miner is still waiting (holding
  \<open>m_jobMutex\<close>, which the initialisation thread needs to resume anybody) and the worker has computed nothing.\<close>

theorem second_pause_deadlocks:
  assumes "cpc s \<in> {C_init, C_disc}" and "wpc s \<in> {W_pred, W_pred_running, W_block, W_blocked}"
    and "m_paused s" and "m_running s" and "miner_next NewSeed s = Some s'" and "sync_steps A body s' t"
  shows "cpc t \<in> {C_pause, C_wait} \<and> \<not> m_pauseAck t \<and> wdata t = wdata s
    \<and> wpc t \<in> {W_pred, W_pred_running, W_block, W_blocked}"
proof -
  have "stuck (wdata s) s'" using assms(1-5) by (auto simp: stuck_def split: if_splits)
  from stuck_steps [OF assms(6) this] show ?thesis by (simp add: stuck_def)
qed

theorem second_pause_deadlocks_witness:
  "\<exists>s t. sync_steps UNIV Suc (sync_start 0) s \<and> cpc s = C_init \<and> wpc s = W_blocked
    \<and> sync_steps UNIV Suc s t \<and> cpc t = C_wait \<and> (\<forall>u. sync_steps UNIV Suc t u \<longrightarrow> \<not> m_pauseAck u \<and> wdata u = 0)"
proof -
  let ?es = "[Some NewSeed, Some Go_on, None, None, None, Some Go_on, None, None, None]"
  obtain s :: "nat sync" where s: "sync_run Suc ?es (sync_start 0) = Some s" "cpc s = C_init" "wdata s = 0" "wpc s = W_blocked"
    "m_paused s" "m_running s"
    by (simp add: sync_start_def worker_next.simps)
  obtain s' t where t: "miner_next NewSeed s = Some s'" "miner_next Go_on s' = Some t" "cpc t = C_wait"
    using s by simp
  have run: "sync_run Suc [Some NewSeed] s = Some s'" "sync_run Suc [Some Go_on] s' = Some t" using t by simp_all
  have steps: "sync_steps UNIV Suc (sync_start 0) s" "sync_steps UNIV Suc s s'" "sync_steps UNIV Suc s' t"
    by (rule sync_run_steps [OF s(1)], simp) (rule sync_run_steps [OF run(1)], simp, rule sync_run_steps [OF run(2)], simp)
  have "\<not> m_pauseAck u \<and> wdata u = 0" if "sync_steps UNIV Suc t u" for u
    using second_pause_deadlocks [of s s' UNIV Suc u] s t(1) rtranclp_trans [OF steps(3) that] by auto
  then show ?thesis using steps s t(3) rtranclp_trans [OF steps(2,3)] by blast
qed

text \<open>two more ways in which pausing fails, as reachable states.  A notification is lost if it comes between the
  predicate of \<open>wait\<close> and the blocking, since \<open>resume\<close> and \<open>stop\<close> do not take \<open>m_pauseMutex\<close>: the pause
  is over, or the miner joins the thread, and the worker is blocked with no step of either thread left to wake it.  And
  with a disconnect and a reconnect the acknowledgement of the old pause can arrive during the next one: the miner
  initialises RandomX while the worker hashes.\<close>

theorem pause_races:
  "(\<exists>s. sync_steps {NewSeed, InitDone} body (sync_start w) s \<and> cpc s = C_run \<and> \<not> m_paused s
      \<and> wpc s = W_blocked \<and> worker_next body s = None \<and> miner_next Go_on s = None)
   \<and> (\<exists>s. sync_steps {NewSeed, Shutdown} body (sync_start w) s \<and> cpc s = C_join \<and> \<not> m_running s \<and> \<not> m_paused s
      \<and> wpc s = W_blocked \<and> worker_next body s = None \<and> (\<forall>e. miner_next e s = None))
   \<and> (\<exists>s. sync_steps {Disconnect, Reconnect, NewSeed} body (sync_start w) s \<and> cpc s = C_init \<and> wpc s = W_work)"
proof (intro conjI)
  let ?paused = "[Some NewSeed, Some Go_on, None, None, None, None, None, Some Go_on]"
  show "\<exists>s. sync_steps {NewSeed, InitDone} body (sync_start w) s \<and> cpc s = C_run \<and> \<not> m_paused s
      \<and> wpc s = W_blocked \<and> worker_next body s = None \<and> miner_next Go_on s = None"
  proof -
    obtain s where s: "sync_run body (?paused @ [Some InitDone, Some Go_on, None]) (sync_start w) = Some s"
      "cpc s = C_run \<and> \<not> m_paused s \<and> wpc s = W_blocked"
      by (simp add: sync_start_def worker_next.simps wake_def)
    have "sync_steps {NewSeed, InitDone} body (sync_start w) s" by (rule sync_run_steps [OF s(1)]) auto
    then show ?thesis using s(2) by (intro exI [of _ s]) (simp add: worker_next.simps)
  qed
  show "\<exists>s. sync_steps {NewSeed, Shutdown} body (sync_start w) s \<and> cpc s = C_join \<and> \<not> m_running s \<and> \<not> m_paused s
      \<and> wpc s = W_blocked \<and> worker_next body s = None \<and> (\<forall>e. miner_next e s = None)"
  proof -
    obtain s where s: "sync_run body (?paused @ [Some Shutdown, Some Go_on, Some Go_on, None]) (sync_start w) = Some s"
      "cpc s = C_join \<and> \<not> m_running s \<and> \<not> m_paused s \<and> wpc s = W_blocked"
      by (simp add: sync_start_def worker_next.simps wake_def)
    have "sync_steps {NewSeed, Shutdown} body (sync_start w) s" by (rule sync_run_steps [OF s(1)]) auto
    moreover have "miner_next e s = None" for e using s(2) by (cases e) simp_all
    ultimately show ?thesis using s(2) by (intro exI [of _ s]) (simp add: worker_next.simps)
  qed
  show "\<exists>s. sync_steps {Disconnect, Reconnect, NewSeed} body (sync_start w) s \<and> cpc s = C_init \<and> wpc s = W_work"
  proof -
    let ?race = "[Some Disconnect, Some Go_on, None, None, Some Reconnect, Some Go_on, Some NewSeed,
      None, None, None, None, Some Go_on, Some Go_on, None, None]"
    obtain s where s: "sync_run body ?race (sync_start w) = Some s" "cpc s = C_init \<and> wpc s = W_work"
      by (simp add: sync_start_def worker_next.simps wake_def)
    have "sync_steps {Disconnect, Reconnect, NewSeed} body (sync_start w) s" by (rule sync_run_steps [OF s(1)]) auto
    then show ?thesis using s(2) by blast
  qed
qed

end
