(* ===== verification/Rx_Manager.thy ===== *)
theory Rx_Manager
  imports Rx_Dataset Worker
begin

text \<open>
  \<open>crypto/RxInstance.cpp\<close> and \<open>crypto/RandomX.cpp\<close>: the user's and the developer's RandomX instances, with
  everything they allocate.  Memory is a map from addresses to what lives there; freeing or using what does not
  live there (or with the wrong function, or size) is a fault, and so is locking \<open>m_mutex\<close> a second time.
  Whether an allocation succeeds is decided by an oracle, asked once per attempt.  The contents of caches
  and datasets are represented by the seed and configuration they were computed from.
\<close>

section \<open>Memory\<close>

datatype rx_kind = K_malloc | K_pages nat | K_cache | K_dataset | K_vm | K_scratchpad

datatype rx_fault = Mem_fault | Self_deadlock

datatype rx_request = Ask_pages nat | Ask_malloc nat | Ask_cache | Ask_vm

text \<open>\<open>RandomX_CurrentConfig\<close> is global.\<close>

record rx_world =
  w_live :: "nat \<Rightarrow> rx_kind option"
  w_next :: nat
  w_asked :: nat
  w_fault :: "rx_fault option"
  w_currentConfig :: rx_config
  w_keyed :: "nat \<Rightarrow> (bytes \<times> rx_config) option"
  w_filled :: "nat \<Rightarrow> (bytes \<times> rx_config) option"

type_synonym rx_oracle = "nat \<Rightarrow> rx_request \<Rightarrow> bool"

definition rx_fail :: "rx_fault \<Rightarrow> rx_world \<Rightarrow> rx_world" where
  "rx_fail f w = (if w_fault w = None then w\<lparr>w_fault := Some f\<rparr> else w)"

definition rx_new :: "rx_kind \<Rightarrow> rx_world \<Rightarrow> nat \<times> rx_world" where
  "rx_new k w = (w_next w, w\<lparr>w_live := (w_live w)(w_next w := Some k), w_next := w_next w + 1\<rparr>)"

definition rx_free :: "nat \<times> rx_kind \<Rightarrow> rx_world \<Rightarrow> rx_world" where
  "rx_free p w = (if w_live w (fst p) = Some (snd p) then w\<lparr>w_live := (w_live w)(fst p := None)\<rparr> else rx_fail Mem_fault w)"

definition rx_touch :: "nat \<times> rx_kind \<Rightarrow> rx_world \<Rightarrow> rx_world" where
  "rx_touch p w = (if w_live w (fst p) = Some (snd p) then w else rx_fail Mem_fault w)"

text \<open>An attempt to allocate.\<close>

definition rx_try :: "rx_oracle \<Rightarrow> rx_request \<Rightarrow> rx_kind \<Rightarrow> rx_world \<Rightarrow> nat option \<times> rx_world" where
  "rx_try orc q k w =
     (let w1 = w\<lparr>w_asked := w_asked w + 1\<rparr> in
      if orc (w_asked w) q then (let (p, w2) = rx_new k w1 in (Some p, w2)) else (None, w1))"

section \<open>An instance\<close>

record rx_instance =
  m_seedHash :: string
  m_cache :: "nat option"
  m_dataset :: "nat option"
  m_cacheMemory :: "nat option"
  m_cacheMemorySize :: nat
  m_datasetMemory :: "nat option"
  m_datasetMemorySize :: nat
  m_vms :: "nat option list"
  m_scratchpads :: "nat option list"
  m_algo :: RxAlgo
  m_hugePages :: bool
  m_hardwareAES :: bool
  m_allocatedWithHugePages :: bool
  m_cacheAllocatedWithHugePages :: bool
  m_using1GbPages :: bool
  m_initialized :: bool
  m_mutex :: bool

definition new_rx_instance :: rx_instance where
  "new_rx_instance = \<lparr>m_seedHash = '''', m_cache = None, m_dataset = None, m_cacheMemory = None, m_cacheMemorySize = 0,
     m_datasetMemory = None, m_datasetMemorySize = 0, m_vms = [], m_scratchpads = [], m_algo = RX_0, m_hugePages = True,
     m_hardwareAES = True, m_allocatedWithHugePages = False, m_cacheAllocatedWithHugePages = False,
     m_using1GbPages = False, m_initialized = False, m_mutex = False\<rparr>"

abbreviation (input) "CACHE_MAX_SIZE \<equiv> (268435456 :: nat)"
abbreviation (input) "ONE_GB \<equiv> (1073741824 :: nat)"

text \<open>How a block of memory is given back: \<open>freeLargePagesMemory(p, size)\<close> or \<open>free(p)\<close>.\<close>

definition block_kind :: "bool \<Rightarrow> nat \<Rightarrow> rx_kind" where
  "block_kind pages sz = (if pages then K_pages sz else K_malloc)"

fun free_opt :: "nat option \<Rightarrow> rx_kind \<Rightarrow> rx_world \<Rightarrow> rx_world" where
  "free_opt None k w = w"
| "free_opt (Some p) k w = rx_free (p, k) w"

definition destroyVMs :: "rx_instance \<times> rx_world \<Rightarrow> rx_instance \<times> rx_world" where
  "destroyVMs xw =
     (let w = fold (\<lambda>vm. free_opt vm K_vm) (m_vms (fst xw)) (snd xw);
          w = fold (\<lambda>sp. free_opt sp K_scratchpad) (m_scratchpads (fst xw)) w
      in ((fst xw)\<lparr>m_vms := [], m_scratchpads := []\<rparr>, w))"

text \<open>
  The body of \<open>release\<close>, which \<open>init\<close> repeats when it starts from an initialised instance.
\<close>

definition rx_teardown :: "rx_instance \<times> rx_world \<Rightarrow> rx_instance \<times> rx_world" where
  "rx_teardown xw =
     (let (x, w) = destroyVMs xw;
          w = free_opt (m_dataset x) K_dataset w;
          w = free_opt (m_cache x) K_cache w;
          w = free_opt (m_datasetMemory x) (block_kind (m_allocatedWithHugePages x) (m_datasetMemorySize x)) w;
          w = free_opt (m_cacheMemory x) (block_kind (m_cacheAllocatedWithHugePages x) (m_cacheMemorySize x)) w
      in (x\<lparr>m_dataset := None, m_cache := None, m_datasetMemory := None,
            m_datasetMemorySize := (if m_datasetMemory x = None then m_datasetMemorySize x else 0),
            m_cacheMemory := None,
            m_cacheMemorySize := (if m_cacheMemory x = None then m_cacheMemorySize x else 0),
            m_initialized := False, m_seedHash := '''', m_allocatedWithHugePages := False,
            m_cacheAllocatedWithHugePages := False, m_using1GbPages := False\<rparr>, w))"

text \<open>\<open>std::lock_guard\<close> on \<open>m_mutex\<close>, which is not recursive.\<close>

definition RxInstance_release :: "rx_instance \<times> rx_world \<Rightarrow> rx_instance \<times> rx_world" where
  "RxInstance_release xw =
     (if m_mutex (fst xw) then (fst xw, rx_fail Self_deadlock (snd xw)) else rx_teardown xw)"

text \<open>
  \<open>createVMs\<close>: a scratchpad and a machine per thread, until a machine cannot be created.
\<close>

fun createVMs_from :: "rx_oracle \<Rightarrow> nat \<Rightarrow> nat \<Rightarrow> rx_instance \<times> rx_world \<Rightarrow> bool \<times> rx_instance \<times> rx_world" where
  "createVMs_from orc i 0 (x, w) = (True, x, w)"
| "createVMs_from orc i (Suc n) (x, w) =
     (let (sp, w) = rx_new K_scratchpad w;
          x = x\<lparr>m_scratchpads := (m_scratchpads x)[i := Some sp]\<rparr>;
          (vm, w) = rx_try orc Ask_vm K_vm w;
          x = x\<lparr>m_vms := (m_vms x)[i := vm]\<rparr>
      in if vm = None then (False, x, w) else createVMs_from orc (Suc i) n (x, w))"

definition resize :: "'a list \<Rightarrow> nat \<Rightarrow> 'a \<Rightarrow> 'a list" where
  "resize xs n d = take n xs @ replicate (n - length xs) d"

definition createVMs :: "rx_oracle \<Rightarrow> nat \<Rightarrow> rx_instance \<times> rx_world \<Rightarrow> bool \<times> rx_instance \<times> rx_world" where
  "createVMs orc threads xw =
     createVMs_from orc 0 threads
       ((fst xw)\<lparr>m_vms := resize (m_vms (fst xw)) threads None,
                 m_scratchpads := resize (m_scratchpads (fst xw)) threads None\<rparr>, snd xw)"

text \<open>\<open>randomx_init_cache\<close> and \<open>initDataset\<close>, with the global configuration of the moment.\<close>

definition seed_bytes :: "string \<Rightarrow> bytes" where
  "seed_bytes seedHash = fst (hexToBytes seedHash (replicate 32 0) 32)"

definition rx_init_cache :: "bytes \<Rightarrow> rx_instance \<times> rx_world \<Rightarrow> rx_instance \<times> rx_world" where
  "rx_init_cache seed xw =
     (case (m_cache (fst xw), m_cacheMemory (fst xw)) of
        (Some c, Some m) \<Rightarrow>
          (let w = rx_touch (c, K_cache) (snd xw);
               w = rx_touch (m, block_kind (m_cacheAllocatedWithHugePages (fst xw)) (m_cacheMemorySize (fst xw))) w
           in (fst xw, w\<lparr>w_keyed := (w_keyed w)(m := Some (seed, w_currentConfig w))\<rparr>))
      | _ \<Rightarrow> (fst xw, rx_fail Mem_fault (snd xw)))"

definition rx_init_dataset :: "rx_instance \<times> rx_world \<Rightarrow> rx_instance \<times> rx_world" where
  "rx_init_dataset xw =
     (case (m_dataset (fst xw), m_cache (fst xw)) of
        (Some d, Some c) \<Rightarrow>
          (case (m_datasetMemory (fst xw), m_cacheMemory (fst xw)) of
             (Some dm, Some cm) \<Rightarrow>
               (let w = rx_touch (d, K_dataset) (snd xw); w = rx_touch (c, K_cache) w;
                    w = (if w_live w dm = None \<or> m_datasetMemorySize (fst xw) < dataset_size (w_currentConfig w)
                         then rx_fail Mem_fault w else w)
                in (fst xw, w\<lparr>w_filled := (w_filled w)(dm := w_keyed w cm)\<rparr>))
           | _ \<Rightarrow> (fst xw, rx_fail Mem_fault (snd xw)))
      | _ \<Rightarrow> xw)"

section \<open>\<open>init\<close> and \<open>reinit\<close>\<close>

text \<open>The memory of the cache: large pages if wanted, otherwise or failing that \<open>malloc\<close>; and whether pages are still wanted.\<close>

definition alloc_cache_memory :: "rx_oracle \<Rightarrow> bool \<Rightarrow> rx_instance \<times> rx_world \<Rightarrow> bool \<times> rx_instance \<times> rx_world" where
  "alloc_cache_memory orc useHugePages xw =
     (let x = (fst xw)\<lparr>m_cacheMemorySize := CACHE_MAX_SIZE\<rparr>;
          (p, w) = (if useHugePages then rx_try orc (Ask_pages CACHE_MAX_SIZE) (K_pages CACHE_MAX_SIZE) (snd xw)
                    else (m_cacheMemory x, snd xw))
      in if p = None
         then (let (p, w) = rx_try orc (Ask_malloc CACHE_MAX_SIZE) K_malloc w in (False, x\<lparr>m_cacheMemory := p\<rparr>, w))
         else (useHugePages, x\<lparr>m_cacheMemory := p\<rparr>, w))"

definition alloc_dataset_memory ::
  "rx_oracle \<Rightarrow> bool \<Rightarrow> bool \<Rightarrow> rx_instance \<times> rx_world \<Rightarrow> bool \<times> rx_instance \<times> rx_world" where
  "alloc_dataset_memory orc useHugePages oneGbPages xw =
     (let sz = dataset_size (w_currentConfig (snd xw));
          alignedSize = (sz + ONE_GB - 1) div ONE_GB * ONE_GB;
          x = (fst xw)\<lparr>m_datasetMemorySize := sz\<rparr>;
          (x, w) = (if useHugePages \<and> oneGbPages
                    then (let (p, w) = rx_try orc (Ask_pages alignedSize) (K_pages alignedSize) (snd xw);
                              x = x\<lparr>m_datasetMemory := p\<rparr>
                          in (if p = None then x else x\<lparr>m_datasetMemorySize := alignedSize, m_using1GbPages := True\<rparr>, w))
                    else (x, snd xw));
          (x, w) = (if m_datasetMemory x = None \<and> useHugePages
                    then (let (p, w) = rx_try orc (Ask_pages (m_datasetMemorySize x)) (K_pages (m_datasetMemorySize x)) w
                          in (x\<lparr>m_datasetMemory := p\<rparr>, w))
                    else (x, w))
      in if m_datasetMemory x = None
         then (let (p, w) = rx_try orc (Ask_malloc (m_datasetMemorySize x)) K_malloc w in (False, x\<lparr>m_datasetMemory := p\<rparr>, w))
         else (useHugePages, x, w))"

text \<open>The last part of \<open>init\<close>, once memory and objects are there.\<close>

definition finish_init :: "rx_oracle \<Rightarrow> nat \<Rightarrow> bool \<Rightarrow> rx_instance \<times> rx_world \<Rightarrow> bool \<times> rx_instance \<times> rx_world" where
  "finish_init orc threads useHugePages xw =
     (let xw = ((fst xw)\<lparr>m_allocatedWithHugePages := useHugePages\<rparr>, snd xw);
          xw = rx_init_dataset xw;
          (ok, x, w) = createVMs orc threads xw
      in if \<not> ok then (let xw = RxInstance_release (x, w) in (False, xw))
         else (True, x\<lparr>m_initialized := True\<rparr>, w))"

text \<open>\<open>randomx_create_dataset\<close> does not return null for memory that is not null, so the check after it never fails.\<close>

definition dataset_part ::
  "rx_oracle \<Rightarrow> nat \<Rightarrow> bool \<Rightarrow> bool \<Rightarrow> rx_instance \<times> rx_world \<Rightarrow> bool \<times> rx_instance \<times> rx_world" where
  "dataset_part orc threads useHugePages oneGbPages xw =
     (let (useHugePages, x, w) = alloc_dataset_memory orc useHugePages oneGbPages xw in
      case m_datasetMemory x of
        None \<Rightarrow>
          (let w = free_opt (m_cache x) K_cache w;
               w = free_opt (m_cacheMemory x) (block_kind (m_cacheAllocatedWithHugePages x) (m_cacheMemorySize x)) w
           in (False, x\<lparr>m_cache := None, m_cacheMemory := None\<rparr>, w))
      | Some p \<Rightarrow>
          (let (d, w) = rx_new K_dataset w
           in finish_init orc threads useHugePages (x\<lparr>m_dataset := Some d\<rparr>, w)))"

definition init_body ::
  "rx_oracle \<Rightarrow> string \<Rightarrow> nat \<Rightarrow> RxAlgo \<Rightarrow> bool \<Rightarrow> bool \<Rightarrow> bool \<Rightarrow> rx_instance \<times> rx_world \<Rightarrow> bool \<times> rx_instance \<times> rx_world" where
  "init_body orc seedHash threads algo hugePages hardwareAES oneGbPages xw =
     (let x = (fst xw)\<lparr>m_seedHash := seedHash, m_hugePages := hugePages, m_hardwareAES := hardwareAES, m_algo := algo\<rparr>;
          w = (snd xw)\<lparr>w_currentConfig := applyAlgoConfig algo\<rparr>;
          (useHugePages, x, w) = alloc_cache_memory orc hugePages (x, w) in
      case m_cacheMemory x of
        None \<Rightarrow> (False, x, w)
      | Some m \<Rightarrow>
          (let x = x\<lparr>m_cacheAllocatedWithHugePages := useHugePages\<rparr>;
               (c, w) = rx_try orc Ask_cache K_cache w;
               x = x\<lparr>m_cache := c\<rparr>
           in if c = None
              then (let w = free_opt (Some m) (block_kind (m_cacheAllocatedWithHugePages x) (m_cacheMemorySize x)) w
                    in (False, x\<lparr>m_cacheMemory := None\<rparr>, w))
              else dataset_part orc threads useHugePages oneGbPages (rx_init_cache (seed_bytes seedHash) (x, w))))"

text \<open>\<open>m_mutex\<close> is held during the body.\<close>

definition RxInstance_init ::
  "rx_oracle \<Rightarrow> string \<Rightarrow> nat \<Rightarrow> RxAlgo \<Rightarrow> bool \<Rightarrow> bool \<Rightarrow> bool \<Rightarrow> rx_instance \<times> rx_world \<Rightarrow> bool \<times> rx_instance \<times> rx_world" where
  "RxInstance_init orc seedHash threads algo hugePages hardwareAES oneGbPages xw =
     (if m_mutex (fst xw) then (False, fst xw, rx_fail Self_deadlock (snd xw))
      else if m_initialized (fst xw) \<and> seedHash = m_seedHash (fst xw) \<and> algo = m_algo (fst xw) then (True, xw)
      else
        (let xw = ((fst xw)\<lparr>m_mutex := True\<rparr>, snd xw);
             xw = (if m_initialized (fst xw) then rx_teardown xw else xw);
             (ok, x, w) = init_body orc seedHash threads algo hugePages hardwareAES oneGbPages xw
         in (ok, x\<lparr>m_mutex := False\<rparr>, w)))"

definition RxInstance_reinit ::
  "rx_oracle \<Rightarrow> string \<Rightarrow> nat \<Rightarrow> bool \<Rightarrow> rx_instance \<times> rx_world \<Rightarrow> bool \<times> rx_instance \<times> rx_world" where
  "RxInstance_reinit orc seedHash threads hardwareAES xw =
     (if m_mutex (fst xw) then (False, fst xw, rx_fail Self_deadlock (snd xw))
      else if m_initialized (fst xw) \<and> seedHash = m_seedHash (fst xw) then (True, xw)
      else if \<not> m_initialized (fst xw) \<or> m_cache (fst xw) = None \<or> m_dataset (fst xw) = None then (False, xw)
      else
        (let (x, w) = destroyVMs xw;
             x = x\<lparr>m_seedHash := seedHash, m_hardwareAES := hardwareAES\<rparr>;
             (x, w) = rx_init_cache (seed_bytes seedHash) (x, w);
             x = x\<lparr>m_initialized := False\<rparr>;
             (ok, x, w) = createVMs orc threads (rx_init_dataset (x, w))
         in if \<not> ok then (False, destroyVMs (x, w)) else (True, x\<lparr>m_initialized := True\<rparr>, w)))"

definition isValidForSeed :: "string \<Rightarrow> rx_instance \<Rightarrow> bool" where
  "isValidForSeed seedHash x \<longleftrightarrow> m_initialized x \<and> m_seedHash x = seedHash"

definition RxInstance_getVM :: "int \<Rightarrow> rx_instance \<Rightarrow> nat option" where
  "RxInstance_getVM index x =
     (if \<not> m_initialized x then None
      else if 0 \<le> index \<and> index < int (length (m_vms x)) then m_vms x ! nat index else None)"

section \<open>The two instances\<close>

record rx_manager =
  m_userInstance :: "rx_instance option"
  m_devInstance :: "rx_instance option"
  m_world :: rx_world

fun rx_resolve :: "RxInstanceId \<Rightarrow> rx_manager \<Rightarrow> rx_instance option" where
  "rx_resolve User M = m_userInstance M"
| "rx_resolve Dev M = m_devInstance M"

fun rx_store :: "RxInstanceId \<Rightarrow> rx_instance option \<Rightarrow> rx_world \<Rightarrow> rx_manager \<Rightarrow> rx_manager" where
  "rx_store User x w M = M\<lparr>m_userInstance := x, m_world := w\<rparr>"
| "rx_store Dev x w M = M\<lparr>m_devInstance := x, m_world := w\<rparr>"

definition RandomX_init ::
  "rx_oracle \<Rightarrow> RxInstanceId \<Rightarrow> string \<Rightarrow> nat \<Rightarrow> RxAlgo \<Rightarrow> bool \<Rightarrow> bool \<Rightarrow> bool \<Rightarrow> rx_manager \<Rightarrow> bool \<times> rx_manager" where
  "RandomX_init orc rid seedHash threads algo hugePages hardwareAES oneGbPages M =
     (let x = (case rx_resolve rid M of None \<Rightarrow> new_rx_instance | Some x \<Rightarrow> x);
          (ok, x, w) = RxInstance_init orc seedHash threads algo hugePages hardwareAES oneGbPages (x, m_world M)
      in (ok, rx_store rid (Some x) w M))"

definition RandomX_reinit :: "rx_oracle \<Rightarrow> RxInstanceId \<Rightarrow> string \<Rightarrow> nat \<Rightarrow> bool \<Rightarrow> rx_manager \<Rightarrow> bool \<times> rx_manager" where
  "RandomX_reinit orc rid seedHash threads hardwareAES M =
     (case rx_resolve rid M of
        None \<Rightarrow> (False, M)
      | Some x \<Rightarrow>
          (let (ok, x, w) = RxInstance_reinit orc seedHash threads hardwareAES (x, m_world M)
           in (ok, rx_store rid (Some x) w M)))"

definition RandomX_isSeedValid :: "RxInstanceId \<Rightarrow> string \<Rightarrow> rx_manager \<Rightarrow> bool" where
  "RandomX_isSeedValid rid seedHash M = (case rx_resolve rid M of None \<Rightarrow> False | Some x \<Rightarrow> isValidForSeed seedHash x)"

definition RandomX_getVM :: "RxInstanceId \<Rightarrow> int \<Rightarrow> rx_manager \<Rightarrow> nat option" where
  "RandomX_getVM rid index M = (case rx_resolve rid M of None \<Rightarrow> None | Some x \<Rightarrow> RxInstance_getVM index x)"

text \<open>\<open>release(id)\<close>: release, then destroy; the destructor of the instance releases once more.\<close>

definition RandomX_release :: "RxInstanceId \<Rightarrow> rx_manager \<Rightarrow> rx_manager" where
  "RandomX_release rid M =
     (case rx_resolve rid M of
        None \<Rightarrow> M
      | Some x \<Rightarrow> rx_store rid None (snd (RxInstance_release (RxInstance_release (x, m_world M)))) M)"

definition RandomX_release_all :: "rx_manager \<Rightarrow> rx_manager" where
  "RandomX_release_all M = RandomX_release Dev (RandomX_release User M)"

definition allHugePagesEnabled :: "rx_manager \<Rightarrow> bool" where
  "allHugePagesEnabled M \<longleftrightarrow>
     (case m_userInstance M of None \<Rightarrow> False
      | Some x \<Rightarrow> m_initialized x \<and> m_allocatedWithHugePages x \<and> m_cacheAllocatedWithHugePages x)
   \<and> (case m_devInstance M of None \<Rightarrow> True
      | Some x \<Rightarrow> \<not> m_initialized x \<or> (m_allocatedWithHugePages x \<and> m_cacheAllocatedWithHugePages x))"

text \<open>What the miner does with the instances.\<close>

datatype rx_op = Op_init RxInstanceId string nat RxAlgo bool bool bool | Op_reinit RxInstanceId string nat bool
  | Op_release RxInstanceId | Op_release_all

fun rx_op_run :: "rx_oracle \<Rightarrow> rx_op \<Rightarrow> rx_manager \<Rightarrow> rx_manager" where
  "rx_op_run orc (Op_init i s n al h a g) M = snd (RandomX_init orc i s n al h a g M)"
| "rx_op_run orc (Op_reinit i s n a) M = snd (RandomX_reinit orc i s n a M)"
| "rx_op_run orc (Op_release i) M = RandomX_release i M"
| "rx_op_run orc Op_release_all M = RandomX_release_all M"

definition rx_start :: rx_manager where
  "rx_start = \<lparr>m_userInstance = None, m_devInstance = None, m_world = \<lparr>w_live = \<lambda>_. None, w_next = 0, w_asked = 0,
     w_fault = None, w_currentConfig = RandomX_ConfigurationBase, w_keyed = \<lambda>_. None, w_filled = \<lambda>_. None\<rparr>\<rparr>"

end
