(* ===== verification/Rx_Manager_Ok.thy ===== *)
theory Rx_Manager_Ok
  imports Rx_Manager Rx_Dataset_Ok "HOL-Library.Multiset"
begin

text \<open>
  Memory discipline of the RandomX instances: at every moment exactly what the two instances point to is
  allocated, nothing is freed twice, with the wrong function or size, or used after it was freed.
\<close>

section \<open>Ownership\<close>

fun opt_ref :: "nat option \<Rightarrow> rx_kind \<Rightarrow> (nat \<times> rx_kind) list" where
  "opt_ref None k = []"
| "opt_ref (Some p) k = [(p, k)]"

definition vm_refs :: "rx_instance \<Rightarrow> (nat \<times> rx_kind) list" where
  "vm_refs x = concat (map (\<lambda>v. opt_ref v K_vm) (m_vms x)) @ concat (map (\<lambda>v. opt_ref v K_scratchpad) (m_scratchpads x))"

definition block_refs :: "rx_instance \<Rightarrow> (nat \<times> rx_kind) list" where
  "block_refs x = opt_ref (m_dataset x) K_dataset @ opt_ref (m_cache x) K_cache
     @ opt_ref (m_datasetMemory x) (block_kind (m_allocatedWithHugePages x) (m_datasetMemorySize x))
     @ opt_ref (m_cacheMemory x) (block_kind (m_cacheAllocatedWithHugePages x) (m_cacheMemorySize x))"

text \<open>The world holds exactly \<open>L\<close>, and nothing has gone wrong.\<close>

definition owns :: "(nat \<times> rx_kind) list \<Rightarrow> rx_world \<Rightarrow> bool" where
  "owns L w \<longleftrightarrow> distinct (map fst L) \<and> (\<forall>p k. w_live w p = Some k \<longleftrightarrow> (p, k) \<in> set L)
     \<and> (\<forall>p\<in>set L. fst p < w_next w) \<and> w_fault w = None"

lemma owns_mset: "mset L = mset L' \<Longrightarrow> owns L w = owns L' w"
proof -
  assume eq: "mset L = mset L'"
  then have "set L = set L'" by (rule mset_eq_setD)
  moreover have "distinct (map fst L) = distinct (map fst L')"
    using eq by (metis mset_eq_imp_distinct_iff mset_map)
  ultimately show ?thesis by (simp add: owns_def)
qed

lemma owns_free: "owns ((p, k) # L) w \<Longrightarrow> owns L (rx_free (p, k) w)"
  by (force simp: owns_def rx_free_def)

lemma owns_free_all: "owns (L @ R) w \<Longrightarrow> owns R (fold rx_free L w)"
proof (induction L arbitrary: w)
  case (Cons p L)
  then show ?case using owns_free [of "fst p" "snd p" "L @ R" w] by simp
qed simp

lemma free_opt_fold: "free_opt v k w = fold rx_free (opt_ref v k) w"
  by (cases v) simp_all

lemma fold_free_opt: "fold (\<lambda>v. free_opt v k) vs w = fold rx_free (concat (map (\<lambda>v. opt_ref v k) vs)) w"
  by (induction vs arbitrary: w) (simp_all add: free_opt_fold)

lemma owns_new:
  assumes "owns L w" and "rx_new k w = (p, w')"
  shows "owns ((p, k) # L) w'"
proof -
  have p: "p = w_next w" and w': "w' = w\<lparr>w_live := (w_live w)(p := Some k), w_next := p + 1\<rparr>"
    using assms(2) by (auto simp: rx_new_def)
  have less: "\<forall>q\<in>set L. fst q < p" using assms(1) by (simp add: owns_def p)
  then have "(p, k') \<notin> set L" for k' by fastforce
  moreover from less have "p \<notin> fst ` set L" by fastforce
  moreover have "\<forall>q\<in>set L. fst q < p + 1" using less by (simp add: less_Suc_eq)
  ultimately show ?thesis using assms(1) by (auto simp: owns_def w')
qed

lemma owns_asked [simp]: "owns L (w\<lparr>w_asked := n\<rparr>) = owns L w"
  by (simp add: owns_def)

lemma owns_try:
  assumes "owns L w" and "rx_try orc q k w = (v, w')"
  shows "owns (opt_ref v k @ L) w'"
proof (cases "orc (w_asked w) q")
  case True
  then obtain p where "rx_new k (w\<lparr>w_asked := w_asked w + 1\<rparr>) = (p, w')" "v = Some p"
    using assms(2) by (auto simp: rx_try_def Let_def split: prod.splits)
  then show ?thesis using owns_new [of L "w\<lparr>w_asked := w_asked w + 1\<rparr>" k p w'] assms(1) by simp
qed (use assms in \<open>auto simp: rx_try_def Let_def\<close>)

lemma owns_touch: "owns L w \<Longrightarrow> p \<in> set L \<Longrightarrow> rx_touch p w = w"
  by (cases p) (simp add: owns_def rx_touch_def)

lemma owns_update [simp]:
  "owns L (w\<lparr>w_currentConfig := c\<rparr>) = owns L w" "owns L (w\<lparr>w_keyed := f\<rparr>) = owns L w"
  "owns L (w\<lparr>w_filled := g\<rparr>) = owns L w"
  by (simp_all add: owns_def)

text \<open>What the operations on memory leave alone.\<close>

text \<open>The configuration, the caches' keys and the datasets' contents.\<close>

definition same_data :: "rx_world \<Rightarrow> rx_world \<Rightarrow> bool" where
  "same_data w w' \<longleftrightarrow> w_currentConfig w' = w_currentConfig w \<and> w_filled w' = w_filled w \<and> w_keyed w' = w_keyed w"

lemma same_data_trans: "same_data a b \<Longrightarrow> same_data b c \<Longrightarrow> same_data a c"
  by (simp add: same_data_def)

lemma same_data_free: "same_data w (fold rx_free L w)"
  by (induction L arbitrary: w) (simp_all add: same_data_def rx_free_def rx_fail_def)

lemma same_data_refl: "same_data w w"
  by (simp add: same_data_def)

lemma new_frame:
  "rx_new k w = (p, w') \<Longrightarrow> same_data w w'"
  by (auto simp: rx_new_def same_data_def)

lemma try_frame:
  "rx_try orc q k w = (v, w') \<Longrightarrow> same_data w w'"
  by (auto simp: rx_try_def rx_new_def same_data_def Let_def split: if_splits)

section \<open>Destroying\<close>

lemma destroyVMs_eq: "destroyVMs (x, w) = (x\<lparr>m_vms := [], m_scratchpads := []\<rparr>, fold rx_free (vm_refs x) w)"
  by (simp add: destroyVMs_def vm_refs_def fold_free_opt)

lemma teardown_eq:
  "snd (rx_teardown (x, w)) = fold rx_free (vm_refs x @ block_refs x) w"
  "vm_refs (fst (rx_teardown (x, w))) = []" "block_refs (fst (rx_teardown (x, w))) = []"
  "m_initialized (fst (rx_teardown (x, w))) = False" "m_mutex (fst (rx_teardown (x, w))) = m_mutex x"
  by (simp_all add: rx_teardown_def destroyVMs_eq block_refs_def vm_refs_def free_opt_fold Let_def)

lemma teardown_owns:
  assumes "owns (vm_refs x @ block_refs x @ R) w"
  shows "owns R (snd (rx_teardown (x, w)))"
  using owns_free_all [of "vm_refs x @ block_refs x" R w] assms by (simp add: teardown_eq)

section \<open>Machines\<close>

definition vms_granted :: "rx_oracle \<Rightarrow> bool" where
  "vms_granted orc \<longleftrightarrow> (\<forall>n. orc n Ask_vm)"

lemma refs_update:
  assumes "i < length vs" and "vs ! i = None"
  shows "mset (concat (map (\<lambda>v. opt_ref v k) (vs[i := Some p]))) = mset ((p, k) # concat (map (\<lambda>v. opt_ref v k) vs))"
proof -
  have "vs = take i vs @ None # drop (Suc i) vs" using id_take_nth_drop [OF assms(1)] assms(2) by simp
  then have "mset (concat (map (\<lambda>v. opt_ref v k) vs)) = mset (concat (map (\<lambda>v. opt_ref v k) (take i vs @ None # drop (Suc i) vs)))"
    by simp
  then show ?thesis using assms(1) by (simp add: upd_conv_take_nth_drop)
qed

text \<open>Everything of an instance but its machines and scratchpads, and of the world but what is allocated.\<close>

definition same_blocks :: "rx_instance \<Rightarrow> rx_instance \<Rightarrow> bool" where
  "same_blocks x y \<longleftrightarrow> y\<lparr>m_vms := [], m_scratchpads := []\<rparr> = x\<lparr>m_vms := [], m_scratchpads := []\<rparr>"

lemma same_blocks_sel:
  assumes "same_blocks x y"
  shows "block_refs y = block_refs x" "m_seedHash y = m_seedHash x" "m_datasetMemory y = m_datasetMemory x"
    "m_datasetMemorySize y = m_datasetMemorySize x" "m_mutex y = m_mutex x" "m_cache y = m_cache x"
    "m_dataset y = m_dataset x" "m_algo y = m_algo x" "m_cacheMemory y = m_cacheMemory x"
  using assms by (cases x; cases y; simp add: same_blocks_def block_refs_def)+

lemma createVMs_from_owns:
  assumes "owns (vm_refs x @ R) w" and "i + n = length (m_vms x)" and "length (m_scratchpads x) = length (m_vms x)"
    and "\<forall>j. i \<le> j \<and> j < length (m_vms x) \<longrightarrow> m_vms x ! j = None \<and> m_scratchpads x ! j = None"
    and "vms_granted orc"
  shows "\<exists>x' w'. createVMs_from orc i n (x, w) = (True, x', w') \<and> owns (vm_refs x' @ R) w' \<and> same_blocks x x'
    \<and> same_data w w'"
  using assms(1-4)
proof (induction n arbitrary: i x w)
  case 0
  then show ?case by (simp add: same_blocks_def same_data_refl)
next
  case (Suc n)
  obtain sp w1 where sp: "rx_new K_scratchpad w = (sp, w1)" by fastforce
  obtain v w2 where vm: "rx_try orc Ask_vm K_vm w1 = (v, w2)" by fastforce
  then obtain p where p: "v = Some p" using assms(5)
    by (auto simp: rx_try_def vms_granted_def Let_def split: if_splits prod.splits)
  define x' where "x' = x\<lparr>m_scratchpads := (m_scratchpads x)[i := Some sp], m_vms := (m_vms x)[i := Some p]\<rparr>"
  have i: "i < length (m_vms x)" "i < length (m_scratchpads x)" "m_vms x ! i = None" "m_scratchpads x ! i = None"
    using Suc.prems(2-4) by auto
  have "mset (vm_refs x' @ R) = mset ((p, K_vm) # (sp, K_scratchpad) # vm_refs x @ R)"
    using refs_update [OF i(1,3), of K_vm p] refs_update [OF i(2,4), of K_scratchpad sp] by (simp add: vm_refs_def x'_def)
  moreover have "owns ((p, K_vm) # (sp, K_scratchpad) # vm_refs x @ R) w2"
    using owns_try [OF owns_new [OF Suc.prems(1) sp] vm] by (simp add: p)
  ultimately have "owns (vm_refs x' @ R) w2" using owns_mset by blast
  moreover have "same_blocks x x'" by (simp add: same_blocks_def x'_def)
  moreover have "same_data w w2"
    using same_data_trans [OF new_frame [OF sp] try_frame [OF vm]] .
  moreover have "createVMs_from orc i (Suc n) (x, w) = createVMs_from orc (Suc i) n (x', w2)"
    by (simp add: sp vm p x'_def)
  ultimately show ?case
    using Suc.IH [of x' w2 "Suc i"] Suc.prems(2-4) by (simp add: x'_def same_blocks_def same_data_def)
qed

lemma createVMs_owns:
  assumes "owns (vm_refs x @ R) w" and "m_vms x = []" and "m_scratchpads x = []" and "vms_granted orc"
  shows "\<exists>x' w'. createVMs orc threads (x, w) = (True, x', w') \<and> owns (vm_refs x' @ R) w' \<and> same_blocks x x'
    \<and> same_data w w'"
proof -
  define y where "y = x\<lparr>m_vms := replicate threads None, m_scratchpads := replicate threads None\<rparr>"
  have "concat (map (\<lambda>v. opt_ref v k) (replicate n None)) = []" for k n by (induction n) simp_all
  then have "vm_refs y = vm_refs x" using assms(2,3) by (simp add: vm_refs_def y_def)
  moreover have "same_blocks x y" by (simp add: same_blocks_def y_def)
  moreover have "createVMs orc threads (x, w) = createVMs_from orc 0 threads (y, w)"
    using assms(2,3) by (simp add: createVMs_def resize_def y_def)
  ultimately show ?thesis
    using createVMs_from_owns [of y R w 0 threads orc] assms(1,4) by (simp add: y_def same_blocks_def)
qed

section \<open>Allocating\<close>

text \<open>An attempt that is only made if wanted.\<close>

definition try_if :: "bool \<Rightarrow> rx_oracle \<Rightarrow> rx_request \<Rightarrow> rx_kind \<Rightarrow> rx_world \<Rightarrow> nat option \<times> rx_world" where
  "try_if b orc q k w = (if b then rx_try orc q k w else (None, w))"

lemma try_if_owns:
  assumes "owns R w" and "try_if b orc q k w = (v, w')"
  shows "owns (opt_ref v k @ R) w' \<and> same_data w w' \<and> (v \<noteq> None \<longrightarrow> b)"
  using assms owns_try [of R w orc q k v w'] try_frame [of orc q k w v w'] by (auto simp: try_if_def same_data_refl split: if_splits)

lemma alloc_cache_memory_owns:
  assumes "owns R w" and "m_cacheMemory x = None" and "alloc_cache_memory orc h (x, w) = (u, x', w')"
  shows "\<exists>p. x' = x\<lparr>m_cacheMemorySize := CACHE_MAX_SIZE, m_cacheMemory := p\<rparr>
    \<and> owns (opt_ref p (block_kind u CACHE_MAX_SIZE) @ R) w'
    \<and> same_data w w'"
proof -
  obtain p w1 where p: "try_if h orc (Ask_pages CACHE_MAX_SIZE) (K_pages CACHE_MAX_SIZE) w = (p, w1)" by fastforce
  obtain q w2 where q: "try_if (p = None) orc (Ask_malloc CACHE_MAX_SIZE) K_malloc w1 = (q, w2)" by fastforce
  note p' = try_if_owns [OF assms(1) p]
  have "alloc_cache_memory orc h (x, w) =
      (h \<and> p \<noteq> None, x\<lparr>m_cacheMemorySize := CACHE_MAX_SIZE, m_cacheMemory := if p = None then q else p\<rparr>, w2)"
    using p q assms(2) by (cases h; cases p) (simp_all add: alloc_cache_memory_def try_if_def Let_def)
  moreover have "owns (opt_ref (if p = None then q else p) (block_kind (h \<and> p \<noteq> None) CACHE_MAX_SIZE) @ R) w2
      \<and> same_data w w2"
    using p' try_if_owns [of R w1 "p = None" orc "Ask_malloc CACHE_MAX_SIZE" K_malloc q w2] q
    by (cases p) (auto simp: block_kind_def try_if_def same_data_def)
  ultimately show ?thesis using assms(3) by auto
qed

lemma alloc_dataset_memory_owns:
  assumes "owns R w" and "m_datasetMemory x = None" and "alloc_dataset_memory orc h g (x, w) = (u, x', w')"
  shows "\<exists>p sz b. x' = x\<lparr>m_datasetMemorySize := sz, m_datasetMemory := p, m_using1GbPages := b\<rparr>
    \<and> owns (opt_ref p (block_kind u sz) @ R) w' \<and> dataset_size (w_currentConfig w) \<le> sz
    \<and> same_data w w'"
proof -
  define sz al where "sz = dataset_size (w_currentConfig w)" and "al = (sz + ONE_GB - 1) div ONE_GB * ONE_GB"
  have al: "sz \<le> al"
    using div_mult_mod_eq [of "sz + ONE_GB - 1" ONE_GB] mod_less_divisor [of ONE_GB "sz + ONE_GB - 1"] unfolding al_def by linarith
  obtain p w1 where p: "try_if (h \<and> g) orc (Ask_pages al) (K_pages al) w = (p, w1)" by fastforce
  obtain q w2 where q: "try_if (h \<and> p = None) orc (Ask_pages sz) (K_pages sz) w1 = (q, w2)" by fastforce
  obtain r w3 where r: "try_if (p = None \<and> q = None) orc (Ask_malloc sz) K_malloc w2 = (r, w3)" by fastforce
  note p' = try_if_owns [OF assms(1) p]
  define sz' where "sz' = (if p = None then sz else al)"
  define v where "v = (if p \<noteq> None then p else if q \<noteq> None then q else r)"
  have run: "alloc_dataset_memory orc h g (x, w) = (h \<and> (p \<noteq> None \<or> q \<noteq> None),
      x\<lparr>m_datasetMemorySize := sz', m_datasetMemory := v, m_using1GbPages := (p \<noteq> None \<or> m_using1GbPages x)\<rparr>, w3)"
    using p q r assms(2) unfolding al_def sz_def
    by (cases h; cases g; cases p; cases q)
      (simp_all add: alloc_dataset_memory_def try_if_def Let_def sz_def al_def sz'_def v_def)
  have q': "p = None \<Longrightarrow> owns (opt_ref q (K_pages sz) @ R) w2 \<and> same_data w1 w2
      \<and> (q \<noteq> None \<longrightarrow> h)" and qn: "p \<noteq> None \<Longrightarrow> q = None \<and> w2 = w1"
    using try_if_owns [OF _ q, of R] p' q by (auto simp: try_if_def)
  have r': "p = None \<Longrightarrow> q = None \<Longrightarrow> owns (opt_ref r K_malloc @ R) w3 \<and> same_data w2 w3"
    and rn: "p \<noteq> None \<or> q \<noteq> None \<Longrightarrow> w3 = w2"
    using try_if_owns [OF _ r, of R] q' r by (auto simp: try_if_def)
  have "owns (opt_ref v (block_kind (h \<and> (p \<noteq> None \<or> q \<noteq> None)) sz') @ R) w3
      \<and> same_data w w3"
  proof (cases "p = None")
    case True
    then show ?thesis using p' q' r' rn by (cases q) (auto simp: v_def sz'_def block_kind_def same_data_def)
  next
    case False
    then show ?thesis using p' qn rn by (auto simp: v_def sz'_def block_kind_def same_data_def)
  qed
  moreover have "dataset_size (w_currentConfig w) \<le> sz'" using al by (simp add: sz'_def sz_def)
  ultimately show ?thesis using assms(3) run by auto
qed

section \<open>\<open>init\<close>\<close>

text \<open>What an instance has after \<open>init\<close>: all or nothing, and if all, the dataset of its seed.\<close>

definition dataset_of :: "rx_instance \<Rightarrow> rx_world \<Rightarrow> (bytes \<times> rx_config) option" where
  "dataset_of x w = (case m_datasetMemory x of None \<Rightarrow> None | Some dm \<Rightarrow> w_filled w dm)"

definition instance_ok :: "rx_instance \<Rightarrow> rx_world \<Rightarrow> bool" where
  "instance_ok x w \<longleftrightarrow>
     (\<not> m_initialized x \<longrightarrow> m_vms x = [] \<and> m_scratchpads x = [] \<and> block_refs x = [])
     \<and> (m_initialized x \<longrightarrow> m_cache x \<noteq> None \<and> m_dataset x \<noteq> None \<and> m_cacheMemory x \<noteq> None
         \<and> dataset_size (applyAlgoConfig (m_algo x)) \<le> m_datasetMemorySize x
         \<and> (\<exists>cfg. dataset_of x w = Some (seed_bytes (m_seedHash x), cfg)))"

text \<open>The dataset was computed under the configuration of the instance's own algorithm.\<close>

definition own_config :: "rx_instance \<Rightarrow> rx_world \<Rightarrow> bool" where
  "own_config x w \<longleftrightarrow> (m_initialized x \<longrightarrow> dataset_of x w = Some (seed_bytes (m_seedHash x), applyAlgoConfig (m_algo x)))"

lemma block_refs_None:
  "block_refs x = [] \<longleftrightarrow> m_dataset x = None \<and> m_cache x = None \<and> m_datasetMemory x = None \<and> m_cacheMemory x = None"
  by (cases "m_dataset x"; cases "m_cache x"; cases "m_datasetMemory x"; cases "m_cacheMemory x") (simp_all add: block_refs_def)

text \<open>Filling caches and datasets that are there.\<close>

lemma rx_init_cache_ok:
  assumes "owns L w" and "m_cache x = Some c" and "m_cacheMemory x = Some m"
    and "(c, K_cache) \<in> set L" and "(m, block_kind (m_cacheAllocatedWithHugePages x) (m_cacheMemorySize x)) \<in> set L"
  shows "rx_init_cache seed (x, w) = (x, w\<lparr>w_keyed := (w_keyed w)(m := Some (seed, w_currentConfig w))\<rparr>)"
  using assms by (simp add: rx_init_cache_def owns_touch)

lemma rx_init_dataset_ok:
  assumes "owns L w" and "m_cache x = Some c" and "m_cacheMemory x = Some cm" and "m_dataset x = Some d" and "m_datasetMemory x = Some dm"
    and "(c, K_cache) \<in> set L" and "(d, K_dataset) \<in> set L" and "(dm, k) \<in> set L"
    and "dataset_size (w_currentConfig w) \<le> m_datasetMemorySize x"
  shows "rx_init_dataset (x, w) = (x, w\<lparr>w_filled := (w_filled w)(dm := w_keyed w cm)\<rparr>)"
proof -
  have "w_live w dm = Some k" using assms(1,8) by (simp add: owns_def)
  then show ?thesis using assms by (simp add: rx_init_dataset_def owns_touch Let_def not_less)
qed

lemma finish_init_ok:
  assumes owns: "owns (block_refs (x\<lparr>m_allocatedWithHugePages := u\<rparr>) @ R) w"
    and x: "m_vms x = []" "m_scratchpads x = []" "m_cache x = Some c" "m_cacheMemory x = Some cm" "m_dataset x = Some d" "m_datasetMemory x = Some dm"
    and size: "dataset_size (w_currentConfig w) \<le> m_datasetMemorySize x" and orc: "vms_granted orc"
  shows "\<exists>x' w'. finish_init orc threads u (x, w) = (True, x', w') \<and> owns (vm_refs x' @ block_refs x' @ R) w'
    \<and> m_initialized x' \<and> m_mutex x' = m_mutex x \<and> m_seedHash x' = m_seedHash x \<and> m_algo x' = m_algo x
    \<and> m_cache x' = Some c \<and> m_dataset x' = Some d \<and> m_cacheMemory x' = Some cm \<and> m_datasetMemory x' = Some dm
    \<and> m_datasetMemorySize x' = m_datasetMemorySize x
    \<and> same_data (w\<lparr>w_filled := (w_filled w)(dm := w_keyed w cm)\<rparr>) w'"
proof -
  define y where "y = x\<lparr>m_allocatedWithHugePages := u\<rparr>"
  have refs: "(c, K_cache) \<in> set (block_refs y @ R)" "(d, K_dataset) \<in> set (block_refs y @ R)"
    "(dm, block_kind u (m_datasetMemorySize x)) \<in> set (block_refs y @ R)"
    using x by (simp_all add: y_def block_refs_def)
  define w1 where "w1 = w\<lparr>w_filled := (w_filled w)(dm := w_keyed w cm)\<rparr>"
  have fill: "rx_init_dataset (y, w) = (y, w1)"
    using rx_init_dataset_ok [OF owns [folded y_def] _ _ _ _ refs] x size by (simp add: y_def w1_def)
  have "vm_refs y = []" using x by (simp add: vm_refs_def y_def)
  then have "owns (vm_refs y @ block_refs y @ R) w1" using owns by (simp add: w1_def y_def)
  from createVMs_owns [OF this _ _ orc, of threads] x obtain x' w' where
    vms: "createVMs orc threads (y, w1) = (True, x', w')" "owns (vm_refs x' @ block_refs y @ R) w'" "same_blocks y x'"
    "same_data w1 w'"
    by (auto simp: y_def)
  define z where "z = x'\<lparr>m_initialized := True\<rparr>"
  have z: "vm_refs z = vm_refs x'" "block_refs z = block_refs y" "m_mutex z = m_mutex x" "m_seedHash z = m_seedHash x" "m_algo z = m_algo x"
    "m_cache z = Some c" "m_dataset z = Some d" "m_cacheMemory z = Some cm" "m_datasetMemory z = Some dm"
    "m_datasetMemorySize z = m_datasetMemorySize x" "m_initialized z"
    using same_blocks_sel [OF vms(3)] x by (simp_all add: z_def vm_refs_def block_refs_def y_def)
  have "finish_init orc threads u (x, w) = (True, z, w')"
    using vms(1) fill by (simp add: finish_init_def y_def z_def Let_def)
  then show ?thesis using vms(2,4) z by (intro exI [of _ z] exI [of _ w']) (simp add: w1_def)
qed

text \<open>
  How the rest of \<open>init\<close> ends: either with machines over a dataset filled from cache \<open>cm\<close> in memory that was not
  allocated before, or with nothing allocated.
\<close>

definition part_ok :: "nat \<Rightarrow> (nat \<times> rx_kind) list \<Rightarrow> rx_instance \<times> rx_world \<Rightarrow> bool \<times> rx_instance \<times> rx_world \<Rightarrow> bool" where
  "part_ok cm R xw r \<longleftrightarrow> (case (xw, r) of ((x, w), (ok, x', w')) \<Rightarrow>
     owns (vm_refs x' @ block_refs x' @ R) w' \<and> m_initialized x' = ok
     \<and> m_mutex x' = m_mutex x \<and> m_seedHash x' = m_seedHash x \<and> m_algo x' = m_algo x
     \<and> (\<not> ok \<longrightarrow> same_data w w' \<and> m_vms x' = [] \<and> m_scratchpads x' = [] \<and> block_refs x' = [])
     \<and> (ok \<longrightarrow> m_cache x' \<noteq> None \<and> m_dataset x' \<noteq> None \<and> m_cacheMemory x' = Some cm
         \<and> dataset_size (w_currentConfig w) \<le> m_datasetMemorySize x'
         \<and> (\<exists>dm. m_datasetMemory x' = Some dm \<and> dm \<notin> fst ` set R
             \<and> same_data (w\<lparr>w_filled := (w_filled w)(dm := w_keyed w cm)\<rparr>) w')))"

lemma vm_refs_Nil: "m_vms x = [] \<Longrightarrow> m_scratchpads x = [] \<Longrightarrow> vm_refs x = []"
  by (simp add: vm_refs_def)

lemma dataset_part_ok:
  assumes owns: "owns (block_refs x @ R) w"
    and x: "m_vms x = []" "m_scratchpads x = []" "m_cache x = Some c" "m_cacheMemory x = Some cm" "m_dataset x = None"
      "m_datasetMemory x = None" "\<not> m_initialized x"
    and orc: "vms_granted orc"
  shows "part_ok cm R (x, w) (dataset_part orc threads u g (x, w))"
proof -
  obtain u' x1 w1 where al: "alloc_dataset_memory orc u g (x, w) = (u', x1, w1)" by (metis prod_cases3)
  from alloc_dataset_memory_owns [OF owns x(6) al] obtain p sz b where
    x1: "x1 = x\<lparr>m_datasetMemorySize := sz, m_datasetMemory := p, m_using1GbPages := b\<rparr>"
    and ow1: "owns (opt_ref p (block_kind u' sz) @ block_refs x @ R) w1"
    and sz: "dataset_size (w_currentConfig w) \<le> sz" and sd: "same_data w w1" by blast
  show ?thesis
  proof (cases p)
    case None
    define y where "y = x1\<lparr>m_cache := None, m_cacheMemory := None\<rparr>"
    have run: "dataset_part orc threads u g (x, w) = (False, y, fold rx_free (block_refs x) w1)"
      using al x by (simp add: dataset_part_def None x1 y_def block_refs_def Let_def)
    have "owns R (fold rx_free (block_refs x) w1)" using ow1 None owns_free_all by simp
    moreover have "block_refs y = []" using x by (simp add: block_refs_None y_def x1 None)
    moreover have "same_data w (fold rx_free (block_refs x) w1)" using sd same_data_free same_data_trans by blast
    ultimately show ?thesis using x by (simp add: part_ok_def run y_def x1 vm_refs_def)
  next
    case (Some dm)
    obtain d w2 where d: "rx_new K_dataset w1 = (d, w2)" by fastforce
    define y where "y = x1\<lparr>m_dataset := Some d\<rparr>"
    have run: "dataset_part orc threads u g (x, w) = finish_init orc threads u' (y, w2)"
      using al d by (simp add: dataset_part_def Some x1 y_def)
    have "owns ((d, K_dataset) # (dm, block_kind u' sz) # block_refs x @ R) w2"
      using owns_new [OF ow1 d] Some by simp
    moreover have "mset ((d, K_dataset) # (dm, block_kind u' sz) # block_refs x @ R) = mset (block_refs (y\<lparr>m_allocatedWithHugePages := u'\<rparr>) @ R)"
      using x by (simp add: block_refs_def y_def x1 Some)
    ultimately have ow2: "owns (block_refs (y\<lparr>m_allocatedWithHugePages := u'\<rparr>) @ R) w2" using owns_mset by metis
    have sd2: "same_data w w2" using same_data_trans [OF sd new_frame [OF d]] .
    have fresh: "dm \<notin> fst ` set R" using ow1 Some by (auto simp: owns_def)
    from finish_init_ok [OF ow2 _ _ _ _ _ _ _ orc, of c cm d dm threads] x sz sd2
    obtain x' w' where fin: "finish_init orc threads u' (y, w2) = (True, x', w')" "owns (vm_refs x' @ block_refs x' @ R) w'"
      "m_initialized x'" "m_mutex x' = m_mutex x" "m_seedHash x' = m_seedHash x" "m_algo x' = m_algo x" "m_cache x' = Some c"
      "m_dataset x' = Some d" "m_cacheMemory x' = Some cm" "m_datasetMemory x' = Some dm" "m_datasetMemorySize x' = sz"
      "same_data (w2\<lparr>w_filled := (w_filled w2)(dm := w_keyed w2 cm)\<rparr>) w'"
      by (auto simp: y_def x1 Some same_data_def)
    then show ?thesis using fresh sz sd2 by (simp add: part_ok_def run same_data_def)
  qed
qed

definition init_result :: "string \<Rightarrow> RxAlgo \<Rightarrow> (nat \<times> rx_kind) list \<Rightarrow> rx_instance \<times> rx_world \<Rightarrow> bool \<times> rx_instance \<times> rx_world \<Rightarrow> bool" where
  "init_result seed algo R xw r \<longleftrightarrow> (case (xw, r) of ((x, w), (ok, x', w')) \<Rightarrow>
     owns (vm_refs x' @ block_refs x' @ R) w' \<and> instance_ok x' w' \<and> own_config x' w'
     \<and> m_initialized x' = ok \<and> m_mutex x' = m_mutex x \<and> m_seedHash x' = seed \<and> m_algo x' = algo
     \<and> w_currentConfig w' = applyAlgoConfig algo \<and> (\<forall>p\<in>fst ` set R. w_filled w' p = w_filled w p))"

lemma part_ok_init_result:
  assumes "part_ok cm R (x, w) r" and "m_seedHash x = seed" and "m_algo x = algo"
    and "w_currentConfig w = applyAlgoConfig algo" and "w_keyed w cm = Some (seed_bytes seed, applyAlgoConfig algo)"
  shows "init_result seed algo R (x, w) r"
proof -
  obtain ok x' w' where r: "r = (ok, x', w')" by (metis prod_cases3)
  show ?thesis
  proof (cases ok)
    case True
    with assms(1) r obtain dm where dm: "m_datasetMemory x' = Some dm" "dm \<notin> fst ` set R"
      "same_data (w\<lparr>w_filled := (w_filled w)(dm := w_keyed w cm)\<rparr>) w'"
      by (auto simp: part_ok_def)
    then have "dataset_of x' w' = Some (seed_bytes seed, applyAlgoConfig algo)"
      and "w_currentConfig w' = applyAlgoConfig algo" and "\<forall>p\<in>fst ` set R. w_filled w' p = w_filled w p"
      using assms(4,5) by (auto simp: dataset_of_def same_data_def)
    then show ?thesis using assms r True
      by (simp add: part_ok_def init_result_def instance_ok_def own_config_def)
  next
    case False
    then show ?thesis using assms r
      by (auto simp: part_ok_def init_result_def instance_ok_def own_config_def same_data_def vm_refs_Nil)
  qed
qed

lemma init_body_ok:
  assumes owns: "owns R w" and x: "m_vms x = []" "m_scratchpads x = []" "block_refs x = []" "\<not> m_initialized x"
    and orc: "vms_granted orc"
  shows "init_result seed algo R (x, w) (init_body orc seed threads algo h a g (x, w))"
proof -
  have none: "m_dataset x = None" "m_cache x = None" "m_datasetMemory x = None" "m_cacheMemory x = None"
    using x(3) by (simp_all add: block_refs_None)
  define x0 w0 where "x0 = x\<lparr>m_seedHash := seed, m_hugePages := h, m_hardwareAES := a, m_algo := algo\<rparr>"
    and "w0 = w\<lparr>w_currentConfig := applyAlgoConfig algo\<rparr>"
  obtain u x1 w1 where al: "alloc_cache_memory orc h (x0, w0) = (u, x1, w1)" by (metis prod_cases3)
  from alloc_cache_memory_owns [OF _ _ al, of R] owns none obtain p where
    x1: "x1 = x0\<lparr>m_cacheMemorySize := CACHE_MAX_SIZE, m_cacheMemory := p\<rparr>"
    and ow1: "owns (opt_ref p (block_kind u CACHE_MAX_SIZE) @ R) w1" and sd1: "same_data w0 w1"
    by (auto simp: x0_def w0_def)
  note body = init_body_def x0_def [symmetric] w0_def [symmetric]
  have fields: "m_mutex x0 = m_mutex x" "m_seedHash x0 = seed" "m_algo x0 = algo" "m_vms x0 = []" "m_scratchpads x0 = []"
    "\<not> m_initialized x0" "m_dataset x0 = None" "m_cache x0 = None" "m_datasetMemory x0 = None"
    "w_currentConfig w0 = applyAlgoConfig algo" "w_filled w0 = w_filled w"
    using x none by (simp_all add: x0_def w0_def)
  show ?thesis
  proof (cases p)
    case None
    have run: "init_body orc seed threads algo h a g (x, w) = (False, x1, w1)"
      using al by (simp add: body None x1)
    have "block_refs x1 = []" using fields by (simp add: block_refs_None x1 None)
    then show ?thesis unfolding run using ow1 sd1 fields
      by (simp add: init_result_def instance_ok_def own_config_def same_data_def x1 None vm_refs_def)
  next
    case (Some cm)
    obtain v w2 where cr: "rx_try orc Ask_cache K_cache w1 = (v, w2)" by fastforce
    have sd2: "same_data w0 w2" using same_data_trans [OF sd1 try_frame [OF cr]] .
    define x2 where "x2 = x1\<lparr>m_cacheAllocatedWithHugePages := u, m_cache := v\<rparr>"
    have ow2: "owns (opt_ref v K_cache @ (cm, block_kind u CACHE_MAX_SIZE) # R) w2"
      using owns_try [OF ow1 cr] Some by simp
    show ?thesis
    proof (cases v)
      case None
      define x3 w3 where "x3 = x2\<lparr>m_cacheMemory := None\<rparr>" and "w3 = rx_free (cm, block_kind u CACHE_MAX_SIZE) w2"
      have run: "init_body orc seed threads algo h a g (x, w) = (False, x3, w3)"
        using al cr by (simp add: body Some x1 None x2_def x3_def w3_def)
      have "block_refs x3 = []" using fields by (simp add: block_refs_None x3_def x2_def x1 None)
      moreover have "owns R w3" using owns_free ow2 None by (simp add: w3_def)
      moreover have "same_data w0 w3" using same_data_trans [OF sd2 same_data_free [of w2 "[_]"]] by (simp add: w3_def)
      ultimately show ?thesis unfolding run using fields
        by (simp add: init_result_def instance_ok_def own_config_def same_data_def x3_def x2_def x1 vm_refs_def)
    next
      case c: (Some c)
      define w3 where "w3 = w2\<lparr>w_keyed := (w_keyed w2)(cm := Some (seed_bytes seed, w_currentConfig w2))\<rparr>"
      have refs: "block_refs x2 = [(c, K_cache), (cm, block_kind u CACHE_MAX_SIZE)]"
        using fields by (simp add: block_refs_def x2_def x1 Some c)
      then have ow: "owns (block_refs x2 @ R) w2" using ow2 c by simp
      have "rx_init_cache (seed_bytes seed) (x2, w2) = (x2, w3)"
        using rx_init_cache_ok [OF ow, of x2 c cm "seed_bytes seed"] refs by (simp add: w3_def x2_def x1 Some c)
      then have run: "init_body orc seed threads algo h a g (x, w) = dataset_part orc threads u g (x2, w3)"
        using al cr by (simp add: body Some x1 c x2_def)
      have "part_ok cm R (x2, w3) (dataset_part orc threads u g (x2, w3))"
        using ow fields by (intro dataset_part_ok [where c = c] orc) (simp_all add: w3_def x2_def x1 Some c)
      then have "init_result seed algo R (x2, w3) (dataset_part orc threads u g (x2, w3))"
        by (rule part_ok_init_result) (use fields sd2 in \<open>simp_all add: w3_def x2_def x1 same_data_def\<close>)
      then show ?thesis unfolding run using fields sd2
        by (simp add: init_result_def w3_def x2_def x1 same_data_def split: prod.splits)
    qed
  qed
qed

section \<open>The operations of an instance\<close>

text \<open>What each leaves: the instance, its mutex free, and what the other instance refers to.\<close>

definition op_result :: "(nat \<times> rx_kind) list \<Rightarrow> rx_instance \<times> rx_world \<Rightarrow> rx_instance \<times> rx_world \<Rightarrow> bool" where
  "op_result R xw xw' \<longleftrightarrow> owns (vm_refs (fst xw') @ block_refs (fst xw') @ R) (snd xw') \<and> instance_ok (fst xw') (snd xw')
     \<and> \<not> m_mutex (fst xw') \<and> (\<forall>p\<in>fst ` set R. w_filled (snd xw') p = w_filled (snd xw) p)"

lemma teardown_rest:
  "m_vms (fst (rx_teardown (x, w))) = []" "m_scratchpads (fst (rx_teardown (x, w))) = []"
  "same_data w (snd (rx_teardown (x, w)))"
  using same_data_free [of w "vm_refs x @ block_refs x"] teardown_eq(1) [of x w]
  by (simp_all add: rx_teardown_def destroyVMs_eq Let_def)

lemma init_ok:
  assumes owns: "owns (vm_refs x @ block_refs x @ R) w" and ok: "instance_ok x w" and free: "\<not> m_mutex x" and orc: "vms_granted orc"
    and run: "RxInstance_init orc seed threads algo h a g (x, w) = (b, x', w')"
  shows "op_result R (x, w) (x', w') \<and> (own_config x w \<longrightarrow> own_config x' w') \<and> m_initialized x' = b \<and> m_seedHash x' = seed \<and> m_algo x' = algo
    \<and> w_currentConfig w' \<in> {w_currentConfig w, applyAlgoConfig algo} \<and> (\<not> m_initialized x \<longrightarrow> w_currentConfig w' = applyAlgoConfig algo)"
proof (cases "m_initialized x \<and> seed = m_seedHash x \<and> algo = m_algo x")
  case True
  then show ?thesis using assms by (simp add: RxInstance_init_def op_result_def)
next
  case False
  define x0 w0 where "x0 = (if m_initialized x then fst (rx_teardown (x\<lparr>m_mutex := True\<rparr>, w)) else x\<lparr>m_mutex := True\<rparr>)"
    and "w0 = (if m_initialized x then snd (rx_teardown (x\<lparr>m_mutex := True\<rparr>, w)) else w)"
  have refs: "vm_refs (x\<lparr>m_mutex := True\<rparr>) = vm_refs x" "block_refs (x\<lparr>m_mutex := True\<rparr>) = block_refs x"
    by (simp_all add: vm_refs_def block_refs_def)
  have x0: "m_vms x0 = []" "m_scratchpads x0 = []" "block_refs x0 = []" "\<not> m_initialized x0"
    using ok refs by (auto simp: x0_def teardown_rest teardown_eq instance_ok_def)
  have "owns R w0"
  proof (cases "m_initialized x")
    case True
    then show ?thesis using teardown_owns [of "x\<lparr>m_mutex := True\<rparr>" R w] owns refs by (simp add: w0_def)
  next
    case False
    then show ?thesis using owns ok by (auto simp: w0_def instance_ok_def vm_refs_Nil)
  qed
  moreover have "same_data w w0" using teardown_rest(3) by (simp add: w0_def same_data_refl)
  moreover obtain y v where body: "init_body orc seed threads algo h a g (x0, w0) = (b, y, v)" and x': "x' = y\<lparr>m_mutex := False\<rparr>" "w' = v"
    using run False free unfolding RxInstance_init_def x0_def w0_def
    by (cases "m_initialized x") (auto simp: Let_def split: prod.splits)
  ultimately have "init_result seed algo R (x0, w0) (b, y, v)" using init_body_ok [OF _ x0 orc, of R w0] body by metis
  then show ?thesis using \<open>same_data w w0\<close> x'
    by (auto simp: init_result_def op_result_def instance_ok_def own_config_def dataset_of_def vm_refs_def block_refs_def same_data_def)
qed

lemma release_ok:
  assumes "owns (vm_refs x @ block_refs x @ R) w" and "\<not> m_mutex x"
  shows "op_result R (x, w) (RxInstance_release (x, w))" and "vm_refs (fst (RxInstance_release (x, w))) = []"
    and "block_refs (fst (RxInstance_release (x, w))) = []" and "same_data w (snd (RxInstance_release (x, w)))"
  using assms teardown_owns [OF assms(1)] teardown_rest(1,2) [of x w] teardown_rest(3) [of w x]
  by (auto simp: RxInstance_release_def op_result_def instance_ok_def teardown_eq same_data_def)

lemma reinit_ok:
  assumes owns: "owns (vm_refs x @ block_refs x @ R) w" and ok: "instance_ok x w" and free: "\<not> m_mutex x" and orc: "vms_granted orc"
    and size: "dataset_size (w_currentConfig w) \<le> dataset_size (applyAlgoConfig (m_algo x))"
    and run: "RxInstance_reinit orc seed threads a (x, w) = (b, x', w')"
  shows "op_result R (x, w) (x', w') \<and> m_initialized x' = b \<and> (b \<longrightarrow> m_seedHash x' = seed) \<and> m_algo x' = m_algo x
    \<and> w_currentConfig w' = w_currentConfig w"
proof (cases "m_initialized x \<and> seed \<noteq> m_seedHash x")
  case False
  then have "(b, x', w') = (m_initialized x, x, w)" using run free by (auto simp: RxInstance_reinit_def split: if_splits)
  then show ?thesis using False owns ok free by (auto simp: op_result_def)
next
  case True
  obtain c d cm dm where x: "m_cache x = Some c" "m_dataset x = Some d" "m_cacheMemory x = Some cm" "m_datasetMemory x = Some dm"
    using ok True by (cases "m_datasetMemory x") (auto simp: instance_ok_def dataset_of_def)
  define y where "y = x\<lparr>m_vms := [], m_scratchpads := [], m_seedHash := seed, m_hardwareAES := a\<rparr>"
  define w1 where "w1 = fold rx_free (vm_refs x) w"
  have refs: "block_refs y = block_refs x" "vm_refs y = []" by (simp_all add: y_def block_refs_def vm_refs_def)
  have ow: "owns (block_refs y @ R) w1" using owns_free_all owns by (simp add: w1_def refs)
  have sd: "same_data w w1" by (simp add: w1_def same_data_free)
  have memory: "(c, K_cache) \<in> set (block_refs y @ R)" "(d, K_dataset) \<in> set (block_refs y @ R)"
    "(cm, block_kind (m_cacheAllocatedWithHugePages y) (m_cacheMemorySize y)) \<in> set (block_refs y @ R)"
    "(dm, block_kind (m_allocatedWithHugePages y) (m_datasetMemorySize y)) \<in> set (block_refs y @ R)"
    using x by (simp_all add: y_def block_refs_def)
  define w2 where "w2 = w1\<lparr>w_keyed := (w_keyed w1)(cm := Some (seed_bytes seed, w_currentConfig w1))\<rparr>"
  have cache: "rx_init_cache (seed_bytes seed) (y, w1) = (y, w2)"
    using rx_init_cache_ok [OF ow _ _ memory(1,3)] x by (simp add: y_def w2_def)
  define z where "z = y\<lparr>m_initialized := False\<rparr>"
  define w3 where "w3 = w2\<lparr>w_filled := (w_filled w2)(dm := w_keyed w2 cm)\<rparr>"
  have refsz: "block_refs z = block_refs y" "vm_refs z = []" by (simp_all add: z_def y_def block_refs_def vm_refs_def)
  have "dataset_size (w_currentConfig w2) \<le> m_datasetMemorySize z"
    using size ok True sd by (simp add: w2_def z_def y_def same_data_def instance_ok_def)
  then have data: "rx_init_dataset (z, w2) = (z, w3)"
    using rx_init_dataset_ok [of "block_refs y @ R" w2 z c cm d dm] memory ow x by (simp add: w3_def w2_def z_def y_def)
  have "owns (vm_refs z @ block_refs z @ R) w3" using ow refsz by (simp add: w3_def w2_def)
  from createVMs_owns [OF this _ _ orc, of threads] obtain x'' w''
    where vms: "createVMs orc threads (z, w3) = (True, x'', w'')" "owns (vm_refs x'' @ block_refs z @ R) w''" "same_blocks z x''" "same_data w3 w''"
    by (auto simp: z_def y_def)
  have res: "b" "x' = x''\<lparr>m_initialized := True\<rparr>" "w' = w''"
    using run True free x cache data vms(1) by (simp_all add: RxInstance_reinit_def destroyVMs_eq y_def z_def w1_def)
  have "dm \<notin> fst ` set R" using ow memory(4) x by (auto simp: owns_def block_refs_def y_def)
  then show ?thesis using vms(2,4) same_blocks_sel [OF vms(3)] res sd ok True x refsz refs free
    by (auto simp: op_result_def instance_ok_def dataset_of_def vm_refs_def block_refs_def same_data_def w3_def w2_def z_def y_def)
qed

end
