(* ===== verification/Rx_Instances.thy ===== *)
theory Rx_Instances
  imports Rx_Manager_Ok
begin

text \<open>
  The two RandomX instances together: in every sequence of the operations the miner performs (\<open>miner_op\<close>), whatever memory it
  is given for caches and datasets, and as long as machines can be created, nothing leaks, nothing is used after it was freed,
  and the user's dataset belongs to its seed and algorithm.  Then what the code does when a machine cannot be created, and when
  the two instances use different algorithms.
\<close>

section \<open>The manager's invariant\<close>

fun inst_refs :: "rx_instance option \<Rightarrow> (nat \<times> rx_kind) list" where
  "inst_refs None = []"
| "inst_refs (Some x) = vm_refs x @ block_refs x"

fun slot_ok :: "rx_instance option \<Rightarrow> rx_world \<Rightarrow> bool" where
  "slot_ok None w = True"
| "slot_ok (Some x) w = (instance_ok x w \<and> \<not> m_mutex x)"

fun other_slot :: "RxInstanceId \<Rightarrow> RxInstanceId" where
  "other_slot User = Dev"
| "other_slot Dev = User"

text \<open>What the miner asks for: it re-initialises only the developer's instance, which is always \<open>rx/0\<close>.\<close>

fun miner_op :: "rx_op \<Rightarrow> bool" where
  "miner_op (Op_init User seed n al h a g) = True"
| "miner_op (Op_init Dev seed n al h a g) = (al = RX_0)"
| "miner_op (Op_reinit rid seed n a) = (rid = Dev)"
| "miner_op (Op_release rid) = True"
| "miner_op Op_release_all = True"

definition manager_ok :: "rx_manager \<Rightarrow> bool" where
  "manager_ok M \<longleftrightarrow> owns (inst_refs (m_userInstance M) @ inst_refs (m_devInstance M)) (m_world M)
     \<and> slot_ok (m_userInstance M) (m_world M) \<and> slot_ok (m_devInstance M) (m_world M)
     \<and> (\<forall>x. m_userInstance M = Some x \<longrightarrow> own_config x (m_world M))
     \<and> (\<forall>x. m_devInstance M = Some x \<longrightarrow> m_initialized x \<longrightarrow> m_algo x = RX_0)
     \<and> dataset_size (w_currentConfig (m_world M)) \<le> dataset_size (applyAlgoConfig RX_0)"

lemmas all_configs = RandomX_ConfigurationWownero_def RandomX_ConfigurationArqma_def RandomX_ConfigurationEquilibria_def
  RandomX_ConfigurationGraft_def RandomX_ConfigurationSafex_def RandomX_ConfigurationScala_def RandomX_ConfigurationBase_def

lemma rx_0_largest: "dataset_size (applyAlgoConfig algo) \<le> dataset_size (applyAlgoConfig RX_0)"
  by (cases algo) (simp_all add: dataset_size_def all_configs Let_def)

lemma dataset_frame:
  assumes "\<forall>p\<in>fst ` set (inst_refs (Some y)). w_filled w' p = w_filled w p"
  shows "dataset_of y w' = dataset_of y w"
proof (cases "m_datasetMemory y")
  case (Some dm)
  then have "(dm, block_kind (m_allocatedWithHugePages y) (m_datasetMemorySize y)) \<in> set (inst_refs (Some y))"
    by (simp add: block_refs_def)
  with assms have "w_filled w' dm = w_filled w dm" by (metis fst_conv image_eqI)
  then show ?thesis using Some by (simp add: dataset_of_def)
qed (simp add: dataset_of_def)

lemma slot_frame:
  assumes "\<forall>p\<in>fst ` set (inst_refs s). w_filled w' p = w_filled w p"
  shows "slot_ok s w' = slot_ok s w" "\<forall>x. s = Some x \<longrightarrow> own_config x w' = own_config x w"
  using assms dataset_frame [of _ w' w] by (cases s; simp add: instance_ok_def own_config_def)+

lemma owns_append: "owns (A @ B) w = owns (B @ A) w"
  by (rule owns_mset) simp

lemma manager_refs_swap:
  "owns (inst_refs (m_userInstance M) @ inst_refs (m_devInstance M)) w
   = owns (inst_refs (rx_resolve rid M) @ inst_refs (rx_resolve (other_slot rid) M)) w"
  by (cases rid) (simp_all add: owns_append [of "inst_refs (m_userInstance M)"])

text \<open>Storing what an operation on one of the instances has left.\<close>

lemma manager_store:
  assumes M: "manager_ok M" and res: "op_result (inst_refs (rx_resolve (other_slot rid) M)) (x, m_world M) (x', w')"
    and user: "rid = User \<Longrightarrow> own_config x' w'" and dev: "rid = Dev \<Longrightarrow> m_initialized x' \<Longrightarrow> m_algo x' = RX_0"
    and cfg: "dataset_size (w_currentConfig w') \<le> dataset_size (applyAlgoConfig RX_0)"
  shows "manager_ok (rx_store rid (Some x') w' M)"
proof -
  have frame: "\<forall>p\<in>fst ` set (inst_refs (rx_resolve (other_slot rid) M)). w_filled w' p = w_filled (m_world M) p"
    and ow: "owns (inst_refs (Some x') @ inst_refs (rx_resolve (other_slot rid) M)) w'" and ok: "slot_ok (Some x') w'"
    using res by (simp_all add: op_result_def)
  note rest = slot_frame [OF frame]
  have "owns (inst_refs (m_userInstance (rx_store rid (Some x') w' M)) @ inst_refs (m_devInstance (rx_store rid (Some x') w' M))) w'"
    using ow by (cases rid) (simp_all add: owns_append [of "inst_refs (m_userInstance M)"])
  then show ?thesis using M rest ok user dev cfg by (cases rid) (simp_all add: manager_ok_def)
qed

section \<open>Every operation keeps it\<close>

lemma manager_ok_new: "manager_ok M \<Longrightarrow> rx_resolve rid M = None \<Longrightarrow> manager_ok (rx_store rid (Some new_rx_instance) (m_world M) M)"
  by (cases rid) (auto simp: manager_ok_def new_rx_instance_def instance_ok_def own_config_def vm_refs_def block_refs_def)

lemma manager_slot:
  assumes "manager_ok M" and "rx_resolve rid M = Some x"
  shows "owns (vm_refs x @ block_refs x @ inst_refs (rx_resolve (other_slot rid) M)) (m_world M)" "instance_ok x (m_world M)" "\<not> m_mutex x"
    "rid = User \<Longrightarrow> own_config x (m_world M)" "rid = Dev \<Longrightarrow> m_initialized x \<Longrightarrow> m_algo x = RX_0"
    "dataset_size (w_currentConfig (m_world M)) \<le> dataset_size (applyAlgoConfig RX_0)"
proof -
  have "owns (inst_refs (rx_resolve rid M) @ inst_refs (rx_resolve (other_slot rid) M)) (m_world M)"
    using assms(1) manager_refs_swap [of M "m_world M" rid] by (simp add: manager_ok_def)
  then show "owns (vm_refs x @ block_refs x @ inst_refs (rx_resolve (other_slot rid) M)) (m_world M)" using assms(2) by simp
  have "slot_ok (rx_resolve rid M) (m_world M)" using assms(1) by (cases rid) (simp_all add: manager_ok_def)
  then show "instance_ok x (m_world M)" "\<not> m_mutex x" using assms(2) by simp_all
qed (use assms in \<open>simp_all add: manager_ok_def\<close>)

lemma manager_store_same: "rx_resolve rid M = Some x \<Longrightarrow> rx_store rid (Some x) (m_world M) M = M"
  by (cases rid) simp_all

lemma manager_store_again: "rx_store rid x w (rx_store rid y v M) = rx_store rid x w M"
  by (cases rid) simp_all

lemma manager_resolve_store [simp]:
  "rx_resolve rid (rx_store rid x w M) = x" "m_world (rx_store rid x w M) = w"
  "rx_resolve (other_slot rid) (rx_store rid x w M) = rx_resolve (other_slot rid) M"
  by (cases rid; simp)+

lemma RandomX_init_ok:
  assumes M: "manager_ok M" and orc: "vms_granted orc" and dev: "rid = Dev \<Longrightarrow> algo = RX_0"
    and run: "RandomX_init orc rid seed threads algo h a g M = (b, M')"
  shows "manager_ok M' \<and> rx_resolve (other_slot rid) M' = rx_resolve (other_slot rid) M
    \<and> (\<exists>x. rx_resolve rid M' = Some x \<and> m_initialized x = b \<and> m_seedHash x = seed \<and> m_algo x = algo)
    \<and> (rx_resolve rid M = None \<longrightarrow> w_currentConfig (m_world M') = applyAlgoConfig algo)"
proof -
  define x where "x = (case rx_resolve rid M of None \<Rightarrow> new_rx_instance | Some x \<Rightarrow> x)"
  define N where "N = rx_store rid (Some x) (m_world M) M"
  have N: "manager_ok N" "rx_resolve rid N = Some x" "m_world N = m_world M" "rx_resolve (other_slot rid) N = rx_resolve (other_slot rid) M"
    using M manager_ok_new [of M rid] manager_store_same [of rid M] by (cases "rx_resolve rid M"; simp add: N_def x_def)+
  obtain x' w' where i: "RxInstance_init orc seed threads algo h a g (x, m_world N) = (b, x', w')" and M': "M' = rx_store rid (Some x') w' N"
    using run N(3) by (auto simp: RandomX_init_def x_def [symmetric] N_def manager_store_again split: prod.splits)
  note slot = manager_slot [OF N(1,2)]
  note res = init_ok [OF slot(1-3) orc i]
  have "manager_ok M'" unfolding M'
    by (rule manager_store [OF N(1)]) (use res slot dev rx_0_largest [of algo] in auto)
  moreover have "rx_resolve rid M = None \<Longrightarrow> \<not> m_initialized x" by (simp add: x_def new_rx_instance_def)
  ultimately show ?thesis using res N(4) by (simp add: M')
qed

lemma RandomX_reinit_ok:
  assumes M: "manager_ok M" and orc: "vms_granted orc" and dev: "rid = Dev"
  shows "manager_ok (snd (RandomX_reinit orc rid seed threads a M))"
proof (cases "rx_resolve rid M")
  case (Some x)
  obtain b x' w' where i: "RxInstance_reinit orc seed threads a (x, m_world M) = (b, x', w')" by (metis prod_cases3)
  note slot = manager_slot [OF M Some]
  show ?thesis
  proof (cases "m_initialized x")
    case True
    then have "dataset_size (w_currentConfig (m_world M)) \<le> dataset_size (applyAlgoConfig (m_algo x))" using slot dev by simp
    note res = reinit_ok [OF slot(1-3) orc this i]
    have "manager_ok (rx_store rid (Some x') w' M)"
      by (rule manager_store [OF M]) (use res slot dev True in auto)
    then show ?thesis by (simp add: RandomX_reinit_def Some i)
  next
    case False
    then have "RandomX_reinit orc rid seed threads a M = (False, rx_store rid (Some x) (m_world M) M)"
      using slot(3) by (simp add: RandomX_reinit_def RxInstance_reinit_def Some)
    then show ?thesis using M manager_store_same [OF Some] by simp
  qed
qed (use M in \<open>simp add: RandomX_reinit_def\<close>)

lemma RandomX_release_ok:
  assumes M: "manager_ok M"
  shows "manager_ok (RandomX_release rid M) \<and> rx_resolve rid (RandomX_release rid M) = None
    \<and> rx_resolve (other_slot rid) (RandomX_release rid M) = rx_resolve (other_slot rid) M"
proof (cases "rx_resolve rid M")
  case (Some x)
  note slot = manager_slot [OF M Some]
  obtain y v where r1: "RxInstance_release (x, m_world M) = (y, v)" by fastforce
  obtain z u where r2: "RxInstance_release (y, v) = (z, u)" by fastforce
  note one = release_ok [OF slot(1,3), unfolded r1]
  have y: "owns (vm_refs y @ block_refs y @ inst_refs (rx_resolve (other_slot rid) M)) v" "\<not> m_mutex y"
    using one by (simp_all add: op_result_def)
  note two = release_ok [OF y, unfolded r2]
  have "owns (inst_refs (rx_resolve (other_slot rid) M)) u" "same_data (m_world M) u"
    using two one same_data_trans by (auto simp: op_result_def)
  moreover have "RandomX_release rid M = rx_store rid None u M" by (simp add: RandomX_release_def Some r1 r2)
  moreover have "slot_ok s u = slot_ok s (m_world M)" "\<forall>x. s = Some x \<longrightarrow> own_config x u = own_config x (m_world M)"
    "w_currentConfig u = w_currentConfig (m_world M)" if "same_data (m_world M) u" for s
    using that slot_frame [of s u "m_world M"] by (simp_all add: same_data_def)
  ultimately show ?thesis using M by (cases rid) (simp_all add: manager_ok_def)
qed (use M in \<open>simp add: RandomX_release_def\<close>)

lemma op_keeps_ok:
  assumes "manager_ok M" and "vms_granted orc" and "miner_op p"
  shows "manager_ok (rx_op_run orc p M)"
  using assms(3)
proof (cases p)
  case (Op_init rid seed n al h a g)
  obtain b M' where r: "RandomX_init orc rid seed n al h a g M = (b, M')" by fastforce
  have "rid = Dev \<Longrightarrow> al = RX_0" using assms(3) Op_init by simp
  from RandomX_init_ok [OF assms(1,2) this r] show ?thesis by (simp add: Op_init r)
qed (use assms RandomX_reinit_ok RandomX_release_ok in \<open>auto simp: RandomX_release_all_def\<close>)

definition miner_run :: "rx_oracle \<Rightarrow> rx_op list \<Rightarrow> rx_manager" where
  "miner_run orc ops = fold (rx_op_run orc) ops rx_start"

lemma manager_ok_start: "manager_ok rx_start"
  by (simp add: manager_ok_def rx_start_def owns_def)

lemma miner_run_ok: "vms_granted orc \<Longrightarrow> list_all miner_op ops \<Longrightarrow> manager_ok (miner_run orc ops)"
proof (induction ops rule: rev_induct)
  case (snoc p ops)
  then show ?case using op_keeps_ok by (simp add: miner_run_def)
qed (simp add: miner_run_def manager_ok_start)

section \<open>Properties\<close>


text \<open>Large pages are refused; the user mines, the pool changes the seed, the developer's instance comes up and changes too.\<close>

definition demo_oracle :: rx_oracle where
  "demo_oracle n q = (case q of Ask_pages sz \<Rightarrow> False | _ \<Rightarrow> True)"

definition demo_ops :: "rx_op list" where
  "demo_ops = [Op_init User ''00ff'' 2 RX_WOW True True True, Op_init User ''01ff'' 2 RX_WOW True True True,
     Op_init Dev ''02ff'' 1 RX_0 True True True, Op_reinit Dev ''03ff'' 1 True, Op_release User]"

lemma demo_ok: "vms_granted demo_oracle" "list_all miner_op demo_ops"
  by (simp_all add: vms_granted_def demo_oracle_def demo_ops_def)


text \<open>C38: when memory is granted but a machine cannot be created, the first \<open>init\<close> of an instance never returns:
  it calls \<open>release\<close>, which locks the mutex that \<open>init\<close> already holds.\<close>

theorem refused_machine_deadlocks:
  assumes "\<forall>n q. orc n q = (q \<noteq> Ask_vm)" and "0 < threads"
  shows "w_fault (m_world (snd (RandomX_init orc rid seed threads algo h a g rx_start))) = Some Self_deadlock"
proof -
  obtain n where n: "threads = Suc n" using assms(2) gr0_conv_Suc by blast
  have create: "createVMs orc threads (x, w) = (b, y, v) \<Longrightarrow> \<not> b \<and> w_fault v = w_fault w \<and> m_mutex y = m_mutex x" for x w b y v
    using assms(1) by (auto simp: createVMs_def n rx_try_def rx_new_def Let_def)
  have finish: "w_fault (snd (snd (finish_init orc threads u (x, w)))) = Some Self_deadlock"
    if "m_mutex x" and "w_fault (snd (rx_init_dataset (x\<lparr>m_allocatedWithHugePages := u\<rparr>, w))) = None" for u x w
  proof -
    obtain y v where fill: "rx_init_dataset (x\<lparr>m_allocatedWithHugePages := u\<rparr>, w) = (y, v)" by fastforce
    then have "m_mutex y" using that(1) by (auto simp: rx_init_dataset_def Let_def split: option.splits)
    moreover obtain b z t where c: "createVMs orc threads (y, v) = (b, z, t)" by (metis prod_cases3)
    ultimately show ?thesis using create [OF c] that(2) fill
      by (simp add: finish_init_def RxInstance_release_def rx_fail_def)
  qed
  have aligned: "\<not> (1073741823 + sz) div 1073741824 * 1073741824 < sz" for sz :: nat
    using div_mult_mod_eq [of "1073741823 + sz" 1073741824] mod_less_divisor [of 1073741824 "1073741823 + sz"] by linarith
  show ?thesis
    apply (cases rid; cases h; cases g)
    apply (simp_all add: assms(1) RandomX_init_def rx_start_def new_rx_instance_def RxInstance_init_def
      init_body_def alloc_cache_memory_def rx_try_def rx_new_def dataset_part_def alloc_dataset_memory_def rx_init_cache_def
      rx_touch_def block_kind_def Let_def)
    apply (simp_all add: case_prod_beta finish rx_init_dataset_def rx_touch_def aligned)
    done
qed

theorem refused_machine_deadlocks_witness:
  "w_fault (m_world (snd (RandomX_init (\<lambda>n q. q \<noteq> Ask_vm) User ''00ff'' 2 RX_WOW True True False rx_start))) = Some Self_deadlock"
  by (rule refused_machine_deadlocks) simp_all

text \<open>C37: the miner prepares the developer's instance right after the user's, and \<open>RandomX_CurrentConfig\<close> is
  global.  When the user's algorithm is not \<open>rx/0\<close>, the user's instance remains valid for its seed, with a dataset and
  machines made under its own configuration, but the configuration in force is that of \<open>rx/0\<close>.\<close>

theorem developer_instance_changes_configuration:
  assumes "vms_granted orc" and "list_all miner_op ops" and "miner_run orc ops = M" and "m_devInstance M = None" and "algo \<noteq> RX_0"
    and "RandomX_init orc User seed threads algo h a g M = (True, M1)"
    and "RandomX_init orc Dev seed threads RX_0 h a g M1 = (True, M2)"
  shows "RandomX_isSeedValid User seed M2 \<and> m_userInstance M2 = m_userInstance M1
    \<and> dataset_of (the (m_userInstance M2)) (m_world M2) = Some (seed_bytes seed, applyAlgoConfig algo)
    \<and> w_currentConfig (m_world M2) \<noteq> applyAlgoConfig algo"
proof -
  have M: "manager_ok M" using miner_run_ok [OF assms(1,2)] assms(3) by simp
  note one = RandomX_init_ok [OF M assms(1) _ assms(6)]
  have M1: "manager_ok M1" "rx_resolve Dev M1 = None" "\<exists>x. m_userInstance M1 = Some x \<and> m_initialized x \<and> m_seedHash x = seed \<and> m_algo x = algo"
    using one assms(4) by auto
  note two = RandomX_init_ok [OF M1(1) assms(1) _ assms(7)]
  have M2: "manager_ok M2" "m_userInstance M2 = m_userInstance M1" "w_currentConfig (m_world M2) = applyAlgoConfig RX_0"
    using two M1(2) by auto
  have "applyAlgoConfig algo \<noteq> applyAlgoConfig RX_0"
    using assms(5) by (cases algo) (simp_all add: all_configs Let_def)
  then show ?thesis using M1(3) M2
    by (auto simp: manager_ok_def own_config_def RandomX_isSeedValid_def isValidForSeed_def)
qed

lemma demo_init:
  "fst (RandomX_init demo_oracle User ''00ff'' 1 RX_WOW False True False rx_start)"
  "fst (RandomX_init demo_oracle Dev ''00ff'' 1 RX_0 False True False
     (snd (RandomX_init demo_oracle User ''00ff'' 1 RX_WOW False True False rx_start)))"
  by (simp_all add: demo_oracle_def RandomX_init_def rx_start_def new_rx_instance_def RxInstance_init_def
      init_body_def alloc_cache_memory_def rx_try_def rx_new_def dataset_part_def alloc_dataset_memory_def rx_init_cache_def
      rx_touch_def block_kind_def finish_init_def rx_init_dataset_def createVMs_def resize_def)

theorem developer_instance_changes_configuration_witness:
  "\<exists>M1 M2. RandomX_init demo_oracle User ''00ff'' 1 RX_WOW False True False rx_start = (True, M1)
     \<and> RandomX_init demo_oracle Dev ''00ff'' 1 RX_0 False True False M1 = (True, M2)
     \<and> RandomX_isSeedValid User ''00ff'' M2 \<and> w_currentConfig (m_world M2) \<noteq> applyAlgoConfig RX_WOW"
proof -
  obtain M1 where M1: "RandomX_init demo_oracle User ''00ff'' 1 RX_WOW False True False rx_start = (True, M1)"
    using demo_init(1) by (metis prod.collapse)
  moreover obtain M2 where M2: "RandomX_init demo_oracle Dev ''00ff'' 1 RX_0 False True False M1 = (True, M2)"
    using demo_init(2) M1 by (metis prod.collapse snd_conv)
  moreover have "miner_run demo_oracle [] = rx_start" "m_devInstance rx_start = None" by (simp_all add: miner_run_def rx_start_def)
  ultimately show ?thesis
    using developer_instance_changes_configuration [of demo_oracle "[]", OF demo_ok(1) _ _ _ _ M1 M2] by auto
qed

end
