(* ===== verification/Rx_Granted.thy ===== *)
theory Rx_Granted
  imports Rx_Instances
begin

text \<open>
  Initialisation when every allocation is granted: it succeeds and every thread gets a machine; and what
  becomes of the memory of the instance it replaces.
\<close>

definition granted :: "rx_oracle \<Rightarrow> bool" where
  "granted orc \<longleftrightarrow> (\<forall>n q. orc n q)"

lemma granted_vms: "granted orc \<Longrightarrow> vms_granted orc"
  by (simp add: granted_def vms_granted_def)

lemma granted_try:
  "granted orc \<Longrightarrow> rx_try orc q k w = (Some (w_next w), snd (rx_new k (w\<lparr>w_asked := w_asked w + 1\<rparr>)))"
  by (simp add: granted_def rx_try_def rx_new_def Let_def)

definition machines_ok :: "nat \<Rightarrow> rx_instance \<Rightarrow> bool" where
  "machines_ok n x \<longleftrightarrow> length (m_vms x) = n \<and> (\<forall>i<n. m_vms x ! i \<noteq> None)"

lemma createVMs_from_granted:
  assumes "granted orc" and "i + n = length (m_vms x)" and "\<forall>j<i. m_vms x ! j \<noteq> None"
  shows "\<exists>x' w'. createVMs_from orc i n (x, w) = (True, x', w') \<and> machines_ok (length (m_vms x)) x'"
  using assms(2,3)
proof (induction n arbitrary: i x w)
  case (Suc n)
  obtain sp w1 where sp: "rx_new K_scratchpad w = (sp, w1)" by fastforce
  define x' where "x' = x\<lparr>m_scratchpads := (m_scratchpads x)[i := Some sp], m_vms := (m_vms x)[i := Some (w_next w1)]\<rparr>"
  have "\<forall>j<Suc i. m_vms x' ! j \<noteq> None" using Suc.prems by (auto simp: x'_def nth_list_update less_Suc_eq)
  from Suc.IH [of "Suc i" x', OF _ this] Suc.prems(1) show ?case
    by (simp add: sp granted_try [OF assms(1)] x'_def)
qed (simp add: machines_ok_def)

lemma finish_init_granted:
  assumes "granted orc"
  shows "\<exists>x' w'. finish_init orc n u (x, w) = (True, x', w') \<and> machines_ok n x'"
proof -
  obtain y v where fill: "rx_init_dataset (x\<lparr>m_allocatedWithHugePages := u\<rparr>, w) = (y, v)" by fastforce
  define z where "z = y\<lparr>m_vms := resize (m_vms y) n None, m_scratchpads := resize (m_scratchpads y) n None\<rparr>"
  have "length (m_vms z) = n" by (simp add: z_def resize_def)
  from createVMs_from_granted [OF assms, of 0 n z v] this show ?thesis
    by (auto simp: finish_init_def fill createVMs_def z_def machines_ok_def)
qed

lemma dataset_part_granted:
  assumes "granted orc" and "m_datasetMemory x = None"
  shows "\<exists>x' w'. dataset_part orc n u g (x, w) = (True, x', w') \<and> machines_ok n x'"
proof -
  obtain u' x1 w1 where al: "alloc_dataset_memory orc u g (x, w) = (u', x1, w1)" by (metis prod_cases3)
  then have "m_datasetMemory x1 \<noteq> None" using assms(2)
    by (auto simp: alloc_dataset_memory_def granted_try [OF assms(1)] Let_def split: if_splits)
  then show ?thesis using finish_init_granted [OF assms(1)] by (auto simp: dataset_part_def al rx_new_def)
qed

lemma init_body_granted:
  assumes "granted orc" and "m_datasetMemory x = None" and "m_cacheMemory x = None"
  shows "\<exists>x' w'. init_body orc seed n algo h a g (x, w) = (True, x', w') \<and> machines_ok n x'"
proof -
  define x0 w0 where "x0 = x\<lparr>m_seedHash := seed, m_hugePages := h, m_hardwareAES := a, m_algo := algo\<rparr>"
    and "w0 = w\<lparr>w_currentConfig := applyAlgoConfig algo\<rparr>"
  obtain u x1 w1 where al: "alloc_cache_memory orc h (x0, w0) = (u, x1, w1)" by (metis prod_cases3)
  then obtain cm where cm: "m_cacheMemory x1 = Some cm" and dm: "m_datasetMemory x1 = None" using assms(2,3)
    by (auto simp: alloc_cache_memory_def granted_try [OF assms(1)] Let_def x0_def split: if_splits)
  obtain c w2 where cr: "rx_try orc Ask_cache K_cache w1 = (Some c, w2)" by (simp add: granted_try [OF assms(1)])
  define x2 where "x2 = x1\<lparr>m_cacheAllocatedWithHugePages := u, m_cache := Some c\<rparr>"
  obtain x3 w3 where ini: "rx_init_cache (seed_bytes seed) (x2, w2) = (x3, w3)" by fastforce
  then have "x3 = x2" by (auto simp: rx_init_cache_def Let_def split: option.splits)
  moreover have "init_body orc seed n algo h a g (x, w) = dataset_part orc n u g (x3, w3)"
    using ini by (simp add: init_body_def x0_def [symmetric] w0_def [symmetric] al cm cr x2_def)
  ultimately show ?thesis using dataset_part_granted [OF assms(1)] dm by (simp add: x2_def)
qed

text \<open>\<open>init\<close> of an instance that is not valid for the seed and algorithm.\<close>

lemma init_granted:
  assumes "granted orc" and "\<not> m_mutex x" and "instance_ok x w" and "\<not> (m_initialized x \<and> m_seedHash x = seed \<and> m_algo x = algo)"
  shows "\<exists>x' w'. RxInstance_init orc seed n algo h a g (x, w) = (True, x', w') \<and> machines_ok n x'"
proof -
  define xw where "xw = (if m_initialized x then rx_teardown (x\<lparr>m_mutex := True\<rparr>, w) else (x\<lparr>m_mutex := True\<rparr>, w))"
  have "block_refs (fst xw) = []"
    using assms(3) teardown_eq(3) by (auto simp: xw_def instance_ok_def block_refs_def)
  then have "m_datasetMemory (fst xw) = None" "m_cacheMemory (fst xw) = None" by (simp_all add: block_refs_None)
  from init_body_granted [OF assms(1) this, of seed n algo h a g "snd xw"] show ?thesis
    using assms(2,4) by (auto simp: RxInstance_init_def xw_def [symmetric] machines_ok_def)
qed

section \<open>What is gone stays gone\<close>

definition gone :: "nat \<Rightarrow> rx_world \<Rightarrow> bool" where
  "gone p w \<longleftrightarrow> w_live w p = None \<and> p < w_next w"

lemma gone_simps [simp]:
  "gone p (w\<lparr>w_asked := n\<rparr>) = gone p w" "gone p (w\<lparr>w_keyed := f\<rparr>) = gone p w" "gone p (w\<lparr>w_filled := f\<rparr>) = gone p w"
  "gone p (w\<lparr>w_currentConfig := c\<rparr>) = gone p w" "gone p (rx_fail e w) = gone p w" "gone p (rx_touch q w) = gone p w"
  by (simp_all add: gone_def rx_fail_def rx_touch_def)

lemma gone_free: "gone p w \<Longrightarrow> gone p (rx_free q w)"
  by (auto simp: gone_def rx_free_def rx_fail_def)

lemma gone_free_all: "gone p w \<Longrightarrow> gone p (fold rx_free L w)"
  by (induction L arbitrary: w) (simp_all add: gone_free)

lemma next_free_all: "w_next (fold rx_free L w) = w_next w"
  by (induction L arbitrary: w) (simp_all add: rx_free_def rx_fail_def)

lemma gone_free_opt: "gone p w \<Longrightarrow> gone p (free_opt v k w)"
  by (cases v) (simp_all add: gone_free)

lemma gone_new: "rx_new k w = (q, w') \<Longrightarrow> gone p w \<Longrightarrow> gone p w'"
  by (auto simp: rx_new_def gone_def)

lemma gone_try: "rx_try orc r k w = (v, w') \<Longrightarrow> gone p w \<Longrightarrow> gone p w'"
  by (auto simp: rx_try_def rx_new_def gone_def Let_def split: if_splits)

lemma gone_createVMs_from: "createVMs_from orc i n (x, w) = (b, x', w') \<Longrightarrow> gone p w \<Longrightarrow> gone p w'"
proof (induction n arbitrary: i x w)
  case (Suc n)
  obtain sp w1 where sp: "rx_new K_scratchpad w = (sp, w1)" by fastforce
  obtain v w2 where vm: "rx_try orc Ask_vm K_vm w1 = (v, w2)" by fastforce
  have "gone p w2" using gone_try [OF vm] gone_new [OF sp] Suc.prems(2) by blast
  then show ?case using Suc.prems(1) Suc.IH by (auto simp: sp vm Let_def split: if_splits)
qed simp

lemma gone_init_dataset: "rx_init_dataset (x, w) = (x', w') \<Longrightarrow> gone p w \<Longrightarrow> gone p w'"
  by (auto simp: rx_init_dataset_def Let_def split: option.splits if_splits)

lemma gone_init_cache: "rx_init_cache seed (x, w) = (x', w') \<Longrightarrow> gone p w \<Longrightarrow> gone p w'"
  by (auto simp: rx_init_cache_def Let_def split: option.splits)

lemma gone_teardown: "gone p w \<Longrightarrow> gone p (snd (rx_teardown (x, w)))"
  by (simp add: teardown_eq gone_free_all)

lemma gone_finish_init:
  assumes "finish_init orc n u (x, w) = (b, x', w')" and "gone p w"
  shows "gone p w'"
proof -
  obtain y v where fill: "rx_init_dataset (x\<lparr>m_allocatedWithHugePages := u\<rparr>, w) = (y, v)" by fastforce
  obtain c z t where vms: "createVMs orc n (y, v) = (c, z, t)" by (metis prod_cases3)
  have "gone p t" using gone_createVMs_from vms gone_init_dataset [OF fill assms(2)] by (auto simp: createVMs_def)
  then show ?thesis using assms(1) gone_teardown [of p t z]
    by (auto simp: finish_init_def fill vms RxInstance_release_def split: if_splits)
qed

lemma gone_dataset_part:
  assumes "dataset_part orc n u g (x, w) = (b, x', w')" and "gone p w"
  shows "gone p w'"
proof -
  obtain u' y v where al: "alloc_dataset_memory orc u g (x, w) = (u', y, v)" by (metis prod_cases3)
  then have "gone p v" using assms(2)
    by (auto simp: alloc_dataset_memory_def Let_def split: if_splits prod.splits dest: gone_try)
  then show ?thesis using assms(1)
    by (auto simp: dataset_part_def al Let_def split: option.splits prod.splits dest: gone_new gone_finish_init intro: gone_free_opt)
qed

lemma gone_init_body:
  assumes "init_body orc seed n algo h a g (x, w) = (b, x', w')" and "gone p w"
  shows "gone p w'"
proof -
  define x0 w0 where "x0 = x\<lparr>m_seedHash := seed, m_hugePages := h, m_hardwareAES := a, m_algo := algo\<rparr>"
    and "w0 = w\<lparr>w_currentConfig := applyAlgoConfig algo\<rparr>"
  obtain u x1 w1 where al: "alloc_cache_memory orc h (x0, w0) = (u, x1, w1)" by (metis prod_cases3)
  have "gone p w1" using al assms(2)
    by (auto simp: alloc_cache_memory_def Let_def w0_def split: if_splits prod.splits dest: gone_try)
  moreover obtain c w2 where cr: "rx_try orc Ask_cache K_cache w1 = (c, w2)" by fastforce
  moreover obtain x3 w3 where ini: "rx_init_cache (seed_bytes seed) (x1\<lparr>m_cacheAllocatedWithHugePages := u, m_cache := c\<rparr>, w2) = (x3, w3)"
    by fastforce
  ultimately have "gone p w1" "gone p w2" "gone p w3" using gone_try gone_init_cache by blast+
  then show ?thesis using assms(1)
    by (auto simp: init_body_def x0_def [symmetric] w0_def [symmetric] al cr ini Let_def split: option.splits if_splits
        dest: gone_dataset_part intro: gone_free_opt gone_free)
qed

lemma gone_init:
  assumes "RxInstance_init orc seed n algo h a g (x, w) = (b, x', w')" and "gone p w"
  shows "gone p w'"
proof -
  obtain x1 w1 where td: "rx_teardown (x\<lparr>m_mutex := True\<rparr>, w) = (x1, w1)" by fastforce
  then have "gone p w1" using gone_teardown [OF assms(2), of "x\<lparr>m_mutex := True\<rparr>"] by simp
  then show ?thesis using assms
    by (cases "m_initialized x") (auto simp: RxInstance_init_def td Let_def split: if_splits prod.splits dest: gone_init_body)
qed

lemma owns_disjoint: "owns (A @ B) w \<Longrightarrow> q \<in> set A \<Longrightarrow> fst q \<notin> fst ` set B"
  unfolding owns_def map_append distinct_append by (metis IntI emptyE image_eqI list.set_map)

lemma owns_next: "owns L w \<Longrightarrow> q \<in> set L \<Longrightarrow> fst q < w_next w"
  unfolding owns_def by blast

text \<open>The machines of an instance that is initialised anew are gone.\<close>

lemma init_replaces_machines:
  assumes owns: "owns (vm_refs x @ block_refs x @ R) w" and new: "\<not> (m_initialized x \<and> m_seedHash x = seed \<and> m_algo x = algo)"
    and ok: "instance_ok x w" and free: "\<not> m_mutex x"
    and run: "RxInstance_init orc seed n algo h a g (x, w) = (b, x', w')" and p: "(p, K_vm) \<in> set (vm_refs x)"
  shows "gone p w'"
proof -
  have init: "m_initialized x" using ok p by (auto simp: instance_ok_def vm_refs_Nil)
  define y where "y = x\<lparr>m_mutex := True\<rparr>"
  have init_y: "m_initialized y" using init by (simp add: y_def)
  obtain x1 w1 where td: "rx_teardown (y, w) = (x1, w1)" by fastforce
  have y: "vm_refs y = vm_refs x" "block_refs y = block_refs x" by (simp_all add: y_def vm_refs_def block_refs_def)
  have "owns R w1" using teardown_owns [of y R w] owns td y by simp
  moreover have "p \<notin> fst ` set R" using owns_disjoint [OF owns p] by auto
  moreover have "w_next w1 = w_next w" using teardown_eq(1) [of y w] td next_free_all by simp
  moreover have "p < w_next w" using owns_next [OF owns, of "(p, K_vm)"] p by simp
  ultimately have "gone p w1" unfolding gone_def owns_def by (cases "w_live w1 p") (auto simp: image_iff)
  moreover obtain c z v where body: "init_body orc seed n algo h a g (x1, w1) = (c, z, v)" by (metis prod_cases3)
  ultimately have "gone p v" using gone_init_body by blast
  moreover have "w' = v" using run init new free td body init_y by (auto simp: RxInstance_init_def y_def [symmetric] Let_def split: if_splits)
  ultimately show ?thesis by simp
qed

section \<open>The manager\<close>

lemma RandomX_init_gone: "RandomX_init orc rid seed n algo h a g M = (b, M') \<Longrightarrow> gone p (m_world M) \<Longrightarrow> gone p (m_world M')"
  by (auto simp: RandomX_init_def Let_def split: prod.splits dest: gone_init)

lemma RandomX_init_granted:
  assumes "granted orc" and M: "manager_ok M" and "rid = Dev \<Longrightarrow> algo = RX_0"
    and new: "\<forall>x. rx_resolve rid M = Some x \<longrightarrow> \<not> (m_initialized x \<and> m_seedHash x = seed \<and> m_algo x = algo)"
  shows "\<exists>M' y. RandomX_init orc rid seed n algo h a g M = (True, M') \<and> rx_resolve rid M' = Some y \<and> machines_ok n y
    \<and> (\<forall>x p. rx_resolve rid M = Some x \<longrightarrow> Some p \<in> set (m_vms x) \<longrightarrow> gone p (m_world M'))"
proof -
  define x where "x = (case rx_resolve rid M of None \<Rightarrow> new_rx_instance | Some x \<Rightarrow> x)"
  have x: "\<not> m_mutex x" "instance_ok x (m_world M)" "\<not> (m_initialized x \<and> m_seedHash x = seed \<and> m_algo x = algo)"
    using manager_slot(2,3) [OF M] new
    by (auto simp: x_def new_rx_instance_def instance_ok_def block_refs_def split: option.splits)
  from init_granted [OF assms(1) this, of n h a g] obtain y w' where
    i: "RxInstance_init orc seed n algo h a g (x, m_world M) = (True, y, w')" and y: "machines_ok n y" by blast
  have run: "RandomX_init orc rid seed n algo h a g M = (True, rx_store rid (Some y) w' M)"
    by (simp add: RandomX_init_def x_def [symmetric] i)
  have "gone p w'" if "rx_resolve rid M = Some z" "Some p \<in> set (m_vms z)" for z p
  proof -
    have z: "z = x" using that(1) by (simp add: x_def)
    moreover have "(p, K_vm) \<in> set (vm_refs z)" using that(2) by (force simp: vm_refs_def)
    ultimately show ?thesis
      using init_replaces_machines [OF manager_slot(1) [OF M that(1)], of seed algo orc n h a g True y w' p] x i by simp
  qed
  then show ?thesis using run y by simp
qed

lemma RandomX_init_succeeds:
  assumes "granted orc" and M: "manager_ok M" and "rid = Dev \<Longrightarrow> algo = RX_0"
  shows "\<exists>M'. RandomX_init orc rid seed n algo h a g M = (True, M')"
proof (cases "\<exists>x. rx_resolve rid M = Some x \<and> m_initialized x \<and> m_seedHash x = seed \<and> m_algo x = algo")
  case True
  then show ?thesis using manager_slot(3) [OF M] by (auto simp: RandomX_init_def RxInstance_init_def)
next
  case False
  then show ?thesis using RandomX_init_granted [OF assms] by blast
qed

end
