(* ===== verification/Miner.thy ===== *)
theory Miner
  imports Rx_Manager
begin

text \<open>
  \<open>Miner.cpp\<close>: jobs of the two pools, the developer's share of the time, routing of shares, and the thread that
  initialises RandomX.  An event is one call of a client thread, one pass of the timer thread, one of the two
  halves of a pass of \<open>rxInitLoop\<close> (initialise; then resume), or one look of a worker at its job.  Each runs under
  \<open>m_jobMutex\<close> or touches no shared field, and \<open>onJob\<close> waits for paused workers (the protocol of \<open>Worker_Sync\<close>), so
  that events are atomic.  Times are nanoseconds of the steady clock.
\<close>

section \<open>State\<close>

record miner_config =
  cf_rxAlgo :: RxAlgo
  cf_algoThreads :: "RxAlgo \<Rightarrow> nat option"
  cf_hugePagesEnabled :: bool
  cf_oneGbHugePagesEnabled :: bool

definition threadsForAlgo :: "miner_config \<Rightarrow> RxAlgo \<Rightarrow> nat" where
  "threadsForAlgo cf algo = (case cf_algoThreads cf algo of Some n \<Rightarrow> n | None \<Rightarrow> 1)"

record rx_init_request =
  rq_job :: job
  rq_algo :: RxAlgo
  rq_threadCount :: nat
  rq_needRecreateWorkers :: bool

text \<open>A worker and its \<open>m_paused\<close>; its machine is the address \<open>getVM\<close> returned.\<close>

record slot =
  sl_worker :: "(nat, bytes) worker"
  sl_paused :: bool

text \<open>\<open>mi_initRunning\<close> is the request \<open>rxInitLoop\<close> works on, with the outcome of its initialisation.\<close>

record miner =
  mi_running :: bool
  mi_workers :: "slot list"
  mi_rx :: rx_manager
  mi_ready :: bool
  mi_currentDiff :: u64
  mi_currentJob :: job
  mi_devJob :: job
  mi_rxInitialized :: bool
  mi_currentAlgo :: RxAlgo
  mi_jobSequence :: u64
  mi_droppedShares :: u64
  mi_poolDisconnected :: bool
  mi_devFeeActive :: bool
  mi_devFeeEnabled :: bool
  mi_devFeeStart :: nat
  mi_userMiningSeconds :: nat
  mi_lastDevFeeCheck :: nat
  mi_devJobReady :: bool
  mi_pending :: "rx_init_request option"
  mi_initRunning :: "(rx_init_request \<times> bool) option"

abbreviation (input) "DEV_FEE_INTERVAL \<equiv> (5940 :: nat)"
abbreviation (input) "DEV_FEE_DURATION \<equiv> (60 :: nat)"

text \<open>\<open>duration_cast<seconds>\<close>.\<close>

definition seconds :: "nat \<Rightarrow> nat" where
  "seconds d = d div 1000000000"

definition new_workers :: "nat \<Rightarrow> slot list" where
  "new_workers n = map (\<lambda>i. \<lparr>sl_worker = new_worker (int i), sl_paused = False\<rparr>) [0..<n]"

text \<open>\<open>start\<close>, up to the threads it launches; \<open>devOk\<close> is whether the developer's pool could be reached.\<close>

definition miner_start :: "miner_config \<Rightarrow> bool \<Rightarrow> nat \<Rightarrow> miner" where
  "miner_start cf devOk now = \<lparr>mi_running = True, mi_workers = new_workers (threadsForAlgo cf (cf_rxAlgo cf)), mi_rx = rx_start,
     mi_ready = False, mi_currentDiff = 0, mi_currentJob = empty_job, mi_devJob = empty_job, mi_rxInitialized = False,
     mi_currentAlgo = cf_rxAlgo cf, mi_jobSequence = 0, mi_droppedShares = 0, mi_poolDisconnected = False,
     mi_devFeeActive = False, mi_devFeeEnabled = devOk, mi_devFeeStart = 0, mi_userMiningSeconds = 0, mi_lastDevFeeCheck = now,
     mi_devJobReady = False, mi_pending = None, mi_initRunning = None\<rparr>"

section \<open>Workers\<close>

definition set_all :: "job \<Rightarrow> slot list \<Rightarrow> slot list" where
  "set_all j = map (\<lambda>s. s\<lparr>sl_worker := setJob j (sl_worker s)\<rparr>)"

definition pause_all :: "slot list \<Rightarrow> slot list" where
  "pause_all = map (\<lambda>s. s\<lparr>sl_paused := True\<rparr>)"

definition resume_all :: "slot list \<Rightarrow> slot list" where
  "resume_all = map (\<lambda>s. s\<lparr>sl_paused := False\<rparr>)"

definition rx_env_of :: "rx_manager \<Rightarrow> nat rx_env" where
  "rx_env_of M = \<lparr>e_getVM = \<lambda>rid i. RandomX_getVM rid i M, e_seedValid = \<lambda>rid seed. RandomX_isSeedValid rid seed M,
     e_config = w_currentConfig (m_world M)\<rparr>"

definition poll_slot :: "rx_manager \<Rightarrow> slot \<Rightarrow> slot" where
  "poll_slot M s = (if sl_paused s then s else s\<lparr>sl_worker := poll_job (rx_env_of M) (sl_worker s)\<rparr>)"

section \<open>Jobs\<close>

definition job_algo :: "miner_config \<Rightarrow> job \<Rightarrow> RxAlgo" where
  "job_algo cf j = (if j_algo j = '''' then cf_rxAlgo cf else j_rxAlgo j)"

definition needs_init :: "miner_config \<Rightarrow> job \<Rightarrow> miner \<Rightarrow> bool" where
  "needs_init cf j m \<longleftrightarrow> j_seedHash j \<noteq> '''' \<and>
     (\<not> RandomX_isSeedValid User (j_seedHash j) (mi_rx m)
      \<or> (case m_userInstance (mi_rx m) of None \<Rightarrow> False | Some x \<Rightarrow> m_algo x \<noteq> job_algo cf j))"

text \<open>A job is stamped with the next sequence number and the instance whose pool sent it.\<close>

definition stamp :: "int \<Rightarrow> miner \<Rightarrow> job \<Rightarrow> job" where
  "stamp i m j = j\<lparr>j_sequence := mi_jobSequence m + 1, j_rxInstanceId := i\<rparr>"

definition onJob :: "miner_config \<Rightarrow> job \<Rightarrow> miner \<Rightarrow> miner" where
  "onJob cf j m =
     (let algo = job_algo cf j; algoChanged = (algo \<noteq> mi_currentAlgo m) in
      if needs_init cf j m \<or> algoChanged
      then m\<lparr>mi_workers := (if algoChanged then [] else pause_all (mi_workers m)),
             mi_pending := Some \<lparr>rq_job = j, rq_algo = algo, rq_threadCount = threadsForAlgo cf algo, rq_needRecreateWorkers = algoChanged\<rparr>\<rparr>
      else
        let cj = stamp 0 m j;
            ws = (if mi_devFeeActive m then mi_workers m else set_all cj (mi_workers m))
        in m\<lparr>mi_currentJob := cj, mi_jobSequence := mi_jobSequence m + 1, mi_currentDiff := j_diff j,
             mi_workers := (if mi_poolDisconnected m then resume_all ws else ws), mi_poolDisconnected := False\<rparr>)"

text \<open>Bringing the developer's instance to the seed of a job; whether that worked.\<close>

definition dev_instance_ready :: "rx_oracle \<Rightarrow> miner_config \<Rightarrow> job \<Rightarrow> miner \<Rightarrow> bool \<times> rx_manager" where
  "dev_instance_ready orc cf j m =
     (let M = mi_rx m; n = threadsForAlgo cf (mi_currentAlgo m);
          full = RandomX_init orc Dev (j_seedHash j) n RX_0 (cf_hugePagesEnabled cf) True (cf_oneGbHugePagesEnabled cf)
      in if j_seedHash j = '''' \<or> RandomX_isSeedValid Dev (j_seedHash j) M then (True, M)
         else if (case m_devInstance M of None \<Rightarrow> False | Some x \<Rightarrow> m_initialized x)
         then (let (ok, M1) = RandomX_reinit orc Dev (j_seedHash j) n True M in if ok then (True, M1) else full M1)
         else full M)"

definition onDevJob :: "rx_oracle \<Rightarrow> miner_config \<Rightarrow> job \<Rightarrow> miner \<Rightarrow> miner" where
  "onDevJob orc cf j m =
     (let (ok, M) = dev_instance_ready orc cf j m in
      if \<not> ok then m\<lparr>mi_rx := M, mi_devFeeEnabled := False\<rparr>
      else let dj = stamp 1 m j
           in m\<lparr>mi_rx := M, mi_devJob := dj, mi_jobSequence := mi_jobSequence m + 1, mi_devJobReady := True,
                mi_workers := (if mi_devFeeActive m then set_all dj (mi_workers m) else mi_workers m)\<rparr>)"

definition onDisconnected :: "miner \<Rightarrow> miner" where
  "onDisconnected m = m\<lparr>mi_poolDisconnected := True, mi_workers := pause_all (mi_workers m)\<rparr>"

text \<open>Where a share goes, and what counts as dropped: \<open>sent\<close> is whether the client of that pool was connected and took it.\<close>

definition share_pool :: "job_result \<Rightarrow> RxInstanceId" where
  "share_pool r = (if r_rxInstanceId r = 1 then Dev else User)"

definition onSubmit :: "(RxInstanceId \<Rightarrow> bool) \<Rightarrow> job_result \<Rightarrow> miner \<Rightarrow> miner" where
  "onSubmit sent r m = (if sent (share_pool r) then m else m\<lparr>mi_droppedShares := mi_droppedShares m + 1\<rparr>)"

section \<open>The developer's share of the time\<close>

definition switchToDevPool :: "nat \<Rightarrow> miner \<Rightarrow> miner" where
  "switchToDevPool now m =
     (if \<not> mi_devJobReady m \<or> \<not> mi_devFeeEnabled m then m
      else if \<not> RandomX_isSeedValid Dev (j_seedHash (mi_devJob m)) (mi_rx m) then m
      else m\<lparr>mi_devFeeActive := True, mi_devFeeStart := now, mi_workers := set_all (mi_devJob m) (mi_workers m)\<rparr>)"

definition switchToUserPool :: "nat \<Rightarrow> miner \<Rightarrow> miner" where
  "switchToUserPool now m =
     m\<lparr>mi_devFeeActive := False, mi_userMiningSeconds := 0, mi_lastDevFeeCheck := now,
       mi_workers := set_all (mi_currentJob m) (mi_workers m)\<rparr>"

text \<open>The clock is read on entry and again by the switch.\<close>

definition checkDevFee :: "nat \<Rightarrow> nat \<Rightarrow> miner \<Rightarrow> miner" where
  "checkDevFee now later m =
     (if mi_devFeeActive m
      then (if DEV_FEE_DURATION \<le> seconds (now - mi_devFeeStart m) then switchToUserPool later m else m)
      else
        let elapsed = seconds (now - mi_lastDevFeeCheck m);
            m = (if 0 < elapsed then m\<lparr>mi_userMiningSeconds := mi_userMiningSeconds m + elapsed, mi_lastDevFeeCheck := now\<rparr> else m)
        in if DEV_FEE_INTERVAL \<le> mi_userMiningSeconds m then switchToDevPool later m else m)"

text \<open>One pass of the timer thread, without the sample of the hash rate.\<close>

definition dev_fee_tick :: "nat \<Rightarrow> nat \<Rightarrow> miner \<Rightarrow> miner" where
  "dev_fee_tick now later m = (if mi_devFeeEnabled m then checkDevFee now later m else m)"

section \<open>\<open>rxInitLoop\<close>\<close>

definition rx_init_take :: "rx_oracle \<Rightarrow> miner_config \<Rightarrow> miner \<Rightarrow> miner" where
  "rx_init_take orc cf m =
     (case (mi_initRunning m, mi_pending m) of
        (None, Some req) \<Rightarrow>
          (let start = (\<lambda>rid algo. RandomX_init orc rid (j_seedHash (rq_job req)) (rq_threadCount req) algo
                          (cf_hugePagesEnabled cf) True (cf_oneGbHugePagesEnabled cf));
               (ok, M) = start User (rq_algo req) (mi_rx m);
               both = (ok \<and> mi_devFeeEnabled m \<and> \<not> mi_rxInitialized m);
               M = (if both then snd (start Dev RX_0 M) else M)
           in m\<lparr>mi_pending := None, mi_rx := M, mi_rxInitialized := (mi_rxInitialized m \<or> both), mi_initRunning := Some (req, ok)\<rparr>)
      | _ \<Rightarrow> m)"

definition rx_init_resume :: "miner_config \<Rightarrow> miner \<Rightarrow> miner" where
  "rx_init_resume cf m =
     (case mi_initRunning m of
        None \<Rightarrow> m
      | Some (req, ok) \<Rightarrow>
          if mi_pending m \<noteq> None then m\<lparr>mi_initRunning := None\<rparr>
          else if ok
          then let cj = stamp 0 m (rq_job req);
                   ws = (if rq_needRecreateWorkers req then mi_workers m @ new_workers (rq_threadCount req) else mi_workers m);
                   ws = (if mi_devFeeActive m then ws else set_all cj ws);
                   ws = (if \<not> rq_needRecreateWorkers req \<and> \<not> mi_poolDisconnected m then resume_all ws else ws)
               in m\<lparr>mi_initRunning := None, mi_ready := True, mi_currentAlgo := rq_algo req, mi_currentJob := cj,
                    mi_jobSequence := mi_jobSequence m + 1, mi_currentDiff := j_diff (rq_job req), mi_workers := ws\<rparr>
          else if rq_needRecreateWorkers req
          then m\<lparr>mi_initRunning := None, mi_workers := mi_workers m @ new_workers (threadsForAlgo cf (mi_currentAlgo m))\<rparr>
          else m\<lparr>mi_initRunning := None, mi_workers := (if mi_poolDisconnected m then mi_workers m else resume_all (mi_workers m))\<rparr>)"

text \<open>\<open>stop\<close>: the initialising thread ends first, then the workers; the instances are released last.\<close>

definition miner_stop :: "miner \<Rightarrow> miner" where
  "miner_stop m = m\<lparr>mi_running := False, mi_initRunning := None, mi_workers := [], mi_rx := RandomX_release_all (mi_rx m)\<rparr>"

datatype event = Ev_job job | Ev_devJob job | Ev_disconnected | Ev_submit "RxInstanceId \<Rightarrow> bool" job_result
  | Ev_tick nat nat | Ev_init | Ev_resume | Ev_poll nat | Ev_stop

fun miner_step :: "rx_oracle \<Rightarrow> miner_config \<Rightarrow> event \<Rightarrow> miner \<Rightarrow> miner" where
  "miner_step orc cf (Ev_job j) m = onJob cf j m"
| "miner_step orc cf (Ev_devJob j) m = onDevJob orc cf j m"
| "miner_step orc cf Ev_disconnected m = onDisconnected m"
| "miner_step orc cf (Ev_submit sent r) m = onSubmit sent r m"
| "miner_step orc cf (Ev_tick now later) m = dev_fee_tick now later m"
| "miner_step orc cf Ev_init m = rx_init_take orc cf m"
| "miner_step orc cf Ev_resume m = rx_init_resume cf m"
| "miner_step orc cf (Ev_poll i) m =
     (if i < length (mi_workers m) then m\<lparr>mi_workers := (mi_workers m)[i := poll_slot (mi_rx m) (mi_workers m ! i)]\<rparr> else m)"
| "miner_step orc cf Ev_stop m = miner_stop m"

text \<open>After \<open>stop\<close> nothing happens any more.\<close>

definition miner_next_event :: "rx_oracle \<Rightarrow> miner_config \<Rightarrow> event \<Rightarrow> miner \<Rightarrow> miner" where
  "miner_next_event orc cf e m = (if mi_running m then miner_step orc cf e m else m)"

definition miner_events :: "rx_oracle \<Rightarrow> miner_config \<Rightarrow> event list \<Rightarrow> miner \<Rightarrow> miner" where
  "miner_events orc cf es m = fold (miner_next_event orc cf) es m"

end
