(* ===== verification/Miner_Ok.thy ===== *)
theory Miner_Ok
  imports Miner Rx_Instances
begin

text \<open>
  What the miner guarantees about jobs and about the developer's share of the time, and where it does not:
  \<open>published\<close> jobs belong to the pool whose turn it is; the developer's periods come at most every 100 minutes, and end
  while the fee is enabled; a failure during such a period makes it endless; two quick changes of algorithm leave no workers.
\<close>

lemma miner_events_simps [simp]:
  "miner_events orc cf [] m = m"
  "miner_events orc cf (e # es) m = miner_events orc cf es (miner_next_event orc cf e m)"
  "miner_events orc cf (es @ es') m = miner_events orc cf es' (miner_events orc cf es m)"
  by (simp_all add: miner_events_def)

text \<open>An invariant of every event holds after every run.\<close>

lemma miner_events_induct:
  assumes "P m" and "\<And>e n. P n \<Longrightarrow> mi_running n \<Longrightarrow> e \<in> set es \<Longrightarrow> P (miner_step orc cf e n)"
  shows "P (miner_events orc cf es m)"
  using assms
proof (induction es arbitrary: m)
  case (Cons e es)
  have "P (miner_next_event orc cf e m)" using Cons.prems by (simp add: miner_next_event_def)
  then show ?case using Cons.IH Cons.prems(2) by simp
qed simp

lemma step_running: "e \<noteq> Ev_stop \<Longrightarrow> mi_running (miner_step orc cf e m) = mi_running m"
  by (cases e) (simp_all add: onJob_def onDevJob_def onDisconnected_def onSubmit_def dev_fee_tick_def checkDevFee_def
    switchToDevPool_def switchToUserPool_def rx_init_take_def rx_init_resume_def Let_def split: option.splits prod.splits)

lemma no_stop_events:
  assumes "mi_running m" and "Ev_stop \<notin> set es"
  shows "miner_events orc cf es m = fold (miner_step orc cf) es m"
  using assms
proof (induction es arbitrary: m)
  case (Cons e es)
  then show ?case using step_running [of e orc cf m] by (auto simp: miner_next_event_def)
qed simp

section \<open>Jobs\<close>

text \<open>The job a worker finds when it looks.\<close>

definition published :: "slot \<Rightarrow> job" where
  "published s = w_jobs (sl_worker s) ! w_readIndex (sl_worker s)"

definition buffers_ok :: "slot \<Rightarrow> bool" where
  "buffers_ok s \<longleftrightarrow> length (w_jobs (sl_worker s)) = 2 \<and> w_readIndex (sl_worker s) < 2"

lemma published_set: "buffers_ok s \<Longrightarrow> published (s\<lparr>sl_worker := setJob j (sl_worker s)\<rparr>) = j"
  and buffers_set: "buffers_ok s \<Longrightarrow> buffers_ok (s\<lparr>sl_worker := setJob j (sl_worker s)\<rparr>)"
  by (auto simp: published_def buffers_ok_def setJob_def Let_def)

lemma buffers_paused [simp]: "buffers_ok (s\<lparr>sl_paused := b\<rparr>) = buffers_ok s" "published (s\<lparr>sl_paused := b\<rparr>) = published s"
  by (simp_all add: buffers_ok_def published_def)

lemma buffers_poll [simp]: "buffers_ok (poll_slot M s) = buffers_ok s" "published (poll_slot M s) = published s"
  by (simp_all add: buffers_ok_def published_def poll_slot_def poll_job_def Let_def)

lemma buffers_new: "s \<in> set (new_workers n) \<Longrightarrow> buffers_ok s \<and> published s = empty_job"
  by (auto simp: new_workers_def buffers_ok_def published_def new_worker_def)

text \<open>\<open>j\<close> was sent by the pool of instance \<open>i\<close> in the course of \<open>es\<close>, but for its stamp.\<close>

definition sent_by :: "event list \<Rightarrow> int \<Rightarrow> job \<Rightarrow> bool" where
  "sent_by es i j \<longleftrightarrow> (\<exists>k n. (if i = 1 then Ev_devJob k else Ev_job k) \<in> set es \<and> j = k\<lparr>j_sequence := n, j_rxInstanceId := i\<rparr>)"

text \<open>Every worker shows \<open>j\<close>, or has not been given a job.\<close>

definition showing :: "job \<Rightarrow> slot list \<Rightarrow> bool" where
  "showing j ws \<longleftrightarrow> (\<forall>s\<in>set ws. buffers_ok s \<and> published s \<in> {empty_job, j})"

lemma showing_simps [simp]:
  "showing j []" "showing j (pause_all ws) = showing j ws" "showing j (resume_all ws) = showing j ws"
  "showing j (ws @ new_workers n) = showing j ws"
  using buffers_new by (auto simp: showing_def pause_all_def resume_all_def)

lemma showing_set_all: "showing i ws \<Longrightarrow> showing j (set_all j ws)"
  using published_set buffers_set by (auto simp: showing_def set_all_def)

lemma showing_poll: "showing j ws \<Longrightarrow> k < length ws \<Longrightarrow> showing j (ws[k := poll_slot M (ws ! k)])"
  by (auto simp: showing_def dest!: set_update_subset_insert [THEN subsetD])

definition active_job :: "miner \<Rightarrow> job" where
  "active_job m = (if mi_devFeeActive m then mi_devJob m else mi_currentJob m)"

definition jobs_inv :: "event list \<Rightarrow> miner \<Rightarrow> bool" where
  "jobs_inv es m \<longleftrightarrow> showing (active_job m) (mi_workers m)
     \<and> (mi_currentJob m = empty_job \<or> sent_by es 0 (mi_currentJob m))
     \<and> (mi_devFeeActive m \<longrightarrow> mi_devJobReady m) \<and> (mi_devJobReady m \<longrightarrow> sent_by es 1 (mi_devJob m))
     \<and> (\<forall>req. mi_pending m = Some req \<longrightarrow> Ev_job (rq_job req) \<in> set es)
     \<and> (\<forall>req ok. mi_initRunning m = Some (req, ok) \<longrightarrow> Ev_job (rq_job req) \<in> set es)"

lemma sent_by_stamp: "Ev_job j \<in> set es \<Longrightarrow> sent_by es 0 (stamp 0 m j)" "Ev_devJob j \<in> set es \<Longrightarrow> sent_by es 1 (stamp 1 m j)"
  by (auto simp: sent_by_def stamp_def)

lemma jobs_inv_step:
  assumes inv: "jobs_inv es m" and e: "e \<in> set es"
  shows "jobs_inv es (miner_step orc cf e m)"
proof (cases e)
  case (Ev_job j)
  then show ?thesis using inv e showing_set_all [of "mi_currentJob m" "mi_workers m"] sent_by_stamp(1) [of j es m]
    by (auto simp: jobs_inv_def active_job_def onJob_def Let_def)
next
  case (Ev_devJob j)
  obtain ok M where "dev_instance_ready orc cf j m = (ok, M)" by fastforce
  then show ?thesis using inv e Ev_devJob showing_set_all [of "mi_devJob m" "mi_workers m"] sent_by_stamp(2) [of j es m]
    by (auto simp: jobs_inv_def active_job_def onDevJob_def Let_def)
next
  case (Ev_tick now later)
  then show ?thesis using inv showing_set_all [of _ "mi_workers m"]
    by (auto simp: jobs_inv_def active_job_def dev_fee_tick_def checkDevFee_def switchToDevPool_def switchToUserPool_def Let_def)
next
  case Ev_init
  then show ?thesis using inv
    by (auto simp: jobs_inv_def active_job_def rx_init_take_def Let_def split: option.splits prod.splits)
next
  case Ev_resume
  show ?thesis
  proof (cases "mi_initRunning m")
    case (Some r)
    obtain req ok where r: "r = (req, ok)" by fastforce
    have "sent_by es 0 (stamp 0 m (rq_job req))" using inv Some r sent_by_stamp(1) by (auto simp: jobs_inv_def)
    then show ?thesis using inv Ev_resume Some r showing_set_all [of "mi_currentJob m"]
      by (auto simp: jobs_inv_def active_job_def rx_init_resume_def Let_def)
  qed (use inv Ev_resume in \<open>simp add: rx_init_resume_def\<close>)
next
  case (Ev_poll i)
  then show ?thesis using inv showing_poll by (auto simp: jobs_inv_def active_job_def)
qed (use inv in \<open>auto simp: jobs_inv_def active_job_def onDisconnected_def onSubmit_def miner_stop_def\<close>)

lemma jobs_inv_start: "jobs_inv es (miner_start cf devOk now)"
  using buffers_new by (auto simp: jobs_inv_def miner_start_def showing_def)

text \<open>C6: whatever the pools, the timer, the initialising thread and the workers do, and whatever allocations
  fail: a worker either has not been given a job yet or is shown the job the miner holds for the pool whose turn it is
  (\<open>m_devJob\<close> in a developer's period, \<open>m_currentJob\<close> otherwise); that pool has sent this job, and a share for it is routed
  back to that pool.  The job need not be the newest the pool has sent: \<open>rxInitLoop\<close> puts the job of its request in the place
  of a newer one that came while it ran.\<close>

theorem workers_mine_for_active_pool:
  assumes "miner_events orc cf es (miner_start cf devOk now) = m" and "s \<in> set (mi_workers m)"
    and "published s \<noteq> empty_job"
  shows "published s = (if mi_devFeeActive m then mi_devJob m else mi_currentJob m)
    \<and> sent_by es (if mi_devFeeActive m then 1 else 0) (published s)
    \<and> (\<forall>r. r_rxInstanceId r = j_rxInstanceId (published s) \<longrightarrow> share_pool r = (if mi_devFeeActive m then Dev else User))"
proof -
  have "jobs_inv es m" unfolding assms(1) [symmetric]
    by (rule miner_events_induct) (auto intro: jobs_inv_start jobs_inv_step)
  then have "published s = active_job m" "sent_by es (if mi_devFeeActive m then 1 else 0) (active_job m)"
    using assms(2,3) by (auto simp: jobs_inv_def showing_def active_job_def)
  moreover from this(2) have "j_rxInstanceId (active_job m) = (if mi_devFeeActive m then 1 else 0)"
    by (auto simp: sent_by_def split: if_splits)
  ultimately show ?thesis by (auto simp: active_job_def share_pool_def)
qed

section \<open>The developer's share of the time\<close>

fun event_times :: "event \<Rightarrow> nat list" where
  "event_times (Ev_tick now later) = [now, later]"
| "event_times e = []"

definition tick_times :: "event list \<Rightarrow> nat list" where
  "tick_times es = concat (map event_times es)"

text \<open>When the workers were switched from one pool to the other.\<close>

fun switches :: "rx_oracle \<Rightarrow> miner_config \<Rightarrow> event list \<Rightarrow> miner \<Rightarrow> nat list" where
  "switches orc cf [] m = []"
| "switches orc cf (e # es) m =
     (let m' = miner_next_event orc cf e m
      in (if mi_devFeeActive m' = mi_devFeeActive m then [] else [last (event_times e)]) @ switches orc cf es m')"

text \<open>User periods of at least \<open>DEV_FEE_INTERVAL\<close> and developer periods of at least \<open>DEV_FEE_DURATION\<close> seconds in turn.\<close>

fun periods_ok :: "bool \<Rightarrow> nat \<Rightarrow> nat list \<Rightarrow> bool" where
  "periods_ok dev since [] = True"
| "periods_ok dev since (t # ts) \<longleftrightarrow>
     since + (if dev then DEV_FEE_DURATION else DEV_FEE_INTERVAL) * 1000000000 \<le> t \<and> periods_ok (\<not> dev) t ts"

text \<open>The clock stands at \<open>now\<close>; the current period began at \<open>since\<close>.\<close>

definition fee_inv :: "nat \<Rightarrow> nat \<Rightarrow> miner \<Rightarrow> bool" where
  "fee_inv since now m \<longleftrightarrow> since \<le> now \<and>
     (if mi_devFeeActive m then mi_devFeeStart m = since
      else since + mi_userMiningSeconds m * 1000000000 \<le> mi_lastDevFeeCheck m \<and> mi_lastDevFeeCheck m \<le> now)"

lemma seconds_le: "seconds d * 1000000000 \<le> d"
  by (simp add: seconds_def)

lemma fee_other:
  assumes "event_times e = []"
  shows "mi_devFeeActive (miner_step orc cf e m) = mi_devFeeActive m" "mi_devFeeStart (miner_step orc cf e m) = mi_devFeeStart m"
    "mi_userMiningSeconds (miner_step orc cf e m) = mi_userMiningSeconds m" "mi_lastDevFeeCheck (miner_step orc cf e m) = mi_lastDevFeeCheck m"
  using assms by (cases e; auto simp: onJob_def onDevJob_def onDisconnected_def onSubmit_def rx_init_take_def rx_init_resume_def
    miner_stop_def Let_def split: option.splits prod.splits)+

lemma fee_tick:
  assumes inv: "fee_inv since t m" and time: "t \<le> now" "now \<le> later" and m': "m' = dev_fee_tick now later m"
  shows "if mi_devFeeActive m' = mi_devFeeActive m then fee_inv since later m'
    else fee_inv later later m' \<and> since + (if mi_devFeeActive m then DEV_FEE_DURATION else DEV_FEE_INTERVAL) * 1000000000 \<le> later"
proof (cases "mi_devFeeEnabled m")
  case True
  show ?thesis
  proof (cases "mi_devFeeActive m")
    case active: True
    then show ?thesis using True inv time seconds_le [of "now - since"] unfolding m'
      by (auto simp: fee_inv_def dev_fee_tick_def checkDevFee_def switchToUserPool_def)
  next
    case False
    define n where "n = (let elapsed = seconds (now - mi_lastDevFeeCheck m) in
      if 0 < elapsed then m\<lparr>mi_userMiningSeconds := mi_userMiningSeconds m + elapsed, mi_lastDevFeeCheck := now\<rparr> else m)"
    have n: "since + mi_userMiningSeconds n * 1000000000 \<le> mi_lastDevFeeCheck n" "mi_lastDevFeeCheck n \<le> now" "\<not> mi_devFeeActive n"
      "since \<le> t"
      using False inv time seconds_le [of "now - mi_lastDevFeeCheck m"] by (auto simp: fee_inv_def n_def Let_def algebra_simps)
    have "m' = (if DEV_FEE_INTERVAL \<le> mi_userMiningSeconds n then switchToDevPool later n else n)"
      using True False by (simp add: m' dev_fee_tick_def checkDevFee_def n_def Let_def)
    then show ?thesis using n False time by (auto simp: fee_inv_def switchToDevPool_def)
  qed
qed (use assms in \<open>simp add: fee_inv_def dev_fee_tick_def split: if_splits\<close>)

lemma switches_periods:
  assumes "fee_inv since now m" and "sorted (now # tick_times es)"
  shows "periods_ok (mi_devFeeActive m) since (switches orc cf es m)"
  using assms
proof (induction es arbitrary: since now m)
  case (Cons e es)
  define m' where "m' = miner_next_event orc cf e m"
  have sw: "switches orc cf (e # es) m
      = (if mi_devFeeActive m' = mi_devFeeActive m then [] else [last (event_times e)]) @ switches orc cf es m'"
    by (simp add: m'_def)
  show ?case
  proof (cases "mi_running m")
    case False
    have "fee_inv since now m' \<and> mi_devFeeActive m' = mi_devFeeActive m" using Cons.prems(1) False by (simp add: m'_def miner_next_event_def)
    moreover have "sorted (now # tick_times es)" using Cons.prems(2) by (simp add: tick_times_def sorted_append)
    ultimately show ?thesis using Cons.IH [of since now m'] unfolding sw by simp
  next
    case True
    show ?thesis
    proof (cases "event_times e = []")
      case none: True
      have "fee_inv since now m' \<and> mi_devFeeActive m' = mi_devFeeActive m"
        using Cons.prems(1) fee_other [OF none, of orc cf m] True by (simp add: m'_def miner_next_event_def fee_inv_def)
      moreover have "sorted (now # tick_times es)" using Cons.prems(2) none by (simp add: tick_times_def)
      ultimately show ?thesis using Cons.IH [of since now m'] unfolding sw by simp
    next
      case False
      then obtain a b where e: "e = Ev_tick a b" by (cases e) simp_all
      have time: "now \<le> a" "a \<le> b" "sorted (b # tick_times es)" using Cons.prems(2) by (simp_all add: e tick_times_def)
      have "m' = dev_fee_tick a b m" using True by (simp add: m'_def miner_next_event_def e)
      from fee_tick [OF Cons.prems(1) time(1,2) this] show ?thesis
        using Cons.IH [of since b m'] Cons.IH [of b b m'] time(3) unfolding sw by (simp add: e split: if_splits)
    qed
  qed
qed simp

lemma switches_times: "set (switches orc cf es m) \<subseteq> set (tick_times es)"
proof (induction es arbitrary: m)
  case (Cons e es)
  have "mi_devFeeActive (miner_next_event orc cf e m) \<noteq> mi_devFeeActive m \<Longrightarrow> event_times e \<noteq> []"
    using fee_other(1) [of e orc cf m] by (auto simp: miner_next_event_def split: if_splits)
  then have "set (switches orc cf (e # es) m) \<subseteq> set (event_times e) \<union> set (switches orc cf es (miner_next_event orc cf e m))"
    by (auto simp: Let_def)
  then show ?case using Cons.IH [of "miner_next_event orc cf e m"] by (auto simp: tick_times_def)
qed simp

lemma periods_number:
  assumes "periods_ok dev since ts"
  shows "since + length ts div 2 * 6000 * 1000000000 + (if odd (length ts) then (if dev then 60 else 5940) * 1000000000 else 0) \<le> last (since # ts)"
  using assms by (induction dev since ts rule: periods_ok.induct) (auto elim!: oddE evenE)

text \<open>C11: the workers are switched to the developer's pool only after 99 minutes on the user's, and back only after a minute;
  so if the clock stands at \<open>T\<close> at most one period per 100 minutes since the start is over.  While the fee is enabled, and
  only then (C35), the first tick that finds the minute over ends the period.\<close>

theorem dev_fee_schedule:
  assumes "sorted (t0 # tick_times es @ [T])" and "ts = switches orc cf es (miner_start cf devOk t0)"
  shows "periods_ok False t0 ts \<and> length ts div 2 * 6000 * 1000000000 \<le> T - t0
    \<and> (\<forall>m now later. mi_devFeeActive m \<and> mi_devFeeEnabled m \<longrightarrow>
         mi_devFeeActive (dev_fee_tick now later m) = (seconds (now - mi_devFeeStart m) < DEV_FEE_DURATION))"
proof -
  have "fee_inv t0 t0 (miner_start cf devOk t0)" by (simp add: fee_inv_def miner_start_def)
  from switches_periods [OF this, of es orc cf] have per: "periods_ok False t0 ts"
    using assms by (simp add: sorted_append miner_start_def)
  have "set ts \<subseteq> set (tick_times es)" using assms(2) switches_times by simp
  then have "last (t0 # ts) \<le> T" using assms(1) last_in_set [of "t0 # ts"] by (auto simp: sorted_append)
  then have "length ts div 2 * 6000 * 1000000000 \<le> T - t0" using periods_number [OF per] by linarith
  then show ?thesis using per by (simp add: dev_fee_tick_def checkDevFee_def switchToUserPool_def not_less [symmetric])
qed

definition demo_config :: miner_config where
  "demo_config = \<lparr>cf_rxAlgo = RX_0, cf_algoThreads = \<lambda>_. Some 2, cf_hugePagesEnabled = True, cf_oneGbHugePagesEnabled = False\<rparr>"

definition demo_job :: "string \<Rightarrow> string \<Rightarrow> job" where
  "demo_job i seed = empty_job\<lparr>j_id := i, j_seedHash := seed, j_blobSize := 76, j_diff := 1\<rparr>"

lemma switches_append: "switches orc cf (es @ es') m = switches orc cf es m @ switches orc cf es' (miner_events orc cf es m)"
  by (induction es arbitrary: m) (simp_all add: Let_def)

lemma switches_none: "tick_times es = [] \<Longrightarrow> switches orc cf es m = [] \<and> mi_devFeeActive (miner_events orc cf es m) = mi_devFeeActive m"
proof (induction es arbitrary: m)
  case (Cons e es)
  then have "event_times e = []" "tick_times es = []" by (simp_all add: tick_times_def)
  with Cons.IH show ?case using fee_other(1) [of e orc cf m] by (simp add: miner_next_event_def Let_def)
qed simp

section \<open>A developer's period without end\<close>

lemma active_stays:
  assumes "mi_devFeeActive m" and "\<not> mi_devFeeEnabled m"
  shows "mi_devFeeActive (miner_events orc cf es m) \<and> \<not> mi_devFeeEnabled (miner_events orc cf es m)"
proof (rule miner_events_induct [where P = "\<lambda>m. mi_devFeeActive m \<and> \<not> mi_devFeeEnabled m"])
  show "mi_devFeeActive m \<and> \<not> mi_devFeeEnabled m" using assms by simp
  show "mi_devFeeActive (miner_step orc cf e n) \<and> \<not> mi_devFeeEnabled (miner_step orc cf e n)"
    if "mi_devFeeActive n \<and> \<not> mi_devFeeEnabled n" for e n
    using that by (cases e) (auto simp: onJob_def onDevJob_def onDisconnected_def onSubmit_def dev_fee_tick_def rx_init_take_def
      rx_init_resume_def miner_stop_def Let_def split: option.splits prod.splits)
qed

text \<open>C35: if during a developer's period the developer's pool sends a job whose instance cannot be prepared, the fee is
  disabled but the period is not ended, and nothing ends it any more: from then on, until the miner is restarted, no
  worker is shown a job of the user's pool.\<close>

theorem failed_developer_job_never_returns:
  assumes "m = miner_events orc cf es (miner_start cf devOk now)" and "mi_running m" and "mi_devFeeActive m"
    and "\<not> fst (dev_instance_ready orc' cf j m)"
    and "n = miner_events orc' cf (Ev_devJob j # es') m"
  shows "mi_devFeeActive n \<and> (\<forall>s\<in>set (mi_workers n). published s = empty_job \<or> published s = mi_devJob n)"
proof -
  have "miner_next_event orc' cf (Ev_devJob j) m = m\<lparr>mi_rx := snd (dev_instance_ready orc' cf j m), mi_devFeeEnabled := False\<rparr>"
    using assms(2,4) by (cases "dev_instance_ready orc' cf j m") (simp add: miner_next_event_def onDevJob_def)
  then have "mi_devFeeActive n" using assms(3,5) active_stays by simp
  moreover have "jobs_inv (es @ Ev_devJob j # es') m" unfolding assms(1)
    by (rule miner_events_induct) (auto intro: jobs_inv_start jobs_inv_step)
  then have "jobs_inv (es @ Ev_devJob j # es') n" unfolding assms(5)
    by (rule miner_events_induct) (auto intro: jobs_inv_step)
  ultimately show ?thesis by (auto simp: jobs_inv_def showing_def active_job_def)
qed

section \<open>Losing the workers\<close>

lemma init_sets_algo:
  assumes "manager_ok M" and "vms_granted orc" and "RandomX_init orc User seed n algo h a g M = (ok, M1)"
    and "M2 = M1 \<or> M2 = snd (RandomX_init orc Dev seed n RX_0 h a g M1)"
  shows "\<exists>x. m_userInstance M2 = Some x \<and> m_algo x = algo"
proof -
  obtain x where x: "manager_ok M1" "m_userInstance M1 = Some x" "m_algo x = algo"
    using RandomX_init_ok [OF assms(1,2) _ assms(3)] by auto
  obtain b M3 where i: "RandomX_init orc Dev seed n RX_0 h a g M1 = (b, M3)" by fastforce
  from RandomX_init_ok [OF x(1) assms(2) _ this] have "m_userInstance M3 = m_userInstance M1" by simp
  then show ?thesis using x assms(4) i by auto
qed

text \<open>C36: when the pool switches the algorithm and back before the first switch is complete, the workers stopped for it
  are never created again: the miner is ready and has no workers.\<close>

theorem quick_algorithm_change_loses_workers:
  assumes "mi_running m" and "mi_pending m = None" and "mi_initRunning m = None"
    and "manager_ok (mi_rx m)" and "vms_granted orc"
    and "job_algo cf jB \<noteq> mi_currentAlgo m" and "job_algo cf jA = mi_currentAlgo m" and "j_seedHash jA \<noteq> ''''"
    and "n = miner_events orc cf [Ev_job jB, Ev_init, Ev_job jA, Ev_resume, Ev_init, Ev_resume] m"
  shows "mi_workers n = [] \<and> mi_pending n = None \<and> mi_initRunning n = None \<and> mi_currentAlgo n = mi_currentAlgo m"
proof -
  define m1 where "m1 = onJob cf jB m"
  have m1: "mi_workers m1 = []" "mi_pending m1 \<noteq> None" "mi_initRunning m1 = None" "mi_rx m1 = mi_rx m" "mi_running m1"
      "mi_currentAlgo m1 = mi_currentAlgo m" "rq_algo (the (mi_pending m1)) = job_algo cf jB"
    using assms(1,3,6) by (simp_all add: m1_def onJob_def Let_def)
  define m2 where "m2 = rx_init_take orc cf m1"
  obtain req where req: "mi_pending m1 = Some req" using m1(2) by auto
  obtain ok M1 where i: "RandomX_init orc User (j_seedHash (rq_job req)) (rq_threadCount req) (rq_algo req)
      (cf_hugePagesEnabled cf) True (cf_oneGbHugePagesEnabled cf) (mi_rx m1) = (ok, M1)" by fastforce
  have "\<exists>x. m_userInstance (mi_rx m2) = Some x \<and> m_algo x = rq_algo req"
    using init_sets_algo [OF _ assms(5) i] assms(4) m1(4) req m1(3) i by (simp add: m2_def rx_init_take_def Let_def)
  moreover have m2: "mi_workers m2 = []" "mi_pending m2 = None" "mi_initRunning m2 = Some (req, ok)" "mi_running m2"
      "mi_currentAlgo m2 = mi_currentAlgo m"
    using m1 req i by (simp_all add: m2_def rx_init_take_def Let_def)
  ultimately have "needs_init cf jA m2" using assms(6-8) m1(7) req by (auto simp: needs_init_def)
  then have m3: "onJob cf jA m2 = m2\<lparr>mi_workers := [], mi_pending := Some \<lparr>rq_job = jA, rq_algo = job_algo cf jA,
      rq_threadCount = threadsForAlgo cf (job_algo cf jA), rq_needRecreateWorkers = False\<rparr>\<rparr>"
    using m2 assms(7) by (simp add: onJob_def pause_all_def Let_def)
  have run: "n = rx_init_resume cf (rx_init_take orc cf (rx_init_resume cf (onJob cf jA m2)))"
    using no_stop_events [OF assms(1), of "[Ev_job jB, Ev_init, Ev_job jA, Ev_resume, Ev_init, Ev_resume]"] assms(9)
    by (simp add: m1_def m2_def)
  show ?thesis unfolding run m3 using m2 assms(7)
    by (auto simp: rx_init_resume_def rx_init_take_def Let_def set_all_def resume_all_def split: prod.splits)
qed

theorem quick_algorithm_change_loses_workers_witness:
  "mi_workers (miner_events demo_oracle demo_config [Ev_job (job_setAlgo (demo_job ''b'' ''01'') ''rx/wow''), Ev_init, Ev_job (demo_job ''a'' ''00''),
      Ev_resume, Ev_init, Ev_resume] (miner_start demo_config True 0)) = []"
  using quick_algorithm_change_loses_workers [of "miner_start demo_config True 0" demo_oracle demo_config
      "job_setAlgo (demo_job ''b'' ''01'') ''rx/wow''" "demo_job ''a'' ''00''", OF _ _ _ _ demo_ok(1) _ _ _ refl] manager_ok_start
  by (simp add: miner_start_def job_algo_def demo_config_def demo_job_def empty_job_def job_setAlgo_def parseRxAlgo_def)

end
