(* ===== verification/Miner_Safe.thy ===== *)
theory Miner_Safe
  imports Miner_Ok Rx_Granted
begin

text \<open>
  Jobs, initialisation and workers together: while only the user's pool sends jobs, all with different ids, it stays connected
  and allocations succeed, no worker ever hashes with a machine that was destroyed, or over the dataset of another seed than its
  job's.  When the seed changes in a developer's period, one does.
\<close>

section \<open>Which job a worker holds\<close>

definition fits :: "rx_manager \<Rightarrow> job \<Rightarrow> bool" where
  "fits M j \<longleftrightarrow> j_seedHash j = '''' \<or> RandomX_isSeedValid User (j_seedHash j) M"

text \<open>The worker's machine, if any, is one of the user's instance, which is valid for the seed of the worker's job.\<close>

definition settled :: "rx_manager \<Rightarrow> slot \<Rightarrow> bool" where
  "settled M s \<longleftrightarrow> (\<forall>p. l_vm (sl_worker s) = Some p \<longrightarrow>
     fits M (l_job (sl_worker s)) \<and> (\<exists>x. m_userInstance M = Some x \<and> m_initialized x \<and> Some p \<in> set (m_vms x)))"

text \<open>
  \<open>V\<close> are the job ids seen so far; at most \<open>N\<close> jobs have been set.  A worker that has not read its last job yet
  will notice it by its id.
\<close>

definition slot_inv :: "nat \<Rightarrow> string set \<Rightarrow> rx_manager \<Rightarrow> slot \<Rightarrow> bool" where
  "slot_inv N V M s \<longleftrightarrow> buffers_ok s \<and> j_rxInstanceId (published s) = 0 \<and> j_id (published s) \<in> V \<and> l_jobId (sl_worker s) \<in> V
     \<and> (\<exists>k n. k \<le> n \<and> n \<le> N \<and> w_sequence (sl_worker s) = word_of_nat n \<and> l_sequence (sl_worker s) = word_of_nat k
          \<and> (k < n \<longrightarrow> j_id (published s) \<noteq> l_jobId (sl_worker s)))
     \<and> (w_sequence (sl_worker s) = l_sequence (sl_worker s) \<longrightarrow> \<not> sl_paused s \<longrightarrow> settled M s)"

lemma slot_inv_mono: "slot_inv N V M s \<Longrightarrow> N \<le> N' \<Longrightarrow> V \<subseteq> V' \<Longrightarrow> slot_inv N' V' M s"
  unfolding slot_inv_def by (meson le_trans subsetD)

lemma slot_inv_new: "'''' \<in> V \<Longrightarrow> s \<in> set (new_workers n) \<Longrightarrow> slot_inv N V M s \<and> j_id (published s) = '''' \<and> l_jobId (sl_worker s) = ''''"
  by (auto simp: new_workers_def slot_inv_def buffers_ok_def published_def new_worker_def settled_def empty_job_def intro: exI [of _ "0 :: nat"])

lemma slot_inv_paused: "slot_inv N V M s \<Longrightarrow> slot_inv N V M' (s\<lparr>sl_paused := True\<rparr>)"
  by (simp add: slot_inv_def)

lemma sequence_neq:
  assumes "k < n" and "n < 2 ^ 64"
  shows "(word_of_nat n :: u64) \<noteq> word_of_nat k"
proof
  assume "(word_of_nat n :: u64) = word_of_nat k"
  then have "unat (word_of_nat n :: u64) = unat (word_of_nat k :: u64)" by simp
  then show False using assms by (simp add: unat_of_nat take_bit_eq_mod)
qed

text \<open>A job that is set counts whatever the worker does and whatever becomes of the instances.\<close>

lemma slot_inv_set:
  assumes inv: "slot_inv N V M s" and j: "j_rxInstanceId j = 0" "j_id j \<in> V" "j_id j \<noteq> l_jobId (sl_worker s)" and N: "N + 1 < 2 ^ 64"
  shows "slot_inv (N + 1) V M' (s\<lparr>sl_worker := setJob j (sl_worker s), sl_paused := b\<rparr>)"
proof -
  obtain k n where k: "k \<le> n" "n \<le> N" "w_sequence (sl_worker s) = word_of_nat n" "l_sequence (sl_worker s) = word_of_nat k"
    using inv by (auto simp: slot_inv_def)
  have ok: "buffers_ok s" using inv by (simp add: slot_inv_def)
  define t where "t = s\<lparr>sl_worker := setJob j (sl_worker s), sl_paused := b\<rparr>"
  have pub: "published t = j" "buffers_ok t"
    using published_set [OF ok, of j] buffers_set [OF ok, of j] by (simp_all add: t_def published_def buffers_ok_def)
  have seq: "w_sequence (sl_worker t) = word_of_nat (Suc n)" "l_sequence (sl_worker t) = word_of_nat k"
      "l_jobId (sl_worker t) = l_jobId (sl_worker s)"
    using k by (simp_all add: t_def setJob_def Let_def)
  have "(word_of_nat (Suc n) :: u64) \<noteq> word_of_nat k" using k N by (intro sequence_neq) simp_all
  moreover have "l_jobId (sl_worker s) \<in> V" using inv by (simp add: slot_inv_def)
  ultimately have "slot_inv (N + 1) V M' t" unfolding slot_inv_def pub seq
    using pub(2) j k by (intro conjI exI [of _ k] exI [of _ "Suc n"]) (simp_all del: of_nat_Suc)
  then show ?thesis by (simp add: t_def)
qed

lemma getVM_user: "RandomX_getVM User i M = Some p \<Longrightarrow> \<exists>x. m_userInstance M = Some x \<and> m_initialized x \<and> Some p \<in> set (m_vms x)"
  unfolding RandomX_getVM_def RxInstance_getVM_def
  by (auto split: option.splits if_splits) (metis nat_less_iff nth_mem)

text \<open>After a look at its job a running worker is settled.\<close>

lemma poll_settles:
  assumes inv: "slot_inv N V M s" and run: "\<not> sl_paused s" and fit: "fits M (published s)" and N: "N < 2 ^ 64"
  shows "settled M (poll_slot M s)" "slot_inv N V M (poll_slot M s)"
    "l_jobId (sl_worker (poll_slot M s)) \<in> {l_jobId (sl_worker s), j_id (published s)}"
proof -
  obtain k n where k: "k \<le> n" "n \<le> N" "w_sequence (sl_worker s) = word_of_nat n" "l_sequence (sl_worker s) = word_of_nat k"
      "k < n \<longrightarrow> j_id (published s) \<noteq> l_jobId (sl_worker s)"
    using inv by (auto simp: slot_inv_def)
  show set: "settled M (poll_slot M s)"
  proof (cases "k = n")
    case True
    then have "poll_slot M s = s" using k by (simp add: poll_slot_def poll_job_def job_instance_def)
    moreover have "settled M s" using inv k True run by (simp add: slot_inv_def)
    ultimately show ?thesis by simp
  next
    case False
    then have "w_sequence (sl_worker s) \<noteq> l_sequence (sl_worker s)" "j_id (published s) \<noteq> l_jobId (sl_worker s)"
      using k N sequence_neq [of k n] by simp_all
    moreover have "j_rxInstanceId (published s) = 0" using inv by (simp add: slot_inv_def)
    ultimately show ?thesis using run fit getVM_user
      by (simp add: settled_def poll_slot_def poll_job_def job_instance_def published_def [symmetric] Let_def rx_env_of_def fits_def)
  qed
  show "l_jobId (sl_worker (poll_slot M s)) \<in> {l_jobId (sl_worker s), j_id (published s)}"
    by (simp add: poll_slot_def poll_job_def job_instance_def published_def Let_def)
  moreover have "w_sequence (sl_worker (poll_slot M s)) = word_of_nat n" "l_sequence (sl_worker (poll_slot M s)) = word_of_nat n"
    using k run by (simp_all add: poll_slot_def poll_job_def job_instance_def Let_def)
  ultimately show "slot_inv N V M (poll_slot M s)"
    using inv set k unfolding slot_inv_def by (auto intro!: exI [of _ n])
qed

section \<open>The invariant\<close>

definition busy :: "miner \<Rightarrow> bool" where
  "busy m \<longleftrightarrow> mi_pending m \<noteq> None \<or> mi_initRunning m \<noteq> None"

text \<open>No worker has been shown or has read a job with this id.\<close>

definition unseen :: "job \<Rightarrow> slot list \<Rightarrow> bool" where
  "unseen j ws \<longleftrightarrow> j_id j \<noteq> '''' \<and> (\<forall>s\<in>set ws. j_id j \<noteq> j_id (published s) \<and> j_id j \<noteq> l_jobId (sl_worker s))"

definition slots_inv :: "nat \<Rightarrow> string set \<Rightarrow> miner \<Rightarrow> bool" where
  "slots_inv N V m \<longleftrightarrow> (\<forall>s\<in>set (mi_workers m). slot_inv N V (mi_rx m) s
     \<and> (if busy m then sl_paused s else fits (mi_rx m) (published s)))"

definition requests_inv :: "string set \<Rightarrow> miner \<Rightarrow> bool" where
  "requests_inv V m \<longleftrightarrow> (\<forall>req. mi_pending m = Some req \<longrightarrow> j_id (rq_job req) \<in> V \<and> unseen (rq_job req) (mi_workers m))
     \<and> (\<forall>req ok. mi_initRunning m = Some (req, ok) \<longrightarrow>
          ok \<and> fits (mi_rx m) (rq_job req) \<and> j_id (rq_job req) \<in> V \<and> unseen (rq_job req) (mi_workers m)
          \<and> (\<forall>next. mi_pending m = Some next \<longrightarrow> j_id (rq_job next) \<noteq> j_id (rq_job req)))"

definition safe_inv :: "nat \<Rightarrow> string set \<Rightarrow> miner \<Rightarrow> bool" where
  "safe_inv N V m \<longleftrightarrow> manager_ok (mi_rx m) \<and> '''' \<in> V \<and> \<not> mi_devFeeActive m \<and> \<not> mi_devJobReady m \<and> \<not> mi_poolDisconnected m
     \<and> slots_inv N V m \<and> requests_inv V m"

lemma set_all_slots:
  assumes "\<forall>s\<in>set ws. slot_inv N V M s" and "j_rxInstanceId j = 0" "j_id j \<in> V" and "unseen j ws" and "N + 1 < 2 ^ 64"
    and "t \<in> set (set_all j ws)"
  shows "slot_inv (N + 1) V M' t \<and> slot_inv (N + 1) V M' (t\<lparr>sl_paused := False\<rparr>) \<and> published t = j
    \<and> (\<exists>s\<in>set ws. sl_paused t = sl_paused s \<and> l_jobId (sl_worker t) = l_jobId (sl_worker s))"
proof -
  obtain s where s: "s \<in> set ws" "t = s\<lparr>sl_worker := setJob j (sl_worker s)\<rparr>" using assms(6) by (auto simp: set_all_def)
  have inv: "slot_inv N V M s" and "j_id j \<noteq> l_jobId (sl_worker s)" using assms(1,4) s(1) by (auto simp: unseen_def)
  note set = slot_inv_set [OF this(1) assms(2,3) this(2) assms(5), of M']
  have "published t = j" using inv published_set by (simp add: s(2) slot_inv_def)
  moreover have "t = s\<lparr>sl_worker := setJob j (sl_worker s), sl_paused := sl_paused s\<rparr>" by (simp add: s(2))
  moreover have "l_jobId (sl_worker t) = l_jobId (sl_worker s)" "sl_paused t = sl_paused s" by (simp_all add: s(2) setJob_def Let_def)
  ultimately show ?thesis using set [of "sl_paused s"] set [of False] s(1) by auto
qed

lemma unseen_set_all:
  assumes "\<forall>s\<in>set ws. slot_inv N V M s" and "j_rxInstanceId j = 0" "j_id j \<in> V" and "unseen j ws" and "N + 1 < 2 ^ 64"
    and "unseen i ws" and "j_id i \<noteq> j_id j"
  shows "unseen i (set_all j ws)"
  using set_all_slots [OF assms(1-5)] assms(6,7) unfolding unseen_def by metis

lemma unseen_pause [simp]: "unseen j (pause_all ws) = unseen j ws"
  by (auto simp: unseen_def pause_all_def)

lemma stamp_simps [simp]: "j_id (stamp i m j) = j_id j" "j_seedHash (stamp i m j) = j_seedHash j" "j_rxInstanceId (stamp i m j) = i"
  "unseen (stamp i m j) ws = unseen j ws" "fits M (stamp i m j) = fits M j"
  by (simp_all add: stamp_def unseen_def fits_def)

text \<open>A new job of the user's pool.\<close>

lemma safe_onJob:
  assumes inv: "safe_inv N V m" and new: "j_id j \<notin> V" and N: "N + 1 < 2 ^ 64"
  shows "safe_inv (N + 1) (insert (j_id j) V) (onJob cf j m)"
proof -
  have slots: "\<forall>s\<in>set (mi_workers m). slot_inv N (insert (j_id j) V) (mi_rx m) s"
    using inv slot_inv_mono unfolding safe_inv_def slots_inv_def by blast
  have id: "j_id j \<noteq> ''''" using inv new by (auto simp: safe_inv_def)
  have unseen: "unseen j (mi_workers m)" using inv new id unfolding safe_inv_def slots_inv_def slot_inv_def unseen_def by metis
  show ?thesis
  proof (cases "needs_init cf j m \<or> job_algo cf j \<noteq> mi_currentAlgo m")
    case True
    define ws where "ws = (if job_algo cf j \<noteq> mi_currentAlgo m then [] else pause_all (mi_workers m))"
    define n where "n = onJob cf j m"
    have n: "mi_workers n = ws" "mi_rx n = mi_rx m" "mi_initRunning n = mi_initRunning m" "rq_job (the (mi_pending n)) = j" "mi_pending n \<noteq> None"
        "mi_devFeeActive n = mi_devFeeActive m" "mi_devJobReady n = mi_devJobReady m" "mi_poolDisconnected n = mi_poolDisconnected m"
      using True by (auto simp: n_def onJob_def ws_def Let_def)
    have "\<forall>s\<in>set ws. slot_inv (N + 1) (insert (j_id j) V) (mi_rx m) s \<and> sl_paused s"
      using slots slot_inv_paused [OF slot_inv_mono [of N _ _ _ "N + 1", OF _ _ order.refl]] by (auto simp: ws_def pause_all_def)
    then have "slots_inv (N + 1) (insert (j_id j) V) n" using n by (auto simp: slots_inv_def busy_def)
    moreover have "requests_inv (insert (j_id j) V) n"
    proof -
      have "unseen i (mi_workers m) \<Longrightarrow> unseen i ws" for i by (auto simp: ws_def unseen_def pause_all_def)
      then show ?thesis using inv n unseen new by (auto simp: requests_inv_def safe_inv_def)
    qed
    ultimately show ?thesis using inv n by (simp add: safe_inv_def n_def)
  next
    case False
    define n cj where "n = onJob cf j m" and "cj = stamp 0 m j"
    have n: "mi_workers n = set_all cj (mi_workers m)" "mi_rx n = mi_rx m" "mi_initRunning n = mi_initRunning m" "mi_pending n = mi_pending m"
        "mi_devFeeActive n = mi_devFeeActive m" "mi_devJobReady n = mi_devJobReady m" "\<not> mi_poolDisconnected n"
      using False inv by (auto simp: n_def cj_def onJob_def safe_inv_def Let_def)
    have set: "slot_inv (N + 1) (insert (j_id j) V) (mi_rx m) t \<and> published t = cj \<and> (\<exists>s\<in>set (mi_workers m). sl_paused t = sl_paused s)"
      if "t \<in> set (set_all cj (mi_workers m))" for t
      using set_all_slots [OF slots _ _ _ N that] unseen by (auto simp: cj_def)
    have "fits (mi_rx m) cj" using False by (auto simp: cj_def fits_def needs_init_def)
    then have "slots_inv (N + 1) (insert (j_id j) V) n" using set n inv
      by (fastforce simp: slots_inv_def busy_def safe_inv_def)
    moreover have "unseen i (set_all cj (mi_workers m))" if "unseen i (mi_workers m)" "j_id i \<in> V" for i
      using unseen_set_all [OF slots _ _ _ N that(1), of cj] unseen new that(2) by (cases "j_id i = j_id j") (auto simp: cj_def)
    then have "requests_inv (insert (j_id j) V) n" using inv n by (auto simp: requests_inv_def safe_inv_def)
    ultimately show ?thesis using inv n by (simp add: safe_inv_def n_def)
  qed
qed

text \<open>The two halves of \<open>rxInitLoop\<close>.\<close>

lemma safe_init:
  assumes inv: "safe_inv N V m" and orc: "granted orc"
  shows "safe_inv N V (rx_init_take orc cf m)"
proof (cases "mi_initRunning m = None \<and> mi_pending m \<noteq> None")
  case False
  then have "rx_init_take orc cf m = m" by (auto simp: rx_init_take_def split: option.splits)
  then show ?thesis using inv by simp
next
  case True
  then obtain req where req: "mi_pending m = Some req" and run: "mi_initRunning m = None" by auto
  define start where "start rid algo = RandomX_init orc rid (j_seedHash (rq_job req)) (rq_threadCount req) algo
      (cf_hugePagesEnabled cf) True (cf_oneGbHugePagesEnabled cf)" for rid algo
  have M: "manager_ok (mi_rx m)" using inv by (simp add: safe_inv_def)
  obtain M1 where M1: "start User (rq_algo req) (mi_rx m) = (True, M1)"
    using RandomX_init_succeeds [OF orc M, of User] unfolding start_def by blast
  note one = RandomX_init_ok [OF M granted_vms [OF orc] _ M1 [unfolded start_def]]
  define both where "both = (mi_devFeeEnabled m \<and> \<not> mi_rxInitialized m)"
  define M2 where "M2 = (if both then snd (start Dev RX_0 M1) else M1)"
  have M2: "manager_ok M2" "m_userInstance M2 = m_userInstance M1"
  proof -
    obtain b M3 where M3: "start Dev RX_0 M1 = (b, M3)" by fastforce
    from one have "manager_ok M1" by simp
    from RandomX_init_ok [OF this granted_vms [OF orc] _ M3 [unfolded start_def]] one
    show "manager_ok M2" "m_userInstance M2 = m_userInstance M1" by (simp_all add: M2_def M3)
  qed
  have "fits M2 (rq_job req)" using one M2(2) by (auto simp: fits_def RandomX_isSeedValid_def isValidForSeed_def)
  moreover have n: "rx_init_take orc cf m = m\<lparr>mi_pending := None, mi_rx := M2, mi_rxInitialized := (mi_rxInitialized m \<or> both),
      mi_initRunning := Some (req, True)\<rparr>"
    using M1 by (simp add: rx_init_take_def req run start_def [symmetric] Let_def both_def [symmetric] M2_def)
  moreover have "slot_inv N V M2 s \<and> sl_paused s" if "s \<in> set (mi_workers m)" for s
  proof -
    have s: "slot_inv N V (mi_rx m) s" "sl_paused s" using inv req that by (auto simp: safe_inv_def slots_inv_def busy_def)
    then show ?thesis using slot_inv_paused [OF s(1), of M2] by (simp add: slot_inv_def)
  qed
  ultimately show ?thesis using inv M2(1) req run
    by (auto simp: safe_inv_def slots_inv_def requests_inv_def busy_def)
qed

lemma safe_resume:
  assumes inv: "safe_inv N V m" and N: "N + 1 < 2 ^ 64"
  shows "safe_inv (N + 1) V (rx_init_resume cf m)"
proof (cases "mi_initRunning m")
  case None
  then have "rx_init_resume cf m = m" by (simp add: rx_init_resume_def)
  then show ?thesis using inv slot_inv_mono [of N V _ _ "N + 1" V] by (auto simp: safe_inv_def slots_inv_def)
next
  case (Some r)
  then obtain req where run: "mi_initRunning m = Some (req, True)" using inv by (cases r) (auto simp: safe_inv_def requests_inv_def)
  then have req: "fits (mi_rx m) (rq_job req)" "j_id (rq_job req) \<in> V" "unseen (rq_job req) (mi_workers m)"
    using inv by (auto simp: safe_inv_def requests_inv_def)
  show ?thesis
  proof (cases "mi_pending m")
    case pending: (Some next')
    then have "rx_init_resume cf m = m\<lparr>mi_initRunning := None\<rparr>" using run by (simp add: rx_init_resume_def)
    then show ?thesis using inv pending slot_inv_mono [of N V _ _ "N + 1" V]
      by (auto simp: safe_inv_def slots_inv_def requests_inv_def busy_def)
  next
    case None
    define ws where "ws = (if rq_needRecreateWorkers req then mi_workers m @ new_workers (rq_threadCount req) else mi_workers m)"
    define cj where "cj = stamp 0 m (rq_job req)"
    define vs where "vs = (if rq_needRecreateWorkers req then set_all cj ws else resume_all (set_all cj ws))"
    define n where "n = rx_init_resume cf m"
    have n: "mi_workers n = vs" "mi_rx n = mi_rx m" "mi_pending n = None" "mi_initRunning n = None" "\<not> mi_devFeeActive n" "\<not> mi_devJobReady n"
        "\<not> mi_poolDisconnected n"
      using run None inv by (simp_all add: n_def rx_init_resume_def safe_inv_def Let_def ws_def cj_def vs_def)
    have V: "'''' \<in> V" using inv by (simp add: safe_inv_def)
    have slots: "\<forall>s\<in>set ws. slot_inv N V (mi_rx m) s"
      using inv slot_inv_new [OF V] by (auto simp: ws_def safe_inv_def slots_inv_def)
    have "unseen (rq_job req) ws" using req(3) slot_inv_new [OF V] by (auto simp: ws_def unseen_def)
    then have "slot_inv (N + 1) V (mi_rx m) t \<and> published t = cj" if "t \<in> set vs" for t
      using that set_all_slots [OF slots _ _ _ N, of cj _ "mi_rx m"] req(2)
      by (auto simp: vs_def cj_def resume_all_def split: if_splits)
    moreover have "fits (mi_rx m) cj" using req(1) by (simp add: cj_def)
    ultimately have "slots_inv (N + 1) V n" using n by (auto simp: slots_inv_def busy_def)
    then show ?thesis using inv n by (simp add: safe_inv_def requests_inv_def n_def)
  qed
qed

lemma safe_poll:
  assumes inv: "safe_inv N V m" and N: "N < 2 ^ 64" and i: "i < length (mi_workers m)"
  shows "safe_inv N V (m\<lparr>mi_workers := (mi_workers m)[i := poll_slot (mi_rx m) (mi_workers m ! i)]\<rparr>)"
proof -
  define s where "s = mi_workers m ! i"
  have s: "s \<in> set (mi_workers m)" using i by (simp add: s_def)
  show ?thesis
  proof (cases "busy m")
    case True
    then have "poll_slot (mi_rx m) s = s" using inv s by (simp add: safe_inv_def slots_inv_def poll_slot_def)
    then show ?thesis using inv by (simp add: s_def)
  next
    case False
    have "slot_inv N V (mi_rx m) (poll_slot (mi_rx m) s) \<and> fits (mi_rx m) (published (poll_slot (mi_rx m) s))"
    proof (cases "sl_paused s")
      case True
      then have "poll_slot (mi_rx m) s = s" by (simp add: poll_slot_def)
      then show ?thesis using inv s False by (simp add: safe_inv_def slots_inv_def)
    next
      case running: False
      have "slot_inv N V (mi_rx m) s" "fits (mi_rx m) (published s)" using inv s False by (simp_all add: safe_inv_def slots_inv_def)
      then show ?thesis using poll_settles(2) [OF _ running _ N] by simp
    qed
    then have "slots_inv N V (m\<lparr>mi_workers := (mi_workers m)[i := poll_slot (mi_rx m) s]\<rparr>)"
      using inv False unfolding safe_inv_def slots_inv_def busy_def
      by (auto dest!: set_update_subset_insert [THEN subsetD])
    then show ?thesis using inv False by (simp add: safe_inv_def requests_inv_def busy_def s_def)
  qed
qed

section \<open>While only the user's pool sends jobs\<close>

fun user_event :: "event \<Rightarrow> bool" where
  "user_event (Ev_devJob j) = False"
| "user_event Ev_disconnected = False"
| "user_event e = True"

fun event_jobs :: "event \<Rightarrow> job list" where
  "event_jobs (Ev_job j) = [j]"
| "event_jobs e = []"

definition job_ids :: "event list \<Rightarrow> string list" where
  "job_ids es = map j_id (concat (map event_jobs es))"

lemma safe_step:
  assumes inv: "safe_inv N V m" and orc: "granted orc" and e: "user_event e" and N: "N + 1 < 2 ^ 64"
    and new: "set (job_ids [e]) \<inter> V = {}"
  shows "safe_inv (N + 1) (V \<union> set (job_ids [e])) (miner_step orc cf e m)"
proof -
  have mono: "safe_inv N V n \<Longrightarrow> safe_inv (N + 1) V n" for n
    using slot_inv_mono [of N V _ _ "N + 1" V] by (auto simp: safe_inv_def slots_inv_def)
  show ?thesis
  proof (cases e)
    case (Ev_job j)
    then show ?thesis using safe_onJob [OF inv _ N] new by (simp add: job_ids_def)
  next
    case (Ev_tick now later)
    then have "mi_workers (miner_step orc cf e m) = mi_workers m \<and> mi_rx (miner_step orc cf e m) = mi_rx m
        \<and> mi_pending (miner_step orc cf e m) = mi_pending m \<and> mi_initRunning (miner_step orc cf e m) = mi_initRunning m
        \<and> mi_devFeeActive (miner_step orc cf e m) = mi_devFeeActive m \<and> mi_devJobReady (miner_step orc cf e m) = mi_devJobReady m
        \<and> mi_poolDisconnected (miner_step orc cf e m) = mi_poolDisconnected m"
      using inv by (simp add: safe_inv_def dev_fee_tick_def checkDevFee_def switchToDevPool_def Let_def)
    then have "safe_inv N V (miner_step orc cf e m)" using inv by (auto simp: safe_inv_def slots_inv_def requests_inv_def busy_def)
    then show ?thesis using mono Ev_tick by (simp add: job_ids_def)
  next
    case (Ev_submit sent r)
    then have "safe_inv N V (miner_step orc cf e m)" using inv
      by (auto simp: onSubmit_def safe_inv_def slots_inv_def requests_inv_def busy_def)
    then show ?thesis using mono Ev_submit by (simp add: job_ids_def)
  next
    case Ev_init
    then show ?thesis using mono safe_init [OF inv orc] by (simp add: job_ids_def)
  next
    case Ev_resume
    then show ?thesis using safe_resume [OF inv N] by (simp add: job_ids_def)
  next
    case (Ev_poll i)
    then show ?thesis using mono safe_poll [OF inv, of i] N inv by (simp add: job_ids_def)
  next
    case Ev_stop
    have "manager_ok (RandomX_release_all (mi_rx m))"
      using inv RandomX_release_ok by (simp add: safe_inv_def RandomX_release_all_def)
    then have "safe_inv N V (miner_step orc cf e m)" using inv Ev_stop
      by (auto simp: miner_stop_def safe_inv_def slots_inv_def requests_inv_def unseen_def)
    then show ?thesis using mono Ev_stop by (simp add: job_ids_def)
  qed (use e in simp_all)
qed

lemma safe_run:
  assumes "safe_inv N V m" and "granted orc" and "list_all user_event es" and "N + length es < 2 ^ 64"
    and "set (job_ids es) \<inter> V = {}" and "distinct (job_ids es)"
  shows "\<exists>N' V'. N' < 2 ^ 64 \<and> safe_inv N' V' (miner_events orc cf es m)"
  using assms
proof (induction es arbitrary: N V m)
  case (Cons e es)
  have ids: "job_ids (e # es) = job_ids [e] @ job_ids es" by (simp add: job_ids_def)
  have "safe_inv (N + 1) (V \<union> set (job_ids [e])) (miner_next_event orc cf e m)"
  proof (cases "mi_running m")
    case True
    then show ?thesis using safe_step [OF Cons.prems(1,2)] Cons.prems(3-5) by (auto simp: miner_next_event_def ids)
  next
    case False
    then show ?thesis using Cons.prems(1) slot_inv_mono [of N V _ _ "N + 1" "V \<union> set (job_ids [e])"]
      by (auto simp: miner_next_event_def safe_inv_def slots_inv_def requests_inv_def)
  qed
  from Cons.IH [OF this] show ?case using Cons.prems(2-6) unfolding ids by auto
qed force

lemma safe_start: "safe_inv 0 {''''} (miner_start cf devOk now)"
  using slot_inv_new [of "{''''}" _ _ 0] manager_ok_start buffers_new
  by (auto simp: safe_inv_def miner_start_def slots_inv_def requests_inv_def busy_def fits_def empty_job_def)


section \<open>The first job\<close>

text \<open>A request is taken; the instances are brought up.\<close>

lemma init_take_granted:
  assumes orc: "granted orc" and M: "manager_ok (mi_rx m)" and req: "mi_pending m = Some req" "mi_initRunning m = None"
    and new: "\<not> RandomX_isSeedValid User (j_seedHash (rq_job req)) (mi_rx m)"
  shows "\<exists>M y. rx_init_take orc cf m = m\<lparr>mi_pending := None, mi_rx := M, mi_rxInitialized := (mi_rxInitialized m \<or> mi_devFeeEnabled m),
        mi_initRunning := Some (req, True)\<rparr>
    \<and> manager_ok M \<and> m_userInstance M = Some y \<and> m_initialized y \<and> m_seedHash y = j_seedHash (rq_job req) \<and> m_algo y = rq_algo req
    \<and> machines_ok (rq_threadCount req) y
    \<and> (\<forall>x p. m_userInstance (mi_rx m) = Some x \<longrightarrow> Some p \<in> set (m_vms x) \<longrightarrow> gone p (m_world M))
    \<and> (mi_devFeeEnabled m \<and> \<not> mi_rxInitialized m \<longrightarrow> RandomX_isSeedValid Dev (j_seedHash (rq_job req)) M)"
proof -
  define start where "start rid algo = RandomX_init orc rid (j_seedHash (rq_job req)) (rq_threadCount req) algo
      (cf_hugePagesEnabled cf) True (cf_oneGbHugePagesEnabled cf)" for rid algo
  have "\<forall>x. rx_resolve User (mi_rx m) = Some x \<longrightarrow>
      \<not> (m_initialized x \<and> m_seedHash x = j_seedHash (rq_job req) \<and> m_algo x = rq_algo req)"
    using new by (auto simp: RandomX_isSeedValid_def isValidForSeed_def)
  from RandomX_init_granted [OF orc M _ this] obtain M1 y where
    M1: "start User (rq_algo req) (mi_rx m) = (True, M1)" "m_userInstance M1 = Some y" "machines_ok (rq_threadCount req) y"
      "\<forall>x p. m_userInstance (mi_rx m) = Some x \<longrightarrow> Some p \<in> set (m_vms x) \<longrightarrow> gone p (m_world M1)"
    unfolding start_def by fastforce
  note one = RandomX_init_ok [OF M granted_vms [OF orc] _ M1(1) [unfolded start_def]]
  then have M1_ok: "manager_ok M1" and y: "m_initialized y" "m_seedHash y = j_seedHash (rq_job req)" "m_algo y = rq_algo req"
    using M1(2) by auto
  obtain M3 where M3: "start Dev RX_0 M1 = (True, M3)"
    using RandomX_init_succeeds [OF orc M1_ok, of Dev] unfolding start_def by blast
  note two = RandomX_init_ok [OF M1_ok granted_vms [OF orc] _ M3 [unfolded start_def]]
  define both where "both = (mi_devFeeEnabled m \<and> \<not> mi_rxInitialized m)"
  define M2 where "M2 = (if both then M3 else M1)"
  have "rx_init_take orc cf m = m\<lparr>mi_pending := None, mi_rx := M2, mi_rxInitialized := (mi_rxInitialized m \<or> both),
      mi_initRunning := Some (req, True)\<rparr>"
    using M1 M3 by (simp add: rx_init_take_def req start_def [symmetric] Let_def both_def [symmetric] M2_def)
  moreover have "manager_ok M2" "m_userInstance M2 = Some y" using M1_ok two M1(2) by (simp_all add: M2_def)
  moreover have "gone p (m_world M1) \<Longrightarrow> gone p (m_world M2)" for p
    using RandomX_init_gone [OF M3 [unfolded start_def]] by (simp add: M2_def)
  moreover have "both \<Longrightarrow> RandomX_isSeedValid Dev (j_seedHash (rq_job req)) M2"
    using two by (auto simp: M2_def RandomX_isSeedValid_def isValidForSeed_def)
  moreover have "(mi_rxInitialized m \<or> both) = (mi_rxInitialized m \<or> mi_devFeeEnabled m)" by (auto simp: both_def)
  ultimately show ?thesis using y M1(3,4) by (intro exI [of _ M2] exI [of _ y]) (auto simp: both_def)
qed

text \<open>The miner right after its first job: nothing mined yet.\<close>

lemma first_job:
  assumes orc: "granted orc" and j: "job_algo cf j = cf_rxAlgo cf" "j_seedHash j \<noteq> ''''"
    and n: "n = threadsForAlgo cf (cf_rxAlgo cf)"
  shows "\<exists>M y. miner_events orc cf [Ev_job j, Ev_init, Ev_resume] (miner_start cf True 0) = (miner_start cf True 0)\<lparr>
        mi_workers := set_all (j\<lparr>j_sequence := 1, j_rxInstanceId := 0\<rparr>) (new_workers n), mi_rx := M, mi_ready := True,
        mi_currentDiff := j_diff j, mi_currentJob := j\<lparr>j_sequence := 1, j_rxInstanceId := 0\<rparr>, mi_rxInitialized := True, mi_jobSequence := 1\<rparr>
    \<and> manager_ok M \<and> m_userInstance M = Some y \<and> m_initialized y \<and> m_seedHash y = j_seedHash j \<and> machines_ok n y
    \<and> RandomX_isSeedValid Dev (j_seedHash j) M"
proof -
  define req where "req = \<lparr>rq_job = j, rq_algo = cf_rxAlgo cf, rq_threadCount = n, rq_needRecreateWorkers = False\<rparr>"
  define m1 where "m1 = onJob cf j (miner_start cf True 0)"
  have m1: "m1 = (miner_start cf True 0)\<lparr>mi_workers := pause_all (new_workers n), mi_pending := Some req\<rparr>"
    using j by (simp add: m1_def onJob_def needs_init_def miner_start_def rx_start_def RandomX_isSeedValid_def req_def n Let_def)
  have "\<not> RandomX_isSeedValid User (j_seedHash (rq_job req)) (mi_rx m1)"
    by (simp add: m1 miner_start_def rx_start_def RandomX_isSeedValid_def)
  from init_take_granted [OF orc _ _ _ this, of cf] manager_ok_start obtain M y where
    m2: "rx_init_take orc cf m1 = m1\<lparr>mi_pending := None, mi_rx := M, mi_rxInitialized := True, mi_initRunning := Some (req, True)\<rparr>"
    and M: "manager_ok M" "m_userInstance M = Some y" "m_initialized y" "m_seedHash y = j_seedHash j" "machines_ok n y"
      "RandomX_isSeedValid Dev (j_seedHash j) M"
    by (auto simp: m1 miner_start_def req_def)
  have paused: "resume_all (set_all cj (pause_all (new_workers n))) = set_all cj (new_workers n)" for cj
    by (simp add: resume_all_def set_all_def pause_all_def new_workers_def)
  have run: "miner_events orc cf [Ev_job j, Ev_init, Ev_resume] (miner_start cf True 0) = rx_init_resume cf (rx_init_take orc cf m1)"
    by (subst no_stop_events) (simp_all add: miner_start_def m1_def)
  show ?thesis unfolding run m2 using M
    by (intro exI [of _ M] exI [of _ y]) (simp add: m1 rx_init_resume_def miner_start_def stamp_def paused req_def Let_def)
qed

text \<open>The developer's period after it; both pools have sent jobs of the same seed.\<close>

definition dev_state :: "miner_config \<Rightarrow> rx_manager \<Rightarrow> job \<Rightarrow> job \<Rightarrow> nat \<Rightarrow> miner" where
  "dev_state cf M jA dA t = (miner_start cf True 0)\<lparr>
     mi_workers := set_all (dA\<lparr>j_sequence := 2, j_rxInstanceId := 1\<rparr>) (set_all (jA\<lparr>j_sequence := 1, j_rxInstanceId := 0\<rparr>)
       (new_workers (threadsForAlgo cf (cf_rxAlgo cf)))), mi_rx := M, mi_ready := True,
     mi_currentDiff := j_diff jA, mi_currentJob := jA\<lparr>j_sequence := 1, j_rxInstanceId := 0\<rparr>,
     mi_devJob := dA\<lparr>j_sequence := 2, j_rxInstanceId := 1\<rparr>, mi_jobSequence := 2, mi_devJobReady := True, mi_rxInitialized := True,
     mi_userMiningSeconds := seconds t, mi_lastDevFeeCheck := t, mi_devFeeActive := True, mi_devFeeStart := t\<rparr>"

definition dev_period_events :: "job \<Rightarrow> job \<Rightarrow> nat \<Rightarrow> event list" where
  "dev_period_events jA dA t = [Ev_job jA, Ev_init, Ev_resume, Ev_devJob dA, Ev_tick t t]"

lemma dev_period:
  assumes orc: "granted orc" and t: "DEV_FEE_INTERVAL * 1000000000 \<le> t" and algo: "job_algo cf jA = cf_rxAlgo cf"
    and seed: "j_seedHash jA \<noteq> ''''" "j_seedHash dA = j_seedHash jA"
  shows "\<exists>M y. miner_events orc cf (dev_period_events jA dA t) (miner_start cf True 0) = dev_state cf M jA dA t
    \<and> manager_ok M \<and> m_userInstance M = Some y \<and> m_initialized y \<and> m_seedHash y = j_seedHash jA
    \<and> machines_ok (threadsForAlgo cf (cf_rxAlgo cf)) y \<and> RandomX_isSeedValid Dev (j_seedHash jA) M"
proof -
  obtain M y m3 where first: "miner_events orc cf [Ev_job jA, Ev_init, Ev_resume] (miner_start cf True 0) = m3"
    and m3: "m3 = (miner_start cf True 0)\<lparr>
        mi_workers := set_all (jA\<lparr>j_sequence := 1, j_rxInstanceId := 0\<rparr>) (new_workers (threadsForAlgo cf (cf_rxAlgo cf))), mi_rx := M, mi_ready := True,
        mi_currentDiff := j_diff jA, mi_currentJob := jA\<lparr>j_sequence := 1, j_rxInstanceId := 0\<rparr>, mi_rxInitialized := True, mi_jobSequence := 1\<rparr>"
    and M: "manager_ok M" "m_userInstance M = Some y" "m_initialized y" "m_seedHash y = j_seedHash jA"
      "machines_ok (threadsForAlgo cf (cf_rxAlgo cf)) y" "RandomX_isSeedValid Dev (j_seedHash jA) M"
    using first_job [OF orc algo seed(1) refl] by blast
  have "onDevJob orc cf dA m3 = m3\<lparr>mi_devJob := dA\<lparr>j_sequence := 2, j_rxInstanceId := 1\<rparr>, mi_jobSequence := 2, mi_devJobReady := True\<rparr>"
    using M(6) seed(2) by (simp add: onDevJob_def dev_instance_ready_def m3 miner_start_def stamp_def)
  moreover have "DEV_FEE_INTERVAL \<le> seconds t" using t by (simp add: seconds_def less_eq_div_iff_mult_less_eq)
  ultimately have "dev_fee_tick t t (onDevJob orc cf dA m3) = dev_state cf M jA dA t" using M(6) seed(2)
    by (simp add: dev_state_def dev_fee_tick_def checkDevFee_def switchToDevPool_def m3 miner_start_def)
  moreover have "miner_events orc cf (dev_period_events jA dA t) (miner_start cf True 0) = miner_events orc cf [Ev_devJob dA, Ev_tick t t] m3"
    by (simp add: dev_period_events_def first [symmetric])
  moreover have "\<dots> = dev_fee_tick t t (onDevJob orc cf dA m3)"
    by (subst no_stop_events) (simp_all add: m3 miner_start_def)
  ultimately show ?thesis using M by auto
qed

section \<open>When the seed changes in a developer's period\<close>

text \<open>C34: the two pools use the same seed, so that in the developer's period a worker keeps using a machine of the user's
  instance; then the user's pool changes its seed.  The instance is initialised anew, the paused worker is resumed
  but, the period being the developer's, not given a job: it goes on hashing with a machine that was destroyed.\<close>

theorem destroyed_machine_in_developer_period:
  assumes orc: "granted orc" and n: "0 < threadsForAlgo cf (cf_rxAlgo cf)" and t: "DEV_FEE_INTERVAL * 1000000000 \<le> t"
    and algo: "job_algo cf jA = cf_rxAlgo cf" "job_algo cf jB = cf_rxAlgo cf"
    and seed: "j_seedHash jA \<noteq> ''''" "j_seedHash dA = j_seedHash jA" "j_seedHash jB \<noteq> j_seedHash jA" "j_seedHash jB \<noteq> ''''"
    and dev: "j_id dA \<noteq> ''''" "job_isValid dA"
    and m: "m = miner_events orc cf (dev_period_events jA dA t @ [Ev_poll 0, Ev_job jB, Ev_init, Ev_resume, Ev_poll 0]) (miner_start cf True 0)"
    and s: "s = mi_workers m ! 0"
  shows "\<not> sl_paused s \<and> job_isValid (l_job (sl_worker s))
    \<and> (\<exists>p. l_vm (sl_worker s) = Some p \<and> w_live (m_world (mi_rx m)) p = None)"
proof -
  obtain M y m5 where five: "miner_events orc cf (dev_period_events jA dA t) (miner_start cf True 0) = m5"
    and m5: "m5 = dev_state cf M jA dA t"
    and M: "manager_ok M" "m_userInstance M = Some y" "m_initialized y" "m_seedHash y = j_seedHash jA"
      "machines_ok (threadsForAlgo cf (cf_rxAlgo cf)) y" "RandomX_isSeedValid Dev (j_seedHash jA) M"
    using dev_period [OF orc t algo(1) seed(1,2)] by blast
  have valid: "RandomX_isSeedValid User (j_seedHash jA) M" and new: "\<not> RandomX_isSeedValid User (j_seedHash jB) M"
    using M(2-4) seed(3) by (simp_all add: RandomX_isSeedValid_def isValidForSeed_def)
  have "0 < length (m_vms y)" "m_vms y ! 0 \<noteq> None" using M(5) n by (auto simp: machines_ok_def)
  then obtain p where vm: "0 < length (m_vms y)" "m_vms y ! 0 = Some p" by auto
  have p: "RandomX_getVM User 0 M = Some p" "Some p \<in> set (m_vms y)"
    using M(2,3) vm nth_mem [OF vm(1)] by (simp_all add: RandomX_getVM_def RxInstance_getVM_def)
  define s6 where "s6 = poll_slot M (mi_workers m5 ! 0)"
  have w5: "0 < length (mi_workers m5)" using n by (simp add: m5 dev_state_def set_all_def new_workers_def)
  have s6: "\<not> sl_paused s6" "job_isValid (l_job (sl_worker s6))" "l_vm (sl_worker s6) = Some p" "w_sequence (sl_worker s6) = l_sequence (sl_worker s6)"
    using dev p(1) valid seed(2) n
    by (simp_all add: s6_def m5 dev_state_def set_all_def new_workers_def poll_slot_def poll_job_def job_instance_def setJob_def new_worker_def rx_env_of_def
        job_isValid_def Let_def)
  define ws where "ws = (mi_workers m5)[0 := s6]"
  have ws: "ws ! 0 = s6" "0 < length ws" using w5 by (simp_all add: ws_def)
  define req where "req = \<lparr>rq_job = jB, rq_algo = cf_rxAlgo cf, rq_threadCount = threadsForAlgo cf (cf_rxAlgo cf), rq_needRecreateWorkers = False\<rparr>"
  define m7 where "m7 = m5\<lparr>mi_workers := pause_all ws, mi_pending := Some req\<rparr>"
  have m7: "onJob cf jB (m5\<lparr>mi_workers := ws\<rparr>) = m7"
    using algo(2) seed(4) new by (simp add: onJob_def needs_init_def m5 dev_state_def miner_start_def m7_def req_def Let_def)
  obtain M' where m8: "rx_init_take orc cf m7 = m7\<lparr>mi_pending := None, mi_rx := M', mi_rxInitialized := True, mi_initRunning := Some (req, True)\<rparr>"
    and gone: "gone p (m_world M')"
    using init_take_granted [OF orc, of m7 req cf] M(1,2) p(2) new by (auto simp: m7_def m5 dev_state_def miner_start_def req_def)
  have "resume_all (pause_all ws) ! 0 = s6" using ws s6(1) by (simp add: resume_all_def pause_all_def)
  then have m9: "mi_workers (rx_init_resume cf (rx_init_take orc cf m7)) ! 0 = s6" "mi_rx (rx_init_resume cf (rx_init_take orc cf m7)) = M'"
    "0 < length (mi_workers (rx_init_resume cf (rx_init_take orc cf m7)))"
    using ws(2) unfolding m8 by (simp_all add: rx_init_resume_def m7_def m5 dev_state_def miner_start_def req_def Let_def resume_all_def pause_all_def)
  have rx: "mi_rx m5 = M" "mi_running m5" by (simp_all add: m5 dev_state_def miner_start_def)
  have "m = miner_events orc cf [Ev_poll 0, Ev_job jB, Ev_init, Ev_resume, Ev_poll 0] m5"
    by (simp add: m five)
  also have "\<dots> = fold (miner_step orc cf) [Ev_poll 0, Ev_job jB, Ev_init, Ev_resume, Ev_poll 0] m5"
    by (rule no_stop_events) (simp_all add: rx)
  also have "\<dots> = miner_step orc cf (Ev_poll 0) (rx_init_resume cf (rx_init_take orc cf m7))"
    using w5 by (simp add: rx s6_def [symmetric] ws_def [symmetric] m7)
  finally have "s = poll_slot M' s6" "mi_rx m = M'" using m9 by (simp_all add: s)
  moreover have "poll_slot M' s6 = s6" using s6(4) by (simp add: poll_slot_def poll_job_def job_instance_def)
  ultimately show ?thesis using s6(1-3) gone by (auto simp: gone_def)
qed

section \<open>Concrete runs\<close>

definition all_granted :: rx_oracle where
  "all_granted n q = True"

definition none_granted :: rx_oracle where
  "none_granted n q = False"

lemma all_granted [simp]: "granted all_granted"
  by (simp add: granted_def all_granted_def)

lemma demo_jobs [simp]:
  "j_id (demo_job i sd) = i" "j_seedHash (demo_job i sd) = sd" "job_isValid (demo_job i sd)"
  "job_algo demo_config (demo_job i sd) = RX_0" "threadsForAlgo demo_config a = 2" "cf_rxAlgo demo_config = RX_0"
  by (simp_all add: demo_job_def empty_job_def job_isValid_def job_algo_def demo_config_def threadsForAlgo_def)

theorem destroyed_machine_in_developer_period_witness:
  "let m = miner_events all_granted demo_config (dev_period_events (demo_job ''a'' ''00'') (demo_job ''d'' ''00'') 5940000000000
       @ [Ev_poll 0, Ev_job (demo_job ''b'' ''01''), Ev_init, Ev_resume, Ev_poll 0]) (miner_start demo_config True 0)
   in \<exists>p. l_vm (sl_worker (mi_workers m ! 0)) = Some p \<and> w_live (m_world (mi_rx m)) p = None"
  unfolding Let_def
  using destroyed_machine_in_developer_period [OF all_granted, of demo_config 5940000000000 "demo_job ''a'' ''00''"
      "demo_job ''b'' ''01''" "demo_job ''d'' ''00''", OF _ _ _ _ _ _ _ _ _ _ refl refl] by simp

theorem workers_mine_for_active_pool_witness:
  "\<exists>m. m = miner_events all_granted demo_config (dev_period_events (demo_job ''a'' ''00'') (demo_job ''d'' ''00'') 5940000000000)
       (miner_start demo_config True 0) \<and> mi_devFeeActive m \<and> published (mi_workers m ! 1) = mi_devJob m"
proof -
  obtain M m where m: "miner_events all_granted demo_config (dev_period_events (demo_job ''a'' ''00'') (demo_job ''d'' ''00'') 5940000000000)
      (miner_start demo_config True 0) = m" and M: "m = dev_state demo_config M (demo_job ''a'' ''00'') (demo_job ''d'' ''00'') 5940000000000"
    using dev_period [OF all_granted, of 5940000000000 demo_config "demo_job ''a'' ''00''" "demo_job ''d'' ''00''"] by auto
  have slot: "mi_workers m ! 1 \<in> set (mi_workers m)" "published (mi_workers m ! 1) \<noteq> empty_job" and active: "mi_devFeeActive m"
    by (simp_all add: M dev_state_def set_all_def new_workers_def published_def setJob_def new_worker_def empty_job_def demo_job_def upt_rec)
  from workers_mine_for_active_pool [OF m slot] active m show ?thesis by auto
qed

text \<open>The workers are switched to the developer's pool after 99 minutes and back after one more.\<close>

theorem dev_fee_schedule_witness:
  "let es = dev_period_events (demo_job ''a'' ''00'') (demo_job ''d'' ''00'') 5940000000000 @ [Ev_tick 6000000000000 6000000000000];
       ts = switches all_granted demo_config es (miner_start demo_config True 0)
   in ts = [5940000000000, 6000000000000] \<and> periods_ok False 0 ts \<and> length ts div 2 * 6000 * 1000000000 \<le> (6000000000000 :: nat)"
proof -
  let ?a = "demo_job ''a'' ''00''" and ?d = "demo_job ''d'' ''00''" and ?t = "5940000000000 :: nat" and ?u = "6000000000000 :: nat"
  let ?m = "miner_start demo_config True 0" and ?before = "[Ev_job ?a, Ev_init, Ev_resume, Ev_devJob ?d]"
  let ?es = "dev_period_events ?a ?d ?t @ [Ev_tick ?u ?u]"
  have es: "dev_period_events ?a ?d ?t = ?before @ [Ev_tick ?t ?t]" by (simp add: dev_period_events_def)
  obtain M m where m: "miner_events all_granted demo_config (dev_period_events ?a ?d ?t) ?m = m" and M: "m = dev_state demo_config M ?a ?d ?t"
    using dev_period [OF all_granted, of ?t demo_config ?a ?d] by auto
  have quiet: "switches all_granted demo_config ?before ?m = []" "\<not> mi_devFeeActive (miner_events all_granted demo_config ?before ?m)"
    using switches_none [of ?before all_granted demo_config ?m] by (simp_all add: tick_times_def miner_start_def)
  have active: "mi_devFeeActive m" "mi_devFeeEnabled m" "mi_devFeeStart m = ?t" "mi_running m" by (simp_all add: M dev_state_def miner_start_def)
  have "miner_next_event all_granted demo_config (Ev_tick ?t ?t) (miner_events all_granted demo_config ?before ?m) = m"
    using m unfolding es by simp
  then have "switches all_granted demo_config (dev_period_events ?a ?d ?t) ?m = [?t]"
    unfolding es switches_append using quiet active(1) by (simp add: Let_def)
  moreover have "switches all_granted demo_config [Ev_tick ?u ?u] m = [?u]"
    using active by (simp add: miner_next_event_def dev_fee_tick_def checkDevFee_def switchToUserPool_def seconds_def)
  ultimately have ts: "switches all_granted demo_config ?es ?m = [?t, ?u]" unfolding switches_append m by simp
  have "sorted (0 # tick_times ?es @ [?u])" by (simp add: dev_period_events_def tick_times_def)
  from dev_fee_schedule [OF this refl, of all_granted demo_config True] show ?thesis unfolding Let_def ts by simp
qed

text \<open>When memory is refused, an instance without machines cannot be brought up.\<close>

lemma refused_init:
  assumes "\<not> m_initialized x"
  shows "\<not> fst (RxInstance_init none_granted seed n algo h a g (x, w))"
proof -
  have "\<not> fst (init_body none_granted seed n algo h a g (y, v))" for y v
    by (auto simp: init_body_def alloc_cache_memory_def rx_try_def none_granted_def Let_def split: option.splits prod.splits)
  then show ?thesis using assms by (auto simp: RxInstance_init_def Let_def split: prod.splits) (metis fst_conv)
qed

lemma refused_createVMs:
  assumes "createVMs none_granted n (x, w) = (b, y, v)" and "0 < n"
  shows "\<not> b \<and> m_initialized y = m_initialized x"
  using assms by (cases n) (auto simp: createVMs_def rx_new_def rx_try_def none_granted_def Let_def)

lemma refused_reinit:
  assumes run: "RxInstance_reinit none_granted seed n a (x, w) = (b, y, v)"
    and x: "m_initialized x" "m_seedHash x \<noteq> seed" "0 < n" "m_cache x \<noteq> None" "m_dataset x \<noteq> None" "\<not> m_mutex x"
  shows "\<not> b \<and> \<not> m_initialized y"
proof -
  define x1 where "x1 = x\<lparr>m_vms := [], m_scratchpads := [], m_seedHash := seed, m_hardwareAES := a\<rparr>"
  obtain x2 w2 where c: "rx_init_cache (seed_bytes seed) (x1, fold rx_free (vm_refs x) w) = (x2, w2)" by fastforce
  obtain x3 w3 where d: "rx_init_dataset (x2\<lparr>m_initialized := False\<rparr>, w2) = (x3, w3)" by fastforce
  have "\<not> m_initialized x3" using d by (auto simp: rx_init_dataset_def Let_def split: option.splits)
  moreover obtain k x4 w4 where v: "createVMs none_granted n (x3, w3) = (k, x4, w4)" by (metis prod_cases3)
  ultimately have "\<not> k" "\<not> m_initialized x4" using refused_createVMs x(3) by blast+
  then show ?thesis using run x c d v
    by (auto simp: RxInstance_reinit_def destroyVMs_eq x1_def [symmetric] split: if_splits)
qed

lemma refused_ready:
  assumes M: "manager_ok (mi_rx m)" and valid: "RandomX_isSeedValid Dev seed (mi_rx m)" and j: "j_seedHash j \<noteq> ''''" "j_seedHash j \<noteq> seed"
    and n: "0 < threadsForAlgo cf (mi_currentAlgo m)"
  shows "\<not> fst (dev_instance_ready none_granted cf j m)"
proof -
  obtain x where x: "m_devInstance (mi_rx m) = Some x" "m_initialized x" "m_seedHash x = seed"
    using valid by (auto simp: RandomX_isSeedValid_def isValidForSeed_def split: option.splits)
  have ok: "instance_ok x (m_world (mi_rx m))" "\<not> m_mutex x" using manager_slot(2,3) [OF M, of Dev] x(1) by simp_all
  obtain b y v where re: "RxInstance_reinit none_granted (j_seedHash j) (threadsForAlgo cf (mi_currentAlgo m)) True (x, m_world (mi_rx m)) = (b, y, v)"
    by (metis prod_cases3)
  have y: "\<not> b \<and> \<not> m_initialized y"
    using refused_reinit [OF re x(2) _ n _ _ ok(2)] x ok(1) j(2) by (simp add: instance_ok_def)
  obtain c z t where i: "RxInstance_init none_granted (j_seedHash j) (threadsForAlgo cf (mi_currentAlgo m)) RX_0 (cf_hugePagesEnabled cf) True
      (cf_oneGbHugePagesEnabled cf) (y, v) = (c, z, t)" by (metis prod_cases3)
  have "\<not> c" using refused_init [of y] y i by (metis fst_conv)
  then show ?thesis using x j re y i
    by (auto simp: dev_instance_ready_def RandomX_isSeedValid_def isValidForSeed_def RandomX_reinit_def RandomX_init_def)
qed

theorem failed_developer_job_never_returns_witness:
  "\<exists>m. m = miner_events all_granted demo_config (dev_period_events (demo_job ''a'' ''00'') (demo_job ''d'' ''00'') 5940000000000)
         (miner_start demo_config True 0)
     \<and> mi_devFeeActive (miner_events none_granted demo_config [Ev_devJob (demo_job ''e'' ''01''), Ev_job (demo_job ''f'' ''00''),
         Ev_tick 7000000000000 7000000000000] m)"
proof -
  obtain M m where m: "m = miner_events all_granted demo_config (dev_period_events (demo_job ''a'' ''00'') (demo_job ''d'' ''00'') 5940000000000)
      (miner_start demo_config True 0)" and M: "m = dev_state demo_config M (demo_job ''a'' ''00'') (demo_job ''d'' ''00'') 5940000000000"
      "manager_ok M" "RandomX_isSeedValid Dev ''00'' M"
    using dev_period [OF all_granted, of 5940000000000 demo_config "demo_job ''a'' ''00''" "demo_job ''d'' ''00''"] by auto
  have "mi_running m" "mi_devFeeActive m" "mi_rx m = M" by (simp_all add: M(1) dev_state_def miner_start_def)
  moreover from this have "\<not> fst (dev_instance_ready none_granted demo_config (demo_job ''e'' ''01'') m)"
    using M(2,3) by (intro refused_ready [of m "''00''"]) simp_all
  ultimately show ?thesis using failed_developer_job_never_returns [OF m _ _ _ refl] m by blast
qed


end
