(* ===== verification/Json_Pieces.thy ===== *)
theory Json_Pieces
  imports CString
begin

text \<open>
  What the settings file and the messages of the pool share: a text is seen as the pieces between its quotation marks, and
  searching for a quoted name finds the first piece that is the name.
\<close>

section \<open>Names and brackets\<close>

abbreviation (input) "DQ \<equiv> CHR 0x22"

definition quoted :: "string \<Rightarrow> string" where
  "quoted k = DQ # k @ [DQ]"

text \<open>How many characters follow an opening bracket up to and including the one that closes it.\<close>

fun close_span :: "char \<Rightarrow> char \<Rightarrow> nat \<Rightarrow> string \<Rightarrow> nat" where
  "close_span op cl 0 s = 0"
| "close_span op cl (Suc d) [] = 0"
| "close_span op cl (Suc d) (c # s) =
     Suc (close_span op cl (if c = op then Suc (Suc d) else if c = cl then d else Suc d) s)"

section \<open>Texts as pieces between quotation marks\<close>

fun joinq :: "string list \<Rightarrow> string" where
  "joinq [] = ''''"
| "joinq [p] = p"
| "joinq (p # q # ps) = p @ DQ # joinq (q # ps)"

fun after_key :: "string \<Rightarrow> string list \<Rightarrow> string list option" where
  "after_key k (p # q # r # ps) = (if q = k then Some (r # ps) else after_key k (q # r # ps))"
| "after_key k ps = None"

definition noquote :: "string \<Rightarrow> bool" where
  "noquote s \<longleftrightarrow> DQ \<notin> set s"

lemma joinq_Cons: "ps \<noteq> [] \<Longrightarrow> joinq (p # ps) = p @ DQ # joinq ps"
  by (cases ps) simp_all

lemma starts_with_noquote:
  "DQ \<notin> set k \<Longrightarrow> DQ \<notin> set q \<Longrightarrow> starts_with (k @ [DQ]) (q @ DQ # t) \<longleftrightarrow> q = k"
proof (induction k arbitrary: q)
  case Nil
  then show ?case by (cases q) auto
next
  case (Cons a k)
  then show ?case by (cases q) auto
qed

lemma starts_with_noquote_end: "DQ \<notin> set q \<Longrightarrow> \<not> starts_with (k @ [DQ]) q"
  by (auto simp: starts_with_iff)

lemma scan_quoted_skip:
  assumes "DQ \<notin> set p"
  shows "scan_from (starts_with (quoted k)) i (p @ s) = scan_from (starts_with (quoted k)) (i + length p) s"
proof (rule scan_from_skip)
  fix j assume "j < length p"
  then have "drop j (p @ s) = p ! j # drop (Suc j) p @ s" "p ! j \<noteq> DQ"
    using assms nth_mem [of j p] by (simp add: Cons_nth_drop_Suc [symmetric], metis)
  then show "\<not> starts_with (quoted k) (drop j (p @ s))" by (simp add: quoted_def)
qed

lemma scan_quoted_end:
  assumes "DQ \<notin> set p"
  shows "scan_from (starts_with (quoted k)) i p = None"
  using scan_quoted_skip [OF assms, of k i "[]"] by (simp add: quoted_def)

lemma scan_quoted_two:
  assumes "noquote p" "noquote q" "noquote k"
  shows "scan_from (starts_with (quoted k)) i (p @ DQ # q) = None"
proof -
  have "\<not> starts_with (quoted k) (DQ # q)" using assms starts_with_noquote_end [of q k] by (simp add: quoted_def noquote_def)
  then show ?thesis
    using assms scan_quoted_skip [of p k i "DQ # q"] scan_quoted_end [of q] by (simp add: noquote_def)
qed

text \<open>The search for a quoted key is \<^const>\<open>after_key\<close>.\<close>

lemma scan_quoted_joinq:
  assumes "\<forall>p\<in>set ps. noquote p" "noquote k"
  shows "(after_key k ps = None \<and> scan_from (starts_with (quoted k)) i (joinq ps) = None) \<or>
         (\<exists>rs u. after_key k ps = Some rs \<and> scan_from (starts_with (quoted k)) i (joinq ps) = Some (i + length u)
             \<and> joinq ps = u @ quoted k @ joinq rs)"
  using assms
proof (induction k ps arbitrary: i rule: after_key.induct)
  case (1 k p q r ps)
  have nq: "DQ \<notin> set p" "DQ \<notin> set q" "DQ \<notin> set k" using 1 by (simp_all add: noquote_def)
  have skip: "scan_from (starts_with (quoted k)) i (joinq (p # q # r # ps))
      = scan_from (starts_with (quoted k)) (i + length p) (DQ # q @ DQ # joinq (r # ps))"
    using scan_quoted_skip [OF nq(1)] by simp
  show ?case
  proof (cases "q = k")
    case True
    then have "scan_from (starts_with (quoted k)) i (joinq (p # q # r # ps)) = Some (i + length p)"
      using nq skip by (simp add: quoted_def starts_with_noquote)
    with True show ?thesis by (auto simp: quoted_def)
  next
    case False
    then have scan: "scan_from (starts_with (quoted k)) i (joinq (p # q # r # ps))
        = scan_from (starts_with (quoted k)) (Suc (i + length p)) (joinq (q # r # ps))"
      using nq skip by (simp add: quoted_def starts_with_noquote)
    have key: "after_key k (p # q # r # ps) = after_key k (q # r # ps)" using False by simp
    let ?f = "scan_from (starts_with (quoted k)) (Suc (i + length p)) (joinq (q # r # ps))"
    consider "after_key k (q # r # ps) = None" "?f = None"
      | rs u where "after_key k (q # r # ps) = Some rs" "?f = Some (Suc (i + length p) + length u)"
          "joinq (q # r # ps) = u @ quoted k @ joinq rs"
      using 1(1) [OF False, of "Suc (i + length p)"] 1(2,3) by auto
    then show ?thesis
    proof cases
      case 1
      then show ?thesis using scan key by simp
    next
      case (2 rs u)
      then have "?f = Some (i + length (p @ DQ # u))" "joinq (p # q # r # ps) = (p @ DQ # u) @ quoted k @ joinq rs"
        by simp_all
      with 2(1) scan key show ?thesis
        by (intro disjI2 exI [of _ rs] exI [of _ "p @ DQ # u"] conjI) (simp_all only:)
    qed
  qed
qed (simp_all add: noquote_def scan_quoted_end scan_quoted_two, simp add: quoted_def)

lemma find_quoted_joinq:
  assumes "\<forall>p\<in>set ps. noquote p" "noquote k"
  shows "(after_key k ps = None \<and> str_find (joinq ps) (quoted k) 0 = None) \<or>
         (\<exists>rs u. after_key k ps = Some rs \<and> str_find (joinq ps) (quoted k) 0 = Some (length u)
             \<and> joinq ps = u @ quoted k @ joinq rs)"
  using scan_quoted_joinq [OF assms, of 0] by (simp add: str_find_def)

lemma contains_key:
  assumes "\<forall>p\<in>set ps. noquote p" "noquote k"
  shows "contains (joinq ps) (quoted k) \<longleftrightarrow> after_key k ps \<noteq> None"
  using find_quoted_joinq [OF assms] by (auto simp: contains_def split: option.splits)

section \<open>Searching\<close>

lemma str_find_char_skip:
  assumes "c \<notin> set v"
  shows "str_find_char (u @ v @ c # t) c (length u) = Some (length u + length v)"
proof -
  have "\<not> (case drop j (v @ c # t) of [] \<Rightarrow> False | d # _ \<Rightarrow> d = c)" if "j < length v" for j
    using that assms nth_mem [of j v] by (auto simp: Cons_nth_drop_Suc [symmetric])
  then show ?thesis
    by (simp add: str_find_char_def str_find_if_def scan_from_skip)
qed

lemma scan_from_None: "scan_from P i s = None \<Longrightarrow> k \<le> length s \<Longrightarrow> \<not> P (drop k s)"
proof (induction P i s arbitrary: k rule: scan_from.induct)
  case (2 P i c cs)
  then show ?case by (cases k) (auto split: if_splits)
qed (simp split: if_splits)

lemma contains_inside: "contains (u @ p @ v) p"
proof (rule ccontr)
  assume "\<not> contains (u @ p @ v) p"
  then have "scan_from (starts_with p) 0 (u @ p @ v) = None" by (simp add: contains_def str_find_def)
  from scan_from_None [OF this, of "length u"] show False by simp
qed

section \<open>Numbers\<close>

definition show_int :: "int \<Rightarrow> string" where
  "show_int i = (if i < 0 then CHR ''-'' # show_nat (nat (- i)) else show_nat (nat i))"

lemma digits_value_stop: "\<not> is_digit c \<Longrightarrow> (\<forall>d\<in>set s. is_digit d) \<Longrightarrow> digits_value a (s @ c # t) = digits_value a s"
  by (induction s arbitrary: a) auto

lemma stoll_show_nat:
  assumes "h < 2 ^ 63" "\<not> is_digit c"
  shows "stoll (show_nat h @ c # t) = Some (int h)"
proof -
  obtain d ds where s: "show_nat h = d # ds" using show_nat_nonempty by (cases "show_nat h") auto
  have d: "is_digit d" using show_nat_digits [of h] s by simp
  have "\<not> is_space d" "d \<noteq> CHR ''-''" "d \<noteq> CHR ''+''" using d by (auto simp: is_space_def is_digit_def)
  moreover have "digits_value 0 (show_nat h @ c # t) = h"
    using assms(2) show_nat_digits by (simp add: digits_value_stop digits_value_show_nat)
  ultimately show ?thesis using s d assms(1) by (simp add: stoll_def parse_signed_def)
qed

lemma find_first_not_of_hit:
  assumes "c \<notin> set cs"
  shows "find_first_not_of (u @ c # t) cs (length u) = Some (length u)"
  using assms by (simp add: find_first_not_of_def str_find_if_def)

end
