(* ===== verification/Config.thy ===== *)
theory Config
  imports Complex_Main Json_Pieces Rx_Algo "HOL-Library.AList"
begin

text \<open>
  \<open>Config.cpp\<close>: the settings, their file and the command line.  A figure of \<open>algoPerf\<close> is a number that \<open>std::stod\<close> reads and
  \<open>std::fixed << std::setprecision(1)\<close> prints; both are arguments, \<open>stod\<close> and \<open>fixed1\<close>.  What the processor offers
  (\<open>CpuInfo\<close>) and the contents of files are arguments too.
\<close>


section \<open>State\<close>

record pool_config =
  p_host :: string
  p_port :: u16
  p_user :: string
  p_pass :: string
  p_tls :: bool

record config =
  g_pool :: pool_config
  g_algoThreads :: "RxAlgo \<Rightarrow> int option"
  g_algoAffinities :: "RxAlgo \<Rightarrow> int list option"
  g_algo :: string
  g_rxAlgo :: RxAlgo
  g_algoSpecified :: bool
  g_apiEnabled :: bool
  g_apiHost :: string
  g_apiPort :: u16
  g_algoPerf :: "(string \<times> real) list"
  g_benchAlgoTime :: int
  g_algoMinTime :: int
  g_argon2Impl :: string
  g_colors :: bool
  g_printTime :: int
  g_debug :: bool
  g_autosave :: bool
  g_logFile :: string
  g_configPath :: string

definition default_pool :: pool_config where
  "default_pool = \<lparr>p_host = '''', p_port = 3333, p_user = '''', p_pass = ''x'', p_tls = False\<rparr>"

definition default_config :: config where
  "default_config = \<lparr>g_pool = default_pool, g_algoThreads = Map.empty, g_algoAffinities = Map.empty, g_algo = '''', g_rxAlgo = RX_0,
     g_algoSpecified = False, g_apiEnabled = True, g_apiHost = ''127.0.0.1'', g_apiPort = 16000, g_algoPerf = [], g_benchAlgoTime = 20,
     g_algoMinTime = 0, g_argon2Impl = '''', g_colors = True, g_printTime = 60, g_debug = False, g_autosave = True, g_logFile = '''',
     g_configPath = ''''\<rparr>"

section \<open>Reading values\<close>

definition safeStoi :: "string \<Rightarrow> int \<Rightarrow> int" where
  "safeStoi str defaultValue =
     (if str = '''' then defaultValue else case stoi str of None \<Rightarrow> defaultValue | Some v \<Rightarrow> v)"

definition lower_char :: "char \<Rightarrow> char" where
  "lower_char c = (let n = of_char c :: nat in if 65 \<le> n \<and> n \<le> 90 then char_of (n + 32) else c)"

definition detectAndStripScheme :: "string \<Rightarrow> bool \<times> string" where
  "detectAndStripScheme url =
     (case str_find url ''://'' 0 of
        None \<Rightarrow> (False, url)
      | Some schemeEnd \<Rightarrow>
          (List.member [''stratum+ssl'', ''stratum+tls'', ''ssl'', ''tls''] (map lower_char (substr url 0 schemeEnd)),
           drop (schemeEnd + 3) url))"

definition json_blanks :: string where
  "json_blanks = [CHR '' '', CHR 0x09, CHR 0x0A, CHR 0x0D]"

text \<open>White space at the end is dropped.\<close>

definition rtrim :: "string \<Rightarrow> string" where
  "rtrim s = rev (dropWhile is_space (rev s))"

definition jsonGetValue :: "string \<Rightarrow> string \<Rightarrow> string" where
  "jsonGetValue content key =
     (case str_find content (quoted key) 0 of
        None \<Rightarrow> ''''
      | Some pos \<Rightarrow>
          (case str_find_char content (CHR '':'') pos of
             None \<Rightarrow> ''''
           | Some colon \<Rightarrow>
               (case find_first_not_of content json_blanks (colon + 1) of
                  None \<Rightarrow> ''''
                | Some pos \<Rightarrow>
                    if content ! pos = DQ
                    then (case str_find_char content DQ (pos + 1) of
                            None \<Rightarrow> drop (pos + 1) content
                          | Some e \<Rightarrow> substr content (pos + 1) (e - pos - 1))
                    else (case find_first_of content [CHR '','', CHR ''}'', CHR 0x0A] pos of
                            None \<Rightarrow> rtrim (drop pos content)
                          | Some e \<Rightarrow> rtrim (substr content pos (e - pos))))))"

text \<open>A value that is \<open>true\<close> or \<open>false\<close>, a text that is set, a number that is set.\<close>

definition read_bool :: "string \<Rightarrow> bool \<Rightarrow> bool" where
  "read_bool v b = (if v = ''true'' then True else if v = ''false'' then False else b)"

definition read_text :: "string \<Rightarrow> string \<Rightarrow> string" where
  "read_text v s = (if v = '''' then s else v)"

definition read_int :: "string \<Rightarrow> int \<Rightarrow> int \<Rightarrow> int" where
  "read_int v defaultValue i = (if v = '''' then i else safeStoi v defaultValue)"

definition not_null :: "string \<Rightarrow> string" where
  "not_null v = (if v = ''null'' then '''' else v)"

text \<open>The text from a name's opening bracket up to and including the one that closes it.\<close>

definition bracket_text :: "char \<Rightarrow> char \<Rightarrow> string \<Rightarrow> nat \<Rightarrow> string option" where
  "bracket_text op cl content pos =
     (case str_find_char content op pos of
        None \<Rightarrow> None
      | Some start \<Rightarrow> Some (substr content start (1 + close_span op cl 1 (drop (start + 1) content))))"

text \<open>The text from a name's opening brace to the first closing one.\<close>

definition flat_block :: "string \<Rightarrow> string \<Rightarrow> string option" where
  "flat_block content key =
     (case str_find content (quoted key) 0 of
        None \<Rightarrow> None
      | Some pos \<Rightarrow>
          (case str_find_char content (CHR ''{'') pos of
             None \<Rightarrow> None
           | Some s \<Rightarrow> (case str_find_char content (CHR ''}'') s of None \<Rightarrow> None | Some e \<Rightarrow> Some (substr content s (e - s + 1)))))"

text \<open>The text between the braces of an object, and its names and values.\<close>

definition object_text :: "string \<Rightarrow> string \<Rightarrow> string option" where
  "object_text content key =
     (case str_find content (quoted key) 0 of
        None \<Rightarrow> None
      | Some pos \<Rightarrow>
          (case str_find_char content (CHR ''{'') pos of
             None \<Rightarrow> None
           | Some s \<Rightarrow>
               let objEnd = s + 1 + close_span (CHR ''{'') (CHR ''}'') 1 (drop (s + 1) content)
               in Some (substr content (s + 1) (objEnd - s - 2))))"

function json_pairs :: "string \<Rightarrow> (string \<times> string) list" where
  "json_pairs s =
     (case str_find_char s DQ 0 of
        None \<Rightarrow> []
      | Some keyStart \<Rightarrow>
          (case str_find_char s DQ (keyStart + 1) of
             None \<Rightarrow> []
           | Some keyEnd \<Rightarrow>
               (case str_find_char s (CHR '':'') keyEnd of
                  None \<Rightarrow> []
                | Some colon \<Rightarrow>
                    (case find_first_not_of s json_blanks (colon + 1) of
                       None \<Rightarrow> []
                     | Some valStart \<Rightarrow>
                         let valEnd = (case find_first_of s [CHR '','', CHR ''}''] valStart of None \<Rightarrow> length s | Some e \<Rightarrow> e)
                         in (substr s (keyStart + 1) (keyEnd - keyStart - 1), rtrim (substr s valStart (valEnd - valStart)))
                            # json_pairs (drop (valEnd + 1) s)))))"
  by auto

termination
  by (relation "measure length") (auto dest: str_find_char_Some(1))

declare json_pairs.simps [simp del]

section \<open>The settings file\<close>

text \<open>\<open>host:port\<close> at the last colon; without one the port is \<open>port\<close>.\<close>

definition split_url :: "string \<Rightarrow> u16 \<Rightarrow> string \<times> u16" where
  "split_url url port =
     (case str_rfind_char url (CHR '':'') of
        Some portStart \<Rightarrow> (substr url 0 portStart, of_int (safeStoi (drop (portStart + 1) url) 3333))
      | None \<Rightarrow> (url, port))"

text \<open>A pool's url, user, pass and tls.\<close>

definition read_pool :: "string \<Rightarrow> u16 \<Rightarrow> pool_config \<Rightarrow> pool_config" where
  "read_pool obj noPort p =
     (let url = jsonGetValue obj ''url''; user = jsonGetValue obj ''user'' in
      if url = '''' \<or> user = '''' then p
      else
        let (tls, url) = detectAndStripScheme url; (host, port) = split_url url noPort in
        p\<lparr>p_tls := tls \<or> jsonGetValue obj ''tls'' = ''true'', p_host := host, p_port := port, p_user := user,
          p_pass := read_text (jsonGetValue obj ''pass'') (p_pass p)\<rparr>)"

definition parse_pools :: "string \<Rightarrow> config \<Rightarrow> config" where
  "parse_pools content c =
     (case Option.bind (str_find content (quoted ''pools'') 0) (bracket_text (CHR ''['') (CHR '']'') content) of
        None \<Rightarrow> c
      | Some pools \<Rightarrow>
          (case bracket_text (CHR ''{'') (CHR ''}'') pools 0 of
             None \<Rightarrow> c
           | Some obj \<Rightarrow> c\<lparr>g_pool := read_pool obj 3333 (g_pool c)\<rparr>))"

definition parse_flat_pool :: "string \<Rightarrow> config \<Rightarrow> config" where
  "parse_flat_pool content c =
     (if p_host (g_pool c) = '''' then c\<lparr>g_pool := read_pool content (p_port (g_pool c)) (g_pool c)\<rparr> else c)"

definition parse_print_time :: "string \<Rightarrow> config \<Rightarrow> config" where
  "parse_print_time content c = c\<lparr>g_printTime := read_int (jsonGetValue content ''print-time'') 60 (g_printTime c)\<rparr>"

definition read_api :: "string \<Rightarrow> string \<Rightarrow> string \<Rightarrow> string \<Rightarrow> config \<Rightarrow> config" where
  "read_api enabled host port text c =
     c\<lparr>g_apiEnabled := read_bool (jsonGetValue text enabled) (g_apiEnabled c),
       g_apiHost := read_text (jsonGetValue text host) (g_apiHost c),
       g_apiPort := (let v = jsonGetValue text port in if v = '''' then g_apiPort c else of_int (safeStoi v 16000))\<rparr>"

definition parse_http :: "string \<Rightarrow> config \<Rightarrow> config" where
  "parse_http content c =
     (case flat_block content ''http'' of None \<Rightarrow> c | Some text \<Rightarrow> read_api ''enabled'' ''host'' ''port'' text c)"

definition parse_flags :: "string \<Rightarrow> config \<Rightarrow> config" where
  "parse_flags content c =
     c\<lparr>g_debug := read_bool (jsonGetValue content ''debug'') (g_debug c),
       g_colors := read_bool (jsonGetValue content ''colors'') (g_colors c),
       g_autosave := read_bool (jsonGetValue content ''autosave'') (g_autosave c),
       g_logFile := read_text (not_null (jsonGetValue content ''log-file'')) (g_logFile c)\<rparr>"

definition parse_algorithm :: "string \<Rightarrow> config \<Rightarrow> config" where
  "parse_algorithm content c =
     (let v = not_null (jsonGetValue content ''algo'') in
      if v = '''' then c else c\<lparr>g_algo := v, g_rxAlgo := parseRxAlgo v, g_algoSpecified := True\<rparr>)"

definition parse_times :: "string \<Rightarrow> config \<Rightarrow> config" where
  "parse_times content c =
     c\<lparr>g_benchAlgoTime := read_int (not_null (jsonGetValue content ''bench-algo-time'')) 20 (g_benchAlgoTime c),
       g_algoMinTime := read_int (not_null (jsonGetValue content ''algo-min-time'')) 0 (g_algoMinTime c)\<rparr>"

definition parse_cpu :: "string \<Rightarrow> config \<Rightarrow> config" where
  "parse_cpu content c =
     (case flat_block content ''cpu'' of
        None \<Rightarrow> c
      | Some text \<Rightarrow> c\<lparr>g_argon2Impl := read_text (not_null (jsonGetValue text ''argon2-impl'')) (g_argon2Impl c)\<rparr>)"

definition parse_threads :: "string \<Rightarrow> config \<Rightarrow> config" where
  "parse_threads content c =
     (case object_text content ''algo-threads'' of
        None \<Rightarrow> c
      | Some text \<Rightarrow>
          c\<lparr>g_algoThreads := foldl (\<lambda>m (k, v). let n = safeStoi v 0 in if 0 < n then m(parseRxAlgo k \<mapsto> n) else m)
              (g_algoThreads c) (json_pairs text)\<rparr>)"

definition parse_perf :: "(string \<Rightarrow> real option) \<Rightarrow> string \<Rightarrow> config \<Rightarrow> config" where
  "parse_perf stod content c =
     (case object_text content ''algo-perf'' of
        None \<Rightarrow> c
      | Some text \<Rightarrow>
          c\<lparr>g_algoPerf := foldl (\<lambda>m (k, v). case stod v of None \<Rightarrow> m | Some x \<Rightarrow> if 0 < x then AList.update k x m else m)
              (g_algoPerf c) (json_pairs text)\<rparr>)"

definition parseFile :: "(string \<Rightarrow> real option) \<Rightarrow> string option \<Rightarrow> config \<Rightarrow> bool \<times> config" where
  "parseFile stod file c =
     (case file of
        None \<Rightarrow> (False, c)
      | Some t \<Rightarrow>
          (True, parse_perf stod t (parse_threads t (parse_cpu t (parse_times t (parse_algorithm t
             (read_api ''api-enabled'' ''api-host'' ''api-port'' t (parse_flags t (parse_http t (parse_print_time t
             (parse_flat_pool t (parse_pools t c))))))))))))"

text \<open>\<open>saveFile\<close>: a line, and a name with its value.\<close>

definition text_line :: "nat \<Rightarrow> string \<Rightarrow> string" where
  "text_line n s = replicate n (CHR '' '') @ s @ [CHR 0x0A]"

definition named :: "string \<Rightarrow> string \<Rightarrow> string" where
  "named k v = quoted k @ '': '' @ v"

definition show_bool :: "bool \<Rightarrow> string" where
  "show_bool b = (if b then ''true'' else ''false'')"

text \<open>The entries of an object; a comma follows all but the one that makes the count complete.\<close>

fun save_entries :: "nat \<Rightarrow> nat \<Rightarrow> (string \<times> string) list \<Rightarrow> string" where
  "save_entries count tot [] = ''''"
| "save_entries count tot ((k, v) # es) =
     text_line 8 (named k v @ (if count + 1 < tot then '','' else '''')) @ save_entries (count + 1) tot es"

definition SAVE_ORDER :: "RxAlgo list" where
  "SAVE_ORDER = [RX_0, RX_ARQ, RX_GRAFT, RX_SFX, RX_WOW, RX_XEQ, RX_XLA]"

definition PERF_ORDER :: "string list" where
  "PERF_ORDER = [''rx/0'', ''rx/arq'', ''rx/graft'', ''rx/sfx'', ''rx/wow'', ''rx/xeq'', ''rx/xla'']"

definition thread_entries :: "config \<Rightarrow> (string \<times> string) list" where
  "thread_entries c = List.map_filter (\<lambda>a. map_option (\<lambda>n. (rxAlgoName a, show_int n)) (g_algoThreads c a)) SAVE_ORDER"

definition perf_entries :: "(real \<Rightarrow> string) \<Rightarrow> config \<Rightarrow> (string \<times> string) list" where
  "perf_entries fixed1 c = List.map_filter (\<lambda>k. map_option (\<lambda>x. (k, fixed1 x)) (map_of (g_algoPerf c) k)) PERF_ORDER"

definition pool_text :: "pool_config \<Rightarrow> string" where
  "pool_text p =
     (if p_host p = '''' then ''''
      else text_line 8 ''{''
        @ text_line 12 (named ''url'' (quoted ((if p_tls p then ''stratum+ssl://'' else '''') @ p_host p @ '':'' @ show_nat (unat (p_port p)))) @ '','')
        @ text_line 12 (named ''user'' (quoted (p_user p)) @ '','')
        @ text_line 12 (named ''pass'' (quoted (p_pass p)))
        @ text_line 8 ''}'')"

definition config_text :: "(real \<Rightarrow> string) \<Rightarrow> config \<Rightarrow> string" where
  "config_text fixed1 c =
     text_line 0 ''{''
     @ text_line 4 (named ''http'' ''{'')
     @ text_line 8 (named ''enabled'' (show_bool (g_apiEnabled c)) @ '','')
     @ text_line 8 (named ''host'' (quoted (g_apiHost c)) @ '','')
     @ text_line 8 (named ''port'' (show_nat (unat (g_apiPort c))))
     @ text_line 4 ''},''
     @ text_line 4 (named ''pools'' ''['') @ pool_text (g_pool c) @ text_line 4 ''],''
     @ (if g_argon2Impl c = '''' then '''' else text_line 4 (named ''argon2-impl'' (quoted (g_argon2Impl c)) @ '',''))
     @ text_line 4 (named ''algo-threads'' ''{'') @ save_entries 0 (length (thread_entries c)) (thread_entries c) @ text_line 4 ''},''
     @ text_line 4 (named ''algo'' (if g_algoSpecified c then quoted (g_algo c) else ''null'') @ '','')
     @ text_line 4 (named ''colors'' (show_bool (g_colors c)) @ '','')
     @ text_line 4 (named ''autosave'' (show_bool (g_autosave c)) @ '','')
     @ text_line 4 (named ''debug'' (show_bool (g_debug c)) @ '','')
     @ text_line 4 (named ''log-file'' (if g_logFile c = '''' then ''null'' else quoted (g_logFile c)) @ '','')
     @ text_line 4 (named ''print-time'' (show_int (g_printTime c)) @ '','')
     @ text_line 4 (named ''bench-algo-time'' (show_int (g_benchAlgoTime c)) @ '','')
     @ (if 0 < g_algoMinTime c then text_line 4 (named ''algo-min-time'' (show_int (g_algoMinTime c)) @ '','') else '''')
     @ replicate 4 (CHR '' '') @ named ''algo-perf'' ''{''
     @ (if g_algoPerf c = [] then ''}'' @ [CHR 0x0A]
        else [CHR 0x0A] @ save_entries 0 (length (g_algoPerf c)) (perf_entries fixed1 c) @ text_line 4 ''}'')
     @ text_line 0 ''}''"

text \<open>Where \<open>saveFile\<close> writes it.\<close>

definition save_path :: "string \<Rightarrow> config \<Rightarrow> string" where
  "save_path path c = (let p = (if path = '''' then g_configPath c else path) in if p = '''' then ''config.json'' else p)"

section \<open>Threads\<close>

definition ALL_ALGOS :: "RxAlgo list" where
  "ALL_ALGOS = [RX_0, RX_WOW, RX_ARQ, RX_XEQ, RX_GRAFT, RX_SFX, RX_XLA]"

text \<open>The processor: its number of threads, and the threads an algorithm is pinned to.\<close>

record cpu_info =
  u_threads :: nat
  u_affinity :: "RxAlgo \<Rightarrow> int list"

definition detect_algo :: "cpu_info \<Rightarrow> RxAlgo \<Rightarrow> config \<Rightarrow> config" where
  "detect_algo u a c =
     (let maxT = (if 1 < u_threads u then int (u_threads u) - 1 else 1);
          n = (case g_algoThreads c a of None \<Rightarrow> int (length (u_affinity u a)) | Some n \<Rightarrow> n);
          n = (if maxT < n then maxT else n)
      in c\<lparr>g_algoThreads := (g_algoThreads c)(a \<mapsto> n), g_algoAffinities := (g_algoAffinities c)(a \<mapsto> u_affinity u a)\<rparr>)"

definition autoDetect :: "cpu_info \<Rightarrow> config \<Rightarrow> config" where
  "autoDetect u c = foldl (\<lambda>c a. detect_algo u a c) c ALL_ALGOS"

definition config_threadsForAlgo :: "config \<Rightarrow> RxAlgo \<Rightarrow> int" where
  "config_threadsForAlgo c a = (case g_algoThreads c a of Some n \<Rightarrow> n | None \<Rightarrow> 1)"

definition maxThreads :: "config \<Rightarrow> int" where
  "maxThreads c = foldl (\<lambda>m a. case g_algoThreads c a of None \<Rightarrow> m | Some n \<Rightarrow> if m < n then n else m) 1 ALL_ALGOS"

definition affinityForAlgo :: "config \<Rightarrow> RxAlgo \<Rightarrow> int list" where
  "affinityForAlgo c a = (case g_algoAffinities c a of Some xs \<Rightarrow> xs | None \<Rightarrow> [])"

section \<open>The command line\<close>

text \<open>What \<open>getopt_long\<close> makes of the arguments.\<close>

datatype cli_option = Opt_url string | Opt_user string | Opt_pass string | Opt_config string | Opt_no_color | Opt_print_time string
  | Opt_debug | Opt_api | Opt_api_port string | Opt_api_host string | Opt_no_api | Opt_no_autosave | Opt_log_file string
  | Opt_help | Opt_version | Opt_unknown

record cli_state =
  l_config :: config
  l_pool :: pool_config
  l_file :: string

fun cli_step :: "cli_option \<Rightarrow> cli_state \<Rightarrow> cli_state option" where
  "cli_step (Opt_url arg) l =
     (let (tls, url) = detectAndStripScheme arg; (host, port) = split_url url 3333
      in Some (l\<lparr>l_pool := (l_pool l)\<lparr>p_tls := tls, p_host := host, p_port := port\<rparr>\<rparr>))"
| "cli_step (Opt_user arg) l = Some (l\<lparr>l_pool := (l_pool l)\<lparr>p_user := arg\<rparr>\<rparr>)"
| "cli_step (Opt_pass arg) l = Some (l\<lparr>l_pool := (l_pool l)\<lparr>p_pass := arg\<rparr>\<rparr>)"
| "cli_step (Opt_config arg) l = Some (l\<lparr>l_file := arg\<rparr>)"
| "cli_step Opt_no_color l = Some (l\<lparr>l_config := (l_config l)\<lparr>g_colors := False\<rparr>\<rparr>)"
| "cli_step (Opt_print_time arg) l = Some (l\<lparr>l_config := (l_config l)\<lparr>g_printTime := safeStoi arg 60\<rparr>\<rparr>)"
| "cli_step Opt_debug l = Some (l\<lparr>l_config := (l_config l)\<lparr>g_debug := True\<rparr>\<rparr>)"
| "cli_step Opt_api l = Some (l\<lparr>l_config := (l_config l)\<lparr>g_apiEnabled := True\<rparr>\<rparr>)"
| "cli_step (Opt_api_port arg) l = Some (l\<lparr>l_config := (l_config l)\<lparr>g_apiPort := of_int (safeStoi arg 16000)\<rparr>\<rparr>)"
| "cli_step (Opt_api_host arg) l = Some (l\<lparr>l_config := (l_config l)\<lparr>g_apiHost := arg\<rparr>\<rparr>)"
| "cli_step Opt_no_api l = Some (l\<lparr>l_config := (l_config l)\<lparr>g_apiEnabled := False\<rparr>\<rparr>)"
| "cli_step Opt_no_autosave l = Some (l\<lparr>l_config := (l_config l)\<lparr>g_autosave := False\<rparr>\<rparr>)"
| "cli_step (Opt_log_file arg) l = Some (l\<lparr>l_config := (l_config l)\<lparr>g_logFile := arg\<rparr>\<rparr>)"
| "cli_step Opt_help l = None"
| "cli_step Opt_version l = None"
| "cli_step Opt_unknown l = None"

fun cli_steps :: "cli_option list \<Rightarrow> cli_state \<Rightarrow> cli_state option" where
  "cli_steps [] l = Some l"
| "cli_steps (x # xs) l = (case cli_step x l of None \<Rightarrow> None | Some l \<Rightarrow> cli_steps xs l)"

text \<open>Without arguments the first of two files that exists is taken.\<close>

definition default_file :: "(string \<Rightarrow> string option) \<Rightarrow> string" where
  "default_file files =
     (if files ''zenrx.json'' \<noteq> None then ''zenrx.json'' else if files ''config.json'' \<noteq> None then ''config.json'' else '''')"

definition isValid :: "config \<Rightarrow> bool" where
  "isValid c \<longleftrightarrow> p_host (g_pool c) \<noteq> '''' \<and> p_user (g_pool c) \<noteq> '''' \<and> (\<exists>a\<in>set ALL_ALGOS. g_algoThreads c a \<noteq> None)"

text \<open>\<open>None\<close> is a return of false before the settings are complete; \<open>noArgs\<close> is \<open>argc <= 1\<close>.\<close>

definition parseArgs :: "(string \<Rightarrow> real option) \<Rightarrow> cpu_info \<Rightarrow> (string \<Rightarrow> string option) \<Rightarrow> bool \<Rightarrow> cli_option list \<Rightarrow> config
    \<Rightarrow> (bool \<times> config) option" where
  "parseArgs stod u files noArgs xs c =
     (case cli_steps xs \<lparr>l_config = c, l_pool = default_pool, l_file = (if noArgs then default_file files else '''')\<rparr> of
        None \<Rightarrow> None
      | Some l \<Rightarrow>
          let (ok, c) = (if l_file l = '''' then (True, l_config l)
                         else let (ok, c) = parseFile stod (files (l_file l)) (l_config l) in (ok, c\<lparr>g_configPath := l_file l\<rparr>))
          in if \<not> ok then None
             else
               let c = (if p_host (l_pool l) \<noteq> '''' \<and> p_user (l_pool l) \<noteq> '''' then c\<lparr>g_pool := l_pool l\<rparr> else c);
                   c = autoDetect u c
               in Some (isValid c, c))"

end
