(* ===== verification/Client.thy ===== *)
theory Client
  imports Config Job
begin

text \<open>
  \<open>Client.cpp\<close>: the stratum client of one pool.  What the network does is an argument: whether a connection could be
  opened and a message sent, what \<open>poll\<close> and \<open>recv\<close> report, and the text that TLS decrypts to.  What the client does to
  the outside (messages sent, callbacks) is a list of outputs.  Times are nanoseconds of the steady clock.
\<close>

section \<open>Reading JSON\<close>

definition is_blank :: "char \<Rightarrow> bool" where
  "is_blank c \<longleftrightarrow> c = CHR '' '' \<or> c = CHR 0x09"

definition skip_blanks :: "string \<Rightarrow> nat \<Rightarrow> nat" where
  "skip_blanks json pos = pos + length (takeWhile is_blank (drop pos json))"

definition jsonGetString :: "string \<Rightarrow> string \<Rightarrow> string" where
  "jsonGetString json key =
     (case str_find json (quoted key) 0 of
        None \<Rightarrow> ''''
      | Some pos \<Rightarrow>
          (case str_find_char json (CHR '':'') pos of
             None \<Rightarrow> ''''
           | Some colon \<Rightarrow>
               (let pos = skip_blanks json (colon + 1) in
                if length json \<le> pos \<or> json ! pos \<noteq> DQ then ''''
                else (case str_find_char json DQ (pos + 1) of
                        None \<Rightarrow> ''''
                      | Some e \<Rightarrow> substr json (pos + 1) (e - pos - 1)))))"

definition jsonGetNestedString :: "string \<Rightarrow> string \<Rightarrow> string \<Rightarrow> string" where
  "jsonGetNestedString json parent key =
     (case str_find json (quoted parent) 0 of
        None \<Rightarrow> ''''
      | Some parentPos \<Rightarrow>
          (case str_find_char json (CHR ''{'') parentPos of
             None \<Rightarrow> ''''
           | Some brace \<Rightarrow> jsonGetString (substr json brace (1 + close_span (CHR ''{'') (CHR ''}'') 1 (drop (brace + 1) json))) key))"

definition jsonGetInt :: "string \<Rightarrow> string \<Rightarrow> int" where
  "jsonGetInt json key =
     (case str_find json (quoted key) 0 of
        None \<Rightarrow> 0
      | Some pos \<Rightarrow>
          (case str_find_char json (CHR '':'') pos of
             None \<Rightarrow> 0
           | Some colon \<Rightarrow>
               (case find_first_not_of json [CHR '' '', CHR 0x09] (colon + 1) of
                  None \<Rightarrow> 0
                | Some pos \<Rightarrow>
                    if json ! pos = DQ \<or> json ! pos = CHR ''{'' then 0
                    else (case stoll (drop pos json) of None \<Rightarrow> 0 | Some v \<Rightarrow> v))))"

section \<open>State\<close>

text \<open>\<open>c_socket\<close> is whether \<open>m_socket\<close> is valid; \<open>c_lineBuffer\<close> is a local of \<open>run\<close>.  The figures of \<open>m_algoPerf\<close> are texts, as printed.\<close>

record client =
  c_pool :: pool_config
  c_socket :: bool
  c_tls :: bool
  c_connected :: bool
  c_authenticated :: bool
  c_rpcId :: string
  c_sequence :: u64
  c_accepted :: u64
  c_rejected :: u64
  c_lastActivity :: nat
  c_keepaliveSentTime :: nat
  c_lastRecvTime :: nat
  c_keepaliveInFlight :: bool
  c_missedKeepalives :: nat
  c_submitId :: u64
  c_submitHistory :: "(string \<times> u32) list"
  c_algoPerf :: "(string \<times> string) list"
  c_algoMinTime :: int
  c_lineBuffer :: string

definition new_client :: "pool_config \<Rightarrow> client" where
  "new_client pool = \<lparr>c_pool = pool, c_socket = False, c_tls = False, c_connected = False, c_authenticated = False, c_rpcId = '''',
     c_sequence = 0, c_accepted = 0, c_rejected = 0, c_lastActivity = 0, c_keepaliveSentTime = 0, c_lastRecvTime = 0,
     c_keepaliveInFlight = False, c_missedKeepalives = 0, c_submitId = 1, c_submitHistory = [], c_algoPerf = [],
     c_algoMinTime = 0, c_lineBuffer = ''''\<rparr>"

datatype client_out = Out_send string | Out_connected | Out_disconnected | Out_job job

text \<open>The constants, in seconds, and \<open>duration_cast<seconds>\<close>.\<close>

abbreviation (input) "KEEPALIVE_INTERVAL \<equiv> (60 :: nat)"
abbreviation (input) "KEEPALIVE_RESPONSE_TIMEOUT \<equiv> (30 :: nat)"
abbreviation (input) "MAX_MISSED_KEEPALIVES \<equiv> (3 :: nat)"
abbreviation (input) "SILENCE_TIMEOUT \<equiv> (300 :: nat)"
abbreviation (input) "MAX_SUBMIT_HISTORY \<equiv> (100 :: nat)"

definition whole_seconds :: "nat \<Rightarrow> nat" where
  "whole_seconds d = d div 1000000000"

section \<open>Sending\<close>

text \<open>\<open>send\<close>: \<open>ok\<close> is whether the network takes the whole message.\<close>

definition client_send :: "bool \<Rightarrow> nat \<Rightarrow> string \<Rightarrow> client \<Rightarrow> bool \<times> client \<times> client_out list" where
  "client_send ok now msg c =
     (if c_socket c \<and> ok then (True, c\<lparr>c_lastActivity := now\<rparr>, [Out_send msg]) else (False, c, []))"

text \<open>A member of a JSON object whose value is a string.\<close>

definition json_member :: "string \<Rightarrow> string \<Rightarrow> string" where
  "json_member k v = quoted k @ '':'' @ quoted v"

definition APP_VERSION_FULL :: string where
  "APP_VERSION_FULL = ''ZenRX 1.4.1''"

definition json_fields :: "string list \<Rightarrow> string" where
  "json_fields ms = (case ms of [] \<Rightarrow> '''' | m # ms \<Rightarrow> m @ concat (map (\<lambda>k. '','' @ k) ms))"

definition json_call :: "nat \<Rightarrow> string \<Rightarrow> string list \<Rightarrow> string" where
  "json_call i name params =
     ''{'' @ json_fields [quoted ''id'' @ '':'' @ show_nat i, json_member ''jsonrpc'' ''2.0'', json_member ''method'' name,
       quoted ''params'' @ '':{'' @ json_fields params @ ''}''] @ ''}'' @ [CHR 0x0A]"

definition algo_names :: "string list" where
  "algo_names = [''rx/0'', ''rx/wow'', ''rx/arq'', ''rx/xeq'', ''rx/graft'', ''rx/sfx'', ''rx/xla'']"

definition login_message :: "client \<Rightarrow> string" where
  "login_message c = json_call 1 ''login''
     ([json_member ''login'' (p_user (c_pool c)), json_member ''pass'' (p_pass (c_pool c)), json_member ''agent'' APP_VERSION_FULL,
       quoted ''algo'' @ '':['' @ json_fields (map quoted algo_names) @ '']'']
      @ (if c_algoPerf c = [] then []
         else [quoted ''algo-perf'' @ '':{'' @ json_fields (map (\<lambda>(a, h). quoted a @ '':'' @ h) (c_algoPerf c)) @ ''}''])
      @ (if 0 < c_algoMinTime c then [quoted ''algo-min-time'' @ '':'' @ show_int (c_algoMinTime c)] else []))"

definition keepalive_message :: "client \<Rightarrow> string" where
  "keepalive_message c = json_call 0 ''keepalived'' [json_member ''id'' (c_rpcId c)]"

definition nonceToHex :: "u32 \<Rightarrow> string" where
  "nonceToHex nonce = concat (map (\<lambda>k. hex2 (unat (drop_bit (8 * k) nonce AND 0xFF))) [0..<4])"

definition submit_message :: "client \<Rightarrow> job_result \<Rightarrow> string" where
  "submit_message c r = json_call (unat (c_submitId c)) ''submit''
     [json_member ''id'' (c_rpcId c), json_member ''job_id'' (r_jobId r), json_member ''nonce'' (nonceToHex (r_nonce r)),
      json_member ''result'' (bytesToHex (r_hash r) 32)]"

text \<open>\<open>submit\<close>: a share already in the history is not sent; the history keeps its last part when it gets too long.\<close>

definition trim_history :: "'a list \<Rightarrow> 'a list" where
  "trim_history hs = (if MAX_SUBMIT_HISTORY < length hs then drop (length hs - MAX_SUBMIT_HISTORY div 2) hs else hs)"

definition client_submit :: "bool \<Rightarrow> nat \<Rightarrow> job_result \<Rightarrow> client \<Rightarrow> bool \<times> client \<times> client_out list" where
  "client_submit ok now r c =
     (if \<not> c_authenticated c \<or> c_rpcId c = '''' then (False, c, [])
      else if (r_jobId r, r_nonce r) \<in> set (c_submitHistory c) then (False, c, [])
      else client_send ok now (submit_message c r)
             (c\<lparr>c_submitHistory := trim_history (c_submitHistory c @ [(r_jobId r, r_nonce r)]), c_submitId := c_submitId c + 1\<rparr>))"

section \<open>Receiving\<close>

text \<open>The first of several places that names something.\<close>

definition first_named :: "string list \<Rightarrow> string" where
  "first_named vs = (case dropWhile (\<lambda>v. v = '''') vs of [] \<Rightarrow> '''' | v # _ \<Rightarrow> v)"

text \<open>The height is read from the first brace after the name of the parent on.\<close>

definition height_after :: "string \<Rightarrow> string \<Rightarrow> int \<Rightarrow> int" where
  "height_after json parent height =
     (case str_find json (quoted parent) 0 of
        None \<Rightarrow> height
      | Some p \<Rightarrow> (case str_find_char json (CHR ''{'') p of None \<Rightarrow> height | Some b \<Rightarrow> jsonGetInt (drop b json) ''height''))"

record job_fields =
  f_job_id :: string
  f_blob :: string
  f_target :: string
  f_seed_hash :: string
  f_height :: int

definition nested_fields :: "string \<Rightarrow> string \<Rightarrow> job_fields \<Rightarrow> job_fields" where
  "nested_fields json parent f =
     (if f_job_id f = '''' \<and> contains json (quoted parent)
      then \<lparr>f_job_id = jsonGetNestedString json parent ''job_id'', f_blob = jsonGetNestedString json parent ''blob'',
            f_target = jsonGetNestedString json parent ''target'', f_seed_hash = jsonGetNestedString json parent ''seed_hash'',
            f_height = height_after json parent (f_height f)\<rparr>
      else f)"

definition parse_fields :: "string \<Rightarrow> job_fields" where
  "parse_fields json = nested_fields json ''params'' (nested_fields json ''job''
     \<lparr>f_job_id = jsonGetString json ''job_id'', f_blob = jsonGetString json ''blob'', f_target = jsonGetString json ''target'',
      f_seed_hash = jsonGetString json ''seed_hash'', f_height = jsonGetInt json ''height''\<rparr>)"

definition parse_algo :: "string \<Rightarrow> string" where
  "parse_algo json = first_named [jsonGetString json ''algo'',
     if contains json (quoted ''job'') then jsonGetNestedString json ''job'' ''algo'' else '''',
     if contains json (quoted ''params'') then jsonGetNestedString json ''params'' ''algo'' else '''']"

definition handleJob :: "string \<Rightarrow> client \<Rightarrow> client \<times> client_out list" where
  "handleJob json c =
     (let f = parse_fields json; algo = parse_algo json in
      if f_job_id f = '''' \<or> f_blob f = '''' \<or> f_target f = '''' then (c, [])
      else
        let job = new_job (f_job_id f) (f_blob f) (f_target f) (of_int (f_height f)) (f_seed_hash f);
            job = (if algo = '''' then job else job_setAlgo job algo);
            job = job\<lparr>j_sequence := c_sequence c + 1\<rparr>
        in (c\<lparr>c_sequence := c_sequence c + 1, c_submitHistory := []\<rparr>, [Out_job job]))"

text \<open>An \<open>error\<close> member that is not \<open>null\<close>.\<close>

definition has_real_error :: "string \<Rightarrow> bool" where
  "has_real_error message =
     (case str_find message (quoted ''error'') 0 of
        None \<Rightarrow> False
      | Some errorPos \<Rightarrow>
          (case str_find_char message (CHR '':'') (errorPos + 7) of
             None \<Rightarrow> False
           | Some colonPos \<Rightarrow>
               (case find_first_not_of message [CHR '' '', CHR 0x09] (colonPos + 1) of
                  None \<Rightarrow> False
                | Some valPos \<Rightarrow> substr message valPos 4 \<noteq> ''null'')))"

definition is_accepted :: "string \<Rightarrow> bool" where
  "is_accepted message \<longleftrightarrow> jsonGetString message ''status'' = ''OK'' \<or> contains message (quoted ''result'' @ '':true'')
     \<or> contains message (quoted ''result'' @ '':{'' @ json_member ''status'' ''OK'' @ ''}'')"

definition handleMessage :: "nat \<Rightarrow> string \<Rightarrow> client \<Rightarrow> client \<times> client_out list" where
  "handleMessage now message c =
     (if has_real_error message
      then (if 1 < jsonGetInt message ''id'' then c\<lparr>c_rejected := c_rejected c + 1\<rparr> else c, [])
      else if contains message (quoted ''result'') \<and> c_rpcId c = ''''
      then
        let rid = jsonGetNestedString message ''result'' ''id'';
            c1 = (if rid = '''' then c else c\<lparr>c_rpcId := rid, c_authenticated := True, c_lastActivity := now\<rparr>);
            (c2, outs) = (if contains message (quoted ''job'') then handleJob message c1 else (c1, []))
        in (c2, (if rid = '''' then [] else [Out_connected]) @ outs)
      else if contains message (json_member ''method'' ''job'') then handleJob message c
      else if contains message (quoted ''result'') \<and> is_accepted message then (c\<lparr>c_accepted := c_accepted c + 1\<rparr>, [])
      else (c, []))"

section \<open>Connections\<close>

definition client_disconnect :: "client \<Rightarrow> client" where
  "client_disconnect c =
     c\<lparr>c_rpcId := '''', c_tls := False, c_socket := False, c_connected := False, c_authenticated := False\<rparr>"

text \<open>
  One attempt to connect: how far it gets, whether the TLS handshake and the login message go through, the clock of the
  three readings, and whether the server closes the connection within the two seconds it is watched.
\<close>

datatype net_open = Net_unresolved | Net_refused | Net_opened

record net_try =
  t_open :: net_open
  t_handshake :: bool
  t_login :: bool
  t_closed :: bool
  t_activity :: nat
  t_recv :: nat
  t_sent :: nat

text \<open>
  \<open>connect(pool)\<close>.  The second attempt is the one with TLS.  A login that cannot be sent leaves the client connected.
\<close>

definition connect_once :: "net_try \<Rightarrow> pool_config \<Rightarrow> client \<Rightarrow> bool \<times> client \<times> client_out list" where
  "connect_once t pool c =
     (let c = c\<lparr>c_pool := pool\<rparr> in
      case t_open t of
        Net_unresolved \<Rightarrow> (False, c, [])
      | Net_refused \<Rightarrow> (False, c\<lparr>c_socket := False\<rparr>, [])
      | Net_opened \<Rightarrow>
          if p_tls pool \<and> \<not> t_handshake t then (False, c\<lparr>c_tls := True, c_socket := False\<rparr>, [])
          else
            let c = c\<lparr>c_socket := True, c_tls := p_tls pool, c_connected := True, c_lastActivity := t_activity t,
                      c_lastRecvTime := t_recv t, c_keepaliveInFlight := False, c_missedKeepalives := 0\<rparr>
            in client_send (t_login t) (t_sent t) (login_message c) c)"

definition client_connect_to :: "net_try \<Rightarrow> net_try \<Rightarrow> pool_config \<Rightarrow> client \<Rightarrow> bool \<times> client \<times> client_out list" where
  "client_connect_to t u pool c =
     (let (ok, c, outs) = connect_once t pool c in
      if ok \<and> \<not> p_tls pool \<and> t_closed t
      then
        let tlsPool = pool\<lparr>p_tls := True\<rparr>;
            (ok, c, outs') = connect_once u tlsPool ((client_disconnect c)\<lparr>c_pool := tlsPool\<rparr>)
        in (ok, c, outs @ outs')
      else (ok, c, outs))"

text \<open>\<open>connect()\<close>: attempts until one succeeds or, at the end of the list, the client is stopped.\<close>

fun client_connect :: "(net_try \<times> net_try) list \<Rightarrow> client \<Rightarrow> bool \<times> client \<times> client_out list" where
  "client_connect [] c = (False, c, [])"
| "client_connect ((t, u) # ts) c =
     (if p_host (c_pool c) = '''' then (False, c, [])
      else
        let (ok, c, outs) = client_connect_to t u (c_pool c) c in
        if ok then (True, c, outs)
        else let (ok, c, outs') = client_connect ts c in (ok, c, outs @ outs'))"

definition client_reconnect :: "net_try \<Rightarrow> net_try \<Rightarrow> client \<Rightarrow> client \<times> client_out list" where
  "client_reconnect t u c = (if c_connected c then (c, []) else snd (client_connect_to t u (c_pool c) c))"

section \<open>The network loop\<close>

text \<open>\<open>sendKeepalive\<close>: the clock is read once in \<open>send\<close> and once after it.\<close>

definition sendKeepalive :: "bool \<Rightarrow> nat \<Rightarrow> nat \<Rightarrow> client \<Rightarrow> client \<times> client_out list" where
  "sendKeepalive ok sending sent c =
     (let (ok, c, outs) = client_send ok sending (keepalive_message c) c
      in (if ok then c\<lparr>c_keepaliveSentTime := sent, c_keepaliveInFlight := True\<rparr> else c, outs))"

text \<open>Step 1 of the keepalive: a message in flight for too long.  The result says whether the link is dead.\<close>

definition keepalive_timeout :: "nat \<Rightarrow> client \<Rightarrow> bool \<times> client" where
  "keepalive_timeout now c =
     (if c_keepaliveInFlight c \<and> KEEPALIVE_RESPONSE_TIMEOUT \<le> whole_seconds (now - c_keepaliveSentTime c)
      then
        let c = c\<lparr>c_missedKeepalives := c_missedKeepalives c + 1, c_keepaliveInFlight := False\<rparr> in
        if MAX_MISSED_KEEPALIVES \<le> c_missedKeepalives c
        then (if SILENCE_TIMEOUT \<le> whole_seconds (now - c_lastRecvTime c) then (True, c)
              else (False, c\<lparr>c_missedKeepalives := 0, c_lastActivity := now\<rparr>))
        else (False, c\<lparr>c_lastActivity := now\<rparr>)
      else (False, c))"

text \<open>Step 2: one is sent after a while without activity.\<close>

definition keepalive_idle :: "bool \<Rightarrow> nat \<Rightarrow> nat \<Rightarrow> nat \<Rightarrow> client \<Rightarrow> client \<times> client_out list" where
  "keepalive_idle ok now sending sent c =
     (if \<not> c_keepaliveInFlight c \<and> KEEPALIVE_INTERVAL \<le> whole_seconds (now - c_lastActivity c)
      then sendKeepalive ok sending sent c else (c, []))"

text \<open>
  What \<open>poll\<close> and then \<open>recv\<close> report.  Received data come with the texts \<open>SSL_read\<close> makes of them and with whether its
  last error is fatal; both are ignored on a plain connection.
\<close>

datatype received = Recv_again | Recv_error | Recv_closed | Recv_data string "string list" bool

datatype polled = Poll_error | Poll_timeout | Poll_hup | Poll_in received | Poll_other

text \<open>A buffer is appended as a C string, so up to its first NUL.\<close>

definition c_text :: "string \<Rightarrow> string" where
  "c_text s = takeWhile (\<lambda>ch. ch \<noteq> CHR 0x00) s"

text \<open>Complete lines are handled in order; the rest stays in the buffer.\<close>

function drain_lines :: "nat \<Rightarrow> string \<Rightarrow> client \<Rightarrow> string \<times> client \<times> client_out list" where
  "drain_lines now buf c =
     (case str_find_char buf (CHR 0x0A) 0 of
        None \<Rightarrow> (buf, c, [])
      | Some pos \<Rightarrow>
          let line = substr buf 0 pos;
              (c, outs) = (if line = '''' then (c, []) else handleMessage now line c);
              (rest, c, outs') = drain_lines now (drop (pos + 1) buf) c
          in (rest, c, outs @ outs'))"
  by auto

termination
  by (relation "measure (\<lambda>(now, buf, c). length buf)") (auto dest: str_find_char_Some(1))

declare drain_lines.simps [simp del]

text \<open>\<open>lineBuffer\<close> grows by a text; one that is too long ends the connection.\<close>

definition line_limit :: nat where
  "line_limit = 1024 * 1024"

definition feed_text :: "nat \<Rightarrow> string \<Rightarrow> client \<Rightarrow> client \<times> client_out list" where
  "feed_text now s c =
     (let buf = c_lineBuffer c @ s in
      if line_limit < length buf then ((client_disconnect c)\<lparr>c_lineBuffer := ''''\<rparr>, [Out_disconnected])
      else let (rest, c, outs) = drain_lines now buf c in (c\<lparr>c_lineBuffer := rest\<rparr>, outs))"

definition lose_connection :: "client \<Rightarrow> client \<times> client_out list" where
  "lose_connection c = (client_disconnect c, [Out_disconnected])"

text \<open>The readings of the clock in one pass of the loop, in their order.\<close>

record pass_clock =
  k_now :: nat
  k_sending :: nat
  k_sent :: nat
  k_activity :: nat
  k_recv :: nat
  k_message :: nat

definition client_received :: "pass_clock \<Rightarrow> received \<Rightarrow> client \<Rightarrow> client \<times> client_out list" where
  "client_received k r c =
     (case r of
        Recv_again \<Rightarrow> (c, [])
      | Recv_error \<Rightarrow> lose_connection c
      | Recv_closed \<Rightarrow> lose_connection c
      | Recv_data raw decrypted bad \<Rightarrow>
          let c = c\<lparr>c_lastActivity := k_activity k, c_lastRecvTime := k_recv k, c_keepaliveInFlight := False,
                    c_missedKeepalives := 0\<rparr>
          in if c_tls c
             then (if bad then lose_connection (c\<lparr>c_lineBuffer := c_lineBuffer c @ concat (map c_text decrypted)\<rparr>)
                   else feed_text (k_message k) (concat (map c_text decrypted)) c)
             else feed_text (k_message k) (c_text raw) c)"

definition client_polled :: "pass_clock \<Rightarrow> polled \<Rightarrow> client \<Rightarrow> client \<times> client_out list" where
  "client_polled k p c =
     (case p of
        Poll_error \<Rightarrow> (client_disconnect c, [])
      | Poll_timeout \<Rightarrow> (c, [])
      | Poll_hup \<Rightarrow> lose_connection c
      | Poll_in r \<Rightarrow> client_received k r c
      | Poll_other \<Rightarrow> (c, []))"

text \<open>One pass of the loop: a reconnection, or the keepalive and then what the network brings.\<close>

record pass =
  i_clock :: pass_clock
  i_first :: net_try
  i_second :: net_try
  i_send :: bool
  i_poll :: polled

definition client_pass :: "pass \<Rightarrow> client \<Rightarrow> client \<times> client_out list" where
  "client_pass i c =
     (if \<not> c_connected c then client_reconnect (i_first i) (i_second i) c
      else
        let k = i_clock i; (dead, c) = (if c_authenticated c then keepalive_timeout (k_now k) c else (False, c)) in
        if dead then lose_connection c
        else
          let (c, outs) = (if c_authenticated c then keepalive_idle (i_send i) (k_now k) (k_sending k) (k_sent k) c
                           else (c, []));
              (c, outs') = client_polled k (i_poll i) c
          in (c, outs @ outs'))"

fun client_passes :: "pass list \<Rightarrow> client \<Rightarrow> client \<times> client_out list" where
  "client_passes [] c = (c, [])"
| "client_passes (i # is) c =
     (let (c, outs) = client_pass i c; (c, outs') = client_passes is c in (c, outs @ outs'))"

definition client_run :: "pass list \<Rightarrow> client \<Rightarrow> client \<times> client_out list" where
  "client_run is c = client_passes is (c\<lparr>c_lineBuffer := ''''\<rparr>)"

end
