(* ===== verification/Client_Json.thy ===== *)
theory Client_Json
  imports Client
begin

text \<open>
  What the searching readers of \<open>Client.cpp\<close> find in a JSON text.  A text is seen as the pieces between its quotation marks:
  the readers find the first piece that is the key and take the value from the pieces after it.
\<close>

section \<open>What the readers return\<close>

lemma jsonGetString_eval:
  assumes "str_find s (quoted k) 0 = Some n" "str_find_char s (CHR '':'') n = Some m" "skip_blanks s (m + 1) = p"
    and "p < length s" "s ! p = DQ" "str_find_char s DQ (p + 1) = Some e"
  shows "jsonGetString s k = substr s (p + 1) (e - p - 1)"
  using assms by (simp add: jsonGetString_def)

lemma jsonGetString_key:
  assumes pieces: "\<forall>p\<in>set ps. noquote p" "noquote k" and colon: "CHR '':'' \<notin> set k"
    and after: "after_key k ps = Some ('':'' # v # t # ts)"
  shows "jsonGetString (joinq ps) k = v"
proof -
  obtain u where u: "str_find (joinq ps) (quoted k) 0 = Some (length u)"
      and joined: "joinq ps = u @ quoted k @ CHR '':'' # DQ # v @ DQ # joinq (t # ts)"
    using find_quoted_joinq [OF pieces] after by (auto simp: joinq_Cons)
  have v: "DQ \<notin> set v"
  proof -
    have "set rs \<subseteq> set ps" if "after_key k ps = Some rs" for rs
      using that by (induction k ps rule: after_key.induct) (auto split: if_splits)
    then show ?thesis using after pieces by (auto simp: noquote_def)
  qed
  let ?q = "quoted k" and ?s = "u @ quoted k @ CHR '':'' # DQ # v @ DQ # joinq (t # ts)"
  let ?n = "length u + length ?q"
  let ?pre = "u @ ?q @ [CHR '':'', DQ]"
  have "str_find_char (?pre @ v @ DQ # joinq (t # ts)) DQ (length ?pre) = Some (length ?pre + length v)"
    by (rule str_find_char_skip [OF v])
  then have "str_find_char ?s DQ (?n + 1 + 1) = Some (?n + 2 + length v)" by simp
  moreover have "str_find_char ?s (CHR '':'') (length u) = Some ?n"
    using str_find_char_skip [of "CHR '':''" ?q u] colon by (simp add: quoted_def)
  moreover have "skip_blanks ?s (?n + 1) = ?n + 1" by (simp add: skip_blanks_def is_blank_def)
  moreover have "?s ! (?n + 1) = DQ" "?n + 1 < length ?s" by (simp_all add: nth_append)
  ultimately have "jsonGetString (joinq ps) k = substr ?s (?n + 1 + 1) (?n + 2 + length v - (?n + 1) - 1)"
    unfolding joined [symmetric] by (intro jsonGetString_eval [OF u])
  then show ?thesis by (simp add: substr_def)
qed

lemma jsonGetInt_eval:
  assumes "str_find s (quoted k) 0 = Some n" "str_find_char s (CHR '':'') n = Some m"
    and "find_first_not_of s [CHR '' '', CHR 0x09] (m + 1) = Some p"
    and "s ! p \<noteq> DQ" "s ! p \<noteq> CHR ''{''" "stoll (drop p s) = Some v"
  shows "jsonGetInt s k = v"
  using assms by (simp add: jsonGetInt_def)

lemma jsonGetInt_key:
  assumes pieces: "\<forall>p\<in>set ps. noquote p" "noquote k" and colon: "CHR '':'' \<notin> set k"
    and after: "after_key k ps = Some ((CHR '':'' # show_nat h @ c # t) # ts)"
    and h: "h < 2 ^ 63" and c: "\<not> is_digit c"
  shows "jsonGetInt (joinq ps) k = int h"
proof -
  obtain d ds where s: "show_nat h = d # ds" using show_nat_nonempty by (cases "show_nat h") auto
  have "is_digit d" using show_nat_digits [of h] s by simp
  then have d: "d \<noteq> CHR '' ''" "d \<noteq> CHR 0x09" "d \<noteq> DQ" "d \<noteq> CHR ''{''" by (auto simp: is_digit_def)
  define w where "w = joinq ((CHR '':'' # show_nat h @ c # t) # ts)"
  obtain t' where w: "w = CHR '':'' # show_nat h @ c # t'"
    unfolding w_def by (cases ts) auto
  obtain u where u: "str_find (joinq ps) (quoted k) 0 = Some (length u)" and joined: "joinq ps = u @ quoted k @ w"
    using find_quoted_joinq [OF pieces] after by (auto simp: w_def)
  let ?pre = "u @ quoted k @ [CHR '':'']" and ?s = "u @ quoted k @ CHR '':'' # d # ds @ c # t'"
  let ?n = "length u + length (quoted k)"
  have "str_find_char ?s (CHR '':'') (length u) = Some ?n"
    by (rule str_find_char_skip) (use colon in \<open>simp add: quoted_def\<close>)
  moreover have "find_first_not_of (?pre @ d # ds @ c # t') [CHR '' '', CHR 0x09] (length ?pre) = Some (length ?pre)"
    by (rule find_first_not_of_hit) (use d in simp)
  then have "find_first_not_of ?s [CHR '' '', CHR 0x09] (?n + 1) = Some (?n + 1)" by simp
  moreover have "?s ! (?n + 1) = d" "drop (?n + 1) ?s = d # ds @ c # t'" by (simp_all add: nth_append)
  moreover have "stoll (d # ds @ c # t') = Some (int h)" using stoll_show_nat [OF h c, of t'] s by simp
  moreover have s': "joinq ps = ?s" using joined w s by simp
  ultimately show ?thesis
    using jsonGetInt_eval [OF u, of ?n "?n + 1"] d by metis
qed

section \<open>A job notification\<close>

text \<open>The text of a notification, as pools of this protocol send it.\<close>

definition job_notification :: "string \<Rightarrow> string \<Rightarrow> string \<Rightarrow> string \<Rightarrow> nat \<Rightarrow> string \<Rightarrow> string" where
  "job_notification jid blob target algo height seed =
     ''{'' @ json_fields [json_member ''jsonrpc'' ''2.0'', json_member ''method'' ''job'',
       quoted ''params'' @ '':{'' @ json_fields [json_member ''blob'' blob, json_member ''job_id'' jid,
         json_member ''target'' target, json_member ''algo'' algo, quoted ''height'' @ '':'' @ show_nat height,
         json_member ''seed_hash'' seed] @ ''}''] @ ''}''"

definition job_keys :: "string set" where
  "job_keys = {''error'', ''job_id'', ''blob'', ''target'', ''algo'', ''height'', ''seed_hash''}"

definition plain_value :: "string \<Rightarrow> bool" where
  "plain_value v \<longleftrightarrow> noquote v \<and> v \<notin> job_keys"

definition notification_pieces :: "string \<Rightarrow> string \<Rightarrow> string \<Rightarrow> string \<Rightarrow> nat \<Rightarrow> string \<Rightarrow> string list" where
  "notification_pieces jid blob target algo height seed =
     [''{'', ''jsonrpc'', '':'', ''2.0'', '','', ''method'', '':'', ''job'', '','', ''params'', '':{'', ''blob'', '':'', blob, '','',
      ''job_id'', '':'', jid, '','', ''target'', '':'', target, '','', ''algo'', '':'', algo, '','',
      ''height'', CHR '':'' # show_nat height @ CHR '','' # '''', ''seed_hash'', '':'', seed, ''}}'']"

lemma notification_joinq:
  "job_notification jid blob target algo height seed = joinq (notification_pieces jid blob target algo height seed)"
  by (simp add: job_notification_def notification_pieces_def json_fields_def json_member_def quoted_def)

lemma noquote_show_nat: "noquote (show_nat n)"
  using show_nat_digits [of n] by (auto simp: noquote_def is_digit_def)

lemma noquote_pieces:
  assumes "plain_value jid" "plain_value blob" "plain_value target" "plain_value algo" "plain_value seed"
  shows "\<forall>p\<in>set (notification_pieces jid blob target algo height seed). noquote p"
  using assms noquote_show_nat [of height]
  by (simp add: notification_pieces_def plain_value_def) (simp add: noquote_def)

definition string_value :: "string \<Rightarrow> string list \<Rightarrow> string option" where
  "string_value k ps = (case after_key k ps of Some (c # v # t # ts) \<Rightarrow> if c = '':'' then Some v else None | _ \<Rightarrow> None)"

lemma jsonGetString_value:
  assumes "\<forall>p\<in>set ps. noquote p" "noquote k" "CHR '':'' \<notin> set k" "string_value k ps = Some v"
  shows "jsonGetString (joinq ps) k = v"
  using assms(4) jsonGetString_key [OF assms(1-3)]
  by (auto simp: string_value_def split: option.splits list.splits if_splits)

lemma job_notification_fields:
  assumes "plain_value jid" "plain_value blob" "plain_value target" "plain_value algo" "plain_value seed"
    and "height < 2 ^ 63"
  defines "s \<equiv> job_notification jid blob target algo height seed"
  shows "jsonGetString s ''job_id'' = jid" "jsonGetString s ''blob'' = blob" "jsonGetString s ''target'' = target"
    and "jsonGetString s ''algo'' = algo" "jsonGetString s ''seed_hash'' = seed" "jsonGetInt s ''height'' = int height"
    and "\<not> contains s (quoted ''error'')" "contains s (json_member ''method'' ''job'')"
proof -
  let ?ps = "notification_pieces jid blob target algo height seed"
  note nq = noquote_pieces [OF assms(1-5), of height]
  have v: "jid \<notin> job_keys" "blob \<notin> job_keys" "target \<notin> job_keys" "algo \<notin> job_keys" "seed \<notin> job_keys"
    using assms(1-5) by (simp_all add: plain_value_def)
  note find = notification_pieces_def job_keys_def noquote_def
  have "string_value ''job_id'' ?ps = Some jid" "string_value ''blob'' ?ps = Some blob" "string_value ''target'' ?ps = Some target"
    "string_value ''algo'' ?ps = Some algo" "string_value ''seed_hash'' ?ps = Some seed"
    using v by (simp_all add: find string_value_def)
  then show "jsonGetString s ''job_id'' = jid" "jsonGetString s ''blob'' = blob" "jsonGetString s ''target'' = target"
    "jsonGetString s ''algo'' = algo" "jsonGetString s ''seed_hash'' = seed"
    unfolding s_def notification_joinq by (simp_all add: jsonGetString_value [OF nq] noquote_def)
  have "after_key ''height'' ?ps = Some ((CHR '':'' # show_nat height @ CHR '','' # '''') # [''seed_hash'', '':'', seed, ''}}''])"
    using v by (simp add: find)
  then show "jsonGetInt s ''height'' = int height"
    unfolding s_def notification_joinq using assms(6) jsonGetInt_key [OF nq]
    by (simp add: noquote_def is_digit_def)
  have "after_key ''error'' ?ps = None" using v by (simp add: find)
  then show "\<not> contains s (quoted ''error'')"
    unfolding s_def notification_joinq by (simp add: contains_key [OF nq] noquote_def)
  have "s = (''{'' @ json_member ''jsonrpc'' ''2.0'' @ '','') @ json_member ''method'' ''job'' @ drop 31 s"
    by (simp add: s_def job_notification_def json_fields_def json_member_def quoted_def)
  then show "contains s (json_member ''method'' ''job'')" by (metis contains_inside)
qed

end
