(* ===== verification/Client_Ok.thy ===== *)
theory Client_Ok
  imports Client_Json
begin

text \<open>
  What holds of the stratum client: a notification of the pool becomes the job it describes, lines are handled the same
  however the network cuts them, and what is left of a line outlives the connection.
\<close>

section \<open>Notifications\<close>

text \<open>C12: Writing a job as a notification of the pool and reading it back with \<open>handleMessage\<close> gives the job: the texts of its
  id, blob, target, algorithm and seed and its height are exactly those written, the sequence number is the next one, and
  the history of shares is cleared.  The texts hold no quotation mark and are none of the names \<open>handleJob\<close> looks for.\<close>

theorem job_notification_parsed:
  assumes "c_rpcId c \<noteq> ''''" "height < 2 ^ 63"
    and "\<forall>v\<in>{jid, blob, target, algo, seed}. plain_value v" "'''' \<notin> {jid, blob, target, algo}"
  shows "handleMessage now (job_notification jid blob target algo height seed) c
    = (c\<lparr>c_sequence := c_sequence c + 1, c_submitHistory := []\<rparr>,
       [Out_job ((job_setAlgo (new_job jid blob target (of_nat height) seed) algo)\<lparr>j_sequence := c_sequence c + 1\<rparr>)])"
proof -
  let ?s = "job_notification jid blob target algo height seed"
  have fields: "jsonGetString ?s ''job_id'' = jid" "jsonGetString ?s ''blob'' = blob" "jsonGetString ?s ''target'' = target"
      "jsonGetString ?s ''algo'' = algo" "jsonGetString ?s ''seed_hash'' = seed" "jsonGetInt ?s ''height'' = int height"
      "\<not> contains ?s (quoted ''error'')" "contains ?s (json_member ''method'' ''job'')"
    using job_notification_fields [of jid blob target algo seed height] assms(2,3) by simp_all
  have named: "jid \<noteq> ''''" "blob \<noteq> ''''" "target \<noteq> ''''" "algo \<noteq> ''''" using assms(4) by auto
  have "\<not> has_real_error ?s" using fields(7) by (simp add: has_real_error_def contains_def)
  moreover have "parse_fields ?s = \<lparr>f_job_id = jid, f_blob = blob, f_target = target, f_seed_hash = seed, f_height = int height\<rparr>"
    using fields named by (simp add: parse_fields_def nested_fields_def)
  moreover have "parse_algo ?s = algo" using fields(4) named by (auto simp: parse_algo_def first_named_def)
  ultimately show ?thesis
    using assms(1) named fields(8) by (auto simp: handleMessage_def handleJob_def Let_def)
qed

theorem job_notification_parsed_witness:
  "snd (handleMessage 0 (job_notification ''7'' ''0102'' ''ffffff00'' ''rx/wow'' 12 ''ab'')
      (new_client \<lparr>p_host = ''h'', p_port = 1, p_user = '''', p_pass = '''', p_tls = False\<rparr>\<lparr>c_rpcId := ''x''\<rparr>))
    = [Out_job ((job_setAlgo (new_job ''7'' ''0102'' ''ffffff00'' 12 ''ab'') ''rx/wow'')\<lparr>j_sequence := 1\<rparr>)]"
  using job_notification_parsed [of "new_client \<lparr>p_host = ''h'', p_port = 1, p_user = '''', p_pass = '''', p_tls = False\<rparr>\<lparr>c_rpcId := ''x''\<rparr>"
      12 "''7''" "''0102''" "''ffffff00''" "''rx/wow''" "''ab''" 0]
  by (simp add: new_client_def plain_value_def noquote_def job_keys_def)

section \<open>Lines\<close>

text \<open>What remains and what is handled does not depend on where the text is cut.\<close>

lemma drain_lines_None: "CHR 0x0A \<notin> set buf \<Longrightarrow> drain_lines now buf c = (buf, c, [])"
  by (subst drain_lines.simps) (simp add: str_find_char_None [THEN iffD2])

definition handle_line :: "nat \<Rightarrow> string \<Rightarrow> client \<Rightarrow> client \<times> client_out list" where
  "handle_line now line c = (if line = '''' then (c, []) else handleMessage now line c)"

lemma drain_lines_line:
  assumes "CHR 0x0A \<notin> set line"
  shows "drain_lines now (line @ CHR 0x0A # buf) c =
    (let (c, outs) = handle_line now line c; (rest, c, outs') = drain_lines now buf c in (rest, c, outs @ outs'))"
  by (subst drain_lines.simps) (simp add: str_find_char_append [OF assms] substr_def handle_line_def)

lemma drain_lines_append:
  "drain_lines now (s @ t) c =
    (let (rest, c, outs) = drain_lines now s c; (rest, c, outs') = drain_lines now (rest @ t) c in (rest, c, outs @ outs'))"
proof (induction "length s" arbitrary: s c rule: less_induct)
  case less
  show ?case
  proof (cases "CHR 0x0A \<in> set s")
    case False
    then show ?thesis by (simp add: drain_lines_None)
  next
    case True
    then obtain line buf where s: "s = line @ CHR 0x0A # buf" and line: "CHR 0x0A \<notin> set line"
      by (meson split_list_first)
    have "drain_lines now (buf @ t) c' =
      (let (rest, c, outs) = drain_lines now buf c'; (rest, c, outs') = drain_lines now (rest @ t) c in (rest, c, outs @ outs'))" for c'
      using less [of buf] s by simp
    then show ?thesis
      using drain_lines_line [OF line, of now "buf @ t" c] drain_lines_line [OF line, of now buf c]
      by (simp add: s split: prod.splits)
  qed
qed

lemma handleJob_lineBuffer:
  "handleJob s (c\<lparr>c_lineBuffer := b\<rparr>) = (let (c, outs) = handleJob s c in (c\<lparr>c_lineBuffer := b\<rparr>, outs))"
  by (simp add: handleJob_def Let_def)

lemma handleMessage_lineBuffer:
  "handleMessage now m (c\<lparr>c_lineBuffer := b\<rparr>) = (let (c, outs) = handleMessage now m c in (c\<lparr>c_lineBuffer := b\<rparr>, outs))"
  by (cases c) (simp add: handleMessage_def handleJob_def Let_def)

lemma drain_lines_lineBuffer:
  "drain_lines now s (c\<lparr>c_lineBuffer := b\<rparr>) = (let (rest, c, outs) = drain_lines now s c in (rest, c\<lparr>c_lineBuffer := b\<rparr>, outs))"
proof (induction "length s" arbitrary: s c rule: less_induct)
  case less
  show ?case
  proof (cases "CHR 0x0A \<in> set s")
    case False
    then show ?thesis by (simp add: drain_lines_None)
  next
    case True
    then obtain line buf where s: "s = line @ CHR 0x0A # buf" and line: "CHR 0x0A \<notin> set line"
      by (meson split_list_first)
    have "handle_line now line (c\<lparr>c_lineBuffer := b\<rparr>) = (let (c, outs) = handle_line now line c in (c\<lparr>c_lineBuffer := b\<rparr>, outs))"
      by (simp add: handle_line_def handleMessage_lineBuffer)
    then show ?thesis
      using less [of buf] s by (simp add: drain_lines_line [OF line] split: prod.splits)
  qed
qed

lemma drain_lines_rest: "length (fst (drain_lines now s c)) \<le> length s"
proof (induction "length s" arbitrary: s c rule: less_induct)
  case less
  show ?case
  proof (cases "CHR 0x0A \<in> set s")
    case False
    then show ?thesis by (simp add: drain_lines_None)
  next
    case True
    then obtain line buf where s: "s = line @ CHR 0x0A # buf" and line: "CHR 0x0A \<notin> set line"
      by (meson split_list_first)
    show ?thesis
      using less [of buf] s by (simp add: drain_lines_line [OF line] le_SucI trans_le_add2 split: prod.splits) (metis fst_conv le_SucI trans_le_add2)
  qed
qed

fun feed_chunks :: "nat \<Rightarrow> string list \<Rightarrow> client \<Rightarrow> client \<times> client_out list" where
  "feed_chunks now [] c = (c, [])"
| "feed_chunks now (s # ss) c =
     (let (c, outs) = feed_text now s c; (c, outs') = feed_chunks now ss c in (c, outs @ outs'))"

lemma feed_text_append:
  assumes "length (c_lineBuffer c) + length s + length t \<le> line_limit"
  shows "feed_text now (s @ t) c = (let (c, outs) = feed_text now s c; (c, outs') = feed_text now t c in (c, outs @ outs'))"
proof -
  obtain rest c' outs where d: "drain_lines now (c_lineBuffer c @ s) c = (rest, c', outs)" by (cases "drain_lines now (c_lineBuffer c @ s) c")
  have "length rest \<le> length (c_lineBuffer c @ s)" using drain_lines_rest [of now "c_lineBuffer c @ s" c] d by simp
  then have l: "\<not> line_limit < length (rest @ t)" "\<not> line_limit < length (c_lineBuffer c @ s)"
      "\<not> line_limit < length (c_lineBuffer c @ s @ t)" using assms by simp_all
  then show ?thesis
    using drain_lines_append [of now "c_lineBuffer c @ s" t c] d
    by (simp add: feed_text_def drain_lines_lineBuffer split: prod.splits)
qed

lemma feed_text_buffer:
  assumes "length (c_lineBuffer c) + length s \<le> line_limit"
  shows "length (c_lineBuffer (fst (feed_text now s c))) \<le> length (c_lineBuffer c) + length s"
  using assms drain_lines_rest [of now "c_lineBuffer c @ s" c] by (auto simp: feed_text_def Let_def split: prod.splits)

text \<open>C15: The messages handled do not depend on how the network cuts the text into pieces: as long as the text fits into the
  line buffer, feeding the pieces one by one leaves the same client and gives the same outputs as feeding all at once.\<close>

theorem lines_independent_of_chunks:
  assumes "length (c_lineBuffer c) + length (concat texts) \<le> line_limit" "texts \<noteq> []"
  shows "feed_chunks now texts c = feed_text now (concat texts) c"
  using assms
proof (induction texts arbitrary: c)
  case (Cons s ss)
  show ?case
  proof (cases "ss = []")
    case True
    then show ?thesis by (simp split: prod.splits)
  next
    case False
    obtain c' outs where f: "feed_text now s c = (c', outs)" by (cases "feed_text now s c")
    have "length (c_lineBuffer c') \<le> length (c_lineBuffer c) + length s"
      using feed_text_buffer [of c s now] Cons.prems f by simp
    then have "feed_chunks now ss c' = feed_text now (concat ss) c'" using Cons False by simp
    then show ?thesis using Cons.prems f by (simp add: feed_text_append add.assoc)
  qed
qed simp

theorem lines_independent_of_chunks_witness:
  "feed_chunks 5 [''{'' @ quoted ''result'', '':{'' @ json_member ''id'' ''x'' @ ''}}'', [CHR 0x0A]] (new_client \<lparr>p_host = ''h'', p_port = 1, p_user = '''', p_pass = '''', p_tls = False\<rparr>)
    = feed_text 5 (''{'' @ quoted ''result'' @ '':{'' @ json_member ''id'' ''x'' @ ''}}'' @ [CHR 0x0A])
        (new_client \<lparr>p_host = ''h'', p_port = 1, p_user = '''', p_pass = '''', p_tls = False\<rparr>)"
  using lines_independent_of_chunks [of "new_client \<lparr>p_host = ''h'', p_port = 1, p_user = '''', p_pass = '''', p_tls = False\<rparr>"
      "[''{'' @ quoted ''result'', '':{'' @ json_member ''id'' ''x'' @ ''}}'', [CHR 0x0A]]" 5]
  by (simp add: new_client_def line_limit_def quoted_def json_member_def del: feed_chunks.simps)

section \<open>A connection lost in the middle of a line\<close>

text \<open>What has been received of a line when the connection is lost stays in the line buffer, so the first line received
  on the next connection is handled with it in front, as one message.\<close>

theorem partial_line_outlives_connection:
  assumes "lose_connection c = (c1, outs1)" "client_reconnect t u c1 = (c2, outs2)" "c_connected c2" "\<not> c_tls c2"
    and "CHR 0x0A \<notin> set (c_lineBuffer c @ line)" "CHR 0x00 \<notin> set line" "length (c_lineBuffer c @ line) < line_limit"
    and "c_lineBuffer c @ line \<noteq> ''''"
  shows "client_received k (Recv_data (line @ [CHR 0x0A]) ds bad) c2
    = (let (c3, outs) = handleMessage (k_message k) (c_lineBuffer c @ line)
             (c2\<lparr>c_lastActivity := k_activity k, c_lastRecvTime := k_recv k, c_keepaliveInFlight := False, c_missedKeepalives := 0\<rparr>)
       in (c3\<lparr>c_lineBuffer := ''''\<rparr>, outs))"
proof -
  have "c_lineBuffer c1 = c_lineBuffer c" using assms(1) by (auto simp: lose_connection_def client_disconnect_def)
  then have b: "c_lineBuffer c2 = c_lineBuffer c"
    using assms(2)
    by (auto simp: client_reconnect_def client_connect_to_def connect_once_def client_send_def client_disconnect_def Let_def
        split: if_splits prod.splits net_open.splits)
  have "drain_lines now (c_lineBuffer c @ line @ [CHR 0x0A]) c' =
      (let (c3, outs) = handleMessage now (c_lineBuffer c @ line) c' in ('''', c3, outs))" for now c'
    using drain_lines_line [OF assms(5), of now "''''" c'] assms(8)
    by (auto simp: handle_line_def drain_lines_None split: prod.splits)
  moreover have "c_text (line @ [CHR 0x0A]) = line @ [CHR 0x0A]" using assms(6) by (auto simp: c_text_def)
  ultimately show ?thesis
    using assms(4,7) b by (simp add: client_received_def feed_text_def Let_def split: prod.splits)
qed

text \<open>An example: the beginning of a notification, then the answer to the login on the next connection.\<close>

definition cut_notification :: string where
  "cut_notification = ''{'' @ json_member ''method'' ''job'' @ '','' @ quoted ''params'' @ '':{'' @ quoted ''blob'' @ '':'' @ [DQ] @ ''00''"

definition login_answer :: string where
  "login_answer = ''{'' @ quoted ''result'' @ '':{'' @ json_member ''id'' ''x'' @ '','' @ quoted ''job'' @ '':{''
     @ json_fields [json_member ''blob'' ''0102'', json_member ''job_id'' ''7'', json_member ''target'' ''ffffff00''] @ ''}}}''"

definition plain_try :: net_try where
  "plain_try = \<lparr>t_open = Net_opened, t_handshake = True, t_login = True, t_closed = False, t_activity = 0, t_recv = 0, t_sent = 0\<rparr>"

definition example_client :: client where
  "example_client = new_client \<lparr>p_host = ''h'', p_port = 1, p_user = '''', p_pass = '''', p_tls = False\<rparr>"

lemma glued_fields: "parse_fields (cut_notification @ login_answer) =
    \<lparr>f_job_id = ''7'', f_blob = ''00{'', f_target = ''ffffff00'', f_seed_hash = '''', f_height = 0\<rparr>"
  by code_simp

lemma glued_message:
  "\<not> has_real_error (cut_notification @ login_answer)"
  "contains (cut_notification @ login_answer) (quoted ''result'')"
  "contains (cut_notification @ login_answer) (quoted ''job'')"
  "jsonGetNestedString (cut_notification @ login_answer) ''result'' ''id'' = ''x''"
  "parse_algo (cut_notification @ login_answer) = ''''"
  by code_simp+

definition example_clock :: "nat \<Rightarrow> pass_clock" where
  "example_clock t = \<lparr>k_now = t, k_sending = t, k_sent = t, k_activity = t, k_recv = t, k_message = t\<rparr>"

lemma example_reconnect:
  "c_connected (fst (client_reconnect plain_try plain_try (fst (lose_connection (example_client\<lparr>c_lineBuffer := b\<rparr>)))))"
  "\<not> c_tls (fst (client_reconnect plain_try plain_try (fst (lose_connection (example_client\<lparr>c_lineBuffer := b\<rparr>)))))"
  "c_rpcId (fst (client_reconnect plain_try plain_try (fst (lose_connection (example_client\<lparr>c_lineBuffer := b\<rparr>))))) = ''''"
  "c_sequence (fst (client_reconnect plain_try plain_try (fst (lose_connection (example_client\<lparr>c_lineBuffer := b\<rparr>))))) = 0"
  by (simp_all add: example_client_def new_client_def plain_try_def client_reconnect_def lose_connection_def client_disconnect_def
      client_connect_to_def connect_once_def client_send_def Let_def)

theorem partial_line_outlives_connection_witness:
  "snd (client_received (example_clock 9) (Recv_data (login_answer @ [CHR 0x0A]) [] False)
      (fst (client_reconnect plain_try plain_try (fst (lose_connection (example_client\<lparr>c_lineBuffer := cut_notification\<rparr>))))))
    = [Out_connected, Out_job ((new_job ''7'' ''00{'' ''ffffff00'' 0 '''')\<lparr>j_sequence := 1\<rparr>)]"
proof -
  let ?c = "example_client\<lparr>c_lineBuffer := cut_notification\<rparr>"
  let ?c2 = "fst (client_reconnect plain_try plain_try (fst (lose_connection ?c)))"
  let ?c3 = "?c2\<lparr>c_lastActivity := 9, c_lastRecvTime := 9, c_keepaliveInFlight := False, c_missedKeepalives := 0\<rparr>"
  have "snd (handleMessage 9 (cut_notification @ login_answer) ?c3) =
      [Out_connected, Out_job ((new_job ''7'' ''00{'' ''ffffff00'' 0 '''')\<lparr>j_sequence := 1\<rparr>)]"
    using example_reconnect
    by (simp add: handleMessage_def handleJob_def glued_fields glued_message Let_def)
  moreover have "client_received (example_clock 9) (Recv_data (login_answer @ [CHR 0x0A]) [] False) ?c2
      = (let (c3, outs) = handleMessage 9 (cut_notification @ login_answer) ?c3 in (c3\<lparr>c_lineBuffer := ''''\<rparr>, outs))"
    using partial_line_outlives_connection [of ?c "fst (lose_connection ?c)" "snd (lose_connection ?c)" plain_try plain_try
        ?c2 "snd (client_reconnect plain_try plain_try (fst (lose_connection ?c)))" login_answer "example_clock 9" "[]" False]
      example_reconnect
    by (simp add: example_clock_def line_limit_def cut_notification_def login_answer_def quoted_def json_member_def json_fields_def)
  ultimately show ?thesis by (simp split: prod.splits)
qed

end
