(* ===== verification/Client_Live.thy ===== *)
theory Client_Live
  imports Client_Ok
begin

text \<open>
  Shares and the keepalive of the stratum client: a share is not sent twice, which rejections are counted, and when a link on
  which nothing arrives is given up.
\<close>

section \<open>Shares\<close>

text \<open>A run of submissions between two jobs: what the network does, the clock and the share of each.\<close>

fun client_submits :: "(bool \<times> nat \<times> job_result) list \<Rightarrow> client \<Rightarrow> client \<times> client_out list" where
  "client_submits [] c = (c, [])"
| "client_submits ((ok, now, r) # rs) c =
     (let (_, c, outs) = client_submit ok now r c; (c, outs') = client_submits rs c in (c, outs @ outs'))"

text \<open>A share is recent if fewer than \<open>n\<close> others have been recorded after it.\<close>

definition recent :: "nat \<Rightarrow> 'a \<Rightarrow> 'a list \<Rightarrow> bool" where
  "recent n x hs \<longleftrightarrow> x \<in> set (drop (length hs - n) hs)"

lemma drop_suffix_trim:
  "m \<le> 50 \<Longrightarrow> drop (length (trim_history hs) - m) (trim_history hs) = drop (length hs - m) hs"
  by (simp add: trim_history_def)

lemma recent_snoc: "recent n x hs \<Longrightarrow> recent (Suc n) x (hs @ [y])"
  by (cases "length hs < Suc n") (auto simp: recent_def)

lemma recent_Suc: "recent n x hs \<Longrightarrow> recent (Suc n) x hs"
  using set_drop_subset_set_drop [of "length hs - Suc n" "length hs - n" hs] by (auto simp: recent_def diff_le_mono2)

lemma recent_trim:
 "n \<le> 50 \<Longrightarrow> recent n x hs \<Longrightarrow> recent n x (trim_history hs)"
  by (simp add: recent_def drop_suffix_trim)

lemma client_submit_history:
  "c_submitHistory (fst (snd (client_submit ok now r c))) =
     (if c_authenticated c \<and> c_rpcId c \<noteq> '''' \<and> (r_jobId r, r_nonce r) \<notin> set (c_submitHistory c)
      then trim_history (c_submitHistory c @ [(r_jobId r, r_nonce r)]) else c_submitHistory c)"
  "c_authenticated (fst (snd (client_submit ok now r c))) = c_authenticated c"
  "c_rpcId (fst (snd (client_submit ok now r c))) = c_rpcId c"
  by (auto simp: client_submit_def client_send_def)

lemma client_submits_Cons:
  "fst (client_submits ((ok, now, r) # rs) c) = fst (client_submits rs (fst (snd (client_submit ok now r c))))"
  by (simp add: Let_def split: prod.splits)

lemma client_submits_recent:
  assumes "recent n x (c_submitHistory c)" "n + length rs \<le> 50"
  shows "x \<in> set (c_submitHistory (fst (client_submits rs c)))"
  using assms
proof (induction rs arbitrary: c n)
  case Nil
  then show ?case by (auto simp: recent_def dest: in_set_dropD)
next
  case (Cons s rs)
  obtain ok now r where s: "s = (ok, now, r)" by (cases s)
  let ?c = "fst (snd (client_submit ok now r c))"
  have "recent (Suc n) x (trim_history (c_submitHistory c @ [(r_jobId r, r_nonce r)]))"
    using Cons.prems by (intro recent_trim recent_snoc) simp_all
  then have "recent (Suc n) x (c_submitHistory ?c)"
    using client_submit_history(1) [of ok now r c] recent_Suc [OF Cons.prems(1)] by (simp split: if_splits)
  then show ?case
    using Cons.IH [of "Suc n" ?c] Cons.prems(2) unfolding s client_submits_Cons by simp
qed

lemma client_submits_same:
  "c_authenticated (fst (client_submits rs c)) = c_authenticated c" "c_rpcId (fst (client_submits rs c)) = c_rpcId c"
proof (induction rs arbitrary: c)
  case (Cons s rs)
  {
    case 1
    then show ?case using Cons(1) by (cases s) (simp add: client_submits_Cons client_submit_history del: client_submits.simps)
  next
    case 2
    then show ?case using Cons(2) by (cases s) (simp add: client_submits_Cons client_submit_history del: client_submits.simps)
  }
qed simp_all

lemma trim_history_length: "length hs \<le> 101 \<Longrightarrow> length (trim_history hs) \<le> 100"
  by (simp add: trim_history_def)

lemma client_submits_length:
  "length (c_submitHistory c) \<le> 100 \<Longrightarrow> length (c_submitHistory (fst (client_submits rs c))) \<le> 100"
proof (induction rs arbitrary: c)
  case (Cons s rs)
  obtain ok now r where s: "s = (ok, now, r)" by (cases s)
  have "length (c_submitHistory (fst (snd (client_submit ok now r c)))) \<le> 100"
    using Cons.prems trim_history_length [of "c_submitHistory c @ [(r_jobId r, r_nonce r)]"]
    by (simp add: client_submit_history)
  then show ?case using Cons.IH unfolding s client_submits_Cons by simp
qed simp

text \<open>C14: Once a share new to the history has been handed to \<open>submit\<close>, the same nonce for the same job is refused and
  nothing is sent for it, as long as fewer than 50 other shares have been handed over since and no job has come in between, for
  \<open>handleJob\<close> clears the history; this holds although the history is cut, and it never grows past 100 shares.  It also holds
  when the first message could not be sent: such a share is refused until a new job comes.\<close>

theorem duplicate_share_refused:
  assumes "(r_jobId r, r_nonce r) \<notin> set (c_submitHistory c)" "length rs < 50"
    and "r_jobId r' = r_jobId r" "r_nonce r' = r_nonce r" "length (c_submitHistory c) \<le> 100"
  shows "let c' = fst (client_submits ((ok, now, r) # rs) c) in
    client_submit ok' now' r' c' = (False, c', []) \<and> length (c_submitHistory c') \<le> 100"
proof -
  let ?x = "(r_jobId r, r_nonce r)"
  obtain b c1 outs where c1: "client_submit ok now r c = (b, c1, outs)" by (cases "client_submit ok now r c")
  let ?c' = "fst (client_submits rs c1)"
  have c': "fst (client_submits ((ok, now, r) # rs) c) = ?c'" using c1 by (simp split: prod.splits)
  have "client_submit ok' now' r' ?c' = (False, ?c', [])"
  proof (cases "c_authenticated c \<and> c_rpcId c \<noteq> ''''")
    case True
    have "recent 1 ?x (trim_history (c_submitHistory c @ [?x]))" by (rule recent_trim) (simp_all add: recent_def)
    then have "recent 1 ?x (c_submitHistory c1)"
      using client_submit_history(1) [of ok now r c] c1 True assms(1) by simp
    then have "?x \<in> set (c_submitHistory ?c')" by (rule client_submits_recent) (use assms(2) in simp)
    then show ?thesis using assms(3,4) by (simp add: client_submit_def)
  next
    case False
    then show ?thesis
      using client_submits_same [of rs c1] client_submit_history(2,3) [of ok now r c] c1 by (auto simp: client_submit_def)
  qed
  moreover have "length (c_submitHistory ?c') \<le> 100"
    using client_submits_length [OF assms(5), of "(ok, now, r) # rs"] c' by simp
  ultimately show ?thesis unfolding c' Let_def by simp
qed

definition example_share :: "u32 \<Rightarrow> job_result" where
  "example_share n = \<lparr>r_jobId = ''7'', r_nonce = n, r_hash = replicate 32 0, r_actualDiff = 0, r_rxInstanceId = 0\<rparr>"

theorem duplicate_share_refused_witness:
  "let c = example_client\<lparr>c_authenticated := True, c_rpcId := ''x''\<rparr>;
       c' = fst (client_submits [(False, 1, example_share 5), (True, 2, example_share 6)] c)
   in client_submit True 3 (example_share 5) c' = (False, c', [])"
  using duplicate_share_refused [of "example_share 5" "example_client\<lparr>c_authenticated := True, c_rpcId := ''x''\<rparr>"
      "[(True, 2, example_share 6)]" "example_share 5" False 1 True 3]
  by (simp add: example_client_def new_client_def Let_def del: client_submits.simps)

text \<open>What a message sent with \<^const>\<open>json_call\<close> carries as its number.\<close>

lemma json_call_id: "i < 2 ^ 63 \<Longrightarrow> jsonGetInt (json_call i name params) ''id'' = int i"
proof -
  assume i: "i < 2 ^ 63"
  obtain d ds where s: "show_nat i = d # ds" using show_nat_nonempty by (cases "show_nat i") auto
  have "is_digit d" using show_nat_digits [of i] s by simp
  then have d: "d \<noteq> CHR '' ''" "d \<noteq> CHR 0x09" "d \<noteq> DQ" "d \<noteq> CHR ''{''" by (auto simp: is_digit_def)
  obtain t where t: "json_call i name params = [CHR ''{'', DQ, CHR ''i'', CHR ''d'', DQ, CHR '':''] @ d # ds @ CHR '','' # t"
    using s by (simp add: json_call_def json_fields_def quoted_def)
  have "stoll (d # ds @ CHR '','' # t) = Some (int i)" using stoll_show_nat [OF i, of "CHR '',''" t] s by (simp add: is_digit_def)
  moreover have "str_find (json_call i name params) (quoted ''id'') 0 = Some 1" by (simp add: t str_find_def quoted_def)
  moreover have "str_find_char (json_call i name params) (CHR '':'') 1 = Some 5" by (simp add: t str_find_char_def str_find_if_def)
  moreover have "find_first_not_of (json_call i name params) [CHR '' '', CHR 0x09] (5 + 1) = Some 6"
    using d by (simp add: t find_first_not_of_def str_find_if_def)
  ultimately show ?thesis
    using d by (intro jsonGetInt_eval [where n = 1 and m = 5 and p = 6]) (simp_all add: t)
qed

text \<open>When the pool rejects a share, that is, answers its number with an error, the rejection is counted only if the number is
  above 1.  A client numbers its shares from 1, the number its login has, so the rejection of the first share is lost.\<close>

theorem first_rejection_not_counted:
  assumes "has_real_error reply" "jsonGetInt reply ''id'' = jsonGetInt (submit_message c r) ''id''" "unat (c_submitId c) < 2 ^ 63"
  shows "handleMessage now reply c' = (if 1 < c_submitId c then c'\<lparr>c_rejected := c_rejected c' + 1\<rparr> else c', [])
    \<and> c_submitId (new_client pool) = 1"
proof -
  have i: "jsonGetInt reply ''id'' = int (unat (c_submitId c))"
    using assms(2,3) by (simp add: submit_message_def json_call_id)
  have "1 < c_submitId c \<longleftrightarrow> 1 < uint (c_submitId c)" by (simp add: word_less_def)
  then show ?thesis
    using assms(1) by (simp add: handleMessage_def i new_client_def)
qed

definition example_rejection :: string where
  "example_rejection = ''{'' @ quoted ''id'' @ '':1,'' @ quoted ''error'' @ '':{'' @ json_member ''message'' ''Low difficulty share'' @ ''}}''"

theorem first_rejection_not_counted_witness:
  "handleMessage 3 example_rejection (fst (snd (client_submit True 2 (example_share 5) (example_client\<lparr>c_authenticated := True, c_rpcId := ''x''\<rparr>))))
    = (fst (snd (client_submit True 2 (example_share 5) (example_client\<lparr>c_authenticated := True, c_rpcId := ''x''\<rparr>))), [])"
proof -
  let ?c = "example_client\<lparr>c_authenticated := True, c_rpcId := ''x''\<rparr>"
  have i: "c_submitId ?c = 1" by (simp add: example_client_def new_client_def)
  then have "jsonGetInt (submit_message ?c (example_share 5)) ''id'' = 1" by (simp add: submit_message_def json_call_id)
  moreover have "has_real_error example_rejection" "jsonGetInt example_rejection ''id'' = 1" by code_simp+
  ultimately show ?thesis
    using first_rejection_not_counted [of example_rejection ?c "example_share 5" 3 "fst (snd (client_submit True 2 (example_share 5) ?c))"] i
    by simp
qed

section \<open>A silent link\<close>

text \<open>Seconds, in the unit of the clock.\<close>

abbreviation (input) "sec n \<equiv> n * (1000000000 :: nat)"

lemma le_whole_seconds: "n \<le> whole_seconds d \<longleftrightarrow> sec n \<le> d"
  by (simp add: whole_seconds_def less_eq_div_iff_mult_less_eq)

text \<open>
  Passes of the loop in which the network brings nothing and takes what is sent, at most two seconds apart, the first at most
  two seconds after \<open>t\<close>.
\<close>

fun silent_passes :: "nat \<Rightarrow> pass list \<Rightarrow> bool" where
  "silent_passes t [] \<longleftrightarrow> True"
| "silent_passes t (i # is) \<longleftrightarrow> i_poll i = Poll_timeout \<and> i_send i \<and> k_now (i_clock i) \<le> t + sec 2
     \<and> k_now (i_clock i) \<le> k_sending (i_clock i) \<and> k_sending (i_clock i) \<le> k_sent (i_clock i)
     \<and> k_sent (i_clock i) \<le> k_now (i_clock i) + sec 2 \<and> silent_passes (k_now (i_clock i)) is"

text \<open>The client at time \<open>t\<close> after nothing has been received since \<open>T\<close> and \<open>n\<close> keepalive messages went unanswered.\<close>

definition silent_client :: "nat \<Rightarrow> nat \<Rightarrow> nat \<Rightarrow> client \<Rightarrow> bool" where
  "silent_client T n t c \<longleftrightarrow> c_connected c \<and> c_socket c \<and> c_authenticated c \<and> c_lastRecvTime c = T \<and> n < 6 \<and> c_missedKeepalives c = n mod 3 \<and>
     (if c_keepaliveInFlight c
      then T + sec (90 * n + 60) \<le> c_keepaliveSentTime c \<and> c_keepaliveSentTime c \<le> T + sec (96 * n + 64) \<and> t < c_keepaliveSentTime c + sec 30
      else T + sec (90 * n) \<le> c_lastActivity c \<and> c_lastActivity c \<le> T + sec (96 * n) \<and> t < c_lastActivity c + sec 60)"

lemma silent_client_bound: "silent_client T n t c \<Longrightarrow> t < T + sec 576"
  by (auto simp: silent_client_def split: if_splits)

lemma keepalive_idle_silent:
  assumes c: "silent_client T n t c" and now: "k_now k \<le> t + sec 2" and k: "k_now k \<le> k_sending k" "k_sending k \<le> k_sent k" "k_sent k \<le> k_now k + sec 2"
    and fl: "\<not> c_keepaliveInFlight c"
  shows "\<exists>c' outs. keepalive_idle True (k_now k) (k_sending k) (k_sent k) c = (c', outs) \<and> silent_client T n (k_now k) c' \<and> Out_disconnected \<notin> set outs"
proof (cases "sec 60 \<le> k_now k - c_lastActivity c")
  case True
  then show ?thesis
    using assms by (auto simp: keepalive_idle_def le_whole_seconds sendKeepalive_def client_send_def silent_client_def)
next
  case False
  then show ?thesis
    using assms by (auto simp: keepalive_idle_def le_whole_seconds silent_client_def)
qed
text \<open>A keepalive message that is missed: the link is dead at the sixth, 540 seconds after the last byte at the earliest.\<close>

lemma keepalive_timeout_missed:
  assumes c: "silent_client T n t c" "c_keepaliveInFlight c" and now: "now \<le> t + sec 2" "c_keepaliveSentTime c + sec 30 \<le> now"
  shows "case keepalive_timeout now c of (dead, c') \<Rightarrow>
    if dead then T + sec 540 \<le> now
    else silent_client T (Suc n) now c' \<and> \<not> c_keepaliveInFlight c' \<and> c_lastActivity c' = now"
proof -
  have late: "sec 30 \<le> now - c_keepaliveSentTime c" using now(2) by simp
  have bounds: "T + sec (90 * n + 90) \<le> now" "now \<le> T + sec (96 * n + 96)" "n < 6" "c_lastRecvTime c = T" "c_missedKeepalives c = n mod 3"
    using c now by (simp_all add: silent_client_def)
  consider "n = 0" | "n = 1" | "n = 2" | "n = 3" | "n = 4" | "n = 5" using bounds(3) by linarith
  then show ?thesis
    using c late bounds by cases (simp_all add: keepalive_timeout_def le_whole_seconds silent_client_def Let_def)
qed

lemma client_pass_silent:
  assumes c: "silent_client T n t c" and pass: "silent_passes t [i]"
  shows "(\<exists>n' c' outs. client_pass i c = (c', outs) \<and> silent_client T n' (k_now (i_clock i)) c' \<and> Out_disconnected \<notin> set outs)
    \<or> (Out_disconnected \<in> set (snd (client_pass i c)) \<and> T + sec 540 \<le> k_now (i_clock i))"
proof -
  let ?k = "i_clock i" let ?now = "k_now ?k"
  have on: "c_connected c" "c_authenticated c" using c by (simp_all add: silent_client_def)
  have k: "?now \<le> t + sec 2" "?now \<le> k_sending ?k" "k_sending ?k \<le> k_sent ?k" "k_sent ?k \<le> ?now + sec 2"
      "i_poll i = Poll_timeout" "i_send i" using pass by simp_all
  have quiet: "client_pass i c = keepalive_idle True ?now (k_sending ?k) (k_sent ?k) c'"
    if "keepalive_timeout ?now c = (False, c')" for c'
  proof -
    have "c_authenticated c'" using that on(2) by (auto simp: keepalive_timeout_def Let_def split: if_splits)
    then show ?thesis using that on k(5,6) by (simp add: client_pass_def client_polled_def Let_def split: prod.splits)
  qed
  show ?thesis
  proof (cases "c_keepaliveInFlight c")
    case False
    then have "keepalive_timeout ?now c = (False, c)" by (simp add: keepalive_timeout_def)
    then show ?thesis using quiet keepalive_idle_silent [OF c k(1-4) False] by metis
  next
    case flight: True
    show ?thesis
    proof (cases "c_keepaliveSentTime c + sec 30 \<le> ?now")
      case False
      then have "keepalive_timeout ?now c = (False, c)" by (auto simp: keepalive_timeout_def le_whole_seconds)
      moreover have "keepalive_idle True ?now (k_sending ?k) (k_sent ?k) c = (c, [])" using flight by (simp add: keepalive_idle_def)
      moreover have "silent_client T n ?now c" using c False flight by (simp add: silent_client_def)
      ultimately show ?thesis using quiet by fastforce
    next
      case True
      obtain dead c' where t: "keepalive_timeout ?now c = (dead, c')" by (cases "keepalive_timeout ?now c")
      note miss = keepalive_timeout_missed [OF c flight k(1) True, unfolded t prod.case]
      show ?thesis
      proof (cases dead)
        case True
        then show ?thesis using miss t on by (simp add: client_pass_def lose_connection_def Let_def)
      next
        case False
        then have c': "silent_client T (Suc n) ?now c'" "\<not> c_keepaliveInFlight c'" using miss by simp_all
        show ?thesis
          using quiet t False keepalive_idle_silent [OF c'(1) _ k(2-4) c'(2)] by fastforce
      qed
    qed
  qed
qed

lemma client_passes_silent:
  assumes "silent_client T n t c" "silent_passes t is"
  shows "((\<forall>i\<in>set is. k_now (i_clock i) < T + sec 540) \<longrightarrow>
            c_connected (fst (client_passes is c)) \<and> Out_disconnected \<notin> set (snd (client_passes is c))) \<and>
         ((\<exists>i\<in>set is. T + sec 576 \<le> k_now (i_clock i)) \<longrightarrow> Out_disconnected \<in> set (snd (client_passes is c)))"
  using assms
proof (induction "is" arbitrary: n t c)
  case Nil
  then show ?case by (simp add: silent_client_def)
next
  case (Cons i "is")
  have passes: "fst (client_passes (i # is) c) = fst (client_passes is (fst (client_pass i c)))"
      "set (snd (client_passes (i # is) c)) = set (snd (client_pass i c)) \<union> set (snd (client_passes is (fst (client_pass i c))))"
    by (simp_all split: prod.splits)
  have "silent_passes t [i]" "silent_passes (k_now (i_clock i)) is" using Cons.prems(2) by simp_all
  with client_pass_silent [OF Cons.prems(1)] consider
      (alive) n' c' outs where "client_pass i c = (c', outs)" "silent_client T n' (k_now (i_clock i)) c'" "Out_disconnected \<notin> set outs"
    | (dead) "Out_disconnected \<in> set (snd (client_pass i c))" "T + sec 540 \<le> k_now (i_clock i)" by blast
  then show ?case
  proof cases
    case alive
    have "k_now (i_clock i) < T + sec 576" using alive(2) by (rule silent_client_bound)
    with alive show ?thesis
      using Cons.IH [OF alive(2) \<open>silent_passes (k_now (i_clock i)) is\<close>] unfolding passes by auto
  next
    case dead
    then show ?thesis unfolding passes by auto
  qed
qed

text \<open>Before the pool has answered the login the silence is not looked at: nothing ever ends such a link, and nothing is mined.\<close>

theorem unanswered_login_waits:
  assumes "c_connected c" "\<not> c_authenticated c" "\<forall>i\<in>set is. i_poll i = Poll_timeout"
  shows "client_passes is c = (c, [])"
  using assms(3)
proof (induction "is")
  case (Cons i "is")
  have "client_pass i c = (c, [])" using assms(1,2) Cons.prems by (simp add: client_pass_def client_polled_def Let_def)
  then show ?case using Cons by simp
qed simp

text \<open>C13: An authenticated link on which nothing arrives is given up, but late.  Let the last activity be the last byte received,
  with no keepalive outstanding and none missed, and from then on let nothing be submitted, the network take the keepalive
  messages, and the loop come round at least every two seconds: the client stays connected for 540 seconds after the last byte,
  and it reports the loss of the connection at the latest after 576.  \<open>SILENCE_TIMEOUT\<close>, 300 seconds of silence before a
  disconnection, is looked at only at every third missed keepalive.\<close>

theorem silent_link_dropped:
  assumes "c_connected c" "c_socket c" "c_authenticated c" "\<not> c_keepaliveInFlight c" "c_missedKeepalives c = 0"
    and "c_lastRecvTime c = T" "c_lastActivity c = T" "silent_passes T is"
  shows "((\<forall>i\<in>set is. k_now (i_clock i) < T + sec 540) \<longrightarrow>
            c_connected (fst (client_passes is c)) \<and> Out_disconnected \<notin> set (snd (client_passes is c))) \<and>
         ((\<exists>i\<in>set is. T + sec 576 \<le> k_now (i_clock i)) \<longrightarrow> Out_disconnected \<in> set (snd (client_passes is c)))"
  using assms by (intro client_passes_silent [of T 0 T]) (simp_all add: silent_client_def)

text \<open>Every second, from \<open>t\<close> on.\<close>

definition example_passes :: "nat \<Rightarrow> nat \<Rightarrow> pass list" where
  "example_passes t n = map (\<lambda>k. \<lparr>i_clock = example_clock (t + sec (k + 1)), i_first = plain_try, i_second = plain_try, i_send = True,
     i_poll = Poll_timeout\<rparr>) [0..<n]"

lemma example_passes_silent: "silent_passes t (example_passes t n)"
proof -
  have "silent_passes (t + sec m) (map (\<lambda>k. \<lparr>i_clock = example_clock (t + sec (k + 1)), i_first = plain_try, i_second = plain_try,
      i_send = True, i_poll = Poll_timeout\<rparr>) [m..<m + n])" for m
  proof (induction n arbitrary: m)
    case (Suc n)
    then show ?case using Suc [of "Suc m"] by (simp add: upt_conv_Cons example_clock_def del: upt_Suc)
  qed simp
  from this [of 0] show ?thesis by (simp add: example_passes_def)
qed

theorem silent_link_dropped_witness:
  "let c = example_client\<lparr>c_connected := True, c_socket := True, c_authenticated := True, c_rpcId := ''x''\<rparr> in
    c_connected (fst (client_passes (example_passes 0 539) c)) \<and> Out_disconnected \<in> set (snd (client_passes (example_passes 0 576) c))"
proof -
  let ?c = "example_client\<lparr>c_connected := True, c_socket := True, c_authenticated := True, c_rpcId := ''x''\<rparr>"
  have c: "c_connected ?c" "c_socket ?c" "c_authenticated ?c" "\<not> c_keepaliveInFlight ?c" "c_missedKeepalives ?c = 0"
      "c_lastRecvTime ?c = 0" "c_lastActivity ?c = 0" by (simp_all add: example_client_def new_client_def)
  have "\<forall>i\<in>set (example_passes 0 539). k_now (i_clock i) < 0 + sec 540" by (auto simp: example_passes_def example_clock_def)
  moreover have "\<exists>i\<in>set (example_passes 0 576). 0 + sec 576 \<le> k_now (i_clock i)"
    by (auto simp: example_passes_def example_clock_def intro!: bexI [of _ 575])
  ultimately show ?thesis
    using silent_link_dropped [OF c example_passes_silent] by (simp add: Let_def)
qed
end
