(* ===== verification/Miner_Rate.thy ===== *)
theory Miner_Rate
  imports Miner
begin

text \<open>
  The hash rate of \<open>Miner.cpp\<close>: a ring of 64 samples, one a second, and the rate over the samples of the last seconds.  The ring
  implements the list of all samples.  A rate is the two operands of its division, hashes and nanoseconds; \<open>None\<close> is 0.
\<close>

section \<open>Model\<close>

definition totalHashes :: "miner \<Rightarrow> u64" where
  "totalHashes m = (if \<not> mi_running m then 0 else foldl (\<lambda>t s. t + w_hashCount (sl_worker s)) 0 (mi_workers m))"

record hash_sample =
  hs_time :: nat
  hs_hashes :: u64

record hash_ring =
  hr_samples :: "hash_sample list"
  hr_top :: nat

abbreviation (input) "kHashrateSamples \<equiv> (64 :: nat)"
abbreviation (input) "kShortInterval \<equiv> (10 :: nat)"

definition empty_ring :: hash_ring where
  "empty_ring = \<lparr>hr_samples = replicate kHashrateSamples \<lparr>hs_time = 0, hs_hashes = 0\<rparr>, hr_top = 0\<rparr>"

definition sampleHashrate :: "nat \<Rightarrow> u64 \<Rightarrow> hash_ring \<Rightarrow> hash_ring" where
  "sampleHashrate now tot r =
     \<lparr>hr_samples = (hr_samples r)[hr_top r mod kHashrateSamples := \<lparr>hs_time = now, hs_hashes = tot\<rparr>], hr_top = hr_top r + 1\<rparr>"

text \<open>The index of the sample \<open>i\<close> places before the newest, and the scan for the oldest sample in the interval.\<close>

definition ring_index :: "hash_ring \<Rightarrow> nat \<Rightarrow> nat" where
  "ring_index r i = (hr_top r - 1 - i) mod kHashrateSamples"

function oldest_index :: "hash_ring \<Rightarrow> nat \<Rightarrow> nat \<Rightarrow> nat \<Rightarrow> nat" where
  "oldest_index r count i oldest =
     (if i < count
      then let idx = ring_index r i in
        if kShortInterval < seconds (hs_time (hr_samples r ! ring_index r 0) - hs_time (hr_samples r ! idx)) then oldest
        else oldest_index r count (i + 1) idx
      else oldest)"
  by auto

termination by (relation "measure (\<lambda>(r, count, i, oldest). count - i)") auto

declare oldest_index.simps [simp del]

definition average_rate :: "nat \<Rightarrow> nat \<Rightarrow> u64 \<Rightarrow> (u64 \<times> nat) option" where
  "average_rate start now hashes =
     (let elapsed = seconds (now - start) in if elapsed \<le> 0 then None else Some (hashes, elapsed * 1000000000))"

definition hashrate :: "nat \<Rightarrow> nat \<Rightarrow> u64 \<Rightarrow> hash_ring \<Rightarrow> (u64 \<times> nat) option" where
  "hashrate start now tot r =
     (if hr_top r < 2 then average_rate start now tot
      else
        let newest = ring_index r 0; newestSample = hr_samples r ! newest;
            oldestIdx = oldest_index r (min (hr_top r) kHashrateSamples) 1 newest
        in if oldestIdx = newest then average_rate start (hs_time newestSample) (hs_hashes newestSample)
           else
             let oldestSample = hr_samples r ! oldestIdx; dt = hs_time newestSample - hs_time oldestSample
             in if dt \<le> 0 then None else Some (hs_hashes newestSample - hs_hashes oldestSample, dt))"

section \<open>The ring as a list\<close>

definition ring_list :: "hash_ring \<Rightarrow> hash_sample list" where
  "ring_list r = map (\<lambda>i. hr_samples r ! ring_index r i) [0..<min (hr_top r) kHashrateSamples]"

definition ring_ok :: "hash_ring \<Rightarrow> bool" where
  "ring_ok r \<longleftrightarrow> length (hr_samples r) = kHashrateSamples"

lemma ring_ok_sample: "ring_ok r \<Longrightarrow> ring_ok (sampleHashrate now tot r)"
  by (simp add: ring_ok_def sampleHashrate_def)

lemma ring_index_neq: "0 < i \<Longrightarrow> i < hr_top r \<Longrightarrow> i < 64 \<Longrightarrow> ring_index r i \<noteq> ring_index r 0"
proof
  assume i: "0 < i" "i < hr_top r" "i < 64" and eq: "ring_index r i = ring_index r 0"
  have "hr_top r - 1 - i + i = hr_top r - 1" using i by simp
  then have "(hr_top r - 1 - i) mod 64 = (hr_top r - 1 - i + i) mod 64" using eq by (simp add: ring_index_def)
  then have "64 dvd i" using mod_eq_dvd_iff_nat [of "hr_top r - 1 - i" "hr_top r - 1 - i + i" 64] by simp
  then show False using i by (auto dest: dvd_imp_le)
qed

lemma ring_list_nth: "i < hr_top r \<Longrightarrow> i < 64 \<Longrightarrow> ring_list r ! i = hr_samples r ! ring_index r i"
  by (simp add: ring_list_def)

lemma ring_list_sample:
  assumes "ring_ok r"
  shows "ring_list (sampleHashrate now tot r) = take 64 (\<lparr>hs_time = now, hs_hashes = tot\<rparr> # ring_list r)"
proof (rule nth_equalityI)
  show "length (ring_list (sampleHashrate now tot r)) = length (take 64 (\<lparr>hs_time = now, hs_hashes = tot\<rparr> # ring_list r))"
    by (simp add: ring_list_def sampleHashrate_def)
next
  fix i assume "i < length (ring_list (sampleHashrate now tot r))"
  then have i: "i \<le> hr_top r" "i < 64" by (simp_all add: ring_list_def sampleHashrate_def)
  show "ring_list (sampleHashrate now tot r) ! i = take 64 (\<lparr>hs_time = now, hs_hashes = tot\<rparr> # ring_list r) ! i"
  proof (cases i)
    case 0
    have "ring_list (sampleHashrate now tot r) ! 0 = hr_samples (sampleHashrate now tot r) ! ring_index (sampleHashrate now tot r) 0"
      by (rule ring_list_nth) (simp_all add: sampleHashrate_def)
    then show ?thesis using 0 assms by (simp add: sampleHashrate_def ring_index_def ring_ok_def)
  next
    case (Suc j)
    let ?s = "sampleHashrate now tot r"
    have "ring_index ?s i \<noteq> ring_index ?s 0" using i Suc by (intro ring_index_neq) (simp_all add: sampleHashrate_def)
    moreover have "ring_index ?s 0 = hr_top r mod 64" "ring_index ?s i = ring_index r j"
      using i Suc by (simp_all add: ring_index_def sampleHashrate_def)
    ultimately have "hr_samples ?s ! ring_index ?s i = hr_samples r ! ring_index r j" by (simp add: sampleHashrate_def)
    moreover have "ring_list ?s ! i = hr_samples ?s ! ring_index ?s i" by (rule ring_list_nth) (use i Suc in \<open>simp_all add: sampleHashrate_def\<close>)
    moreover have "ring_list r ! j = hr_samples r ! ring_index r j" by (rule ring_list_nth) (use i Suc in simp_all)
    ultimately show ?thesis using i Suc by simp
  qed
qed

lemma oldest_index_list:
  assumes "0 < i" "n = min (hr_top r) 64"
  defines "near \<equiv> (\<lambda>s. seconds (hs_time (hr_samples r ! ring_index r 0) - hs_time s) \<le> 10)"
  shows "oldest_index r n i (ring_index r (i - 1)) = ring_index r (i - 1 + length (takeWhile near (drop i (ring_list r))))"
  using assms(1)
proof (induction "n - i" arbitrary: i)
  case 0
  then show ?case using assms(2) by (subst oldest_index.simps) (auto simp: ring_list_def min_def split: if_splits)
next
  case (Suc k)
  have d: "drop i (ring_list r) = hr_samples r ! ring_index r i # drop (Suc i) (ring_list r)"
    using Suc.hyps(2) assms(2) ring_list_nth [of i r] Cons_nth_drop_Suc [of i "ring_list r"]
    by (simp add: ring_list_def min_def split: if_splits)
  have "k = n - Suc i" using Suc.hyps(2) by simp
  from Suc.hyps(1) [OF this] Suc.hyps(2) Suc.prems show ?case
    by (subst oldest_index.simps) (auto simp: d near_def Let_def not_le)
qed

section \<open>The rate of a list of samples\<close>

text \<open>
  The samples, newest first, at most 64: the oldest of those that follow the newest without a gap in the interval.
\<close>

fun rate_of :: "nat \<Rightarrow> hash_sample list \<Rightarrow> (u64 \<times> nat) option" where
  "rate_of start [] = None"
| "rate_of start (s # ss) =
     (case takeWhile (\<lambda>x. seconds (hs_time s - hs_time x) \<le> 10) ss of
        [] \<Rightarrow> average_rate start (hs_time s) (hs_hashes s)
      | xs \<Rightarrow> let dt = hs_time s - hs_time (last xs)
              in if dt = 0 then None else Some (hs_hashes s - hs_hashes (last xs), dt))"

definition take_samples :: "(nat \<times> u64) list \<Rightarrow> hash_ring" where
  "take_samples xs = foldl (\<lambda>r (now, tot). sampleHashrate now tot r) empty_ring xs"

definition samples_of :: "(nat \<times> u64) list \<Rightarrow> hash_sample list" where
  "samples_of xs = take 64 (rev (map (\<lambda>(now, tot). \<lparr>hs_time = now, hs_hashes = tot\<rparr>) xs))"

lemma take_samples_ring:
  "ring_ok (take_samples xs) \<and> hr_top (take_samples xs) = length xs \<and> ring_list (take_samples xs) = samples_of xs"
proof (induction xs rule: rev_induct)
  case Nil
  then show ?case by (simp add: take_samples_def samples_of_def empty_ring_def ring_ok_def ring_list_def)
next
  case (snoc x xs)
  obtain now tot where x: "x = (now, tot)" by (cases x)
  have "take_samples (xs @ [x]) = sampleHashrate now tot (take_samples xs)" by (simp add: take_samples_def x)
  then show ?case
    using snoc ring_list_sample [of "take_samples xs" now tot] ring_ok_sample [of "take_samples xs" now tot]
    by (simp add: samples_of_def x take_Cons' min_def) (simp add: sampleHashrate_def)
qed

lemma last_takeWhile_nth: "takeWhile P xs \<noteq> [] \<Longrightarrow> last (takeWhile P xs) = xs ! (length (takeWhile P xs) - 1)"
  by (metis diff_less last_conv_nth length_greater_0_conv takeWhile_nth zero_less_one)

text \<open>C17: After any samples the rate computed over the ring is the rate of the list of the last 64 samples: the ring, with its
  index arithmetic and its scan, implements a sliding window.\<close>

theorem hashrate_window:
  assumes "2 \<le> length xs"
  shows "hashrate start now tot (take_samples xs) = rate_of start (samples_of xs)"
proof -
  let ?r = "take_samples xs"
  have r: "ring_ok ?r" "hr_top ?r = length xs" and l: "ring_list ?r = samples_of xs" using take_samples_ring [of xs] by simp_all
  define s ss where "s = ring_list ?r ! 0" and "ss = drop 1 (ring_list ?r)"
  have len: "length (ring_list ?r) = min (length xs) 64" using r(2) by (simp add: ring_list_def)
  have cons: "ring_list ?r = s # ss" using assms len by (cases "ring_list ?r") (simp_all add: s_def ss_def)
  have s: "hr_samples ?r ! ring_index ?r 0 = s" using assms r(2) ring_list_nth [of 0 ?r] by (cases xs) (simp_all add: s_def)
  have sm: "samples_of xs = s # ss" using l cons by simp
  let ?near = "\<lambda>x. seconds (hs_time s - hs_time x) \<le> 10"
  let ?k = "length (takeWhile ?near ss)"
  have oldest: "oldest_index ?r (min (hr_top ?r) 64) 1 (ring_index ?r 0) = ring_index ?r ?k"
    using oldest_index_list [of 1 "min (hr_top ?r) 64" ?r] s by (simp add: ss_def)
  show ?thesis
  proof (cases "takeWhile ?near ss = []")
    case True
    then show ?thesis
      using oldest assms r(2) s sm by (simp add: hashrate_def Let_def)
  next
    case False
    have "?k < length (ring_list ?r)" using length_takeWhile_le [of ?near ss] cons by simp
    then have k: "0 < ?k" "?k < length xs" "?k < 64" using False len by simp_all
    have "ring_index ?r ?k \<noteq> ring_index ?r 0" using k r(2) by (intro ring_index_neq) simp_all
    moreover have "hr_samples ?r ! ring_index ?r ?k = last (takeWhile ?near ss)"
      using k r(2) cons last_takeWhile_nth [OF False] ring_list_nth [of ?k ?r] by (simp add: nth_Cons')
    ultimately show ?thesis
      using oldest assms r(2) s sm False by (simp add: hashrate_def Let_def split: list.splits)
  qed
qed

theorem hashrate_window_witness:
  "hashrate 0 9 0 (take_samples [(1000000000, 5), (2000000000, 25), (3000000000, 45)]) = rate_of 0 (samples_of [(1000000000, 5), (2000000000, 25), (3000000000, 45)])"
  by (rule hashrate_window) simp

text \<open>Workers that are replaced take their counts with them: the difference wraps around.\<close>

theorem hashrate_wraps:
  assumes "b < a" "start + 1000000000 \<le> t"
  shows "hashrate start now tot (take_samples [(t, a), (t + 1000000000, b)]) = Some (b - a, 1000000000)"
    and "unat (b - a) = 2 ^ 64 - (unat a - unat b)"
proof -
  show "hashrate start now tot (take_samples [(t, a), (t + 1000000000, b)]) = Some (b - a, 1000000000)"
    by (subst hashrate_window) (simp_all add: samples_of_def seconds_def Let_def)
  show "unat (b - a) = 2 ^ 64 - (unat a - unat b)"
    using assms(1) unat_u64_lt [of a] unat_sub_if_size [of b a] by (simp add: word_size word_less_nat_alt)
qed

end
