(* ===== verification/Config_Text.thy ===== *)
theory Config_Text
  imports Config
begin

text \<open>
  What the readers of the settings file find.  A file is a text followed by segments, each a quoted text and what stands
  between it and the next quotation mark.
\<close>

section \<open>Segments\<close>

type_synonym segments = "(string \<times> string) list"

fun seg_text :: "segments \<Rightarrow> string" where
  "seg_text [] = ''''"
| "seg_text ((q, t) # ss) = quoted q @ t @ seg_text ss"

fun seg_after :: "string \<Rightarrow> segments \<Rightarrow> (string \<times> segments) option" where
  "seg_after k [] = None"
| "seg_after k ((q, t) # ss) = (if q = k then Some (t, ss) else seg_after k ss)"

lemma seg_text_append [simp]: "seg_text (xs @ ys) = seg_text xs @ seg_text ys"
  by (induction xs rule: seg_text.induct) simp_all

lemma seg_after_append:
  "seg_after k (xs @ ys) = (case seg_after k xs of None \<Rightarrow> seg_after k ys | Some (t, ss) \<Rightarrow> Some (t, ss @ ys))"
  by (induction xs rule: seg_after.induct) simp_all

text \<open>Segments among which a name can be searched: no quotation marks, and nothing between two of them is the name.\<close>

definition searchable :: "string \<Rightarrow> string \<Rightarrow> segments \<Rightarrow> bool" where
  "searchable k t0 ss \<longleftrightarrow> noquote k \<and> CHR '':'' \<notin> set k \<and> noquote t0 \<and> (\<forall>(q, t)\<in>set ss. noquote q \<and> noquote t \<and> t \<noteq> k)"

lemma searchable_Cons:
  "searchable k t0 ((q, t) # ss) \<longleftrightarrow> noquote t0 \<and> noquote q \<and> t \<noteq> k \<and> searchable k t ss"
  by (auto simp: searchable_def)

lemma scan_seg_skip:
  assumes "searchable k t0 ((q, t) # ss)" "q \<noteq> k"
  shows "scan_from (starts_with (quoted k)) i (t0 @ seg_text ((q, t) # ss))
    = scan_from (starts_with (quoted k)) (i + length t0 + length q + 2) (t @ seg_text ss)"
proof -
  have nq: "DQ \<notin> set t0" "DQ \<notin> set q" "DQ \<notin> set t" "DQ \<notin> set k" "t \<noteq> k"
    using assms(1) by (auto simp: searchable_def noquote_def)
  have rest: "t @ seg_text ss = t \<or> (\<exists>s. t @ seg_text ss = t @ DQ # s)"
    by (cases ss) (auto simp: quoted_def)
  have "\<not> starts_with (k @ [DQ]) (t @ seg_text ss)"
    using rest starts_with_noquote [OF nq(4,3)] starts_with_noquote_end [OF nq(3)] nq(5) by metis
  then have t: "\<not> starts_with (quoted k) (DQ # t @ seg_text ss)" by (simp add: quoted_def)
  have "scan_from (starts_with (quoted k)) i (t0 @ seg_text ((q, t) # ss))
      = scan_from (starts_with (quoted k)) (i + length t0) (DQ # q @ DQ # t @ seg_text ss)"
    using scan_quoted_skip [OF nq(1)] by (simp add: quoted_def)
  also have "\<dots> = scan_from (starts_with (quoted k)) (Suc (i + length t0)) (q @ DQ # t @ seg_text ss)"
    using starts_with_noquote [OF nq(4,2)] assms(2) by (simp add: quoted_def)
  also have "\<dots> = scan_from (starts_with (quoted k)) (Suc (i + length t0) + length q) (DQ # t @ seg_text ss)"
    by (rule scan_quoted_skip [OF nq(2)])
  finally show ?thesis using t by simp
qed

lemma seg_find:
  assumes "searchable k t0 ss"
  shows "(seg_after k ss = None \<and> scan_from (starts_with (quoted k)) i (t0 @ seg_text ss) = None) \<or>
    (\<exists>u t rs. seg_after k ss = Some (t, rs) \<and> scan_from (starts_with (quoted k)) i (t0 @ seg_text ss) = Some (i + length u)
       \<and> t0 @ seg_text ss = u @ quoted k @ t @ seg_text rs)"
  using assms
proof (induction k ss arbitrary: t0 i rule: seg_after.induct)
  case (1 k)
  then show ?case using scan_quoted_end [of t0 k i] by (simp add: searchable_def noquote_def)
next
  case (2 k q t ss)
  show ?case
  proof (cases "q = k")
    case True
    have "DQ \<notin> set t0" "DQ \<notin> set k" using 2(2) by (simp_all add: searchable_def noquote_def)
    then have "scan_from (starts_with (quoted k)) i (t0 @ seg_text ((k, t) # ss)) = Some (i + length t0)"
      using scan_quoted_skip [of t0 k i] starts_with_noquote [of k k] by (simp add: quoted_def)
    with True show ?thesis by auto
  next
    case False
    let ?f = "scan_from (starts_with (quoted k)) (i + length t0 + length q + 2) (t @ seg_text ss)"
    have scan: "scan_from (starts_with (quoted k)) i (t0 @ seg_text ((q, t) # ss)) = ?f" by (rule scan_seg_skip [OF 2(2) False])
    have "searchable k t ss" using 2(2) by (simp add: searchable_Cons)
    from 2(1) [OF False this, of "i + length t0 + length q + 2"] consider
        "seg_after k ss = None" "?f = None"
      | u t' rs where "seg_after k ss = Some (t', rs)" "?f = Some (i + length t0 + length q + 2 + length u)"
          "t @ seg_text ss = u @ quoted k @ t' @ seg_text rs" by auto
    then show ?thesis
    proof cases
      case 1
      then show ?thesis using scan False by simp
    next
      case (2 u t' rs)
      then have "?f = Some (i + length (t0 @ quoted q @ u))"
          "t0 @ seg_text ((q, t) # ss) = (t0 @ quoted q @ u) @ quoted k @ t' @ seg_text rs"
        by (simp_all add: quoted_def)
      with 2(1) scan False show ?thesis
        by (intro disjI2 exI [of _ "t0 @ quoted q @ u"] exI [of _ t'] exI [of _ rs] conjI) (simp_all only: seg_after.simps if_False)
    qed
  qed
qed

lemma seg_find_Some:
  assumes "searchable k t0 ss" "seg_after k ss = Some (t, rs)"
  obtains u where "str_find (t0 @ seg_text ss) (quoted k) 0 = Some (length u)" "t0 @ seg_text ss = u @ quoted k @ t @ seg_text rs"
  using seg_find [OF assms(1), of 0] assms(2) by (auto simp: str_find_def)

lemma seg_find_None: "searchable k t0 ss \<Longrightarrow> seg_after k ss = None \<Longrightarrow> str_find (t0 @ seg_text ss) (quoted k) 0 = None"
  using seg_find [of k t0 ss 0] by (auto simp: str_find_def)

section \<open>Values\<close>

lemma str_find_if_skip:
  assumes "\<forall>c\<in>set u. \<not> P c" "P c"
  shows "str_find_if P (w @ u @ c # t) (length w) = Some (length w + length u)"
proof -
  have "\<not> (case drop j (u @ c # t) of [] \<Rightarrow> False | d # _ \<Rightarrow> P d)" if "j < length u" for j
    using that assms(1) nth_mem [of j u] by (auto simp: Cons_nth_drop_Suc [symmetric])
  then show ?thesis using assms(2) by (simp add: str_find_if_def scan_from_skip)
qed

lemma seg_colon:
  assumes "searchable k t0 ss" "seg_after k ss = Some (CHR '':'' # w, rs)"
  obtains u where "str_find (t0 @ seg_text ss) (quoted k) 0 = Some (length u)"
    "t0 @ seg_text ss = u @ quoted k @ CHR '':'' # w @ seg_text rs"
    "str_find_char (t0 @ seg_text ss) (CHR '':'') (length u) = Some (length u + length (quoted k))"
proof -
  obtain u where u: "str_find (t0 @ seg_text ss) (quoted k) 0 = Some (length u)"
      "t0 @ seg_text ss = u @ quoted k @ (CHR '':'' # w) @ seg_text rs"
    by (rule seg_find_Some [OF assms])
  have "str_find_char (u @ quoted k @ CHR '':'' # w @ seg_text rs) (CHR '':'') (length u) = Some (length u + length (quoted k))"
    by (rule str_find_char_skip) (use assms(1) in \<open>simp add: quoted_def searchable_def\<close>)
  then show thesis using u that by simp
qed

lemma jsonGetValue_quoted_eval:
  assumes "str_find s (quoted k) 0 = Some n" "str_find_char s (CHR '':'') n = Some m" "find_first_not_of s json_blanks (m + 1) = Some p"
    and "s ! p = DQ" "str_find_char s DQ (p + 1) = Some e"
  shows "jsonGetValue s k = substr s (p + 1) (e - p - 1)"
  using assms by (simp add: jsonGetValue_def)

lemma jsonGetValue_bare_eval:
  assumes "str_find s (quoted k) 0 = Some n" "str_find_char s (CHR '':'') n = Some m" "find_first_not_of s json_blanks (m + 1) = Some p"
    and "s ! p \<noteq> DQ" "find_first_of s [CHR '','', CHR ''}'', CHR 0x0A] p = Some e"
  shows "jsonGetValue s k = rtrim (substr s p (e - p))"
  using assms by (simp add: jsonGetValue_def)

lemma value_quoted:
  assumes "searchable k t0 ss" "seg_after k ss = Some (CHR '':'' # w, (v, t) # rs)" "set w \<subseteq> set json_blanks" "noquote v"
  shows "jsonGetValue (t0 @ seg_text ss) k = v"
proof -
  obtain u where u: "str_find (t0 @ seg_text ss) (quoted k) 0 = Some (length u)"
      "t0 @ seg_text ss = u @ quoted k @ CHR '':'' # w @ seg_text ((v, t) # rs)"
      "str_find_char (t0 @ seg_text ss) (CHR '':'') (length u) = Some (length u + length (quoted k))"
    by (rule seg_colon [OF assms(1,2)])
  let ?pre = "u @ quoted k @ [CHR '':'']" and ?r = "t @ seg_text rs"
  let ?s = "?pre @ w @ DQ # v @ DQ # ?r"
  let ?p = "length ?pre + length w"
  have s: "t0 @ seg_text ss = ?s" using u(2) by (simp add: quoted_def)
  have "find_first_not_of ?s json_blanks (length ?pre) = Some ?p"
    unfolding find_first_not_of_def by (rule str_find_if_skip) (use assms(3) in \<open>auto simp: json_blanks_def\<close>)
  moreover have "str_find_char ((?pre @ w @ [DQ]) @ v @ DQ # ?r) DQ (length (?pre @ w @ [DQ])) = Some (length (?pre @ w @ [DQ]) + length v)"
    by (rule str_find_char_skip) (use assms(4) in \<open>simp add: noquote_def\<close>)
  then have "str_find_char ?s DQ (?p + 1) = Some (?p + 1 + length v)" by (simp add: add.assoc)
  moreover have "?s ! ?p = DQ" by (simp add: nth_append)
  ultimately have "jsonGetValue ?s k = substr ?s (?p + 1) (?p + 1 + length v - ?p - 1)"
    using u(1,3) unfolding s by (intro jsonGetValue_quoted_eval [where n = "length u" and m = "length u + length (quoted k)"]) simp_all
  then show ?thesis unfolding s by (simp add: substr_def)
qed

text \<open>A value that is not quoted: no white space, and not the end of a value.\<close>

definition bare :: "string \<Rightarrow> bool" where
  "bare x \<longleftrightarrow> x \<noteq> '''' \<and> (\<forall>c\<in>set x. \<not> is_space c \<and> c \<noteq> DQ \<and> c \<noteq> CHR '','' \<and> c \<noteq> CHR ''}'')"

lemma bare_not_space: "bare x \<Longrightarrow> \<forall>c\<in>set x. \<not> is_space c"
  by (simp add: bare_def)

lemma rtrim_bare: "bare x \<Longrightarrow> (\<forall>c\<in>set w. is_space c) \<Longrightarrow> rtrim (x @ w) = x"
proof -
  assume x: "bare x" and w: "\<forall>c\<in>set w. is_space c"
  have "dropWhile is_space (rev w @ rev x) = dropWhile is_space (rev x)" using w by (simp add: dropWhile_append)
  moreover have "dropWhile is_space (rev x) = rev x"
    using x by (cases "rev x") (auto simp: bare_def dest: arg_cong [where f = set])
  ultimately show ?thesis by (simp add: rtrim_def)
qed

lemma json_blanks_space: "c \<in> set json_blanks \<Longrightarrow> is_space c"
  by (auto simp: json_blanks_def is_space_def)

lemma value_bare:
  assumes "searchable k t0 ss" "seg_after k ss = Some (CHR '':'' # w @ x @ e # t, rs)" "set w \<subseteq> set json_blanks"
    and "bare x" "e \<in> set [CHR '','', CHR ''}'', CHR 0x0A]"
  shows "jsonGetValue (t0 @ seg_text ss) k = x"
proof -
  obtain u where u: "str_find (t0 @ seg_text ss) (quoted k) 0 = Some (length u)"
      "t0 @ seg_text ss = u @ quoted k @ CHR '':'' # (w @ x @ e # t) @ seg_text rs"
      "str_find_char (t0 @ seg_text ss) (CHR '':'') (length u) = Some (length u + length (quoted k))"
    by (rule seg_colon [OF assms(1,2)])
  obtain d ds where x: "x = d # ds" using assms(4) by (cases x) (auto simp: bare_def)
  let ?pre = "u @ quoted k @ [CHR '':'']"
  let ?s = "?pre @ w @ x @ e # t @ seg_text rs"
  let ?p = "length ?pre + length w"
  have s: "t0 @ seg_text ss = ?s" using u(2) by simp
  have d: "\<not> is_space d" "d \<noteq> DQ" using assms(4) x by (simp_all add: bare_def)
  have nl: "is_space (CHR 0x0A)" by (simp add: is_space_def)
  have db: "d \<notin> set json_blanks" using d(1) json_blanks_space by blast
  have "find_first_not_of (?pre @ w @ d # ds @ e # t @ seg_text rs) json_blanks (length ?pre) = Some ?p"
    unfolding find_first_not_of_def by (rule str_find_if_skip) (use assms(3) db in auto)
  then have "find_first_not_of ?s json_blanks (length ?pre) = Some ?p" using x by simp
  moreover have "find_first_of ((?pre @ w) @ x @ e # t @ seg_text rs) [CHR '','', CHR ''}'', CHR 0x0A] (length (?pre @ w)) = Some (length (?pre @ w) + length x)"
    unfolding find_first_of_def by (rule str_find_if_skip) (use assms(4,5) nl in \<open>auto simp: bare_def\<close>)
  then have "find_first_of ?s [CHR '','', CHR ''}'', CHR 0x0A] ?p = Some (?p + length x)" by (simp add: add.assoc)
  moreover have "?s ! ?p \<noteq> DQ" using d x by (simp add: nth_append)
  ultimately have "jsonGetValue ?s k = rtrim (substr ?s ?p (?p + length x - ?p))"
    using u(1,3) unfolding s by (intro jsonGetValue_bare_eval [where n = "length u" and m = "length u + length (quoted k)"]) simp_all
  then show ?thesis unfolding s using rtrim_bare [OF assms(4), of "''''"] by (simp add: substr_def)
qed

lemma value_none: "searchable k t0 ss \<Longrightarrow> seg_after k ss = None \<Longrightarrow> jsonGetValue (t0 @ seg_text ss) k = ''''"
  by (simp add: jsonGetValue_def seg_find_None)

section \<open>Blocks\<close>

lemma close_span_found:
  "op \<notin> set w \<Longrightarrow> cl \<notin> set w \<Longrightarrow> op \<noteq> cl \<Longrightarrow> close_span op cl (Suc 0) (w @ cl # y) = Suc (length w)"
  by (induction w) auto

lemma bracket_text_found:
  assumes "op \<notin> set v" "op \<notin> set w" "cl \<notin> set w" "op \<noteq> cl"
  shows "bracket_text op cl (u @ v @ op # w @ cl # y) (length u) = Some (op # w @ [cl])"
proof -
  have "str_find_char (u @ v @ op # w @ cl # y) op (length u) = Some (length u + length v)"
    by (rule str_find_char_skip [OF assms(1)])
  moreover have "drop (length u + length v + 1) (u @ v @ op # w @ cl # y) = w @ cl # y" by simp
  moreover have "drop (length u + length v) (u @ v @ op # w @ cl # y) = op # w @ cl # y" by simp
  ultimately show ?thesis
    using close_span_found [OF assms(2,3,4), of y] by (simp add: bracket_text_def substr_def)
qed

lemma flat_block_found:
  assumes "searchable k t0 ss" "seg_after k ss = Some (t, rs)" "t @ seg_text rs = v @ CHR ''{'' # w @ CHR ''}'' # y"
    and "CHR ''{'' \<notin> set k" "CHR ''{'' \<notin> set v" "CHR ''}'' \<notin> set w"
  shows "flat_block (t0 @ seg_text ss) k = Some (CHR ''{'' # w @ [CHR ''}''])"
proof -
  obtain u where u: "str_find (t0 @ seg_text ss) (quoted k) 0 = Some (length u)" "t0 @ seg_text ss = u @ quoted k @ t @ seg_text rs"
    by (rule seg_find_Some [OF assms(1,2)])
  let ?s = "u @ (quoted k @ v) @ CHR ''{'' # w @ CHR ''}'' # y" and ?n = "length u + length (quoted k @ v)"
  have s: "t0 @ seg_text ss = ?s" using u(2) assms(3) by simp
  have "str_find_char ?s (CHR ''{'') (length u) = Some ?n"
    by (rule str_find_char_skip) (use assms(4,5) in \<open>simp add: quoted_def\<close>)
  moreover have "str_find_char ((u @ quoted k @ v) @ (CHR ''{'' # w) @ CHR ''}'' # y) (CHR ''}'') (length (u @ quoted k @ v))
      = Some (length (u @ quoted k @ v) + length (CHR ''{'' # w))"
    by (rule str_find_char_skip) (use assms(6) in simp)
  then have "str_find_char ?s (CHR ''}'') ?n = Some (?n + length w + 1)" by (simp add: add.assoc)
  moreover have "drop ?n ?s = CHR ''{'' # w @ CHR ''}'' # y" by simp
  ultimately show ?thesis using u(1) unfolding s flat_block_def by (simp add: substr_def)
qed

lemma object_text_found:
  assumes "searchable k t0 ss" "seg_after k ss = Some (t, rs)" "t @ seg_text rs = v @ CHR ''{'' # w @ CHR ''}'' # y"
    and "CHR ''{'' \<notin> set k" "CHR ''{'' \<notin> set v" "CHR ''{'' \<notin> set w" "CHR ''}'' \<notin> set w"
  shows "object_text (t0 @ seg_text ss) k = Some w"
proof -
  obtain u where u: "str_find (t0 @ seg_text ss) (quoted k) 0 = Some (length u)" "t0 @ seg_text ss = u @ quoted k @ t @ seg_text rs"
    by (rule seg_find_Some [OF assms(1,2)])
  let ?s = "u @ (quoted k @ v) @ CHR ''{'' # w @ CHR ''}'' # y" and ?n = "length u + length (quoted k @ v)"
  have s: "t0 @ seg_text ss = ?s" using u(2) assms(3) by simp
  have "str_find_char ?s (CHR ''{'') (length u) = Some ?n"
    by (rule str_find_char_skip) (use assms(4,5) in \<open>simp add: quoted_def\<close>)
  moreover have "drop (?n + 1) ?s = w @ CHR ''}'' # y" by simp
  ultimately show ?thesis
    using u(1) close_span_found [OF assms(6,7), of y] unfolding s object_text_def by (simp add: substr_def Let_def)
qed

section \<open>Entries\<close>

fun entries_text :: "(string \<times> string) list \<Rightarrow> string" where
  "entries_text [] = ''''"
| "entries_text [(k, v)] = text_line 8 (named k v)"
| "entries_text ((k, v) # e # es) = text_line 8 (named k v @ '','') @ entries_text (e # es)"

lemma save_entries_text: "save_entries n (n + length es) es = entries_text es"
proof (induction es arbitrary: n rule: entries_text.induct)
  case (3 k v e es)
  then show ?case using 3 [of "Suc n"] by simp
qed simp_all

lemma json_pairs_eval:
  assumes "str_find_char s DQ 0 = Some a" "str_find_char s DQ (a + 1) = Some b" "str_find_char s (CHR '':'') b = Some c"
    and "find_first_not_of s json_blanks (c + 1) = Some d"
  shows "json_pairs s = (let e = (case find_first_of s [CHR '','', CHR ''}''] d of None \<Rightarrow> length s | Some e \<Rightarrow> e)
    in (substr s (a + 1) (b - a - 1), rtrim (substr s d (e - d))) # json_pairs (drop (e + 1) s))"
  by (subst json_pairs.simps) (simp only: assms option.case Let_def)

lemma json_pairs_Nil: "json_pairs '''' = []"
  by (subst json_pairs.simps) (simp add: str_find_char_None [THEN iffD2])

lemma json_pairs_start:
  fixes w k v y :: string
  assumes "noquote w" "noquote k" "bare v"
  defines "s \<equiv> w @ named k v @ y"
  defines "p \<equiv> length w + length k + 4"
  shows "json_pairs s = (let e = (case find_first_of s [CHR '','', CHR ''}''] p of None \<Rightarrow> length s | Some e \<Rightarrow> e)
    in (k, rtrim (substr s p (e - p))) # json_pairs (drop (e + 1) s))"
proof -
  obtain d ds where v: "v = d # ds" using assms(3) by (cases v) (auto simp: bare_def)
  have "\<not> is_space d" using assms(3) v by (simp add: bare_def)
  then have d: "d \<notin> set json_blanks" using json_blanks_space by blast
  have s: "s = w @ DQ # k @ DQ # CHR '':'' # CHR '' '' # d # ds @ y" by (simp add: s_def named_def quoted_def v)
  have "str_find_char (w @ DQ # k @ DQ # CHR '':'' # CHR '' '' # d # ds @ y) DQ 0 = Some (length w)"
    by (rule str_find_char_append) (use assms(1) in \<open>simp add: noquote_def\<close>)
  moreover have "str_find_char ((w @ [DQ]) @ k @ DQ # CHR '':'' # CHR '' '' # d # ds @ y) DQ (length (w @ [DQ])) = Some (length (w @ [DQ]) + length k)"
    by (rule str_find_char_skip) (use assms(2) in \<open>simp add: noquote_def\<close>)
  moreover have "str_find_char ((w @ DQ # k) @ [DQ] @ CHR '':'' # CHR '' '' # d # ds @ y) (CHR '':'') (length (w @ DQ # k)) = Some (length (w @ DQ # k) + length [DQ])"
    by (rule str_find_char_skip) simp
  moreover have "find_first_not_of ((w @ DQ # k @ [DQ, CHR '':'']) @ [CHR '' ''] @ d # ds @ y) json_blanks (length (w @ DQ # k @ [DQ, CHR '':'']))
      = Some (length (w @ DQ # k @ [DQ, CHR '':'']) + length [CHR '' ''])"
    unfolding find_first_not_of_def by (rule str_find_if_skip) (use d in \<open>auto simp: json_blanks_def\<close>)
  ultimately have "str_find_char s DQ 0 = Some (length w)" "str_find_char s DQ (length w + 1) = Some (length w + 1 + length k)"
      "str_find_char s (CHR '':'') (length w + 1 + length k) = Some (length w + length k + 2)"
      "find_first_not_of s json_blanks (length w + length k + 2 + 1) = Some p"
    by (simp_all add: s p_def)
  from json_pairs_eval [OF this] show ?thesis by (simp add: Let_def) (simp add: s substr_def)
qed

lemma json_pairs_more:
  assumes "noquote w" "noquote k" "bare v"
  shows "json_pairs (w @ named k v @ CHR '','' # y) = (k, v) # json_pairs y"
proof -
  let ?p = "length w + length k + 4"
  have s: "w @ named k v @ CHR '','' # y = (w @ quoted k @ '': '') @ v @ CHR '','' # y" by (simp add: named_def)
  have p: "length (w @ quoted k @ '': '') = ?p" by (simp add: quoted_def)
  have "find_first_of ((w @ quoted k @ '': '') @ v @ CHR '','' # y) [CHR '','', CHR ''}''] (length (w @ quoted k @ '': ''))
      = Some (length (w @ quoted k @ '': '') + length v)"
    unfolding find_first_of_def by (rule str_find_if_skip) (use assms(3) in \<open>auto simp: bare_def\<close>)
  then have e: "find_first_of (w @ named k v @ CHR '','' # y) [CHR '','', CHR ''}''] ?p = Some (?p + length v)" unfolding s p .
  have "substr (w @ named k v @ CHR '','' # y) ?p (?p + length v - ?p) = v"
    unfolding s substr_def p [symmetric] by simp
  moreover have "w @ named k v @ CHR '','' # y = (w @ quoted k @ '': '' @ v @ [CHR '','']) @ y"
      "?p + length v + 1 = length (w @ quoted k @ '': '' @ v @ [CHR '',''])" by (simp_all add: named_def quoted_def)
  then have "drop (?p + length v + 1) (w @ named k v @ CHR '','' # y) = y" by (metis append_eq_conv_conj)
  ultimately show ?thesis
    using json_pairs_start [OF assms, of "CHR '','' # y"] e rtrim_bare [OF assms(3), of "''''"] by (simp add: Let_def)
qed

lemma find_first_of_None:
  "\<forall>c\<in>set s. c \<notin> set cs \<Longrightarrow> find_first_of (u @ s) cs (length u) = None"
proof -
  assume s: "\<forall>c\<in>set s. c \<notin> set cs"
  then have "scan_from (\<lambda>t. case t of [] \<Rightarrow> False | c # _ \<Rightarrow> c \<in> set cs) i s = None" for i by (induction s arbitrary: i) auto
  then show ?thesis by (simp add: find_first_of_def str_find_if_def)
qed

lemma json_pairs_last:
  assumes "noquote w" "noquote k" "bare v" "\<forall>c\<in>set y. is_space c"
  shows "json_pairs (w @ named k v @ y) = [(k, v)]"
proof -
  let ?p = "length w + length k + 4"
  have s: "w @ named k v @ y = (w @ quoted k @ '': '') @ v @ y" by (simp add: named_def)
  have p: "length (w @ quoted k @ '': '') = ?p" by (simp add: quoted_def)
  have sp: "\<not> is_space (CHR '','')" "\<not> is_space (CHR ''}'')" by (simp_all add: is_space_def)
  have "find_first_of ((w @ quoted k @ '': '') @ v @ y) [CHR '','', CHR ''}''] (length (w @ quoted k @ '': '')) = None"
    by (rule find_first_of_None) (use assms(3,4) sp in \<open>auto simp: bare_def\<close>)
  then have e: "find_first_of (w @ named k v @ y) [CHR '','', CHR ''}''] ?p = None" unfolding s p .
  have "substr (w @ named k v @ y) ?p (length (w @ named k v @ y) - ?p) = v @ y"
    unfolding s substr_def p [symmetric] by simp
  then show ?thesis
    using json_pairs_start [OF assms(1-3), of y] e rtrim_bare [OF assms(3,4)] by (simp add: Let_def json_pairs_Nil)
qed

lemma json_pairs_entries:
  assumes "\<forall>(k, v)\<in>set es. noquote k \<and> bare v" "noquote w" "\<forall>c\<in>set y. is_space c" "noquote y"
  shows "json_pairs (w @ entries_text es @ y) = es"
  using assms(1,2)
proof (induction es arbitrary: w rule: entries_text.induct)
  case 1
  have "DQ \<notin> set (w @ y)" using 1 assms(4) by (simp add: noquote_def)
  then show ?case by (subst json_pairs.simps) (simp add: str_find_char_None [THEN iffD2])
next
  case (2 k v)
  have "json_pairs ((w @ replicate 8 (CHR '' '')) @ named k v @ CHR 0x0A # y) = [(k, v)]"
    by (rule json_pairs_last) (use 2 assms(3) in \<open>auto simp: noquote_def is_space_def\<close>)
  then show ?case by (simp add: text_line_def)
next
  case (3 k v e es)
  have "json_pairs ((w @ replicate 8 (CHR '' '')) @ named k v @ CHR '','' # [CHR 0x0A] @ entries_text (e # es) @ y)
      = (k, v) # json_pairs ([CHR 0x0A] @ entries_text (e # es) @ y)"
    by (rule json_pairs_more) (use 3(2,3) in \<open>auto simp: noquote_def\<close>)
  also have "json_pairs ([CHR 0x0A] @ entries_text (e # es) @ y) = e # es"
    by (rule 3(1)) (use 3(2) in \<open>auto simp: noquote_def\<close>)
  finally show ?case by (simp add: text_line_def)
qed

end
