(* ===== verification/Config_Segs.thy ===== *)
theory Config_Segs
  imports Config_Text
begin

text \<open>
  The text \<open>saveFile\<close> writes, as segments, and where a name is found in it.
\<close>

section \<open>The file as segments\<close>

abbreviation (input) "NL n \<equiv> CHR 0x0A # replicate n (CHR '' '')"

fun obj_segs :: "string \<Rightarrow> string \<Rightarrow> (string \<times> string) list \<Rightarrow> string \<Rightarrow> segments" where
  "obj_segs name lead [] fin = [(name, lead @ fin)]"
| "obj_segs name lead [(k, v)] fin = [(name, lead @ replicate 8 (CHR '' '')), (k, '': '' @ v @ CHR 0x0A # fin)]"
| "obj_segs name lead ((k, v) # e # es) fin = (name, lead @ replicate 8 (CHR '' '')) # obj_segs k ('': '' @ v @ '','' @ [CHR 0x0A]) (e # es) fin"

lemma obj_segs_text: "seg_text (obj_segs name lead es fin) = quoted name @ lead @ entries_text es @ fin"
  by (induction name lead es fin rule: obj_segs.induct) (simp_all add: text_line_def named_def)

lemma obj_segs_head: "\<exists>t rs. obj_segs name lead es fin = (name, t) # rs"
  by (cases "(name, lead, es, fin)" rule: obj_segs.cases) simp_all

lemma seg_after_obj:
  obtains t rs where "seg_after name (obj_segs name lead es fin) = Some (t, rs)" "t @ seg_text rs = lead @ entries_text es @ fin"
proof -
  obtain t rs where o: "obj_segs name lead es fin = (name, t) # rs" using obj_segs_head by blast
  then have "t @ seg_text rs = lead @ entries_text es @ fin" using obj_segs_text [of name lead es fin] by simp
  with o that show thesis by simp
qed

lemma seg_after_obj_None: "k \<noteq> name \<Longrightarrow> k \<notin> fst ` set es \<Longrightarrow> seg_after k (obj_segs name lead es fin) = None"
  by (induction name lead es fin rule: obj_segs.induct) auto

definition pool_url :: "pool_config \<Rightarrow> string" where
  "pool_url p = (if p_tls p then ''stratum+ssl://'' else '''') @ p_host p @ '':'' @ show_nat (unat (p_port p))"

definition http_segs :: "config \<Rightarrow> segments" where
  "http_segs c = [(''enabled'', '': '' @ show_bool (g_apiEnabled c) @ CHR '','' # NL 8), (''host'', '': ''), (g_apiHost c, CHR '','' # NL 8)]"

definition pool_segs :: "pool_config \<Rightarrow> segments" where
  "pool_segs p = [(''url'', '': ''), (pool_url p, CHR '','' # NL 12), (''user'', '': ''), (p_user p, CHR '','' # NL 12), (''pass'', '': '')]"

definition value_segs :: "string \<Rightarrow> string \<Rightarrow> segments" where
  "value_segs k v = [(k, '': '' @ v @ CHR '','' # NL 4)]"

definition text_segs :: "string \<Rightarrow> string \<Rightarrow> segments" where
  "text_segs k v = [(k, '': ''), (v, CHR '','' # NL 4)]"

definition middle_segs :: "config \<Rightarrow> segments" where
  "middle_segs c =
     (if g_algoSpecified c then text_segs ''algo'' (g_algo c) else value_segs ''algo'' ''null'')
     @ value_segs ''colors'' (show_bool (g_colors c)) @ value_segs ''autosave'' (show_bool (g_autosave c))
     @ value_segs ''debug'' (show_bool (g_debug c))
     @ (if g_logFile c = '''' then value_segs ''log-file'' ''null'' else text_segs ''log-file'' (g_logFile c))
     @ value_segs ''print-time'' (show_int (g_printTime c)) @ value_segs ''bench-algo-time'' (show_int (g_benchAlgoTime c))
     @ (if 0 < g_algoMinTime c then value_segs ''algo-min-time'' (show_int (g_algoMinTime c)) else [])"

definition impl_segs :: "config \<Rightarrow> segments" where
  "impl_segs c = (if g_argon2Impl c = '''' then [] else text_segs ''argon2-impl'' (g_argon2Impl c))"

definition front_segs :: "config \<Rightarrow> segments" where
  "front_segs c =
     (''http'', '': {'' @ NL 8) # http_segs c @ [(''port'', '': '' @ show_nat (unat (g_apiPort c)) @ NL 4 @ ''},'' @ NL 4)]
     @ (''pools'', '': ['' @ NL 8 @ ''{'' @ NL 12) # pool_segs (g_pool c) @ [(p_pass (g_pool c), NL 8 @ ''}'' @ NL 4 @ ''],'' @ NL 4)]
     @ impl_segs c"

definition thread_segs :: "config \<Rightarrow> segments" where
  "thread_segs c = obj_segs ''algo-threads'' ('': {'' @ [CHR 0x0A]) (thread_entries c) (replicate 4 (CHR '' '') @ ''},'' @ NL 4)"

definition perf_segs :: "(real \<Rightarrow> string) \<Rightarrow> config \<Rightarrow> segments" where
  "perf_segs fixed1 c =
     (if g_algoPerf c = [] then [(''algo-perf'', '': {}'' @ [CHR 0x0A] @ ''}'' @ [CHR 0x0A])]
      else obj_segs ''algo-perf'' ('': {'' @ [CHR 0x0A]) (perf_entries fixed1 c) (replicate 4 (CHR '' '') @ ''}'' @ [CHR 0x0A] @ ''}'' @ [CHR 0x0A]))"

definition config_segs :: "(real \<Rightarrow> string) \<Rightarrow> config \<Rightarrow> segments" where
  "config_segs fixed1 c = front_segs c @ thread_segs c @ middle_segs c @ perf_segs fixed1 c"

lemma config_text_segs:
  assumes "p_host (g_pool c) \<noteq> ''''" "length (perf_entries fixed1 c) = length (g_algoPerf c)"
  shows "config_text fixed1 c = ''{'' @ NL 4 @ seg_text (config_segs fixed1 c)"
  using assms(1) save_entries_text [of 0 "thread_entries c"] save_entries_text [of 0 "perf_entries fixed1 c", unfolded assms(2)]
  by (simp add: config_text_def config_segs_def front_segs_def impl_segs_def thread_segs_def perf_segs_def http_segs_def pool_segs_def pool_text_def middle_segs_def text_segs_def value_segs_def
      text_line_def named_def obj_segs_text pool_url_def)

section \<open>Settings that a file can hold\<close>

definition config_names :: "string list" where
  "config_names = [''http'', ''enabled'', ''host'', ''port'', ''pools'', ''url'', ''user'', ''pass'', ''tls'', ''argon2-impl'', ''algo-threads'',
     ''algo'', ''colors'', ''autosave'', ''debug'', ''log-file'', ''print-time'', ''bench-algo-time'', ''algo-min-time'', ''algo-perf'',
     ''api-enabled'', ''api-host'', ''api-port'', ''cpu'']"

text \<open>A text without quotation marks and brackets that is not one of the names.\<close>

definition setting_text :: "string \<Rightarrow> bool" where
  "setting_text v \<longleftrightarrow> (\<forall>c\<in>set v. c \<notin> set [DQ, CHR ''{'', CHR ''}'', CHR ''['', CHR '']'']) \<and> v \<notin> set config_names"

definition int32 :: "int \<Rightarrow> bool" where
  "int32 i \<longleftrightarrow> - (2 ^ 31) \<le> i \<and> i < 2 ^ 31"

text \<open>The figures of \<open>algoPerf\<close> are those of known algorithms, in the order of their names as in a \<open>std::map\<close>, and are printed
  as words.\<close>

definition perf_ok :: "(real \<Rightarrow> string) \<Rightarrow> (string \<times> real) list \<Rightarrow> bool" where
  "perf_ok fixed1 perf \<longleftrightarrow> map fst perf = filter (\<lambda>k. k \<in> fst ` set perf) PERF_ORDER
     \<and> (\<forall>(k, x)\<in>set perf. bare (fixed1 x) \<and> CHR ''{'' \<notin> set (fixed1 x))"

definition storable :: "(real \<Rightarrow> string) \<Rightarrow> config \<Rightarrow> bool" where
  "storable fixed1 c \<longleftrightarrow>
     (\<forall>v\<in>set [p_host (g_pool c), p_user (g_pool c), p_pass (g_pool c), g_apiHost c, g_argon2Impl c, g_algo c, g_logFile c]. setting_text v)
     \<and> p_host (g_pool c) \<noteq> '''' \<and> CHR ''/'' \<notin> set (p_host (g_pool c)) \<and> p_user (g_pool c) \<noteq> '''' \<and> g_apiHost c \<noteq> ''''
     \<and> g_logFile c \<noteq> ''null'' \<and> (g_algoSpecified c \<longrightarrow> g_algo c \<notin> {'''', ''null''})
     \<and> (\<forall>a n. g_algoThreads c a = Some n \<longrightarrow> 0 < n \<and> int32 n)
     \<and> int32 (g_printTime c) \<and> int32 (g_benchAlgoTime c) \<and> int32 (g_algoMinTime c) \<and> perf_ok fixed1 (g_algoPerf c)"

section \<open>Numbers\<close>

lemma digit_plain: "is_digit ch \<Longrightarrow> \<not> is_space ch \<and> ch \<notin> set [DQ, CHR '','', CHR ''}'', CHR ''{'', CHR ''['', CHR '']'', CHR '':'', CHR ''-'', CHR ''+'', CHR ''/'', CHR 0x0A]"
proof -
  assume d: "is_digit ch"
  have "48 \<le> (of_char ch :: nat)" using d by (simp only: is_digit_def)
  then have "\<not> is_space ch" unfolding is_space_def by (intro notI) (elim insertE emptyE; linarith)
  moreover have "\<forall>x\<in>set [DQ, CHR '','', CHR ''}'', CHR ''{'', CHR ''['', CHR '']'', CHR '':'', CHR ''-'', CHR ''+'', CHR ''/'', CHR 0x0A]. \<not> is_digit x"
    by (simp add: is_digit_def)
  ultimately show ?thesis using d by blast
qed

lemma show_nat_plain:
  "ch \<in> set (show_nat n) \<Longrightarrow> \<not> is_space ch \<and> ch \<notin> set [DQ, CHR '','', CHR ''}'', CHR ''{'', CHR ''['', CHR '']'', CHR '':'', CHR ''-'', CHR ''+'', CHR ''/'', CHR 0x0A]"
  using show_nat_digits [of n] digit_plain by blast

lemma show_int_plain:
  "ch \<in> set (show_int i) \<Longrightarrow> \<not> is_space ch \<and> ch \<notin> set [DQ, CHR '','', CHR ''}'', CHR ''{'', CHR ''['', CHR '']'', CHR '':'', CHR ''/'', CHR 0x0A]"
proof -
  have minus: "\<not> is_space (CHR ''-'')" by (simp add: is_space_def)
  assume "ch \<in> set (show_int i)"
  then consider "ch = CHR ''-''" | "ch \<in> set (show_nat (nat \<bar>i\<bar>))" by (auto simp: show_int_def split: if_splits)
  then show ?thesis
  proof cases
    case 1
    then show ?thesis using minus by simp
  next
    case 2
    then show ?thesis using show_nat_plain [OF 2] by simp
  qed
qed

lemma bare_show_nat: "bare (show_nat n)"
  using show_nat_plain [of _ n] show_nat_nonempty [of n] by (auto simp: bare_def)

lemma bare_show_int: "bare (show_int i)"
  using show_int_plain [of _ i] show_nat_nonempty by (auto simp: bare_def show_int_def split: if_splits)

lemma parse_signed_show_nat: "lo \<le> int n \<Longrightarrow> int n \<le> hi \<Longrightarrow> parse_signed lo hi (show_nat n) = Some (int n)"
proof -
  assume n: "lo \<le> int n" "int n \<le> hi"
  obtain d ds where s: "show_nat n = d # ds" using show_nat_nonempty by (cases "show_nat n") auto
  have d: "is_digit d" using show_nat_digits [of n] s by simp
  then have "\<not> is_space d" "d \<noteq> CHR ''-''" "d \<noteq> CHR ''+''" using digit_plain [of d] by auto
  then show ?thesis using s d n digits_value_show_nat [of n] by (simp add: parse_signed_def)
qed

lemma safeStoi_show_nat: "n < 2 ^ 31 \<Longrightarrow> safeStoi (show_nat n) d = int n"
  using parse_signed_show_nat [of "- (2 ^ 31)" n "2 ^ 31 - 1"] show_nat_nonempty [of n] by (simp add: safeStoi_def stoi_def)

lemma safeStoi_show_int: "int32 i \<Longrightarrow> safeStoi (show_int i) d = i"
proof (cases "i < 0")
  case True
  assume i: "int32 i"
  obtain e es where s: "show_nat (nat (- i)) = e # es" using show_nat_nonempty by (cases "show_nat (nat (- i))") auto
  have "is_digit e" using show_nat_digits [of "nat (- i)"] s by simp
  moreover have "\<not> is_space (CHR ''-'')" by (simp add: is_space_def)
  ultimately have "stoi (CHR ''-'' # show_nat (nat (- i))) = Some i"
    using s True i digits_value_show_nat [of "nat (- i)"] by (simp add: stoi_def parse_signed_def int32_def)
  then show ?thesis using True by (simp add: safeStoi_def show_int_def)
next
  case False
  assume "int32 i"
  then show ?thesis using False safeStoi_show_nat [of "nat i" d] by (simp add: show_int_def int32_def)
qed

lemma safeStoi_port: "(of_int (safeStoi (show_nat (unat (p :: u16))) d) :: u16) = p"
proof -
  have "unat p < 2 ^ 31" using unat_lt_2p [of p] by simp
  then show ?thesis by (simp add: safeStoi_show_nat)
qed

section \<open>Searching the file\<close>

definition seg_sep :: "string \<Rightarrow> bool" where
  "seg_sep t \<longleftrightarrow> noquote t \<and> (CHR '':'' \<in> set t \<or> CHR '','' \<in> set t \<or> CHR 0x0A \<in> set t)"

definition key_name :: "string \<Rightarrow> bool" where
  "key_name k \<longleftrightarrow> noquote k \<and> CHR '':'' \<notin> set k \<and> CHR '','' \<notin> set k \<and> CHR 0x0A \<notin> set k"

definition segs_ok :: "segments \<Rightarrow> bool" where
  "segs_ok ss \<longleftrightarrow> (\<forall>(q, t)\<in>set ss. noquote q \<and> seg_sep t)"

lemma segs_ok_simps [simp]:
  "segs_ok []" "segs_ok ((q, t) # ss) \<longleftrightarrow> noquote q \<and> seg_sep t \<and> segs_ok ss" "segs_ok (xs @ ys) \<longleftrightarrow> segs_ok xs \<and> segs_ok ys"
  by (auto simp: segs_ok_def)

lemma searchable_key: "segs_ok ss \<Longrightarrow> key_name k \<Longrightarrow> noquote t0 \<Longrightarrow> searchable k t0 ss"
  by (auto simp: segs_ok_def key_name_def searchable_def seg_sep_def)

lemma key_name_config: "\<forall>k\<in>set config_names. key_name k"
  by (simp add: config_names_def key_name_def noquote_def)

lemma noquote_simps [simp]:
  "noquote ''''" "noquote (x # xs) \<longleftrightarrow> x \<noteq> DQ \<and> noquote xs" "noquote (xs @ ys) \<longleftrightarrow> noquote xs \<and> noquote ys"
  "noquote (replicate n (CHR '' ''))"
  by (auto simp: noquote_def)

lemma noquote_plain [simp]: "noquote (show_nat n)" "noquote (show_int i)" "noquote (show_bool b)" "bare x \<Longrightarrow> noquote x"
  using show_nat_plain [of DQ n] show_int_plain [of DQ i] by (auto simp: noquote_def show_bool_def bare_def)

lemma seg_sep_intros:
  "noquote t \<Longrightarrow> seg_sep (CHR '':'' # t)" "noquote t \<Longrightarrow> seg_sep (CHR '','' # t)" "noquote t \<Longrightarrow> seg_sep (CHR 0x0A # t)"
  by (auto simp: seg_sep_def)

lemma obj_segs_ok:
  "noquote name \<Longrightarrow> noquote lead \<Longrightarrow> CHR '':'' \<in> set lead \<Longrightarrow> noquote fin \<Longrightarrow> \<forall>(k, v)\<in>set es. noquote k \<and> noquote v \<Longrightarrow>
     segs_ok (obj_segs name lead es fin)"
  by (induction name lead es fin rule: obj_segs.induct) (simp_all add: seg_sep_def)

lemma setting_text_noquote: "setting_text v \<Longrightarrow> noquote v"
  by (auto simp: setting_text_def noquote_def)

lemma noquote_rxAlgoName: "noquote (rxAlgoName a)"
  by (cases a) simp_all

lemma thread_entries_ok: "\<forall>(k, v)\<in>set (thread_entries c). noquote k \<and> noquote v"
  by (auto simp: thread_entries_def map_filter_def noquote_rxAlgoName)

lemma perf_entries_eq:
  assumes "perf_ok fixed1 (g_algoPerf c)"
  shows "perf_entries fixed1 c = map (\<lambda>(k, x). (k, fixed1 x)) (g_algoPerf c)"
proof -
  let ?p = "g_algoPerf c"
  have f: "map fst ?p = filter (\<lambda>k. k \<in> fst ` set ?p) PERF_ORDER" using assms by (simp add: perf_ok_def)
  have "distinct PERF_ORDER" by (simp add: PERF_ORDER_def)
  then have d: "distinct (map fst ?p)" unfolding f by simp
  have "perf_entries fixed1 c = map (\<lambda>k. (k, fixed1 (the (map_of ?p k)))) (filter (\<lambda>k. map_of ?p k \<noteq> None) PERF_ORDER)"
    by (auto simp: perf_entries_def map_filter_def intro!: map_cong filter_cong)
  also have "filter (\<lambda>k. map_of ?p k \<noteq> None) PERF_ORDER = map fst ?p"
    unfolding f by (rule filter_cong) (auto simp: map_of_eq_None_iff)
  finally show ?thesis using d by (auto simp: map_of_is_SomeI)
qed

lemma config_segs_ok:
  assumes "storable fixed1 c"
  shows "segs_ok (config_segs fixed1 c)"
proof -
  have q: "noquote (p_host (g_pool c))" "noquote (p_user (g_pool c))" "noquote (p_pass (g_pool c))" "noquote (g_apiHost c)"
      "noquote (g_argon2Impl c)" "noquote (g_algo c)" "noquote (g_logFile c)"
    using assms by (simp_all add: storable_def setting_text_noquote)
  have "perf_entries fixed1 c = map (\<lambda>(k, x). (k, fixed1 x)) (g_algoPerf c)" "set (map fst (g_algoPerf c)) \<subseteq> set PERF_ORDER"
    using assms perf_entries_eq [of fixed1 c] by (auto simp: storable_def perf_ok_def)
  moreover have "\<forall>k\<in>set PERF_ORDER. noquote k" by (simp add: PERF_ORDER_def)
  moreover have "\<forall>(k, x)\<in>set (g_algoPerf c). bare (fixed1 x)" using assms by (auto simp: storable_def perf_ok_def)
  ultimately have p: "\<forall>(k, v)\<in>set (perf_entries fixed1 c). noquote k \<and> noquote v" by fastforce
  have t: "segs_ok (obj_segs ''algo-threads'' ('': {'' @ [CHR 0x0A]) (thread_entries c) (replicate 4 (CHR '' '') @ ''},'' @ NL 4))"
    using thread_entries_ok by (intro obj_segs_ok) simp_all
  have f: "segs_ok (obj_segs ''algo-perf'' ('': {'' @ [CHR 0x0A]) (perf_entries fixed1 c) (replicate 4 (CHR '' '') @ ''}'' @ [CHR 0x0A] @ ''}'' @ [CHR 0x0A]))"
    using p by (intro obj_segs_ok) simp_all
  have m: "segs_ok (middle_segs c)"
    using q by (simp add: middle_segs_def text_segs_def value_segs_def seg_sep_intros)
  show ?thesis
    using q t f m by (simp add: config_segs_def front_segs_def impl_segs_def thread_segs_def perf_segs_def http_segs_def pool_segs_def pool_url_def text_segs_def
        seg_sep_intros)
qed

lemma seg_after_None: "k \<notin> fst ` set ss \<Longrightarrow> seg_after k ss = None"
  by (induction ss rule: seg_after.induct) auto

definition front_names :: "string list" where
  "front_names = [''http'', ''enabled'', ''host'', ''port'', ''pools'', ''url'', ''user'', ''pass'', ''argon2-impl'']"

definition front_values :: "config \<Rightarrow> string list" where
  "front_values c = [g_apiHost c, pool_url (g_pool c), p_user (g_pool c), p_pass (g_pool c), g_argon2Impl c]"

lemma front_segs_names: "fst ` set (front_segs c) \<subseteq> set front_names \<union> set (front_values c)"
  by (auto simp: front_segs_def impl_segs_def front_names_def front_values_def http_segs_def pool_segs_def text_segs_def)

lemma pool_url_not_name: "pool_url p \<notin> set config_names"
proof
  assume "pool_url p \<in> set config_names"
  then have "key_name (pool_url p)" using key_name_config by blast
  then show False by (simp add: key_name_def pool_url_def)
qed

lemma front_values_not_names: "storable fixed1 c \<Longrightarrow> set (front_values c) \<inter> set config_names = {}"
  using pool_url_not_name [of "g_pool c"] by (auto simp: front_values_def storable_def setting_text_def)

lemma front_None:
  "storable fixed1 c \<Longrightarrow> k \<in> set config_names \<Longrightarrow> k \<notin> set front_names \<Longrightarrow> seg_after k (front_segs c) = None"
  using front_segs_names [of c] front_values_not_names [of fixed1 c] by (intro seg_after_None) blast

lemma algo_names_not_config: "rxAlgoName a \<notin> set config_names" "k \<in> set PERF_ORDER \<Longrightarrow> k \<notin> set config_names"
  by (cases a; simp add: config_names_def) (auto simp: PERF_ORDER_def config_names_def)

lemma thread_None: "k \<in> set config_names \<Longrightarrow> k \<noteq> ''algo-threads'' \<Longrightarrow> seg_after k (thread_segs c) = None"
  unfolding thread_segs_def
  by (rule seg_after_obj_None) (use algo_names_not_config(1) in \<open>auto simp: thread_entries_def map_filter_def\<close>)

lemma perf_entries_names: "fst ` set (perf_entries fixed1 c) \<subseteq> set PERF_ORDER"
  by (auto simp: perf_entries_def map_filter_def)

lemma perf_None: "k \<in> set config_names \<Longrightarrow> k \<noteq> ''algo-perf'' \<Longrightarrow> seg_after k (perf_segs fixed1 c) = None"
proof -
  assume k: "k \<in> set config_names" "k \<noteq> ''algo-perf''"
  then have "k \<notin> fst ` set (perf_entries fixed1 c)" using perf_entries_names algo_names_not_config(2) by blast
  then show ?thesis using k(2) by (simp add: perf_segs_def seg_after_obj_None)
qed

lemma middle_find:
  assumes "storable fixed1 c" "k \<in> set config_names" "k \<notin> set front_names" "k \<noteq> ''algo-threads''" "k \<noteq> ''algo-perf''"
  shows "seg_after k (config_segs fixed1 c)
    = (case seg_after k (middle_segs c) of None \<Rightarrow> None | Some (t, rs) \<Rightarrow> Some (t, rs @ perf_segs fixed1 c))"
  using front_None [OF assms(1-3)] thread_None [OF assms(2,4)] perf_None [OF assms(2,5)]
  by (simp add: config_segs_def seg_after_append split: option.splits)

text \<open>A name and its value in the middle of the file.\<close>

lemma config_searchable:
  assumes "storable fixed1 c" "k \<in> set config_names"
  shows "searchable k (''{'' @ NL 4) (config_segs fixed1 c)"
  using config_segs_ok [OF assms(1)] key_name_config assms(2) by (intro searchable_key) simp_all

lemma config_text_eq: "storable fixed1 c \<Longrightarrow> config_text fixed1 c = (''{'' @ NL 4) @ seg_text (config_segs fixed1 c)"
  using config_text_segs [of c fixed1] perf_entries_eq [of fixed1 c] by (simp add: storable_def)

lemma middle_bare:
  assumes "storable fixed1 c" "k \<in> set config_names" "k \<notin> set front_names" "k \<noteq> ''algo-threads''" "k \<noteq> ''algo-perf''"
    and "seg_after k (middle_segs c) = Some ('': '' @ x @ CHR '','' # NL 4, rs)" "bare x"
  shows "jsonGetValue (config_text fixed1 c) k = x"
proof -
  have "seg_after k (config_segs fixed1 c) = Some (CHR '':'' # [CHR '' ''] @ x @ CHR '','' # NL 4, rs @ perf_segs fixed1 c)"
    using middle_find [OF assms(1-5)] assms(6) by simp
  then show ?thesis
    unfolding config_text_eq [OF assms(1)]
    by (rule value_bare [OF config_searchable [OF assms(1,2)]]) (simp_all add: assms(7) json_blanks_def)
qed

lemma middle_text:
  assumes "storable fixed1 c" "k \<in> set config_names" "k \<notin> set front_names" "k \<noteq> ''algo-threads''" "k \<noteq> ''algo-perf''"
    and "seg_after k (middle_segs c) = Some ('': '', (v, t) # rs)" "noquote v"
  shows "jsonGetValue (config_text fixed1 c) k = v"
proof -
  have "seg_after k (config_segs fixed1 c) = Some (CHR '':'' # [CHR '' ''], (v, t) # (rs @ perf_segs fixed1 c))"
    using middle_find [OF assms(1-5)] assms(6) by simp
  then show ?thesis
    unfolding config_text_eq [OF assms(1)]
    by (rule value_quoted [OF config_searchable [OF assms(1,2)]]) (simp_all add: assms(7) json_blanks_def)
qed

lemma middle_absent:
  assumes "storable fixed1 c" "k \<in> set config_names" "k \<notin> set front_names" "k \<noteq> ''algo-threads''" "k \<noteq> ''algo-perf''"
    and "seg_after k (middle_segs c) = None"
  shows "jsonGetValue (config_text fixed1 c) k = ''''"
  unfolding config_text_eq [OF assms(1)]
  by (rule value_none [OF config_searchable [OF assms(1,2)]]) (use middle_find [OF assms(1-5)] assms(6) in simp)

end
