(* ===== verification/Config_Ok.thy ===== *)
theory Config_Ok
  imports Config_Segs
begin

text \<open>
  What \<open>saveFile\<close> writes, \<open>parseFile\<close> reads back, and what becomes of the options of the command line.
\<close>

section \<open>Reading it back\<close>

lemma show_bool_simps [simp]: "read_bool (show_bool b) x = b" "bare (show_bool b)"
  by (simp_all add: read_bool_def show_bool_def bare_def is_space_def)

lemma middle_values:
  assumes "storable fixed1 c"
  defines "s \<equiv> config_text fixed1 c"
  shows "jsonGetValue s ''debug'' = show_bool (g_debug c)" "jsonGetValue s ''colors'' = show_bool (g_colors c)"
    "jsonGetValue s ''autosave'' = show_bool (g_autosave c)" "jsonGetValue s ''print-time'' = show_int (g_printTime c)"
    "jsonGetValue s ''bench-algo-time'' = show_int (g_benchAlgoTime c)"
    "jsonGetValue s ''algo-min-time'' = (if 0 < g_algoMinTime c then show_int (g_algoMinTime c) else '''')"
    "jsonGetValue s ''algo'' = (if g_algoSpecified c then g_algo c else ''null'')"
    "jsonGetValue s ''log-file'' = (if g_logFile c = '''' then ''null'' else g_logFile c)"
    "jsonGetValue s ''api-enabled'' = ''''" "jsonGetValue s ''api-host'' = ''''" "jsonGetValue s ''api-port'' = ''''"
proof -
  have v: "g_algo c \<notin> set config_names" "g_logFile c \<notin> set config_names" "noquote (g_algo c)" "noquote (g_logFile c)"
    using assms(1) by (simp_all add: storable_def setting_text_noquote) (simp_all add: setting_text_def)
  note names = config_names_def front_names_def
  note middle = middle_segs_def text_segs_def value_segs_def seg_after_append
  note bare = middle_bare [OF assms(1), folded s_def]
  have null: "bare ''null''" by (simp add: bare_def is_space_def)
  show "jsonGetValue s ''debug'' = show_bool (g_debug c)" by (rule bare) (use v in \<open>simp_all add: names middle\<close>)
  show "jsonGetValue s ''colors'' = show_bool (g_colors c)" by (rule bare) (use v in \<open>simp_all add: names middle\<close>)
  show "jsonGetValue s ''autosave'' = show_bool (g_autosave c)" by (rule bare) (use v in \<open>simp_all add: names middle\<close>)
  show "jsonGetValue s ''print-time'' = show_int (g_printTime c)"
    by (rule bare) (use v bare_show_int in \<open>simp_all add: names middle\<close>)
  show "jsonGetValue s ''bench-algo-time'' = show_int (g_benchAlgoTime c)"
    by (rule bare) (use v bare_show_int in \<open>simp_all add: names middle\<close>)
  show "jsonGetValue s ''algo-min-time'' = (if 0 < g_algoMinTime c then show_int (g_algoMinTime c) else '''')"
  proof (cases "0 < g_algoMinTime c")
    case True
    have "jsonGetValue s ''algo-min-time'' = show_int (g_algoMinTime c)"
      by (rule bare) (use v True bare_show_int in \<open>simp_all add: names middle\<close>)
    then show ?thesis using True by simp
  next
    case False
    have "jsonGetValue s ''algo-min-time'' = ''''"
      unfolding s_def by (rule middle_absent [OF assms(1)]) (use v False in \<open>simp_all add: names middle\<close>)
    then show ?thesis using False by simp
  qed
  show "jsonGetValue s ''algo'' = (if g_algoSpecified c then g_algo c else ''null'')"
  proof (cases "g_algoSpecified c")
    case True
    have "jsonGetValue s ''algo'' = g_algo c"
      unfolding s_def by (rule middle_text [OF assms(1)]) (use v True in \<open>simp_all add: names middle\<close>)
    then show ?thesis using True by simp
  next
    case False
    have "jsonGetValue s ''algo'' = ''null''" by (rule bare) (use v False null in \<open>simp_all add: names middle\<close>)
    then show ?thesis using False by simp
  qed
  show "jsonGetValue s ''log-file'' = (if g_logFile c = '''' then ''null'' else g_logFile c)"
  proof (cases "g_logFile c = ''''")
    case True
    have "jsonGetValue s ''log-file'' = ''null''" by (rule bare) (use v True null in \<open>simp_all add: names middle\<close>)
    then show ?thesis using True by simp
  next
    case False
    have "jsonGetValue s ''log-file'' = g_logFile c"
      unfolding s_def by (rule middle_text [OF assms(1)]) (use v False in \<open>simp_all add: names middle\<close>)
    then show ?thesis using False by simp
  qed
  show "jsonGetValue s ''api-enabled'' = ''''" "jsonGetValue s ''api-host'' = ''''" "jsonGetValue s ''api-port'' = ''''"
    unfolding s_def by (rule middle_absent [OF assms(1)]; use v in \<open>simp add: names middle\<close>)+
qed

lemma brackets_not_in_numbers [simp]:
  "CHR ''{'' \<notin> set (show_nat n)" "CHR ''}'' \<notin> set (show_nat n)" "CHR ''['' \<notin> set (show_nat n)" "CHR '']'' \<notin> set (show_nat n)"
  "CHR ''{'' \<notin> set (show_bool b)" "CHR ''}'' \<notin> set (show_bool b)"
  using show_nat_plain [of _ n] by (auto simp: show_bool_def)

lemma read_http:
  assumes "storable fixed1 c"
  shows "parse_http (config_text fixed1 c) d = d\<lparr>g_apiEnabled := g_apiEnabled c, g_apiHost := g_apiHost c, g_apiPort := g_apiPort c\<rparr>"
proof -
  let ?segs = "http_segs c @ [(''port'', '': '' @ show_nat (unat (g_apiPort c)) @ NL 4 @ ''}'')]"
  let ?block = "(CHR ''{'' # NL 8) @ seg_text ?segs"
  have h: "setting_text (g_apiHost c)" "g_apiHost c \<noteq> ''''" "noquote (g_apiHost c)" using assms by (simp_all add: storable_def setting_text_noquote)
  then have hb: "CHR ''}'' \<notin> set (g_apiHost c)" "g_apiHost c \<notin> set config_names" by (auto simp: setting_text_def)
  obtain rs where after: "seg_after ''http'' (config_segs fixed1 c) = Some ('': {'' @ NL 8, rs)"
      and rs: "'': {'' @ NL 8 @ seg_text rs = '': '' @ CHR ''{'' # (NL 8 @ seg_text (http_segs c) @ quoted ''port'' @ '': '' @ show_nat (unat (g_apiPort c)) @ NL 4)
        @ CHR ''}'' # (CHR '','' # NL 4 @ seg_text ((''pools'', '': ['' @ NL 8 @ ''{'' @ NL 12) # pool_segs (g_pool c)
          @ [(p_pass (g_pool c), NL 8 @ ''}'' @ NL 4 @ ''],'' @ NL 4)] @ impl_segs c
          @ thread_segs c @ middle_segs c @ perf_segs fixed1 c))"
    by (simp add: config_segs_def front_segs_def)
  have block: "flat_block (config_text fixed1 c) ''http'' = Some ?block"
    unfolding config_text_eq [OF assms]
    by (subst flat_block_found [OF config_searchable [OF assms] after, where v = "'': ''" and w = "NL 8 @ seg_text (http_segs c) @ quoted ''port'' @ '': '' @ show_nat (unat (g_apiPort c)) @ NL 4"])
      (use rs hb in \<open>simp_all add: config_names_def http_segs_def quoted_def\<close>)
  have ok: "segs_ok ?segs" using h(3) by (simp add: http_segs_def seg_sep_intros)
  have search: "searchable k (CHR ''{'' # NL 8) ?segs" if "k \<in> set config_names" for k
    using searchable_key [OF ok] key_name_config that by simp
  have names: "''enabled'' \<in> set config_names" "''host'' \<in> set config_names" "''port'' \<in> set config_names" by (simp_all add: config_names_def)
  have "jsonGetValue ?block ''enabled'' = show_bool (g_apiEnabled c)"
    by (rule value_bare [OF search [OF names(1)], where w = "'' ''" and e = "CHR '',''" and t = "NL 8"])
      (simp_all add: http_segs_def json_blanks_def)
  moreover have "jsonGetValue ?block ''host'' = g_apiHost c"
    by (rule value_quoted [OF search [OF names(2)], where w = "'' ''"]) (use h(3) in \<open>simp_all add: http_segs_def json_blanks_def\<close>)
  moreover have "jsonGetValue ?block ''port'' = show_nat (unat (g_apiPort c))"
    by (rule value_bare [OF search [OF names(3)], where w = "'' ''" and e = "CHR 0x0A" and t = "replicate 4 (CHR '' '') @ ''}''"])
      (use hb bare_show_nat in \<open>simp_all add: http_segs_def json_blanks_def config_names_def\<close>)
  ultimately show ?thesis
    using h(2) show_nat_nonempty by (simp add: parse_http_def block read_api_def read_text_def safeStoi_port)
qed

lemma str_rfind_char_last: "ch \<notin> set v \<Longrightarrow> str_rfind_char (u @ ch # v) ch = Some (length u)"
proof (induction u)
  case Nil
  have "str_rfind_char v ch = None" using Nil by (induction v) auto
  then show ?case by simp
qed simp

lemma str_find_absent: "ch \<in> set pat \<Longrightarrow> ch \<notin> set s \<Longrightarrow> str_find s pat 0 = None"
proof -
  assume ch: "ch \<in> set pat" "ch \<notin> set s"
  have no: "\<not> starts_with pat t" if "ch \<notin> set t" for t using ch(1) that by (auto simp: starts_with_iff)
  have "scan_from (starts_with pat) i s = None" for i
    using ch(2) no by (induction s arbitrary: i) (auto dest!: no)
  then show ?thesis by (simp add: str_find_def)
qed

lemma scheme_of_pool_url:
  assumes "CHR ''/'' \<notin> set (p_host p)"
  shows "detectAndStripScheme (pool_url p) = (p_tls p, p_host p @ '':'' @ show_nat (unat (p_port p)))"
proof (cases "p_tls p")
  case True
  let ?r = "p_host p @ '':'' @ show_nat (unat (p_port p))"
  have url: "pool_url p = ''stratum+ssl://'' @ ?r" using True by (simp add: pool_url_def)
  have "str_find (''stratum+ssl://'' @ ?r) ''://'' 0 = Some 11" by (simp add: str_find_def)
  moreover have "substr (''stratum+ssl://'' @ ?r) 0 11 = ''stratum+ssl''" by (simp add: substr_def)
  moreover have "map lower_char ''stratum+ssl'' = ''stratum+ssl''" by (simp add: lower_char_def Let_def)
  moreover have "drop (11 + 3) (''stratum+ssl://'' @ ?r) = ?r" by simp
  ultimately show ?thesis unfolding url detectAndStripScheme_def using True by (simp only: option.case) simp
next
  case False
  have "CHR ''/'' \<notin> set (show_nat (unat (p_port p)))" using show_nat_plain [of "CHR ''/''" "unat (p_port p)"] by auto
  then have "CHR ''/'' \<notin> set (pool_url p)" using False assms by (simp add: pool_url_def)
  then have "str_find (pool_url p) ''://'' 0 = None" by (intro str_find_absent [of "CHR ''/''"]) simp_all
  then show ?thesis using False by (simp add: detectAndStripScheme_def) (simp add: pool_url_def)
qed

lemma split_pool_url: "split_url (h @ '':'' @ show_nat (unat p)) noPort = (h, p)"
proof -
  have "CHR '':'' \<notin> set (show_nat (unat p))" using show_nat_plain [of "CHR '':''" "unat p"] by auto
  then have "str_rfind_char (h @ CHR '':'' # show_nat (unat p)) (CHR '':'') = Some (length h)" by (rule str_rfind_char_last)
  then show ?thesis by (simp add: split_url_def substr_def safeStoi_port)
qed

lemma brackets_not_in_url:
  "setting_text (p_host p) \<Longrightarrow> ch \<in> set [CHR ''{'', CHR ''}'', CHR ''['', CHR '']'', DQ] \<Longrightarrow> ch \<notin> set (pool_url p)"
  using show_nat_plain [of ch "unat (p_port p)"] by (auto simp: setting_text_def pool_url_def)

lemma read_pools:
  assumes "storable fixed1 c"
  shows "parse_pools (config_text fixed1 c) d
    = d\<lparr>g_pool := (g_pool c)\<lparr>p_pass := read_text (p_pass (g_pool c)) (p_pass (g_pool d))\<rparr>\<rparr>"
proof -
  let ?p = "g_pool c" and ?P = "p_pass (g_pool c)"
  let ?segs = "pool_segs ?p @ [(?P, NL 8 @ ''}'')]"
  let ?w2 = "NL 12 @ seg_text (pool_segs ?p) @ quoted ?P @ NL 8"
  let ?w = "NL 8 @ ''{'' @ ?w2 @ ''}'' @ NL 4"
  let ?obj = "(CHR ''{'' # NL 12) @ seg_text ?segs"
  have t: "setting_text (p_host ?p)" "setting_text (p_user ?p)" "setting_text ?P" "p_user ?p \<noteq> ''''" "CHR ''/'' \<notin> set (p_host ?p)"
    using assms by (simp_all add: storable_def)
  have user: "p_user ?p \<notin> set config_names" "?P \<notin> set config_names" "noquote (p_user ?p)" "noquote ?P" "noquote (p_host ?p)"
      "noquote (pool_url ?p)" "pool_url ?p \<noteq> ''''"
    using t(1-3) setting_text_noquote by (auto simp: setting_text_def pool_url_def)
  have b: "ch \<notin> set (p_user ?p)" "ch \<notin> set ?P" "ch \<notin> set (pool_url ?p)" if "ch \<in> set [CHR ''{'', CHR ''}'', CHR ''['', CHR '']'', DQ]" for ch
  proof -
    have "setting_text v \<Longrightarrow> ch \<notin> set v" for v
      using that unfolding setting_text_def by (metis list.set_intros(1) list.set_intros(2) set_ConsD)
    then show "ch \<notin> set (p_user ?p)" "ch \<notin> set ?P" using t by blast+
    show "ch \<notin> set (pool_url ?p)" by (rule brackets_not_in_url [OF t(1)]) (use that in auto)
  qed
  have plain: "CHR ''{'' \<notin> set ?w2" "CHR ''}'' \<notin> set ?w2" "CHR ''['' \<notin> set ?w2" "CHR '']'' \<notin> set ?w2"
    using b [of "CHR ''{''"] b [of "CHR ''}''"] b [of "CHR ''[''"] b [of "CHR '']''"] by (simp_all add: pool_segs_def quoted_def)
  define rest where "rest = CHR '','' # NL 4 @ seg_text (impl_segs c
      @ thread_segs c @ middle_segs c @ perf_segs fixed1 c)"
  define rs where "rs = pool_segs ?p @ (?P, NL 8 @ ''}'' @ NL 4 @ ''],'' @ NL 4) # impl_segs c @ thread_segs c @ middle_segs c @ perf_segs fixed1 c"
  have "g_apiHost c \<noteq> ''pools''" using assms by (auto simp: storable_def setting_text_def config_names_def)
  then have after: "seg_after ''pools'' (config_segs fixed1 c) = Some ('': ['' @ NL 8 @ ''{'' @ NL 12, rs)"
    by (simp add: config_segs_def front_segs_def http_segs_def rs_def)
  have rs: "'': ['' @ NL 8 @ ''{'' @ NL 12 @ seg_text rs = '': '' @ CHR ''['' # ?w @ CHR '']'' # rest"
    by (simp add: rs_def rest_def)
  obtain u where u: "str_find (config_text fixed1 c) (quoted ''pools'') 0 = Some (length u)"
      "config_text fixed1 c = u @ quoted ''pools'' @ ('': ['' @ NL 8 @ ''{'' @ NL 12) @ seg_text rs"
    unfolding config_text_eq [OF assms] by (rule seg_find_Some [OF config_searchable [OF assms] after]) (simp_all add: config_names_def)
  have "bracket_text (CHR ''['') (CHR '']'') (u @ (quoted ''pools'' @ '': '') @ CHR ''['' # ?w @ CHR '']'' # rest) (length u) = Some (CHR ''['' # ?w @ [CHR '']''])"
    by (rule bracket_text_found) (use plain in \<open>simp_all add: quoted_def\<close>)
  then have pools: "bracket_text (CHR ''['') (CHR '']'') (config_text fixed1 c) (length u) = Some (CHR ''['' # ?w @ [CHR '']''])"
    using u(2) rs by simp
  have "bracket_text (CHR ''{'') (CHR ''}'') ([] @ (CHR ''['' # NL 8) @ CHR ''{'' # ?w2 @ CHR ''}'' # (NL 4 @ [CHR '']''])) (length ([] :: string)) = Some (CHR ''{'' # ?w2 @ [CHR ''}''])"
    by (rule bracket_text_found) (use plain in simp_all)
  then have obj: "bracket_text (CHR ''{'') (CHR ''}'') (CHR ''['' # ?w @ [CHR '']'']) 0 = Some ?obj" by simp
  have ok: "segs_ok ?segs" using user by (simp add: pool_segs_def seg_sep_intros)
  have search: "searchable k (CHR ''{'' # NL 12) ?segs" if "k \<in> set config_names" for k
    using searchable_key [OF ok] key_name_config that by simp
  note url = pool_url_not_name [of ?p]
  note names = config_names_def
  have "jsonGetValue ?obj ''url'' = pool_url ?p"
    by (rule value_quoted [OF search, where w = "'' ''"]) (use user in \<open>simp_all add: pool_segs_def json_blanks_def names\<close>)
  moreover have "jsonGetValue ?obj ''user'' = p_user ?p"
    by (rule value_quoted [OF search, where w = "'' ''"]) (use user url in \<open>simp_all add: pool_segs_def json_blanks_def names\<close>)
  moreover have "jsonGetValue ?obj ''pass'' = ?P"
    by (rule value_quoted [OF search, where w = "'' ''"]) (use user url in \<open>simp_all add: pool_segs_def json_blanks_def names\<close>)
  moreover have "jsonGetValue ?obj ''tls'' = ''''"
    by (rule value_none [OF search]) (use user url in \<open>simp_all add: pool_segs_def names\<close>)
  ultimately have "read_pool ?obj 3333 q = ?p\<lparr>p_pass := read_text ?P (p_pass q)\<rparr>" for q
    using t(4) user(7) scheme_of_pool_url [OF t(5)] split_pool_url by (simp add: read_pool_def)
  then show ?thesis by (simp only: parse_pools_def u(1) Option.bind.bind_lunit pools option.case obj)
qed

lemma entries_text_plain:
  "\<forall>(k, v)\<in>set es. ch \<notin> set k \<and> ch \<notin> set v \<Longrightarrow> ch \<notin> set [DQ, CHR '':'', CHR '' '', CHR '','', CHR 0x0A] \<Longrightarrow> ch \<notin> set (entries_text es)"
  by (induction es rule: entries_text.induct) (auto simp: text_line_def named_def quoted_def)

lemma thread_entries_plain:
  "\<forall>(k, v)\<in>set (thread_entries c). CHR ''{'' \<notin> set k \<and> CHR ''{'' \<notin> set v \<and> CHR ''}'' \<notin> set k \<and> CHR ''}'' \<notin> set v \<and> noquote k \<and> bare v"
proof -
  have "CHR ''{'' \<notin> set (rxAlgoName a)" "CHR ''}'' \<notin> set (rxAlgoName a)" for a by (cases a; simp)+
  moreover have "CHR ''{'' \<notin> set (show_int n)" "CHR ''}'' \<notin> set (show_int n)" for n using show_int_plain [of _ n] by auto
  ultimately show ?thesis using bare_show_int noquote_rxAlgoName by (auto simp: thread_entries_def map_filter_def)
qed

lemma read_object:
  assumes "searchable k t0 ss" "seg_after k ss = Some (t, rs)" "t @ seg_text rs = '': '' @ CHR ''{'' # (CHR 0x0A # entries_text es @ replicate 4 (CHR '' '')) @ CHR ''}'' # y"
    and "\<forall>(k, v)\<in>set es. CHR ''{'' \<notin> set k \<and> CHR ''{'' \<notin> set v \<and> CHR ''}'' \<notin> set k \<and> CHR ''}'' \<notin> set v \<and> noquote k \<and> bare v"
    and "CHR ''{'' \<notin> set k"
  shows "\<exists>w. object_text (t0 @ seg_text ss) k = Some w \<and> json_pairs w = es"
proof -
  let ?w = "CHR 0x0A # entries_text es @ replicate 4 (CHR '' '')"
  have "CHR ''{'' \<notin> set (entries_text es)" "CHR ''}'' \<notin> set (entries_text es)"
    using assms(4) by (intro entries_text_plain; auto)+
  then have "object_text (t0 @ seg_text ss) k = Some ?w"
    by (intro object_text_found [OF assms(1-3)]) (use assms(5) in simp_all)
  moreover have "json_pairs ([CHR 0x0A] @ entries_text es @ replicate 4 (CHR '' '')) = es"
    by (rule json_pairs_entries) (use assms(4) in \<open>auto simp: is_space_def\<close>)
  ultimately show ?thesis by simp
qed

lemma foldl_threads:
  assumes "\<forall>a n. f a = Some n \<longrightarrow> 0 < n \<and> int32 n"
  shows "foldl (\<lambda>m (k, v). let n = safeStoi v 0 in if 0 < n then m(parseRxAlgo k \<mapsto> n) else m) m
      (List.map_filter (\<lambda>a. map_option (\<lambda>n. (rxAlgoName a, show_int n)) (f a)) as)
    = (\<lambda>a. if a \<in> set as \<and> f a \<noteq> None then f a else m a)"
proof (induction as arbitrary: m)
  case (Cons a as)
  then show ?case using assms by (cases "f a") (auto simp: map_filter_simps safeStoi_show_int Let_def fun_eq_iff)
qed (simp add: map_filter_simps)

lemma read_threads:
  assumes "storable fixed1 c"
  shows "parse_threads (config_text fixed1 c) d = d\<lparr>g_algoThreads := g_algoThreads d ++ g_algoThreads c\<rparr>"
proof -
  let ?k = "''algo-threads''"
  obtain t rs where o: "seg_after ?k (thread_segs c) = Some (t, rs)"
      "t @ seg_text rs = ('': {'' @ [CHR 0x0A]) @ entries_text (thread_entries c) @ replicate 4 (CHR '' '') @ ''},'' @ NL 4"
    unfolding thread_segs_def by (rule seg_after_obj)
  have "seg_after ?k (front_segs c) = None"
    by (rule front_None [OF assms]) (simp_all add: config_names_def front_names_def)
  then have after: "seg_after ?k (config_segs fixed1 c) = Some (t, rs @ middle_segs c @ perf_segs fixed1 c)"
    using o(1) by (simp add: config_segs_def seg_after_append)
  have "t @ seg_text (rs @ middle_segs c @ perf_segs fixed1 c)
      = '': '' @ CHR ''{'' # (CHR 0x0A # entries_text (thread_entries c) @ replicate 4 (CHR '' '')) @ CHR ''}'' # (CHR '','' # NL 4 @ seg_text (middle_segs c @ perf_segs fixed1 c))"
    using o(2) by simp
  from read_object [OF config_searchable [OF assms] after this thread_entries_plain]
  obtain w where w: "object_text (config_text fixed1 c) ?k = Some w" "json_pairs w = thread_entries c"
    by (auto simp: config_text_eq [OF assms] config_names_def)
  have "foldl (\<lambda>m (k, v). let n = safeStoi v 0 in if 0 < n then m(parseRxAlgo k \<mapsto> n) else m) (g_algoThreads d) (thread_entries c)
      = (\<lambda>a. if a \<in> set SAVE_ORDER \<and> g_algoThreads c a \<noteq> None then g_algoThreads c a else g_algoThreads d a)"
    unfolding thread_entries_def by (rule foldl_threads) (use assms in \<open>simp add: storable_def\<close>)
  also have "\<dots> = g_algoThreads d ++ g_algoThreads c"
  proof
    fix a
    have "a \<in> set SAVE_ORDER" by (cases a) (simp_all add: SAVE_ORDER_def)
    then show "(if a \<in> set SAVE_ORDER \<and> g_algoThreads c a \<noteq> None then g_algoThreads c a else g_algoThreads d a) = (g_algoThreads d ++ g_algoThreads c) a"
      by (auto simp: map_add_def split: option.splits)
  qed
  finally show ?thesis by (simp add: parse_threads_def w)
qed

text \<open>What is read of the printed figures: those that are numbers and positive.\<close>

definition reread :: "(string \<Rightarrow> real option) \<Rightarrow> (real \<Rightarrow> string) \<Rightarrow> (string \<times> real) list \<Rightarrow> (string \<times> real) list" where
  "reread stod fixed1 perf =
     concat (map (\<lambda>(k, x). case stod (fixed1 x) of None \<Rightarrow> [] | Some y \<Rightarrow> if 0 < y then [(k, y)] else []) perf)"

lemma foldl_perf:
  "foldl (\<lambda>m (k, v). case stod v of None \<Rightarrow> m | Some x \<Rightarrow> if 0 < x then AList.update k x m else m) m (map (\<lambda>(k, x). (k, fixed1 x)) perf)
    = AList.updates (map fst (reread stod fixed1 perf)) (map snd (reread stod fixed1 perf)) m"
  by (induction perf arbitrary: m) (auto simp: reread_def split: prod.splits option.splits)

lemma perf_entries_plain:
  assumes "perf_ok fixed1 (g_algoPerf c)"
  shows "\<forall>(k, v)\<in>set (perf_entries fixed1 c). CHR ''{'' \<notin> set k \<and> CHR ''{'' \<notin> set v \<and> CHR ''}'' \<notin> set k \<and> CHR ''}'' \<notin> set v \<and> noquote k \<and> bare v"
proof -
  have "k \<in> set PERF_ORDER" if "(k, x) \<in> set (g_algoPerf c)" for k x
  proof -
    have "set (map fst (g_algoPerf c)) \<subseteq> set PERF_ORDER" using assms unfolding perf_ok_def by (metis filter_is_subset)
    then show ?thesis using that by force
  qed
  moreover have "CHR ''{'' \<notin> set k \<and> CHR ''}'' \<notin> set k \<and> noquote k" if "k \<in> set PERF_ORDER" for k
    using that by (auto simp: PERF_ORDER_def)
  moreover have "\<forall>(k, x)\<in>set (g_algoPerf c). bare (fixed1 x) \<and> CHR ''{'' \<notin> set (fixed1 x)" using assms by (auto simp: perf_ok_def)
  moreover have "CHR ''}'' \<notin> set v" if "bare v" for v using that by (auto simp: bare_def)
  ultimately show ?thesis using perf_entries_eq [OF assms] by (auto simp: case_prod_unfold) 
qed

lemma read_perf:
  assumes "storable fixed1 c"
  shows "parse_perf stod (config_text fixed1 c) d
    = d\<lparr>g_algoPerf := AList.updates (map fst (reread stod fixed1 (g_algoPerf c))) (map snd (reread stod fixed1 (g_algoPerf c))) (g_algoPerf d)\<rparr>"
proof -
  let ?k = "''algo-perf''"
  have p: "perf_ok fixed1 (g_algoPerf c)" using assms by (simp add: storable_def)
  have v: "g_algo c \<notin> set config_names" "g_logFile c \<notin> set config_names" using assms by (simp_all add: storable_def setting_text_def)
  have none: "seg_after ?k (front_segs c) = None" "seg_after ?k (thread_segs c) = None"
    by (rule front_None [OF assms] thread_None; simp add: config_names_def front_names_def)+
  have middle: "seg_after ?k (middle_segs c) = None"
    using v by (simp add: middle_segs_def text_segs_def value_segs_def seg_after_append config_names_def)
  have after: "seg_after ?k (config_segs fixed1 c) = seg_after ?k (perf_segs fixed1 c)"
    using none middle by (simp add: config_segs_def seg_after_append)
  have "\<exists>w. object_text (config_text fixed1 c) ?k = Some w \<and> json_pairs w = perf_entries fixed1 c"
  proof (cases "g_algoPerf c = []")
    case True
    have o: "seg_after ?k (config_segs fixed1 c) = Some ('': {}'' @ [CHR 0x0A] @ ''}'' @ [CHR 0x0A], [])" using after True by (simp add: perf_segs_def)
    have "object_text (config_text fixed1 c) ?k = Some ''''"
      unfolding config_text_eq [OF assms]
      by (rule object_text_found [OF config_searchable [OF assms] o, where v = "'': ''"]) (simp_all add: config_names_def)
    moreover have "perf_entries fixed1 c = []" using True perf_entries_eq [OF p] by simp
    ultimately show ?thesis by (simp add: json_pairs_Nil)
  next
    case False
    define fin where "fin = replicate 4 (CHR '' '') @ ''}'' @ [CHR 0x0A] @ ''}'' @ [CHR 0x0A]"
    have e: "perf_segs fixed1 c = obj_segs ?k ('': {'' @ [CHR 0x0A]) (perf_entries fixed1 c) fin" using False by (simp add: perf_segs_def fin_def)
    obtain t rs where o: "seg_after ?k (perf_segs fixed1 c) = Some (t, rs)"
        "t @ seg_text rs = ('': {'' @ [CHR 0x0A]) @ entries_text (perf_entries fixed1 c) @ fin"
      unfolding e by (rule seg_after_obj)
    have "t @ seg_text rs = '': '' @ CHR ''{'' # (CHR 0x0A # entries_text (perf_entries fixed1 c) @ replicate 4 (CHR '' '')) @ CHR ''}'' # ([CHR 0x0A] @ ''}'' @ [CHR 0x0A])"
      using o(2) by (simp add: fin_def)
    from read_object [OF config_searchable [OF assms] o(1) [folded after] this perf_entries_plain [OF p]]
    show ?thesis by (auto simp: config_text_eq [OF assms] config_names_def)
  qed
  then obtain w where "object_text (config_text fixed1 c) ?k = Some w" "json_pairs w = map (\<lambda>(k, x). (k, fixed1 x)) (g_algoPerf c)"
    using perf_entries_eq [OF p] by auto
  then show ?thesis by (simp add: parse_perf_def foldl_perf)
qed

lemma read_cpu:
  assumes "storable fixed1 c"
  shows "parse_cpu (config_text fixed1 c) d = d"
proof -
  have v: "g_algo c \<notin> set config_names" "g_logFile c \<notin> set config_names" using assms by (simp_all add: storable_def setting_text_def)
  have "seg_after ''cpu'' (front_segs c) = None" "seg_after ''cpu'' (thread_segs c) = None" "seg_after ''cpu'' (perf_segs fixed1 c) = None"
    by (rule front_None [OF assms] thread_None perf_None; simp add: config_names_def front_names_def)+
  moreover have "seg_after ''cpu'' (middle_segs c) = None"
    using v by (simp add: middle_segs_def text_segs_def value_segs_def seg_after_append config_names_def)
  ultimately have "seg_after ''cpu'' (config_segs fixed1 c) = None" by (simp add: config_segs_def seg_after_append)
  from seg_find_None [OF config_searchable [OF assms] this]
  have "str_find (config_text fixed1 c) (quoted ''cpu'') 0 = None" by (simp add: config_text_eq [OF assms] config_names_def)
  then show ?thesis by (simp add: parse_cpu_def flat_block_def)
qed

section \<open>Saving and loading\<close>

text \<open>What is left of the settings \<open>c\<close> after \<open>saveFile\<close>, when the file is loaded into \<open>d\<close>.\<close>

definition restored :: "(string \<Rightarrow> real option) \<Rightarrow> (real \<Rightarrow> string) \<Rightarrow> config \<Rightarrow> config \<Rightarrow> config" where
  "restored stod fixed1 c d = d\<lparr>g_pool := (g_pool c)\<lparr>p_pass := read_text (p_pass (g_pool c)) (p_pass (g_pool d))\<rparr>,
     g_algoThreads := g_algoThreads d ++ g_algoThreads c,
     g_algo := (if g_algoSpecified c then g_algo c else g_algo d),
     g_rxAlgo := (if g_algoSpecified c then parseRxAlgo (g_algo c) else g_rxAlgo d),
     g_algoSpecified := g_algoSpecified d \<or> g_algoSpecified c,
     g_apiEnabled := g_apiEnabled c, g_apiHost := g_apiHost c, g_apiPort := g_apiPort c,
     g_algoPerf := AList.updates (map fst (reread stod fixed1 (g_algoPerf c))) (map snd (reread stod fixed1 (g_algoPerf c))) (g_algoPerf d),
     g_benchAlgoTime := g_benchAlgoTime c,
     g_algoMinTime := (if 0 < g_algoMinTime c then g_algoMinTime c else g_algoMinTime d),
     g_colors := g_colors c, g_printTime := g_printTime c, g_debug := g_debug c, g_autosave := g_autosave c,
     g_logFile := (if g_logFile c = '''' then g_logFile d else g_logFile c)\<rparr>"

lemma parse_config_text:
  assumes "storable fixed1 c"
  shows "parseFile stod (Some (config_text fixed1 c)) d = (True, restored stod fixed1 c d)"
proof -
  let ?s = "config_text fixed1 c"
  have c: "p_host (g_pool c) \<noteq> ''''" "g_logFile c \<noteq> ''null''" "g_algoSpecified c \<Longrightarrow> g_algo c \<noteq> '''' \<and> g_algo c \<noteq> ''null''"
      "int32 (g_printTime c)" "int32 (g_benchAlgoTime c)" "int32 (g_algoMinTime c)"
    using assms by (simp_all add: storable_def)
  note vals = middle_values [OF assms]
  have nn: "show_int i \<noteq> ''''" "show_int i \<noteq> ''null''" for i
  proof -
    show "show_int i \<noteq> ''''" using bare_show_int [of i] by (simp add: bare_def)
    have "\<not> is_digit (CHR ''n'')" by (simp add: is_digit_def)
    then have "CHR ''n'' \<notin> set (show_nat n)" for n using show_nat_digits [of n] by blast
    then have "CHR ''n'' \<notin> set (show_int i)" by (simp add: show_int_def)
    then show "show_int i \<noteq> ''null''" by (metis list.set_intros(1))
  qed
  define d1 where "d1 = parse_pools ?s d"
  define d2 where "d2 = parse_http ?s (parse_print_time ?s (parse_flat_pool ?s d1))"
  have d1: "d1 = d\<lparr>g_pool := (g_pool c)\<lparr>p_pass := read_text (p_pass (g_pool c)) (p_pass (g_pool d))\<rparr>\<rparr>"
    unfolding d1_def by (rule read_pools [OF assms])
  have "parse_flat_pool ?s d1 = d1" using c(1) by (simp add: d1 parse_flat_pool_def)
  then have d2: "d2 = d1\<lparr>g_printTime := g_printTime c, g_apiEnabled := g_apiEnabled c, g_apiHost := g_apiHost c, g_apiPort := g_apiPort c\<rparr>"
    using nn(1) by (simp add: d2_def read_http [OF assms] parse_print_time_def vals read_int_def safeStoi_show_int [OF c(4)])
  define d3 where "d3 = parse_algorithm ?s (read_api ''api-enabled'' ''api-host'' ''api-port'' ?s (parse_flags ?s d2))"
  have d3: "d3 = d2\<lparr>g_debug := g_debug c, g_colors := g_colors c, g_autosave := g_autosave c,
      g_logFile := (if g_logFile c = '''' then g_logFile d else g_logFile c),
      g_algo := (if g_algoSpecified c then g_algo c else g_algo d),
      g_rxAlgo := (if g_algoSpecified c then parseRxAlgo (g_algo c) else g_rxAlgo d),
      g_algoSpecified := g_algoSpecified d \<or> g_algoSpecified c\<rparr>"
    using c(2,3) by (simp add: d3_def d2 d1 parse_algorithm_def read_api_def parse_flags_def vals read_bool_def [of "''''"] read_text_def not_null_def Let_def)
  have "parse_times ?s d3 = d3\<lparr>g_benchAlgoTime := g_benchAlgoTime c, g_algoMinTime := (if 0 < g_algoMinTime c then g_algoMinTime c else g_algoMinTime d)\<rparr>"
    using nn by (simp add: parse_times_def vals read_int_def not_null_def safeStoi_show_int [OF c(5)] safeStoi_show_int [OF c(6)]) (simp add: d3 d2 d1)
  then show ?thesis
    by (simp add: parseFile_def d1_def [symmetric] d2_def [symmetric] d3_def [symmetric] read_cpu [OF assms] read_threads [OF assms]
        read_perf [OF assms]) (simp add: restored_def d3 d2 d1)
qed

lemma AList_updates_new:
  "distinct ks \<Longrightarrow> \<forall>k\<in>set ks. k \<notin> fst ` set al \<Longrightarrow> length ks = length vs \<Longrightarrow> AList.updates ks vs al = al @ zip ks vs"
proof (induction ks arbitrary: vs al)
  case (Cons k ks)
  then obtain v vs' where vs: "vs = v # vs'" by (cases vs) auto
  have "k \<notin> fst ` set al" using Cons.prems(2) by simp
  then have "AList.update k v al = al @ [(k, v)]" by (induction al) auto
  then show ?case using Cons.IH [of "al @ [(k, v)]" vs'] Cons.prems vs by auto
qed simp

section \<open>Figures with one decimal\<close>

text \<open>\<open>std::fixed << std::setprecision(1)\<close> on a figure that is not negative: the nearest number of tenths, the even one of two.\<close>

definition tenths :: "real \<Rightarrow> nat" where
  "tenths x = (let n = nat \<lfloor>10 * x\<rfloor>; r = 10 * x - real n in if 1 / 2 < r \<or> r = 1 / 2 \<and> odd n then n + 1 else n)"

definition decimal_text :: "nat \<Rightarrow> string" where
  "decimal_text t = show_nat (t div 10) @ ''.'' @ show_nat (t mod 10)"

definition one_decimal :: "real \<Rightarrow> string" where
  "one_decimal x = decimal_text (tenths x)"

text \<open>\<open>std::stod\<close> reads a number of tenths as a nearest \<open>double\<close>, whose relative error is at most \<open>2^-53\<close>.\<close>

definition reads_decimals :: "(string \<Rightarrow> real option) \<Rightarrow> bool" where
  "reads_decimals stod \<longleftrightarrow> (\<forall>t < 10 ^ 15. \<exists>y. stod (decimal_text t) = Some y \<and> \<bar>y - real t / 10\<bar> \<le> real t / 10 / 2 ^ 53)"

text \<open>A figure as the code has them: not negative, and less than \<open>10^14 - 1\<close> hashes per second.\<close>

definition figure :: "real \<Rightarrow> bool" where
  "figure x \<longleftrightarrow> 0 \<le> x \<and> x < 10 ^ 14 - 1"

lemma tenths_near:
  assumes "0 \<le> x"
  shows "\<bar>real (tenths x) - 10 * x\<bar> \<le> 1 / 2"
proof -
  define n where "n = nat \<lfloor>10 * x\<rfloor>"
  have "real n \<le> 10 * x" "10 * x < real n + 1" using assms unfolding n_def by linarith+
  moreover have "tenths x = n \<and> 10 * x - real n \<le> 1 / 2 \<or> tenths x = n + 1 \<and> 1 / 2 \<le> 10 * x - real n"
    unfolding tenths_def n_def [symmetric] Let_def by (cases "1 / 2 < 10 * x - real n") auto
  ultimately show ?thesis unfolding abs_le_iff by auto
qed

lemma tenths_exact: "\<bar>10 * x - real t\<bar> < 1 / 2 \<Longrightarrow> 0 \<le> x \<Longrightarrow> tenths x = t"
  using tenths_near [of x] by linarith

lemma tenths_bound: "figure x \<Longrightarrow> tenths x < 10 ^ 15"
proof -
  assume f: "figure x"
  then have "\<bar>real (tenths x) - 10 * x\<bar> \<le> 1 / 2" by (intro tenths_near) (simp add: figure_def)
  moreover have "10 * x < 10 ^ 15 - 10" using f by (simp add: figure_def)
  ultimately have "real (tenths x) < 10 ^ 15" by linarith
  also have "(10 :: real) ^ 15 = real (10 ^ 15)" by simp
  finally show ?thesis by (simp only: of_nat_less_iff)
qed

lemma one_decimal_plain: "bare (one_decimal x)" "CHR ''{'' \<notin> set (one_decimal x)"
proof -
  let ?dot = "CHR 0x2E"
  have "\<not> is_space ?dot" by (simp add: is_space_def)
  then show "bare (one_decimal x)" "CHR ''{'' \<notin> set (one_decimal x)"
    using show_nat_plain [of _ "tenths x div 10"] show_nat_plain [of _ "tenths x mod 10"]
    by (auto simp: bare_def one_decimal_def decimal_text_def show_nat_nonempty)
qed

lemma reread_figure:
  assumes "reads_decimals stod" "figure x"
  obtains y where "stod (one_decimal x) = Some y" "0 < y \<longleftrightarrow> 0 < tenths x" "\<bar>y - x\<bar> \<le> 1 / 20 + x / 2 ^ 50"
    "\<And>z. figure z \<Longrightarrow> stod (one_decimal z) = Some x \<Longrightarrow> y = x"
proof -
  have x: "0 \<le> x" "x < 10 ^ 14 - 1" using assms(2) by (simp_all add: figure_def)
  obtain y where y: "stod (one_decimal x) = Some y" "\<bar>y - real (tenths x) / 10\<bar> \<le> real (tenths x) / 10 / 2 ^ 53"
    using assms(1) tenths_bound [OF assms(2)] unfolding reads_decimals_def one_decimal_def by blast
  have near: "\<bar>real (tenths x) - 10 * x\<bar> \<le> 1 / 2" using x(1) by (rule tenths_near)
  have small: "real (tenths x) / 10 / 2 ^ 53 \<le> real (tenths x) / 20" by simp
  have pos: "0 < y \<longleftrightarrow> 0 < tenths x"
  proof (cases "tenths x = 0")
    case True
    then show ?thesis using y(2) by simp
  next
    case False
    then have "0 < real (tenths x)" by simp
    then have "0 < y" using y(2) small by linarith
    then show ?thesis using False by simp
  qed
  have close: "\<bar>y - x\<bar> \<le> 1 / 20 + x / 2 ^ 50"
  proof (cases "tenths x = 0")
    case True
    then show ?thesis using y(2) near x(1) by (simp add: field_simps)
  next
    case False
    then have "1 \<le> real (tenths x)" by simp
    then have "real (tenths x) \<le> 20 * x" using near by linarith
    then have "real (tenths x) / 10 / 2 ^ 53 \<le> x / 2 ^ 50" using x(1) by (simp add: field_simps)
    then show ?thesis using y(2) near by linarith
  qed
  have again: "y = x" if z: "figure z" "stod (one_decimal z) = Some x" for z
  proof -
    have "tenths z < 10 ^ 15" using z(1) by (rule tenths_bound)
    then obtain w where "stod (one_decimal z) = Some w" "\<bar>w - real (tenths z) / 10\<bar> \<le> real (tenths z) / 10 / 2 ^ 53"
      using assms(1) unfolding reads_decimals_def one_decimal_def by blast
    then have e: "\<bar>x - real (tenths z) / 10\<bar> \<le> real (tenths z) / 10 / 2 ^ 53" using z(2) by simp
    have "real (tenths z) < real (10 ^ 15)" using \<open>tenths z < 10 ^ 15\<close> by (simp only: of_nat_less_iff)
    then have "real (tenths z) / 10 / 2 ^ 53 < 1 / 20" by (simp add: field_simps)
    then have "\<bar>10 * x - real (tenths z)\<bar> < 1 / 2" using e by linarith
    then have "tenths x = tenths z" using x(1) by (rule tenths_exact)
    then show "y = x" using y(1) z(2) by (simp add: one_decimal_def)
  qed
  show thesis by (rule that [OF y(1) pos close again])
qed

lemma map_of_reread:
  assumes "distinct (map fst perf)" "(k, x) \<in> set perf"
  shows "map_of (reread stod f perf) k = (case stod (f x) of None \<Rightarrow> None | Some y \<Rightarrow> if 0 < y then Some y else None)"
  using assms
proof (induction perf)
  case (Cons e perf)
  have none: "map_of (reread stod f perf) k = None" if "k \<notin> fst ` set perf"
  proof -
    have "fst ` set (reread stod f perf) \<subseteq> fst ` set perf"
      by (force simp: reread_def split: option.splits if_splits)
    then show ?thesis using that by (auto simp: map_of_eq_None_iff)
  qed
  obtain k' x' where e: "e = (k', x')" by (cases e)
  show ?case
  proof (cases "k' = k")
    case True
    then have "x' = x" "k \<notin> fst ` set perf" using Cons.prems e by force+
    then show ?thesis using True e none by (simp add: reread_def split: option.splits)
  next
    case False
    then have "map_of (reread stod f (e # perf)) k = map_of (reread stod f perf) k"
      using e by (simp add: reread_def split: option.splits)
    then show ?thesis using False e Cons by simp
  qed
qed simp

lemma reread_names:
  assumes "reads_decimals stod" "\<forall>(k, x)\<in>set perf. figure x"
  shows "map fst (reread stod one_decimal perf) = map fst (filter (\<lambda>(k, x). 0 < tenths x) perf)"
  using assms(2)
proof (induction perf)
  case (Cons e perf)
  obtain k x where e: "e = (k, x)" by (cases e)
  obtain y where "stod (one_decimal x) = Some y" "0 < y \<longleftrightarrow> 0 < tenths x"
    by (rule reread_figure [OF assms(1), of x]) (use Cons.prems e in auto)
  then show ?case using Cons e by (simp add: reread_def)
qed (simp add: reread_def)

text \<open>C16: Settings survive being saved and loaded.  Loading the file \<open>saveFile\<close> writes into new settings gives back every setting
  but these: the path of the file and the pinning of threads, which are not in the file; a minimum time that is not positive,
  which becomes 0; an algorithm that was not chosen; the implementation of Argon2, which is written where \<open>parseFile\<close> does not look
  for it; and the hash rates, which are written with one decimal.  A rate that is written \<open>0.0\<close> is lost, every other one is off
  by at most half a tenth and the error of a \<open>double\<close>, and exactly the same when it was itself read from such a file.  The
  settings are those a file can hold (\<open>storable\<close>: the texts are without quotation marks and brackets and are not names of
  settings, host, user and host of the interface are not empty, the host has no slash, the log file and a chosen algorithm are
  not the word null, thread counts are positive, integers have 32 bits, rates are those of known algorithms), the password is
  not empty, and rates are not negative and less than \<open>10^14 - 1\<close>.  Of \<open>stod\<close> it is assumed that it reads a number with one
  decimal as a nearest \<open>double\<close>.\<close>

theorem saved_settings_restored:
  assumes "storable one_decimal c" "p_pass (g_pool c) \<noteq> ''''" "\<forall>(k, x)\<in>set (g_algoPerf c). figure x" "reads_decimals stod"
  shows "\<exists>perf. parseFile stod (Some (config_text one_decimal c)) default_config =
      (True, c\<lparr>g_argon2Impl := '''', g_configPath := '''', g_algoAffinities := Map.empty, g_algoMinTime := max 0 (g_algoMinTime c),
         g_algo := (if g_algoSpecified c then g_algo c else ''''),
         g_rxAlgo := (if g_algoSpecified c then parseRxAlgo (g_algo c) else RX_0), g_algoPerf := perf\<rparr>) \<and>
    map fst perf = map fst (filter (\<lambda>(k, x). 0 < tenths x) (g_algoPerf c)) \<and>
    (\<forall>k x y. (k, x) \<in> set (g_algoPerf c) \<longrightarrow> map_of perf k = Some y \<longrightarrow>
       \<bar>y - x\<bar> \<le> 1 / 20 + x / 2 ^ 50 \<and> (\<forall>z. figure z \<longrightarrow> stod (one_decimal z) = Some x \<longrightarrow> y = x))"
proof (intro exI conjI allI impI)
  let ?p = "g_algoPerf c" and ?r = "reread stod one_decimal (g_algoPerf c)"
  have "map fst ?p = filter (\<lambda>k. k \<in> fst ` set ?p) PERF_ORDER" using assms(1) by (simp add: storable_def perf_ok_def)
  moreover have "distinct PERF_ORDER" by (simp add: PERF_ORDER_def)
  ultimately have d: "distinct (map fst ?p)" by (metis distinct_filter)
  show names: "map fst ?r = map fst (filter (\<lambda>(k, x). 0 < tenths x) ?p)" by (rule reread_names [OF assms(4,3)])
  have "distinct (map fst ?r)" unfolding names using d by (rule distinct_map_filter)
  then have "AList.updates (map fst ?r) (map snd ?r) [] = ?r" by (simp add: AList_updates_new zip_map_fst_snd)
  then have "restored stod one_decimal c default_config = c\<lparr>g_argon2Impl := '''', g_configPath := '''', g_algoAffinities := Map.empty,
      g_algoMinTime := max 0 (g_algoMinTime c), g_algo := (if g_algoSpecified c then g_algo c else ''''),
      g_rxAlgo := (if g_algoSpecified c then parseRxAlgo (g_algo c) else RX_0), g_algoPerf := ?r\<rparr>"
    using assms(2) by (cases c; cases "g_pool c") (simp add: restored_def default_config_def default_pool_def read_text_def max_def)
  then show "parseFile stod (Some (config_text one_decimal c)) default_config =
      (True, c\<lparr>g_argon2Impl := '''', g_configPath := '''', g_algoAffinities := Map.empty, g_algoMinTime := max 0 (g_algoMinTime c),
         g_algo := (if g_algoSpecified c then g_algo c else ''''),
         g_rxAlgo := (if g_algoSpecified c then parseRxAlgo (g_algo c) else RX_0), g_algoPerf := ?r\<rparr>)"
    using parse_config_text [OF assms(1)] by simp
  fix k x y
  assume kx: "(k, x) \<in> set ?p" and y: "map_of ?r k = Some y"
  have f: "figure x" using assms(3) kx by auto
  have "stod (one_decimal x) = Some y"
    using map_of_reread [OF d kx, of stod one_decimal] y by (simp split: option.splits if_splits)
  with reread_figure [OF assms(4) f] show "\<bar>y - x\<bar> \<le> 1 / 20 + x / 2 ^ 50" "figure z \<Longrightarrow> stod (one_decimal z) = Some x \<Longrightarrow> y = x" for z
    by (metis option.inject)+
qed

definition example_settings :: config where
  "example_settings = default_config\<lparr>g_pool := \<lparr>p_host = ''pool.example'', p_port = 443, p_user = ''wallet'', p_pass = ''w1'', p_tls = True\<rparr>,
     g_algoThreads := [RX_0 \<mapsto> 8], g_algoPerf := [(''rx/0'', 1234.56), (''rx/wow'', 0.04)], g_argon2Impl := ''AVX2''\<rparr>"

text \<open>The value of a plain decimal number.\<close>

definition decimal_stod :: "string \<Rightarrow> real option" where
  "decimal_stod s = (let ds = takeWhile is_digit s; fs = drop (length ds + 1) s
     in if ds = '''' then None else Some (real (digits_value 0 ds) + real (digits_value 0 fs) / 10 ^ length fs))"

lemma decimal_stod_text: "decimal_stod (decimal_text t) = Some (real t / 10)"
proof -
  have digits: "\<forall>c\<in>set (show_nat n). is_digit c" for n by (rule show_nat_digits)
  have "\<not> is_digit (CHR 0x2E)" by (simp add: is_digit_def)
  then have whole: "takeWhile is_digit (decimal_text t) = show_nat (t div 10)"
    using digits by (simp add: decimal_text_def takeWhile_append2)
  have "t mod 10 < 10" by simp
  then have "length (show_nat (t mod 10)) = 1" by (subst show_nat.simps) simp
  moreover have "real (t div 10) + real (t mod 10) / 10 = real t / 10"
  proof -
    have "real t = real (t div 10 * 10 + t mod 10)" by (simp only: div_mult_mod_eq)
    also have "\<dots> = real (t div 10) * 10 + real (t mod 10)" by (simp only: of_nat_add of_nat_mult of_nat_numeral)
    finally show ?thesis by (simp add: field_simps)
  qed
  ultimately show ?thesis
    using show_nat_nonempty by (simp add: decimal_stod_def whole Let_def digits_value_show_nat) (simp add: decimal_text_def digits_value_show_nat)
qed

lemma decimal_stod_reads: "reads_decimals decimal_stod"
  unfolding reads_decimals_def
proof (intro allI impI)
  fix t :: nat
  show "\<exists>y. decimal_stod (decimal_text t) = Some y \<and> \<bar>y - real t / 10\<bar> \<le> real t / 10 / 2 ^ 53"
    by (rule exI [of _ "real t / 10"]) (simp add: decimal_stod_text)
qed

lemma example_settings_storable: "storable one_decimal example_settings"
  by (simp add: storable_def example_settings_def default_config_def setting_text_def config_names_def int32_def perf_ok_def
      PERF_ORDER_def one_decimal_plain)

lemma example_tenths: "tenths 1234.56 = 12346" "tenths 0.04 = 0"
  by (rule tenths_exact; simp)+

theorem saved_settings_restored_witness:
  "g_argon2Impl example_settings = ''AVX2'' \<and>
   (let c = snd (parseFile decimal_stod (Some (config_text one_decimal example_settings)) default_config)
    in g_pool c = g_pool example_settings \<and> map fst (g_algoPerf c) = [''rx/0''] \<and> g_argon2Impl c = '''')"
proof -
  have "p_pass (g_pool example_settings) \<noteq> ''''" "\<forall>(k, x)\<in>set (g_algoPerf example_settings). figure x"
    by (simp_all add: example_settings_def figure_def)
  from saved_settings_restored [OF example_settings_storable this decimal_stod_reads]
  show ?thesis using example_tenths by (auto simp: example_settings_def Let_def)
qed

section \<open>Threads\<close>

definition detected :: "cpu_info \<Rightarrow> config \<Rightarrow> RxAlgo \<Rightarrow> int" where
  "detected u c a = min (case g_algoThreads c a of None \<Rightarrow> int (length (u_affinity u a)) | Some n \<Rightarrow> n) (max 1 (int (u_threads u) - 1))"

lemma detect_algo_eq:
  "detect_algo u a c = c\<lparr>g_algoThreads := (g_algoThreads c)(a \<mapsto> detected u c a), g_algoAffinities := (g_algoAffinities c)(a \<mapsto> u_affinity u a)\<rparr>"
  by (simp add: detect_algo_def detected_def Let_def min_def max_def split: option.splits)

lemma autoDetect_eq:
  "autoDetect u c = c\<lparr>g_algoThreads := (\<lambda>a. Some (detected u c a)), g_algoAffinities := (\<lambda>a. Some (u_affinity u a))\<rparr>"
proof -
  have "a \<in> set ALL_ALGOS" for a by (cases a) (simp_all add: ALL_ALGOS_def)
  moreover have "foldl (\<lambda>c a. detect_algo u a c) d as
      = d\<lparr>g_algoThreads := (\<lambda>a. if a \<in> set as then Some (detected u d a) else g_algoThreads d a),
          g_algoAffinities := (\<lambda>a. if a \<in> set as then Some (u_affinity u a) else g_algoAffinities d a)\<rparr>" if "distinct as" for as and d :: config
    using that
  proof (induction as rule: rev_induct)
    case (snoc a as)
    then show ?case by (auto simp: detect_algo_eq detected_def fun_eq_iff)
  qed simp
  moreover have "distinct ALL_ALGOS" by (simp add: ALL_ALGOS_def)
  ultimately show ?thesis by (simp add: autoDetect_def)
qed

lemma maxThreads_ge:
  assumes "g_algoThreads c a = Some n"
  shows "n \<le> maxThreads c"
proof -
  let ?f = "\<lambda>m a. case g_algoThreads c a of None \<Rightarrow> m | Some n \<Rightarrow> if m < n then n else m"
  have mono: "(m :: int) \<le> foldl ?f m as" for m as
  proof (induction as arbitrary: m)
    case (Cons b as)
    have "m \<le> ?f m b" by (auto split: option.splits)
    also have "\<dots> \<le> foldl ?f (?f m b) as" by (rule Cons)
    finally show ?case by simp
  qed simp
  have "n \<le> foldl ?f m as" if "a \<in> set as" for m as
    using that
  proof (induction as arbitrary: m)
    case (Cons b as)
    show ?case
    proof (cases "a = b")
      case True
      have "n \<le> ?f m b" using assms True by simp
      also have "\<dots> \<le> foldl ?f (?f m b) as" by (rule mono)
      finally show ?thesis by simp
    qed (use Cons in simp)
  qed simp
  moreover have "a \<in> set ALL_ALGOS" by (cases a) (simp_all add: ALL_ALGOS_def)
  ultimately show ?thesis by (simp add: maxThreads_def)
qed

lemma maxThreads_le:
  assumes "\<forall>a n. g_algoThreads c a = Some n \<longrightarrow> n \<le> b" "1 \<le> b"
  shows "maxThreads c \<le> b"
proof -
  have "foldl (\<lambda>m a. case g_algoThreads c a of None \<Rightarrow> m | Some n \<Rightarrow> if m < n then n else m) m as \<le> b" if "m \<le> b" for m as
    using that assms(1) by (induction as arbitrary: m) (auto split: option.splits)
  then show ?thesis using assms(2) by (simp add: maxThreads_def)
qed

text \<open>C32: Whatever the settings and the processor, after \<open>autoDetect\<close> no algorithm has more threads than one less than the processor
  (one on a processor with a single thread), an algorithm without a setting has as many as its pinning, and \<open>maxThreads\<close>,
  by which memory is reserved, is enough for every algorithm and not more than that bound.\<close>

theorem threads_within_processor:
  "let c' = autoDetect u c; bound = max 1 (int (u_threads u) - 1) in
     config_threadsForAlgo c' a = min (case g_algoThreads c a of None \<Rightarrow> int (length (u_affinity u a)) | Some n \<Rightarrow> n) bound \<and>
     affinityForAlgo c' a = u_affinity u a \<and> config_threadsForAlgo c' a \<le> maxThreads c' \<and> maxThreads c' \<le> bound"
  using maxThreads_ge [of "autoDetect u c" a] maxThreads_le [of "autoDetect u c" "max 1 (int (u_threads u) - 1)"]
  by (simp add: autoDetect_eq config_threadsForAlgo_def affinityForAlgo_def detected_def Let_def)

section \<open>The command line\<close>

text \<open>Options are read before the file and are overridden by it: when the command line names a file that \<open>saveFile\<close> wrote, every
  setting that an option sets, colours, intervals, the interface, debugging, saving and the log, is the one of the file
  whatever options are given.  Only a pool given with both url and user is kept.\<close>

theorem saved_settings_override_options:
  assumes "storable fixed1 c" "cli_steps xs \<lparr>l_config = d, l_pool = default_pool, l_file = ''''\<rparr> = Some l"
    and "l_file l \<noteq> ''''" "files (l_file l) = Some (config_text fixed1 c)"
  shows "\<exists>c'. parseArgs stod u files False xs d = Some (True, c') \<and>
     (g_colors c', g_printTime c', g_debug c', g_autosave c') = (g_colors c, g_printTime c, g_debug c, g_autosave c) \<and>
     (g_apiEnabled c', g_apiHost c', g_apiPort c') = (g_apiEnabled c, g_apiHost c, g_apiPort c) \<and>
     (g_logFile c \<noteq> '''' \<longrightarrow> g_logFile c' = g_logFile c) \<and>
     (if p_host (l_pool l) \<noteq> '''' \<and> p_user (l_pool l) \<noteq> '''' then g_pool c' = l_pool l
      else p_host (g_pool c') = p_host (g_pool c) \<and> p_user (g_pool c') = p_user (g_pool c))"
proof -
  let ?r = "restored stod fixed1 c (l_config l)"
  let ?c1 = "?r\<lparr>g_configPath := l_file l\<rparr>"
  let ?c2 = "if p_host (l_pool l) \<noteq> '''' \<and> p_user (l_pool l) \<noteq> '''' then ?c1\<lparr>g_pool := l_pool l\<rparr> else ?c1"
  have c: "p_host (g_pool c) \<noteq> ''''" "p_user (g_pool c) \<noteq> ''''" using assms(1) by (simp_all add: storable_def)
  have "parseArgs stod u files False xs d = Some (isValid (autoDetect u ?c2), autoDetect u ?c2)"
    using assms(2-4) parse_config_text [OF assms(1), of stod "l_config l"] by (simp add: parseArgs_def Let_def)
  moreover have "isValid (autoDetect u ?c2)"
    using c by (auto simp: isValid_def autoDetect_eq restored_def ALL_ALGOS_def)
  ultimately show ?thesis using c by (auto simp: autoDetect_eq restored_def)
qed

theorem saved_settings_override_options_witness:
  "\<exists>c'. parseArgs decimal_stod \<lparr>u_threads = 16, u_affinity = (\<lambda>_. [0, 1])\<rparr> [''z.json'' \<mapsto> config_text one_decimal example_settings] False
      [Opt_no_color, Opt_print_time ''5'', Opt_config ''z.json'', Opt_user ''other''] default_config = Some (True, c')
     \<and> g_colors c' \<and> g_printTime c' = 60 \<and> p_user (g_pool c') = ''wallet''"
proof -
  let ?xs = "[Opt_no_color, Opt_print_time ''5'', Opt_config ''z.json'', Opt_user ''other'']"
  let ?l = "\<lparr>l_config = default_config\<lparr>g_colors := False, g_printTime := safeStoi ''5'' 60\<rparr>, l_pool = default_pool\<lparr>p_user := ''other''\<rparr>, l_file = ''z.json''\<rparr>"
  have steps: "cli_steps ?xs \<lparr>l_config = default_config, l_pool = default_pool, l_file = ''''\<rparr> = Some ?l" by simp
  show ?thesis
    using saved_settings_override_options [OF example_settings_storable steps,
        of "[''z.json'' \<mapsto> config_text one_decimal example_settings]" decimal_stod "\<lparr>u_threads = 16, u_affinity = (\<lambda>_. [0, 1])\<rparr>"]
    by (auto simp: example_settings_def default_config_def default_pool_def)
qed

end
