(* ===== verification/Keccak.thy ===== *)
theory Keccak
  imports Bytes
begin

text \<open>
  \<open>panthera/KeccakP-1600-reference.c\<close>: the permutation Keccak-p[1600] on 200 bytes, and the operations by which a sponge
  touches the bytes.  The state is a list of 200 bytes; \<open>KeccakP1600OnWords\<close> works on it as 25 lanes of 64 bits, lane (x, y) at
  \<open>x + 5 y\<close>.  An \<open>assert\<close> that fails, or a write outside of the state, is \<open>None\<close>.
\<close>

section \<open>Tables\<close>

abbreviation (input) "maxNrRounds \<equiv> (24 :: nat)"

definition lane :: "nat \<Rightarrow> nat \<Rightarrow> nat" where
  "lane x y = x mod 5 + 5 * (y mod 5)"

definition KeccakRoundConstants :: "u64 list" where
  "KeccakRoundConstants =
    [0x0000000000000001, 0x0000000000008082, 0x800000000000808a, 0x8000000080008000,
     0x000000000000808b, 0x0000000080000001, 0x8000000080008081, 0x8000000000008009,
     0x000000000000008a, 0x0000000000000088, 0x0000000080008009, 0x000000008000000a,
     0x000000008000808b, 0x800000000000008b, 0x8000000000008089, 0x8000000000008003,
     0x8000000000008002, 0x8000000000000080, 0x000000000000800a, 0x800000008000000a,
     0x8000000080008081, 0x8000000000008080, 0x0000000080000001, 0x8000000080008008]"

definition KeccakRhoOffsets :: "nat list" where
  "KeccakRhoOffsets =
    [0, 1, 62, 28, 27, 36, 44, 6, 55, 20, 3, 10, 43, 25, 39, 41, 45, 15, 21, 8, 18, 2, 61, 56, 14]"

text \<open>How a build with \<open>KeccakReference\<close> computes the tables instead.\<close>

definition LFSR86540 :: "u8 \<Rightarrow> bool \<times> u8" where
  "LFSR86540 s = (s AND 0x01 \<noteq> 0, if s AND 0x80 \<noteq> 0 then push_bit 1 s XOR 0x71 else push_bit 1 s)"

definition round_constant :: "u8 \<Rightarrow> u64 \<times> u8" where
  "round_constant s = foldl (\<lambda>(c, s) j.
     let (one, s) = LFSR86540 s in (if one then c XOR push_bit (2 ^ j - 1) 1 else c, s)) (0, s) [0..<7]"

definition InitializeRoundConstants :: "u64 list" where
  "InitializeRoundConstants =
     fst (foldl (\<lambda>(cs, s) i. let (c, s) = round_constant s in (cs @ [c], s)) ([], 0x01) [0..<maxNrRounds])"

definition InitializeRhoOffsets :: "nat list" where
  "InitializeRhoOffsets = fst (foldl (\<lambda>(rs, x, y) t.
     (rs[lane x y := ((t + 1) * (t + 2) div 2) mod 64], y mod 5, (2 * x + 3 * y) mod 5))
     (replicate 25 0, 1, 0) [0..<24])"

section \<open>The permutation\<close>

definition ROL64 :: "u64 \<Rightarrow> nat \<Rightarrow> u64" where
  "ROL64 a offset = (if offset \<noteq> 0 then push_bit offset a XOR drop_bit (64 - offset) a else a)"

text \<open>\<open>for (x = 0; x < 5; x++) for (y = 0; y < 5; y++)\<close>.\<close>

definition for_xy :: "(nat \<Rightarrow> nat \<Rightarrow> 'a \<Rightarrow> 'a) \<Rightarrow> 'a \<Rightarrow> 'a" where
  "for_xy f A = foldl (\<lambda>A x. foldl (\<lambda>A y. f x y A) A [0..<5]) A [0..<5]"

definition theta :: "u64 list \<Rightarrow> u64 list" where
  "theta A =
     (let C = map (\<lambda>x. foldl (\<lambda>c y. c XOR A ! lane x y) 0 [0..<5]) [0..<5];
          D = map (\<lambda>x. ROL64 (C ! ((x + 1) mod 5)) 1 XOR C ! ((x + 4) mod 5)) [0..<5]
      in for_xy (\<lambda>x y A. A[lane x y := A ! lane x y XOR D ! x]) A)"

definition rho :: "u64 list \<Rightarrow> u64 list" where
  "rho A = for_xy (\<lambda>x y A. A[lane x y := ROL64 (A ! lane x y) (KeccakRhoOffsets ! lane x y)]) A"

definition pi_step :: "u64 list \<Rightarrow> u64 list" where
  "pi_step A = for_xy (\<lambda>x y B. B[lane (0 * x + 1 * y) (2 * x + 3 * y) := A ! lane x y]) A"

definition chi :: "u64 list \<Rightarrow> u64 list" where
  "chi A = foldl (\<lambda>A y.
     let C = map (\<lambda>x. A ! lane x y XOR (NOT (A ! lane (x + 1) y) AND A ! lane (x + 2) y)) [0..<5]
     in foldl (\<lambda>A x. A[lane x y := C ! x]) A [0..<5]) A [0..<5]"

definition iota :: "u64 list \<Rightarrow> nat \<Rightarrow> u64 list" where
  "iota A indexRound = A[lane 0 0 := A ! lane 0 0 XOR KeccakRoundConstants ! indexRound]"

definition KeccakP1600Round :: "u64 list \<Rightarrow> nat \<Rightarrow> u64 list" where
  "KeccakP1600Round A indexRound = iota (chi (pi_step (rho (theta A)))) indexRound"

text \<open>The first round is computed in \<open>unsigned int\<close>: beyond 24 rounds it wraps, and the loop runs none.\<close>

definition KeccakP1600OnWords :: "u64 list \<Rightarrow> u32 \<Rightarrow> u64 list" where
  "KeccakP1600OnWords A nrRounds = foldl KeccakP1600Round A [unat (of_nat maxNrRounds - nrRounds)..<maxNrRounds]"

definition lanes_of :: "bytes \<Rightarrow> u64 list" where
  "lanes_of state = map (\<lambda>i. load64 (drop (8 * i) state)) [0..<25]"

definition bytes_of :: "u64 list \<Rightarrow> bytes" where
  "bytes_of A = concat (map store64 A)"

definition KeccakP1600_Permute_Nrounds :: "u32 \<Rightarrow> bytes \<Rightarrow> bytes" where
  "KeccakP1600_Permute_Nrounds nrounds state = bytes_of (KeccakP1600OnWords (lanes_of state) nrounds)"

definition KeccakP1600_Permute_12rounds :: "bytes \<Rightarrow> bytes" where
  "KeccakP1600_Permute_12rounds state = bytes_of (KeccakP1600OnWords (lanes_of state) 12)"

definition KeccakP1600_Permute_24rounds :: "bytes \<Rightarrow> bytes" where
  "KeccakP1600_Permute_24rounds state = bytes_of (KeccakP1600OnWords (lanes_of state) 24)"

section \<open>Bytes of the state\<close>

definition KeccakP1600_Initialize :: bytes where
  "KeccakP1600_Initialize = replicate 200 0"

definition KeccakP1600_AddByte :: "bytes \<Rightarrow> u8 \<Rightarrow> nat \<Rightarrow> bytes option" where
  "KeccakP1600_AddByte state b offset = (if offset < 200 then Some (state[offset := state ! offset XOR b]) else None)"

definition KeccakP1600_AddBytes :: "bytes \<Rightarrow> bytes \<Rightarrow> nat \<Rightarrow> nat \<Rightarrow> bytes option" where
  "KeccakP1600_AddBytes state d offset len =
     (if offset < 200 \<and> offset + len \<le> 200
      then Some (foldl (\<lambda>st i. st[offset + i := st ! (offset + i) XOR d ! i]) state [0..<len]) else None)"

definition KeccakP1600_ExtractBytes :: "bytes \<Rightarrow> nat \<Rightarrow> nat \<Rightarrow> bytes option" where
  "KeccakP1600_ExtractBytes state offset len =
     (if offset < 200 \<and> offset + len \<le> 200 then Some (take len (drop offset state)) else None)"

definition KeccakP1600_OverwriteBytes :: "bytes \<Rightarrow> bytes \<Rightarrow> nat \<Rightarrow> nat \<Rightarrow> bytes option" where
  "KeccakP1600_OverwriteBytes state d offset len =
     (if offset < 200 \<and> offset + len \<le> 200 then Some (memcpy_at state offset d len) else None)"

definition KeccakP1600_OverwriteWithZeroes :: "bytes \<Rightarrow> nat \<Rightarrow> bytes option" where
  "KeccakP1600_OverwriteWithZeroes state byteCount =
     (if byteCount \<le> 200 then Some (memset_at state 0 0 byteCount) else None)"

definition KeccakP1600_ExtractAndAddBytes :: "bytes \<Rightarrow> bytes \<Rightarrow> nat \<Rightarrow> nat \<Rightarrow> bytes option" where
  "KeccakP1600_ExtractAndAddBytes state input offset len =
     (if offset < 200 \<and> offset + len \<le> 200
      then Some (map (\<lambda>i. input ! i XOR state ! (offset + i)) [0..<len]) else None)"

section \<open>The tables are the computed ones\<close>

lemma keccak_round_constants: "KeccakRoundConstants = InitializeRoundConstants"
  by (simp add: InitializeRoundConstants_def round_constant_def LFSR86540_def upt_rec KeccakRoundConstants_def)

lemma keccak_rho_offsets: "KeccakRhoOffsets = InitializeRhoOffsets"
  by code_simp

end
