(* ===== verification/Keccak_Perm.thy ===== *)
theory Keccak_Perm
  imports Keccak
begin

text \<open>
  Keccak-p[1600] permutes the states: every step is undone by another, so no two states are confused, whatever the number
  of rounds.  For \<^const>\<open>theta\<close> this is the statement that the parity of the columns can be computed back: as
  polynomials over two elements, the parity map is \<open>P = 1 + x + x\<^sup>4 z\<close> with \<open>x\<^sup>5 = 1\<close> and \<open>z\<^sup>6\<^sup>4 = 1\<close>, and \<open>P\<^sup>1\<^sup>9\<^sup>2 = 1\<close>.
\<close>

section \<open>The steps as maps over the lanes\<close>

lemma list_of_length_25:
  assumes "length A = 25"
  obtains a0 a1 a2 a3 a4 a5 a6 a7 a8 a9 a10 a11 a12 a13 a14 a15 a16 a17 a18 a19 a20 a21 a22 a23 a24 where
    "A = [a0, a1, a2, a3, a4, a5, a6, a7, a8, a9, a10, a11, a12, a13, a14, a15, a16, a17, a18, a19, a20, a21, a22, a23, a24]"
  using assms by (auto simp: length_Suc_conv numeral_eq_Suc)

lemma upt_5: "[0..<5] = [0, 1, 2, 3, 4 :: nat]"
  by (simp add: upt_rec)

lemma upt_25: "[0..<25] = [0, 1, 2, 3, 4, 5, 6, 7, 8, 9, 10, 11, 12, 13, 14, 15, 16, 17, 18, 19, 20, 21, 22, 23, 24 :: nat]"
  by (simp add: upt_rec)

lemma for_xy_update:
  assumes "length A = 25"
  shows "for_xy (\<lambda>x y A. A[lane x y := f x y (A ! lane x y)]) A = map (\<lambda>i. f (i mod 5) (i div 5) (A ! i)) [0..<25]"
  using assms by (rule list_of_length_25) (simp add: for_xy_def lane_def upt_5 upt_25)

definition column_parity :: "u64 list \<Rightarrow> nat \<Rightarrow> u64" where
  "column_parity A x = foldl (\<lambda>c y. c XOR A ! lane x y) 0 [0..<5]"

definition theta_effect :: "u64 list \<Rightarrow> nat \<Rightarrow> u64" where
  "theta_effect A x = word_rotr 63 (column_parity A ((x + 1) mod 5)) XOR column_parity A ((x + 4) mod 5)"

lemma ROL64_rotr: "n < 64 \<Longrightarrow> ROL64 a n = word_rotr (64 - n) a"
proof (rule bit_word_eqI)
  fix k :: nat
  assume "n < 64" "k < LENGTH(64)"
  then show "bit (ROL64 a n) k \<longleftrightarrow> bit (word_rotr (64 - n) a) k"
    using bit_imp_le_length [of a "64 + k - n"]
    by (cases "n \<le> k") (auto simp: ROL64_def bit_simps bit_word_rotr_iff mod_if add.commute [of k 64])
qed

lemma theta_map:
  assumes "length A = 25"
  shows "theta A = map (\<lambda>i. A ! i XOR theta_effect A (i mod 5)) [0..<25]"
  unfolding theta_def Let_def
  by (subst for_xy_update [OF assms, where f = "\<lambda>x y a. a XOR _ x"])
    (simp add: theta_effect_def column_parity_def ROL64_rotr upt_25)

lemma rho_map:
  assumes "length A = 25"
  shows "rho A = map (\<lambda>i. ROL64 (A ! i) (KeccakRhoOffsets ! i)) [0..<25]"
  unfolding rho_def
  by (subst for_xy_update [OF assms, where f = "\<lambda>x y a. ROL64 a (KeccakRhoOffsets ! lane x y)"]) (simp add: lane_def upt_25)

lemma pi_map:
  assumes "length A = 25"
  shows "pi_step A = map (\<lambda>i. A ! lane (i mod 5 + 3 * (i div 5)) (i mod 5)) [0..<25]"
  using assms by (rule list_of_length_25) (simp add: pi_step_def for_xy_def lane_def upt_5 upt_25)

lemma chi_map:
  assumes "length A = 25"
  shows "chi A = map (\<lambda>i. A ! i XOR (NOT (A ! lane (i + 1) (i div 5)) AND A ! lane (i + 2) (i div 5))) [0..<25]"
  using assms by (rule list_of_length_25) (simp add: chi_def Let_def lane_def upt_5 upt_25 mod_Suc)

section \<open>Each step is injective\<close>

lemma xor_right_cancel: "a XOR c = b XOR c \<longleftrightarrow> a = b" for a b c :: "'a::len word"
  by (metis xor.assoc xor.right_neutral xor_self_eq)

lemma theta_parity:
  assumes "length A = 25" "x < 5"
  shows "column_parity (theta A) x = column_parity A x XOR theta_effect A x"
proof -
  have "lane x y < 25" "lane x y mod 5 = x" for y using assms(2) by (simp_all add: lane_def mod_less_eq_dividend)
  then show ?thesis
    using assms by (simp add: column_parity_def theta_map upt_5 xor.assoc xor.left_commute xor.commute)
qed

text \<open>The map on the parities and its powers of two, the columns indexed modulo 5.\<close>

definition parity_step :: "nat \<Rightarrow> (nat \<Rightarrow> u64) \<Rightarrow> nat \<Rightarrow> u64" where
  "parity_step k C x = C x XOR word_rotr (63 * k) (C (x + k)) XOR C (x + 4 * k)"

lemma word_rotr_mult_64: "word_rotr (64 * k) (w :: u64) = w"
  by (rule bit_word_eqI) (simp add: bit_word_rotr_iff)

definition cyclic5 :: "(nat \<Rightarrow> u64) \<Rightarrow> bool" where
  "cyclic5 C \<longleftrightarrow> (\<forall>x. C (x mod 5) = C x)"

lemma cyclic5_cong: "cyclic5 C \<Longrightarrow> x mod 5 = y mod 5 \<Longrightarrow> C x = C y"
  by (metis cyclic5_def)

lemma parity_step_twice:
  assumes "cyclic5 C"
  shows "parity_step k (parity_step k C) x = parity_step (2 * k) C x"
proof -
  have "C (x + 5 * k) = C x" "C (x + 8 * k) = C (x + 4 * (2 * k))"
    using assms by (auto intro: cyclic5_cong)
  then show ?thesis
    by (simp add: parity_step_def word_rot_logs word_rotr_word_rotr_eq xor.assoc xor.left_commute xor.commute add.assoc
        flip: mult_2 distrib_right)
qed

lemma parity_step_double:
  assumes "cyclic5 B" "cyclic5 C" "parity_step k B = parity_step k C"
  shows "parity_step (2 * k) B = parity_step (2 * k) C"
proof
  fix x
  show "parity_step (2 * k) B x = parity_step (2 * k) C x"
    using assms(3) by (simp only: parity_step_twice [OF assms(1), symmetric] parity_step_twice [OF assms(2), symmetric])
qed

text \<open>The sixty-fourth power no longer rotates; its cube is the identity.\<close>

lemma parity_step_64:
  assumes "cyclic5 C"
  shows "parity_step 64 C x = C x XOR C (x + 4) XOR C (x + 1)"
proof -
  have "C (x + 64) = C (x + 4)" "C (x + 256) = C (x + 1)"
    using assms by (auto intro!: cyclic5_cong simp: mod_simps) presburger+
  moreover have "word_rotr (63 * 64) w = w" for w :: u64 using word_rotr_mult_64 [of 63 w] by simp
  ultimately show ?thesis by (simp add: parity_step_def)
qed

lemma parity_step_cyclic5:
  assumes "cyclic5 C"
  shows "cyclic5 (parity_step k C)"
  unfolding cyclic5_def
proof
  fix x
  have "C (x mod 5) = C x" "C (x mod 5 + k) = C (x + k)" "C (x mod 5 + 4 * k) = C (x + 4 * k)"
    by (rule cyclic5_cong [OF assms], simp add: mod_simps)+
  then show "parity_step k C (x mod 5) = parity_step k C x" by (simp add: parity_step_def)
qed

lemma parity_step_64_cube:
  assumes "cyclic5 C"
  shows "parity_step 64 (parity_step 64 (parity_step 64 C)) x = C x"
proof -
  note c1 = parity_step_cyclic5 [OF assms, of 64]
  note c2 = parity_step_cyclic5 [OF c1, of 64]
  have "C (x + 5) = C x" "C (6 + x) = C (Suc x)" "C (8 + x) = C (Suc (Suc (Suc x)))"
    "C (9 + x) = C (x + 4)" "C (12 + x) = C (Suc (Suc x))"
    by (rule cyclic5_cong [OF assms], presburger)+
  then show ?thesis
    by (simp add: parity_step_64 [OF c2] parity_step_64 [OF c1] parity_step_64 [OF assms] xor.assoc xor.left_commute xor.commute)
qed

lemma parity_step_inject:
  assumes "cyclic5 B" "cyclic5 C" "parity_step 1 B = parity_step 1 C"
  shows "B = C"
proof
  fix x
  note double = parity_step_double [OF assms(1,2)]
  have "parity_step 2 B = parity_step 2 C" using double [OF assms(3)] by simp
  then have "parity_step 4 B = parity_step 4 C" using double [of 2] by simp
  then have "parity_step 8 B = parity_step 8 C" using double [of 4] by simp
  then have "parity_step 16 B = parity_step 16 C" using double [of 8] by simp
  then have "parity_step 32 B = parity_step 32 C" using double [of 16] by simp
  then have "parity_step 64 B = parity_step 64 C" using double [of 32] by simp
  then show "B x = C x" using parity_step_64_cube [OF assms(1), of x] parity_step_64_cube [OF assms(2), of x] by simp
qed

lemma theta_inject:
  assumes "length A = 25" "length B = 25" "theta A = theta B"
  shows "A = B"
proof -
  let ?C = "\<lambda>A x. column_parity A (x mod 5)"
  have step: "parity_step 1 (?C A) x = ?C (theta A) x" if "length A = 25" for A x
    using that by (simp add: theta_parity parity_step_def theta_effect_def mod_simps xor.assoc)
  have "?C A = ?C B"
  proof (rule parity_step_inject)
    show "parity_step 1 (?C A) = parity_step 1 (?C B)" using step assms by (auto simp only: fun_eq_iff)
  qed (simp_all add: cyclic5_def)
  then have "column_parity A (x mod 5) = column_parity B (x mod 5)" for x by metis
  then have "theta_effect A x = theta_effect B x" for x by (simp only: theta_effect_def)
  then have "A ! i = B ! i" if "i < 25" for i
    using arg_cong [OF assms(3), of "\<lambda>A. A ! i"] that assms(1,2) by (simp add: theta_map xor_right_cancel)
  then show ?thesis using assms(1,2) by (auto intro: nth_equalityI)
qed

lemma rho_inject:
  assumes "length A = 25" "length B = 25" "rho A = rho B"
  shows "A = B"
proof (rule nth_equalityI)
  fix i assume "i < length A"
  then have i: "i < 25" using assms(1) by simp
  then have "KeccakRhoOffsets ! i < 64" by (auto simp: KeccakRhoOffsets_def less_Suc_eq numeral_eq_Suc)
  moreover have "ROL64 (A ! i) (KeccakRhoOffsets ! i) = ROL64 (B ! i) (KeccakRhoOffsets ! i)"
    using arg_cong [OF assms(3), of "\<lambda>A. A ! i"] i assms(1,2) by (simp add: rho_map)
  ultimately show "A ! i = B ! i" by (metis ROL64_rotr word_rot_rl)
qed (use assms in simp)

text \<open>The target of lane (x, y) is (y, 2 x + 3 y), so lane (x, y) comes from (x + 3 y, x).\<close>

lemma pi_source:
  assumes "x < 5"
  shows "(y + 3 * ((2 * x + 3 * y) mod 5)) mod 5 = (x :: nat)"
proof -
  have "(y + 3 * ((2 * x + 3 * y) mod 5)) mod 5 = (y + 3 * (2 * x + 3 * y)) mod 5"
    by (metis mod_add_right_eq mod_mult_right_eq)
  also have "y + 3 * (2 * x + 3 * y) = x + 5 * (x + 2 * y)" by simp
  finally show ?thesis using assms by (simp only: mod_mult_self2 mod_less)
qed

lemma pi_inject:
  assumes "length A = 25" "length B = 25" "pi_step A = pi_step B"
  shows "A = B"
proof (rule nth_equalityI)
  fix i assume "i < length A"
  then have i: "i < 25" using assms(1) by simp
  define j where "j = lane (i div 5) (2 * (i mod 5) + 3 * (i div 5))"
  have y: "i div 5 < 5" using i by simp
  then have "j < 25" unfolding j_def lane_def by (simp add: less_Suc_eq_le)
  moreover have "j mod 5 = i div 5" "j div 5 = (2 * (i mod 5) + 3 * (i div 5)) mod 5"
    using y by (simp_all add: j_def lane_def)
  then have "lane (j mod 5 + 3 * (j div 5)) (j mod 5) = i" using y pi_source [of "i mod 5" "i div 5"] by (simp add: lane_def)
  ultimately show "A ! i = B ! i"
    using arg_cong [OF assms(3), of "\<lambda>A. A ! j"] assms(1,2) by (simp add: pi_map)
qed (use assms in simp)

text \<open>A row of five bits is determined by its image.\<close>

lemma chi_row_inject:
  fixes a0 a1 a2 a3 a4 b0 b1 b2 b3 b4 :: "'a::len word"
  assumes "a0 XOR (NOT a1 AND a2) = b0 XOR (NOT b1 AND b2)" "a1 XOR (NOT a2 AND a3) = b1 XOR (NOT b2 AND b3)"
    "a2 XOR (NOT a3 AND a4) = b2 XOR (NOT b3 AND b4)" "a3 XOR (NOT a4 AND a0) = b3 XOR (NOT b4 AND b0)"
    "a4 XOR (NOT a0 AND a1) = b4 XOR (NOT b0 AND b1)"
  shows "a0 = b0"
proof (rule bit_word_eqI)
  fix n assume n: "n < LENGTH('a)"
  note bits = assms [THEN arg_cong, of "\<lambda>w. bit w n"]
  show "bit a0 n \<longleftrightarrow> bit b0 n" using bits n by (simp add: bit_simps) argo
qed

lemma chi_inject:
  assumes "length A = 25" "length B = 25" "chi A = chi B"
  shows "A = B"
proof (rule nth_equalityI)
  fix i assume "i < length A"
  then have i: "i < 25" using assms(1) by simp
  have eq: "A ! j XOR (NOT (A ! lane (j + 1) (j div 5)) AND A ! lane (j + 2) (j div 5))
      = B ! j XOR (NOT (B ! lane (j + 1) (j div 5)) AND B ! lane (j + 2) (j div 5))" if "j < 25" for j
    using arg_cong [OF assms(3), of "\<lambda>A. A ! j"] that assms(1,2) by (simp add: chi_map)
  define l where "l k = lane (i + k) (i div 5)" for k
  have l: "l k < 25" "lane (l k + m) (l k div 5) = l (k + m)" for k m
  proof -
    have d: "i div 5 < 5" using i by simp
    show "l k < 25" using d mod_less_divisor [of 5 "i + k"] unfolding l_def lane_def by simp
    have div: "l k div 5 = i div 5" and mod: "l k mod 5 = (i + k) mod 5" using d by (simp_all add: l_def lane_def)
    have "(l k + m) mod 5 = (i + k + m) mod 5" using mod by (metis mod_add_left_eq)
    then show "lane (l k + m) (l k div 5) = l (k + m)" by (simp add: div lane_def l_def [of "k + m"] add.assoc)
  qed
  have eql: "A ! l k XOR (NOT (A ! l (k + 1)) AND A ! l (k + 2)) = B ! l k XOR (NOT (B ! l (k + 1)) AND B ! l (k + 2))" for k
    using eq [OF l(1) [of k]] by (simp only: l(2))
  have "(i + 6) mod 5 = (i + 1) mod 5" by presburger
  then have "l 5 = l 0" "l 6 = l 1" by (simp_all add: l_def lane_def)
  moreover have "l 0 = i" using i by (simp add: l_def lane_def)
  moreover note eql [of 0, simplified] eql [of 1] eql [of 2] eql [of 3] eql [of 4]
  ultimately show "A ! i = B ! i"
    using chi_row_inject [of "A ! l 0" "A ! l 1" "A ! l 2" "B ! l 0" "B ! l 1" "B ! l 2" "A ! l 3" "B ! l 3" "A ! l 4" "B ! l 4"]
    by (simp add: eval_nat_numeral)
qed (use assms in simp)

section \<open>The permutation\<close>

lemma length_steps [simp]:
  "length A = 25 \<Longrightarrow> length (theta A) = 25" "length A = 25 \<Longrightarrow> length (rho A) = 25"
  "length A = 25 \<Longrightarrow> length (pi_step A) = 25" "length A = 25 \<Longrightarrow> length (chi A) = 25"
  "length (iota A r) = length A"
  by (simp_all add: theta_map rho_map pi_map chi_map iota_def)

lemma length_KeccakP1600Round [simp]: "length A = 25 \<Longrightarrow> length (KeccakP1600Round A r) = 25"
  by (simp add: KeccakP1600Round_def)

lemma iota_inject:
  assumes "iota A r = iota B r" "length A = 25" "length B = 25"
  shows "A = B"
proof (rule nth_equalityI)
  fix i assume "i < length A"
  then show "A ! i = B ! i"
    using arg_cong [OF assms(1), of "\<lambda>A. A ! i"] assms(2,3)
    by (cases "i = 0") (simp_all add: iota_def lane_def xor_right_cancel)
qed (use assms in simp)

lemma KeccakP1600Round_inject:
  assumes "length A = 25" "length B = 25" "KeccakP1600Round A r = KeccakP1600Round B r"
  shows "A = B"
proof -
  have "chi (pi_step (rho (theta A))) = chi (pi_step (rho (theta B)))"
    using assms iota_inject [of _ r] by (simp add: KeccakP1600Round_def)
  then have "pi_step (rho (theta A)) = pi_step (rho (theta B))" using assms chi_inject by simp
  then have "rho (theta A) = rho (theta B)" using assms pi_inject by simp
  then have "theta A = theta B" using assms rho_inject by simp
  then show ?thesis using assms theta_inject by simp
qed

lemma KeccakP1600OnWords_rounds:
  "length A = 25 \<Longrightarrow> length (foldl KeccakP1600Round A rs) = 25"
  "length A = 25 \<Longrightarrow> length B = 25 \<Longrightarrow> foldl KeccakP1600Round A rs = foldl KeccakP1600Round B rs \<Longrightarrow> A = B"
proof (induction rs arbitrary: A B)
  case (Cons r rs)
  { case 1 with Cons.IH(1) show ?case by simp }
  { case 2
    then have "KeccakP1600Round A r = KeccakP1600Round B r"
      using Cons.IH(2) [of "KeccakP1600Round A r" "KeccakP1600Round B r"] by simp
    with 2 show ?case using KeccakP1600Round_inject by blast }
qed simp_all

lemma length_lanes_of [simp]: "length (lanes_of s) = 25"
  by (simp add: lanes_of_def)

lemma length_concat_store64 [simp]: "length (concat (map store64 A)) = 8 * length A"
  by (induction A) simp_all

lemma length_bytes_of [simp]: "length (bytes_of A) = 8 * length A"
  by (simp add: bytes_of_def)

lemma lanes_of_bytes_of:
  assumes "length A = 25"
  shows "lanes_of (bytes_of A) = A"
  using assms by (rule list_of_length_25) (simp add: lanes_of_def bytes_of_def upt_25)

lemma bytes_of_lanes_of:
  assumes "length s = 200"
  shows "bytes_of (lanes_of s) = s"
proof -
  have "concat (map (\<lambda>i. store64 (load64 (drop (8 * i) s))) [0..<n]) = take (8 * n) s" if "n \<le> 25" for n
    using that
  proof (induction n)
    case (Suc n)
    have "store64 (load64 (drop (8 * n) s)) = take 8 (drop (8 * n) s)"
      using Suc.prems assms store64_load64 [of "take 8 (drop (8 * n) s)"] by (simp add: load64_take)
    moreover have "take (8 * Suc n) s = take (8 * n) s @ take 8 (drop (8 * n) s)"
      using take_add [of "8 * n" 8 s] by (simp add: add.commute)
    ultimately show ?case using Suc by simp
  qed simp
  from this [of 25] show ?thesis using assms by (simp add: bytes_of_def lanes_of_def comp_def)
qed

lemma Permute_rounds:
  "KeccakP1600_Permute_12rounds = KeccakP1600_Permute_Nrounds 12"
  "KeccakP1600_Permute_24rounds = KeccakP1600_Permute_Nrounds 24"
  by (auto simp: fun_eq_iff KeccakP1600_Permute_12rounds_def KeccakP1600_Permute_24rounds_def KeccakP1600_Permute_Nrounds_def)

lemma length_Permute [simp, zlen]: "length (KeccakP1600_Permute_Nrounds n s) = 200"
  by (simp add: KeccakP1600_Permute_Nrounds_def KeccakP1600OnWords_def KeccakP1600OnWords_rounds)

lemma inj_on_Permute: "inj_on (KeccakP1600_Permute_Nrounds n) {s. length s = 200}"
proof (rule inj_onI)
  fix s t assume "s \<in> {s. length s = 200}" "t \<in> {s. length s = 200}"
    and eq: "KeccakP1600_Permute_Nrounds n s = KeccakP1600_Permute_Nrounds n t"
  then have len: "length s = 200" "length t = 200" by simp_all
  from arg_cong [OF eq, of lanes_of] have "KeccakP1600OnWords (lanes_of s) n = KeccakP1600OnWords (lanes_of t) n"
    by (simp add: KeccakP1600_Permute_Nrounds_def lanes_of_bytes_of KeccakP1600OnWords_def KeccakP1600OnWords_rounds(1))
  then have "lanes_of s = lanes_of t" using KeccakP1600OnWords_rounds(2) by (simp add: KeccakP1600OnWords_def)
  then show "s = t" using len bytes_of_lanes_of by metis
qed

text \<open>Asked for more than 24 rounds, the permutation does nothing.\<close>

lemma more_rounds_than_constants:
  assumes "24 < n" and "length s = 200"
  shows "KeccakP1600_Permute_Nrounds n s = s"
proof -
  have n: "24 < unat n" "unat n < 2 ^ 32" using assms(1) unsigned_less [of n, where ?'a = nat] by (simp_all add: word_less_nat_alt)
  have "unat (24 - n) = 2 ^ 32 + 24 - unat n"
    using n by (simp add: unat_sub_if_size word_size)
  then have "[unat (of_nat maxNrRounds - n)..<maxNrRounds] = []" using n by simp
  then show ?thesis using bytes_of_lanes_of [OF assms(2)] by (simp add: KeccakP1600_Permute_Nrounds_def KeccakP1600OnWords_def)
qed

text \<open>C23: Whatever \<open>unsigned int\<close> is given as the number of rounds, the permutation maps the states of 200 bytes one-to-one onto
  themselves.  (For a number up to 24 these are the last rounds of 24; for a larger one the subtraction wraps and no round is run.)\<close>

theorem keccak_permutes_states:
  "bij_betw (KeccakP1600_Permute_Nrounds n) {s. length s = 200} {s. length s = 200}"
proof -
  have "finite {s :: bytes. length s = 200}" using finite_lists_length_eq [of "UNIV :: u8 set" 200] by simp
  then show ?thesis
    using inj_on_Permute [of n] endo_inj_surj [of "{s. length s = 200}" "KeccakP1600_Permute_Nrounds n"]
    by (simp add: bij_betw_def image_subset_iff)
qed

end
