(* ===== verification/Sponge.thy ===== *)
theory Sponge
  imports Keccak_Perm "HOL-Library.Monad_Syntax"
begin

text \<open>
  \<open>panthera/KeccakSponge.inc\<close>: the sponge construction, a template over the permutation \<open>SnP_Permute\<close>, which
  \<open>KeccakSpongeWidth1600.c\<close> instantiates with 12 and with 24 rounds; here the permutation is the argument \<open>perm\<close>.  A loop
  that does not end, a failing \<open>assert\<close> and a write outside of the state are \<open>None\<close>.  Counters of type \<open>unsigned int\<close> are
  words of 32 bits, \<open>size_t\<close> is unbounded (the data is a list).
\<close>

record sponge =
  k_state :: bytes
  k_rate :: u32
  k_io :: u32
  k_squeezing :: bool

definition rateInBytes :: "sponge \<Rightarrow> u32" where
  "rateInBytes S = k_rate S div 8"

definition bad_rate :: "u32 \<Rightarrow> u32 \<Rightarrow> bool" where
  "bad_rate rate capacity \<longleftrightarrow> rate + capacity \<noteq> 1600 \<or> rate = 0 \<or> 1600 < rate \<or> rate mod 8 \<noteq> 0"

definition SpongeInitialize :: "u32 \<Rightarrow> u32 \<Rightarrow> sponge \<Rightarrow> sponge \<times> int" where
  "SpongeInitialize rate capacity S =
     (if bad_rate rate capacity then (S, 1)
      else (\<lparr>k_state = KeccakP1600_Initialize, k_rate = rate, k_io = 0, k_squeezing = False\<rparr>, 0))"

section \<open>Absorbing\<close>

text \<open>\<open>for (j = dataByteLen - i; j >= rateInBytes; j -= rateInBytes)\<close>; the same loop starts \<open>Sponge\<close>.\<close>

partial_function (option) absorb_blocks :: "(bytes \<Rightarrow> bytes) \<Rightarrow> nat \<Rightarrow> bytes \<Rightarrow> bytes \<Rightarrow> (bytes \<times> bytes) option" where
  [code]: "absorb_blocks perm r st d =
     (if r \<le> length d
      then do { st \<leftarrow> KeccakP1600_AddBytes st d 0 r; absorb_blocks perm r (perm st) (drop r d) }
      else Some (st, d))"

text \<open>How much of n bytes goes through the partly used block: \<open>partialBlock\<close>.\<close>

definition partialBlock :: "sponge \<Rightarrow> nat \<Rightarrow> u32" where
  "partialBlock S n =
     (let pb = of_nat n in if rateInBytes S < pb + k_io S then rateInBytes S - k_io S else pb)"

partial_function (option) absorb_loop :: "(bytes \<Rightarrow> bytes) \<Rightarrow> sponge \<Rightarrow> bytes \<Rightarrow> sponge option" where
  [code]: "absorb_loop perm S d =
     (if d = [] then Some S
      else if k_io S = 0 \<and> unat (rateInBytes S) \<le> length d then
        do { (st, d) \<leftarrow> absorb_blocks perm (unat (rateInBytes S)) (k_state S) d;
             absorb_loop perm (S\<lparr>k_state := st\<rparr>) d }
      else
        let pb = partialBlock S (length d) in
        do { st \<leftarrow> KeccakP1600_AddBytes (k_state S) d (unat (k_io S)) (unat pb);
             absorb_loop perm
               (if k_io S + pb = rateInBytes S then S\<lparr>k_state := perm st, k_io := 0\<rparr>
                else S\<lparr>k_state := st, k_io := k_io S + pb\<rparr>)
               (drop (unat pb) d) })"

definition SpongeAbsorb :: "(bytes \<Rightarrow> bytes) \<Rightarrow> sponge \<Rightarrow> bytes \<Rightarrow> (sponge \<times> int) option" where
  "SpongeAbsorb perm S d =
     (if k_squeezing S then Some (S, 1) else do { S \<leftarrow> absorb_loop perm S d; Some (S, 0) })"

text \<open>The suffix, the last bit of the padding and the permutation that ends the absorbing phase, at byte io of the block.\<close>

definition pad_and_permute :: "(bytes \<Rightarrow> bytes) \<Rightarrow> u32 \<Rightarrow> bytes \<Rightarrow> u8 \<Rightarrow> u32 \<Rightarrow> bytes option" where
  "pad_and_permute perm r st suffix io =
     do { st \<leftarrow> KeccakP1600_AddByte st suffix (unat io);
          st \<leftarrow> KeccakP1600_AddByte (if 0x80 \<le> suffix \<and> io = r - 1 then perm st else st) 0x80 (unat (r - 1));
          Some (perm st) }"

definition SpongeAbsorbLastFewBits :: "(bytes \<Rightarrow> bytes) \<Rightarrow> sponge \<Rightarrow> u8 \<Rightarrow> (sponge \<times> int) option" where
  "SpongeAbsorbLastFewBits perm S delimitedData =
     (if delimitedData = 0 then Some (S, 1)
      else if k_squeezing S then Some (S, 1)
      else do { st \<leftarrow> pad_and_permute perm (rateInBytes S) (k_state S) delimitedData (k_io S);
                Some (S\<lparr>k_state := st, k_io := 0, k_squeezing := True\<rparr>, 0) })"

section \<open>Squeezing\<close>

partial_function (option) squeeze_blocks ::
  "(bytes \<Rightarrow> bytes) \<Rightarrow> nat \<Rightarrow> bytes \<Rightarrow> nat \<Rightarrow> (bytes \<times> nat \<times> bytes) option" where
  [code]: "squeeze_blocks perm r st n =
     (if r \<le> n
      then do { out \<leftarrow> KeccakP1600_ExtractBytes (perm st) 0 r;
                (st, n, outs) \<leftarrow> squeeze_blocks perm r (perm st) (n - r);
                Some (st, n, out @ outs) }
      else Some (st, n, []))"

partial_function (option) squeeze_loop :: "(bytes \<Rightarrow> bytes) \<Rightarrow> sponge \<Rightarrow> nat \<Rightarrow> (sponge \<times> bytes) option" where
  [code]: "squeeze_loop perm S n =
     (if n = 0 then Some (S, [])
      else if k_io S = rateInBytes S \<and> unat (rateInBytes S) \<le> n then
        do { (st, n, out) \<leftarrow> squeeze_blocks perm (unat (rateInBytes S)) (k_state S) n;
             (S, outs) \<leftarrow> squeeze_loop perm (S\<lparr>k_state := st\<rparr>) n;
             Some (S, out @ outs) }
      else
        let S = (if k_io S = rateInBytes S then S\<lparr>k_state := perm (k_state S), k_io := 0\<rparr> else S);
            pb = partialBlock S n in
        do { out \<leftarrow> KeccakP1600_ExtractBytes (k_state S) (unat (k_io S)) (unat pb);
             (S, outs) \<leftarrow> squeeze_loop perm (S\<lparr>k_io := k_io S + pb\<rparr>) (n - unat pb);
             Some (S, out @ outs) })"

text \<open>The status is always 0; the bytes written to \<open>data\<close> are returned.\<close>

definition SpongeSqueeze :: "(bytes \<Rightarrow> bytes) \<Rightarrow> sponge \<Rightarrow> nat \<Rightarrow> (sponge \<times> bytes) option" where
  "SpongeSqueeze perm S n =
     do { (S, _) \<leftarrow> (if k_squeezing S then Some (S, 0) else SpongeAbsorbLastFewBits perm S 0x01);
          squeeze_loop perm S n }"

section \<open>The whole construction at once\<close>

partial_function (option) output_blocks :: "(bytes \<Rightarrow> bytes) \<Rightarrow> nat \<Rightarrow> bytes \<Rightarrow> nat \<Rightarrow> bytes option" where
  [code]: "output_blocks perm r st n =
     (if r < n
      then do { out \<leftarrow> KeccakP1600_ExtractBytes st 0 r; outs \<leftarrow> output_blocks perm r (perm st) (n - r); Some (out @ outs) }
      else KeccakP1600_ExtractBytes st 0 n)"

text \<open>\<open>Inl 1\<close> is the error status.\<close>

definition Sponge :: "(bytes \<Rightarrow> bytes) \<Rightarrow> u32 \<Rightarrow> u32 \<Rightarrow> bytes \<Rightarrow> u8 \<Rightarrow> nat \<Rightarrow> (int + bytes) option" where
  "Sponge perm rate capacity input suffix n =
     (if bad_rate rate capacity then Some (Inl 1)
      else if suffix = 0 then Some (Inl 1)
      else
        let r = rate div 8 in
        do { (st, d) \<leftarrow> absorb_blocks perm (unat r) KeccakP1600_Initialize input;
             st \<leftarrow> KeccakP1600_AddBytes st d 0 (length d);
             st \<leftarrow> pad_and_permute perm r st suffix (of_nat (length d));
             out \<leftarrow> output_blocks perm (unat r) st n;
             Some (Inr out) })"

end
