(* ===== verification/Sponge_Ok.thy ===== *)
theory Sponge_Ok
  imports Sponge
begin

text \<open>
  What the sponge computes.  Absorbing is a fold over the bytes, however they arrive; squeezing reads the successive blocks
  of the permuted state; the padded message is absorbed block by block.  The construction relies on one thing only, that the
  permutation returns 200 bytes; it is the law of the locale \<open>snp_permutation\<close>, interpreted for Keccak-p.
\<close>

section \<open>Reference definitions\<close>

definition absorb_byte :: "(bytes \<Rightarrow> bytes) \<Rightarrow> nat \<Rightarrow> u8 \<Rightarrow> bytes \<times> nat \<Rightarrow> bytes \<times> nat" where
  "absorb_byte perm r b = (\<lambda>(st, io).
     let st = st[io := st ! io XOR b] in if Suc io = r then (perm st, 0) else (st, Suc io))"

primrec squeeze_bytes :: "(bytes \<Rightarrow> bytes) \<Rightarrow> nat \<Rightarrow> nat \<Rightarrow> bytes \<times> nat \<Rightarrow> bytes \<times> bytes \<times> nat" where
  "squeeze_bytes perm r 0 p = ([], p)"
| "squeeze_bytes perm r (Suc n) p =
     (let (st, io) = (if snd p = r then (perm (fst p), 0) else p);
          (out, q) = squeeze_bytes perm r n (st, Suc io)
      in (st ! io # out, q))"

text \<open>The padding of a message whose last block has io bytes; its first byte is the suffix.\<close>

definition sponge_padding :: "nat \<Rightarrow> nat \<Rightarrow> u8 \<Rightarrow> bytes" where
  "sponge_padding r io suffix =
     (if Suc io < r then suffix # replicate (r - io - 2) 0 @ [0x80]
      else if suffix < 0x80 then [suffix XOR 0x80]
      else suffix # replicate (r - 1) 0 @ [0x80])"

definition xor_block :: "bytes \<Rightarrow> bytes \<Rightarrow> bytes" where
  "xor_block st b = map2 (\<lambda>x y. x XOR y) (take (length b) st) b @ drop (length b) st"

definition sponge_spec :: "(bytes \<Rightarrow> bytes) \<Rightarrow> nat \<Rightarrow> bytes \<Rightarrow> u8 \<Rightarrow> nat \<Rightarrow> bytes" where
  "sponge_spec perm r msg suffix n =
     (let padded = msg @ sponge_padding r (length msg mod r) suffix;
          st = foldl (\<lambda>st b. perm (xor_block st b)) (replicate 200 0) (chunks r padded)
      in map (\<lambda>k. (perm ^^ (k div r)) st ! (k mod r)) [0..<n])"

section \<open>Bytes of a block\<close>

definition adds :: "nat \<Rightarrow> bytes \<Rightarrow> bytes \<Rightarrow> bytes" where
  "adds off d st = foldl (\<lambda>st i. st[off + i := st ! (off + i) XOR d ! i]) st [0..<length d]"

lemma adds_Nil [simp]: "adds off [] st = st"
  by (simp add: adds_def)

lemma adds_snoc: "adds off (d @ [b]) st = (adds off d st)[off + length d := adds off d st ! (off + length d) XOR b]"
proof -
  have "foldl (\<lambda>st i. st[off + i := st ! (off + i) XOR (d @ [b]) ! i]) st [0..<length d]
      = foldl (\<lambda>st i. st[off + i := st ! (off + i) XOR d ! i]) st [0..<length d]"
    by (rule foldl_cong) (simp_all add: nth_append)
  then show ?thesis by (simp add: adds_def)
qed

lemma length_adds [simp, zlen]: "length (adds off d st) = length st"
  by (induction d rule: rev_induct) (simp_all add: adds_snoc)

lemma AddBytes_adds:
  assumes "off < 200" "off + n \<le> 200" "n \<le> length d"
  shows "KeccakP1600_AddBytes st d off n = Some (adds off (take n d) st)"
proof -
  have "foldl (\<lambda>st i. st[off + i := st ! (off + i) XOR d ! i]) st [0..<n]
      = foldl (\<lambda>st i. st[off + i := st ! (off + i) XOR take n d ! i]) st [0..<n]"
    by (rule foldl_cong) simp_all
  then show ?thesis using assms by (simp add: KeccakP1600_AddBytes_def adds_def)
qed

lemma nth_adds:
  assumes "off + length d \<le> length st"
  shows "adds off d st ! i = (if off \<le> i \<and> i < off + length d then st ! i XOR d ! (i - off) else st ! i)"
  using assms
proof (induction d rule: rev_induct)
  case (snoc b d)
  then show ?case by (auto simp: adds_snoc nth_list_update nth_append)
qed auto

lemma adds_xor_block:
  assumes "length d \<le> length st"
  shows "adds 0 d st = xor_block st d"
  using assms by (intro nth_equalityI) (simp_all add: nth_adds xor_block_def nth_append)

text \<open>Bytes that do not fill the block are added; a byte that fills it has it permuted.\<close>

lemma absorb_partial:
  "io + length d < r \<Longrightarrow> fold (absorb_byte perm r) d (st, io) = (adds io d st, io + length d)"
  by (induction d rule: rev_induct) (simp_all add: adds_snoc absorb_byte_def)

lemma absorb_full:
  assumes "io + length d = r" "d \<noteq> []"
  shows "fold (absorb_byte perm r) d (st, io) = (perm (adds io d st), 0)"
proof -
  obtain e b where d: "d = e @ [b]" using assms(2) by (metis append_butlast_last_id)
  then have "fold (absorb_byte perm r) e (st, io) = (adds io e st, io + length e)"
    using assms(1) by (intro absorb_partial) simp
  then show ?thesis using d assms(1) by (simp add: absorb_byte_def adds_snoc)
qed

lemma adds_zeroes: "off + n \<le> length st \<Longrightarrow> adds off (replicate n 0) st = st"
  by (rule nth_equalityI) (auto simp: nth_adds)

lemma absorb_zeroes:
  assumes "io + n < r" "r \<le> length st"
  shows "fold (absorb_byte perm r) (replicate n 0) (st, io) = (st, io + n)"
  using assms absorb_partial [of io "replicate n 0" r perm st] by (simp add: adds_zeroes del: fold_replicate)

section \<open>Instances\<close>

text \<open>The state of an instance while it absorbs, with r bytes per block; squeezing, the block may also be used up.\<close>

definition absorbing :: "nat \<Rightarrow> sponge \<Rightarrow> bool" where
  "absorbing r S \<longleftrightarrow> rateInBytes S = of_nat r \<and> 0 < r \<and> r \<le> 200 \<and> length (k_state S) = 200
     \<and> unat (k_io S) < r \<and> \<not> k_squeezing S"

definition squeezing :: "nat \<Rightarrow> sponge \<Rightarrow> bool" where
  "squeezing r S \<longleftrightarrow> rateInBytes S = of_nat r \<and> 0 < r \<and> r \<le> 200 \<and> length (k_state S) = 200
     \<and> unat (k_io S) \<le> r \<and> k_squeezing S"

definition block_of :: "sponge \<Rightarrow> bytes \<times> nat" where
  "block_of S = (k_state S, unat (k_io S))"

definition with_block :: "bytes \<times> nat \<Rightarrow> sponge \<Rightarrow> sponge" where
  "with_block p S = S\<lparr>k_state := fst p, k_io := of_nat (snd p)\<rparr>"

lemma with_block_id [simp]: "with_block (block_of S) S = S"
  by (simp add: with_block_def block_of_def)

lemma with_block_twice [simp]:
  "with_block p (with_block q S) = with_block p S" "with_block p (S\<lparr>k_state := st\<rparr>) = with_block p S"
  "with_block p (S\<lparr>k_state := st, k_io := io\<rparr>) = with_block p S" "with_block p (S\<lparr>k_io := io\<rparr>) = with_block p S"
  by (simp_all add: with_block_def)

lemma block_of_with_block: "snd p \<le> 200 \<Longrightarrow> block_of (with_block p S) = p"
  by (simp add: block_of_def with_block_def unat_of_nat_small prod_eq_iff)

lemma partialBlock_min:
  assumes "rateInBytes S = of_nat r" "r \<le> 200" "unat (k_io S) < r" "n + unat (k_io S) < 2 ^ 32"
  shows "unat (partialBlock S n) = min n (r - unat (k_io S))"
proof -
  have r: "unat (of_nat r :: u32) = r" using assms(2) by (simp add: unat_of_nat_small)
  have n: "unat (of_nat n :: u32) = n" using assms(4) by (intro unat_of_nat_small) simp
  have sum: "unat (of_nat n + k_io S) = n + unat (k_io S)" using assms(4) n by (subst unat_add_small) simp_all
  have "unat (of_nat r - k_io S) = r - unat (k_io S)"
    using assms(3) r by (subst unat_sub) (simp_all add: word_le_nat_alt)
  then show ?thesis using r n sum by (auto simp: partialBlock_def Let_def assms(1) word_less_nat_alt)
qed

lemma rate_bytes:
  assumes "\<not> bad_rate rate capacity"
  shows "rate div 8 = of_nat (unat rate div 8)" "0 < unat rate div 8" "unat rate div 8 \<le> 200"
proof -
  have "unat rate \<le> 1600" "rate \<noteq> 0" "rate mod 8 = 0" using assms by (auto simp: bad_rate_def word_le_nat_alt not_less)
  moreover have "unat rate mod 8 = unat (rate mod 8)" by (simp add: unat_mod)
  moreover have "unat rate \<noteq> 0" using \<open>rate \<noteq> 0\<close> by (simp add: unat_eq_zero)
  ultimately show "0 < unat rate div 8" "unat rate div 8 \<le> 200" by (auto simp: div_greater_zero_iff dvd_imp_le mod_eq_0_iff_dvd)
  have "unat rate div 8 < 2 ^ LENGTH(32)" using \<open>unat rate \<le> 1600\<close> by simp
  then show "rate div 8 = of_nat (unat rate div 8)" by (simp only: word_unat_eq_iff unat_div unat_of_nat_small) simp
qed

section \<open>The operations over a permutation of 200 bytes\<close>

locale snp_permutation =
  fixes perm :: "bytes \<Rightarrow> bytes"
  assumes length_perm: "length (perm st) = 200"
begin

lemma absorb_blocks_ok:
  assumes "0 < r" "r \<le> 200" "length st = 200"
  shows "\<exists>st'. absorb_blocks perm r st d = Some (st', drop (length d div r * r) d) \<and> length st' = 200
    \<and> fold (absorb_byte perm r) (take (length d div r * r) d) (st, 0) = (st', 0)"
  using assms(3)
proof (induction d arbitrary: st rule: length_induct)
  case (1 d)
  show ?case
  proof (cases "r \<le> length d")
    case True
    let ?st = "perm (adds 0 (take r d) st)"
    let ?k = "length (drop r d) div r"
    have add: "KeccakP1600_AddBytes st d 0 r = Some (adds 0 (take r d) st)"
      using assms True by (intro AddBytes_adds) auto
    have "length (drop r d) < length d" using True assms(1,2) by simp
    then obtain st' where rest: "absorb_blocks perm r ?st (drop r d) = Some (st', drop (?k * r) (drop r d))" "length st' = 200"
      "fold (absorb_byte perm r) (take (?k * r) (drop r d)) (?st, 0) = (st', 0)"
      using 1(1) length_perm by blast
    have k: "length d div r * r = r + ?k * r" using True assms(1) by (simp add: le_div_geq)
    have "fold (absorb_byte perm r) (take r d) (st, 0) = (?st, 0)"
      using True assms(1) by (intro absorb_full) auto
    with rest have "fold (absorb_byte perm r) (take (length d div r * r) d) (st, 0) = (st', 0)"
      by (simp only: k take_add fold_append comp_apply)
    moreover have "absorb_blocks perm r st d = Some (st', drop (length d div r * r) d)"
      using rest(1) True add by (simp add: absorb_blocks.simps [of perm r st d] k add.commute)
    ultimately show ?thesis using rest(2) by blast
  next
    case False
    with 1(2) show ?thesis by (simp add: absorb_blocks.simps [of perm r st d])
  qed
qed

lemma absorb_keeps:
  assumes "length (fst p) = 200" "snd p < r"
  shows "length (fst (fold (absorb_byte perm r) d p)) = 200 \<and> snd (fold (absorb_byte perm r) d p) < r"
  using assms
proof (induction d arbitrary: p)
  case (Cons b d)
  have "length (fst (absorb_byte perm r b p)) = 200 \<and> snd (absorb_byte perm r b p) < r"
    using Cons.prems length_perm by (cases p) (auto simp: absorb_byte_def Let_def)
  then show ?case using Cons.IH by simp
qed simp

text \<open>A turn of the loop: what remains to be absorbed is shorter, and the bytes taken are accounted for.\<close>

definition absorb_turn :: "nat \<Rightarrow> sponge \<Rightarrow> bytes \<Rightarrow> sponge \<Rightarrow> bytes \<Rightarrow> bool" where
  "absorb_turn r S d S' d' \<longleftrightarrow> length d' < length d \<and> absorbing r S' \<and> (k_io S' = 0 \<or> d' = [])
     \<and> fold (absorb_byte perm r) d (block_of S) = fold (absorb_byte perm r) d' (block_of S')
     \<and> (\<forall>p. with_block p S' = with_block p S)"

lemma fold_take_drop: "fold f d p = fold f (drop n d) (fold f (take n d) p)"
  using fold_append [of f "take n d" "drop n d"] by simp

lemma absorb_loop_blocks:
  assumes "absorbing r S" "k_io S = 0" "r \<le> length d"
  shows "\<exists>S' d'. absorb_turn r S d S' d' \<and> absorb_loop perm S d = absorb_loop perm S' d'"
proof -
  have S: "rateInBytes S = of_nat r" "0 < r" "r \<le> 200" "length (k_state S) = 200"
    using assms(1) by (simp_all add: absorbing_def)
  have r: "unat (rateInBytes S) = r" using S(1,3) by (simp add: unat_of_nat_small)
  let ?n = "length d div r * r"
  obtain st' where st': "absorb_blocks perm r (k_state S) d = Some (st', drop ?n d)" "length st' = 200"
    "fold (absorb_byte perm r) (take ?n d) (k_state S, 0) = (st', 0)"
    using absorb_blocks_ok [OF S(2-4), of d] by blast
  have d: "d \<noteq> []" using assms(3) S(2) by auto
  have "0 < length d div r" using assms(3) S(2) by (simp add: div_greater_zero_iff)
  then have "length (drop ?n d) < length d" using S(2) d by simp
  then have "absorb_turn r S d (S\<lparr>k_state := st'\<rparr>) (drop ?n d)"
    using assms(1,2) st'(2,3) fold_take_drop [of "absorb_byte perm r" d "block_of S" ?n]
    by (simp add: absorb_turn_def absorbing_def rateInBytes_def block_of_def)
  then show ?thesis using assms(2,3) st'(1) r d by (auto simp: absorb_loop.simps [of perm S d])
qed

lemma absorb_loop_partial:
  assumes "absorbing r S" "d \<noteq> []" "\<not> (k_io S = 0 \<and> r \<le> length d)" "length d + unat (k_io S) < 2 ^ 32"
  shows "\<exists>S' d'. absorb_turn r S d S' d' \<and> absorb_loop perm S d = absorb_loop perm S' d'"
proof -
  let ?io = "unat (k_io S)" and ?n = "min (length d) (r - unat (k_io S))"
  have S: "rateInBytes S = of_nat r" "0 < r" "r \<le> 200" "length (k_state S) = 200" "?io < r"
    using assms(1) by (simp_all add: absorbing_def)
  have r: "unat (rateInBytes S) = r" using S(1,3) by (simp add: unat_of_nat_small)
  have pb: "unat (partialBlock S (length d)) = ?n" using S assms(4) by (intro partialBlock_min) simp_all
  have io: "unat (k_io S + partialBlock S (length d)) = ?io + ?n" using S(3,5) pb by (subst unat_add_small) simp_all
  let ?st = "adds ?io (take ?n d) (k_state S)"
  have add: "KeccakP1600_AddBytes (k_state S) d ?io ?n = Some ?st" using S by (intro AddBytes_adds) auto
  let ?p = "fold (absorb_byte perm r) (take ?n d) (block_of S)"
  have "take ?n d \<noteq> []" using assms(2) S(5) by simp
  then have p: "?p = (if ?io + ?n = r then (perm ?st, 0) else (?st, ?io + ?n))"
    using absorb_full [of ?io "take ?n d" r perm "k_state S"] absorb_partial [of ?io "take ?n d" r perm "k_state S"] S(5)
    by (auto simp: block_of_def)
  have full: "k_io S + partialBlock S (length d) = rateInBytes S \<longleftrightarrow> ?io + ?n = r"
    using io r by (simp add: word_unat_eq_iff)
  have word: "k_io S + partialBlock S (length d) = of_nat (?io + ?n)"
    using arg_cong [OF io, of "of_nat :: nat \<Rightarrow> u32"] by simp
  have step: "(if k_io S + partialBlock S (length d) = rateInBytes S then S\<lparr>k_state := perm ?st, k_io := 0\<rparr>
        else S\<lparr>k_state := ?st, k_io := k_io S + partialBlock S (length d)\<rparr>) = with_block ?p S"
    using full word by (simp add: p with_block_def)
  have keep: "length (fst ?p) = 200" "snd ?p < r" using absorb_keeps S(4,5) by (simp_all add: block_of_def)
  then have "absorbing r (with_block ?p S)"
    using assms(1) S(3) by (simp add: absorbing_def with_block_def rateInBytes_def unat_of_nat_small)
  moreover have "k_io (with_block ?p S) = 0 \<or> drop ?n d = []" using S(5) by (auto simp: p with_block_def)
  moreover have "length (drop ?n d) < length d" using assms(2) S(5) by simp
  moreover have "block_of (with_block ?p S) = ?p" using S(3) keep by (intro block_of_with_block) simp
  ultimately have "absorb_turn r S d (with_block ?p S) (drop ?n d)"
    using fold_take_drop [of "absorb_byte perm r" d "block_of S" ?n] by (simp add: absorb_turn_def)
  moreover have cond: "(k_io S = 0 \<and> unat (rateInBytes S) \<le> length d) = False" using assms(3) r by simp
  have "absorb_loop perm S d = absorb_loop perm (with_block ?p S) (drop ?n d)"
    by (simp only: absorb_loop.simps [of perm S d] assms(2) cond if_False Let_def pb add Option.bind.simps step)
  ultimately show ?thesis by blast
qed

lemma absorb_loop_ok:
  assumes "absorbing r S" "k_io S = 0 \<or> length d + unat (k_io S) < 2 ^ 32"
  shows "absorb_loop perm S d = Some (with_block (fold (absorb_byte perm r) d (block_of S)) S)"
  using assms
proof (induction d arbitrary: S rule: length_induct)
  case (1 d)
  show ?case
  proof (cases "d = []")
    case True
    then show ?thesis by (simp add: absorb_loop.simps [of perm S "[]"])
  next
    case False
    have "r \<le> 200" using 1(2) by (simp add: absorbing_def)
    then have "k_io S = 0 \<and> r \<le> length d \<or> length d + unat (k_io S) < 2 ^ 32" using 1(3) by auto
    then obtain S' d' where turn: "absorb_turn r S d S' d'" "absorb_loop perm S d = absorb_loop perm S' d'"
      using absorb_loop_blocks [OF 1(2)] absorb_loop_partial [OF 1(2) False] by blast
    moreover have "k_io S' = 0 \<or> length d' + unat (k_io S') < 2 ^ 32"
      using turn(1) unat_u32_lt [of "k_io S'"] by (auto simp: absorb_turn_def)
    ultimately have "absorb_loop perm S' d' = Some (with_block (fold (absorb_byte perm r) d' (block_of S')) S')"
      using 1(1) unfolding absorb_turn_def by blast
    then show ?thesis using turn unfolding absorb_turn_def by metis
  qed
qed

section \<open>Padding\<close>

lemma pad_and_permute_ok:
  assumes "0 < r" "r \<le> 200" "length st = 200" "unat io < r"
  shows "pad_and_permute perm (of_nat r) st suffix io
      = Some (fst (fold (absorb_byte perm r) (sponge_padding r (unat io) suffix) (st, unat io)))"
    and "snd (fold (absorb_byte perm r) (sponge_padding r (unat io) suffix) (st, unat io)) = 0"
proof -
  have last: "unat (of_nat r - 1 :: u32) = r - 1"
    using assms(1,2) by (subst unat_sub) (simp_all add: unat_of_nat_small word_le_nat_alt)
  then have io: "io = of_nat r - 1 \<longleftrightarrow> Suc (unat io) = r" using assms(1) by (auto simp: word_unat_eq_iff)
  consider "Suc (unat io) < r" | "Suc (unat io) = r" "suffix < 0x80" | "Suc (unat io) = r" "0x80 \<le> suffix"
    using assms(4) not_le [of "0x80" suffix] by (cases "Suc (unat io) = r") auto
  then have "pad_and_permute perm (of_nat r) st suffix io
      = Some (fst (fold (absorb_byte perm r) (sponge_padding r (unat io) suffix) (st, unat io)))
    \<and> snd (fold (absorb_byte perm r) (sponge_padding r (unat io) suffix) (st, unat io)) = 0"
  proof cases
    case 1
    then have "Suc (r - 2) = r - 1" "r \<noteq> 0" by simp_all
    then show ?thesis
      using 1 absorb_zeroes [of "Suc (unat io)" "r - unat io - 2" r "st[unat io := st ! unat io XOR suffix]" perm] assms io
      by (simp add: pad_and_permute_def KeccakP1600_AddByte_def last sponge_padding_def absorb_byte_def del: fold_replicate)
  next
    case 2
    then have low: "(0x80 \<le> suffix) = False" by (simp only: not_le [symmetric] simp_thms)
    show ?thesis
      using 2 assms io by (simp add: low pad_and_permute_def KeccakP1600_AddByte_def last sponge_padding_def absorb_byte_def xor.assoc not_le)
  next
    case 3
    then have high: "(suffix < 0x80) = False" by (simp only: not_less [symmetric] simp_thms)
    show ?thesis
      using absorb_zeroes [of 0 "r - 1" r "perm (st[unat io := st ! unat io XOR suffix])" perm] 3 assms io length_perm
      by (simp add: high pad_and_permute_def KeccakP1600_AddByte_def last sponge_padding_def absorb_byte_def not_less del: fold_replicate)
  qed
  then show "pad_and_permute perm (of_nat r) st suffix io
      = Some (fst (fold (absorb_byte perm r) (sponge_padding r (unat io) suffix) (st, unat io)))"
    and "snd (fold (absorb_byte perm r) (sponge_padding r (unat io) suffix) (st, unat io)) = 0" by blast+
qed

section \<open>Squeezing\<close>

lemma squeeze_within:
  "io + n \<le> r \<Longrightarrow> r \<le> length st \<Longrightarrow> squeeze_bytes perm r n (st, io) = (take n (drop io st), (st, io + n))"
proof (induction n arbitrary: io)
  case (Suc n)
  then show ?case by (simp add: Cons_nth_drop_Suc [symmetric])
qed simp

lemma squeeze_append:
  "squeeze_bytes perm r (m + n) p
    = (fst (squeeze_bytes perm r m p) @ fst (squeeze_bytes perm r n (snd (squeeze_bytes perm r m p))),
       snd (squeeze_bytes perm r n (snd (squeeze_bytes perm r m p))))"
  by (induction m arbitrary: p) (simp_all add: Let_def split_beta)

lemma squeeze_next_block: "0 < r \<Longrightarrow> 0 < n \<Longrightarrow> squeeze_bytes perm r n (st, r) = squeeze_bytes perm r n (perm st, 0)"
  by (cases n) auto

lemma squeeze_blocks_ok:
  assumes "0 < r" "r \<le> 200"
  shows "\<exists>st' out. squeeze_blocks perm r st n = Some (st', n mod r, out)
    \<and> squeeze_bytes perm r (n div r * r) (st, r) = (out, st', r) \<and> (length st = 200 \<longrightarrow> length st' = 200)"
proof (induction n arbitrary: st rule: less_induct)
  case (less n)
  show ?case
  proof (cases "r \<le> n")
    case True
    obtain st' out where rest: "squeeze_blocks perm r (perm st) (n - r) = Some (st', (n - r) mod r, out)"
      "squeeze_bytes perm r ((n - r) div r * r) (perm st, r) = (out, st', r)" "length st' = 200"
      using less [of "n - r" "perm st"] True assms(1) length_perm by auto
    have first: "squeeze_bytes perm r r (st, r) = (take r (perm st), perm st, r)"
      using assms length_perm by (simp add: squeeze_next_block squeeze_within)
    have "n div r * r = r + (n - r) div r * r" using True assms(1) by (simp add: le_div_geq)
    then have "squeeze_bytes perm r (n div r * r) (st, r) = (take r (perm st) @ out, st', r)"
      using first rest(2) by (simp add: squeeze_append)
    then show ?thesis
      using rest(1,3) True assms
      by (simp add: squeeze_blocks.simps [of perm r st n] KeccakP1600_ExtractBytes_def le_mod_geq)
  next
    case False
    then show ?thesis using assms by (simp add: squeeze_blocks.simps [of perm r st n])
  qed
qed

definition squeeze_turn :: "nat \<Rightarrow> sponge \<Rightarrow> nat \<Rightarrow> sponge \<Rightarrow> nat \<Rightarrow> bytes \<Rightarrow> bool" where
  "squeeze_turn r S n S' n' out \<longleftrightarrow> n' < n \<and> squeezing r S' \<and> (k_io S' = of_nat r \<or> n' = 0)
     \<and> squeeze_bytes perm r n (block_of S)
        = (out @ fst (squeeze_bytes perm r n' (block_of S')), snd (squeeze_bytes perm r n' (block_of S')))
     \<and> squeeze_loop perm S n = do { (T, outs) \<leftarrow> squeeze_loop perm S' n'; Some (T, out @ outs) }
     \<and> (\<forall>p. with_block p S' = with_block p S)"

lemma squeeze_loop_blocks:
  assumes "squeezing r S" "k_io S = of_nat r" "r \<le> n"
  shows "\<exists>S' n' out. squeeze_turn r S n S' n' out"
proof -
  have S: "rateInBytes S = of_nat r" "0 < r" "r \<le> 200" "length (k_state S) = 200"
    using assms(1) by (simp_all add: squeezing_def)
  have r: "unat (rateInBytes S) = r" "unat (of_nat r :: u32) = r" using S(1,3) by (simp_all add: unat_of_nat_small)
  obtain st' out where st': "squeeze_blocks perm r (k_state S) n = Some (st', n mod r, out)"
    "squeeze_bytes perm r (n div r * r) (k_state S, r) = (out, st', r)" "length st' = 200"
    using squeeze_blocks_ok [OF S(2,3), of "k_state S" n] S(4) by blast
  have "squeeze_bytes perm r n (block_of S)
      = (out @ fst (squeeze_bytes perm r (n mod r) (st', r)), snd (squeeze_bytes perm r (n mod r) (st', r)))"
    using st'(2) squeeze_append [of r "n div r * r" "n mod r" "(k_state S, r)"] assms(2) r by (simp add: block_of_def)
  moreover have "squeezing r (S\<lparr>k_state := st'\<rparr>)" using assms(1) st'(3) by (simp add: squeezing_def rateInBytes_def)
  moreover have "n mod r < n" using assms(3) S(2) mod_less_divisor [of r n] by linarith
  moreover have "squeeze_loop perm S n
      = do { (T, outs) \<leftarrow> squeeze_loop perm (S\<lparr>k_state := st'\<rparr>) (n mod r); Some (T, out @ outs) }"
    using assms S(2) st'(1) r by (simp add: squeeze_loop.simps [of perm S n] S(1))
  ultimately have "squeeze_turn r S n (S\<lparr>k_state := st'\<rparr>) (n mod r) out"
    using assms(2) r by (simp add: squeeze_turn_def block_of_def)
  then show ?thesis by blast
qed

text \<open>A used up block is replaced before it is read.\<close>

definition fresh_block :: "sponge \<Rightarrow> sponge" where
  "fresh_block S = (if k_io S = rateInBytes S then S\<lparr>k_state := perm (k_state S), k_io := 0\<rparr> else S)"

lemma squeeze_loop_partial:
  assumes "squeezing r S" "0 < n" "\<not> (k_io S = of_nat r \<and> r \<le> n)" "k_io S = of_nat r \<or> n + unat (k_io S) < 2 ^ 32"
  shows "\<exists>S' n' out. squeeze_turn r S n S' n' out"
proof -
  let ?F = "fresh_block S"
  have S: "rateInBytes S = of_nat r" "0 < r" "r \<le> 200" "length (k_state S) = 200" "unat (k_io S) \<le> r" "k_squeezing S"
    using assms(1) by (simp_all add: squeezing_def)
  have r: "unat (rateInBytes S) = r" "unat (of_nat r :: u32) = r" using S(1,3) by (simp_all add: unat_of_nat_small)
  have ior: "k_io S = rateInBytes S \<longleftrightarrow> unat (k_io S) = r" using r by (simp add: word_unat_eq_iff)
  have F: "rateInBytes ?F = of_nat r" "length (k_state ?F) = 200" "unat (k_io ?F) < r" "k_squeezing ?F"
    "\<And>p. with_block p ?F = with_block p S" "n + unat (k_io ?F) < 2 ^ 32"
    using S ior assms(3,4) length_perm by (auto simp: fresh_block_def rateInBytes_def)
  have blk: "squeeze_bytes perm r n (block_of S) = squeeze_bytes perm r n (block_of ?F)"
    using assms(2) S(2) ior r by (auto simp: fresh_block_def block_of_def squeeze_next_block)
  let ?io = "unat (k_io ?F)" and ?m = "min n (r - unat (k_io ?F))"
  have pb: "unat (partialBlock ?F n) = ?m" using F(1,3,6) S(3) by (intro partialBlock_min) simp_all
  have io: "unat (k_io ?F + partialBlock ?F n) = ?io + ?m" using S(3) F(3) pb by (subst unat_add_small) simp_all
  let ?S' = "?F\<lparr>k_io := k_io ?F + partialBlock ?F n\<rparr>" and ?out = "take ?m (drop ?io (k_state ?F))"
  have out: "KeccakP1600_ExtractBytes (k_state ?F) ?io ?m = Some ?out"
    using S(3) F(3) by (simp add: KeccakP1600_ExtractBytes_def)
  have "squeeze_bytes perm r ?m (block_of ?F) = (?out, block_of ?S')"
    using squeeze_within [of ?io ?m r "k_state ?F"] S(3) F(2,3) io by (simp add: block_of_def)
  then have "squeeze_bytes perm r n (block_of ?F)
      = (?out @ fst (squeeze_bytes perm r (n - ?m) (block_of ?S')), snd (squeeze_bytes perm r (n - ?m) (block_of ?S')))"
    using squeeze_append [of r ?m "n - ?m" "block_of ?F"] by simp
  moreover have "squeezing r ?S'" using F S(2,3) io by (simp add: squeezing_def rateInBytes_def)
  moreover have "k_io ?S' = of_nat r \<or> n - ?m = 0" using io r F(3) by (auto simp: word_unat_eq_iff)
  moreover have "n - ?m < n" using assms(2) F(3) by simp
  moreover have cond: "(k_io S = rateInBytes S \<and> unat (rateInBytes S) \<le> n) = False" "(n = 0) = False"
    using assms(2,3) r S(1) by simp_all
  have "squeeze_loop perm S n = do { (T, outs) \<leftarrow> squeeze_loop perm ?S' (n - ?m); Some (T, ?out @ outs) }"
    by (simp only: squeeze_loop.simps [of perm S n] cond if_False fresh_block_def [symmetric] Let_def pb out Option.bind.simps)
  ultimately have "squeeze_turn r S n ?S' (n - ?m) ?out" using blk F(5) by (simp add: squeeze_turn_def)
  then show ?thesis by blast
qed

lemma squeeze_loop_ok:
  assumes "squeezing r S" "k_io S = of_nat r \<or> n + unat (k_io S) < 2 ^ 32"
  shows "squeeze_loop perm S n
    = Some (with_block (snd (squeeze_bytes perm r n (block_of S))) S, fst (squeeze_bytes perm r n (block_of S)))"
  using assms
proof (induction n arbitrary: S rule: less_induct)
  case (less n)
  show ?case
  proof (cases "n = 0")
    case True
    then show ?thesis by (simp add: squeeze_loop.simps [of perm S 0])
  next
    case False
    then obtain S' n' out where turn: "squeeze_turn r S n S' n' out"
      using squeeze_loop_blocks [OF less(2)] squeeze_loop_partial [OF less(2)] less(3) by blast
    moreover have "k_io S' = of_nat r \<or> n' + unat (k_io S') < 2 ^ 32"
      using turn unat_u32_lt [of "k_io S'"] by (auto simp: squeeze_turn_def)
    ultimately have "squeeze_loop perm S' n' = Some (with_block (snd (squeeze_bytes perm r n' (block_of S'))) S',
        fst (squeeze_bytes perm r n' (block_of S')))"
      using less(1) unfolding squeeze_turn_def by blast
    then show ?thesis using turn by (simp only: squeeze_turn_def Option.bind.simps prod.case) simp
  qed
qed

section \<open>The operations\<close>

definition absorbed :: "nat \<Rightarrow> bytes \<Rightarrow> sponge \<Rightarrow> bool" where
  "absorbed r msg S \<longleftrightarrow> absorbing r S \<and> block_of S = fold (absorb_byte perm r) msg (replicate 200 0, 0)"

definition squeezed :: "nat \<Rightarrow> bytes \<Rightarrow> nat \<Rightarrow> sponge \<Rightarrow> bool" where
  "squeezed r st k S \<longleftrightarrow> squeezing r S \<and> block_of S = snd (squeeze_bytes perm r k (st, 0))"

lemma block_of_simp: "k_state S = fst (block_of S)" "unat (k_io S) = snd (block_of S)"
  by (simp_all add: block_of_def)

lemma absorb_step:
  assumes "absorbed r msg S" "length d < 2 ^ 32 - 200"
  shows "\<exists>T. SpongeAbsorb perm S d = Some (T, 0) \<and> absorbed r (msg @ d) T"
proof -
  have S: "absorbing r S" "\<not> k_squeezing S" "unat (k_io S) < r" "r \<le> 200" "length (k_state S) = 200"
    using assms(1) by (simp_all add: absorbed_def absorbing_def)
  let ?p = "fold (absorb_byte perm r) d (block_of S)"
  have keep: "length (fst ?p) = 200" "snd ?p < r" using S absorb_keeps by (simp_all add: block_of_def)
  then have "absorbing r (with_block ?p S)"
    using S(1,4) by (simp add: absorbing_def with_block_def rateInBytes_def unat_of_nat_small)
  then have "absorbed r (msg @ d) (with_block ?p S)"
    using assms(1) S(4) keep by (simp add: absorbed_def block_of_with_block)
  moreover have "SpongeAbsorb perm S d = Some (with_block ?p S, 0)"
    using absorb_loop_ok [OF S(1), of d] assms(2) S(2-4) by (simp add: SpongeAbsorb_def)
  ultimately show ?thesis by blast
qed

lemma last_step:
  assumes "absorbed r msg S" "suffix \<noteq> 0" "st = fst (fold (absorb_byte perm r) (msg @ sponge_padding r (unat (k_io S)) suffix) (replicate 200 0, 0))"
  shows "\<exists>T. SpongeAbsorbLastFewBits perm S suffix = Some (T, 0) \<and> squeezed r st 0 T"
proof -
  have S: "rateInBytes S = of_nat r" "0 < r" "r \<le> 200" "length (k_state S) = 200" "unat (k_io S) < r" "\<not> k_squeezing S"
    "block_of S = fold (absorb_byte perm r) msg (replicate 200 0, 0)"
    using assms(1) by (simp_all add: absorbed_def absorbing_def)
  have st: "st = fst (fold (absorb_byte perm r) (sponge_padding r (unat (k_io S)) suffix) (block_of S))"
    using assms(3) S(7) by simp
  have "length st = 200" using absorb_keeps S(4,5) by (simp add: st block_of_def)
  moreover have "SpongeAbsorbLastFewBits perm S suffix = Some (S\<lparr>k_state := st, k_io := 0, k_squeezing := True\<rparr>, 0)"
    using pad_and_permute_ok(1) [OF S(2-5), of suffix] S(1,6) assms(2)
    by (simp add: SpongeAbsorbLastFewBits_def st block_of_def)
  ultimately show ?thesis using S(1-3) by (simp add: squeezed_def squeezing_def rateInBytes_def block_of_def)
qed

lemma squeeze_keeps:
  assumes "length (fst p) = 200" "snd p \<le> r" "0 < r"
  shows "length (fst (snd (squeeze_bytes perm r n p))) = 200 \<and> snd (snd (squeeze_bytes perm r n p)) \<le> r"
  using assms
proof (induction n arbitrary: p)
  case (Suc n)
  obtain st io where p: "(if snd p = r then (perm (fst p), 0) else p) = (st, io)" by (cases "if snd p = r then (perm (fst p), 0) else p")
  then have "length st = 200" "io < r" using Suc.prems length_perm by (auto split: if_splits)
  then show ?case using Suc.IH [of "(st, Suc io)"] Suc.prems(3) by (simp add: p split_beta del: split_paired_All)
qed simp

lemma squeeze_step:
  assumes "squeezed r st k S" "n < 2 ^ 32 - 200"
  shows "\<exists>T. SpongeSqueeze perm S n = Some (T, drop k (fst (squeeze_bytes perm r (k + n) (st, 0)))) \<and> squeezed r st (k + n) T"
proof -
  have S: "squeezing r S" "k_squeezing S" "unat (k_io S) \<le> r" "0 < r" "r \<le> 200" "length (k_state S) = 200"
    "block_of S = snd (squeeze_bytes perm r k (st, 0))"
    using assms(1) by (simp_all add: squeezed_def squeezing_def)
  let ?q = "squeeze_bytes perm r n (block_of S)"
  have len: "length (fst (squeeze_bytes perm r m p)) = m" for m p by (induction m arbitrary: p) (simp_all add: split_beta)
  have app: "squeeze_bytes perm r (k + n) (st, 0) = (fst (squeeze_bytes perm r k (st, 0)) @ fst ?q, snd ?q)"
    by (simp add: squeeze_append S(7))
  have keep: "length (fst (snd ?q)) = 200" "snd (snd ?q) \<le> r" using squeeze_keeps S(3,4,6) by (simp_all add: block_of_def)
  then have "squeezing r (with_block (snd ?q) S)"
    using S(1,5) by (simp add: squeezing_def with_block_def rateInBytes_def unat_of_nat_small)
  then have "squeezed r st (k + n) (with_block (snd ?q) S)"
    using S(5) keep app by (simp add: squeezed_def block_of_with_block)
  moreover have "SpongeSqueeze perm S n = Some (with_block (snd ?q) S, fst ?q)"
    using squeeze_loop_ok [OF S(1), of n] assms(2) S(2,3,5) by (simp add: SpongeSqueeze_def)
  ultimately show ?thesis using app len by auto
qed

section \<open>The reference definition\<close>

lemma absorb_position: "0 < r \<Longrightarrow> io < r \<Longrightarrow> snd (fold (absorb_byte perm r) d (st, io)) = (io + length d) mod r"
proof (induction d arbitrary: st io)
  case (Cons b d)
  have "length d mod r = Suc (io + length d) mod r" if "Suc io = r" using that mod_add_self1 [of r "length d"] by (metis add_Suc)
  with Cons show ?case by (cases "Suc io = r") (simp_all add: absorb_byte_def Let_def)
qed simp

lemma absorb_chunks:
  assumes "0 < r" "r \<le> 200" "length st = 200" "r dvd length d"
  shows "fold (absorb_byte perm r) d (st, 0) = (foldl (\<lambda>st b. perm (xor_block st b)) st (chunks r d), 0)"
  using assms(3,4)
proof (induction d arbitrary: st rule: length_induct)
  case (1 d)
  show ?case
  proof (cases d)
    case (Cons x xs)
    then have r: "r \<le> length d" using 1(3) assms(1) dvd_imp_le by blast
    then have "drop r d \<noteq> d" "length (drop r d) < length d" "r dvd length (drop r d)" using assms(1) 1(3) Cons
      by (auto dest: arg_cong [of _ _ length])
    then have "fold (absorb_byte perm r) (drop r d) (perm (xor_block st (take r d)), 0)
        = (foldl (\<lambda>st b. perm (xor_block st b)) (perm (xor_block st (take r d))) (chunks r (drop r d)), 0)"
      using 1(1) length_perm by blast
    moreover have "fold (absorb_byte perm r) (take r d) (st, 0) = (perm (xor_block st (take r d)), 0)"
      using r assms(1,2) 1(2) absorb_full [of 0 "take r d" r perm st] by (simp add: adds_xor_block) (metis Cons list.discI)
    moreover have "chunks r d = take r d # chunks r (drop r d)" using Cons assms(1) by (simp add: drop_Cons')
    ultimately show ?thesis using fold_take_drop [of "absorb_byte perm r" d "(st, 0)" r] by simp
  qed simp
qed

lemma squeeze_closed:
  assumes "0 < r" "io \<le> r"
  shows "fst (squeeze_bytes perm r n (st, io)) = map (\<lambda>k. (perm ^^ ((io + k) div r)) st ! ((io + k) mod r)) [0..<n]"
  using assms(2)
proof (induction n arbitrary: st io)
  case (Suc n)
  have upt: "[0..<Suc n] = 0 # map Suc [0..<n]" by (simp only: upt_conv_Cons zero_less_Suc map_Suc_upt)
  show ?case
  proof (cases "io = r")
    case True
    have d: "Suc (r + k) div r = Suc (Suc k div r)" and m: "Suc (r + k) mod r = Suc k mod r" for k
      using assms(1) div_add_self1 [of r "Suc k"] mod_add_self1 [of r "Suc k"] by simp_all
    have "(perm ^^ (Suc k div r)) (perm st) = (perm ^^ (Suc (r + k) div r)) st" for k
      by (simp only: d funpow_Suc_right comp_apply)
    then show ?thesis
      using m True assms(1) Suc.IH [of "Suc 0" "perm st"] by (simp add: split_beta upt comp_def del: upt_Suc)
  next
    case False
    then show ?thesis using Suc.IH [of "Suc io" st] Suc.prems by (simp add: split_beta upt comp_def del: upt_Suc)
  qed
qed simp

lemma padding_fills:
  assumes "0 < r"
  shows "r dvd length msg + length (sponge_padding r (length msg mod r) suffix)"
proof -
  let ?io = "length msg mod r"
  have io: "?io < r" using assms by simp
  have "r dvd ?io + length (sponge_padding r ?io suffix)"
  proof (cases "Suc ?io < r")
    case True
    then have "?io + length (sponge_padding r ?io suffix) = r" by (simp add: sponge_padding_def)
    then show ?thesis by simp
  next
    case False
    then have "?io + length (sponge_padding r ?io suffix) = r \<or> ?io + length (sponge_padding r ?io suffix) = r + r"
      using io by (auto simp: sponge_padding_def)
    then show ?thesis by auto
  qed
  then show ?thesis by (metis dvd_eq_mod_eq_0 mod_add_left_eq)
qed

lemma sponge_spec_bytes:
  assumes "0 < r" "r \<le> 200"
    and "st = fst (fold (absorb_byte perm r) (msg @ sponge_padding r (length msg mod r) suffix) (replicate 200 0, 0))"
  shows "sponge_spec perm r msg suffix n = fst (squeeze_bytes perm r n (st, 0))"
proof -
  have "st = foldl (\<lambda>st b. perm (xor_block st b)) (replicate 200 0) (chunks r (msg @ sponge_padding r (length msg mod r) suffix))"
    using assms absorb_chunks [of r "replicate 200 0" "msg @ sponge_padding r (length msg mod r) suffix"] padding_fills [of r msg suffix]
    by (simp del: fold_append)
  then show ?thesis using assms(1) squeeze_closed [of r 0 n st] by (simp add: sponge_spec_def Let_def)
qed

section \<open>Streaming and one-shot use\<close>

lemma initialised:
  assumes "\<not> bad_rate rate capacity" "r = unat rate div 8"
  shows "SpongeInitialize rate capacity S = (fst (SpongeInitialize rate capacity S), 0)"
    and "absorbed r [] (fst (SpongeInitialize rate capacity S))"
  using assms rate_bytes [OF assms(1)]
  by (simp_all add: SpongeInitialize_def absorbed_def absorbing_def rateInBytes_def block_of_def KeccakP1600_Initialize_def)

lemma absorbed_io: "absorbed r msg S \<Longrightarrow> unat (k_io S) = length msg mod r"
  using absorb_position [of r 0 msg "replicate 200 0"] by (simp add: absorbed_def absorbing_def block_of_def prod_eq_iff)

lemma absorb_all:
  assumes "absorbed r msg S" "\<forall>d\<in>set ds. length d < 2 ^ 32 - 200"
  shows "\<exists>T. fold_opt (\<lambda>d S. map_option fst (SpongeAbsorb perm S d)) ds S = Some T \<and> absorbed r (msg @ concat ds) T"
  using assms
proof (induction ds arbitrary: msg S)
  case (Cons d ds)
  then obtain T where T: "SpongeAbsorb perm S d = Some (T, 0)" "absorbed r (msg @ d) T" using absorb_step [of r msg S d] by auto
  from Cons.IH [OF this(2)] Cons.prems(2) T(1) show ?case by auto
qed simp

end

text \<open>Several absorbing calls, the suffix, several squeezing calls.\<close>

fun squeeze_all :: "(bytes \<Rightarrow> bytes) \<Rightarrow> nat list \<Rightarrow> sponge \<Rightarrow> bytes option" where
  "squeeze_all perm [] S = Some []"
| "squeeze_all perm (n # ns) S =
     do { (S, out) \<leftarrow> SpongeSqueeze perm S n; outs \<leftarrow> squeeze_all perm ns S; Some (out @ outs) }"

definition sponge_stream :: "(bytes \<Rightarrow> bytes) \<Rightarrow> sponge \<Rightarrow> bytes list \<Rightarrow> u8 \<Rightarrow> nat list \<Rightarrow> bytes option" where
  "sponge_stream perm S ds suffix ns =
     do { S \<leftarrow> fold_opt (\<lambda>d S. map_option fst (SpongeAbsorb perm S d)) ds S;
          (S, _) \<leftarrow> SpongeAbsorbLastFewBits perm S suffix;
          squeeze_all perm ns S }"

context snp_permutation begin

text \<open>The end of the absorbing phase and the first bytes squeezed.\<close>

lemma finish_step:
  assumes "absorbed r msg S" "suffix \<noteq> 0" "n < 2 ^ 32 - 200"
  shows "\<exists>T U. SpongeAbsorbLastFewBits perm S suffix = Some (T, 0)
    \<and> SpongeSqueeze perm T n = Some (U, sponge_spec perm r msg suffix n)"
proof -
  let ?st = "fst (fold (absorb_byte perm r) (msg @ sponge_padding r (length msg mod r) suffix) (replicate 200 0, 0))"
  obtain T where T: "SpongeAbsorbLastFewBits perm S suffix = Some (T, 0)" "squeezed r ?st 0 T"
    using last_step [OF assms(1,2) refl] absorbed_io [OF assms(1)] by auto
  have "0 < r" "r \<le> 200" using assms(1) by (simp_all add: absorbed_def absorbing_def)
  then show ?thesis using T(1) squeeze_step [OF T(2) assms(3)] sponge_spec_bytes [of r ?st msg suffix n] by auto
qed

lemma squeeze_all_ok:
  assumes "squeezed r st k S" "\<forall>n\<in>set ns. n < 2 ^ 32 - 200"
  shows "squeeze_all perm ns S = Some (drop k (fst (squeeze_bytes perm r (k + sum_list ns) (st, 0))))"
  using assms
proof (induction ns arbitrary: k S)
  case Nil
  have "length (fst (squeeze_bytes perm r m p)) = m" for m p by (induction m arbitrary: p) (simp_all add: split_beta)
  then show ?case by simp
next
  case (Cons n ns)
  then obtain T where T: "SpongeSqueeze perm S n = Some (T, drop k (fst (squeeze_bytes perm r (k + n) (st, 0))))"
    "squeezed r st (k + n) T" using squeeze_step [of r st k S n] by auto
  have len: "length (fst (squeeze_bytes perm r m p)) = m" for m p by (induction m arbitrary: p) (simp_all add: split_beta)
  have "squeeze_all perm ns T = Some (drop (k + n) (fst (squeeze_bytes perm r (k + n + sum_list ns) (st, 0))))"
    using Cons.IH [OF T(2)] Cons.prems(2) by simp
  moreover have "fst (squeeze_bytes perm r (k + n + sum_list ns) (st, 0))
      = fst (squeeze_bytes perm r (k + n) (st, 0)) @ fst (squeeze_bytes perm r (sum_list ns) (snd (squeeze_bytes perm r (k + n) (st, 0))))"
    using squeeze_append [of r "k + n" "sum_list ns"] by simp
  ultimately show ?case using T(1) by (simp add: len add.assoc)
qed

lemma stream_ok:
  assumes "absorbed r [] S" "suffix \<noteq> 0" "\<forall>d\<in>set ds. length d < 2 ^ 32 - 200" "\<forall>n\<in>set ns. n < 2 ^ 32 - 200"
  shows "sponge_stream perm S ds suffix ns = Some (sponge_spec perm r (concat ds) suffix (sum_list ns))"
proof -
  obtain T where T: "fold_opt (\<lambda>d S. map_option fst (SpongeAbsorb perm S d)) ds S = Some T" "absorbed r (concat ds) T"
    using absorb_all [OF assms(1,3)] by auto
  let ?st = "fst (fold (absorb_byte perm r) (concat ds @ sponge_padding r (length (concat ds) mod r) suffix) (replicate 200 0, 0))"
  obtain U where U: "SpongeAbsorbLastFewBits perm T suffix = Some (U, 0)" "squeezed r ?st 0 U"
    using last_step [OF T(2) assms(2) refl] absorbed_io [OF T(2)] by auto
  have "0 < r" "r \<le> 200" using assms(1) by (simp_all add: absorbed_def absorbing_def)
  then show ?thesis
    using T(1) U(1) squeeze_all_ok [OF U(2) assms(4)] sponge_spec_bytes [of r ?st "concat ds" suffix]
    by (simp add: sponge_stream_def)
qed

lemma output_blocks_ok:
  assumes "0 < r" "r \<le> 200" "length st = 200"
  shows "output_blocks perm r st n = Some (fst (squeeze_bytes perm r n (st, 0)))"
  using assms(3)
proof (induction n arbitrary: st rule: less_induct)
  case (less n)
  show ?case
  proof (cases "r < n")
    case True
    have "squeeze_bytes perm r r (st, 0) = (take r st, st, r)" using assms less(2) by (simp add: squeeze_within)
    then have "fst (squeeze_bytes perm r n (st, 0)) = take r st @ fst (squeeze_bytes perm r (n - r) (perm st, 0))"
      using squeeze_append [of r r "n - r" "(st, 0)"] True assms(1) by (simp add: squeeze_next_block)
    then show ?thesis
      using True assms less(1) [of "n - r" "perm st"] length_perm
      by (simp add: output_blocks.simps [of perm r st n] KeccakP1600_ExtractBytes_def)
  next
    case False
    then show ?thesis using assms(2) less(2)
      by (simp add: output_blocks.simps [of perm r st n] KeccakP1600_ExtractBytes_def squeeze_within)
  qed
qed

lemma one_shot_ok:
  assumes "\<not> bad_rate rate capacity" "suffix \<noteq> 0"
  shows "Sponge perm rate capacity msg suffix n = Some (Inr (sponge_spec perm (unat rate div 8) msg suffix n))"
proof -
  define r where "r = unat rate div 8"
  define d where "d = drop (length msg div r * r) msg"
  have r: "rate div 8 = of_nat r" "0 < r" "r \<le> 200" using rate_bytes [OF assms(1)] by (simp_all add: r_def)
  then have ru: "unat (of_nat r :: u32) = r" by (simp add: unat_of_nat_small)
  obtain st where st: "absorb_blocks perm r KeccakP1600_Initialize msg = Some (st, d)" "length st = 200"
    "fold (absorb_byte perm r) (take (length msg div r * r) msg) (replicate 200 0, 0) = (st, 0)"
    using absorb_blocks_ok [OF r(2,3), of "replicate 200 0" msg] by (auto simp: d_def KeccakP1600_Initialize_def)
  have len: "length d = length msg mod r" unfolding d_def length_drop by (rule minus_div_mult_eq_mod)
  then have small: "length d < r" using r(2) by simp
  then have io: "unat (of_nat (length d) :: u32) = length d" using r(3) by (intro unat_of_nat_small) simp
  have add: "KeccakP1600_AddBytes st d 0 (length d) = Some (adds 0 d st)"
    using small r(3) AddBytes_adds [of 0 "length d" d st] by simp
  define q where "q = fold (absorb_byte perm r) (sponge_padding r (length d) suffix) (adds 0 d st, length d)"
  have rest: "fold (absorb_byte perm r) (msg @ sponge_padding r (length d) suffix) (replicate 200 0, 0) = q"
    using fold_take_drop [of "absorb_byte perm r" msg "(replicate 200 0, 0)" "length msg div r * r"] st(3)
      absorb_partial [of 0 d r perm st] small by (simp add: d_def [symmetric] q_def)
  have pad: "pad_and_permute perm (of_nat r) (adds 0 d st) suffix (of_nat (length d)) = Some (fst q)"
    using pad_and_permute_ok(1) [OF r(2,3), of "adds 0 d st" "of_nat (length d)" suffix] st(2) small unfolding io q_def by simp
  have "length (fst q) = 200" using absorb_keeps [of "(adds 0 d st, length d)" r] st(2) small by (simp add: q_def)
  then have out: "output_blocks perm r (fst q) n = Some (fst (squeeze_bytes perm r n (fst q, 0)))"
    using r by (intro output_blocks_ok)
  have "sponge_spec perm r msg suffix n = fst (squeeze_bytes perm r n (fst q, 0))"
    using rest len by (intro sponge_spec_bytes [OF r(2,3)]) simp
  then show ?thesis
    unfolding r_def [symmetric]
    by (simp only: Sponge_def assms if_False Let_def ru st(1) add pad out r(1) Option.bind.simps prod.case)
qed

end

interpretation keccak12: snp_permutation KeccakP1600_Permute_12rounds
  by unfold_locales (simp add: Permute_rounds)

interpretation keccak: snp_permutation "KeccakP1600_Permute_Nrounds k" for k
  by unfold_locales (rule length_Permute)

section \<open>A loop that does not end\<close>

lemma partialBlock_truncated:
  assumes "2 ^ 32 dvd n" "k_io S \<le> rateInBytes S"
  shows "partialBlock S n = 0"
proof -
  have "(of_nat n :: u32) = 0" using assms(1) by (simp add: word_unat_eq_iff unat_of_nat take_bit_eq_mod mod_eq_0_iff_dvd)
  moreover have "\<not> rateInBytes S < k_io S" using assms(2) by (rule leD)
  ultimately show ?thesis unfolding partialBlock_def Let_def by (simp only: add_0 if_False)
qed

lemma absorb_loop_stuck:
  assumes "absorb_loop perm S d = Some T"
  shows "\<not> (d \<noteq> [] \<and> 2 ^ 32 dvd length d \<and> 0 < k_io S \<and> k_io S < rateInBytes S \<and> unat (k_io S) < 200)"
proof (rule absorb_loop.raw_induct [OF _ assms])
  fix rec perm S d T
  assume IH: "\<And>perm S d T. rec perm S d = Some T \<Longrightarrow> \<not> (d \<noteq> [] \<and> 2 ^ 32 dvd length d \<and> 0 < k_io S \<and> k_io S < rateInBytes S \<and> unat (k_io S) < 200)"
    and turn: "(if d = [] then Some S
      else if k_io S = 0 \<and> unat (rateInBytes S) \<le> length d then
        do { (st, d) \<leftarrow> absorb_blocks perm (unat (rateInBytes S)) (k_state S) d; rec perm (S\<lparr>k_state := st\<rparr>) d }
      else
        let pb = partialBlock S (length d) in
        do { st \<leftarrow> KeccakP1600_AddBytes (k_state S) d (unat (k_io S)) (unat pb);
             rec perm
               (if k_io S + pb = rateInBytes S then S\<lparr>k_state := perm st, k_io := 0\<rparr>
                else S\<lparr>k_state := st, k_io := k_io S + pb\<rparr>)
               (drop (unat pb) d) }) = Some T"
  show "\<not> (d \<noteq> [] \<and> 2 ^ 32 dvd length d \<and> 0 < k_io S \<and> k_io S < rateInBytes S \<and> unat (k_io S) < 200)"
  proof
    assume stuck: "d \<noteq> [] \<and> 2 ^ 32 dvd length d \<and> 0 < k_io S \<and> k_io S < rateInBytes S \<and> unat (k_io S) < 200"
    then have "partialBlock S (length d) = 0" by (intro partialBlock_truncated) (simp_all add: order.strict_implies_order)
    moreover have "KeccakP1600_AddBytes (k_state S) d (unat (k_io S)) 0 = Some (k_state S)"
      using stuck by (simp add: KeccakP1600_AddBytes_def)
    moreover have "k_io S \<noteq> 0" "k_io S \<noteq> rateInBytes S" using stuck by auto
    ultimately have "rec perm S d = Some T" using turn stuck by (simp add: Let_def)
    then show False using IH stuck by blast
  qed
qed

text \<open>C39: With a block begun, a multiple of four gigabytes is never absorbed.\<close>

theorem sponge_absorb_stuck:
  assumes "\<not> bad_rate rate capacity" "d \<noteq> []" "length d < unat rate div 8" "e \<noteq> []" "2 ^ 32 dvd length e"
    and "SpongeAbsorb (KeccakP1600_Permute_Nrounds k) (fst (SpongeInitialize rate capacity S)) d = Some (T, 0)"
  shows "SpongeAbsorb (KeccakP1600_Permute_Nrounds k) T e = None"
proof -
  note r = rate_bytes [OF assms(1)]
  obtain T' where "SpongeAbsorb (KeccakP1600_Permute_Nrounds k) (fst (SpongeInitialize rate capacity S)) d = Some (T', 0)"
    "keccak.absorbed k (unat rate div 8) ([] @ d) T'"
    using keccak.absorb_step [OF keccak.initialised(2) [OF assms(1) refl], of d k S] assms(3) r(3) by auto
  then have T: "keccak.absorbed k (unat rate div 8) d T" using assms(6) by simp
  then have "unat (k_io T) = length d" using keccak.absorbed_io [OF T] assms(3) by simp
  moreover have "rateInBytes T = of_nat (unat rate div 8)" "\<not> k_squeezing T" using T
    by (simp_all add: keccak.absorbed_def absorbing_def)
  ultimately show ?thesis
    using assms(2-5) r(3) absorb_loop_stuck [of "KeccakP1600_Permute_Nrounds k" T e]
    by (cases "absorb_loop (KeccakP1600_Permute_Nrounds k) T e")
      (auto simp: SpongeAbsorb_def word_less_nat_alt unat_of_nat_small)
qed

text \<open>C24: For pieces of less than \<open>2^32 - 200\<close> bytes each, as many as there are, absorbing and squeezing in pieces, the single call
  on the whole and the reference definition agree.  Longer pieces there are for which absorbing does not end (C39).\<close>

theorem sponge_calls_agree:
  assumes "\<not> bad_rate rate capacity" "suffix \<noteq> 0"
    and "\<forall>d\<in>set ds. length d < 2 ^ 32 - 200" "\<forall>n\<in>set ns. n < 2 ^ 32 - 200"
  shows "sponge_stream (KeccakP1600_Permute_Nrounds k) (fst (SpongeInitialize rate capacity S)) ds suffix ns
      = Some (sponge_spec (KeccakP1600_Permute_Nrounds k) (unat rate div 8) (concat ds) suffix (sum_list ns))
    \<and> Sponge (KeccakP1600_Permute_Nrounds k) rate capacity (concat ds) suffix (sum_list ns)
      = Some (Inr (sponge_spec (KeccakP1600_Permute_Nrounds k) (unat rate div 8) (concat ds) suffix (sum_list ns)))"
  using keccak.stream_ok [OF keccak.initialised(2) [OF assms(1) refl] assms(2-4)] keccak.one_shot_ok [OF assms(1,2)] by simp_all

definition zero_sponge :: sponge where
  "zero_sponge = \<lparr>k_state = [], k_rate = 0, k_io = 0, k_squeezing = False\<rparr>"

lemma sponge_calls_agree_witness:
  "sponge_stream (KeccakP1600_Permute_Nrounds 12) (fst (SpongeInitialize 1344 256 zero_sponge)) [[1, 2], [], [3]] 7 [2, 30]
      = Some (sponge_spec (KeccakP1600_Permute_Nrounds 12) 168 [1, 2, 3] 7 32)
   \<and> Sponge (KeccakP1600_Permute_Nrounds 12) 1344 256 [1, 2, 3] 7 32
      = Some (Inr (sponge_spec (KeccakP1600_Permute_Nrounds 12) 168 [1, 2, 3] 7 32))"
  using sponge_calls_agree [of 1344 256 7 "[[1, 2], [], [3]]" "[2, 30]" 12 zero_sponge] by (simp add: bad_rate_def)

lemma sponge_absorb_stuck_witness:
  "\<exists>T. SpongeAbsorb (KeccakP1600_Permute_Nrounds 12) (fst (SpongeInitialize 1344 256 zero_sponge)) [1] = Some (T, 0)
     \<and> SpongeAbsorb (KeccakP1600_Permute_Nrounds 12) T (replicate (2 ^ 32) 0) = None"
proof -
  have rate: "\<not> bad_rate 1344 256" by (simp add: bad_rate_def)
  obtain T where T: "SpongeAbsorb (KeccakP1600_Permute_Nrounds 12) (fst (SpongeInitialize 1344 256 zero_sponge)) [1] = Some (T, 0)"
    using keccak.absorb_step [OF keccak.initialised(2) [OF rate refl], of "[1]" 12 zero_sponge] by auto
  have "SpongeAbsorb (KeccakP1600_Permute_Nrounds 12) T (replicate (2 ^ 32) 0) = None"
    by (rule sponge_absorb_stuck [OF rate _ _ _ _ T]) simp_all
  then show ?thesis using T by blast
qed

end
