(* ===== verification/KangarooTwelve.thy ===== *)
theory KangarooTwelve
  imports Sponge
begin

text \<open>
  \<open>panthera/KangarooTwelve.c\<close>, the tree hash over the sponge with 12 rounds: the input in chunks of 8192 bytes, the first
  absorbed by the final node, every other one by a leaf whose 32 bytes the final node absorbs.  An instance is a value; the
  nodes of one that has not been initialised hold anything.  The parallel loops are excluded by the build
  (no \<open>KeccakP1600timesN\<close> is implemented).
\<close>

datatype KCP_Phases = NOT_INITIALIZED | ABSORBING | FINAL | SQUEEZING

record k12 =
  kt_queueNode :: sponge
  kt_finalNode :: sponge
  kt_fixedOutputLength :: nat
  kt_blockNumber :: u64
  kt_queueAbsorbedLen :: nat
  kt_phase :: KCP_Phases

abbreviation (input) "chunkSize \<equiv> (8192 :: nat)"
abbreviation (input) "suffixLeaf \<equiv> (0x0B :: u8)"
abbreviation (input) "capacityInBytes \<equiv> (32 :: nat)"

abbreviation "perm12 \<equiv> KeccakP1600_Permute_12rounds"

section \<open>Lengths\<close>

text \<open>\<open>for (v = value, n = 0; v && n < sizeof(size_t); ++n, v >>= 8)\<close>, k the turns left.\<close>

primrec byte_count :: "nat \<Rightarrow> u64 \<Rightarrow> nat" where
  "byte_count 0 v = 0"
| "byte_count (Suc k) v = (if v = 0 then 0 else Suc (byte_count k (drop_bit 8 v)))"

definition right_encode :: "u64 \<Rightarrow> bytes" where
  "right_encode v =
     (let n = byte_count 8 v in map (\<lambda>i. ucast (drop_bit (8 * (n - i)) v)) [1..<Suc n] @ [of_nat n])"

section \<open>Initialisation\<close>

definition KangarooTwelve_Initialize :: "k12 \<Rightarrow> nat \<Rightarrow> k12 \<times> int" where
  "KangarooTwelve_Initialize kt outputLen =
     (let (node, e) = SpongeInitialize 1344 256 (kt_finalNode kt)
      in (kt\<lparr>kt_fixedOutputLength := outputLen, kt_queueAbsorbedLen := 0, kt_blockNumber := 0, kt_phase := ABSORBING,
             kt_finalNode := node\<rparr>, e))"

section \<open>Absorbing\<close>

definition absorb_final :: "k12 \<Rightarrow> bytes \<Rightarrow> (k12 \<times> int) option" where
  "absorb_final kt d = do { (node, e) \<leftarrow> SpongeAbsorb perm12 (kt_finalNode kt) d; Some (kt\<lparr>kt_finalNode := node\<rparr>, e) }"

definition absorb_queue :: "k12 \<Rightarrow> bytes \<Rightarrow> (k12 \<times> int) option" where
  "absorb_queue kt d = do { (node, e) \<leftarrow> SpongeAbsorb perm12 (kt_queueNode kt) d; Some (kt\<lparr>kt_queueNode := node\<rparr>, e) }"

text \<open>Ending a leaf: its suffix, its chaining value, which the final node absorbs; the code has this three times.\<close>

definition finish_leaf :: "k12 \<Rightarrow> (k12 \<times> int) option" where
  "finish_leaf kt =
     do { (node, e) \<leftarrow> SpongeAbsorbLastFewBits perm12 (kt_queueNode kt) suffixLeaf;
          if e \<noteq> 0 then Some (kt\<lparr>kt_queueNode := node\<rparr>, 1)
          else do { (node, intermediate) \<leftarrow> SpongeSqueeze perm12 node capacityInBytes;
                    absorb_final (kt\<lparr>kt_queueNode := node\<rparr>) intermediate } }"

text \<open>The first chunk, absorbed by the final node; the rest of the input is returned.\<close>

definition update_first :: "k12 \<Rightarrow> bytes \<Rightarrow> (k12 \<times> bytes \<times> int) option" where
  "update_first kt input =
     (let len = (if length input < chunkSize - kt_queueAbsorbedLen kt then length input else chunkSize - kt_queueAbsorbedLen kt) in
      do { (kt, e) \<leftarrow> absorb_final kt (take len input);
           if e \<noteq> 0 then Some (kt, input, 1)
           else
             let input = drop len input;
                 kt = kt\<lparr>kt_queueAbsorbedLen := kt_queueAbsorbedLen kt + len\<rparr>
             in if kt_queueAbsorbedLen kt = chunkSize \<and> input \<noteq> [] then
                  do { (kt, e) \<leftarrow> absorb_final (kt\<lparr>kt_queueAbsorbedLen := 0, kt_blockNumber := 1\<rparr>) [0x03];
                       if e \<noteq> 0 then Some (kt, input, 1)
                       else
                         let node = kt_finalNode kt
                         in Some (kt\<lparr>kt_finalNode := node\<lparr>k_io := (k_io node + 7) AND NOT 7\<rparr>\<rparr>, input, 0) }
                else Some (kt, input, 0) })"

text \<open>A leaf begun by an earlier call.\<close>

definition update_queue :: "k12 \<Rightarrow> bytes \<Rightarrow> (k12 \<times> bytes \<times> int) option" where
  "update_queue kt input =
     (let len = (if length input < chunkSize - kt_queueAbsorbedLen kt then length input else chunkSize - kt_queueAbsorbedLen kt) in
      do { (kt, e) \<leftarrow> absorb_queue kt (take len input);
           if e \<noteq> 0 then Some (kt, input, 1)
           else
             let input = drop len input;
                 kt = kt\<lparr>kt_queueAbsorbedLen := kt_queueAbsorbedLen kt + len\<rparr>
             in if kt_queueAbsorbedLen kt = chunkSize then
                  do { (kt, e) \<leftarrow> finish_leaf (kt\<lparr>kt_queueAbsorbedLen := 0, kt_blockNumber := kt_blockNumber kt + 1\<rparr>);
                       Some (kt, input, if e \<noteq> 0 then 1 else 0) }
                else Some (kt, input, 0) })"

text \<open>\<open>while (inLen > 0)\<close>: a leaf for each further chunk.\<close>

partial_function (option) update_leaves :: "k12 \<Rightarrow> bytes \<Rightarrow> (k12 \<times> int) option" where
  [code]: "update_leaves kt input =
     (if input = [] then Some (kt, 0)
      else
        let len = (if length input < chunkSize then length input else chunkSize);
            (node, e) = SpongeInitialize 1344 256 (kt_queueNode kt);
            kt = kt\<lparr>kt_queueNode := node\<rparr>
        in if e \<noteq> 0 then Some (kt, 1)
           else do { (kt, e) \<leftarrow> absorb_queue kt (take len input);
                     if e \<noteq> 0 then Some (kt, 1)
                     else if len = chunkSize then
                       do { (kt, e) \<leftarrow> finish_leaf (kt\<lparr>kt_blockNumber := kt_blockNumber kt + 1\<rparr>);
                            if e \<noteq> 0 then Some (kt, 1) else update_leaves kt (drop len input) }
                     else update_leaves (kt\<lparr>kt_queueAbsorbedLen := len\<rparr>) (drop len input) })"

definition KangarooTwelve_Update :: "k12 \<Rightarrow> bytes \<Rightarrow> (k12 \<times> int) option" where
  "KangarooTwelve_Update kt input =
     (if kt_phase kt \<noteq> ABSORBING then Some (kt, 1)
      else do { (kt, input, e) \<leftarrow>
                  (if kt_blockNumber kt = 0 then update_first kt input
                   else if kt_queueAbsorbedLen kt \<noteq> 0 then update_queue kt input
                   else Some (kt, input, 0));
                if e \<noteq> 0 then Some (kt, 1) else update_leaves kt input })"

section \<open>Output\<close>

text \<open>What the final node absorbs last, before its suffix, which is returned.\<close>

definition final_tail :: "k12 \<Rightarrow> (k12 \<times> u8 \<times> int) option" where
  "final_tail kt =
     (if kt_blockNumber kt = 0 then Some (kt, 0x07, 0)
      else do { (kt, e) \<leftarrow> (if kt_queueAbsorbedLen kt \<noteq> 0
                            then finish_leaf (kt\<lparr>kt_blockNumber := kt_blockNumber kt + 1\<rparr>) else Some (kt, 0));
                if e \<noteq> 0 then Some (kt, 0, 1)
                else
                  let kt = kt\<lparr>kt_blockNumber := kt_blockNumber kt - 1\<rparr>
                  in do { (kt, e) \<leftarrow> absorb_final kt (right_encode (kt_blockNumber kt) @ [0xFF, 0xFF]);
                          Some (kt, 0x06, if e \<noteq> 0 then 1 else 0) } })"

definition KangarooTwelve_Final :: "k12 \<Rightarrow> bytes \<Rightarrow> (k12 \<times> int \<times> bytes) option" where
  "KangarooTwelve_Final kt customization =
     (if kt_phase kt \<noteq> ABSORBING then Some (kt, 1, [])
      else do { (kt, e) \<leftarrow> (if customization \<noteq> [] then KangarooTwelve_Update kt customization else Some (kt, 0));
                if e \<noteq> 0 then Some (kt, 1, [])
                else do { (kt, e) \<leftarrow> KangarooTwelve_Update kt (right_encode (of_nat (length customization)));
                if e \<noteq> 0 then Some (kt, 1, [])
                else do { (kt, padding, e) \<leftarrow> final_tail kt;
                if e \<noteq> 0 then Some (kt, 1, [])
                else do { (node, e) \<leftarrow> SpongeAbsorbLastFewBits perm12 (kt_finalNode kt) padding;
                let kt = kt\<lparr>kt_finalNode := node\<rparr> in
                if e \<noteq> 0 then Some (kt, 1, [])
                else if kt_fixedOutputLength kt \<noteq> 0 then
                  do { (node, out) \<leftarrow> SpongeSqueeze perm12 node (kt_fixedOutputLength kt);
                       Some (kt\<lparr>kt_phase := FINAL, kt_finalNode := node\<rparr>, 0, out) }
                else Some (kt\<lparr>kt_phase := SQUEEZING\<rparr>, 0, []) } } } })"

definition KangarooTwelve_Squeeze :: "k12 \<Rightarrow> nat \<Rightarrow> (k12 \<times> int \<times> bytes) option" where
  "KangarooTwelve_Squeeze kt outputLen =
     (if kt_phase kt \<noteq> SQUEEZING then Some (kt, 1, [])
      else do { (node, out) \<leftarrow> SpongeSqueeze perm12 (kt_finalNode kt) outputLen;
                Some (kt\<lparr>kt_finalNode := node\<rparr>, 0, out) })"

text \<open>The instance lives on the stack; \<open>kt\<close> is what is there before.\<close>

definition KangarooTwelve :: "k12 \<Rightarrow> bytes \<Rightarrow> nat \<Rightarrow> bytes \<Rightarrow> (int \<times> bytes) option" where
  "KangarooTwelve kt input outLen customization =
     (if outLen = 0 then Some (1, [])
      else
        let (kt, e) = KangarooTwelve_Initialize kt outLen
        in if e \<noteq> 0 then Some (1, [])
           else do { (kt, e) \<leftarrow> KangarooTwelve_Update kt input;
                     if e \<noteq> 0 then Some (1, [])
                     else map_option snd (KangarooTwelve_Final kt customization) })"

end
