(* ===== verification/KangarooTwelve_Ok.thy ===== *)
theory KangarooTwelve_Ok
  imports KangarooTwelve Sponge_Ok
begin

text \<open>
  KangarooTwelve computes the tree hash of its definition, over everything it has been fed, in whatever pieces.  The proof
  follows an instance through its calls: \<open>in_first\<close> as long as the data fit the first chunk, \<open>in_tree\<close> after it.
\<close>

section \<open>The tree hash\<close>

definition sponge12 :: "bytes \<Rightarrow> u8 \<Rightarrow> nat \<Rightarrow> bytes" where
  "sponge12 msg suffix n = sponge_spec perm12 168 msg suffix n"

text \<open>Chunk i of the data, and the chaining value of a leaf.\<close>

definition chunk :: "bytes \<Rightarrow> nat \<Rightarrow> bytes" where
  "chunk d i = take 8192 (drop (8192 * i) d)"

definition chaining_value :: "bytes \<Rightarrow> nat \<Rightarrow> bytes" where
  "chaining_value d i = sponge12 (chunk d i) 0x0B 32"

text \<open>A length: its bytes, the highest first and none for 0, and their number.\<close>

fun big_endian :: "nat \<Rightarrow> bytes" where
  "big_endian n = (if n = 0 then [] else big_endian (n div 256) @ [of_nat (n mod 256)])"

declare big_endian.simps [simp del]

definition length_encode :: "nat \<Rightarrow> bytes" where
  "length_encode n = big_endian n @ [of_nat (length (big_endian n))]"

text \<open>What the final node absorbs of the chunks before chunk n.\<close>

definition node_input :: "bytes \<Rightarrow> nat \<Rightarrow> bytes" where
  "node_input d n = chunk d 0 @ [0x03, 0, 0, 0, 0, 0, 0, 0] @ concat (map (chaining_value d) [1..<n])"

definition k12_tree :: "bytes \<Rightarrow> nat \<Rightarrow> bytes" where
  "k12_tree d outLen =
     (if length d \<le> 8192 then sponge12 d 0x07 outLen
      else
        let n = (length d + 8191) div 8192
        in sponge12 (node_input d n @ length_encode (n - 1) @ [0xFF, 0xFF]) 0x06 outLen)"

definition k12_spec :: "bytes \<Rightarrow> bytes \<Rightarrow> nat \<Rightarrow> bytes" where
  "k12_spec input customization outLen = k12_tree (input @ customization @ length_encode (length customization)) outLen"

section \<open>Instances that have absorbed\<close>

abbreviation "node_absorbed \<equiv> keccak12.absorbed 168"

definition in_first :: "k12 \<Rightarrow> bytes \<Rightarrow> bool" where
  "in_first kt d \<longleftrightarrow> kt_phase kt = ABSORBING \<and> kt_blockNumber kt = 0 \<and> length d \<le> chunkSize
     \<and> kt_queueAbsorbedLen kt = length d \<and> node_absorbed d (kt_finalNode kt)"

definition in_tree :: "k12 \<Rightarrow> bytes \<Rightarrow> bool" where
  "in_tree kt d \<longleftrightarrow> kt_phase kt = ABSORBING \<and> chunkSize \<le> length d \<and> length d < 2 ^ 64
     \<and> unat (kt_blockNumber kt) = length d div chunkSize
     \<and> kt_queueAbsorbedLen kt = length d mod chunkSize
     \<and> (kt_queueAbsorbedLen kt \<noteq> 0 \<longrightarrow> node_absorbed (chunk d (length d div chunkSize)) (kt_queueNode kt))
     \<and> node_absorbed (node_input d (length d div chunkSize)) (kt_finalNode kt)"

lemma chunk_append:
  assumes "chunkSize * Suc i \<le> length d"
  shows "chunk (d @ e) i = chunk d i"
proof -
  have "chunkSize - (length d - chunkSize * i) = 0" "chunkSize * i - length d = 0" using assms by auto
  then show ?thesis unfolding chunk_def drop_append take_append by simp
qed

lemma chunk_last:
  assumes "length d mod chunkSize + length e \<le> chunkSize"
  shows "chunk (d @ e) (length d div chunkSize) = chunk d (length d div chunkSize) @ e"
proof -
  have "length (drop (chunkSize * (length d div chunkSize)) d) = length d mod chunkSize"
    by (simp only: length_drop minus_mult_div_eq_mod)
  moreover have "chunkSize * (length d div chunkSize) \<le> length d" by simp
  ultimately show ?thesis using assms unfolding chunk_def drop_append take_append by simp
qed

lemma node_input_append:
  assumes "chunkSize * n \<le> length d" "0 < n"
  shows "node_input (d @ e) n = node_input d n"
proof -
  have "chunkSize * Suc i \<le> length d" if "i < n" for i
    using that assms(1) mult_le_mono2 [of "Suc i" n chunkSize] by linarith
  then have same: "chunk (d @ e) i = chunk d i" if "i < n" for i using that chunk_append by blast
  then have "map (chaining_value (d @ e)) [1..<n] = map (chaining_value d) [1..<n]" by (simp add: chaining_value_def)
  then show ?thesis using same [OF assms(2)] by (simp only: node_input_def)
qed

lemma node_input_Suc: "0 < n \<Longrightarrow> node_input d (Suc n) = node_input d n @ chaining_value d n"
  by (simp add: node_input_def)

lemma length_sponge_spec [simp]: "length (sponge_spec p r m s n) = n"
  by (simp add: sponge_spec_def Let_def)

lemma length_chaining_value [simp]: "length (chaining_value d i) = 32"
  by (simp add: chaining_value_def sponge12_def)

section \<open>The nodes\<close>

lemma absorb_final_ok:
  assumes "node_absorbed m (kt_finalNode kt)" "length d < 2 ^ 32 - 200"
  shows "\<exists>node. absorb_final kt d = Some (kt\<lparr>kt_finalNode := node\<rparr>, 0) \<and> node_absorbed (m @ d) node"
  using keccak12.absorb_step [OF assms] by (auto simp: absorb_final_def)

lemma absorb_queue_ok:
  assumes "node_absorbed m (kt_queueNode kt)" "length d < 2 ^ 32 - 200"
  shows "\<exists>node. absorb_queue kt d = Some (kt\<lparr>kt_queueNode := node\<rparr>, 0) \<and> node_absorbed (m @ d) node"
  using keccak12.absorb_step [OF assms] by (auto simp: absorb_queue_def)

lemma finish_leaf_ok:
  assumes "node_absorbed leaf (kt_queueNode kt)" "node_absorbed m (kt_finalNode kt)"
  shows "\<exists>q f. finish_leaf kt = Some (kt\<lparr>kt_queueNode := q, kt_finalNode := f\<rparr>, 0)
    \<and> node_absorbed (m @ sponge12 leaf suffixLeaf capacityInBytes) f"
proof -
  obtain t q where q: "SpongeAbsorbLastFewBits perm12 (kt_queueNode kt) suffixLeaf = Some (t, 0)"
    "SpongeSqueeze perm12 t capacityInBytes = Some (q, sponge12 leaf suffixLeaf capacityInBytes)"
    using keccak12.finish_step [OF assms(1), of suffixLeaf capacityInBytes] by (auto simp: sponge12_def)
  obtain f where f: "absorb_final (kt\<lparr>kt_queueNode := q\<rparr>) (sponge12 leaf suffixLeaf capacityInBytes)
      = Some (kt\<lparr>kt_queueNode := q, kt_finalNode := f\<rparr>, 0)"
    "node_absorbed (m @ sponge12 leaf suffixLeaf capacityInBytes) f"
    using absorb_final_ok [of m "kt\<lparr>kt_queueNode := q\<rparr>" "sponge12 leaf suffixLeaf capacityInBytes"] assms(2)
    by (auto simp: sponge12_def)
  have "finish_leaf kt = Some (kt\<lparr>kt_queueNode := q, kt_finalNode := f\<rparr>, 0)" using q f(1) by (simp add: finish_leaf_def)
  then show ?thesis using f(2) by blast
qed

lemma node_initialised: "snd (SpongeInitialize 1344 256 S) = 0"
  "node_absorbed [] (fst (SpongeInitialize 1344 256 S))"
  using keccak12.initialised [of 1344 256 168 S] by (simp_all add: bad_rate_def SpongeInitialize_def)

text \<open>Rounding the position up to a word is the same as absorbing zeroes.\<close>

lemma align_node:
  assumes "node_absorbed (c @ [0x03]) node" "length c = chunkSize"
  shows "node_absorbed (c @ [0x03, 0, 0, 0, 0, 0, 0, 0]) (node\<lparr>k_io := (k_io node + 7) AND NOT 7\<rparr>)"
proof -
  have S: "absorbing 168 node" "block_of node = fold (absorb_byte perm12 168) (c @ [0x03]) (replicate 200 0, 0)"
    using assms(1) by (simp_all add: keccak12.absorbed_def)
  have "unat (k_io node) = 129" using keccak12.absorbed_io [OF assms(1)] assms(2) by simp
  then have io: "k_io node = 129" by (simp add: word_unat_eq_iff)
  have "length (k_state node) = 200" using S(1) by (simp add: absorbing_def)
  then have "fold (absorb_byte perm12 168) (replicate 7 0) (block_of node) = (k_state node, 136)"
    using absorb_zeroes [of 129 7 168 "k_state node" perm12] io by (simp add: block_of_def del: fold_replicate)
  then have "fold (absorb_byte perm12 168) ((c @ [0x03]) @ replicate 7 0) (replicate 200 0, 0) = (k_state node, 136)"
    using S(2) by (simp only: fold_append comp_apply)
  moreover have "(c @ [0x03]) @ replicate 7 0 = c @ [0x03, 0, 0, 0, 0, 0, 0, 0]" by (simp add: numeral_eq_Suc)
  ultimately have "fold (absorb_byte perm12 168) (c @ [0x03, 0, 0, 0, 0, 0, 0, 0]) (replicate 200 0, 0) = (k_state node, 136)"
    by (simp only:)
  moreover have "absorbing 168 (node\<lparr>k_io := (k_io node + 7) AND NOT 7\<rparr>)"
    "block_of (node\<lparr>k_io := (k_io node + 7) AND NOT 7\<rparr>) = (k_state node, 136)"
    using S(1) io by (simp_all add: absorbing_def block_of_def rateInBytes_def)
  ultimately show ?thesis by (simp only: keccak12.absorbed_def)
qed

section \<open>Feeding an instance\<close>

text \<open>Between two leaves; the leaf that comes next starts afresh.\<close>

definition between_leaves :: "k12 \<Rightarrow> bytes \<Rightarrow> bool" where
  "between_leaves kt d \<longleftrightarrow> in_tree kt d \<and> kt_queueAbsorbedLen kt = 0"

lemma begin_leaf:
  assumes "between_leaves kt d" "length e \<le> chunkSize"
  defines "kt1 \<equiv> kt\<lparr>kt_queueNode := fst (SpongeInitialize 1344 256 (kt_queueNode kt))\<rparr>"
  shows "\<exists>q. absorb_queue kt1 e = Some (kt1\<lparr>kt_queueNode := q\<rparr>, 0) \<and> node_absorbed e q"
    and "chunk (d @ e) (length d div chunkSize) = e"
    and "node_absorbed (node_input (d @ e) (length d div chunkSize)) (kt_finalNode kt)"
proof -
  have T: "chunkSize \<le> length d" "length d mod chunkSize = 0"
    "node_absorbed (node_input d (length d div chunkSize)) (kt_finalNode kt)"
    using assms(1) by (simp_all add: between_leaves_def in_tree_def)
  have d: "length d = chunkSize * (length d div chunkSize)" "0 < length d div chunkSize"
    using T(1,2) mult_div_mod_eq [of chunkSize "length d"] by (simp_all add: div_greater_zero_iff)
  show "\<exists>q. absorb_queue kt1 e = Some (kt1\<lparr>kt_queueNode := q\<rparr>, 0) \<and> node_absorbed e q"
    using absorb_queue_ok [of "[]" kt1 e] node_initialised(2) assms(2) by (simp add: kt1_def)
  show "chunk (d @ e) (length d div chunkSize) = e" using d(1) assms(2) by (simp add: chunk_def)
  show "node_absorbed (node_input (d @ e) (length d div chunkSize)) (kt_finalNode kt)"
    using T(3) d by (simp add: node_input_append)
qed

lemma update_leaves_full:
  assumes "between_leaves kt d" "chunkSize \<le> length input" "length d + length input < 2 ^ 64"
  shows "\<exists>kt'. update_leaves kt input = update_leaves kt' (drop chunkSize input) \<and> between_leaves kt' (d @ take chunkSize input)
    \<and> kt_fixedOutputLength kt' = kt_fixedOutputLength kt"
proof -
  let ?e = "take chunkSize input" and ?n = "length d div chunkSize"
  let ?k1 = "kt\<lparr>kt_queueNode := fst (SpongeInitialize 1344 256 (kt_queueNode kt))\<rparr>"
  have T: "kt_phase kt = ABSORBING" "chunkSize \<le> length d" "unat (kt_blockNumber kt) = ?n" "length d mod chunkSize = 0"
    "kt_queueAbsorbedLen kt = 0"
    using assms(1) by (simp_all add: between_leaves_def in_tree_def)
  have len: "length ?e = chunkSize" "length ?e \<le> chunkSize" using assms(2) by simp_all
  obtain q where q: "absorb_queue ?k1 ?e = Some (?k1\<lparr>kt_queueNode := q\<rparr>, 0)" "node_absorbed ?e q"
    using begin_leaf(1) [OF assms(1) len(2)] by blast
  let ?k2 = "?k1\<lparr>kt_queueNode := q, kt_blockNumber := kt_blockNumber kt + 1\<rparr>"
  obtain q' f where f: "finish_leaf ?k2 = Some (?k2\<lparr>kt_queueNode := q', kt_finalNode := f\<rparr>, 0)"
    "node_absorbed (node_input (d @ ?e) ?n @ chaining_value (d @ ?e) ?n) f"
    using finish_leaf_ok [of ?e ?k2 "node_input (d @ ?e) ?n"] q(2) begin_leaf(2,3) [OF assms(1) len(2)] by (auto simp: chaining_value_def)
  have div: "length (d @ ?e) div chunkSize = Suc ?n" "length (d @ ?e) mod chunkSize = 0"
    using T(4) len(1) by simp_all
  have "0 < ?n" using T(2) by (simp add: div_greater_zero_iff)
  moreover have "?n + 1 < 2 ^ 64" using assms(2,3) by linarith
  then have "unat (kt_blockNumber kt + 1) = Suc ?n" using T(3) by (subst unat_add_small) simp_all
  ultimately have "between_leaves (?k2\<lparr>kt_queueNode := q', kt_finalNode := f\<rparr>) (d @ ?e)"
    unfolding between_leaves_def in_tree_def div using T(1,2,5) assms(2,3) f(2) by (simp add: node_input_Suc)
  moreover have "update_leaves kt input = update_leaves (?k2\<lparr>kt_queueNode := q', kt_finalNode := f\<rparr>) (drop chunkSize input)"
    using assms(2) q(1) f(1) node_initialised(1) by (subst update_leaves.simps) (auto simp: split_beta Let_def not_less)
  ultimately show ?thesis by (intro exI conjI) (assumption, simp_all)
qed

lemma update_leaves_last:
  assumes "between_leaves kt d" "0 < length input" "length input < chunkSize" "length d + length input < 2 ^ 64"
  shows "\<exists>kt'. update_leaves kt input = Some (kt', 0) \<and> in_tree kt' (d @ input)
    \<and> kt_fixedOutputLength kt' = kt_fixedOutputLength kt"
proof -
  let ?k1 = "kt\<lparr>kt_queueNode := fst (SpongeInitialize 1344 256 (kt_queueNode kt))\<rparr>"
  have T: "kt_phase kt = ABSORBING" "chunkSize \<le> length d" "unat (kt_blockNumber kt) = length d div chunkSize"
    "length d mod chunkSize = 0"
    using assms(1) by (simp_all add: between_leaves_def in_tree_def)
  have len: "length input \<le> chunkSize" using assms(3) by simp
  obtain q where q: "absorb_queue ?k1 input = Some (?k1\<lparr>kt_queueNode := q\<rparr>, 0)" "node_absorbed input q"
    using begin_leaf(1) [OF assms(1) len] by blast
  have div: "length (d @ input) div chunkSize = length d div chunkSize" "length (d @ input) mod chunkSize = length input"
    using T(4) assms(3) mult_div_mod_eq [of chunkSize "length d"]
    by (simp_all add: div_add1_eq mod_add_eq [of "length d", symmetric])
  have "in_tree (?k1\<lparr>kt_queueNode := q, kt_queueAbsorbedLen := length input\<rparr>) (d @ input)"
    unfolding in_tree_def div using T(1-3) assms(4) q(2) begin_leaf(2,3) [OF assms(1) len] by simp
  moreover have "update_leaves kt input = Some (?k1\<lparr>kt_queueNode := q, kt_queueAbsorbedLen := length input\<rparr>, 0)"
    using assms(2,3) q(1) node_initialised(1)
    by (simp add: update_leaves.simps [of kt input] update_leaves.simps [of _ "[]"] split_beta Let_def)
  ultimately show ?thesis by simp
qed

lemma update_leaves_ok:
  assumes "in_tree kt d" "input = [] \<or> kt_queueAbsorbedLen kt = 0" "length d + length input < 2 ^ 64"
  shows "\<exists>kt'. update_leaves kt input = Some (kt', 0) \<and> in_tree kt' (d @ input)
    \<and> kt_fixedOutputLength kt' = kt_fixedOutputLength kt"
  using assms
proof (induction input arbitrary: kt d rule: length_induct)
  case (1 input)
  consider "input = []" | "between_leaves kt d" "0 < length input" "length input < chunkSize"
    | "between_leaves kt d" "chunkSize \<le> length input"
    using 1(2,3) by (fastforce simp: between_leaves_def)
  then show ?case
  proof cases
    case 3
    then obtain kt' where kt': "update_leaves kt input = update_leaves kt' (drop chunkSize input)"
      "between_leaves kt' (d @ take chunkSize input)" "kt_fixedOutputLength kt' = kt_fixedOutputLength kt"
      using update_leaves_full [OF 3 1(4)] by blast
    then show ?thesis
      using 1(1) [rule_format, of "drop chunkSize input" kt' "d @ take chunkSize input"] 1(4) 3(2)
      by (simp add: between_leaves_def)
  qed (use 1 update_leaves_last in \<open>auto simp: update_leaves.simps [of kt "[]"]\<close>)
qed

lemma update_first_ok:
  assumes "in_first kt d"
  shows "\<exists>kt' rest. update_first kt input = Some (kt', rest, 0) \<and> kt_fixedOutputLength kt' = kt_fixedOutputLength kt
    \<and> (rest = [] \<and> in_first kt' (d @ input)
       \<or> (\<exists>e. input = e @ rest \<and> chunkSize < length d + length input \<and> between_leaves kt' (d @ e)))"
proof -
  let ?len = "if length input < chunkSize - kt_queueAbsorbedLen kt then length input else chunkSize - kt_queueAbsorbedLen kt"
  let ?e = "take ?len input"
  have T: "kt_phase kt = ABSORBING" "kt_blockNumber kt = 0" "length d \<le> chunkSize" "kt_queueAbsorbedLen kt = length d"
    "node_absorbed d (kt_finalNode kt)"
    using assms by (simp_all add: in_first_def)
  have "length ?e \<le> chunkSize" by auto
  then have small: "length ?e < 2 ^ 32 - 200" by (rule order_le_less_trans) simp
  obtain f where f: "absorb_final kt ?e = Some (kt\<lparr>kt_finalNode := f\<rparr>, 0)" "node_absorbed (d @ ?e) f"
    using absorb_final_ok [OF T(5) small] by blast
  show ?thesis
  proof (cases "length d + length input \<le> chunkSize")
    case True
    then have len: "?len = length input" using T(4) by auto
    then show ?thesis
      using f T True by (auto simp: update_first_def Let_def in_first_def)
  next
    case False
    then have len: "?len = chunkSize - length d" "length (d @ ?e) = chunkSize" "drop ?len input \<noteq> []"
      using T(3,4) by auto
    let ?k2 = "kt\<lparr>kt_finalNode := f, kt_queueAbsorbedLen := 0, kt_blockNumber := 1\<rparr>"
    obtain g where g: "absorb_final ?k2 [0x03] = Some (?k2\<lparr>kt_finalNode := g\<rparr>, 0)" "node_absorbed ((d @ ?e) @ [0x03]) g"
      using absorb_final_ok [of "d @ ?e" ?k2 "[0x03]"] f(2) by auto
    let ?k3 = "?k2\<lparr>kt_finalNode := g\<lparr>k_io := (k_io g + 7) AND NOT 7\<rparr>\<rparr>"
    have "node_input (d @ ?e) 1 = (d @ ?e) @ [0x03, 0, 0, 0, 0, 0, 0, 0]"
      using len(2) T(4) by (simp add: node_input_def chunk_def)
    then have "between_leaves ?k3 (d @ ?e)"
      using align_node [OF g(2) len(2)] T(1) len(2) by (simp add: between_leaves_def in_tree_def)
    moreover have "update_first kt input = Some (?k3, drop ?len input, 0)"
      using f(1) g(1) len T(3,4) by (simp add: update_first_def Let_def)
    ultimately show ?thesis using False by (intro exI conjI disjI2 exI [of _ ?e]) (assumption | simp)+
  qed
qed

lemma div_mod_chunk:
  assumes "r < chunkSize"
  shows "(chunkSize * n + r) div chunkSize = n" "(chunkSize * n + r) mod chunkSize = r"
  using assms by simp_all

lemma update_queue_ok:
  assumes "in_tree kt d" "kt_queueAbsorbedLen kt \<noteq> 0" "length d + length input < 2 ^ 64"
  shows "\<exists>kt' e rest. update_queue kt input = Some (kt', rest, 0) \<and> kt_fixedOutputLength kt' = kt_fixedOutputLength kt
    \<and> input = e @ rest \<and> in_tree kt' (d @ e) \<and> (rest = [] \<or> kt_queueAbsorbedLen kt' = 0)"
proof -
  let ?q = "kt_queueAbsorbedLen kt" and ?n = "length d div chunkSize"
  let ?len = "if length input < chunkSize - ?q then length input else chunkSize - ?q"
  let ?e = "take ?len input"
  have T: "kt_phase kt = ABSORBING" "chunkSize \<le> length d" "unat (kt_blockNumber kt) = ?n" "?q = length d mod chunkSize"
    "node_absorbed (chunk d ?n) (kt_queueNode kt)" "node_absorbed (node_input d ?n) (kt_finalNode kt)"
    using assms(1,2) by (simp_all add: in_tree_def)
  have q: "?q < chunkSize" using T(4) by simp
  have d: "length d = chunkSize * ?n + ?q" "0 < ?n" using T(2,4) by (simp_all add: div_greater_zero_iff)
  have e: "length ?e \<le> chunkSize - ?q" by auto
  then have small: "length ?e < 2 ^ 32 - 200" by (rule order_le_less_trans) simp
  have chunk: "chunk (d @ ?e) ?n = chunk d ?n @ ?e" 
  proof (rule chunk_last)
    show "length d mod chunkSize + length ?e \<le> chunkSize" using e q T(4) by linarith
  qed
  have node: "node_input (d @ ?e) ?n = node_input d ?n" using d by (intro node_input_append) simp_all
  obtain f where f: "absorb_queue kt ?e = Some (kt\<lparr>kt_queueNode := f\<rparr>, 0)" "node_absorbed (chunk (d @ ?e) ?n) f"
    using absorb_queue_ok [OF T(5) small] chunk by auto
  show ?thesis
  proof (cases "length input < chunkSize - ?q")
    case True
    have len: "length (d @ input) = chunkSize * ?n + (?q + length input)" using d(1) by simp
    have fits: "?q + length input < chunkSize" using True by simp
    have div: "length (d @ input) div chunkSize = ?n" "length (d @ input) mod chunkSize = ?q + length input"
      unfolding len using fits by (rule div_mod_chunk)+
    have "in_tree (kt\<lparr>kt_queueNode := f, kt_queueAbsorbedLen := ?q + length input\<rparr>) (d @ input)"
      unfolding in_tree_def div using True T(1-3,6) f(2) node assms(3) by simp
    moreover have "update_queue kt input = Some (kt\<lparr>kt_queueNode := f, kt_queueAbsorbedLen := ?q + length input\<rparr>, [], 0)"
      using True fits f(1) by (simp add: update_queue_def Let_def)
    ultimately show ?thesis by (intro exI [of _ input] exI conjI) (assumption | simp)+
  next
    case False
    then have len: "length ?e = chunkSize - ?q" by simp
    let ?k2 = "kt\<lparr>kt_queueNode := f, kt_queueAbsorbedLen := 0, kt_blockNumber := kt_blockNumber kt + 1\<rparr>"
    obtain g h where g: "finish_leaf ?k2 = Some (?k2\<lparr>kt_queueNode := g, kt_finalNode := h\<rparr>, 0)"
      "node_absorbed (node_input d ?n @ chaining_value (d @ ?e) ?n) h"
      using finish_leaf_ok [of "chunk (d @ ?e) ?n" ?k2 "node_input d ?n"] f(2) T(6) by (auto simp: chaining_value_def)
    have "length (d @ ?e) = chunkSize * Suc ?n" unfolding length_append len using d(1) q by simp
    then have div: "length (d @ ?e) div chunkSize = Suc ?n" "length (d @ ?e) mod chunkSize = 0" 
      by (simp_all only: nonzero_mult_div_cancel_left mod_mult_self1_is_0)
    have "chunkSize * ?n \<le> length d" by simp
    then have "?n + 1 \<le> length d" using d(2) by linarith
    also have "\<dots> < 2 ^ 64" using assms(3) by simp
    finally have "?n + 1 < 2 ^ 64" .
    then have "unat (kt_blockNumber kt + 1) = Suc ?n" using T(3) by (subst unat_add_small) simp_all
    moreover have "length (d @ ?e) < 2 ^ 64" using assms(3) by simp
    ultimately have "in_tree (?k2\<lparr>kt_queueNode := g, kt_finalNode := h\<rparr>) (d @ ?e)"
      unfolding in_tree_def div using T(1,2) g(2) node d(2) by (simp add: node_input_Suc)
    moreover have "update_queue kt input = Some (?k2\<lparr>kt_queueNode := g, kt_finalNode := h\<rparr>, drop ?len input, 0)"
      using False f(1) g(1) q by (simp add: update_queue_def Let_def)
    ultimately show ?thesis by (intro exI [of _ ?e] exI conjI) (assumption | simp)+
  qed
qed

definition fed :: "k12 \<Rightarrow> bytes \<Rightarrow> bool" where
  "fed kt d \<longleftrightarrow> in_first kt d \<or> in_tree kt d \<and> chunkSize < length d"

lemma update_ok:
  assumes "fed kt d" "length d + length input < 2 ^ 64"
  shows "\<exists>kt'. KangarooTwelve_Update kt input = Some (kt', 0) \<and> fed kt' (d @ input)
    \<and> kt_fixedOutputLength kt' = kt_fixedOutputLength kt"
proof (cases "in_first kt d")
  case True
  then have k: "kt_phase kt = ABSORBING" "kt_blockNumber kt = 0" by (simp_all add: in_first_def)
  obtain k1 rest where u: "update_first kt input = Some (k1, rest, 0)" "kt_fixedOutputLength k1 = kt_fixedOutputLength kt"
    "rest = [] \<and> in_first k1 (d @ input)
       \<or> (\<exists>e. input = e @ rest \<and> chunkSize < length d + length input \<and> between_leaves k1 (d @ e))"
    using update_first_ok [OF True, of input] by blast
  from u(3) have "\<exists>k2. update_leaves k1 rest = Some (k2, 0) \<and> fed k2 (d @ input) \<and> kt_fixedOutputLength k2 = kt_fixedOutputLength k1"
  proof
    assume "rest = [] \<and> in_first k1 (d @ input)"
    then show ?thesis by (simp add: update_leaves.simps [of k1 "[]"] fed_def)
  next
    assume "\<exists>e. input = e @ rest \<and> chunkSize < length d + length input \<and> between_leaves k1 (d @ e)"
    then obtain e where e: "input = e @ rest" "chunkSize < length d + length input" "between_leaves k1 (d @ e)" by blast
    then show ?thesis using update_leaves_ok [of k1 "d @ e" rest] assms(2) by (auto simp: between_leaves_def fed_def)
  qed
  then show ?thesis using u(1,2) k by (auto simp: KangarooTwelve_Update_def)
next
  case False
  then have T: "in_tree kt d" "chunkSize < length d" using assms(1) by (simp_all add: fed_def)
  then have "unat (kt_blockNumber kt) \<noteq> 0" by (simp add: in_tree_def div_greater_zero_iff)
  then have k: "kt_phase kt = ABSORBING" "kt_blockNumber kt \<noteq> 0" using T(1) by (auto simp: in_tree_def)
  have "\<exists>k1 e rest. (if kt_queueAbsorbedLen kt \<noteq> 0 then update_queue kt input else Some (kt, input, 0)) = Some (k1, rest, 0)
      \<and> kt_fixedOutputLength k1 = kt_fixedOutputLength kt \<and> input = e @ rest \<and> in_tree k1 (d @ e)
      \<and> (rest = [] \<or> kt_queueAbsorbedLen k1 = 0)"
    using update_queue_ok [OF T(1) _ assms(2)] T(1) by auto
  then obtain k1 e rest where u: "(if kt_queueAbsorbedLen kt \<noteq> 0 then update_queue kt input else Some (kt, input, 0)) = Some (k1, rest, 0)"
    "kt_fixedOutputLength k1 = kt_fixedOutputLength kt" "input = e @ rest" "in_tree k1 (d @ e)" "rest = [] \<or> kt_queueAbsorbedLen k1 = 0"
    by blast
  then obtain k2 where "update_leaves k1 rest = Some (k2, 0)" "in_tree k2 (d @ input)" "kt_fixedOutputLength k2 = kt_fixedOutputLength k1"
    using update_leaves_ok [OF u(4,5)] assms(2) by auto
  then show ?thesis using u(1,2) k T(2) by (auto simp: KangarooTwelve_Update_def fed_def)
qed

section \<open>The result\<close>

lemma length_right_encode: "length (right_encode v) \<le> 9"
proof -
  have "byte_count k v \<le> k" for k v by (induction k arbitrary: v) simp_all
  from this [of 8 v] show ?thesis by (simp add: right_encode_def Let_def)
qed

lemma byte_count_length: "unat v < 256 ^ k \<Longrightarrow> byte_count k v = length (big_endian (unat v))"
proof (induction k arbitrary: v)
  case 0
  then show ?case by (simp add: big_endian.simps)
next
  case (Suc k)
  have u: "unat (drop_bit 8 v) = unat v div 256" by (simp only: unat_drop_bit_eq) (simp add: drop_bit_eq_div)
  then have "unat (drop_bit 8 v) < 256 ^ k" using Suc.prems by (simp add: less_mult_imp_div_less mult.commute)
  then show ?case using Suc.IH [of "drop_bit 8 v"] u by (subst big_endian.simps) (simp add: unat_eq_0)
qed

lemma big_endian_bytes:
  "map (\<lambda>i. of_nat (n div 256 ^ (length (big_endian n) - i))) [1..<Suc (length (big_endian n))] = big_endian n"
proof (induction n rule: big_endian.induct)
  case (1 n)
  show ?case
  proof (cases "n = 0")
    case True
    then show ?thesis by (simp add: big_endian.simps)
  next
    case False
    let ?m = "length (big_endian (n div 256))"
    have e: "big_endian n = big_endian (n div 256) @ [of_nat n]"
    proof -
      have "(of_nat (n mod 256) :: u8) = of_nat n" by (rule word_unat_eq_iff [THEN iffD2]) (simp add: unat_of_nat take_bit_eq_mod)
      then show ?thesis using False by (subst big_endian.simps) simp
    qed
    have "map (\<lambda>i. of_nat (n div 256 ^ (Suc ?m - i))) [1..<Suc ?m] = map (\<lambda>i. of_nat (n div 256 div 256 ^ (?m - i)) :: u8) [1..<Suc ?m]"
      by (rule map_cong) (auto simp: Suc_diff_le div_mult2_eq)
    also have "\<dots> = big_endian (n div 256)" by (rule 1 [OF False])
    finally show ?thesis unfolding e length_append by (simp add: upt_Suc_append del: upt_Suc)
  qed
qed

lemma right_encode_length:
  assumes "n < 2 ^ 64"
  shows "right_encode (of_nat n) = length_encode n"
proof -
  let ?v = "of_nat n :: u64"
  have u: "unat ?v = n" using assms by (simp add: unat_of_nat take_bit_eq_mod)
  have "ucast (drop_bit (8 * j) ?v) = (of_nat (n div 256 ^ j) :: u8)" for j
  proof -
    have "unat (drop_bit (8 * j) ?v) = n div 256 ^ j" by (simp only: unat_drop_bit_eq u) (simp add: drop_bit_eq_div power_mult)
    then show ?thesis by (metis of_nat_unat)
  qed
  moreover have "byte_count 8 ?v = length (big_endian n)" using byte_count_length [of ?v 8] u assms by simp
  ultimately show ?thesis using big_endian_bytes [of n] by (simp add: right_encode_def length_encode_def Let_def)
qed

lemma right_encode_nonempty [simp]: "right_encode v \<noteq> []"
  by (simp add: right_encode_def Let_def)

lemma chunk_count:
  assumes "chunkSize < n"
  shows "(n + chunkSize - 1) div chunkSize = (if n mod chunkSize = 0 then n div chunkSize else Suc (n div chunkSize))"
proof -
  have "n + chunkSize - 1 = chunkSize * (n div chunkSize) + (n mod chunkSize + (chunkSize - 1))"
    using mult_div_mod_eq [of chunkSize n] by simp
  moreover have "(n mod chunkSize + (chunkSize - 1)) div chunkSize = (if n mod chunkSize = 0 then 0 else 1)"
    using mod_less_divisor [of chunkSize n] by (auto simp: div_eq_dividend_iff le_div_geq)
  moreover have "(chunkSize * m + x) div chunkSize = m + x div chunkSize" for m x by simp
  ultimately show ?thesis by (metis add.right_neutral add_Suc_right One_nat_def)
qed

lemma final_tail_tree:
  assumes "in_tree kt d" "chunkSize < length d" "n = (length d + chunkSize - 1) div chunkSize"
  shows "\<exists>kt'. final_tail kt = Some (kt', 0x06, 0) \<and> kt_fixedOutputLength kt' = kt_fixedOutputLength kt
    \<and> node_absorbed (node_input d n @ right_encode (of_nat (n - 1)) @ [0xFF, 0xFF]) (kt_finalNode kt')"
proof -
  let ?m = "length d div chunkSize"
  have T: "unat (kt_blockNumber kt) = ?m" "kt_queueAbsorbedLen kt = length d mod chunkSize" "length d < 2 ^ 64"
    "node_absorbed (node_input d ?m) (kt_finalNode kt)"
    "kt_queueAbsorbedLen kt \<noteq> 0 \<Longrightarrow> node_absorbed (chunk d ?m) (kt_queueNode kt)"
    using assms(1) by (simp_all add: in_tree_def)
  have m: "0 < ?m" using assms(2) by (simp add: div_greater_zero_iff)
  have block: "kt_blockNumber kt = of_nat ?m" using T(1) by (metis of_nat_unat ucast_id)
  have nz: "kt_blockNumber kt \<noteq> 0" using T(1) m by auto
  have "\<exists>k1. (if kt_queueAbsorbedLen kt \<noteq> 0 then finish_leaf (kt\<lparr>kt_blockNumber := kt_blockNumber kt + 1\<rparr>) else Some (kt, 0)) = Some (k1, 0)
      \<and> kt_fixedOutputLength k1 = kt_fixedOutputLength kt \<and> kt_blockNumber k1 - 1 = of_nat (n - 1)
      \<and> node_absorbed (node_input d n) (kt_finalNode k1)"
  proof (cases "kt_queueAbsorbedLen kt = 0")
    case True
    then show ?thesis using T m assms(2,3) chunk_count [of "length d"] block by (simp add: of_nat_diff)
  next
    case False
    let ?k = "kt\<lparr>kt_blockNumber := kt_blockNumber kt + 1\<rparr>"
    obtain q f where "finish_leaf ?k = Some (?k\<lparr>kt_queueNode := q, kt_finalNode := f\<rparr>, 0)"
      "node_absorbed (node_input d ?m @ chaining_value d ?m) f"
      using finish_leaf_ok [of "chunk d ?m" ?k "node_input d ?m"] T(4) T(5) [OF False] by (auto simp: chaining_value_def)
    moreover have "n = Suc ?m" using False T(2) assms(2,3) chunk_count [of "length d"] by simp
    ultimately show ?thesis using False m block by (simp add: node_input_Suc)
  qed
  then obtain k1 where k1: "(if kt_queueAbsorbedLen kt \<noteq> 0 then finish_leaf (kt\<lparr>kt_blockNumber := kt_blockNumber kt + 1\<rparr>) else Some (kt, 0)) = Some (k1, 0)"
    "kt_fixedOutputLength k1 = kt_fixedOutputLength kt" "kt_blockNumber k1 - 1 = of_nat (n - 1)"
    "node_absorbed (node_input d n) (kt_finalNode k1)" by blast
  let ?k2 = "k1\<lparr>kt_blockNumber := of_nat (n - 1)\<rparr>"
  have "length (right_encode (of_nat (n - 1)) @ [0xFF, 0xFF]) < 2 ^ 32 - 200"
    using length_right_encode [of "of_nat (n - 1)"] by simp
  then obtain f where "absorb_final ?k2 (right_encode (of_nat (n - 1)) @ [0xFF, 0xFF]) = Some (?k2\<lparr>kt_finalNode := f\<rparr>, 0)"
    "node_absorbed (node_input d n @ right_encode (of_nat (n - 1)) @ [0xFF, 0xFF]) f"
    using absorb_final_ok [of "node_input d n" ?k2] k1(4) by fastforce
  then show ?thesis using k1 nz by (simp add: final_tail_def Let_def)
qed

lemma final_tail_ok:
  assumes "fed kt d"
  shows "\<exists>kt' m padding. final_tail kt = Some (kt', padding, 0) \<and> kt_fixedOutputLength kt' = kt_fixedOutputLength kt
    \<and> padding \<noteq> 0 \<and> node_absorbed m (kt_finalNode kt') \<and> (\<forall>n. sponge12 m padding n = k12_tree d n)"
proof (cases "in_first kt d")
  case True
  then show ?thesis by (intro exI [of _ kt] exI [of _ d] exI [of _ "0x07"]) (simp add: in_first_def final_tail_def k12_tree_def)
next
  case False
  then have T: "in_tree kt d" "chunkSize < length d" using assms by (simp_all add: fed_def)
  define n where "n = (length d + 8191) div 8192"
  have n: "n = (length d + chunkSize - 1) div chunkSize" by (simp add: n_def)
  have "length d < 2 ^ 64" using T(1) by (simp add: in_tree_def)
  then have enc: "right_encode (of_nat (n - 1)) = length_encode (n - 1)" unfolding n_def by (intro right_encode_length) simp
  have "k12_tree d k = sponge12 (node_input d n @ length_encode (n - 1) @ [0xFF, 0xFF]) 0x06 k" for k
    using T(2) by (simp add: k12_tree_def Let_def n_def)
  then show ?thesis using final_tail_tree [OF T n] unfolding enc by fastforce
qed

lemma final_ok:
  assumes "fed kt d" "kt_fixedOutputLength kt \<noteq> 0" "kt_fixedOutputLength kt < 2 ^ 32 - 200"
    and "length d + length c + 9 < 2 ^ 64"
  shows "\<exists>kt'. KangarooTwelve_Final kt c
    = Some (kt', 0, k12_tree (d @ c @ right_encode (of_nat (length c))) (kt_fixedOutputLength kt))"
proof -
  let ?enc = "right_encode (of_nat (length c))"
  have "\<exists>k1. (if c \<noteq> [] then KangarooTwelve_Update kt c else Some (kt, 0)) = Some (k1, 0) \<and> fed k1 (d @ c)
      \<and> kt_fixedOutputLength k1 = kt_fixedOutputLength kt"
    using update_ok [OF assms(1), of c] assms(1,4) by auto
  then obtain k1 where k1: "(if c \<noteq> [] then KangarooTwelve_Update kt c else Some (kt, 0)) = Some (k1, 0)" "fed k1 (d @ c)"
    "kt_fixedOutputLength k1 = kt_fixedOutputLength kt" by blast
  obtain k2 where k2: "KangarooTwelve_Update k1 ?enc = Some (k2, 0)" "fed k2 (d @ c @ ?enc)"
    "kt_fixedOutputLength k2 = kt_fixedOutputLength kt"
    using update_ok [OF k1(2), of ?enc] length_right_encode [of "of_nat (length c)"] assms(4) k1(3) by auto
  obtain k3 m padding where k3: "final_tail k2 = Some (k3, padding, 0)" "kt_fixedOutputLength k3 = kt_fixedOutputLength kt"
    "padding \<noteq> 0" "node_absorbed m (kt_finalNode k3)" "\<And>n. sponge12 m padding n = k12_tree (d @ c @ ?enc) n"
    using final_tail_ok [OF k2(2)] k2(3) by auto
  obtain t u where t: "SpongeAbsorbLastFewBits perm12 (kt_finalNode k3) padding = Some (t, 0)"
    "SpongeSqueeze perm12 t (kt_fixedOutputLength kt) = Some (u, k12_tree (d @ c @ ?enc) (kt_fixedOutputLength kt))"
    using keccak12.finish_step [OF k3(4,3) assms(3)] k3(5) by (auto simp: sponge12_def)
  have "kt_phase kt = ABSORBING" using assms(1) by (auto simp: fed_def in_first_def in_tree_def)
  then show ?thesis
    using k1(1) k2(1) k3(1,2) t assms(2) by (simp add: KangarooTwelve_Final_def Let_def)
qed

lemma initialise_ok:
  shows "snd (KangarooTwelve_Initialize kt n) = 0" "fed (fst (KangarooTwelve_Initialize kt n)) []"
    and "kt_fixedOutputLength (fst (KangarooTwelve_Initialize kt n)) = n"
  using node_initialised [of "kt_finalNode kt"]
  by (simp_all add: KangarooTwelve_Initialize_def fed_def in_first_def split_beta)

text \<open>Input given in pieces.\<close>

definition update_all :: "k12 \<Rightarrow> bytes list \<Rightarrow> k12 option" where
  "update_all kt pieces = fold_opt (\<lambda>d kt. map_option fst (KangarooTwelve_Update kt d)) pieces kt"

lemma update_all_ok:
  assumes "fed kt d" "length d + length (concat pieces) < 2 ^ 64"
  shows "\<exists>kt'. update_all kt pieces = Some kt' \<and> fed kt' (d @ concat pieces) \<and> kt_fixedOutputLength kt' = kt_fixedOutputLength kt"
  using assms
proof (induction pieces arbitrary: kt d)
  case (Cons p ps)
  obtain k1 where k1: "KangarooTwelve_Update kt p = Some (k1, 0)" "fed k1 (d @ p)" "kt_fixedOutputLength k1 = kt_fixedOutputLength kt"
    using update_ok [OF Cons.prems(1), of p] Cons.prems(2) by auto
  from Cons.IH [OF k1(2)] Cons.prems(2) k1(1,3) show ?case by (auto simp: update_all_def)
qed (simp add: update_all_def)

text \<open>C22: The single call, and input given in pieces, return the tree hash of the input and the customization.  The tree hash is
  defined above without the code's encoding of lengths (\<open>right_encode\<close>) and with the constants of the definition.\<close>

theorem k12_computes_tree:
  assumes "0 < outLen" "outLen < 2 ^ 32 - 200" "length (concat pieces) + length customization + 9 < 2 ^ 64"
  shows "KangarooTwelve kt (concat pieces) outLen customization = Some (0, k12_spec (concat pieces) customization outLen)
    \<and> (\<exists>kt'. do { kt \<leftarrow> update_all (fst (KangarooTwelve_Initialize kt outLen)) pieces; KangarooTwelve_Final kt customization }
        = Some (kt', 0, k12_spec (concat pieces) customization outLen))"
proof -
  let ?k = "fst (KangarooTwelve_Initialize kt outLen)"
  obtain k1 where k1: "update_all ?k pieces = Some k1" "fed k1 (concat pieces)" "kt_fixedOutputLength k1 = outLen"
    using update_all_ok [OF initialise_ok(2), of pieces kt outLen] initialise_ok(3) assms(3) by auto
  obtain k2 where k2: "KangarooTwelve_Update ?k (concat pieces) = Some (k2, 0)" "fed k2 (concat pieces)" "kt_fixedOutputLength k2 = outLen"
    using update_ok [OF initialise_ok(2), of "concat pieces" kt outLen] initialise_ok(3) assms(3) by auto
  have final: "\<exists>k'. KangarooTwelve_Final k customization = Some (k', 0, k12_spec (concat pieces) customization outLen)"
    if "fed k (concat pieces)" "kt_fixedOutputLength k = outLen" for k
    using final_ok [OF that(1), of customization] that(2) assms right_encode_length [of "length customization"] by (simp add: k12_spec_def)
  show ?thesis
    using final [OF k1(2,3)] final [OF k2(2,3)] k1(1) k2(1) assms(1) initialise_ok(1) [of kt outLen]
    by (auto simp: KangarooTwelve_def Let_def split_beta)
qed

definition blank_k12 :: k12 where
  "blank_k12 = \<lparr>kt_queueNode = zero_sponge, kt_finalNode = zero_sponge, kt_fixedOutputLength = 0, kt_blockNumber = 0,
     kt_queueAbsorbedLen = 0, kt_phase = NOT_INITIALIZED\<rparr>"

lemma k12_computes_tree_witness:
  "KangarooTwelve blank_k12 (concat [replicate 9000 1, [], replicate 9000 2]) 32 [7]
     = Some (0, k12_spec (concat [replicate 9000 1, [], replicate 9000 2]) [7] 32)
   \<and> (\<exists>kt'. do { kt \<leftarrow> update_all (fst (KangarooTwelve_Initialize blank_k12 32)) [replicate 9000 1, [], replicate 9000 2];
                 KangarooTwelve_Final kt [7] }
      = Some (kt', 0, k12_spec (concat [replicate 9000 1, [], replicate 9000 2]) [7] 32))"
  by (rule k12_computes_tree) simp_all

text \<open>After the output, or before initialisation, an instance refuses further calls.\<close>

lemma k12_wrong_phase:
  "kt_phase kt \<noteq> ABSORBING \<Longrightarrow> KangarooTwelve_Update kt d = Some (kt, 1)"
  "kt_phase kt \<noteq> ABSORBING \<Longrightarrow> KangarooTwelve_Final kt c = Some (kt, 1, [])"
  "kt_phase kt \<noteq> SQUEEZING \<Longrightarrow> KangarooTwelve_Squeeze kt n = Some (kt, 1, [])"
  by (simp_all add: KangarooTwelve_Update_def KangarooTwelve_Final_def KangarooTwelve_Squeeze_def)

end
