(* ===== verification/Sha256.thy ===== *)
theory Sha256
  imports Bytes
begin

text \<open>
  \<open>panthera/sha256.c\<close> (and the big-endian helpers of \<open>sysendian.h\<close>): SHA-256 with its streaming interface, HMAC and PBKDF2.
  The scratch arrays \<open>tmp32\<close> that the code passes down, and cleans, are values here: the message schedule and the working
  variables are made anew by each transformation, which writes them before it reads them.
\<close>

section \<open>Big-endian words\<close>

definition be32dec :: "bytes \<Rightarrow> u32" where
  "be32dec p = ucast (p ! 3) + push_bit 8 (ucast (p ! 2)) + push_bit 16 (ucast (p ! 1)) + push_bit 24 (ucast (p ! 0))"

definition be32enc :: "u32 \<Rightarrow> bytes" where
  "be32enc x = [ucast (drop_bit 24 x AND 0xff), ucast (drop_bit 16 x AND 0xff), ucast (drop_bit 8 x AND 0xff), ucast (x AND 0xff)]"

definition be64enc :: "u64 \<Rightarrow> bytes" where
  "be64enc x = [ucast (drop_bit 56 x AND 0xff), ucast (drop_bit 48 x AND 0xff), ucast (drop_bit 40 x AND 0xff),
     ucast (drop_bit 32 x AND 0xff), ucast (drop_bit 24 x AND 0xff), ucast (drop_bit 16 x AND 0xff),
     ucast (drop_bit 8 x AND 0xff), ucast (x AND 0xff)]"

text \<open>Two words at a time; both are called with \<open>0 < len\<close>.\<close>

primrec be32enc_vect :: "u32 list \<Rightarrow> nat \<Rightarrow> bytes" where
  "be32enc_vect src 0 = []"
| "be32enc_vect src (Suc len) = be32enc (src ! 0) @ be32enc (src ! 1) @ be32enc_vect (drop 2 src) len"

primrec be32dec_vect :: "bytes \<Rightarrow> nat \<Rightarrow> u32 list" where
  "be32dec_vect src 0 = []"
| "be32dec_vect src (Suc len) = be32dec (take 4 src) # be32dec (take 4 (drop 4 src)) # be32dec_vect (drop 8 src) len"

section \<open>The block function\<close>

definition Krnd :: "u32 list" where
  "Krnd = [
    0x428a2f98, 0x71374491, 0xb5c0fbcf, 0xe9b5dba5, 0x3956c25b, 0x59f111f1, 0x923f82a4, 0xab1c5ed5,
    0xd807aa98, 0x12835b01, 0x243185be, 0x550c7dc3, 0x72be5d74, 0x80deb1fe, 0x9bdc06a7, 0xc19bf174,
    0xe49b69c1, 0xefbe4786, 0x0fc19dc6, 0x240ca1cc, 0x2de92c6f, 0x4a7484aa, 0x5cb0a9dc, 0x76f988da,
    0x983e5152, 0xa831c66d, 0xb00327c8, 0xbf597fc7, 0xc6e00bf3, 0xd5a79147, 0x06ca6351, 0x14292967,
    0x27b70a85, 0x2e1b2138, 0x4d2c6dfc, 0x53380d13, 0x650a7354, 0x766a0abb, 0x81c2c92e, 0x92722c85,
    0xa2bfe8a1, 0xa81a664b, 0xc24b8b70, 0xc76c51a3, 0xd192e819, 0xd6990624, 0xf40e3585, 0x106aa070,
    0x19a4c116, 0x1e376c08, 0x2748774c, 0x34b0bcb5, 0x391c0cb3, 0x4ed8aa4a, 0x5b9cca4f, 0x682e6ff3,
    0x748f82ee, 0x78a5636f, 0x84c87814, 0x8cc70208, 0x90befffa, 0xa4506ceb, 0xbef9a3f7, 0xc67178f2]"

definition Ch :: "u32 \<Rightarrow> u32 \<Rightarrow> u32 \<Rightarrow> u32" where
  "Ch x y z = (x AND (y XOR z)) XOR z"

definition Maj :: "u32 \<Rightarrow> u32 \<Rightarrow> u32 \<Rightarrow> u32" where
  "Maj x y z = (x AND (y OR z)) OR (y AND z)"

definition SHR :: "u32 \<Rightarrow> nat \<Rightarrow> u32" where
  "SHR x n = drop_bit n x"

definition ROTR :: "u32 \<Rightarrow> nat \<Rightarrow> u32" where
  "ROTR x n = drop_bit n x OR push_bit (32 - n) x"

definition S0 :: "u32 \<Rightarrow> u32" where
  "S0 x = ROTR x 2 XOR ROTR x 13 XOR ROTR x 22"

definition S1 :: "u32 \<Rightarrow> u32" where
  "S1 x = ROTR x 6 XOR ROTR x 11 XOR ROTR x 25"

definition s0 :: "u32 \<Rightarrow> u32" where
  "s0 x = ROTR x 7 XOR ROTR x 18 XOR SHR x 3"

definition s1 :: "u32 \<Rightarrow> u32" where
  "s1 x = ROTR x 17 XOR ROTR x 19 XOR SHR x 10"

text \<open>The macro \<open>RND\<close>, its first eight arguments as indices into the working variables.\<close>

definition RND :: "nat \<Rightarrow> nat \<Rightarrow> nat \<Rightarrow> nat \<Rightarrow> nat \<Rightarrow> nat \<Rightarrow> nat \<Rightarrow> nat \<Rightarrow> u32 \<Rightarrow> u32 list \<Rightarrow> u32 list" where
  "RND a b c d e f g h k S =
     (let S = S[h := S ! h + (S1 (S ! e) + Ch (S ! e) (S ! f) (S ! g) + k)];
          S = S[d := S ! d + S ! h]
      in S[h := S ! h + (S0 (S ! a) + Maj (S ! a) (S ! b) (S ! c))])"

definition RNDr :: "u32 list \<Rightarrow> nat \<Rightarrow> nat \<Rightarrow> u32 list \<Rightarrow> u32 list" where
  "RNDr W i ii S =
     RND ((64 - i) mod 8) ((65 - i) mod 8) ((66 - i) mod 8) ((67 - i) mod 8)
         ((68 - i) mod 8) ((69 - i) mod 8) ((70 - i) mod 8) ((71 - i) mod 8) (W ! (i + ii) + Krnd ! (i + ii)) S"

definition MSCH :: "nat \<Rightarrow> nat \<Rightarrow> u32 list \<Rightarrow> u32 list" where
  "MSCH ii i W = W[i + ii + 16 := s1 (W ! (i + ii + 14)) + W ! (i + ii + 9) + s0 (W ! (i + ii + 1)) + W ! (i + ii)]"

text \<open>One turn of \<open>for (i = 0; i < 64; i += 16)\<close>; the last turn leaves the loop before the schedule.\<close>

definition mix_turn :: "nat \<Rightarrow> u32 list \<times> u32 list \<Rightarrow> u32 list \<times> u32 list" where
  "mix_turn i = (\<lambda>(S, W).
     let S = foldl (\<lambda>S k. RNDr W k i S) S [0..<16];
         W = (if i = 48 then W else foldl (\<lambda>W k. MSCH k i W) W [0..<16])
     in (S, W))"

definition SHA256_Transform :: "u32 list \<Rightarrow> bytes \<Rightarrow> u32 list" where
  "SHA256_Transform state block =
     (let W = be32dec_vect block 8 @ replicate 48 0;
          S = memcpy_at (replicate 8 0) 0 state 8;
          (S, W) = mix_turn 48 (mix_turn 32 (mix_turn 16 (mix_turn 0 (S, W))))
      in map (\<lambda>i. state ! i + S ! i) [0..<8])"

section \<open>Streaming\<close>

record sha256_ctx =
  sh_state :: "u32 list"
  sh_count :: u64
  sh_buf :: bytes

definition PAD :: bytes where
  "PAD = 0x80 # replicate 63 0"

definition initial_state :: "u32 list" where
  "initial_state = [0x6A09E667, 0xBB67AE85, 0x3C6EF372, 0xA54FF53A, 0x510E527F, 0x9B05688C, 0x1F83D9AB, 0x5BE0CD19]"

text \<open>\<open>(ctx->count >> 3) & 0x3f\<close>: the bytes in the buffer.\<close>

definition buffered :: "sha256_ctx \<Rightarrow> nat" where
  "buffered ctx = unat (drop_bit 3 (sh_count ctx) AND 0x3f)"

definition SHA256_Pad :: "sha256_ctx \<Rightarrow> sha256_ctx" where
  "SHA256_Pad ctx =
     (let r = buffered ctx;
          ctx = (if r < 56 then ctx\<lparr>sh_buf := memcpy_at (sh_buf ctx) r PAD (56 - r)\<rparr>
                 else
                   let buf = memcpy_at (sh_buf ctx) r PAD (64 - r)
                   in ctx\<lparr>sh_state := SHA256_Transform (sh_state ctx) buf, sh_buf := memset_at buf 0 0 56\<rparr>);
          ctx = ctx\<lparr>sh_buf := memcpy_at (sh_buf ctx) 56 (be64enc (sh_count ctx)) 8\<rparr>
      in ctx\<lparr>sh_state := SHA256_Transform (sh_state ctx) (sh_buf ctx)\<rparr>)"

definition SHA256_Init :: "sha256_ctx \<Rightarrow> sha256_ctx" where
  "SHA256_Init ctx = ctx\<lparr>sh_count := 0, sh_state := initial_state\<rparr>"

text \<open>\<open>while (len >= 64)\<close>: blocks transformed straight from the input.\<close>

function sha256_blocks :: "u32 list \<Rightarrow> bytes \<Rightarrow> u32 list \<times> bytes" where
  "sha256_blocks state src =
     (if 64 \<le> length src then sha256_blocks (SHA256_Transform state (take 64 src)) (drop 64 src) else (state, src))"
  by pat_completeness auto
termination by (relation "measure (\<lambda>(state, src). length src)") auto

declare sha256_blocks.simps [simp del]

definition SHA256_Update :: "sha256_ctx \<Rightarrow> bytes \<Rightarrow> sha256_ctx" where
  "SHA256_Update ctx src =
     (let len = length src in
      if len = 0 then ctx
      else
        let r = buffered ctx;
            ctx = ctx\<lparr>sh_count := sh_count ctx + push_bit 3 (of_nat len)\<rparr>
        in if len < 64 - r then ctx\<lparr>sh_buf := memcpy_at (sh_buf ctx) r src len\<rparr>
           else
             let buf = memcpy_at (sh_buf ctx) r src (64 - r);
                 (state, src) = sha256_blocks (SHA256_Transform (sh_state ctx) buf) (drop (64 - r) src)
             in ctx\<lparr>sh_state := state, sh_buf := memcpy_at buf 0 src (length src)\<rparr>)"

definition SHA256_Final :: "sha256_ctx \<Rightarrow> bytes" where
  "SHA256_Final ctx = be32enc_vect (sh_state (SHA256_Pad ctx)) 4"

definition SHA256_Buf :: "sha256_ctx \<Rightarrow> bytes \<Rightarrow> bytes" where
  "SHA256_Buf ctx src = SHA256_Final (SHA256_Update (SHA256_Init ctx) src)"

section \<open>HMAC\<close>

record hmac_ctx =
  hm_ictx :: sha256_ctx
  hm_octx :: sha256_ctx

text \<open>\<open>pad\<close> filled with a byte, the key XORed into it.\<close>

definition key_pad :: "u8 \<Rightarrow> bytes \<Rightarrow> bytes" where
  "key_pad x K = foldl (\<lambda>pad i. pad[i := pad ! i XOR K ! i]) (replicate 64 x) [0..<length K]"

text \<open>A key longer than a block is hashed first, in the inner context.\<close>

definition HMAC_SHA256_Init :: "hmac_ctx \<Rightarrow> bytes \<Rightarrow> hmac_ctx" where
  "HMAC_SHA256_Init ctx K =
     (let (ictx, K) =
        (if 64 < length K then
           let ictx = SHA256_Pad (SHA256_Update (SHA256_Init (hm_ictx ctx)) K) in (ictx, be32enc_vect (sh_state ictx) 4)
         else (hm_ictx ctx, K))
      in ctx\<lparr>hm_ictx := SHA256_Update (SHA256_Init ictx) (key_pad 0x36 K),
             hm_octx := SHA256_Update (SHA256_Init (hm_octx ctx)) (key_pad 0x5c K)\<rparr>)"

definition HMAC_SHA256_Update :: "hmac_ctx \<Rightarrow> bytes \<Rightarrow> hmac_ctx" where
  "HMAC_SHA256_Update ctx d = ctx\<lparr>hm_ictx := SHA256_Update (hm_ictx ctx) d\<rparr>"

definition HMAC_SHA256_Final :: "hmac_ctx \<Rightarrow> bytes" where
  "HMAC_SHA256_Final ctx = SHA256_Final (SHA256_Update (hm_octx ctx) (SHA256_Final (hm_ictx ctx)))"

definition HMAC_SHA256_Buf :: "hmac_ctx \<Rightarrow> bytes \<Rightarrow> bytes \<Rightarrow> bytes" where
  "HMAC_SHA256_Buf ctx K d = HMAC_SHA256_Final (HMAC_SHA256_Update (HMAC_SHA256_Init ctx K) d)"

section \<open>PBKDF2\<close>

text \<open>\<open>None\<close> is the status -1.\<close>

definition SHA256_Pad_Almost :: "sha256_ctx \<Rightarrow> sha256_ctx option" where
  "SHA256_Pad_Almost ctx =
     (let r = buffered ctx in
      if 56 \<le> r then None
      else
        let len = be64enc (sh_count ctx);
            ctx = SHA256_Update ctx (take (56 - r) PAD);
            ctx = ctx\<lparr>sh_buf := (sh_buf ctx)[63 := len ! 7]\<rparr>
        in Some (SHA256_Update ctx (take 7 len)))"

text \<open>\<open>U\<close> and \<open>T\<close> after one more turn.\<close>

definition pbkdf2_turn :: "hmac_ctx \<Rightarrow> bytes \<times> bytes \<Rightarrow> bytes \<times> bytes" where
  "pbkdf2_turn Phctx = (\<lambda>(U, T).
     let U = HMAC_SHA256_Final (HMAC_SHA256_Update Phctx U)
     in (U, map (\<lambda>k. T ! k XOR U ! k) [0..<32]))"

text \<open>\<open>for (j = 2; j <= c; j++)\<close>, its counter a \<open>uint64_t\<close>.\<close>

partial_function (option) pbkdf2_loop :: "hmac_ctx \<Rightarrow> u64 \<Rightarrow> u64 \<Rightarrow> bytes \<times> bytes \<Rightarrow> (bytes \<times> bytes) option" where
  [code]: "pbkdf2_loop Phctx c j UT = (if j \<le> c then pbkdf2_loop Phctx c (j + 1) (pbkdf2_turn Phctx UT) else Some UT)"

definition pbkdf2_generic_block :: "hmac_ctx \<Rightarrow> hmac_ctx \<Rightarrow> u64 \<Rightarrow> nat \<Rightarrow> bytes option" where
  "pbkdf2_generic_block Phctx PShctx c i =
     (let T = HMAC_SHA256_Final (HMAC_SHA256_Update PShctx (be32enc (of_nat (i + 1))))
      in if 1 < c then map_option snd (pbkdf2_loop Phctx c 2 (T, T)) else Some T)"

text \<open>\<open>for (i = 0; i * 32 < dkLen; i++)\<close>: the blocks in turn, the last one cut.\<close>

definition pbkdf2_generic :: "hmac_ctx \<Rightarrow> bytes \<Rightarrow> bytes \<Rightarrow> u64 \<Rightarrow> nat \<Rightarrow> bytes option" where
  "pbkdf2_generic ctx passwd salt c dkLen =
     (let Phctx = HMAC_SHA256_Init ctx passwd;
          PShctx = HMAC_SHA256_Update Phctx salt
      in map_option concat
           (those (map (\<lambda>i. map_option (take (dkLen - i * 32)) (pbkdf2_generic_block Phctx PShctx c i)) [0..<(dkLen + 31) div 32])))"

text \<open>One block of the fast path: the number of the block is written into the padded buffers, which are transformed directly.
  Each block overwrites the same four bytes of one buffer and the same thirty-two of the other.\<close>

definition pbkdf2_fast_block :: "hmac_ctx \<Rightarrow> nat \<Rightarrow> nat \<Rightarrow> bytes" where
  "pbkdf2_fast_block hctx ivecp i =
     (let ibuf = memcpy_at (sh_buf (hm_ictx hctx)) ivecp (be32enc (of_nat (i + 1))) 4;
          state = SHA256_Transform (sh_state (hm_ictx hctx)) ibuf;
          obuf = memcpy_at (sh_buf (hm_octx hctx)) 0 (be32enc_vect state 4) 32
      in be32enc_vect (SHA256_Transform (sh_state (hm_octx hctx)) obuf) 4)"

text \<open>The preparation of the fast path; \<open>None\<close> is \<open>goto generic\<close>.\<close>

definition pbkdf2_fast_prepare :: "hmac_ctx \<Rightarrow> bytes \<Rightarrow> bytes \<Rightarrow> (hmac_ctx \<times> nat) option" where
  "pbkdf2_fast_prepare ctx passwd salt =
     (let hctx = HMAC_SHA256_Update (HMAC_SHA256_Init ctx passwd) salt;
          oldcount = (ucast (sh_count (hm_ictx hctx) AND push_bit 3 0x3f) :: u32);
          hctx = HMAC_SHA256_Update hctx [0, 0, 0, 0]
      in if sh_count (hm_ictx hctx) AND push_bit 3 0x3f < ucast oldcount then None
         else case SHA256_Pad_Almost (hm_ictx hctx) of None \<Rightarrow> None
         | Some ictx \<Rightarrow>
             let octx = (hm_octx hctx)\<lparr>sh_count := sh_count (hm_octx hctx) + push_bit 3 32\<rparr>;
                 octx = (case SHA256_Pad_Almost octx of None \<Rightarrow> octx | Some padded \<Rightarrow> padded)
             in Some (hctx\<lparr>hm_ictx := ictx, hm_octx := octx\<rparr>, unat (drop_bit 3 oldcount)))"

text \<open>\<open>None\<close>: the function does not return, because the \<open>assert\<close> fails or the loop over j does not end.\<close>

definition PBKDF2_SHA256 :: "hmac_ctx \<Rightarrow> bytes \<Rightarrow> bytes \<Rightarrow> u64 \<Rightarrow> nat \<Rightarrow> bytes option" where
  "PBKDF2_SHA256 ctx passwd salt c dkLen =
     (if 32 * (2 ^ 32 - 1) < dkLen then None
      else if c = 1 \<and> dkLen mod 32 = 0 \<and> length salt mod 64 \<le> 51 then
        (case pbkdf2_fast_prepare ctx passwd salt of
           None \<Rightarrow> pbkdf2_generic ctx passwd salt c dkLen
         | Some (hctx, ivecp) \<Rightarrow> Some (concat (map (pbkdf2_fast_block hctx ivecp) [0..<dkLen div 32])))
      else pbkdf2_generic ctx passwd salt c dkLen)"

end
