(* ===== verification/Sha256_Ok.thy ===== *)
theory Sha256_Ok
  imports Sha256
begin

text \<open>
  SHA-256 as its standard states it, and that the code computes it: the block function, which rotates the working variables
  by renaming them and extends the message schedule as it goes, and the streaming interface.
\<close>

section \<open>The standard\<close>

definition ch_ref :: "u32 \<Rightarrow> u32 \<Rightarrow> u32 \<Rightarrow> u32" where
  "ch_ref x y z = (x AND y) XOR (NOT x AND z)"

definition maj_ref :: "u32 \<Rightarrow> u32 \<Rightarrow> u32 \<Rightarrow> u32" where
  "maj_ref x y z = (x AND y) XOR (x AND z) XOR (y AND z)"

definition schedule_word :: "u32 list \<Rightarrow> nat \<Rightarrow> u32" where
  "schedule_word W t = s1 (W ! (t - 2)) + W ! (t - 7) + s0 (W ! (t - 15)) + W ! (t - 16)"

definition schedule :: "bytes \<Rightarrow> u32 list" where
  "schedule block = foldl (\<lambda>W t. W @ [schedule_word W t]) (map (\<lambda>i. be32dec (drop (4 * i) block)) [0..<16]) [16..<64]"

text \<open>A round on the variables a, ..., h in this order.\<close>

definition sha_round :: "u32 list \<Rightarrow> nat \<Rightarrow> u32 list \<Rightarrow> u32 list" where
  "sha_round W t v =
     (let T1 = v ! 7 + S1 (v ! 4) + ch_ref (v ! 4) (v ! 5) (v ! 6) + Krnd ! t + W ! t;
          T2 = S0 (v ! 0) + maj_ref (v ! 0) (v ! 1) (v ! 2)
      in [T1 + T2, v ! 0, v ! 1, v ! 2, v ! 3 + T1, v ! 4, v ! 5, v ! 6])"

definition sha_compress :: "u32 list \<Rightarrow> bytes \<Rightarrow> u32 list" where
  "sha_compress state block =
     (let v = foldl (\<lambda>v t. sha_round (schedule block) t v) state [0..<64] in map (\<lambda>i. state ! i + v ! i) [0..<8])"

definition sha_padding :: "nat \<Rightarrow> bytes" where
  "sha_padding n = 0x80 # replicate ((119 - n mod 64) mod 64) 0 @ be64enc (of_nat (8 * n))"

definition sha256 :: "bytes \<Rightarrow> bytes" where
  "sha256 m = concat (map be32enc (foldl sha_compress initial_state (chunks 64 (m @ sha_padding (length m)))))"

section \<open>The block function\<close>

lemma Ch_ref: "Ch x y z = ch_ref x y z"
  by (rule bit_word_eqI) (auto simp: Ch_def ch_ref_def bit_simps)

lemma Maj_ref: "Maj x y z = maj_ref x y z"
  by (rule bit_word_eqI) (auto simp: Maj_def maj_ref_def bit_simps)

text \<open>The variables a, ..., h before round i of a turn.\<close>

definition view :: "nat \<Rightarrow> u32 list \<Rightarrow> u32 list" where
  "view i S = map (\<lambda>k. S ! ((64 - i + k) mod 8)) [0..<8]"

lemma upt_8: "[0..<8] = [0, 1, 2, 3, 4, 5, 6, 7 :: nat]"
  by (simp add: upt_rec)

lemma view_RNDr:
  assumes "length S = 8" "i < 16"
  shows "view (Suc i) (RNDr W i ii S) = sha_round W (i + ii) (view i S)"
proof -
  obtain a b c d e f g h where S: "S = [a, b, c, d, e, f, g, h]" using list_of_length_8 [OF assms(1)] by metis
  have "i \<in> {0, 1, 2, 3, 4, 5, 6, 7, 8, 9, 10, 11, 12, 13, 14, 15}" using assms(2) by (simp only: insert_iff empty_iff) presburger
  then show ?thesis
    by (elim insertE emptyE)
      (simp_all add: S view_def upt_8 RNDr_def RND_def sha_round_def Let_def Ch_ref Maj_ref ac_simps)
qed

lemma length_RNDr [simp]: "length (RNDr W i ii S) = length S"
  by (simp add: RNDr_def RND_def Let_def)

lemma view_rounds:
  assumes "length S = 8" "n \<le> 16"
  shows "view n (foldl (\<lambda>S k. RNDr W k i S) S [0..<n]) = foldl (\<lambda>v t. sha_round W t v) (view 0 S) [i..<i + n]
    \<and> length (foldl (\<lambda>S k. RNDr W k i S) S [0..<n]) = 8"
  using assms(2)
proof (induction n)
  case (Suc n)
  then show ?case by (simp add: view_RNDr add.commute)
qed (use assms in simp)

lemma view_id: "length S = 8 \<Longrightarrow> view 0 S = S" "length S = 8 \<Longrightarrow> view 16 S = S"
  using list_of_length_8 [of S] by (simp_all add: view_def upt_8)

text \<open>A turn of sixteen rounds extends the schedule by sixteen words, the last turn excepted.\<close>

lemma length_schedule_fold: "length (foldl (\<lambda>W t. W @ [schedule_word W t]) W ts) = length W + length ts"
  by (induction ts arbitrary: W) simp_all

lemma length_schedule [simp]: "length (schedule block) = 64"
  by (simp add: schedule_def length_schedule_fold del: upt_rec_numeral)

lemma schedule_fold_prefix: "n \<le> length W \<Longrightarrow> take n (foldl (\<lambda>W t. W @ [schedule_word W t]) W ts) = take n W"
  by (induction ts arbitrary: W) simp_all

lemma schedule_first: "take 16 (schedule block) = map (\<lambda>i. be32dec (drop (4 * i) block)) [0..<16]"
  unfolding schedule_def by (subst schedule_fold_prefix) simp_all

lemma schedule_next:
  assumes "16 \<le> t" "t < 64"
  shows "schedule block ! t = schedule_word (schedule block) t"
proof -
  let ?f = "\<lambda>W t. W @ [schedule_word W t]"
  define U where "U = foldl ?f (map (\<lambda>i. be32dec (drop (4 * i) block)) [0..<16]) [16..<t]"
  have len: "length U = t" using assms(1) unfolding U_def length_schedule_fold length_map length_upt by simp
  have "[16..<64] = [16..<t] @ t # [Suc t..<64]" using assms by (metis order_less_imp_le upt_conv_Cons upt_split)
  then have "schedule block = foldl ?f (U @ [schedule_word U t]) [Suc t..<64]"
    unfolding schedule_def U_def by (simp only: foldl_append foldl.simps)
  then have "take (Suc t) (schedule block) = U @ [schedule_word U t]"
    using schedule_fold_prefix [of "Suc t" "U @ [schedule_word U t]"] len by simp
  then have nth: "schedule block ! j = (U @ [schedule_word U t]) ! j" if "j \<le> t" for j
    using that by (metis le_imp_less_Suc nth_take)
  have "schedule block ! j = U ! j" if "j < t" for j using nth [of j] that len by (simp add: nth_append)
  then have "schedule_word (schedule block) t = schedule_word U t" using assms(1) by (simp add: schedule_word_def)
  then show ?thesis using nth [of t] len by (metis nth_append_length order_refl)
qed

definition has_schedule :: "nat \<Rightarrow> bytes \<Rightarrow> u32 list \<Rightarrow> bool" where
  "has_schedule n block W \<longleftrightarrow> length W = 64 \<and> (\<forall>t<n. W ! t = schedule block ! t)"

lemma MSCH_schedule:
  assumes "has_schedule (i + k + 16) block W" "i + k + 16 < 64"
  shows "has_schedule (Suc (i + k + 16)) block (MSCH k i W)"
proof -
  have "schedule_word W (i + k + 16) = schedule_word (schedule block) (i + k + 16)"
    using assms(1) by (simp add: schedule_word_def has_schedule_def)
  then have "schedule_word W (i + k + 16) = schedule block ! (i + k + 16)" using schedule_next [of "i + k + 16"] assms(2) by simp
  moreover have "MSCH k i W = W[i + k + 16 := schedule_word W (i + k + 16)]"
    by (simp add: MSCH_def schedule_word_def ac_simps)
  ultimately show ?thesis using assms by (auto simp: has_schedule_def less_Suc_eq nth_list_update)
qed

lemma MSCH_turn:
  assumes "has_schedule (i + 16) block W" "i + n + 16 \<le> 64"
  shows "has_schedule (i + n + 16) block (foldl (\<lambda>W k. MSCH k i W) W [0..<n])"
  using assms(2)
proof (induction n)
  case (Suc n)
  then show ?case using MSCH_schedule [of i n block] by simp
qed (use assms in simp)

lemma mix_turn_ok:
  assumes "has_schedule (i + 16) block W" "length S = 8" "i = 48 \<or> i + 32 \<le> 64"
  shows "\<exists>W'. mix_turn i (S, W) = (foldl (\<lambda>v t. sha_round (schedule block) t v) S [i..<i + 16], W')
    \<and> (i = 48 \<or> has_schedule (i + 32) block W')"
proof -
  have "foldl (\<lambda>S k. RNDr W k i S) S [0..<16] = foldl (\<lambda>v t. sha_round W t v) S [i..<i + 16]"
    using view_rounds [OF assms(2) order_refl, of W i] view_id(1) [OF assms(2)]
      view_id(2) [of "foldl (\<lambda>S k. RNDr W k i S) S [0..<16]"] by metis
  also have "\<dots> = foldl (\<lambda>v t. sha_round (schedule block) t v) S [i..<i + 16]"
    using assms(1) by (intro foldl_cong) (simp_all add: sha_round_def has_schedule_def)
  finally show ?thesis using MSCH_turn [OF assms(1), of 16] assms(3) by (auto simp: mix_turn_def add.commute)
qed

lemma length_sha_round [simp]: "length (sha_round W t v) = 8"
  by (simp add: sha_round_def Let_def)

lemma length_rounds [simp]: "length v = 8 \<Longrightarrow> length (foldl (\<lambda>v t. sha_round W t v) v ts) = 8"
  by (induction ts arbitrary: v) simp_all

lemma be32dec_take: "be32dec (take 4 p) = be32dec p"
  by (simp add: be32dec_def)

lemma be32dec_vect_words: "be32dec_vect src n = map (\<lambda>i. be32dec (drop (4 * i) src)) [0..<2 * n]"
proof (induction n arbitrary: src)
  case (Suc n)
  have "[0..<Suc (Suc m)] = 0 # 1 # map (\<lambda>i. i + 2) [0..<m]" for m by (induction m) simp_all
  from this [of "2 * n"] have "[0..<2 * Suc n] = 0 # 1 # map (\<lambda>i. i + 2) [0..<2 * n]" by simp
  then show ?case using Suc by (simp add: be32dec_take comp_def add.commute)
qed simp

text \<open>The transformation is the compression function of the standard.\<close>

lemma Transform_compress:
  assumes "length state = 8"
  shows "SHA256_Transform state block = sha_compress state block"
proof -
  let ?W = "be32dec_vect block 8 @ replicate 48 0" and ?F = "\<lambda>v a b. foldl (\<lambda>v t. sha_round (schedule block) t v) v [a..<b]"
  have "be32dec_vect block 8 = take 16 (schedule block)" by (simp add: schedule_first be32dec_vect_words)
  then have "has_schedule (0 + 16) block ?W" by (simp add: has_schedule_def nth_append)
  then obtain W1 where W1: "mix_turn 0 (state, ?W) = (?F state 0 16, W1)" "has_schedule (16 + 16) block W1"
    using mix_turn_ok [of 0 block ?W state] assms by auto
  then obtain W2 where W2: "mix_turn 16 (?F state 0 16, W1) = (?F (?F state 0 16) 16 32, W2)" "has_schedule (32 + 16) block W2"
    using mix_turn_ok [of 16 block W1 "?F state 0 16"] assms by auto
  then obtain W3 where W3: "mix_turn 32 (?F (?F state 0 16) 16 32, W2) = (?F (?F (?F state 0 16) 16 32) 32 48, W3)"
      "has_schedule (48 + 16) block W3"
    using mix_turn_ok [of 32 block W2 "?F (?F state 0 16) 16 32"] assms by auto
  then obtain W4 where W4: "mix_turn 48 (?F (?F (?F state 0 16) 16 32) 32 48, W3)
      = (?F (?F (?F (?F state 0 16) 16 32) 32 48) 48 64, W4)"
    using mix_turn_ok [of 48 block W3 "?F (?F (?F state 0 16) 16 32) 32 48"] assms by auto
  have "[0..<64] = ((([0..<16] @ [16..<32]) @ [32..<48]) @ [48..<64 :: nat])"
    by (simp only: upt_split [symmetric])
  then have "?F (?F (?F (?F state 0 16) 16 32) 32 48) 48 64 = ?F state 0 64" by (simp only: foldl_append)
  moreover have "memcpy_at (replicate 8 0) 0 state 8 = state" using assms by (simp add: memcpy_at_def)
  ultimately show ?thesis
    using W1(1) W2(1) W3(1) W4 by (simp add: SHA256_Transform_def sha_compress_def)
qed

section \<open>Streaming\<close>

text \<open>The state of the hash after a byte: the chaining value and the bytes of the block begun.\<close>

definition sha_byte :: "u8 \<Rightarrow> u32 list \<times> bytes \<Rightarrow> u32 list \<times> bytes" where
  "sha_byte b = (\<lambda>(st, pend). if length pend = 63 then (SHA256_Transform st (pend @ [b]), []) else (st, pend @ [b]))"

lemma sha_byte_partial: "length pend + length d < 64 \<Longrightarrow> fold sha_byte d (st, pend) = (st, pend @ d)"
  by (induction d arbitrary: pend) (simp_all add: sha_byte_def)

lemma sha_byte_full:
  assumes "length pend + length d = 64" "d \<noteq> []"
  shows "fold sha_byte d (st, pend) = (SHA256_Transform st (pend @ d), [])"
proof -
  obtain e b where d: "d = e @ [b]" using assms(2) by (metis append_butlast_last_id)
  then have "fold sha_byte e (st, pend) = (st, pend @ e)" using assms(1) by (intro sha_byte_partial) simp
  then show ?thesis using d assms(1) by (simp add: sha_byte_def)
qed

lemma sha_byte_length: "length pend < 64 \<Longrightarrow> length (snd (fold sha_byte d (st, pend))) = (length pend + length d) mod 64"
proof (induction d arbitrary: st pend)
  case (Cons b d)
  show ?case
  proof (cases "length pend = 63")
    case True
    then have "fold sha_byte (b # d) (st, pend) = fold sha_byte d (SHA256_Transform st (pend @ [b]), [])"
      by (simp add: sha_byte_def)
    moreover have "(length pend + length (b # d)) mod 64 = length d mod 64" unfolding True by simp
    ultimately show ?thesis using Cons.IH [of "[]"] by (simp only:) simp
  next
    case False
    then have "fold sha_byte (b # d) (st, pend) = fold sha_byte d (st, pend @ [b])" by (simp add: sha_byte_def)
    then show ?thesis using Cons.IH [of "pend @ [b]"] False Cons.prems by (simp only:) simp
  qed
qed simp

lemma sha256_blocks_ok:
  "fold sha_byte d (st, []) = sha256_blocks st d \<and> length (snd (sha256_blocks st d)) < 64"
proof (induction st d rule: sha256_blocks.induct)
  case (1 st d)
  show ?case
  proof (cases "64 \<le> length d")
    case True
    then have "fold sha_byte (take 64 d) (st, []) = (SHA256_Transform st (take 64 d), [])"
      using sha_byte_full [of "[]" "take 64 d" st] by fastforce
    then have "fold sha_byte d (st, []) = fold sha_byte (drop 64 d) (SHA256_Transform st (take 64 d), [])"
      using fold_append [of sha_byte "take 64 d" "drop 64 d"] by simp
    then show ?thesis using 1 True by (simp add: sha256_blocks.simps [of st d])
  next
    case False
    then show ?thesis by (simp add: sha256_blocks.simps [of st d] sha_byte_partial)
  qed
qed

definition fed :: "sha256_ctx \<Rightarrow> bytes \<Rightarrow> bool" where
  "fed ctx m \<longleftrightarrow> sh_count ctx = of_nat (8 * length m) \<and> length (sh_buf ctx) = 64
     \<and> fold sha_byte m (initial_state, []) = (sh_state ctx, take (length m mod 64) (sh_buf ctx))"

lemma buffered_length:
  assumes "sh_count ctx = of_nat (8 * n)"
  shows "buffered ctx = n mod 64"
proof -
  have "(0x3f :: u64) = mask 6" by (simp add: mask_eq_exp_minus_1)
  then have "unat (drop_bit 3 (sh_count ctx) AND 0x3f) = unat (drop_bit 3 (sh_count ctx)) mod 64"
    by (simp only: take_bit_eq_mask [symmetric] unsigned_take_bit_eq) (simp add: take_bit_eq_mod)
  also have "unat (drop_bit 3 (sh_count ctx)) = (8 * n mod 2 ^ 64) div 8"
    by (simp only: unat_drop_bit_div assms unat_of_nat take_bit_eq_mod) simp
  also have "\<dots> = n mod 2 ^ 61"
    using mult_mod_right [of 8 n "2 ^ 61"] by simp
  also have "n mod 2 ^ 61 mod 64 = n mod 64" by (rule mod_mod_cancel) simp
  finally show ?thesis by (simp add: buffered_def)
qed

lemma length_Transform [simp]: "length (SHA256_Transform st b) = 8"
  by (simp add: SHA256_Transform_def Let_def split_beta)

lemma length_be32enc [simp]: "length (be32enc x) = 4"
  by (simp add: be32enc_def)

lemma length_be64enc [simp]: "length (be64enc x) = 8"
  by (simp add: be64enc_def)

lemma fedD:
  assumes "fed ctx m"
  shows "buffered ctx = length m mod 64" "length (sh_buf ctx) = 64"
    "fold sha_byte m (initial_state, []) = (sh_state ctx, take (length m mod 64) (sh_buf ctx))"
    "sh_count ctx = of_nat (8 * length m)"
  using assms buffered_length [of ctx "length m"] by (simp_all add: fed_def)

lemma fed_Init: "length (sh_buf ctx) = 64 \<Longrightarrow> fed (SHA256_Init ctx) []"
  by (simp add: fed_def SHA256_Init_def)

lemma count_Update: "of_nat (8 * m) + push_bit 3 (of_nat n) = (of_nat (8 * (m + n)) :: u64)"
  by (simp add: push_bit_eq_mult distrib_left mult.commute)

lemma fed_Update:
  assumes "fed ctx m"
  shows "fed (SHA256_Update ctx d) (m @ d)"
proof -
  let ?r = "length m mod 64"
  define pend where "pend = take ?r (sh_buf ctx)"
  note F = fedD [OF assms]
  have r: "?r < 64" by simp
  have pend: "length pend = ?r" using F(2) r by (simp add: pend_def)
  consider "d = []" | "d \<noteq> []" "length d < 64 - ?r" | "d \<noteq> []" "64 - ?r \<le> length d" by linarith
  then show ?thesis
  proof cases
    case 1
    then show ?thesis using assms by (simp add: SHA256_Update_def)
  next
    case 2
    have mod: "length (m @ d) mod 64 = ?r + length d" 
      using 2(2) mod_add_left_eq [of "length m" 64 "length d"] by simp
    have "fold sha_byte (m @ d) (initial_state, []) = (sh_state ctx, pend @ d)"
      using F(3) pend 2(2) sha_byte_partial [of pend d "sh_state ctx"] by (simp add: pend_def)
    moreover have "take (?r + length d) (memcpy_at (sh_buf ctx) ?r d (length d)) = pend @ d"
      using F(2) by (simp add: take_memcpy_at pend_def)
    moreover have "SHA256_Update ctx d = ctx\<lparr>sh_count := of_nat (8 * length (m @ d)), sh_buf := memcpy_at (sh_buf ctx) ?r d (length d)\<rparr>"
      using 2 F(1,4) count_Update [of "length m" "length d"] by (simp add: SHA256_Update_def Let_def)
    ultimately show ?thesis using F(2) 2(2) unfolding fed_def mod by simp
  next
    case 3
    let ?d1 = "take (64 - ?r) d" and ?d2 = "drop (64 - ?r) d"
    obtain st rest where blocks: "sha256_blocks (SHA256_Transform (sh_state ctx) (pend @ ?d1)) ?d2 = (st, rest)" by fastforce
    have buf: "memcpy_at (sh_buf ctx) ?r d (64 - ?r) = pend @ ?d1" using F(2) r by (simp add: memcpy_at_def pend_def)
    have "length pend + length ?d1 = 64" "?d1 \<noteq> []" using pend 3(1,2) r by simp_all
    then have "fold sha_byte ?d1 (sh_state ctx, pend) = (SHA256_Transform (sh_state ctx) (pend @ ?d1), [])"
      by (rule sha_byte_full)
    then have "fold sha_byte d (sh_state ctx, pend) = (st, rest)"
      using fold_append [of sha_byte ?d1 ?d2] sha256_blocks_ok [of ?d2 "SHA256_Transform (sh_state ctx) (pend @ ?d1)"] blocks
      by (metis append_take_drop_id comp_apply)
    then have all: "fold sha_byte (m @ d) (initial_state, []) = (st, rest)" using F(3) by (simp add: pend_def)
    then have mod: "length (m @ d) mod 64 = length rest" using sha_byte_length [of "[]" "m @ d" initial_state] by simp
    then have "length rest < 64" by (metis mod_less_divisor zero_less_numeral)
    moreover have "length (pend @ ?d1) = 64" using pend 3(2) r by simp
    moreover have "SHA256_Update ctx d
        = ctx\<lparr>sh_count := of_nat (8 * length (m @ d)), sh_state := st, sh_buf := memcpy_at (pend @ ?d1) 0 rest (length rest)\<rparr>"
    proof -
      have "(length d = 0) = False" "(length d < 64 - ?r) = False" using 3 by simp_all
      then show ?thesis
        unfolding SHA256_Update_def Let_def F(1,4) count_Update length_append
        by (simp only: if_False) (simp add: buf blocks)
    qed
    ultimately show ?thesis using all unfolding fed_def mod by (simp add: memcpy_at_def)
  qed
qed

section \<open>The result\<close>

lemma take_PAD: "take (Suc n) PAD = 0x80 # replicate (min n 63) 0"
  by (simp add: PAD_def)

text \<open>The last block holds the bytes begun, the padding and the length, if they fit; else they take two.\<close>

definition final_block :: "bytes \<Rightarrow> u64 \<Rightarrow> bytes" where
  "final_block pend count = pend @ (0x80 # replicate (55 - length pend) 0) @ be64enc count"

lemma sha_padding_short:
  "n mod 64 < 56 \<Longrightarrow> sha_padding n = (0x80 # replicate (55 - n mod 64) 0) @ be64enc (of_nat (8 * n))"
proof -
  assume r: "n mod 64 < 56"
  then have "119 - n mod 64 = 64 + (55 - n mod 64)" by simp
  then have "(119 - n mod 64) mod 64 = 55 - n mod 64" using r by (simp only: mod_add_self1) simp
  then show ?thesis by (simp add: sha_padding_def)
qed

lemma sha_padding_long:
  assumes "56 \<le> n mod 64"
  shows "sha_padding n = (0x80 # replicate (63 - n mod 64) 0) @ (replicate 56 0 @ be64enc (of_nat (8 * n)))"
proof -
  have "n mod 64 < 64" by simp
  then have "119 - n mod 64 = (63 - n mod 64) + 56" "119 - n mod 64 < 64" using assms by linarith+
  then have "(119 - n mod 64) mod 64 = (63 - n mod 64) + 56" by simp
  then have "replicate ((119 - n mod 64) mod 64) (0 :: u8) = replicate (63 - n mod 64) 0 @ replicate 56 0"
    by (simp only: replicate_add)
  then show ?thesis unfolding sha_padding_def by (simp only: append_Cons append_assoc)
qed

lemma memcpy_at_tail:
  "length a = k \<Longrightarrow> length c = n \<Longrightarrow> length b = n \<Longrightarrow> memcpy_at (a @ c) k b n = a @ b"
  by (simp add: memcpy_at_def)

lemma Pad_short:
  assumes "fed ctx m" "length m mod 64 < 56"
  shows "sh_state (SHA256_Pad ctx)
    = SHA256_Transform (sh_state ctx) (final_block (take (length m mod 64) (sh_buf ctx)) (of_nat (8 * length m)))"
proof -
  note F = fedD [OF assms(1)]
  let ?r = "length m mod 64"
  have "56 - ?r = Suc (55 - ?r)" using assms(2) by linarith
  then have "take (56 - ?r) PAD = 0x80 # replicate (55 - ?r) 0" using take_PAD [of "55 - ?r"] by simp
  then have "memcpy_at (sh_buf ctx) ?r PAD (56 - ?r) = take ?r (sh_buf ctx) @ (0x80 # replicate (55 - ?r) 0) @ drop 56 (sh_buf ctx)"
    using assms(2) by (simp add: memcpy_at_def)
  moreover have "memcpy_at ((take ?r (sh_buf ctx) @ (0x80 # replicate (55 - ?r) 0)) @ drop 56 (sh_buf ctx)) 56
      (be64enc (of_nat (8 * length m))) 8
    = (take ?r (sh_buf ctx) @ (0x80 # replicate (55 - ?r) 0)) @ be64enc (of_nat (8 * length m))"
    using F(2) assms(2) by (intro memcpy_at_tail) simp_all
  moreover have "length (take ?r (sh_buf ctx)) = ?r" using F(2) assms(2) by simp
  ultimately have "memcpy_at (memcpy_at (sh_buf ctx) ?r PAD (56 - ?r)) 56 (be64enc (of_nat (8 * length m))) 8
      = final_block (take ?r (sh_buf ctx)) (of_nat (8 * length m))"
    by (simp only: final_block_def append_assoc)
  then show ?thesis unfolding SHA256_Pad_def Let_def F(1) using assms(2) F(4) by simp
qed

lemma Pad_long:
  assumes "fed ctx m" "56 \<le> length m mod 64"
  shows "sh_state (SHA256_Pad ctx) = SHA256_Transform
      (SHA256_Transform (sh_state ctx) (take (length m mod 64) (sh_buf ctx) @ (0x80 # replicate (63 - length m mod 64) 0)))
      (replicate 56 0 @ be64enc (of_nat (8 * length m)))"
proof -
  note F = fedD [OF assms(1)]
  let ?r = "length m mod 64"
  have r: "?r < 64" by simp
  then have "64 - ?r = Suc (63 - ?r)" by linarith
  then have "take (64 - ?r) PAD = 0x80 # replicate (63 - ?r) 0" using take_PAD [of "63 - ?r"] by simp
  then have "memcpy_at (sh_buf ctx) ?r PAD (64 - ?r) = take ?r (sh_buf ctx) @ (0x80 # replicate (63 - ?r) 0)"
    using r F(2) by (simp add: memcpy_at_def)
  moreover have "memcpy_at (memset_at (take ?r (sh_buf ctx) @ (0x80 # replicate (63 - ?r) 0)) 0 0 56) 56 (be64enc (of_nat (8 * length m))) 8
      = replicate 56 0 @ be64enc (of_nat (8 * length m))"
    using r F(2) by (simp add: memcpy_at_def memset_at_def)
  moreover have "(?r < 56) = False" using assms(2) by simp
  ultimately show ?thesis unfolding SHA256_Pad_def Let_def F(1) using F(4) by simp
qed

lemma Pad_bytes:
  assumes "fed ctx m"
  shows "fold sha_byte (m @ sha_padding (length m)) (initial_state, []) = (sh_state (SHA256_Pad ctx), [])"
proof (cases "length m mod 64 < 56")
  case True
  let ?pend = "take (length m mod 64) (sh_buf ctx)"
  have "length ?pend = length m mod 64" using fedD(2) [OF assms] by simp
  then have "fold sha_byte (sha_padding (length m)) (sh_state ctx, ?pend)
      = (SHA256_Transform (sh_state ctx) (final_block ?pend (of_nat (8 * length m))), [])"
    using True sha_byte_full [of ?pend "sha_padding (length m)" "sh_state ctx"]
    by (simp add: sha_padding_short final_block_def)
  then show ?thesis using fedD(3) [OF assms] Pad_short [OF assms True] by simp
next
  case False
  then have long: "56 \<le> length m mod 64" by simp
  let ?pend = "take (length m mod 64) (sh_buf ctx)" and ?p = "0x80 # replicate (63 - length m mod 64) (0 :: u8)"
  let ?q = "replicate 56 0 @ be64enc (of_nat (8 * length m))"
  have "length m mod 64 < 64" by simp
  then have "length ?pend + length ?p = 64" using fedD(2) [OF assms] by simp
  then have "fold sha_byte ?p (sh_state ctx, ?pend) = (SHA256_Transform (sh_state ctx) (?pend @ ?p), [])"
    by (rule sha_byte_full) simp
  moreover have "fold sha_byte ?q (st, []) = (SHA256_Transform st ?q, [])" for st
    using sha_byte_full [of "[]" ?q st] by (simp del: fold_append)
  ultimately have "fold sha_byte (?p @ ?q) (sh_state ctx, ?pend)
      = (SHA256_Transform (SHA256_Transform (sh_state ctx) (?pend @ ?p)) ?q, [])"
    unfolding fold_append comp_apply by (simp only:)
  then have "fold sha_byte (sha_padding (length m)) (sh_state ctx, ?pend) = (sh_state (SHA256_Pad ctx), [])"
    unfolding sha_padding_long [OF long] Pad_long [OF assms long] .
  then show ?thesis using fedD(3) [OF assms] by (simp only: fold_append comp_apply)
qed

lemma dvd_mod_add: "k dvd n mod k + l \<Longrightarrow> k dvd n + l" for k n l :: nat
  by (simp only: dvd_eq_mod_eq_0 mod_add_left_eq)

text \<open>Bytes in blocks.\<close>

lemma fold_chunks:
  assumes "64 dvd length d" "length st = 8"
  shows "fold sha_byte d (st, []) = (foldl sha_compress st (chunks 64 d), [])"
  using assms
proof (induction d arbitrary: st rule: length_induct)
  case (1 d)
  show ?case
  proof (cases d)
    case (Cons x xs)
    then have len: "64 \<le> length d" using 1(2) dvd_imp_le [of 64 "length d"] by simp
    then have "fold sha_byte (take 64 d) (st, []) = (SHA256_Transform st (take 64 d), [])"
      using sha_byte_full [of "[]" "take 64 d" st] by fastforce
    then have "fold sha_byte d (st, []) = fold sha_byte (drop 64 d) (SHA256_Transform st (take 64 d), [])"
      using fold_append [of sha_byte "take 64 d" "drop 64 d"] by simp
    also have "\<dots> = (foldl sha_compress (SHA256_Transform st (take 64 d)) (chunks 64 (drop 64 d)), [])"
      using 1(1,2) len by (simp add: dvd_diff_nat)
    also have "chunks 64 d = take 64 d # chunks 64 (drop 64 d)" using Cons by (simp add: drop_Cons')
    ultimately show ?thesis using Transform_compress [OF 1(3)] by simp
  qed simp
qed

lemma be32enc_vect_concat: "length st = 2 * n \<Longrightarrow> be32enc_vect st n = concat (map be32enc st)"
proof (induction n arbitrary: st)
  case (Suc n)
  then have "length st = Suc (Suc (2 * n))" by simp
  then obtain a b r where "st = a # b # r" by (auto simp: length_Suc_conv)
  with Suc show ?case by simp
qed simp

text \<open>Whatever the calls by which a message was fed, the digest is its hash.\<close>

lemma fed_Final:
  assumes "fed ctx m"
  shows "SHA256_Final ctx = sha256 m"
proof -
  have "64 dvd length (m @ sha_padding (length m))"
  proof (cases "length m mod 64 < 56")
    case True
    then have "length m mod 64 + length (sha_padding (length m)) = 64" by (simp add: sha_padding_short)
    then show ?thesis by (simp only: length_append) (rule dvd_mod_add, simp)
  next
    case False
    moreover have "length m mod 64 < 64" by simp
    ultimately have "length m mod 64 + length (sha_padding (length m)) = 64 + 64" by (simp add: sha_padding_long)
    then show ?thesis by (simp only: length_append) (rule dvd_mod_add, simp)
  qed
  moreover have "length initial_state = 8" by (simp add: initial_state_def)
  ultimately have "sh_state (SHA256_Pad ctx) = foldl sha_compress initial_state (chunks 64 (m @ sha_padding (length m)))"
    using fold_chunks [of "m @ sha_padding (length m)" initial_state] Pad_bytes [OF assms] by (simp del: fold_append)
  moreover have "length (sh_state (SHA256_Pad ctx)) = 8" by (simp add: SHA256_Pad_def Let_def)
  ultimately show ?thesis using be32enc_vect_concat [of _ 4] by (simp add: SHA256_Final_def sha256_def)
qed

lemma SHA256_Buf_ok: "length (sh_buf ctx) = 64 \<Longrightarrow> SHA256_Buf ctx d = sha256 d"
  using fed_Final [OF fed_Update [OF fed_Init], of ctx d] by (simp add: SHA256_Buf_def)

lemma fed_pieces: "fed ctx m \<Longrightarrow> fed (foldl SHA256_Update ctx pieces) (m @ concat pieces)"
proof (induction pieces arbitrary: ctx m)
  case (Cons p ps)
  from Cons.IH [OF fed_Update [OF Cons.prems, of p]] show ?case by simp
qed simp

text \<open>A message given to \<open>SHA256_Init\<close>, \<open>SHA256_Update\<close> and \<open>SHA256_Final\<close> in any pieces has the digest that the standard
  states for it: the padding of \<open>FIPS 180-4\<close>, with the 64-bit length, and the fold of the 64-round compression over the blocks.\<close>

theorem sha256_streaming:
  assumes "length (sh_buf ctx) = 64"
  shows "SHA256_Final (foldl SHA256_Update (SHA256_Init ctx) pieces) = sha256 (concat pieces)"
  using fed_Final [OF fed_pieces [OF fed_Init [OF assms], of pieces]] by simp

end
