(* ===== verification/Pbkdf2_Ok.thy ===== *)
theory Pbkdf2_Ok
  imports Sha256_Ok
begin

text \<open>
  HMAC-SHA256 and PBKDF2 compute what their standards state, PBKDF2 on both of its paths: the fast one pads the two
  messages once and then writes the number of each block into the padded buffers.
\<close>

section \<open>The standards\<close>

definition hmac_key :: "bytes \<Rightarrow> bytes" where
  "hmac_key K = (let K = (if 64 < length K then sha256 K else K) in K @ replicate (64 - length K) 0)"

definition hmac_inner :: "bytes \<Rightarrow> bytes" where
  "hmac_inner K = map (\<lambda>k. 0x36 XOR k) (hmac_key K)"

definition hmac_outer :: "bytes \<Rightarrow> bytes" where
  "hmac_outer K = map (\<lambda>k. 0x5c XOR k) (hmac_key K)"

definition hmac :: "bytes \<Rightarrow> bytes \<Rightarrow> bytes" where
  "hmac K m = sha256 (hmac_outer K @ sha256 (hmac_inner K @ m))"

text \<open>\<open>U\<^sub>j\<close> and \<open>T\<^sub>i\<close>.\<close>

definition pbkdf2_U :: "bytes \<Rightarrow> bytes \<Rightarrow> nat \<Rightarrow> nat \<Rightarrow> bytes" where
  "pbkdf2_U P S i j = (hmac P ^^ (j - 1)) (hmac P (S @ be32enc (of_nat i)))"

definition pbkdf2_T :: "bytes \<Rightarrow> bytes \<Rightarrow> nat \<Rightarrow> nat \<Rightarrow> bytes" where
  "pbkdf2_T P S c i = foldl (\<lambda>T j. map2 (\<lambda>x y. x XOR y) T (pbkdf2_U P S i j)) (pbkdf2_U P S i 1) [2..<Suc c]"

definition pbkdf2 :: "bytes \<Rightarrow> bytes \<Rightarrow> nat \<Rightarrow> nat \<Rightarrow> bytes" where
  "pbkdf2 P S c dkLen = take dkLen (concat (map (pbkdf2_T P S c) [1..<Suc ((dkLen + 31) div 32)]))"

section \<open>HMAC\<close>

lemma length_sha_compress_fold: "length st = 8 \<Longrightarrow> length (foldl sha_compress st bs) = 8"
  by (induction bs arbitrary: st) (simp_all add: sha_compress_def Let_def)

lemma length_sha256 [simp]: "length (sha256 m) = 32"
proof -
  have "length (concat (map be32enc ws)) = 4 * length ws" for ws by (induction ws) simp_all
  then show ?thesis by (simp add: sha256_def length_sha_compress_fold initial_state_def)
qed

lemma length_hmac [simp]: "length (hmac K m) = 32"
  by (simp add: hmac_def)

lemma length_pads [simp]: "length (hmac_inner K) = 64" "length (hmac_outer K) = 64"
  by (simp_all add: hmac_inner_def hmac_outer_def hmac_key_def Let_def)

lemma key_pad_fold:
  assumes "n \<le> length K" "length K \<le> 64"
  shows "foldl (\<lambda>pad i. pad[i := pad ! i XOR K ! i]) (replicate 64 x) [0..<n]
    = map (\<lambda>k. x XOR k) (take n K) @ replicate (64 - n) x"
  using assms(1)
proof (induction n)
  case (Suc n)
  then have "64 - n = Suc (63 - n)" using assms(2) by linarith
  then have rep: "replicate (64 - n) x = x # replicate (63 - n) x" by (simp only: replicate_Suc)
  have n: "n < length K" using Suc.prems by simp
  then have "[0..<Suc n] = [0..<n] @ [n]" "min (length K) n = n" by simp_all
  then show ?case using Suc.IH n rep by (simp add: take_Suc_conv_app_nth nth_append list_update_append)
qed simp

lemma key_pad_map: "length K \<le> 64 \<Longrightarrow> key_pad x K = map (\<lambda>k. x XOR k) (K @ replicate (64 - length K) 0)"
  using key_pad_fold [of "length K" K x] by (simp add: key_pad_def)

definition hmac_fed :: "hmac_ctx \<Rightarrow> bytes \<Rightarrow> bytes \<Rightarrow> bool" where
  "hmac_fed ctx K m \<longleftrightarrow> fed (hm_ictx ctx) (hmac_inner K @ m) \<and> fed (hm_octx ctx) (hmac_outer K)"

definition hmac_buffers :: "hmac_ctx \<Rightarrow> bool" where
  "hmac_buffers ctx \<longleftrightarrow> length (sh_buf (hm_ictx ctx)) = 64 \<and> length (sh_buf (hm_octx ctx)) = 64"

lemma length_buf_Pad:
  assumes "fed ctx m"
  shows "length (sh_buf (SHA256_Pad ctx)) = 64"
proof -
  have "length m mod 64 < 64" by simp
  then show ?thesis using fedD(2) [OF assms] unfolding SHA256_Pad_def Let_def fedD(1) [OF assms]
    by (simp add: PAD_def del: replicate.simps)
qed

lemma hmac_fed_Init:
  assumes "hmac_buffers ctx"
  shows "hmac_fed (HMAC_SHA256_Init ctx K) K []"
proof -
  let ?c = "SHA256_Update (SHA256_Init (hm_ictx ctx)) K"
  have "fed ?c K" using fed_Update [OF fed_Init, of "hm_ictx ctx" K] assms by (simp add: hmac_buffers_def)
  then have hash: "be32enc_vect (sh_state (SHA256_Pad ?c)) 4 = sha256 K" "length (sh_buf (SHA256_Pad ?c)) = 64"
    using fed_Final length_buf_Pad by (simp_all add: SHA256_Final_def)
  have init: "fed (SHA256_Update (SHA256_Init c) d) d" if "length (sh_buf c) = 64" for c d
    using fed_Update [OF fed_Init [OF that], of d] by simp
  show ?thesis
    using assms hash
    by (auto simp: hmac_fed_def HMAC_SHA256_Init_def hmac_inner_def hmac_outer_def hmac_key_def hmac_buffers_def Let_def key_pad_map
        intro!: init [THEN back_subst [where P = "fed _"]])
qed

lemma hmac_fed_Update: "hmac_fed ctx K m \<Longrightarrow> hmac_fed (HMAC_SHA256_Update ctx d) K (m @ d)"
  using fed_Update [of "hm_ictx ctx" "hmac_inner K @ m" d] by (simp add: hmac_fed_def HMAC_SHA256_Update_def)

lemma hmac_fed_Final: "hmac_fed ctx K m \<Longrightarrow> HMAC_SHA256_Final ctx = hmac K m"
  using fed_Final [of "hm_ictx ctx" "hmac_inner K @ m"] fed_Final [OF fed_Update, of "hm_octx ctx" "hmac_outer K"]
  by (simp add: hmac_fed_def HMAC_SHA256_Final_def hmac_def)

lemma HMAC_SHA256_Buf_ok: "hmac_buffers ctx \<Longrightarrow> HMAC_SHA256_Buf ctx K d = hmac K d"
  using hmac_fed_Final [OF hmac_fed_Update [OF hmac_fed_Init, of ctx K d]] by (simp add: HMAC_SHA256_Buf_def)

section \<open>The generic path\<close>

text \<open>The loop ends unless its bound is the last \<open>uint64_t\<close>, which its counter never exceeds.\<close>

lemma pbkdf2_loop_ends:
  assumes "c \<noteq> - 1" "unat c + 1 = unat j + n"
  shows "pbkdf2_loop Phctx c j UT = Some ((pbkdf2_turn Phctx ^^ n) UT)"
  using assms(2)
proof (induction n arbitrary: j UT)
  case 0
  then have "\<not> j \<le> c" by (simp add: word_le_nat_alt)
  then show ?case by (simp add: pbkdf2_loop.simps [of Phctx c j])
next
  case (Suc n)
  then have "j \<le> c" by (simp add: word_le_nat_alt)
  have "unat c \<noteq> unat (- 1 :: u64)" using assms(1) by (simp only: word_unat_eq_iff [symmetric] not_False_eq_True)
  then have "unat c < 2 ^ 64 - 1" using unsigned_less [of c, where ?'a = nat] by (simp add: unsigned_minus_1_eq_mask mask_eq_exp_minus_1)
  then have "unat (j + 1) = unat j + 1" using Suc.prems by (simp add: unat_word_ariths)
  with Suc have "unat c + 1 = unat (j + 1) + n" by simp
  from Suc.IH [OF this] \<open>j \<le> c\<close> show ?case by (simp add: pbkdf2_loop.simps [of Phctx c j] funpow_swap1)
qed

lemma pbkdf2_loop_bound:
  assumes "pbkdf2_loop Phctx c j UT = Some R"
  shows "c \<noteq> - 1"
proof (rule pbkdf2_loop.raw_induct [where P = "\<lambda>Phctx c j UT R. c \<noteq> - 1", OF _ assms])
  fix rec Phctx UT R and c j :: u64
  assume IH: "\<And>Phctx c j UT R. rec Phctx c j UT = Some R \<Longrightarrow> c \<noteq> - 1"
    and turn: "(if j \<le> c then rec Phctx c (j + 1) (pbkdf2_turn Phctx UT) else Some UT) = Some R"
  show "c \<noteq> - 1"
  proof (cases "j \<le> c")
    case True
    then show ?thesis using turn IH [of Phctx c "j + 1"] by simp
  next
    case False
    then show ?thesis using word_order.extremum [of j] by auto
  qed
qed

lemma pbkdf2_loop_stuck: "pbkdf2_loop Phctx (- 1) j UT = None"
  using pbkdf2_loop_bound [of Phctx "- 1" j UT] by (cases "pbkdf2_loop Phctx (- 1) j UT") auto

lemma length_pbkdf2_U [simp]: "length (pbkdf2_U P S i j) = 32"
  by (cases "j - 1") (simp_all add: pbkdf2_U_def)

lemma length_pbkdf2_T [simp]: "length (pbkdf2_T P S c i) = 32"
proof -
  have "length (foldl (\<lambda>T j. map2 (\<lambda>x y. x XOR y) T (pbkdf2_U P S i j)) T js) = 32" if "length T = 32" for T js
    using that by (induction js arbitrary: T) simp_all
  then show ?thesis by (simp add: pbkdf2_T_def)
qed

lemma pbkdf2_turn_ok:
  assumes "hmac_fed Phctx P []" "length T = 32"
  shows "pbkdf2_turn Phctx (pbkdf2_U P S i (Suc n), T)
    = (pbkdf2_U P S i (Suc (Suc n)), map2 (\<lambda>x y. x XOR y) T (pbkdf2_U P S i (Suc (Suc n))))"
proof -
  have "HMAC_SHA256_Final (HMAC_SHA256_Update Phctx u) = hmac P u" for u
    using hmac_fed_Final [OF hmac_fed_Update [OF assms(1)], of u] by simp
  moreover have "hmac P (pbkdf2_U P S i (Suc n)) = pbkdf2_U P S i (Suc (Suc n))" by (simp add: pbkdf2_U_def)
  moreover have "map (\<lambda>k. T ! k XOR u ! k) [0..<32] = map2 (\<lambda>x y. x XOR y) T u" if "length u = 32" for u
    using that assms(2) by (intro nth_equalityI) (simp_all del: upt_rec_numeral)
  ultimately show ?thesis unfolding pbkdf2_turn_def Let_def by simp
qed

lemma pbkdf2_turns:
  assumes "hmac_fed Phctx P []"
  shows "(pbkdf2_turn Phctx ^^ n) (pbkdf2_U P S i 1, pbkdf2_U P S i 1) = (pbkdf2_U P S i (Suc n), pbkdf2_T P S (Suc n) i)"
proof (induction n)
  case 0
  then show ?case by (simp add: pbkdf2_T_def)
next
  case (Suc n)
  have "[2..<Suc (Suc (Suc n))] = [2..<Suc (Suc n)] @ [Suc (Suc n)]" by simp
  then have "pbkdf2_T P S (Suc (Suc n)) i = map2 (\<lambda>x y. x XOR y) (pbkdf2_T P S (Suc n) i) (pbkdf2_U P S i (Suc (Suc n)))"
    unfolding pbkdf2_T_def by (simp only: foldl_append foldl.simps)
  with Suc show ?case using pbkdf2_turn_ok [OF assms length_pbkdf2_T [of P S "Suc n" i], of S i n] by simp
qed

lemma generic_block_ok:
  assumes "hmac_fed Phctx P []" "hmac_fed PShctx P S" "c \<noteq> - 1"
  shows "pbkdf2_generic_block Phctx PShctx c i = Some (pbkdf2_T P S (unat c) (Suc i))"
proof -
  have T: "HMAC_SHA256_Final (HMAC_SHA256_Update PShctx (be32enc (of_nat (i + 1)))) = pbkdf2_U P S (Suc i) 1"
    using hmac_fed_Final [OF hmac_fed_Update [OF assms(2)]] by (simp add: pbkdf2_U_def)
  show ?thesis
  proof (cases "1 < c")
    case True
    then have c: "unat c = Suc (unat c - 1)" by (simp add: word_less_nat_alt)
    then have "unat c + 1 = unat (2 :: u64) + (unat c - 1)" by simp
    from pbkdf2_loop_ends [OF assms(3) this] have "pbkdf2_generic_block Phctx PShctx c i = Some (pbkdf2_T P S (Suc (unat c - 1)) (Suc i))"
      using True unfolding pbkdf2_generic_block_def Let_def T by (simp only: if_True option.map pbkdf2_turns [OF assms(1)] snd_conv)
    then show ?thesis using c by simp
  next
    case False
    then have "[2..<Suc (unat c)] = []" by (simp add: word_less_nat_alt)
    then show ?thesis using False unfolding pbkdf2_generic_block_def Let_def T pbkdf2_T_def by simp
  qed
qed

lemma concat_cut:
  assumes "\<And>i. length (f i) = k"
  shows "concat (map (\<lambda>i. take (d - i * k) (f i)) [0..<n]) = take d (concat (map f [0..<n]))"
proof (induction n)
  case (Suc n)
  have "length (concat (map f [0..<m])) = m * k" for m by (induction m) (simp_all add: assms)
  with Suc show ?case by simp
qed simp

lemma those_Some: "those (map (\<lambda>i. Some (f i)) is) = Some (map f is)"
  by (induction "is") simp_all

lemma blocks_from_one: "map f [1..<Suc n] = map (\<lambda>i. f (Suc i)) [0..<n]"
  by (simp add: map_Suc_upt [symmetric] del: upt_Suc)

lemma pbkdf2_generic_ok:
  assumes "hmac_buffers ctx" "c \<noteq> - 1"
  shows "pbkdf2_generic ctx P S c dkLen = Some (pbkdf2 P S (unat c) dkLen)"
proof -
  note init = hmac_fed_Init [OF assms(1), of P]
  have "hmac_fed (HMAC_SHA256_Update (HMAC_SHA256_Init ctx P) S) P S" using hmac_fed_Update [OF init, of S] by simp
  from generic_block_ok [OF init this assms(2)] show ?thesis
    unfolding pbkdf2_generic_def pbkdf2_def Let_def blocks_from_one
    by (simp only: option.map those_Some concat_cut [OF length_pbkdf2_T])
qed

section \<open>The fast path\<close>

lemma Update_small:
  assumes "sh_count ctx = of_nat (8 * n)" "d \<noteq> []" "length d < 64 - n mod 64"
  shows "SHA256_Update ctx d
    = ctx\<lparr>sh_count := of_nat (8 * (n + length d)), sh_buf := memcpy_at (sh_buf ctx) (n mod 64) d (length d)\<rparr>"
  using assms(2,3) buffered_length [OF assms(1)] count_Update [of n "length d"] assms(1) by (simp add: SHA256_Update_def Let_def)

lemma final_block_tail:
  assumes "length A = 56" "length B = 8"
  shows "memcpy_at ((A @ B)[63 := be64enc x ! 7]) 56 (take 7 (be64enc x)) 7 = A @ be64enc x"
proof -
  obtain b0 b1 b2 b3 b4 b5 b6 b7 where "B = [b0, b1, b2, b3, b4, b5, b6, b7]"
    using assms(2) by (auto simp: length_Suc_conv eval_nat_numeral)
  then show ?thesis using assms(1) by (simp add: memcpy_at_def list_update_append be64enc_def)
qed

lemma Pad_Almost_ok:
  assumes "sh_count ctx = of_nat (8 * n)" "length (sh_buf ctx) = 64" "n mod 64 < 56"
  obtains padded where "SHA256_Pad_Almost ctx = Some padded" "sh_state padded = sh_state ctx"
    "sh_buf padded = final_block (take (n mod 64) (sh_buf ctx)) (of_nat (8 * n))"
proof -
  let ?r = "n mod 64" and ?p = "take (56 - n mod 64) PAD"
  let ?A = "take ?r (sh_buf ctx) @ (0x80 # replicate (55 - ?r) 0)"
  have p: "length ?p = 56 - ?r" by (simp add: PAD_def)
  then have "length ?p < 64 - ?r" "length ?p \<noteq> 0" using assms(3) by linarith+
  then have "?p \<noteq> []" "length ?p < 64 - ?r" by auto
  note U1 = Update_small [OF assms(1) this, unfolded p]
  have "56 - ?r = Suc (55 - ?r)" using assms(3) by linarith
  then have "?p = 0x80 # replicate (55 - ?r) 0" using take_PAD [of "55 - ?r"] by simp
  then have buf: "memcpy_at (sh_buf ctx) ?r ?p (56 - ?r) = ?A @ drop 56 (sh_buf ctx)"
    using assms(3) by (simp add: memcpy_at_def)
  define mid where "mid = (SHA256_Update ctx ?p)\<lparr>sh_buf := (?A @ drop 56 (sh_buf ctx))[63 := be64enc (of_nat (8 * n)) ! 7]\<rparr>"
  have "n + (56 - ?r) = 64 * (n div 64) + 56" using assms(3) mult_div_mod_eq [of 64 n] by linarith
  then have "(n + (56 - ?r)) mod 64 = 56" by (simp only: mod_mult_self4) simp
  moreover have "sh_count mid = of_nat (8 * (n + (56 - ?r)))" by (simp only: mid_def U1) simp
  moreover define len where "len = take 7 (be64enc (of_nat (8 * n)))"
  moreover have "length len = 7" "len \<noteq> []" by (simp_all add: len_def be64enc_def)
  ultimately have U2: "SHA256_Update mid len
      = mid\<lparr>sh_count := of_nat (8 * (n + (56 - ?r) + 7)), sh_buf := memcpy_at (sh_buf mid) 56 len 7\<rparr>"
    using Update_small [of mid "n + (56 - ?r)" len] by simp
  have "SHA256_Pad_Almost ctx = Some (SHA256_Update mid len)"
    using assms(3) unfolding SHA256_Pad_Almost_def Let_def buffered_length [OF assms(1)] mid_def len_def
    by (simp add: U1 buf assms(1))
  moreover have "sh_state (SHA256_Update mid len) = sh_state ctx"
    unfolding U2 by (simp add: mid_def U1)
  moreover have "sh_buf (SHA256_Update mid len) = final_block (take ?r (sh_buf ctx)) (of_nat (8 * n))"
  proof -
    have "length ?A = 56" "length (drop 56 (sh_buf ctx)) = 8" using assms(2,3) by simp_all
    note final_block_tail [OF this, of "of_nat (8 * n)"]
    moreover have "sh_buf (SHA256_Update mid len) = memcpy_at (sh_buf mid) 56 len 7" by (simp only: U2) simp
    moreover have "min (length (sh_buf ctx)) ?r = ?r" using assms(2,3) by simp
    ultimately show ?thesis by (simp add: mid_def len_def final_block_def)
  qed
  ultimately show ?thesis by (rule that)
qed

text \<open>The hash of a message whose last bytes fit the block begun.\<close>

lemma sha256_small:
  assumes "fed ctx m" "d \<noteq> []" "length m mod 64 + length d < 56"
  shows "sha256 (m @ d) = be32enc_vect (SHA256_Transform (sh_state ctx)
    (final_block (take (length m mod 64) (sh_buf ctx) @ d) (of_nat (8 * (length m + length d))))) 4"
proof -
  note F = fedD [OF assms(1)]
  have mod: "length (m @ d) mod 64 = length m mod 64 + length d" 
    using assms(3) mod_add_left_eq [of "length m" 64 "length d"] by simp
  have "length d < 64 - length m mod 64" using assms(3) by linarith
  note U = Update_small [OF F(4) assms(2) this]
  have "take (length m mod 64 + length d) (memcpy_at (sh_buf ctx) (length m mod 64) d (length d)) = take (length m mod 64) (sh_buf ctx) @ d"
    using F(2) by (simp add: take_memcpy_at)
  moreover have "sh_state (SHA256_Pad (SHA256_Update ctx d)) = SHA256_Transform (sh_state (SHA256_Update ctx d))
      (final_block (take (length m mod 64 + length d) (sh_buf (SHA256_Update ctx d))) (of_nat (8 * (length m + length d))))"
    using Pad_short [OF fed_Update [OF assms(1), of d]] assms(3) unfolding mod by (simp only: length_append)
  ultimately have "sh_state (SHA256_Pad (SHA256_Update ctx d)) = SHA256_Transform (sh_state ctx)
      (final_block (take (length m mod 64) (sh_buf ctx) @ d) (of_nat (8 * (length m + length d))))"
    by (simp add: U)
  then show ?thesis using fed_Final [OF fed_Update [OF assms(1), of d]] by (simp add: SHA256_Final_def)
qed

text \<open>The place of the block number, from the count.\<close>

lemma and_push_bit: "x AND push_bit n y = push_bit n (drop_bit n x AND y)" for x y :: u64
  by (rule bit_eqI) (auto simp: bit_simps)

lemma count_low_bits:
  fixes ctx :: sha256_ctx
  assumes "sh_count ctx = of_nat (8 * n)"
  shows "sh_count ctx AND push_bit 3 0x3f = of_nat (8 * (n mod 64))"
proof -
  have "sh_count ctx AND push_bit 3 0x3f = push_bit 3 (drop_bit 3 (sh_count ctx) AND 0x3f)" by (rule and_push_bit)
  moreover have "drop_bit 3 (sh_count ctx) AND 0x3f = of_nat (n mod 64)"
    using buffered_length [OF assms] by (simp add: buffered_def word_unat_eq_iff unat_of_nat take_bit_eq_mod)
  ultimately show ?thesis by (simp add: push_bit_eq_mult mult.commute)
qed

lemma fast_prepare_ok:
  assumes "hmac_buffers ctx" "length S mod 64 \<le> 51"
  obtains hctx where "pbkdf2_fast_prepare ctx P S = Some (hctx, length S mod 64)"
    "\<And>i. pbkdf2_fast_block hctx (length S mod 64) i = hmac P (S @ be32enc (of_nat (i + 1)))"
proof -
  let ?r = "length S mod 64" and ?m = "hmac_inner P @ S"
  define h1 where "h1 = HMAC_SHA256_Update (HMAC_SHA256_Init ctx P) S"
  define z where "z = [0 :: u8, 0, 0, 0]"
  define h2 where "h2 = HMAC_SHA256_Update h1 z"
  have z: "length z = 4" "z \<noteq> []" by (simp_all add: z_def)
  have "hmac_fed h1 P S" unfolding h1_def using hmac_fed_Update [OF hmac_fed_Init [OF assms(1), of P], of S] by simp
  then have I: "fed (hm_ictx h1) ?m" and O1: "fed (hm_octx h1) (hmac_outer P)" by (simp_all add: hmac_fed_def)
  have r: "length ?m mod 64 = ?r" "length ?m = 64 + length S" by simp_all
  have small: "length z < 64 - length ?m mod 64" using assms(2) r z by simp
  have h2: "hm_octx h2 = hm_octx h1" "hm_ictx h2 = (hm_ictx h1)\<lparr>sh_count := of_nat (8 * (length ?m + 4)),
      sh_buf := memcpy_at (sh_buf (hm_ictx h1)) ?r z 4\<rparr>"
    using Update_small [OF fedD(4) [OF I] z(2) small] r z by (simp_all add: h2_def HMAC_SHA256_Update_def)
  have mod: "(length ?m + 4) mod 64 = ?r + 4" using assms(2) mod_add_left_eq [of "length ?m" 64 4] r(1) by simp
  have "sh_count (hm_ictx h2) = of_nat (8 * (length ?m + 4))" "length (sh_buf (hm_ictx h2)) = 64" "(length ?m + 4) mod 64 < 56"
    using fedD(2) [OF I] assms(2) mod z by (simp_all add: h2)
  from Pad_Almost_ok [OF this] obtain i3 where pad: "SHA256_Pad_Almost (hm_ictx h2) = Some i3" "sh_state i3 = sh_state (hm_ictx h2)"
    "sh_buf i3 = final_block (take ((length ?m + 4) mod 64) (sh_buf (hm_ictx h2))) (of_nat (8 * (length ?m + 4)))" .
  have "sh_state (hm_ictx h2) = sh_state (hm_ictx h1)" by (simp add: h2)
  note i3 = pad(1) pad(2) [unfolded this] pad(3) [unfolded mod]
  define o2 where "o2 = (hm_octx h2)\<lparr>sh_count := sh_count (hm_octx h2) + push_bit 3 32\<rparr>"
  have "sh_count o2 = of_nat (8 * 96)" "length (sh_buf o2) = 64" "(96 :: nat) mod 64 < 56"
    using fedD(2,4) [OF O1] by (simp_all add: o2_def h2 push_bit_eq_mult)
  from Pad_Almost_ok [OF this] obtain o3 where o3: "SHA256_Pad_Almost o2 = Some o3" "sh_state o3 = sh_state (hm_octx h1)"
    "sh_buf o3 = final_block (take 32 (sh_buf (hm_octx h1))) (of_nat (8 * 96))"
    by (auto simp: o2_def h2)
  define hctx where "hctx = h2\<lparr>hm_ictx := i3, hm_octx := o3\<rparr>"
  show ?thesis
  proof
    have old: "sh_count (hm_ictx h1) AND push_bit 3 0x3f = of_nat (8 * ?r)" using count_low_bits [OF fedD(4) [OF I]] r by simp
    have new: "sh_count (hm_ictx h2) AND push_bit 3 0x3f = of_nat (8 * (?r + 4))"
      using count_low_bits [of "hm_ictx h2" "length ?m + 4"] mod by (simp add: h2)
    show "pbkdf2_fast_prepare ctx P S = Some (hctx, ?r)"
    proof -
      have "ucast (of_nat k :: u64) = (of_nat k :: u32)" "ucast (of_nat k :: u32) = (of_nat k :: u64)" if "k < 2 ^ 32" for k
        using that by (simp_all add: word_unat_eq_iff unat_of_nat take_bit_eq_mod unsigned_ucast_eq)
      moreover have k: "8 * ?r < 2 ^ 32" "8 * (?r + 4) < 2 ^ 64" using assms(2) by simp_all
      ultimately have old32: "ucast (sh_count (hm_ictx h1) AND push_bit 3 0x3f) = (of_nat (8 * ?r) :: u32)"
        "ucast (of_nat (8 * ?r) :: u32) = (of_nat (8 * ?r) :: u64)" unfolding old by blast+
      have "\<not> of_nat (8 * (?r + 4)) < (of_nat (8 * ?r) :: u64)"
        using k by (simp only: word_less_nat_alt unat_of_nat take_bit_eq_mod) simp
      moreover have "unat (drop_bit 3 (of_nat (8 * ?r) :: u32)) = ?r"
        using k(1) by (simp only: unat_drop_bit_div unat_of_nat take_bit_eq_mod) simp
      ultimately show ?thesis
        unfolding pbkdf2_fast_prepare_def Let_def h1_def [symmetric] z_def [symmetric] h2_def [symmetric] old32 new
        by (simp only: if_False i3(1) o2_def [symmetric] o3(1) option.case) (simp add: hctx_def h2_def)
    qed
    show "pbkdf2_fast_block hctx ?r i = hmac P (S @ be32enc (of_nat (i + 1)))" for i
    proof -
      let ?e = "be32enc (of_nat (i + 1))"
      have pend: "take (?r + 4) (sh_buf (hm_ictx h2)) = take ?r (sh_buf (hm_ictx h1)) @ z"
        using fedD(2) [OF I] assms(2) z take_memcpy_at [where off = ?r and n = 4 and dst = "sh_buf (hm_ictx h1)" and src = z] by (simp add: h2)
      have len: "length (take ?r (sh_buf (hm_ictx h1))) = ?r" using fedD(2) [OF I] assms(2) by simp
      have "memcpy_at (final_block (p @ z) n) (length p) ?e 4 = final_block (p @ ?e) n" for p n
        using z by (simp add: final_block_def memcpy_at_def)
      from this [of "take ?r (sh_buf (hm_ictx h1))", unfolded len] have "memcpy_at (sh_buf i3) ?r ?e 4
          = final_block (take ?r (sh_buf (hm_ictx h1)) @ ?e) (of_nat (8 * (length ?m + 4)))"
        unfolding i3(3) pend .
      moreover have "?e \<noteq> []" "length ?m mod 64 + length ?e < 56" using assms(2) r by (auto simp: be32enc_def)
      note sha256_small [OF I this, unfolded r(1) length_be32enc]
      ultimately have inner: "be32enc_vect (SHA256_Transform (sh_state i3) (memcpy_at (sh_buf i3) ?r ?e 4)) 4 = sha256 (?m @ ?e)"
        by (simp only: i3(2))
      have "memcpy_at (sh_buf o3) 0 h 32 = final_block h (of_nat (8 * 96))" if "length h = 32" for h
        using that fedD(2) [OF O1] by (simp add: o3(3) final_block_def memcpy_at_def)
      moreover have "sha256 (hmac_outer P @ h) = be32enc_vect (SHA256_Transform (sh_state (hm_octx h1)) (final_block h (of_nat (8 * 96)))) 4"
        if "length h = 32" for h
        using that sha256_small [OF O1, of h] by fastforce
      moreover have "hm_ictx hctx = i3" "hm_octx hctx = o3" by (simp_all add: hctx_def)
      ultimately show ?thesis
        unfolding pbkdf2_fast_block_def Let_def hmac_def append_assoc [symmetric] by (simp only: inner o3(2) length_sha256)
    qed
  qed
qed

lemma concat_full: "(\<And>i. length (f i) = k) \<Longrightarrow> length (concat (map f [0..<n])) = n * k"
  by (induction n) simp_all

lemma pbkdf2_fast_ok:
  assumes "hmac_buffers ctx" "dkLen \<le> 32 * (2 ^ 32 - 1)" "dkLen mod 32 = 0" "length S mod 64 \<le> 51"
  shows "PBKDF2_SHA256 ctx P S 1 dkLen = Some (pbkdf2 P S 1 dkLen)"
proof -
  let ?f = "\<lambda>i. hmac P (S @ be32enc (of_nat (i + 1)))"
  obtain n where n: "dkLen = n * 32" using assms(3) by (metis mod_0_imp_dvd dvd_div_mult_self)
  from fast_prepare_ok [OF assms(1,4), of P] obtain hctx where prep: "pbkdf2_fast_prepare ctx P S = Some (hctx, length S mod 64)"
    and "\<And>i. pbkdf2_fast_block hctx (length S mod 64) i = ?f i" by metis
  then have "pbkdf2_fast_block hctx (length S mod 64) = ?f" by blast
  moreover have "pbkdf2_T P S 1 (Suc i) = ?f i" for i by (simp add: pbkdf2_T_def pbkdf2_U_def)
  then have "pbkdf2 P S 1 dkLen = concat (map ?f [0..<n])"
    unfolding pbkdf2_def blocks_from_one n using concat_full [where f = ?f and k = 32 and n = n] by simp
  ultimately show ?thesis
    unfolding PBKDF2_SHA256_def using assms(2,4) by (simp add: prep n)
qed

lemma pbkdf2_generic_stuck:
  assumes "0 < dkLen"
  shows "pbkdf2_generic ctx P S (- 1) dkLen = None"
proof -
  have "pbkdf2_generic_block Phctx PShctx (- 1) i = None" for Phctx PShctx i
    by (simp add: pbkdf2_generic_block_def Let_def pbkdf2_loop_stuck word_less_nat_alt unsigned_minus_1_eq_mask mask_eq_exp_minus_1)
  moreover obtain n where "(dkLen + 31) div 32 = Suc n" using assms by (cases "(dkLen + 31) div 32") auto
  then have "[0..<(dkLen + 31) div 32] = 0 # [1..<Suc n]" by (simp add: upt_conv_Cons del: upt_Suc)
  ultimately show ?thesis unfolding pbkdf2_generic_def Let_def by simp
qed

text \<open>C25: \<open>PBKDF2_SHA256\<close> computes PBKDF2-HMAC-SHA256 (RFC 8018, over HMAC as RFC 2104 states it) for every password, salt,
  number of iterations and length, on its fast path, where the padded blocks are prepared once, as on its generic one. It does not
  return in two cases only: the length is more than \<open>32 * (2 ^ 32 - 1)\<close> and the \<open>assert\<close> fails, or the number of iterations is
  \<open>UINT64_MAX\<close> and bytes are wanted, where the loop \<open>j <= c\<close> does not end.\<close>

theorem pbkdf2_computes:
  assumes "hmac_buffers ctx"
  shows "PBKDF2_SHA256 ctx P S c dkLen =
    (if dkLen \<le> 32 * (2 ^ 32 - 1) \<and> (c \<noteq> - 1 \<or> dkLen = 0) then Some (pbkdf2 P S (unat c) dkLen) else None)"
proof -
  consider "32 * (2 ^ 32 - 1) < dkLen" | "dkLen \<le> 32 * (2 ^ 32 - 1)" "c = 1 \<and> dkLen mod 32 = 0 \<and> length S mod 64 \<le> 51"
    | "dkLen \<le> 32 * (2 ^ 32 - 1)" "\<not> (c = 1 \<and> dkLen mod 32 = 0 \<and> length S mod 64 \<le> 51)" by linarith
  then show ?thesis
  proof cases
    case 1
    then show ?thesis by (simp add: PBKDF2_SHA256_def)
  next
    case 2
    then show ?thesis using pbkdf2_fast_ok [OF assms] by simp
  next
    case 3
    then have "(32 * (2 ^ 32 - 1) < dkLen) = False" "(c = 1 \<and> dkLen mod 32 = 0 \<and> length S mod 64 \<le> 51) = False" using 3 by auto
    then have "PBKDF2_SHA256 ctx P S c dkLen = pbkdf2_generic ctx P S c dkLen" unfolding PBKDF2_SHA256_def by (simp only: if_False)
    moreover have "pbkdf2_generic ctx P S c 0 = Some (pbkdf2 P S (unat c) 0)" by (simp add: pbkdf2_generic_def pbkdf2_def Let_def)
    ultimately show ?thesis using 3(1) pbkdf2_generic_ok [OF assms, of c P S dkLen] pbkdf2_generic_stuck [of dkLen ctx P S] by auto
  qed
qed


theorem pbkdf2_computes_witness:
  "hmac_buffers \<lparr>hm_ictx = \<lparr>sh_state = [], sh_count = 7, sh_buf = replicate 64 1\<rparr>, hm_octx = \<lparr>sh_state = [], sh_count = 9, sh_buf = replicate 64 2\<rparr>\<rparr>
   \<and> PBKDF2_SHA256 \<lparr>hm_ictx = \<lparr>sh_state = [], sh_count = 7, sh_buf = replicate 64 1\<rparr>, hm_octx = \<lparr>sh_state = [], sh_count = 9, sh_buf = replicate 64 2\<rparr>\<rparr>
       [1, 2] [3] 1 64 = Some (pbkdf2 [1, 2] [3] 1 64)"
proof
  show buffers: "hmac_buffers \<lparr>hm_ictx = \<lparr>sh_state = [], sh_count = 7, sh_buf = replicate 64 1\<rparr>,
      hm_octx = \<lparr>sh_state = [], sh_count = 9, sh_buf = replicate 64 2\<rparr>\<rparr>" by (simp add: hmac_buffers_def)
  show "PBKDF2_SHA256 \<lparr>hm_ictx = \<lparr>sh_state = [], sh_count = 7, sh_buf = replicate 64 1\<rparr>,
      hm_octx = \<lparr>sh_state = [], sh_count = 9, sh_buf = replicate 64 2\<rparr>\<rparr> [1, 2] [3] 1 64 = Some (pbkdf2 [1, 2] [3] 1 64)"
    using pbkdf2_computes [OF buffers, of "[1, 2]" "[3]" 1 64] by simp
qed

end
