(* ===== verification/Spec2Isabelle.thy ===== *)
theory Spec2Isabelle
  imports Zen_Prelude Bytes Reciprocal CString Rx_Algo Job Soft_Aes Aes_Hash Blake2b
    Rx_Config Rx_Bytecode Rx_Arith Rx_Exec Rx_Terminate Rx_Vm Rx_Hash Worker Ar2_Blake2 Ar2_Core Ar2_Safety Ar2_Fill
    Ar2_Context Ar2_Base64 Ar2_Encoding Ar2_Api Rx_Superscalar Rx_Superscalar_Ok
    Rx_Dataset Rx_Dataset_Ok Rx_Dataset_Fill Rx_Light Worker_Sync Rx_Instances Rx_Granted Miner Miner_Ok Miner_Safe
    Client Client_Json Client_Ok Client_Live Miner_Rate
    Json_Pieces Config Config_Text Config_Segs Config_Ok
    Keccak Keccak_Perm Sponge Sponge_Ok KangarooTwelve KangarooTwelve_Ok
    Sha256 Sha256_Ok Pbkdf2_Ok
begin

text \<open>
  Verification library of ZenRX, a RandomX miner (\<open>src/zenrx/src\<close>).

  \<^bold>\<open>The program.\<close>  A \<open>Client\<close> per pool receives jobs over the stratum protocol and hands them to the \<open>Miner\<close>.  The
  \<open>Miner\<close> keeps two RandomX instances (\<open>crypto/RandomX\<close>, \<open>crypto/RxInstance\<close>), the user's and the developer's, each a
  cache, a dataset and one virtual machine per thread; it initialises them for the seed of a job in a thread of its
  own, gives jobs to \<open>Worker\<close> threads, pauses these while a dataset is replaced, switches all of them to the
  developer's pool for a minute in a hundred, and routes the shares they find.  A \<open>Worker\<close> tries nonces: it hashes the
  blob of its job with a RandomX machine and submits what is below the target.  RandomX (\<open>crypto/randomx\<close>) fills the
  cache with Argon2 (\<open>crypto/argon2\<close>), derives superscalar programs from it that compute the items of the dataset, and
  hashes by interpreting random programs over a scratchpad filled and hashed with AES rounds; the seeds of its
  generators come from BLAKE2b, and for one algorithm from the hashes of \<open>randomx/panthera\<close>.  \<open>Config\<close> reads the settings of
  all of them from the command line and a file, and writes them back.

  \<^bold>\<open>Theories and code.\<close>
  \<^item> \<open>Zen_Prelude\<close>, \<open>Bytes\<close>, \<open>CString\<close>: words, byte strings, little-endian loads and stores (\<open>blake2/endian.h\<close>,
    \<open>blake2/blake2-impl.h\<close>), C strings; the lemmas on lists and words that the components share.
  \<^item> \<open>Reciprocal\<close> (\<open>randomx/reciprocal.c\<close>), \<open>Soft_Aes\<close> (\<open>randomx/soft_aes.h\<close>), \<open>Aes_Hash\<close> (\<open>randomx/aes_hash.cpp\<close>), \<open>Blake2b\<close>
    (\<open>randomx/blake2/blake2b.c\<close>): the primitives of RandomX.
  \<^item> \<open>Rx_Algo\<close> (\<open>Config.h\<close>, \<open>crypto/Algorithm.h\<close>), \<open>Rx_Config\<close> (\<open>randomx/randomx.h\<close>, \<open>randomx.cpp\<close>): algorithms and their
    configurations.
  \<^item> \<open>Rx_Arith\<close>, \<open>Rx_Bytecode\<close>, \<open>Rx_Exec\<close>, \<open>Rx_Terminate\<close> (\<open>instructions_portable.cpp\<close>, \<open>bytecode_machine.cpp/hpp\<close>): the
    interpreter: compilation of programs, execution, and why execution ends.
  \<^item> \<open>Rx_Vm\<close>, \<open>Rx_Hash\<close> (\<open>virtual_machine.cpp\<close>, \<open>vm_interpreted.cpp\<close>, \<open>randomx.cpp\<close>): the machine and the hash functions, plain
    and pipelined.
  \<^item> \<open>Ar2_Blake2\<close>, \<open>Ar2_Core\<close>, \<open>Ar2_Safety\<close>, \<open>Ar2_Fill\<close>, \<open>Ar2_Context\<close>, \<open>Ar2_Base64\<close>, \<open>Ar2_Encoding\<close>, \<open>Ar2_Api\<close> (\<open>crypto/argon2\<close>):
    Argon2 from its own BLAKE2b to the encoded form and verification.
  \<^item> \<open>Rx_Superscalar\<close>, \<open>Rx_Superscalar_Ok\<close> (\<open>superscalar.cpp\<close>, \<open>blake2_generator.cpp\<close>): generation and execution of superscalar
    programs.  \<open>Rx_Dataset\<close>, \<open>Rx_Dataset_Ok\<close>, \<open>Rx_Dataset_Fill\<close>, \<open>Rx_Light\<close> (\<open>dataset.cpp\<close>, \<open>vm_interpreted_light.cpp\<close>,
    \<open>RxInstance::initDataset\<close>): cache, dataset items, filling by threads, and the machine without dataset.
  \<^item> \<open>Job\<close> (\<open>Job.h\<close>, \<open>Job.cpp\<close>, \<open>HexUtils.h\<close>), \<open>Worker\<close>, \<open>Worker_Sync\<close> (\<open>Worker.cpp\<close>): jobs, the mining loop, and pausing and
    stopping with every interleaving of a worker and the miner.
  \<^item> \<open>Rx_Manager\<close>, \<open>Rx_Manager_Ok\<close>, \<open>Rx_Instances\<close>, \<open>Rx_Granted\<close> (\<open>RxInstance.cpp\<close>, \<open>RandomX.cpp\<close>): the life of the two
    instances and of everything they allocate.
  \<^item> \<open>Miner\<close>, \<open>Miner_Ok\<close>, \<open>Miner_Safe\<close> (\<open>Miner.cpp\<close>): jobs, the developer's period, routing of shares, the initialising thread,
    composed with \<open>Worker\<close> and \<open>Rx_Manager\<close>.  \<open>Miner_Rate\<close> (\<open>Miner::sampleHashrate\<close>, \<open>hashrate\<close>): the ring of samples.
  \<^item> \<open>Json_Pieces\<close>: texts as pieces between quotation marks, for the two hand-written JSON readers below.
  \<^item> \<open>Client\<close>, \<open>Client_Json\<close>, \<open>Client_Ok\<close>, \<open>Client_Live\<close> (\<open>Client.cpp\<close>, \<open>Client.h\<close>): the stratum protocol: reading and writing of its
    messages, the line buffer, shares and their history, connecting, the passes of the network loop and its keepalive.
  \<^item> \<open>Config\<close>, \<open>Config_Text\<close>, \<open>Config_Segs\<close>, \<open>Config_Ok\<close> (\<open>Config.cpp\<close>, \<open>Config.h\<close>): the settings, \<open>parseFile\<close>, \<open>saveFile\<close>, \<open>parseArgs\<close> and
    \<open>autoDetect\<close>.
  \<^item> \<open>Keccak\<close>, \<open>Keccak_Perm\<close> (\<open>panthera/KeccakP-1600-reference.c\<close>), \<open>Sponge\<close>, \<open>Sponge_Ok\<close> (\<open>panthera/KeccakSponge.inc\<close>),
    \<open>KangarooTwelve\<close>, \<open>KangarooTwelve_Ok\<close> (\<open>panthera/KangarooTwelve.c\<close>): the permutation, the sponge over it, the tree hash.
  \<^item> \<open>Sha256\<close>, \<open>Sha256_Ok\<close>, \<open>Pbkdf2_Ok\<close> (\<open>panthera/sha256.c\<close>, \<open>sysendian.h\<close>): SHA-256, HMAC and PBKDF2, against their standards.

  \<^bold>\<open>State and operations.\<close>  Structs and classes are records with the members' names, enumerations are datatypes, integers
  of the code are words of their width where they can wrap, memory is a list of bytes or words, and a failing call
  returns an option, an error code as the code does, or a boolean.  Objects that the code allocates and frees
  (\<open>Rx_Manager\<close>) live at addresses of a map, so that leaks and uses after free can be stated.  Threads are inductive step
  relations (\<open>Worker_Sync\<close>, \<open>Rx_Light\<close>) or lists of atomic events (\<open>Miner\<close>, \<open>Worker\<close>).

  \<^bold>\<open>What the lemmas show.\<close>  Each component has its invariant, and lemmas that its operations keep it; optimised code is
  proved equal to simple code (the fused AES pass, streaming and pipelined hashing, the two reciprocals, the light
  machine, the two BLAKE2b libraries, the sponge in pieces and at once, the tree hash, both paths
  of PBKDF2, the line buffer however the network
  cuts its text); loops are total or proved to end; buffers are never left (Argon2 indices, machine
  memory, encoded forms).  What the program writes it reads back: the settings, a notification of the pool, Argon2's encoded
  hashes.  The Keccak permutation is a bijection of the states.  A logged-in pool that falls silent is dropped after 540 to 576
  seconds.  The composition is in \<open>Worker\<close> (while one algorithm's configuration is in force and equal job ids mean equal work,
  every share is the hash of its job with its nonce, over the dataset of the machine the right instance handed out), \<open>Rx_Light\<close>
  (threads and light machine against the dataset) and \<open>Miner_Safe\<close> (while only the user's pool sends jobs, each with its own id,
  stays connected, and allocations succeed, a running worker hashes with a live machine over the dataset of its job's seed).
  Each property states its conditions; several of them are there because the code breaks the property without them.  Where the code does not keep such a promise the lemma says so on a concrete
  course of events: \<open>last_worker_stuck\<close>, \<open>second_pause_deadlocks\<close>, \<open>pause_races\<close>, \<open>dataset_gap_32_bit\<close>,
  \<open>refused_machine_deadlocks\<close>, \<open>developer_instance_changes_configuration\<close>, \<open>destroyed_machine_in_developer_period\<close>,
  \<open>failed_developer_job_never_returns\<close>, \<open>unanswered_login_waits\<close>, \<open>quick_algorithm_change_loses_workers\<close>, \<open>partial_line_outlives_connection\<close>,
  \<open>first_rejection_not_counted\<close>, \<open>saved_settings_override_options\<close>, \<open>hashrate_wraps\<close>, \<open>sponge_absorb_stuck\<close>, \<open>pbkdf2_generic_stuck\<close>.

  \<^bold>\<open>Interfaces.\<close>  A locale states what a client relies on, and is interpreted on the model of the provider: the program
  runner of the hash functions (\<open>vm_backend\<close> in \<open>Rx_Hash\<close>, interpreted for the full machine), the pair of hash functions a worker
  calls, on machines that carry their dataset (\<open>pipelined_hash\<close> in \<open>Rx_Hash\<close>, interpreted for \<open>randomx_calculate_hash_first\<close> and
  \<open>_next\<close> under any algorithm's configuration), the initialiser of dataset items (\<open>dataset_initialiser\<close> in
  \<open>Rx_Dataset_Fill\<close>, interpreted for the portable code; the generated machine code is any other instance), and the permutation under a sponge
  (\<open>snp_permutation\<close> in \<open>Sponge_Ok\<close>, interpreted for Keccak-p with 12 and with any number of rounds).

  \<^bold>\<open>Parameters.\<close>  The rounds of AES and the floating-point unit of the processor (\<open>hw\<close>), the seed hash of panthera (yespower, then
  KangarooTwelve), the outcome of sockets, of \<open>poll\<close> and of TLS in each pass of the network loop, \<open>std::stod\<close> (of which C16
  assumes that it reads a number with one decimal as a nearest \<open>double\<close>; how such a number is printed is \<open>one_decimal\<close> in \<open>Config_Ok\<close>), the options \<open>getopt_long\<close> returns, what is known of the processor, the
  outcome of allocations (\<open>rx_oracle\<close>, and memory given to Argon2), the clock, and the contents of uninitialised memory are
  arguments of the definitions.  Nothing is assumed of them beyond the named hypotheses of a theorem.

  \<^bold>\<open>Bounds and fuel.\<close>  No fuel: a loop that might not end is a partial function into an option.  That it returns is
  proved for every RandomX program (\<open>rx_program_terminates\<close>) and, for the superscalar generator, when the draws from its random
  stream end (\<open>superscalar_generator_returns\<close>).  Sequence numbers have 64 bits; where wrapping would matter the number of
  events is bounded by \<open>2^64\<close>.  Argon2 parameters have the bounds of \<open>argon2.h\<close>.

  \<^bold>\<open>Not modelled.\<close>  Third-party code (\<open>zenrx_deps\<close>), the just-in-time compilers and assembly, the SIMD variants of Argon2 and
  BLAKE2b and the choice among them, NUMA and huge-page system calls (\<open>VirtualMemory\<close>), processor detection and MSR registers
  (\<open>CpuInfo\<close>, \<open>Msr\<close>, \<open>WinRing0Driver\<close>), logging, the HTTP interface, the benchmark and the console (\<open>Api\<close>, \<open>MoBenchmark\<close>, \<open>App\<close>,
  \<open>Log\<close>), yespower of panthera, and the sockets and OpenSSL objects of \<open>Client\<close>.
\<close>

end
